(* ===== verification/Prelude.thy ===== *)
theory Prelude
  imports Main "HOL-Library.Word"
begin

text \<open>
  Shared vocabulary of the Orion68 development: the machine types of the 68000 (\<open>char\<close>,
  \<open>short\<close>, \<open>int\<close>/\<open>long\<close>/pointers as words of 8, 16 and 32 bits), the flat byte memory
  of a machine without an MMU, block and big-endian accesses to it, C strings as they lie
  in that memory, and the generic lemmas about them that the components share.
\<close>

unbundle bit_operations_syntax

section \<open>Machine types\<close>

type_synonym u8 = "8 word"
type_synonym u16 = "16 word"
type_synonym u32 = "32 word"
type_synonym u64 = "64 word"

text \<open>An address is a 32-bit word; the memory is total, as every address of the 68000 can be read.\<close>

type_synonym mem = "u32 \<Rightarrow> u8"

named_theorems mem_simps \<open>reading and framing facts about block writes\<close>

lemma last_notin_butlast: "distinct xs \<Longrightarrow> xs \<noteq> [] \<Longrightarrow> last xs \<notin> set (butlast xs)"
  by (induction xs) (auto dest: in_set_butlastD)

lemma notin_butlast: "x \<notin> set xs \<Longrightarrow> x \<notin> set (butlast xs)"
  by (meson in_set_butlastD)

section \<open>Blocks of bytes\<close>

fun wr_bytes :: "mem \<Rightarrow> u32 \<Rightarrow> u8 list \<Rightarrow> mem" where
  "wr_bytes m a [] = m"
| "wr_bytes m a (b # bs) = wr_bytes (m(a := b)) (a + 1) bs"

fun rd_bytes :: "mem \<Rightarrow> u32 \<Rightarrow> nat \<Rightarrow> u8 list" where
  "rd_bytes m a 0 = []"
| "rd_bytes m a (Suc n) = m a # rd_bytes m (a + 1) n"

text \<open>\<open>in_block a n x\<close>: the address \<open>x\<close> is one of the \<open>n\<close> bytes from \<open>a\<close> on.\<close>

definition in_block :: "u32 \<Rightarrow> nat \<Rightarrow> u32 \<Rightarrow> bool" where
  "in_block a n x \<longleftrightarrow> unat (x - a) < n"

lemma length_rd_bytes [simp]: "length (rd_bytes m a n) = n"
  by (induction n arbitrary: a) auto

lemma unat_less_32: "unat (x :: u32) < 2 ^ 32"
  using unsigned_less [of x, where ?'a = nat] by simp

lemma sint_small:
  assumes "unat (x :: u32) < 2 ^ 31"
  shows "sint x = int (unat x)"
proof -
  have "int (unat x) < int (2 ^ 31)" using assms by (simp only: of_nat_less_iff)
  then have "uint x < 2 ^ 31" by simp
  moreover have "- (2 ^ 31) \<le> uint x" by (rule order_trans [OF _ unsigned_greater_eq]) simp
  ultimately show ?thesis by (simp add: sint_uint signed_take_bit_int_eq_self_iff)
qed

lemma unat_minus_one_step:
  fixes x :: "'a::len word"
  assumes "x \<noteq> 0" shows "unat (x - 1) = unat x - 1"
  using assms by (metis unat_minus_one)

lemma unat_pred:
  fixes x :: "'a::len word"
  assumes "x \<noteq> a" shows "unat (x - (a + 1)) = unat (x - a) - 1"
proof -
  have e: "x - (a + 1) = (x - a) - 1" by simp
  show ?thesis unfolding e using assms by (intro unat_minus_one_step) simp
qed

lemma in_block_Suc: "in_block a (Suc n) x \<longleftrightarrow> x = a \<or> in_block (a + 1) n x" if "n < 2 ^ 32"
proof (cases "x = a")
  case True
  then show ?thesis by (simp add: in_block_def)
next
  case False
  then have nz: "x - a \<noteq> 0" by simp
  have "x - (a + 1) = (x - a) - 1" by simp
  then have e: "unat (x - (a + 1)) = unat (x - a) - 1"
    using unat_minus_one_step [OF nz] by (simp only: )
  have p: "0 < unat (x - a)" using nz by (simp add: unat_gt_0)
  have "(unat (x - a) < Suc n) = (unat (x - (a + 1)) < n)"
    using e p by linarith
  with False show ?thesis by (simp add: in_block_def)
qed

lemma in_block_0 [simp]: "\<not> in_block a 0 x"
  by (simp add: in_block_def)

lemma in_block_self: "0 < n \<Longrightarrow> in_block a n a"
  by (simp add: in_block_def)

lemma not_in_next_block: "n < 2 ^ 32 \<Longrightarrow> \<not> in_block (a + 1) n a"
proof -
  assume n: "n < 2 ^ 32"
  have "a - (a + 1) = (- 1 :: u32)" by simp
  then have "unat (a - (a + 1)) = 2 ^ 32 - 1" by (simp add: unsigned_minus_1_eq_mask mask_eq_exp_minus_1)
  with n show ?thesis by (simp add: in_block_def)
qed

lemma wr_bytes_frame [mem_simps]:
  "\<not> in_block a (length bs) x \<Longrightarrow> length bs \<le> 2 ^ 32 \<Longrightarrow> wr_bytes m a bs x = m x"
proof (induction bs arbitrary: m a)
  case Nil
  then show ?case by simp
next
  case (Cons b bs)
  then have l: "length bs < 2 ^ 32" by simp
  from Cons.prems(1) have "x \<noteq> a" "\<not> in_block (a + 1) (length bs) x"
    using in_block_Suc [OF l, of a x] by auto
  with Cons.IH [of "a + 1" "m(a := b)"] l show ?case by (simp del: fun_upd_apply) simp
qed

lemma rd_wr_bytes [mem_simps]:
  "length bs \<le> 2 ^ 32 \<Longrightarrow> rd_bytes (wr_bytes m a bs) a (length bs) = bs"
proof (induction bs arbitrary: m a)
  case Nil
  then show ?case by simp
next
  case (Cons b bs)
  then have l: "length bs < 2 ^ 32" by simp
  have "wr_bytes (m(a := b)) (a + 1) bs a = b"
    using wr_bytes_frame [OF not_in_next_block [OF l]] l by simp
  with Cons.IH [of "m(a := b)" "a + 1"] l show ?case by (simp del: fun_upd_apply)
qed

lemma wr_bytes_append:
  "wr_bytes m a (xs @ ys) = wr_bytes (wr_bytes m a xs) (a + of_nat (length xs)) ys"
  by (induction xs arbitrary: m a) (auto simp: add.assoc)

lemma rd_bytes_append:
  "rd_bytes m a (n + k) = rd_bytes m a n @ rd_bytes m (a + of_nat n) k"
  by (induction n arbitrary: a) (auto simp: add.assoc)

lemma wr_bytes_nth:
  "i < length bs \<Longrightarrow> length bs \<le> 2 ^ 32 \<Longrightarrow> wr_bytes m a bs (a + of_nat i) = bs ! i"
proof (induction bs arbitrary: m a i)
  case Nil
  then show ?case by simp
next
  case (Cons b bs)
  then have l: "length bs < 2 ^ 32" by simp
  show ?case
  proof (cases i)
    case 0
    then show ?thesis
      using wr_bytes_frame [OF not_in_next_block [OF l], of "m(a := b)" a] l by simp
  next
    case (Suc j)
    then have e: "a + of_nat i = (a + 1) + of_nat j" by simp
    have "wr_bytes (m(a := b)) (a + 1) bs ((a + 1) + of_nat j) = bs ! j"
      using Suc Cons.prems by (intro Cons.IH) simp_all
    then show ?thesis unfolding e using Suc by (simp del: fun_upd_apply)
  qed
qed

lemma rd_bytes_nth: "i < n \<Longrightarrow> rd_bytes m a n ! i = m (a + of_nat i)"
proof (induction n arbitrary: a i)
  case 0
  then show ?case by simp
next
  case (Suc n)
  then show ?case by (cases i) (auto simp: add.assoc)
qed

lemma rd_bytes_cong:
  "(\<And>x. in_block a n x \<Longrightarrow> m x = m' x) \<Longrightarrow> n \<le> 2 ^ 32 \<Longrightarrow> rd_bytes m a n = rd_bytes m' a n"
proof (induction n arbitrary: a)
  case 0
  then show ?case by simp
next
  case (Suc n)
  then have l: "n < 2 ^ 32" by simp
  have "rd_bytes m (a + 1) n = rd_bytes m' (a + 1) n"
    using Suc in_block_Suc [OF l] by (intro Suc.IH) auto
  moreover have "m a = m' a" using Suc.prems(1) by (simp add: in_block_self)
  ultimately show ?case by simp
qed

lemma wr_bytes_apply:
  assumes "length bs \<le> 2 ^ 32"
  shows "wr_bytes m a bs x = (if in_block a (length bs) x then bs ! unat (x - a) else m x)"
proof (cases "in_block a (length bs) x")
  case True
  then have "unat (x - a) < length bs" by (simp add: in_block_def)
  from wr_bytes_nth [OF this assms, of m a] True show ?thesis by simp
next
  case False
  with wr_bytes_frame [OF False assms] show ?thesis by simp
qed

lemma rd_wr_prefix:
  assumes "length (xs @ ys) \<le> 2 ^ 32"
  shows "rd_bytes (wr_bytes m a (xs @ ys)) a (length xs) = xs"
proof (rule nth_equalityI)
  fix i assume "i < length (rd_bytes (wr_bytes m a (xs @ ys)) a (length xs))"
  then have i: "i < length xs" by simp
  then have "wr_bytes m a (xs @ ys) (a + of_nat i) = (xs @ ys) ! i"
    using assms by (intro wr_bytes_nth) simp_all
  then show "rd_bytes (wr_bytes m a (xs @ ys)) a (length xs) ! i = xs ! i"
    using i by (simp add: rd_bytes_nth nth_append)
qed simp

lemma wr_bytes_commute:
  assumes "length xs \<le> 2 ^ 32" "length ys \<le> 2 ^ 32"
    and "\<And>x. in_block a (length xs) x \<Longrightarrow> \<not> in_block b (length ys) x"
  shows "wr_bytes (wr_bytes m a xs) b ys = wr_bytes (wr_bytes m b ys) a xs"
  using assms by (auto simp: wr_bytes_apply fun_eq_iff)

lemma unat_add_of_nat:
  fixes d :: u32
  assumes "unat d + n < 2 ^ 32"
  shows "unat (d + of_nat n) = unat d + n"
proof -
  have "n < 2 ^ 32" using assms by simp
  then have n: "unat (of_nat n :: u32) = n" by (simp add: unat_of_nat)
  then have "unat (d + of_nat n) = unat d + unat (of_nat n :: u32)"
    using assms by (intro unat_add_lem [THEN iffD1]) simp
  then show ?thesis using n by simp
qed

lemma in_block_adjacent:
  assumes "in_block a n x" "n + k \<le> 2 ^ 32"
  shows "\<not> in_block (a - of_nat k) k x"
proof -
  have u: "unat (x - a) < n" using assms(1) by (simp add: in_block_def)
  have e: "x - (a - of_nat k) = (x - a) + of_nat k" by simp
  have "unat (x - (a - of_nat k)) = unat (x - a) + k"
    unfolding e using u assms(2) by (intro unat_add_of_nat) simp
  then show ?thesis by (simp add: in_block_def)
qed

text \<open>Writing a block right below another one.\<close>

lemma wr_bytes_below:
  assumes "length xs + length bs \<le> 2 ^ 32"
  shows "wr_bytes (wr_bytes m a bs) (a - of_nat (length xs)) xs = wr_bytes m (a - of_nat (length xs)) (xs @ bs)"
proof -
  have "wr_bytes (wr_bytes m a bs) (a - of_nat (length xs)) xs
      = wr_bytes (wr_bytes m (a - of_nat (length xs)) xs) a bs"
    using assms in_block_adjacent [of a "length bs" _ "length xs"]
    by (intro wr_bytes_commute) auto
  then show ?thesis by (simp add: wr_bytes_append)
qed

text \<open>Two blocks that share no address.\<close>

definition disjoint_blocks :: "u32 \<Rightarrow> nat \<Rightarrow> u32 \<Rightarrow> nat \<Rightarrow> bool" where
  "disjoint_blocks a n b k \<longleftrightarrow> n \<le> unat (b - a) \<and> k \<le> unat (a - b)"

lemma disjoint_blocksD:
  assumes "disjoint_blocks a n b k" "in_block a n x"
  shows "\<not> in_block b k x"
proof
  assume "in_block b k x"
  with assms have i: "unat (x - a) < n" and j: "unat (x - b) < k"
    and ba: "n \<le> unat (b - a)" and ab: "k \<le> unat (a - b)"
    by (simp_all add: in_block_def disjoint_blocks_def)
  show False
  proof (cases "x - b \<le> x - a")
    case True
    have "b - a = (x - a) - (x - b)" by simp
    with True have "unat (b - a) = unat (x - a) - unat (x - b)"
      by (simp only: unat_sub)
    with i ba show False by simp
  next
    case False
    then have le: "x - a \<le> x - b" by simp
    have "a - b = (x - b) - (x - a)" by simp
    with le have "unat (a - b) = unat (x - b) - unat (x - a)"
      by (simp only: unat_sub)
    with j ab show False by simp
  qed
qed

text \<open>Disjointness survives dropping the first byte of both blocks.\<close>

lemma disjoint_blocks_step:
  assumes "disjoint_blocks a (Suc n) b (Suc k)"
  shows "disjoint_blocks (a + 1) n (b + 1) k" "a \<noteq> b" "\<not> in_block (b + 1) k a" "\<not> in_block (a + 1) n b"
proof -
  have "b + 1 - (a + 1) = b - a" "a + 1 - (b + 1) = a - b" by simp_all
  with assms show "disjoint_blocks (a + 1) n (b + 1) k" by (simp add: disjoint_blocks_def)
  show "a \<noteq> b" using assms by (auto simp: disjoint_blocks_def)
  have nk: "n < 2 ^ 32" "k < 2 ^ 32"
    using assms unat_less_32 [of "b - a"] unat_less_32 [of "a - b"] by (simp_all add: disjoint_blocks_def)
  have "\<not> in_block b (Suc k) a" using disjoint_blocksD [OF assms] by (simp add: in_block_self)
  then show "\<not> in_block (b + 1) k a" using in_block_Suc [OF nk(2)] by simp
  have "\<not> in_block a (Suc n) b" using disjoint_blocksD [OF assms, of b] in_block_self [of "Suc k" b] by auto
  then show "\<not> in_block (a + 1) n b" using in_block_Suc [OF nk(1)] by simp
qed

lemma disjoint_blocks_sym: "disjoint_blocks a n b k = disjoint_blocks b k a n"
  by (auto simp: disjoint_blocks_def)

lemma unat_uminus:
  fixes x :: u32
  assumes "x \<noteq> 0"
  shows "unat (- x) = 2 ^ 32 - unat x"
proof -
  have le: "unat x \<le> 2 ^ 32" using unat_less_32 [of x] by simp
  have p: "0 < unat x" using assms by (simp add: unat_gt_0)
  have z: "of_nat (2 ^ 32) = (0 :: u32)" by simp
  have "of_nat (2 ^ 32 - unat x) = of_nat (2 ^ 32) - (of_nat (unat x) :: u32)" by (rule of_nat_diff [OF le])
  then have "- x = of_nat (2 ^ 32 - unat x)" unfolding z by simp
  then have "unat (- x) = (2 ^ 32 - unat x) mod 2 ^ 32" by (simp only: unat_of_nat) simp
  then show ?thesis using p by simp
qed

lemma disjoint_blocks_part:
  assumes d: "disjoint_blocks a n b k" and le: "off + l \<le> n" and l: "0 < l"
  shows "disjoint_blocks (a + of_nat off) l b k"
proof -
  have n: "n \<le> unat (b - a)" and k: "k \<le> unat (a - b)" using d by (simp_all add: disjoint_blocks_def)
  have off: "off < unat (b - a)" using n le l by simp
  then have off32: "off < 2 ^ 32" using unat_less_32 [of "b - a"] by simp
  then have uoff: "unat (of_nat off :: u32) = off" by (simp add: unat_of_nat)
  have "of_nat off \<le> b - a" using off uoff by (simp add: word_le_nat_alt)
  then have "unat ((b - a) - of_nat off) = unat (b - a) - off"
    using uoff by (simp add: unat_sub)
  moreover have e1: "b - (a + of_nat off) = (b - a) - of_nat off" by simp
  ultimately have 1: "l \<le> unat (b - (a + of_nat off))" unfolding e1 using n le by linarith
  have "unat (a - b) + unat (b - a) = 2 ^ 32"
  proof -
    have nz: "b - a \<noteq> 0" using off by auto
    have "unat (- (b - a)) = 2 ^ 32 - unat (b - a)" using nz by (rule unat_uminus)
    then show ?thesis using unat_less_32 [of "b - a"] by simp
  qed
  then have "unat ((a - b) + of_nat off) = unat (a - b) + off"
    using off by (intro unat_add_of_nat) simp
  moreover have e2: "a + of_nat off - b = (a - b) + of_nat off" by simp
  ultimately have 2: "k \<le> unat (a + of_nat off - b)" unfolding e2 using k by linarith
  show ?thesis using 1 2 by (simp add: disjoint_blocks_def)
qed

text \<open>Overwriting a block, or a part of it.\<close>

lemma wr_bytes_overwrite:
  "length ys = length xs \<Longrightarrow> length xs \<le> 2 ^ 32 \<Longrightarrow> wr_bytes (wr_bytes m a xs) a ys = wr_bytes m a ys"
  by (simp add: wr_bytes_apply fun_eq_iff)

lemma wr_bytes_rd_bytes: "n \<le> 2 ^ 32 \<Longrightarrow> wr_bytes m a (rd_bytes m a n) = m"
  by (auto simp: wr_bytes_apply fun_eq_iff in_block_def rd_bytes_nth)

lemma in_block_part:
  assumes "in_block (a + of_nat k) n x" "k + n \<le> l" "l \<le> 2 ^ 32"
  shows "in_block a l x"
proof -
  have u: "unat (x - (a + of_nat k)) < n" using assms(1) by (simp add: in_block_def)
  have e: "x - a = (x - (a + of_nat k)) + of_nat k" by simp
  have "unat (x - a) = unat (x - (a + of_nat k)) + k"
    unfolding e using u assms(2,3) by (intro unat_add_of_nat) simp
  with u assms(2) show ?thesis by (simp add: in_block_def)
qed

lemma wr_bytes_part:
  assumes "length ys' = length ys" "length xs + length ys + length zs \<le> 2 ^ 32"
  shows "wr_bytes (wr_bytes m a (xs @ ys @ zs)) (a + of_nat (length xs)) ys' = wr_bytes m a (xs @ ys' @ zs)"
proof -
  let ?b = "a + of_nat (length xs)"
  have "wr_bytes (wr_bytes (wr_bytes (wr_bytes m a xs) ?b ys) (?b + of_nat (length ys)) zs) ?b ys'
      = wr_bytes (wr_bytes (wr_bytes (wr_bytes m a xs) ?b ys) ?b ys') (?b + of_nat (length ys)) zs"
  proof (rule wr_bytes_commute)
    fix x assume "in_block (?b + of_nat (length ys)) (length zs) x"
    from in_block_adjacent [OF this, of "length ys"] show "\<not> in_block ?b (length ys') x"
      using assms by simp
  qed (use assms in simp_all)
  then show ?thesis using assms by (simp add: wr_bytes_append wr_bytes_overwrite)
qed

section \<open>Big-endian 16-bit and 32-bit values\<close>

definition be16 :: "u16 \<Rightarrow> u8 list" where
  "be16 v = [ucast (drop_bit 8 v), ucast v]"

definition be32 :: "u32 \<Rightarrow> u8 list" where
  "be32 v = [ucast (drop_bit 24 v), ucast (drop_bit 16 v), ucast (drop_bit 8 v), ucast v]"

definition of_be32 :: "u8 \<Rightarrow> u8 \<Rightarrow> u8 \<Rightarrow> u8 \<Rightarrow> u32" where
  "of_be32 b0 b1 b2 b3 = push_bit 24 (ucast b0) OR push_bit 16 (ucast b1) OR push_bit 8 (ucast b2) OR ucast b3"

definition of_be16 :: "u8 \<Rightarrow> u8 \<Rightarrow> u16" where
  "of_be16 b0 b1 = push_bit 8 (ucast b0) OR ucast b1"

definition rd16 :: "mem \<Rightarrow> u32 \<Rightarrow> u16" where
  "rd16 m a = of_be16 (m a) (m (a + 1))"

definition rd32 :: "mem \<Rightarrow> u32 \<Rightarrow> u32" where
  "rd32 m a = of_be32 (m a) (m (a + 1)) (m (a + 2)) (m (a + 3))"

definition wr32 :: "mem \<Rightarrow> u32 \<Rightarrow> u32 \<Rightarrow> mem" where
  "wr32 m a v = wr_bytes m a (be32 v)"

definition wr16 :: "mem \<Rightarrow> u32 \<Rightarrow> u16 \<Rightarrow> mem" where
  "wr16 m a v = wr_bytes m a (be16 v)"

lemma length_be [simp]: "length (be16 v) = 2" "length (be32 w) = 4"
  by (simp_all add: be16_def be32_def)

lemma of_be32_be32: "of_be32 (ucast (drop_bit 24 v)) (ucast (drop_bit 16 v)) (ucast (drop_bit 8 v)) (ucast v) = v"
  for v :: u32
proof (rule bit_word_eqI)
  fix n assume "n < LENGTH(32)"
  then have n: "n < 32" by simp
  consider "n < 8" | "8 \<le> n" "n < 16" | "16 \<le> n" "n < 24" | "24 \<le> n" "n < 32"
    using n by linarith
  then show "bit (of_be32 (ucast (drop_bit 24 v)) (ucast (drop_bit 16 v)) (ucast (drop_bit 8 v)) (ucast v)) n = bit v n"
    by cases (auto simp: of_be32_def bit_simps)
qed

lemma of_be16_be16: "of_be16 (ucast (drop_bit 8 v)) (ucast v) = v" for v :: u16
proof (rule bit_word_eqI)
  fix n assume "n < LENGTH(16)"
  then show "bit (of_be16 (ucast (drop_bit 8 v)) (ucast v)) n = bit v n"
    by (auto simp: of_be16_def bit_simps)
qed

lemma rd32_wr_be32: "rd32 (wr_bytes m a (be32 v)) a = v"
proof -
  let ?m = "wr_bytes m a (be32 v)"
  have r: "\<And>i. i < 4 \<Longrightarrow> ?m (a + of_nat i) = be32 v ! i"
    by (rule wr_bytes_nth) simp_all
  have "?m a = be32 v ! 0" "?m (a + 1) = be32 v ! 1" "?m (a + 2) = be32 v ! 2" "?m (a + 3) = be32 v ! 3"
    using r [of 0] r [of 1] r [of 2] r [of 3] by simp_all
  then show ?thesis
    by (simp add: rd32_def be32_def numeral_2_eq_2 numeral_3_eq_3 of_be32_be32)
qed

lemma rd16_wr_be16: "rd16 (wr_bytes m a (be16 v)) a = v"
proof -
  let ?m = "wr_bytes m a (be16 v)"
  have r: "\<And>i. i < 2 \<Longrightarrow> ?m (a + of_nat i) = be16 v ! i"
    by (rule wr_bytes_nth) simp_all
  have "?m a = be16 v ! 0" "?m (a + 1) = be16 v ! 1"
    using r [of 0] r [of 1] by simp_all
  then show ?thesis
    by (simp add: rd16_def be16_def of_be16_be16)
qed

lemma rd32_wr_nth:
  assumes "i + 4 \<le> length bs" "length bs \<le> 2 ^ 32"
  shows "rd32 (wr_bytes m a bs) (a + of_nat i) = of_be32 (bs ! i) (bs ! (i + 1)) (bs ! (i + 2)) (bs ! (i + 3))"
proof -
  have r: "\<And>k. k < 4 \<Longrightarrow> wr_bytes m a bs (a + of_nat i + of_nat k) = bs ! (i + k)"
    using wr_bytes_nth [of "i + _" bs m a] assms by (simp add: add.assoc)
  show ?thesis using r [of 0] r [of 1] r [of 2] r [of 3] by (simp add: rd32_def)
qed

lemma rd16_wr_nth:
  assumes "i + 2 \<le> length bs" "length bs \<le> 2 ^ 32"
  shows "rd16 (wr_bytes m a bs) (a + of_nat i) = of_be16 (bs ! i) (bs ! (i + 1))"
proof -
  have r: "\<And>k. k < 2 \<Longrightarrow> wr_bytes m a bs (a + of_nat i + of_nat k) = bs ! (i + k)"
    using wr_bytes_nth [of "i + _" bs m a] assms by (simp add: add.assoc)
  show ?thesis using r [of 0] r [of 1] by (simp add: rd16_def)
qed

text \<open>Reading back a 16-bit or 32-bit value written as a part of a block.\<close>

lemma rd32_wr_part:
  assumes "bs = xs @ be32 v @ ys" "length bs \<le> 2 ^ 32" "p = a + of_nat (length xs)"
  shows "rd32 (wr_bytes m a bs) p = v"
  using rd32_wr_nth [of "length xs" bs m a] assms
  by (simp add: nth_append be32_def of_be32_be32)

lemma rd16_wr_part:
  assumes "bs = xs @ be16 v @ ys" "length bs \<le> 2 ^ 32" "p = a + of_nat (length xs)"
  shows "rd16 (wr_bytes m a bs) p = v"
  using rd16_wr_nth [of "length xs" bs m a] assms
  by (simp add: nth_append be16_def of_be16_be16)

lemma length_words [simp]: "length (concat (map be32 ws)) = 4 * length ws"
  by (induction ws) auto

text \<open>A word of an array that was written as part of a block.\<close>

lemma rd32_words:
  assumes "i < length ws" "bs = xs @ concat (map be32 ws) @ ys" "length bs \<le> 2 ^ 32"
    "p = a + of_nat (length xs) + 4 * of_nat i"
  shows "rd32 (wr_bytes m a bs) p = ws ! i"
proof (rule rd32_wr_part [OF _ assms(3)])
  have "ws = take i ws @ ws ! i # drop (Suc i) ws" using assms(1) by (simp add: id_take_nth_drop)
  then have "concat (map be32 ws) = concat (map be32 (take i ws)) @ be32 (ws ! i) @ concat (map be32 (drop (Suc i) ws))"
    by (metis concat.simps(2) concat_append list.simps(9) map_append)
  then show "bs = (xs @ concat (map be32 (take i ws))) @ be32 (ws ! i) @ concat (map be32 (drop (Suc i) ws)) @ ys"
    by (simp add: assms(2))
  show "p = a + of_nat (length (xs @ concat (map be32 (take i ws))))"
    using assms(1,4) by (simp add: add.assoc)
qed

lemma rd16_frame:
  assumes "\<And>x. in_block p 2 x \<Longrightarrow> m x = m' x"
  shows "rd16 m p = rd16 m' p"
  using assms [of p] assms [of "p + 1"] by (simp add: rd16_def in_block_def)

lemma be32_zero: "be32 0 = [0, 0, 0, 0]"
  by (simp add: be32_def)

lemma wr_bytes_be32: "wr_bytes m a (be32 v) =
    m(a := ucast (drop_bit 24 v), a + 1 := ucast (drop_bit 16 v), a + 2 := ucast (drop_bit 8 v), a + 3 := ucast v)"
  by (simp add: be32_def add.assoc)

lemma wr_bytes_be16: "wr_bytes m a (be16 v) = m(a := ucast (drop_bit 8 v), a + 1 := ucast v)"
  by (simp add: be16_def)

section \<open>C strings in memory\<close>

text \<open>\<open>cstr m p s\<close>: from \<open>p\<close> on the memory holds the non-zero bytes \<open>s\<close> and then a zero byte.\<close>

fun cstr :: "mem \<Rightarrow> u32 \<Rightarrow> u8 list \<Rightarrow> bool" where
  "cstr m p [] \<longleftrightarrow> m p = 0"
| "cstr m p (c # cs) \<longleftrightarrow> c \<noteq> 0 \<and> m p = c \<and> cstr m (p + 1) cs"

lemma cstr_rd_bytes: "cstr m p s \<Longrightarrow> rd_bytes m p (length s) = s"
  by (induction s arbitrary: p) auto

lemma cstr_nonzero: "cstr m p s \<Longrightarrow> 0 \<notin> set s"
  by (induction s arbitrary: p) auto

lemma cstr_iff: "cstr m p s \<longleftrightarrow> 0 \<notin> set s \<and> rd_bytes m p (Suc (length s)) = s @ [0]"
  by (induction s arbitrary: p) auto

lemma cstr_unique: "cstr m p s \<Longrightarrow> cstr m p t \<Longrightarrow> s = t"
proof (induction s arbitrary: p t)
  case Nil
  then show ?case by (cases t) auto
next
  case (Cons c s)
  then show ?case by (cases t) auto
qed

lemma cstr_append:
  "cstr m p (xs @ ys) \<longleftrightarrow> 0 \<notin> set xs \<and> rd_bytes m p (length xs) = xs \<and> cstr m (p + of_nat (length xs)) ys"
  by (induction xs arbitrary: p) (auto simp: add.assoc)

lemma cstr_upd: "\<not> in_block p (Suc (length s)) a \<Longrightarrow> length s < 2 ^ 32 \<Longrightarrow> cstr (m(a := c)) p s = cstr m p s"
proof (induction s arbitrary: p)
  case Nil
  then show ?case using in_block_self [of 1 p] by (auto simp: in_block_def)
next
  case (Cons b s)
  then have "a \<noteq> p" "\<not> in_block (p + 1) (Suc (length s)) a"
    using in_block_Suc [of "Suc (length s)" p a] by simp_all
  with Cons show ?case by simp
qed

lemma cstr_wr_bytes:
  assumes "disjoint_blocks a (length bs) p (Suc (length s))" "length bs \<le> 2 ^ 32" "length s < 2 ^ 32"
  shows "cstr (wr_bytes m a bs) p s = cstr m p s"
proof -
  have "rd_bytes (wr_bytes m a bs) p (Suc (length s)) = rd_bytes m p (Suc (length s))"
    using assms disjoint_blocksD [OF assms(1)]
    by (intro rd_bytes_cong wr_bytes_frame) auto
  then show ?thesis by (simp only: cstr_iff)
qed

lemma cstr_wr_bytes_new:
  assumes "0 \<notin> set s" "length s < 2 ^ 32"
  shows "cstr (wr_bytes m a (s @ [0])) a s"
  using assms rd_wr_bytes [of "s @ [0]" m a] by (simp add: cstr_iff)

lemma cstr_wr_prefix:
  assumes "0 \<notin> set s" "length (s @ 0 # ys) \<le> 2 ^ 32"
  shows "cstr (wr_bytes m a (s @ 0 # ys)) a s"
  using assms rd_wr_prefix [of "s @ [0]" ys m a] by (simp add: cstr_iff)

lemma cstr_drop: "cstr m p s \<Longrightarrow> i \<le> length s \<Longrightarrow> cstr m (p + of_nat i) (drop i s)"
  using cstr_append [of m p "take i s" "drop i s"] by simp

lemma rd32_frame:
  assumes "\<And>x. in_block p 4 x \<Longrightarrow> m x = m' x"
  shows "rd32 m p = rd32 m' p"
  using assms [of p] assms [of "p + 1"] assms [of "p + 2"] assms [of "p + 3"]
  by (simp add: rd32_def in_block_def)

lemma cstr_frame:
  assumes "\<And>x. in_block p (Suc (length s)) x \<Longrightarrow> m x = m' x" "length s < 2 ^ 32"
  shows "cstr m p s = cstr m' p s"
proof -
  have "rd_bytes m p (Suc (length s)) = rd_bytes m' p (Suc (length s))"
    using assms by (intro rd_bytes_cong) auto
  then show ?thesis by (simp only: cstr_iff)
qed

text \<open>A byte as the signed \<open>char\<close> of the compiler, promoted to \<open>int\<close>.\<close>

abbreviation schar :: "u8 \<Rightarrow> int" where
  "schar b \<equiv> sint b"

text \<open>The byte string of a text literal.\<close>

definition bytes_of :: "string \<Rightarrow> u8 list" where
  "bytes_of s = List.map (\<lambda>c. of_nat (of_char c)) s"

end
