(* ===== verification/Scheduler.thy ===== *)
theory Scheduler
  imports Prelude
begin

text \<open>
  The task scheduler of the kernel (\<^verbatim>\<open>apps/kernel/scheduler.c\<close>): a fixed pool of eight task
  control blocks, the ready tasks linked into a ring through their \<open>next\<close> fields, and a
  round robin over that ring.  A \<open>tcb_t *\<close> is the index of the block in \<open>task_pool\<close>, \<open>None\<close>
  the null pointer.  Operations that walk the ring return an option: \<open>None\<close> is a walk
  that never ends or that follows a null pointer.  The context switch of
  \<^verbatim>\<open>ctx_switch_68000.S\<close>, which consumes the stack frames built here, is modelled with them.
\<close>

section \<open>Data\<close>

definition OS_MAX_TASKS :: nat where
  "OS_MAX_TASKS = 8"

datatype task_state = TASK_UNUSED | TASK_READY | TASK_RUNNING | TASK_BLOCKED

record tcb =
  t_sp :: u32
  t_state :: task_state
  t_next :: "nat option"
  t_arg :: u32
  t_stack_base :: u32
  t_stack_size :: u32
  t_id :: u32

record sched =
  task_pool :: "nat \<Rightarrow> tcb"
  task_count :: nat
  current_task :: "nat option"
  ready_head :: "nat option"
  smem :: mem

definition zero_tcb :: tcb where
  "zero_tcb = \<lparr>t_sp = 0, t_state = TASK_UNUSED, t_next = None, t_arg = 0,
     t_stack_base = 0, t_stack_size = 0, t_id = 0\<rparr>"

definition next_of :: "sched \<Rightarrow> nat \<Rightarrow> nat option" where
  "next_of s i = t_next (task_pool s i)"

abbreviation state_of :: "sched \<Rightarrow> nat \<Rightarrow> task_state" where
  "state_of s \<equiv> (\<lambda>i. t_state (task_pool s i))"

definition upd_tcb :: "nat \<Rightarrow> (tcb \<Rightarrow> tcb) \<Rightarrow> sched \<Rightarrow> sched" where
  "upd_tcb i f s = s\<lparr>task_pool := (task_pool s)(i := f (task_pool s i))\<rparr>"

definition set_next :: "nat \<Rightarrow> nat option \<Rightarrow> sched \<Rightarrow> sched" where
  "set_next i n = upd_tcb i (\<lambda>t. t\<lparr>t_next := n\<rparr>)"

definition set_state :: "nat \<Rightarrow> task_state \<Rightarrow> sched \<Rightarrow> sched" where
  "set_state i st = upd_tcb i (\<lambda>t. t\<lparr>t_state := st\<rparr>)"

section \<open>The ready ring\<close>

partial_function (option) find_tail :: "(nat \<Rightarrow> nat option) \<Rightarrow> nat option \<Rightarrow> nat \<Rightarrow> nat option" where
  "find_tail nx head tail =
     (if nx tail = head then Some tail
      else case nx tail of None \<Rightarrow> None | Some n \<Rightarrow> find_tail nx head n)"

definition ready_insert :: "nat \<Rightarrow> sched \<Rightarrow> sched option" where
  "ready_insert t s =
     (case ready_head s of
        None \<Rightarrow> Some (set_next t (Some t) (s\<lparr>ready_head := Some t\<rparr>))
      | Some h \<Rightarrow>
          (case find_tail (next_of s) (Some h) h of
             None \<Rightarrow> None
           | Some tail \<Rightarrow> Some (set_next t (Some h) (set_next tail (Some t) s))))"

text \<open>The predecessor of \<open>t\<close> in the ring, \<open>Some None\<close> when the walk comes back to the head.\<close>

partial_function (option) find_prev ::
  "(nat \<Rightarrow> nat option) \<Rightarrow> nat \<Rightarrow> nat \<Rightarrow> nat \<Rightarrow> nat option option" where
  "find_prev nx h t prev =
     (case nx prev of
        None \<Rightarrow> None
      | Some n \<Rightarrow> if n = t then Some (Some prev)
                  else if n = h then Some None
                  else find_prev nx h t n)"

definition ready_remove :: "nat \<Rightarrow> sched \<Rightarrow> sched option" where
  "ready_remove t s =
     (case ready_head s of
        None \<Rightarrow> Some s
      | Some h \<Rightarrow>
          if next_of s t = Some t then
            Some (set_next t None (if h = t then s\<lparr>ready_head := None\<rparr> else s))
          else (case find_prev (next_of s) h t h of
                  None \<Rightarrow> None
                | Some None \<Rightarrow> Some s
                | Some (Some prev) \<Rightarrow>
                    let s1 = set_next prev (next_of s t) s;
                        s2 = (if h = t then s1\<lparr>ready_head := next_of s1 t\<rparr> else s1)
                    in Some (set_next t None s2)))"

section \<open>Task stacks\<close>

definition push32 :: "u32 \<times> mem \<Rightarrow> u32 \<Rightarrow> u32 \<times> mem" where
  "push32 st v = (let sp = fst st - 4 in
     (sp, (snd st)(sp := ucast (drop_bit 24 v), sp + 1 := ucast (drop_bit 16 v),
                   sp + 2 := ucast (drop_bit 8 v), sp + 3 := ucast v)))"

definition push16 :: "u32 \<times> mem \<Rightarrow> u16 \<Rightarrow> u32 \<times> mem" where
  "push16 st v = (let sp = fst st - 2 in
     (sp, (snd st)(sp := ucast (drop_bit 8 v), sp + 1 := ucast v)))"

text \<open>
  The initial stack of a task: the frame an interrupted task would have.  \<open>cpu68010\<close> is the
  build switch \<open>OS_CPU_68010\<close>.
\<close>

definition task_frame :: "bool \<Rightarrow> u32 \<Rightarrow> u32 \<Rightarrow> u32 \<Rightarrow> mem \<Rightarrow> u32 \<times> mem" where
  "task_frame cpu68010 entry stack ssize m =
     (let sp = (stack + ssize) AND NOT 1;
          st0 = (if cpu68010 then push16 (sp, m) 0 else (sp, m));
          st1 = push32 st0 entry;
          st2 = push16 st1 0x2000
      in ((\<lambda>st. push32 st 0) ^^ 15) st2)"

section \<open>The operations\<close>

definition OS_Init :: "sched \<Rightarrow> sched" where
  "OS_Init s = s\<lparr>task_pool := (\<lambda>_. zero_tcb), task_count := 0, current_task := None, ready_head := None\<rparr>"

definition OS_TaskArg :: "sched \<Rightarrow> u32" where
  "OS_TaskArg s = (case current_task s of None \<Rightarrow> 0 | Some c \<Rightarrow> t_arg (task_pool s c))"

definition OS_TaskCreate ::
  "bool \<Rightarrow> u32 \<Rightarrow> u32 \<Rightarrow> u32 \<Rightarrow> u32 \<Rightarrow> u32 \<Rightarrow> sched \<Rightarrow> (nat option \<times> sched) option" where
  "OS_TaskCreate cpu68010 entry arg stack ssize ident s =
     (if task_count s \<ge> OS_MAX_TASKS \<or> entry = 0 \<or> stack = 0 then Some (None, s)
      else
        let t = task_count s;
            frame = task_frame cpu68010 entry stack ssize (smem s);
            s1 = s\<lparr>task_count := Suc t, smem := snd frame\<rparr>;
            s2 = upd_tcb t (\<lambda>c. c\<lparr>t_stack_base := stack, t_stack_size := ssize, t_arg := arg,
                   t_id := ident, t_next := None, t_sp := fst frame, t_state := TASK_READY\<rparr>) s1
        in map_option (\<lambda>s3. (Some t, s3)) (ready_insert t s2))"

text \<open>\<open>OS_TaskExit\<close> up to the endless loop in which the task waits for the next tick.\<close>

definition OS_TaskExit :: "sched \<Rightarrow> sched option" where
  "OS_TaskExit s =
     (case current_task s of
        None \<Rightarrow> Some s
      | Some c \<Rightarrow> map_option (set_state c TASK_UNUSED) (ready_remove c s))"

definition OS_Schedule :: "sched \<Rightarrow> sched" where
  "OS_Schedule s =
     (case ready_head s of
        None \<Rightarrow> s
      | Some h \<Rightarrow>
          let s1 = (case current_task s of
                      None \<Rightarrow> s
                    | Some c \<Rightarrow> if state_of s c = TASK_RUNNING then set_state c TASK_READY s else s);
              s2 = s1\<lparr>current_task := Some h, ready_head := next_of s1 h\<rparr>
          in set_state h TASK_RUNNING s2)"

text \<open>\<open>OS_Start\<close> up to its call of \<open>OS_StartHighRdy\<close>.\<close>

definition OS_Start :: "sched \<Rightarrow> sched" where
  "OS_Start s =
     (case ready_head s of
        None \<Rightarrow> s
      | Some h \<Rightarrow> set_state h TASK_RUNNING (s\<lparr>current_task := Some h, ready_head := next_of s h\<rparr>))"

definition OS_TaskBlock :: "nat option \<Rightarrow> sched \<Rightarrow> sched option" where
  "OS_TaskBlock task s =
     (case task of
        None \<Rightarrow> Some s
      | Some t \<Rightarrow>
          if state_of s t \<noteq> TASK_READY \<and> state_of s t \<noteq> TASK_RUNNING then Some s
          else map_option (set_state t TASK_BLOCKED) (ready_remove t s))"

definition OS_TaskWake :: "nat option \<Rightarrow> sched \<Rightarrow> sched option" where
  "OS_TaskWake task s =
     (case task of
        None \<Rightarrow> Some s
      | Some t \<Rightarrow>
          if state_of s t \<noteq> TASK_BLOCKED then Some s
          else ready_insert t (set_state t TASK_READY s))"

section \<open>Linked paths\<close>

fun npath :: "(nat \<Rightarrow> nat option) \<Rightarrow> nat option \<Rightarrow> nat list \<Rightarrow> nat option \<Rightarrow> bool" where
  "npath nx p [] q \<longleftrightarrow> p = q"
| "npath nx p (x # xs) q \<longleftrightarrow> p = Some x \<and> npath nx (nx x) xs q"

lemma npath_append: "npath nx p (xs @ ys) q \<longleftrightarrow> (\<exists>r. npath nx p xs r \<and> npath nx r ys q)"
  by (induction xs arbitrary: p) auto

lemma npath_upd_other [simp]: "i \<notin> set xs \<Longrightarrow> npath (nx(i := n)) p xs q = npath nx p xs q"
  by (induction xs arbitrary: p) auto

lemma npath_snoc: "npath nx p (xs @ [x]) q \<longleftrightarrow> npath nx p xs (Some x) \<and> nx x = q"
  by (auto simp: npath_append)

lemma npath_hd: "npath nx p xs q \<Longrightarrow> xs \<noteq> [] \<Longrightarrow> p = Some (hd xs)"
  by (cases xs) auto

lemma find_tail_path:
  "npath nx (Some a) (a # as) (Some h) \<Longrightarrow> h \<notin> set as \<Longrightarrow> find_tail nx (Some h) a = Some (last (a # as))"
proof (induction as arbitrary: a)
  case Nil
  then show ?case by (simp add: find_tail.simps)
next
  case (Cons b as)
  then have "nx a = Some b" "b \<noteq> h" by auto
  with Cons show ?case by (subst find_tail.simps) auto
qed

lemma find_prev_found:
  "npath nx (Some a) (a # us) (Some t) \<Longrightarrow> t \<notin> set us \<Longrightarrow> h \<notin> set us \<Longrightarrow>
     find_prev nx h t a = Some (Some (last (a # us)))"
proof (induction us arbitrary: a)
  case Nil
  then show ?case by (simp add: find_prev.simps)
next
  case (Cons b us)
  then have "nx a = Some b" "b \<noteq> h" "b \<noteq> t" by auto
  with Cons show ?case by (subst find_prev.simps) auto
qed

lemma find_prev_absent:
  "npath nx (Some a) (a # as) (Some h) \<Longrightarrow> t \<notin> set as \<Longrightarrow> h \<notin> set as \<Longrightarrow> t \<noteq> h \<Longrightarrow>
     find_prev nx h t a = Some None"
proof (induction as arbitrary: a)
  case Nil
  then show ?case by (simp add: find_prev.simps)
next
  case (Cons b as)
  then have "nx a = Some b" "b \<noteq> h" "b \<noteq> t" by auto
  with Cons show ?case by (subst find_prev.simps) auto
qed

section \<open>The ring invariant\<close>

text \<open>\<open>ready_ring s xs\<close>: the ring read from the head on holds exactly the tasks \<open>xs\<close>, in that order.\<close>

definition ready_ring :: "sched \<Rightarrow> nat list \<Rightarrow> bool" where
  "ready_ring s xs \<longleftrightarrow> distinct xs \<and>
     (if xs = [] then ready_head s = None
      else npath (next_of s) (ready_head s) xs (ready_head s))"

lemma ready_ring_head: "ready_ring s xs \<Longrightarrow> xs \<noteq> [] \<Longrightarrow> ready_head s = Some (hd xs)"
  by (auto simp: ready_ring_def dest: npath_hd)

lemma ready_ring_head_None: "ready_ring s xs \<Longrightarrow> ready_head s = None \<longleftrightarrow> xs = []"
  by (cases "xs = []") (auto simp: ready_ring_def dest: npath_hd)

lemma upd_tcb_simps [simp]:
  "task_pool (upd_tcb i f s) = (task_pool s)(i := f (task_pool s i))"
  "task_count (upd_tcb i f s) = task_count s" "current_task (upd_tcb i f s) = current_task s"
  "ready_head (upd_tcb i f s) = ready_head s" "smem (upd_tcb i f s) = smem s"
  by (simp_all add: upd_tcb_def)

lemma next_of_simps [simp]:
  "next_of (set_next i n s) = (next_of s)(i := n)"
  "next_of (set_state i st s) = next_of s"
  "next_of (s\<lparr>ready_head := h\<rparr>) = next_of s"
  "next_of (s\<lparr>current_task := c\<rparr>) = next_of s"
  by (auto simp: next_of_def set_next_def set_state_def)

lemma set_next_simps [simp]:
  "task_count (set_next i n s) = task_count s" "current_task (set_next i n s) = current_task s"
  "ready_head (set_next i n s) = ready_head s" "smem (set_next i n s) = smem s"
  "t_state (task_pool (set_next i n s) j) = t_state (task_pool s j)"
  by (simp_all add: set_next_def)

lemma set_state_simps [simp]:
  "task_count (set_state i st s) = task_count s" "current_task (set_state i st s) = current_task s"
  "ready_head (set_state i st s) = ready_head s" "smem (set_state i st s) = smem s"
  "t_state (task_pool (set_state i st s) j) = (if j = i then st else t_state (task_pool s j))"
  by (simp_all add: set_state_def)

lemma ready_ring_cong:
  "ready_head s = ready_head s' \<Longrightarrow> next_of s = next_of s' \<Longrightarrow> ready_ring s xs = ready_ring s' xs"
  by (simp add: ready_ring_def)

text \<open>Everything of a state but the links of the ring.\<close>

definition unlinked :: "sched \<Rightarrow> sched" where
  "unlinked s = s\<lparr>ready_head := None, task_pool := (\<lambda>i. (task_pool s i)\<lparr>t_next := None\<rparr>)\<rparr>"

lemma unlinked_set_next [simp]: "unlinked (set_next i n s) = unlinked s"
  by (auto simp: unlinked_def set_next_def upd_tcb_def fun_eq_iff intro!: arg_cong [where f = "\<lambda>p. s\<lparr>ready_head := None, task_pool := p\<rparr>"])

lemma unlinked_head [simp]: "unlinked (s\<lparr>ready_head := h\<rparr>) = unlinked s"
  by (simp add: unlinked_def)

lemma unlinked_eqD:
  assumes "unlinked s' = unlinked s"
  shows "task_count s' = task_count s" "current_task s' = current_task s" "smem s' = smem s"
    "t_state (task_pool s' i) = t_state (task_pool s i)"
    "t_sp (task_pool s' i) = t_sp (task_pool s i)" "t_arg (task_pool s' i) = t_arg (task_pool s i)"
proof -
  have p: "task_pool (unlinked s') i = task_pool (unlinked s) i" using assms by simp
  show "t_state (task_pool s' i) = t_state (task_pool s i)" "t_sp (task_pool s' i) = t_sp (task_pool s i)"
    "t_arg (task_pool s' i) = t_arg (task_pool s i)"
    using arg_cong [OF p, of t_state] arg_cong [OF p, of t_sp] arg_cong [OF p, of t_arg]
    by (simp_all add: unlinked_def)
  show "task_count s' = task_count s" "current_task s' = current_task s" "smem s' = smem s"
    using arg_cong [OF assms, of task_count] arg_cong [OF assms, of current_task]
      arg_cong [OF assms, of smem] by (simp_all add: unlinked_def)
qed

text \<open>Inserting links \<open>t\<close> in at the end of the ring.\<close>

lemma ready_insert_ring:
  assumes ring: "ready_ring s xs" and new: "t \<notin> set xs"
  shows "\<exists>s'. ready_insert t s = Some s' \<and> ready_ring s' (xs @ [t]) \<and> unlinked s' = unlinked s \<and>
    (\<forall>i. i \<notin> set (xs @ [t]) \<longrightarrow> next_of s' i = next_of s i)"
proof (cases xs)
  case Nil
  then have "ready_head s = None" using ring by (simp add: ready_ring_def)
  with Nil show ?thesis
    by (simp add: ready_insert_def ready_ring_def)
next
  case (Cons h as)
  define nx where "nx = next_of s"
  have hd: "ready_head s = Some h" using ready_ring_head [OF ring] Cons by simp
  have path: "npath nx (Some h) (h # as) (Some h)" and dist: "distinct (h # as)"
    using ring Cons hd by (simp_all add: ready_ring_def nx_def)
  let ?l = "last (h # as)"
  have tail: "find_tail nx (Some h) h = Some ?l"
    using find_tail_path [OF path] dist by simp
  let ?s = "set_next t (Some h) (set_next ?l (Some t) s)"
  have split: "h # as = butlast (h # as) @ [?l]" by simp
  have "npath nx (Some h) (butlast (h # as)) (Some ?l)"
    using path split npath_snoc by metis
  moreover have "?l \<notin> set (butlast (h # as))" "t \<notin> set (butlast (h # as))" "t \<noteq> ?l"
    using last_notin_butlast [OF dist] notin_butlast [of t "h # as"] new Cons last_in_set [of "h # as"]
    by auto
  ultimately have "npath (nx(?l := Some t, t := Some h)) (Some h) (butlast (h # as) @ [?l, t]) (Some h)"
    by (auto simp: npath_append)
  then have "npath (nx(?l := Some t, t := Some h)) (Some h) ((h # as) @ [t]) (Some h)"
    using split by (metis append.assoc append_Cons append_Nil)
  then have "ready_ring ?s (xs @ [t])"
    using dist new Cons hd by (simp add: ready_ring_def nx_def del: npath.simps)
  moreover have "ready_insert t s = Some ?s"
    using hd tail by (simp add: ready_insert_def nx_def)
  moreover have "\<forall>i. i \<notin> set (xs @ [t]) \<longrightarrow> next_of ?s i = next_of s i"
  proof (intro allI impI)
    fix i assume "i \<notin> set (xs @ [t])"
    then have "i \<noteq> t" "i \<noteq> ?l" using Cons last_in_set [of "h # as"] by auto
    then show "next_of ?s i = next_of s i" by simp
  qed
  ultimately show ?thesis by auto
qed

text \<open>Removing unlinks \<open>t\<close> wherever it is, and leaves a ring without \<open>t\<close> alone.\<close>

lemma ready_remove_head:
  assumes path: "npath nx (Some h) (h # as) (Some h)" and dist: "distinct (h # as)" and ne: "as \<noteq> []"
  shows "npath (nx(last as := Some (hd as), h := None)) (Some (hd as)) as (Some (hd as))"
proof -
  from path have "npath nx (nx h) as (Some h)" by simp
  then have p: "npath nx (Some (hd as)) as (Some h)" using npath_hd ne by metis
  have split: "as = butlast as @ [last as]" using ne by simp
  have "npath nx (Some (hd as)) (butlast as) (Some (last as))"
    using p split npath_snoc by metis
  moreover have "last as \<notin> set (butlast as)" "h \<notin> set (butlast as)" "h \<noteq> last as"
    using last_notin_butlast [of as] notin_butlast [of h as] last_in_set [OF ne] dist ne by auto
  ultimately have "npath (nx(last as := Some (hd as), h := None)) (Some (hd as)) (butlast as @ [last as]) (Some (hd as))"
    by (auto simp: npath_append)
  with split show ?thesis by simp
qed

lemma ready_remove_ring:
  assumes ring: "ready_ring s xs" and mem: "t \<in> set xs"
  shows "\<exists>s'. ready_remove t s = Some s' \<and> ready_ring s' (remove1 t xs) \<and> unlinked s' = unlinked s \<and>
    next_of s' t = None \<and> (\<forall>i. i \<notin> set xs \<longrightarrow> next_of s' i = next_of s i)"
proof -
  define nx where "nx = next_of s"
  from mem obtain h as where xs: "xs = h # as" by (cases xs) auto
  have hd: "ready_head s = Some h" using ready_ring_head [OF ring] xs by simp
  have path: "npath nx (Some h) (h # as) (Some h)" and dist: "distinct (h # as)"
    using ring xs hd by (simp_all add: ready_ring_def nx_def)
  show ?thesis
  proof (cases "t = h")
    case True
    show ?thesis
    proof (cases "as = []")
      case True
      with path have "nx h = Some h" by simp
      with \<open>t = h\<close> True xs hd show ?thesis
        by (auto simp: ready_remove_def ready_ring_def nx_def)
    next
      case False
      have nh: "nx h = Some (hd as)" using path False npath_hd by (metis npath.simps(2))
      have hd_ne: "hd as \<noteq> h" using dist False by (metis distinct.simps(2) hd_in_set)
      have prev: "find_prev nx h h h = Some (Some (last as))"
        using find_prev_found [OF path] dist False by simp
      let ?s = "set_next h None ((set_next (last as) (Some (hd as)) s)\<lparr>ready_head := Some (hd as)\<rparr>)"
      have lh: "last as \<noteq> h" using dist False by (metis distinct.simps(2) last_in_set)
      have nx': "next_of ?s = nx(last as := Some (hd as), h := None)"
        by (simp add: nx_def)
      have "ready_remove t s = Some ?s"
        using hd True prev nh hd_ne lh
        by (simp add: ready_remove_def nx_def Let_def)
      moreover have "ready_ring ?s as"
        using ready_remove_head [OF path dist False] dist False nx' by (simp add: ready_ring_def)
      moreover have "\<forall>i. i \<notin> set xs \<longrightarrow> next_of ?s i = next_of s i"
        using xs False by (auto simp: nx' nx_def)
      ultimately show ?thesis using True xs by auto
    qed
  next
    case False
    with mem xs obtain us vs where as: "as = us @ t # vs" and tu: "t \<notin> set us"
      by (metis set_ConsD split_list_first)
    let ?p = "last (h # us)"
    have pre: "npath nx (Some h) (h # us) (Some t)" and post: "npath nx (nx t) vs (Some h)"
      using path unfolding as by (auto simp: npath_append)
    have prev: "find_prev nx h t h = Some (Some ?p)"
      using find_prev_found [OF pre tu] dist as by simp
    have pt: "?p \<noteq> t" using False tu by auto
    have self: "nx t \<noteq> Some t"
    proof
      assume "nx t = Some t"
      with post have "vs = [] \<and> t = h \<or> t \<in> set vs" by (cases vs) auto
      with False dist as show False by auto
    qed
    let ?s = "set_next t None (set_next ?p (nx t) s)"
    have nx': "next_of ?s = nx(?p := nx t, t := None)"
      by (simp add: nx_def)
    have "ready_remove t s = Some ?s"
      using hd False prev self by (simp add: ready_remove_def nx_def Let_def)
    moreover have "ready_ring ?s (remove1 t xs)"
    proof -
      have in_us: "p \<notin> set vs" if "p \<in> set (h # us)" for p
        using dist as that by auto
      have split: "h # us = butlast (h # us) @ [?p]" by simp
      have "npath nx (Some h) (butlast (h # us)) (Some ?p)" using pre split npath_snoc by metis
      moreover have "?p \<notin> set (butlast (h # us))" "t \<notin> set (butlast (h # us))"
        using last_notin_butlast [of "h # us"] notin_butlast [of t "h # us"] dist as False tu by auto
      moreover have "?p \<notin> set vs" by (rule in_us [OF last_in_set]) simp
      moreover have "t \<notin> set vs" using dist as by auto
      ultimately have "npath (nx(?p := nx t, t := None)) (Some h) (butlast (h # us) @ ?p # vs) (Some h)"
        using post pt by (auto simp: npath_append)
      moreover have "butlast (h # us) @ ?p # vs = h # us @ vs"
        using split by (metis append.assoc append_Cons append_Nil)
      ultimately have "npath (nx(?p := nx t, t := None)) (Some h) (h # us @ vs) (Some h)"
        by (simp only:)
      moreover have "remove1 t xs = h # us @ vs"
        using xs as False tu by (simp add: remove1_append)
      ultimately show ?thesis
        unfolding ready_ring_def nx' using dist as hd by (simp del: npath.simps)
    qed
    moreover have "\<forall>i. i \<notin> set xs \<longrightarrow> next_of ?s i = next_of s i"
      using xs as last_in_set [of "h # us"] by (auto simp: nx' nx_def split: if_splits)
    ultimately show ?thesis by auto
  qed
qed

lemma ready_remove_absent:
  assumes ring: "ready_ring s xs" and absent: "t \<notin> set xs" and unlinked: "next_of s t = None"
  shows "ready_remove t s = Some s"
proof (cases xs)
  case Nil
  then show ?thesis using ring by (simp add: ready_remove_def ready_ring_def)
next
  case (Cons h as)
  have hd: "ready_head s = Some h" using ready_ring_head [OF ring] Cons by simp
  have path: "npath (next_of s) (Some h) (h # as) (Some h)" and dist: "distinct (h # as)"
    using ring Cons hd by (simp_all add: ready_ring_def)
  have "find_prev (next_of s) h t h = Some None"
    using find_prev_absent [OF path] absent Cons dist by simp
  with hd unlinked show ?thesis by (simp add: ready_remove_def)
qed

section \<open>The scheduler invariant\<close>

text \<open>
  \<open>sched_inv s xs\<close>: the ring holds, in round-robin order, exactly the created tasks that
  are ready or running; every other block is unlinked; only the current task can be marked
  as running; blocks past \<open>task_count\<close> are unused.
\<close>

definition runnable :: "task_state \<Rightarrow> bool" where
  "runnable st \<longleftrightarrow> st = TASK_READY \<or> st = TASK_RUNNING"

definition sched_inv :: "sched \<Rightarrow> nat list \<Rightarrow> bool" where
  "sched_inv s xs \<longleftrightarrow> ready_ring s xs \<and> task_count s \<le> OS_MAX_TASKS \<and>
     (\<forall>i. i \<in> set xs \<longleftrightarrow> i < task_count s \<and> runnable (state_of s i)) \<and>
     (\<forall>i. i \<notin> set xs \<longrightarrow> next_of s i = None) \<and>
     (\<forall>i. state_of s i = TASK_RUNNING \<longrightarrow> current_task s = Some i) \<and>
     (\<forall>i \<ge> task_count s. state_of s i = TASK_UNUSED)"

lemma sched_inv_init: "sched_inv (OS_Init s) []"
  by (simp add: sched_inv_def ready_ring_def OS_Init_def zero_tcb_def next_of_def runnable_def)

lemma sched_invD:
  assumes "sched_inv s xs"
  shows "ready_ring s xs" "task_count s \<le> OS_MAX_TASKS"
    "i \<in> set xs \<longleftrightarrow> i < task_count s \<and> runnable (state_of s i)"
    "i \<notin> set xs \<Longrightarrow> next_of s i = None"
    "state_of s i = TASK_RUNNING \<Longrightarrow> current_task s = Some i"
    "task_count s \<le> i \<Longrightarrow> state_of s i = TASK_UNUSED"
  using assms by (simp_all add: sched_inv_def)

lemma sched_inv_cong:
  "ready_head s = ready_head s' \<Longrightarrow> next_of s = next_of s' \<Longrightarrow> (\<And>i. state_of s i = state_of s' i) \<Longrightarrow>
   task_count s = task_count s' \<Longrightarrow> current_task s = current_task s' \<Longrightarrow> sched_inv s xs = sched_inv s' xs"
  by (simp add: sched_inv_def ready_ring_def)

lemma sched_inv_wake:
  assumes inv: "sched_inv s xs" and blocked: "state_of s t = TASK_BLOCKED"
  shows "\<exists>s'. OS_TaskWake (Some t) s = Some s' \<and> sched_inv s' (xs @ [t]) \<and> state_of s' t = TASK_READY"
proof -
  let ?s = "set_state t TASK_READY s"
  have ring: "ready_ring ?s xs"
    using sched_invD(1) [OF inv] by (rule ready_ring_cong [THEN iffD1, rotated 2]) simp_all
  have new: "t \<notin> set xs" using sched_invD(3) [OF inv, of t] blocked by (simp add: runnable_def)
  have tc: "t < task_count s" using sched_invD(6) [OF inv, of t] blocked by (cases "t < task_count s") auto
  obtain s' where s': "ready_insert t ?s = Some s'" "ready_ring s' (xs @ [t])" "unlinked s' = unlinked ?s"
    "\<forall>i. i \<notin> set (xs @ [t]) \<longrightarrow> next_of s' i = next_of ?s i"
    using ready_insert_ring [OF ring new] by blast
  note same = unlinked_eqD [OF s'(3)]
  have "sched_inv s' (xs @ [t])"
    unfolding sched_inv_def
  proof (intro conjI allI impI)
    show "ready_ring s' (xs @ [t])" by (rule s'(2))
    show "task_count s' \<le> OS_MAX_TASKS" using sched_invD(2) [OF inv] same by simp
  next
    fix i show "i \<in> set (xs @ [t]) \<longleftrightarrow> i < task_count s' \<and> runnable (state_of s' i)"
      using sched_invD(3) [OF inv, of i] tc by (auto simp: same runnable_def)
  next
    fix i assume "i \<notin> set (xs @ [t])"
    then show "next_of s' i = None" using s'(4) sched_invD(4) [OF inv, of i] by simp
  next
    fix i assume "state_of s' i = TASK_RUNNING"
    then show "current_task s' = Some i"
      using sched_invD(5) [OF inv, of i] by (simp add: same split: if_splits)
  next
    fix i assume "task_count s' \<le> i"
    then show "state_of s' i = TASK_UNUSED"
      using sched_invD(6) [OF inv, of i] tc by (simp add: same)
  qed
  moreover have "state_of s' t = TASK_READY" by (simp add: same)
  ultimately show ?thesis using s'(1) blocked by (auto simp: OS_TaskWake_def)
qed

text \<open>Blocking and exiting: the task leaves the ring, in a state that is not runnable.\<close>

lemma sched_inv_remove:
  assumes inv: "sched_inv s xs" and run: "t \<in> set xs" and st: "\<not> runnable st"
  shows "\<exists>s'. ready_remove t s = Some s' \<and> sched_inv (set_state t st s') (remove1 t xs)"
proof -
  obtain s' where s': "ready_remove t s = Some s'" "ready_ring s' (remove1 t xs)" "unlinked s' = unlinked s"
    "next_of s' t = None" "\<forall>i. i \<notin> set xs \<longrightarrow> next_of s' i = next_of s i"
    using ready_remove_ring [OF sched_invD(1) [OF inv] run] by blast
  note same = unlinked_eqD [OF s'(3)]
  have dist: "distinct xs" using sched_invD(1) [OF inv] by (simp add: ready_ring_def)
  have tc: "t < task_count s" using sched_invD(3) [OF inv, of t] run by simp
  let ?s = "set_state t st s'"
  have "sched_inv ?s (remove1 t xs)"
    unfolding sched_inv_def
  proof (intro conjI allI impI)
    show "ready_ring ?s (remove1 t xs)"
      using s'(2) by (rule ready_ring_cong [THEN iffD1, rotated 2]) simp_all
    show "task_count ?s \<le> OS_MAX_TASKS" using sched_invD(2) [OF inv] same by simp
  next
    fix i show "i \<in> set (remove1 t xs) \<longleftrightarrow> i < task_count ?s \<and> runnable (state_of ?s i)"
      using sched_invD(3) [OF inv, of i] st dist by (auto simp: same)
  next
    fix i assume "i \<notin> set (remove1 t xs)"
    then have "i \<notin> set xs \<or> i = t" using dist by auto
    then show "next_of ?s i = None" using s'(4,5) sched_invD(4) [OF inv, of i] by auto
  next
    fix i assume "state_of ?s i = TASK_RUNNING"
    then show "current_task ?s = Some i"
      using sched_invD(5) [OF inv, of i] st by (auto simp: same runnable_def split: if_splits)
  next
    fix i assume "task_count ?s \<le> i"
    then show "state_of ?s i = TASK_UNUSED"
      using sched_invD(6) [OF inv, of i] tc by (simp add: same)
  qed
  with s'(1) show ?thesis by blast
qed

lemma sched_inv_block:
  assumes inv: "sched_inv s xs" and run: "t \<in> set xs"
  shows "\<exists>s'. OS_TaskBlock (Some t) s = Some s' \<and> sched_inv s' (remove1 t xs) \<and> state_of s' t = TASK_BLOCKED"
proof -
  have "runnable (state_of s t)" using sched_invD(3) [OF inv, of t] run by simp
  with sched_inv_remove [OF inv run, of TASK_BLOCKED] show ?thesis
    by (auto simp: OS_TaskBlock_def runnable_def)
qed

lemma sched_inv_exit:
  assumes inv: "sched_inv s xs" and cur: "current_task s = Some t" and run: "t \<in> set xs"
  shows "\<exists>s'. OS_TaskExit s = Some s' \<and> sched_inv s' (remove1 t xs) \<and> state_of s' t = TASK_UNUSED"
  using sched_inv_remove [OF inv run, of TASK_UNUSED] cur by (auto simp: OS_TaskExit_def runnable_def)

section \<open>Creating tasks\<close>

lemma sched_inv_create:
  assumes inv: "sched_inv s xs" and room: "task_count s < OS_MAX_TASKS"
    and args: "entry \<noteq> 0" "stack \<noteq> 0"
  shows "\<exists>s'. OS_TaskCreate k entry arg stack ssize ident s = Some (Some (task_count s), s') \<and>
    sched_inv s' (xs @ [task_count s]) \<and> task_count s' = Suc (task_count s) \<and>
    t_sp (task_pool s' (task_count s)) = fst (task_frame k entry stack ssize (smem s)) \<and>
    t_arg (task_pool s' (task_count s)) = arg \<and>
    smem s' = snd (task_frame k entry stack ssize (smem s))"
proof -
  let ?t = "task_count s"
  define fr where "fr = task_frame k entry stack ssize (smem s)"
  define s2 where "s2 = upd_tcb ?t (\<lambda>c. c\<lparr>t_stack_base := stack, t_stack_size := ssize, t_arg := arg,
      t_id := ident, t_next := None, t_sp := fst fr, t_state := TASK_READY\<rparr>)
      (s\<lparr>task_count := Suc ?t, smem := snd fr\<rparr>)"
  have new: "?t \<notin> set xs" using sched_invD(3) [OF inv, of ?t] by simp
  have nx: "next_of s2 = next_of s"
    using sched_invD(4) [OF inv new] by (auto simp: s2_def next_of_def)
  have ring: "ready_ring s2 xs"
    using sched_invD(1) [OF inv] nx by (simp add: ready_ring_def s2_def)
  obtain s' where s': "ready_insert ?t s2 = Some s'" "ready_ring s' (xs @ [?t])" "unlinked s' = unlinked s2"
    "\<forall>i. i \<notin> set (xs @ [?t]) \<longrightarrow> next_of s' i = next_of s2 i"
    using ready_insert_ring [OF ring new] by blast
  note same = unlinked_eqD [OF s'(3)]
  have "sched_inv s' (xs @ [?t])"
    unfolding sched_inv_def
  proof (intro conjI allI impI)
    show "ready_ring s' (xs @ [?t])" by (rule s'(2))
    show "task_count s' \<le> OS_MAX_TASKS" using room by (simp add: same s2_def)
  next
    fix i show "i \<in> set (xs @ [?t]) \<longleftrightarrow> i < task_count s' \<and> runnable (state_of s' i)"
      using sched_invD(3) [OF inv, of i] by (auto simp: same s2_def runnable_def)
  next
    fix i assume "i \<notin> set (xs @ [?t])"
    then show "next_of s' i = None" using s'(4) nx sched_invD(4) [OF inv, of i] by simp
  next
    fix i assume "state_of s' i = TASK_RUNNING"
    then show "current_task s' = Some i"
      using sched_invD(5) [OF inv, of i] by (simp add: same s2_def split: if_splits)
  next
    fix i assume "task_count s' \<le> i"
    then show "state_of s' i = TASK_UNUSED"
      using sched_invD(6) [OF inv, of i] by (simp add: same s2_def)
  qed
  moreover have "OS_TaskCreate k entry arg stack ssize ident s = Some (Some ?t, s')"
    using room args s'(1) by (simp add: OS_TaskCreate_def s2_def fr_def Let_def)
  ultimately show ?thesis by (simp add: same s2_def fr_def)
qed

section \<open>Round robin\<close>

lemma rotate1_ring:
  assumes "npath nx (Some h) (h # as) (Some h)" "as \<noteq> []"
  shows "npath nx (nx h) (as @ [h]) (nx h)"
  using assms by (auto simp: npath_append)

lemma sched_inv_schedule:
  assumes inv: "sched_inv s xs" and ne: "xs \<noteq> []"
  shows "sched_inv (OS_Schedule s) (rotate1 xs) \<and> current_task (OS_Schedule s) = Some (hd xs) \<and>
    state_of (OS_Schedule s) (hd xs) = TASK_RUNNING"
proof -
  from ne obtain h as where xs: "xs = h # as" by (cases xs) auto
  have ring: "ready_ring s xs" by (rule sched_invD(1) [OF inv])
  have hd: "ready_head s = Some h" using ready_ring_head [OF ring ne] xs by simp
  have path: "npath (next_of s) (Some h) (h # as) (Some h)" and dist: "distinct (h # as)"
    using ring xs hd by (simp_all add: ready_ring_def)
  define s1 where "s1 = (case current_task s of None \<Rightarrow> s
      | Some c \<Rightarrow> if state_of s c = TASK_RUNNING then set_state c TASK_READY s else s)"
  have s1: "next_of s1 = next_of s" "task_count s1 = task_count s"
    by (simp_all add: s1_def split: option.split)
  have st1: "state_of s1 i = (if state_of s i = TASK_RUNNING then TASK_READY else state_of s i)" for i
    using sched_invD(5) [OF inv, of i] by (auto simp: s1_def split: option.split)
  let ?s = "OS_Schedule s"
  have s': "?s = set_state h TASK_RUNNING (s1\<lparr>current_task := Some h, ready_head := next_of s h\<rparr>)"
    using hd s1 by (simp add: OS_Schedule_def s1_def Let_def)
  have "ready_ring ?s (as @ [h])"
  proof (cases "as = []")
    case True
    with path have "next_of s h = Some h" by simp
    with True dist show ?thesis by (simp add: ready_ring_def s' s1)
  next
    case False
    show ?thesis using rotate1_ring [OF path False] dist by (simp add: ready_ring_def s' s1)
  qed
  moreover have "h < task_count s" using sched_invD(3) [OF inv, of h] xs by simp
  ultimately have "sched_inv ?s (rotate1 xs)"
    using sched_invD(2-6) [OF inv] xs
    by (auto simp: sched_inv_def s' s1 st1 runnable_def)
  then show ?thesis using xs by (simp add: s')
qed

text \<open>
  What a round robin promises, whatever keeps the ring: a pick runs the first runnable task
  and moves it to the end.
\<close>

locale round_robin =
  fixes rel :: "'s \<Rightarrow> nat list \<Rightarrow> bool" and pick :: "'s \<Rightarrow> 's" and current :: "'s \<Rightarrow> nat option"
  assumes pick_rel: "rel s xs \<Longrightarrow> xs \<noteq> [] \<Longrightarrow> rel (pick s) (rotate1 xs)"
    and pick_current: "rel s xs \<Longrightarrow> xs \<noteq> [] \<Longrightarrow> current (pick s) = Some (hd xs)"
begin

lemma picks_rel: "rel s xs \<Longrightarrow> xs \<noteq> [] \<Longrightarrow> rel ((pick ^^ k) s) (rotate k xs)"
proof (induction k)
  case 0
  then show ?case by simp
next
  case (Suc k)
  then show ?case by (simp add: pick_rel rotate_Suc)
qed

lemma picks_current:
  assumes "rel s xs" "xs \<noteq> []"
  shows "current ((pick ^^ Suc k) s) = Some (xs ! (k mod length xs))"
proof -
  have "current ((pick ^^ Suc k) s) = Some (hd (rotate k xs))"
    using picks_rel [OF assms, of k] assms(2) by (simp add: pick_current)
  then show ?thesis using assms(2) by (simp add: hd_rotate_conv_nth)
qed

text \<open>Every runnable task gets the processor within one round.\<close>

lemma within_one_round:
  assumes "rel s xs" "t \<in> set xs"
  shows "\<exists>k < length xs. current ((pick ^^ Suc k) s) = Some t"
proof -
  from assms(2) obtain k where k: "k < length xs" "xs ! k = t" by (auto simp: in_set_conv_nth)
  then have "xs \<noteq> []" by auto
  with picks_current [OF assms(1) this, of k] k show ?thesis by auto
qed

end

interpretation rr: round_robin sched_inv OS_Schedule current_task
  by unfold_locales (simp_all add: sched_inv_schedule)


lemma OS_Schedule_idle: "sched_inv s [] \<Longrightarrow> OS_Schedule s = s"
  by (simp add: sched_inv_def ready_ring_def OS_Schedule_def)

lemma sched_inv_start:
  assumes inv: "sched_inv s xs" and ne: "xs \<noteq> []" and idle: "\<And>i. state_of s i \<noteq> TASK_RUNNING"
  shows "sched_inv (OS_Start s) (rotate1 xs) \<and> current_task (OS_Start s) = Some (hd xs)"
proof -
  have hd: "ready_head s = Some (hd xs)" using sched_invD(1) [OF inv] ne by (rule ready_ring_head)
  have "OS_Start s = OS_Schedule s"
    using hd idle by (simp add: OS_Start_def OS_Schedule_def Let_def option.case_eq_if)
  with sched_inv_schedule [OF inv ne] show ?thesis by simp
qed

lemma sched_inv_exit_absent:
  assumes inv: "sched_inv s xs" and cur: "current_task s = Some t" and out: "t \<notin> set xs"
  shows "OS_TaskExit s = Some (set_state t TASK_UNUSED s) \<and> sched_inv (set_state t TASK_UNUSED s) xs"
proof
  have "ready_remove t s = Some s"
    using ready_remove_absent [OF sched_invD(1) [OF inv] out sched_invD(4) [OF inv out]] .
  then show "OS_TaskExit s = Some (set_state t TASK_UNUSED s)"
    using cur by (simp add: OS_TaskExit_def)
  have "ready_ring (set_state t TASK_UNUSED s) xs"
    using sched_invD(1) [OF inv] by (rule ready_ring_cong [THEN iffD1, rotated 2]) simp_all
  then show "sched_inv (set_state t TASK_UNUSED s) xs"
    using inv out by (auto simp: sched_inv_def runnable_def)
qed

section \<open>Sequences of kernel calls\<close>

text \<open>
  The calls that tasks, drivers and the timer make once the kernel runs: \<open>Tick\<close> is the call
  of \<open>OS_Schedule\<close> by the timer interrupt.
\<close>

datatype os_call =
    Create u32 u32 u32 u32 u32
  | Tick
  | Block "nat option"
  | Wake "nat option"
  | Exit

fun os_step :: "bool \<Rightarrow> os_call \<Rightarrow> sched \<Rightarrow> sched option" where
  "os_step k (Create entry arg stack ssize ident) s = map_option snd (OS_TaskCreate k entry arg stack ssize ident s)"
| "os_step k Tick s = Some (OS_Schedule s)"
| "os_step k (Block t) s = OS_TaskBlock t s"
| "os_step k (Wake t) s = OS_TaskWake t s"
| "os_step k Exit s = OS_TaskExit s"

fun os_run :: "bool \<Rightarrow> os_call list \<Rightarrow> sched \<Rightarrow> sched option" where
  "os_run k [] s = Some s"
| "os_run k (c # cs) s = (case os_step k c s of None \<Rightarrow> None | Some s' \<Rightarrow> os_run k cs s')"

text \<open>The specification: what each call does to the queue of runnable tasks.\<close>

fun queue_after :: "os_call \<Rightarrow> sched \<Rightarrow> nat list \<Rightarrow> nat list" where
  "queue_after (Create entry arg stack ssize ident) s xs =
     (if OS_MAX_TASKS \<le> task_count s \<or> entry = 0 \<or> stack = 0 then xs else xs @ [task_count s])"
| "queue_after Tick s xs = rotate1 xs"
| "queue_after (Block t) s xs = (case t of None \<Rightarrow> xs | Some i \<Rightarrow> remove1 i xs)"
| "queue_after (Wake t) s xs = (case t of None \<Rightarrow> xs
     | Some i \<Rightarrow> if state_of s i = TASK_BLOCKED then xs @ [i] else xs)"
| "queue_after Exit s xs = (case current_task s of None \<Rightarrow> xs | Some i \<Rightarrow> remove1 i xs)"

lemma os_step_queue:
  assumes inv: "sched_inv s xs"
  shows "\<exists>s'. os_step k c s = Some s' \<and> sched_inv s' (queue_after c s xs)"
proof (cases c)
  case (Create entry arg stack ssize ident)
  show ?thesis
  proof (cases "OS_MAX_TASKS \<le> task_count s \<or> entry = 0 \<or> stack = 0")
    case True
    with Create inv show ?thesis by (auto simp: OS_TaskCreate_def)
  next
    case False
    with Create sched_inv_create [OF inv, of entry stack k arg ssize ident] show ?thesis by auto
  qed
next
  case Tick
  with inv show ?thesis
    by (cases "xs = []") (auto simp: OS_Schedule_idle sched_inv_schedule)
next
  case (Block t)
  show ?thesis
  proof (cases t)
    case None
    with Block inv show ?thesis by (simp add: OS_TaskBlock_def)
  next
    case (Some i)
    show ?thesis
    proof (cases "i \<in> set xs")
      case True
      from sched_inv_block [OF inv True] show ?thesis using Block Some by auto
    next
      case False
      then have "\<not> runnable (state_of s i)"
        using sched_invD(3) [OF inv, of i] sched_invD(6) [OF inv, of i] by (auto simp: runnable_def not_less)
      with False show ?thesis
        using Block Some inv by (simp add: OS_TaskBlock_def runnable_def remove1_idem)
    qed
  qed
next
  case (Wake t)
  show ?thesis
  proof (cases t)
    case None
    with Wake inv show ?thesis by (simp add: OS_TaskWake_def)
  next
    case (Some i)
    show ?thesis
    proof (cases "state_of s i = TASK_BLOCKED")
      case True
      from sched_inv_wake [OF inv True] show ?thesis using Wake Some True by auto
    next
      case False
      then show ?thesis using Wake Some inv by (simp add: OS_TaskWake_def)
    qed
  qed
next
  case Exit
  show ?thesis
  proof (cases "current_task s")
    case None
    with Exit inv show ?thesis by (simp add: OS_TaskExit_def)
  next
    case (Some i)
    show ?thesis
    proof (cases "i \<in> set xs")
      case True
      from sched_inv_exit [OF inv Some True] show ?thesis using Exit Some by auto
    next
      case False
      from sched_inv_exit_absent [OF inv Some False] show ?thesis
        using Exit Some False by (simp add: remove1_idem)
    qed
  qed
qed

lemma os_run_inv: "sched_inv s xs \<Longrightarrow> \<exists>s' ys. os_run k cs s = Some s' \<and> sched_inv s' ys"
proof (induction cs arbitrary: s xs)
  case Nil
  then show ?case by auto
next
  case (Cons c cs)
  obtain s' where "os_step k c s = Some s'" "sched_inv s' (queue_after c s xs)"
    using os_step_queue [OF Cons.prems] by blast
  with Cons.IH [of s' "queue_after c s xs"] show ?case by simp
qed

text \<open>Two tasks, the first one running.\<close>

definition demo_sched :: sched where
  "demo_sched = \<lparr>task_pool = (\<lambda>i. if i = 0 then zero_tcb\<lparr>t_state := TASK_RUNNING, t_next := Some 1, t_sp := 0x5000\<rparr>
       else if i = 1 then zero_tcb\<lparr>t_state := TASK_READY, t_next := Some 0, t_sp := 0x6000\<rparr> else zero_tcb),
     task_count = 2, current_task = Some 0, ready_head = Some 1, smem = (\<lambda>_. 0)\<rparr>"

lemma demo_sched_inv: "sched_inv demo_sched [1, 0]"
  by (auto simp: sched_inv_def demo_sched_def ready_ring_def next_of_def runnable_def zero_tcb_def
      OS_MAX_TASKS_def split: if_splits)

section \<open>Properties\<close>

text \<open>
  C1: no sequence of kernel calls, in any order and with any arguments, makes a walk of the
  ready ring hang or follow a null pointer; after it the ring is well formed and holds, once
  each, exactly the created tasks that are ready or running.
\<close>

theorem kernel_calls_keep_ring:
  "\<exists>s' xs. os_run k cs (OS_Init s) = Some s' \<and> sched_inv s' xs"
  using sched_inv_init by (rule os_run_inv)

text \<open>
  C2: each kernel call implements its specification on the queue of runnable tasks: creating
  and waking append at the end, a tick moves the first task to the end, blocking and exiting
  remove the task, and every refused call leaves the queue as it is.
\<close>

theorem kernel_call_refines_queue:
  assumes "sched_inv s xs"
  shows "\<exists>s'. os_step k c s = Some s' \<and> sched_inv s' (queue_after c s xs)"
  using assms by (rule os_step_queue)

theorem kernel_call_refines_queue_witness:
  "\<exists>s'. os_step False (Block (Some 0)) demo_sched = Some s' \<and> sched_inv s' [1]"
  using kernel_call_refines_queue [OF demo_sched_inv, of False "Block (Some 0)"] by simp

text \<open>
  C3: the round robin is fair: a runnable task gets the processor after at most as many ticks
  as there are runnable tasks.
\<close>

theorem runnable_task_runs_within_a_round:
  assumes "sched_inv s xs" "t \<in> set xs"
  shows "\<exists>n < length xs. current_task ((OS_Schedule ^^ Suc n) s) = Some t"
  using assms by (rule rr.within_one_round)

theorem runnable_task_runs_within_a_round_witness:
  "\<exists>n < 2. current_task ((OS_Schedule ^^ Suc n) demo_sched) = Some 0"
  using runnable_task_runs_within_a_round [OF demo_sched_inv, of 0] by (simp add: numeral_2_eq_2)

end
