(* ===== verification/ContextSwitch.thy ===== *)
theory ContextSwitch
  imports Scheduler
begin

text \<open>
  The register side of a task switch.  The stack frames that \<open>OS_TaskCreate\<close> builds are
  consumed by \<open>OS_StartHighRdy\<close> and \<open>OS_TickISR\<close> of \<^verbatim>\<open>apps/kernel/ctx_switch_68000.S\<close>:
  fifteen registers in the order of \<open>movem.l\<close> (D0 to D7, A0 to A6, from the lowest address
  on), then the exception frame of the 68000, status register and program counter.
\<close>

record cpu =
  c_regs :: "u32 list"
  c_sr :: u16
  c_pc :: u32
  c_a7 :: u32

text \<open>\<open>move.l (A0),A7; movem.l (A7)+,D0-D7/A0-A6; rte\<close> with \<open>sp\<close> the saved stack pointer.\<close>

definition restore_context :: "mem \<Rightarrow> u32 \<Rightarrow> cpu" where
  "restore_context m sp =
     \<lparr>c_regs = map (\<lambda>i. rd32 m (sp + 4 * of_nat i)) [0..<15],
      c_sr = rd16 m (sp + 60), c_pc = rd32 m (sp + 62), c_a7 = sp + 66\<rparr>"

text \<open>The exception frame the processor pushes and \<open>movem.l D0-D7/A0-A6,-(A7)\<close>.\<close>

definition save_context :: "cpu \<Rightarrow> mem \<Rightarrow> u32 \<times> mem" where
  "save_context c m =
     (c_a7 c - 66,
      wr_bytes (wr_bytes m (c_a7 c - 6) (be16 (c_sr c) @ be32 (c_pc c)))
        (c_a7 c - 66) (concat (map be32 (c_regs c))))"

text \<open>
  What \<open>jsr\<close> to a compiled C function leaves below the stack pointer: the return address, and below that
  what the function keeps there itself (saved registers, locals, its own calls).  Both are the work of the
  linker and the compiler, so they are arguments.
\<close>

definition call_frame :: "u32 \<Rightarrow> u8 list \<Rightarrow> u32 \<Rightarrow> mem \<Rightarrow> mem" where
  "call_frame ret frame sp m = wr_bytes m (sp - 4 - of_nat (length frame)) (frame @ be32 ret)"

record isr_code =
  isr_return :: u32  \<comment> \<open>behind the \<open>jsr OS_Schedule\<close>\<close>
  isr_frame :: "sched \<Rightarrow> u8 list"

text \<open>The timer interrupt.  \<open>None\<close>: a null \<open>current_task\<close> is followed.\<close>

definition OS_TickISR :: "isr_code \<Rightarrow> cpu \<Rightarrow> sched \<Rightarrow> (cpu \<times> sched) option" where
  "OS_TickISR e c s =
     (case current_task s of
        None \<Rightarrow> None
      | Some t \<Rightarrow>
          let (sp, m) = save_context c (smem s);
              s0 = upd_tcb t (\<lambda>b. b\<lparr>t_sp := sp\<rparr>) (s\<lparr>smem := m\<rparr>);
              s1 = OS_Schedule (s0\<lparr>smem := call_frame (isr_return e) (isr_frame e s0) sp m\<rparr>)
          in (case current_task s1 of
                None \<Rightarrow> None
              | Some n \<Rightarrow> Some (restore_context (smem s1) (t_sp (task_pool s1 n)), s1)))"

section \<open>Frames as one block\<close>

text \<open>\<open>pushed st0 bs st\<close>: from \<open>st0\<close> the bytes \<open>bs\<close> have been pushed to reach \<open>st\<close>.\<close>

definition pushed :: "u32 \<times> mem \<Rightarrow> u8 list \<Rightarrow> u32 \<times> mem \<Rightarrow> bool" where
  "pushed st0 bs st \<longleftrightarrow> fst st = fst st0 - of_nat (length bs) \<and> snd st = wr_bytes (snd st0) (fst st) bs"

lemma pushed_refl: "pushed st [] st"
  by (simp add: pushed_def)

lemma pushed_push32:
  assumes "pushed st0 bs st" "length bs + 4 \<le> 2 ^ 32"
  shows "pushed st0 (be32 v @ bs) (push32 st v)"
proof -
  have "push32 st v = (fst st - 4, wr_bytes (snd st) (fst st - 4) (be32 v))"
    by (simp add: push32_def Let_def wr_bytes_be32)
  with assms wr_bytes_below [of "be32 v" bs "snd st0" "fst st"] show ?thesis
    by (simp add: pushed_def)
qed

lemma pushed_push16:
  assumes "pushed st0 bs st" "length bs + 2 \<le> 2 ^ 32"
  shows "pushed st0 (be16 v @ bs) (push16 st v)"
proof -
  have "push16 st v = (fst st - 2, wr_bytes (snd st) (fst st - 2) (be16 v))"
    by (simp add: push16_def Let_def wr_bytes_be16)
  with assms wr_bytes_below [of "be16 v" bs "snd st0" "fst st"] show ?thesis
    by (simp add: pushed_def)
qed

lemma pushed_zeros:
  "pushed st0 bs st \<Longrightarrow> length bs + 4 * n \<le> 2 ^ 32 \<Longrightarrow>
     pushed st0 (replicate (4 * n) 0 @ bs) (((\<lambda>st. push32 st 0) ^^ n) st)"
proof (induction n)
  case 0
  then show ?case by simp
next
  case (Suc n)
  then have "pushed st0 (be32 0 @ replicate (4 * n) 0 @ bs) (push32 (((\<lambda>st. push32 st 0) ^^ n) st) 0)"
    by (intro pushed_push32) auto
  moreover have "be32 0 @ replicate (4 * n) 0 = replicate (4 * Suc n) (0 :: u8)"
    using replicate_add [of 4 "4 * n" "0 :: u8"] by (simp add: be32_zero numeral_eq_Suc)
  ultimately show ?case by (metis append.assoc comp_apply funpow.simps(2))
qed

text \<open>The bytes of a new task's frame, from the saved stack pointer on.\<close>

definition frame_bytes :: "bool \<Rightarrow> u32 \<Rightarrow> u8 list" where
  "frame_bytes cpu68010 entry = replicate 60 0 @ be16 0x2000 @ be32 entry @ (if cpu68010 then be16 0 else [])"

lemma task_frame_pushed:
  "pushed ((stack + ssize) AND NOT 1, m) (frame_bytes k entry) (task_frame k entry stack ssize m)"
proof -
  let ?st0 = "((stack + ssize) AND NOT 1, m)"
  let ?b0 = "if k then be16 0 else []"
  have 0: "pushed ?st0 ?b0 (if k then push16 ?st0 0 else ?st0)"
    using pushed_push16 [OF pushed_refl [of ?st0], of 0] pushed_refl by simp
  have l: "length ?b0 \<le> 2" by simp
  have 1: "pushed ?st0 (be32 entry @ ?b0) (push32 (if k then push16 ?st0 0 else ?st0) entry)"
    using l by (intro pushed_push32 [OF 0]) simp
  have 2: "pushed ?st0 (be16 0x2000 @ be32 entry @ ?b0)
      (push16 (push32 (if k then push16 ?st0 0 else ?st0) entry) 0x2000)"
    using l by (intro pushed_push16 [OF 1]) simp
  from pushed_zeros [OF 2, of 15] show ?thesis
    by (cases k) (simp_all add: frame_bytes_def task_frame_def Let_def)
qed

lemma restore_block:
  assumes regs: "length rs = 15" and bs: "bs = concat (map be32 rs) @ be16 sr @ be32 pc @ rest"
    and len: "length bs \<le> 2 ^ 32"
  shows "restore_context (wr_bytes m a bs) a = \<lparr>c_regs = rs, c_sr = sr, c_pc = pc, c_a7 = a + 66\<rparr>"
proof -
  have "rd32 (wr_bytes m a bs) (a + 4 * of_nat i) = rs ! i" if "i < 15" for i
    using that regs len by (intro rd32_words [of _ _ _ "[]"]) (simp_all add: bs)
  then have "map (\<lambda>i. rd32 (wr_bytes m a bs) (a + 4 * of_nat i)) [0..<15] = map (\<lambda>i. rs ! i) [0..<15]"
    by simp
  also have "\<dots> = rs" using regs map_nth by metis
  finally have r: "map (\<lambda>i. rd32 (wr_bytes m a bs) (a + 4 * of_nat i)) [0..<15] = rs" .
  have s: "rd16 (wr_bytes m a bs) (a + 60) = sr"
    by (rule rd16_wr_part [OF _ len, of "concat (map be32 rs)" _ "be32 pc @ rest"]) (simp_all add: bs regs)
  have p: "rd32 (wr_bytes m a bs) (a + 62) = pc"
    by (rule rd32_wr_part [OF _ len, of "concat (map be32 rs) @ be16 sr" _ "rest"]) (simp_all add: bs regs)
  show ?thesis using r s p by (simp add: restore_context_def)
qed

lemma restore_task_frame:
  "restore_context (snd (task_frame False entry stack ssize m)) (fst (task_frame False entry stack ssize m)) =
     \<lparr>c_regs = replicate 15 0, c_sr = 0x2000, c_pc = entry, c_a7 = (stack + ssize) AND NOT 1\<rparr>"
proof -
  let ?f = "task_frame False entry stack ssize m"
  have p: "fst ?f = ((stack + ssize) AND NOT 1) - 66" "snd ?f = wr_bytes m (fst ?f) (frame_bytes False entry)"
    using task_frame_pushed [of stack ssize m False entry] by (simp_all add: pushed_def frame_bytes_def)
  have b: "frame_bytes False entry = concat (map be32 (replicate 15 0)) @ be16 0x2000 @ be32 entry @ []"
    by (simp add: frame_bytes_def be32_zero numeral_eq_Suc)
  have "length (frame_bytes False entry) \<le> 2 ^ 32" by (simp add: frame_bytes_def)
  from restore_block [OF _ b this, of m "fst ?f"] show ?thesis
    using p by simp
qed

lemma save_context_block:
  assumes "length (c_regs c) = 15"
  shows "save_context c m = (c_a7 c - 66,
     wr_bytes m (c_a7 c - 66) (concat (map be32 (c_regs c)) @ be16 (c_sr c) @ be32 (c_pc c)))"
proof -
  show ?thesis
    using wr_bytes_below [of "concat (map be32 (c_regs c))" "be16 (c_sr c) @ be32 (c_pc c)" m "c_a7 c - 6"] assms
    by (simp add: save_context_def)
qed

lemma restore_save:
  assumes "length (c_regs c) = 15"
  shows "restore_context (snd (save_context c m)) (fst (save_context c m)) = c"
proof -
  show ?thesis
    unfolding save_context_block [OF assms] fst_conv snd_conv
    by (subst restore_block [OF assms, of _ "c_sr c" "c_pc c" "[]"]) (simp_all add: assms)
qed

text \<open>Below the interrupted stack pointer nothing but the 66 bytes of the frame changes.\<close>

lemma save_context_frame:
  assumes "length (c_regs c) = 15" "\<not> in_block (c_a7 c - 66) 66 x"
  shows "snd (save_context c m) x = m x"
proof -
  show ?thesis
    unfolding save_context_block [OF assms(1)] using assms by (simp add: wr_bytes_frame)
qed

lemma OS_Schedule_keeps:
  "smem (OS_Schedule s) = smem s" "t_sp (task_pool (OS_Schedule s) i) = t_sp (task_pool s i)"
  "task_count (OS_Schedule s) = task_count s"
  by (auto simp: OS_Schedule_def set_state_def upd_tcb_def Let_def split: option.splits)

lemma sched_inv_save:
  assumes "sched_inv s xs"
  shows "sched_inv (upd_tcb t (\<lambda>b. b\<lparr>t_sp := v\<rparr>) (s\<lparr>smem := m\<rparr>)) xs"
proof (rule sched_inv_cong [THEN iffD1, OF _ _ _ _ _ assms])
  show "next_of s = next_of (upd_tcb t (\<lambda>b. b\<lparr>t_sp := v\<rparr>) (s\<lparr>smem := m\<rparr>))"
    by (auto simp: next_of_def)
qed auto

text \<open>The call of a C function does not touch what lies above the stack pointer.\<close>

lemma call_frame_outside:
  assumes "length frame + 4 \<le> 2 ^ 32" "\<not> in_block (sp - 4 - of_nat (length frame)) (4 + length frame) x"
  shows "call_frame ret frame sp m x = m x"
  using assms by (simp add: call_frame_def wr_bytes_frame add.commute)

lemma call_frame_above:
  assumes "length frame + 4 + n \<le> 2 ^ 32" "in_block sp n x"
  shows "call_frame ret frame sp m x = m x"
proof (rule call_frame_outside)
  show "\<not> in_block (sp - 4 - of_nat (length frame)) (4 + length frame) x"
    using in_block_adjacent [OF assms(2), of "4 + length frame"] assms(1) by (simp add: algebra_simps)
qed (use assms in simp)

lemma restore_context_cong:
  assumes "\<And>x. in_block sp 66 x \<Longrightarrow> m x = m' x"
  shows "restore_context m sp = restore_context m' sp"
proof -
  have k: "in_block (sp + of_nat i) n x \<Longrightarrow> i + n \<le> 66 \<Longrightarrow> m x = m' x" for i n x
    by (rule assms, rule in_block_part) auto
  have "rd32 m (sp + 4 * of_nat i) = rd32 m' (sp + 4 * of_nat i)" if "i < 15" for i
    using that by (intro rd32_frame k [of "4 * i" 4]) (simp, linarith)
  moreover have "rd16 m (sp + 60) = rd16 m' (sp + 60)" by (rule rd16_frame, rule k [of 60 2]) simp_all
  moreover have "rd32 m (sp + 62) = rd32 m' (sp + 62)" by (rule rd32_frame, rule k [of 62 4]) simp_all
  ultimately show ?thesis by (simp add: restore_context_def)
qed

section \<open>Properties\<close>

text \<open>
  The stack frame of a new task, restored by \<open>OS_StartHighRdy\<close>, starts the task at its
  entry point in supervisor mode with interrupts enabled, all fifteen registers zero, and the
  stack pointer at the word-aligned top of its stack.
\<close>

theorem new_task_starts_at_entry:
  "restore_context (snd (task_frame False entry stack ssize m)) (fst (task_frame False entry stack ssize m)) =
     \<lparr>c_regs = replicate 15 0, c_sr = 0x2000, c_pc = entry, c_a7 = (stack + ssize) AND NOT 1\<rparr>"
  by (rule restore_task_frame)

text \<open>
  C7: a timer tick saves the interrupted task so that restoring it gives back exactly its
  registers, status, program counter and stack pointer; it hands the processor to the first
  task of the ready ring, restored from that task's own saved stack pointer; the ring rotates
  and the invariant is kept.  Below the interrupted stack pointer the frame of 66 bytes, the return address of the
  call of the scheduler and the \<open>n\<close> bytes the scheduler uses for itself may change, and no other memory.
\<close>

theorem tick_saves_and_switches:
  assumes inv: "sched_inv s xs" and ne: "xs \<noteq> []" and cur: "current_task s = Some t"
    and regs: "length (c_regs c) = 15" and frame: "\<And>s. length (isr_frame e s) \<le> n" "70 + n \<le> 2 ^ 32"
  shows "\<exists>s'. OS_TickISR e c s = Some (restore_context (smem s') (t_sp (task_pool s' (hd xs))), s') \<and>
    restore_context (smem s') (t_sp (task_pool s' t)) = c \<and>
    (\<forall>i. i \<noteq> t \<longrightarrow> t_sp (task_pool s' i) = t_sp (task_pool s i)) \<and>
    sched_inv s' (rotate1 xs) \<and> current_task s' = Some (hd xs) \<and>
    (\<forall>x. \<not> in_block (c_a7 c - of_nat (70 + n)) (70 + n) x \<longrightarrow> smem s' x = smem s x)"
proof -
  obtain sp m where sm: "save_context c (smem s) = (sp, m)" by fastforce
  then have sp: "sp = c_a7 c - 66" by (simp add: save_context_def)
  let ?pre = "upd_tcb t (\<lambda>b. b\<lparr>t_sp := sp\<rparr>) (s\<lparr>smem := m\<rparr>)"
  define f where "f = isr_frame e ?pre"
  define m' where "m' = call_frame (isr_return e) f sp m"
  let ?s = "OS_Schedule (?pre\<lparr>smem := m'\<rparr>)"
  have f: "length f \<le> n" unfolding f_def by (rule frame)
  have m': "in_block sp 66 x \<Longrightarrow> m' x = m x" for x
    unfolding m'_def using f frame(2) by (intro call_frame_above [where n = 66]) auto
  have s0: "?pre\<lparr>smem := m'\<rparr> = upd_tcb t (\<lambda>b. b\<lparr>t_sp := sp\<rparr>) (s\<lparr>smem := m'\<rparr>)" by (simp add: upd_tcb_def)
  note sch = sched_inv_schedule [OF sched_inv_save [OF inv, of t sp m', folded s0] ne]
  have "OS_TickISR e c s = Some (restore_context (smem ?s) (t_sp (task_pool ?s (hd xs))), ?s)"
    using cur sch by (simp add: OS_TickISR_def Let_def sm f_def m'_def)
  moreover have "restore_context (smem ?s) (t_sp (task_pool ?s t)) = c"
    using restore_save [OF regs, of "smem s"] sm restore_context_cong [of sp m' m, OF m'] by (simp add: OS_Schedule_keeps upd_tcb_def)
  moreover have "\<forall>i. i \<noteq> t \<longrightarrow> t_sp (task_pool ?s i) = t_sp (task_pool s i)"
    by (simp add: OS_Schedule_keeps upd_tcb_def)
  moreover have "smem ?s x = smem s x" if x: "\<not> in_block (c_a7 c - of_nat (70 + n)) (70 + n) x" for x
  proof -
    have "\<not> in_block sp 66 x"
      using x frame(2) in_block_part [of "c_a7 c - of_nat (70 + n)" "4 + n" 66 x "70 + n"] by (auto simp: sp algebra_simps)
    moreover have "\<not> in_block (sp - 4 - of_nat (length f)) (4 + length f) x"
      using x f frame(2) in_block_part [of "c_a7 c - of_nat (70 + n)" "n - length f" "4 + length f" x "70 + n"]
      by (auto simp: sp of_nat_diff algebra_simps)
    ultimately show ?thesis
      using save_context_frame [OF regs, of x "smem s"] sm sp f frame(2) call_frame_outside [of f sp x "isr_return e" m]
      by (simp add: OS_Schedule_keeps m'_def)
  qed
  ultimately show ?thesis using sch by blast
qed

theorem tick_saves_and_switches_witness:
  "\<exists>s'. OS_TickISR \<lparr>isr_return = 0x1010, isr_frame = (\<lambda>_. replicate 8 3)\<rparr>
        \<lparr>c_regs = replicate 15 7, c_sr = 0x2000, c_pc = 0x1234, c_a7 = 0x5000\<rparr> demo_sched =
      Some (restore_context (smem s') (t_sp (task_pool s' 1)), s') \<and> sched_inv s' [0, 1] \<and> current_task s' = Some 1"
proof -
  let ?c = "\<lparr>c_regs = replicate 15 7, c_sr = 0x2000, c_pc = 0x1234, c_a7 = 0x5000\<rparr>"
  let ?e = "\<lparr>isr_return = 0x1010, isr_frame = (\<lambda>_. replicate 8 3)\<rparr>"
  have ne: "[1, 0 :: nat] \<noteq> []" and cur: "current_task demo_sched = Some 0"
    and regs: "length (c_regs ?c) = 15" and f: "\<And>s. length (isr_frame ?e s) \<le> 8" by (simp_all add: demo_sched_def)
  from tick_saves_and_switches [OF demo_sched_inv ne cur regs f] show ?thesis by auto
qed

end
