(* ===== verification/RingBuffer.thy ===== *)
theory RingBuffer
  imports Prelude
begin

text \<open>
  The keyboard ring buffer of the BIOS (\<^verbatim>\<open>apps/bios/kbd/ringbuffer.c\<close>): 256 bytes indexed
  by two 8-bit counters that wrap by themselves, written by the interrupt handler
  (\<open>ring_buf_put\<close>) and read by the main loop (\<open>ring_buf_get\<close>).  The queue interface
  its clients rely on is the locale \<open>byte_queue\<close>, interpreted here on these operations.
\<close>

section \<open>State and operations\<close>

definition RING_BUFFER_SIZE :: nat where
  "RING_BUFFER_SIZE = 256"

record ringbuffer =
  rb_buffer :: "u8 \<Rightarrow> u8"
  rb_head :: u8
  rb_tail :: u8

definition ring_buf_init :: "ringbuffer \<Rightarrow> ringbuffer" where
  "ring_buf_init rb = rb\<lparr>rb_head := 0, rb_tail := 0\<rparr>"

definition ring_buf_get :: "ringbuffer \<Rightarrow> u8 \<times> ringbuffer" where
  "ring_buf_get rb = (rb_buffer rb (rb_tail rb), rb\<lparr>rb_tail := rb_tail rb + 1\<rparr>)"

definition ring_buf_put :: "u8 \<Rightarrow> ringbuffer \<Rightarrow> ringbuffer" where
  "ring_buf_put c rb =
     (let next_head = rb_head rb + 1
      in if next_head = rb_tail rb then rb
         else rb\<lparr>rb_buffer := (rb_buffer rb)(rb_head rb := c), rb_head := next_head\<rparr>)"

definition ring_buf_is_empty :: "ringbuffer \<Rightarrow> bool" where
  "ring_buf_is_empty rb \<longleftrightarrow> rb_head rb = rb_tail rb"

definition ring_buf_is_full :: "ringbuffer \<Rightarrow> bool" where
  "ring_buf_is_full rb \<longleftrightarrow> rb_head rb + 1 = rb_tail rb"

text \<open>
  \<open>ring_buf_get_char\<close> polls \<open>ring_buf_is_empty\<close> while the interrupt handler may put
  bytes: \<open>isr\<close> lists what arrives before each poll.  \<open>None\<close>: still polling when the
  list ends.
\<close>

fun ring_buf_get_char :: "u8 list list \<Rightarrow> ringbuffer \<Rightarrow> (u8 \<times> ringbuffer) option" where
  "ring_buf_get_char [] rb = None"
| "ring_buf_get_char (cs # isr) rb =
     (let rb' = fold ring_buf_put cs rb
      in if ring_buf_is_empty rb' then ring_buf_get_char isr rb'
         else Some (ring_buf_get rb'))"

section \<open>The abstract queue\<close>

text \<open>The bytes from position \<open>p\<close> on, \<open>n\<close> of them, wrapping with the 8-bit index.\<close>

fun ring_slice :: "(u8 \<Rightarrow> u8) \<Rightarrow> u8 \<Rightarrow> nat \<Rightarrow> u8 list" where
  "ring_slice b p 0 = []"
| "ring_slice b p (Suc n) = b p # ring_slice b (p + 1) n"

definition ring_count :: "ringbuffer \<Rightarrow> nat" where
  "ring_count rb = unat (rb_head rb - rb_tail rb)"

definition ring_list :: "ringbuffer \<Rightarrow> u8 list" where
  "ring_list rb = ring_slice (rb_buffer rb) (rb_tail rb) (ring_count rb)"

lemma length_ring_slice [simp]: "length (ring_slice b p n) = n"
  by (induction n arbitrary: p) auto

lemma ring_slice_snoc: "ring_slice b p (Suc n) = ring_slice b p n @ [b (p + of_nat n)]"
proof (induction n arbitrary: p)
  case 0
  then show ?case by simp
next
  case (Suc n)
  have "ring_slice b p (Suc (Suc n)) = b p # ring_slice b (p + 1) (Suc n)" by (simp only: ring_slice.simps)
  also have "\<dots> = b p # (ring_slice b (p + 1) n @ [b (p + 1 + of_nat n)])" by (simp only: Suc.IH)
  finally show ?case by (simp add: add.assoc)
qed

lemma ring_slice_cong:
  "(\<And>i. i < n \<Longrightarrow> b (p + of_nat i) = b' (p + of_nat i)) \<Longrightarrow> ring_slice b p n = ring_slice b' p n"
proof (induction n)
  case 0
  then show ?case by simp
next
  case (Suc n)
  then show ?case unfolding ring_slice_snoc by simp
qed

lemma ring_slice_update:
  "n < 256 \<Longrightarrow> ring_slice (b(p + of_nat n := c)) p n = ring_slice b p n"
proof (rule ring_slice_cong)
  fix i assume n: "n < 256" and i: "i < n"
  have "of_nat i \<noteq> (of_nat n :: u8)"
  proof
    assume "of_nat i = (of_nat n :: u8)"
    then have "unat (of_nat i :: u8) = unat (of_nat n :: u8)" by simp
    then show False using n i by (simp add: unat_of_nat)
  qed
  then show "(b(p + of_nat n := c)) (p + of_nat i) = b (p + of_nat i)" by simp
qed

lemma ring_count_bound: "ring_count rb \<le> 255"
proof -
  have "ring_count rb < 2 ^ LENGTH(8)" unfolding ring_count_def by (rule unsigned_less)
  then show ?thesis by simp
qed

lemma head_eq: "rb_head rb = rb_tail rb + of_nat (ring_count rb)"
  by (simp add: ring_count_def)

lemma length_ring_list: "length (ring_list rb) = ring_count rb"
  by (simp add: ring_list_def)

lemma ring_empty_iff: "ring_buf_is_empty rb \<longleftrightarrow> ring_list rb = []"
proof -
  have "ring_list rb = [] \<longleftrightarrow> ring_count rb = 0" by (metis length_ring_list length_0_conv)
  also have "\<dots> \<longleftrightarrow> rb_head rb - rb_tail rb = 0" by (simp add: ring_count_def unat_eq_0)
  finally show ?thesis by (simp add: ring_buf_is_empty_def)
qed

lemma ring_full_iff: "ring_buf_is_full rb \<longleftrightarrow> ring_count rb = 255"
proof
  assume "ring_buf_is_full rb"
  then have "rb_head rb - rb_tail rb = rb_head rb - (rb_head rb + 1)"
    by (simp add: ring_buf_is_full_def)
  also have "\<dots> = - 1" by simp
  finally show "ring_count rb = 255"
    by (simp add: ring_count_def unsigned_minus_1_eq_mask mask_eq_exp_minus_1)
next
  assume "ring_count rb = 255"
  then have "rb_head rb = rb_tail rb + of_nat 255" using head_eq [of rb] by simp
  then show "ring_buf_is_full rb" by (simp add: ring_buf_is_full_def)
qed

lemma ring_count_put:
  "ring_count (ring_buf_put c rb) = (if ring_buf_is_full rb then ring_count rb else Suc (ring_count rb))"
proof (cases "ring_buf_is_full rb")
  case True
  then show ?thesis by (simp add: ring_buf_put_def ring_buf_is_full_def)
next
  case False
  then have "ring_count rb < 255" using ring_full_iff ring_count_bound [of rb] by (simp add: le_less)
  then have u: "unat (rb_head rb - rb_tail rb) < 255" by (simp add: ring_count_def)
  have e: "rb_head rb + 1 - rb_tail rb = (rb_head rb - rb_tail rb) + 1" by simp
  have "unat ((rb_head rb - rb_tail rb) + 1) = Suc (unat (rb_head rb - rb_tail rb))"
    using u by (simp add: unat_word_ariths)
  with False show ?thesis
    unfolding ring_count_def e [symmetric]
    by (simp add: ring_buf_put_def ring_buf_is_full_def Let_def)
qed

lemma ring_list_put:
  "ring_list (ring_buf_put c rb) = (if ring_buf_is_full rb then ring_list rb else ring_list rb @ [c])"
proof (cases "ring_buf_is_full rb")
  case True
  then show ?thesis by (simp add: ring_buf_put_def ring_buf_is_full_def)
next
  case False
  then have "ring_count rb < 255" using ring_full_iff ring_count_bound [of rb] by (simp add: le_less)
  then have n: "ring_count rb < 256" by simp
  have b: "rb_buffer (ring_buf_put c rb) = (rb_buffer rb)(rb_tail rb + of_nat (ring_count rb) := c)"
      "rb_tail (ring_buf_put c rb) = rb_tail rb"
    using False head_eq [of rb] by (simp_all add: ring_buf_put_def ring_buf_is_full_def Let_def)
  show ?thesis
    using False ring_slice_update [OF n, of "rb_buffer rb" "rb_tail rb" c]
    by (simp add: ring_list_def ring_count_put b ring_slice_snoc del: ring_slice.simps)
qed

lemma ring_get_nonempty:
  assumes "ring_list rb = x # xs"
  shows "fst (ring_buf_get rb) = x" "ring_list (snd (ring_buf_get rb)) = xs"
proof -
  from assms obtain n where n: "ring_count rb = Suc n"
    using length_ring_list [of rb] by (cases "ring_count rb") auto
  then have nz: "rb_head rb - rb_tail rb \<noteq> 0" by (auto simp: ring_count_def)
  have d: "rb_head rb - (rb_tail rb + 1) = (rb_head rb - rb_tail rb) - 1" by (simp only: diff_diff_eq)
  have "unat (rb_head rb - (rb_tail rb + 1)) = n"
    unfolding d using unat_minus_one_step [OF nz] n by (simp add: ring_count_def)
  with assms n show "fst (ring_buf_get rb) = x" "ring_list (snd (ring_buf_get rb)) = xs"
    by (auto simp: ring_buf_get_def ring_list_def ring_count_def)
qed

lemma ring_list_init: "ring_list (ring_buf_init rb) = []"
  by (simp add: ring_list_def ring_count_def ring_buf_init_def)

section \<open>The queue interface\<close>

text \<open>
  What the console and the command history rely on: a bounded first-in first-out queue of
  bytes that drops what does not fit.
\<close>

locale byte_queue =
  fixes contents :: "'q \<Rightarrow> u8 list"
    and put :: "u8 \<Rightarrow> 'q \<Rightarrow> 'q"
    and get :: "'q \<Rightarrow> u8 \<times> 'q"
    and is_empty :: "'q \<Rightarrow> bool"
    and capacity :: nat
  assumes put_contents: "contents (put c q) =
      (if length (contents q) < capacity then contents q @ [c] else contents q)"
    and get_contents: "contents q = x # xs \<Longrightarrow> fst (get q) = x \<and> contents (snd (get q)) = xs"
    and empty_contents: "is_empty q \<longleftrightarrow> contents q = []"
    and within: "length (contents q) \<le> capacity"
begin

lemma contents_puts:
  "contents (fold put cs q) = contents q @ take (capacity - length (contents q)) cs"
proof (induction cs arbitrary: q)
  case Nil
  then show ?case by simp
next
  case (Cons c cs)
  show ?case
  proof (cases "length (contents q) < capacity")
    case True
    then have "capacity - length (contents q) = Suc (capacity - Suc (length (contents q)))" by simp
    with Cons.IH [of "put c q"] True show ?thesis by (simp add: put_contents)
  next
    case False
    with Cons.IH [of "put c q"] show ?thesis by (simp add: put_contents)
  qed
qed

lemma get_after_puts:
  assumes "contents q = []" "cs \<noteq> []" "length cs \<le> capacity"
  shows "fst (get (fold put cs q)) = hd cs" "contents (snd (get (fold put cs q))) = tl cs"
proof -
  have "contents (fold put cs q) = hd cs # tl cs"
    using assms by (simp add: contents_puts)
  from get_contents [OF this] show "fst (get (fold put cs q)) = hd cs"
    "contents (snd (get (fold put cs q))) = tl cs" by simp_all
qed

end

interpretation rb: byte_queue ring_list ring_buf_put ring_buf_get ring_buf_is_empty "255"
proof
  show "ring_list (ring_buf_put c q) =
      (if length (ring_list q) < 255 then ring_list q @ [c] else ring_list q)" for c q
    using ring_count_bound [of q] by (simp add: ring_list_put ring_full_iff length_ring_list)
next
  show "fst (ring_buf_get q) = x \<and> ring_list (snd (ring_buf_get q)) = xs"
    if "ring_list q = x # xs" for q x xs
    using ring_get_nonempty [OF that] by simp
next
  show "ring_buf_is_empty q \<longleftrightarrow> ring_list q = []" for q by (rule ring_empty_iff)
next
  show "length (ring_list q) \<le> 255" for q
    using ring_count_bound [of q] by (simp add: length_ring_list)
qed

section \<open>Properties\<close>

text \<open>
  The calls of the buffer and what they answer; a \<open>RbGet\<close> of the abstract queue is refused when the queue is
  empty, as \<open>ring_buf_get\<close> does not look.
\<close>

datatype rb_call = RbInit | RbPut u8 | RbGet | RbIsEmpty | RbIsFull

datatype rb_answer = Done | Byte u8 | Flag bool

fun ring_buf_call :: "rb_call \<Rightarrow> ringbuffer \<Rightarrow> rb_answer \<times> ringbuffer" where
  "ring_buf_call RbInit rb = (Done, ring_buf_init rb)"
| "ring_buf_call (RbPut c) rb = (Done, ring_buf_put c rb)"
| "ring_buf_call RbGet rb = map_prod Byte id (ring_buf_get rb)"
| "ring_buf_call RbIsEmpty rb = (Flag (ring_buf_is_empty rb), rb)"
| "ring_buf_call RbIsFull rb = (Flag (ring_buf_is_full rb), rb)"

fun ring_buf_calls :: "rb_call list \<Rightarrow> ringbuffer \<Rightarrow> rb_answer list \<times> ringbuffer" where
  "ring_buf_calls [] rb = ([], rb)"
| "ring_buf_calls (c # cs) rb = (let (a, rb) = ring_buf_call c rb; (as, rb) = ring_buf_calls cs rb in (a # as, rb))"

fun queue_call :: "rb_call \<Rightarrow> u8 list \<Rightarrow> (rb_answer \<times> u8 list) option" where
  "queue_call RbInit q = Some (Done, [])"
| "queue_call (RbPut c) q = Some (Done, if length q < 255 then q @ [c] else q)"
| "queue_call RbGet [] = None"
| "queue_call RbGet (c # q) = Some (Byte c, q)"
| "queue_call RbIsEmpty q = Some (Flag (q = []), q)"
| "queue_call RbIsFull q = Some (Flag (length q = 255), q)"

fun queue_calls :: "rb_call list \<Rightarrow> u8 list \<Rightarrow> (rb_answer list \<times> u8 list) option" where
  "queue_calls [] q = Some ([], q)"
| "queue_calls (c # cs) q =
     Option.bind (queue_call c q) (\<lambda>(a, q). map_option (\<lambda>(as, q). (a # as, q)) (queue_calls cs q))"

lemma ring_buf_call_refines:
  assumes "queue_call c (ring_list rb) = Some (a, q)"
  shows "fst (ring_buf_call c rb) = a \<and> ring_list (snd (ring_buf_call c rb)) = q"
proof (cases c)
  case RbInit
  then show ?thesis using assms by (simp add: ring_list_init)
next
  case (RbPut x)
  then show ?thesis using assms by (simp add: rb.put_contents split: if_splits)
next
  case RbGet
  then obtain x xs where x: "ring_list rb = x # xs" using assms by (cases "ring_list rb") auto
  then show ?thesis using assms RbGet rb.get_contents [OF x] by (cases "ring_buf_get rb") auto
next
  case RbIsEmpty
  then show ?thesis using assms by (auto simp: ring_empty_iff)
next
  case RbIsFull
  then show ?thesis using assms by (simp add: ring_full_iff length_ring_list)
qed

text \<open>
  C40: the ring buffer is a first-in first-out queue of at most 255 bytes: under any sequence of its five
  operations that takes no byte from an empty buffer, every answer (the bytes taken, whether the
  buffer is empty or full) and the contents at the end are those of the queue, which drops what does not fit.
\<close>

theorem ring_buf_fifo:
  assumes "queue_calls cs (ring_list rb) = Some (as, q)"
  shows "\<exists>rb'. ring_buf_calls cs rb = (as, rb') \<and> ring_list rb' = q"
  using assms
proof (induction cs arbitrary: rb as)
  case Nil
  then show ?case by simp
next
  case (Cons c cs)
  then obtain a q1 as1 where a: "queue_call c (ring_list rb) = Some (a, q1)" "queue_calls cs q1 = Some (as1, q)" "as = a # as1"
    by (auto simp: Option.bind_eq_Some_conv)
  have s: "fst (ring_buf_call c rb) = a" "ring_list (snd (ring_buf_call c rb)) = q1" using ring_buf_call_refines [OF a(1)] by simp_all
  from a(2) obtain rb' where "ring_buf_calls cs (snd (ring_buf_call c rb)) = (as1, rb')" "ring_list rb' = q"
    using Cons.IH [of "snd (ring_buf_call c rb)"] unfolding s(2) by blast
  with a(3) s(1) show ?case by (auto simp: case_prod_beta Let_def)
qed

theorem ring_buf_fifo_witness:
  "\<exists>rb'. ring_buf_calls [RbPut 65, RbPut 66, RbGet, RbIsEmpty, RbPut 67, RbGet, RbGet, RbIsEmpty, RbPut 9, RbInit, RbIsFull]
      \<lparr>rb_buffer = (\<lambda>_. 0), rb_head = 255, rb_tail = 255\<rparr> =
    ([Done, Done, Byte 65, Flag False, Done, Byte 66, Byte 67, Flag True, Done, Done, Flag False], rb') \<and> ring_list rb' = []"
proof -
  have e: "ring_list \<lparr>rb_buffer = (\<lambda>_. 0), rb_head = 255, rb_tail = 255\<rparr> = []"
    by (simp add: ring_list_def ring_count_def)
  show ?thesis by (rule ring_buf_fifo) (simp add: e)
qed

text \<open>
  As soon as a byte arrives the polling read returns the oldest byte of the
  buffer and removes it, and it keeps polling as long as none does.
\<close>

theorem ring_buf_get_char_returns:
  assumes "ring_list rb = []" "cs \<noteq> []" "length cs \<le> 255"
  shows "\<exists>rb'. ring_buf_get_char (replicate k [] @ cs # isr) rb = Some (hd cs, rb') \<and> ring_list rb' = tl cs"
proof (induction k)
  case 0
  have ne: "ring_list (fold ring_buf_put cs rb) \<noteq> []"
    using assms by (simp add: rb.contents_puts)
  then show ?case
    using rb.get_after_puts [OF assms] by (auto simp: ring_empty_iff Let_def prod_eq_iff)
next
  case (Suc k)
  have "ring_buf_is_empty rb" using assms(1) by (simp add: ring_empty_iff)
  with Suc show ?case by simp
qed

theorem ring_buf_get_char_returns_witness:
  "\<exists>rb'. ring_buf_get_char (replicate 2 [] @ [65, 66] # [])
      \<lparr>rb_buffer = (\<lambda>_. 0), rb_head = 7, rb_tail = 7\<rparr> = Some (65, rb') \<and> ring_list rb' = [66]"
proof -
  have e: "ring_list \<lparr>rb_buffer = (\<lambda>_. 0), rb_head = 7, rb_tail = 7\<rparr> = []"
    by (simp add: ring_list_def ring_count_def)
  show ?thesis using ring_buf_get_char_returns [OF e, of "[65, 66]" 2 "[]"] by simp
qed

text \<open>
  \<open>ring_buf_get\<close> does not test for emptiness: called on an empty buffer it
  moves the tail past the head, and the buffer then counts 255 bytes that nobody put.
\<close>

theorem ring_buf_get_underflow:
  assumes "ring_buf_is_empty rb"
  shows "ring_count (snd (ring_buf_get rb)) = 255 \<and> ring_buf_is_full (snd (ring_buf_get rb))"
proof -
  have "ring_buf_is_full (snd (ring_buf_get rb))"
    using assms by (simp add: ring_buf_is_empty_def ring_buf_is_full_def ring_buf_get_def)
  then show ?thesis by (simp add: ring_full_iff)
qed

theorem ring_buf_get_underflow_witness:
  "ring_count (snd (ring_buf_get \<lparr>rb_buffer = (\<lambda>_. 0), rb_head = 3, rb_tail = 3\<rparr>)) = 255"
proof -
  have "ring_buf_is_empty \<lparr>rb_buffer = (\<lambda>_. 0), rb_head = 3, rb_tail = 3\<rparr>"
    by (simp add: ring_buf_is_empty_def)
  from ring_buf_get_underflow [OF this] show ?thesis by simp
qed

end
