(* ===== verification/CStrings.thy ===== *)
theory CStrings
  imports Prelude
begin

text \<open>
  The string functions of the C library (\<^verbatim>\<open>libc/src/string\<close>, \<^verbatim>\<open>libc/src/stdlib\<close>),
  over the flat memory.  A loop that runs to a zero byte is a partial function: \<open>None\<close> is a
  loop that never finds one.  A loop with a counter \<open>n\<close> that is decremented to zero runs
  \<open>unat n\<close> times, also for a negative \<open>int\<close>.  The null pointer is the address 0.  Each
  function is related to a function on the list of bytes of its string arguments.
\<close>

lemma sint_eq_iff: "sint (a :: 'a::len word) = sint b \<longleftrightarrow> a = b"
  by (auto intro: signed_word_eqI)

lemma sint_eq_0_iff [simp]: "sint (a :: 'a::len word) = 0 \<longleftrightarrow> a = 0"
  using sint_eq_iff [of a 0] by simp

section \<open>Length\<close>

partial_function (option) strlen_loop :: "mem \<Rightarrow> u32 \<Rightarrow> u32 \<Rightarrow> u32 option" where
  "strlen_loop m str len = (if m str \<noteq> 0 then strlen_loop m (str + 1) (len + 1) else Some len)"

definition strlen :: "mem \<Rightarrow> u32 \<Rightarrow> u32 option" where
  "strlen m str = strlen_loop m str 0"

lemma strlen_loop_cstr: "cstr m p s \<Longrightarrow> strlen_loop m p len = Some (len + of_nat (length s))"
proof (induction s arbitrary: p len)
  case Nil
  then show ?case by (simp add: strlen_loop.simps)
next
  case (Cons c s)
  then show ?case by (subst strlen_loop.simps) (simp add: add.assoc)
qed

lemma strlen_cstr: "cstr m p s \<Longrightarrow> strlen m p = Some (of_nat (length s))"
  by (simp add: strlen_def strlen_loop_cstr)

fun strnlen_loop :: "mem \<Rightarrow> u32 \<Rightarrow> nat \<Rightarrow> u32 \<Rightarrow> u32" where
  "strnlen_loop m str 0 i = i"
| "strnlen_loop m str (Suc n) i = (if m (str + i) \<noteq> 0 then strnlen_loop m str n (i + 1) else i)"

text \<open>The recursion argument is the number of iterations left, \<open>maxlen - i\<close>.\<close>

definition strnlen :: "mem \<Rightarrow> u32 \<Rightarrow> u32 \<Rightarrow> u32" where
  "strnlen m str maxlen = strnlen_loop m str (unat maxlen) 0"

lemma strnlen_loop_cstr:
  "cstr m (p + i) s \<Longrightarrow> strnlen_loop m p n i = i + of_nat (min n (length s))"
proof (induction n arbitrary: s i)
  case 0
  then show ?case by simp
next
  case (Suc n)
  show ?case
  proof (cases s)
    case Nil
    with Suc.prems show ?thesis by simp
  next
    case (Cons c cs)
    with Suc.prems have "cstr m (p + (i + 1)) cs" "m (p + i) \<noteq> 0" by (simp_all add: add.assoc)
    with Suc.IH [of "i + 1" cs] Cons show ?thesis by (simp add: add.assoc)
  qed
qed

lemma strnlen_cstr: "cstr m p s \<Longrightarrow> strnlen m p k = of_nat (min (unat k) (length s))"
  using strnlen_loop_cstr [of m p 0 s "unat k"] by (simp add: strnlen_def)

section \<open>Comparison\<close>

partial_function (option) strcmp :: "mem \<Rightarrow> u32 \<Rightarrow> u32 \<Rightarrow> int option" where
  "strcmp m s1 s2 =
     (if m s1 \<noteq> 0 \<and> m s1 = m s2 then strcmp m (s1 + 1) (s2 + 1)
      else Some (uint (m s1) - uint (m s2)))"

text \<open>The order of byte strings as unsigned bytes, the end of a string being a zero byte.\<close>

fun cmp_bytes :: "u8 list \<Rightarrow> u8 list \<Rightarrow> int" where
  "cmp_bytes [] [] = 0"
| "cmp_bytes [] (b # bs) = 0 - uint b"
| "cmp_bytes (a # as) [] = uint a"
| "cmp_bytes (a # as) (b # bs) = (if a = b then cmp_bytes as bs else uint a - uint b)"

lemma strcmp_cstr: "cstr m p s \<Longrightarrow> cstr m q t \<Longrightarrow> strcmp m p q = Some (cmp_bytes s t)"
proof (induction s t arbitrary: p q rule: cmp_bytes.induct)
  case (4 a as b bs)
  then show ?case by (subst strcmp.simps) auto
qed (subst strcmp.simps; auto)+

lemma uint_pos: "(b :: u8) \<noteq> 0 \<Longrightarrow> 0 < uint b"
  by (metis unsigned_greater_eq order_le_less uint_0_iff)

lemma cmp_bytes_0: "0 \<notin> set s \<Longrightarrow> 0 \<notin> set t \<Longrightarrow> cmp_bytes s t = 0 \<longleftrightarrow> s = t"
proof (induction s t rule: cmp_bytes.induct)
  case (4 a as b bs)
  then show ?case by (auto simp: word_uint_eq_iff)
qed (auto simp: uint_0_iff)

lemma cmp_bytes_sym: "cmp_bytes t s = - cmp_bytes s t"
  by (induction s t rule: cmp_bytes.induct) auto

text \<open>Both comparisons of the tree, kept apart: \<^verbatim>\<open>strncmp.c\<close> compares signed characters.\<close>

fun strncmp_loop :: "mem \<Rightarrow> u32 \<Rightarrow> u32 \<Rightarrow> nat \<Rightarrow> int" where
  "strncmp_loop m s1 s2 0 = 0"
| "strncmp_loop m s1 s2 (Suc n) =
     (if schar (m s1) > schar (m s2) then 1
      else if schar (m s1) < schar (m s2) then - 1
      else if m s1 = m s2 \<and> m s1 = 0 then 0
      else strncmp_loop m (s1 + 1) (s2 + 1) n)"

definition strncmp :: "mem \<Rightarrow> u32 \<Rightarrow> u32 \<Rightarrow> u32 \<Rightarrow> int" where
  "strncmp m s1 s2 k = strncmp_loop m s1 s2 (unat k)"

lemma strncmp_loop_0_iff:
  "cstr m p s \<Longrightarrow> cstr m q t \<Longrightarrow> strncmp_loop m p q n = 0 \<longleftrightarrow> take n s = take n t"
proof (induction n arbitrary: p q s t)
  case 0
  then show ?case by simp
next
  case (Suc n)
  show ?case
    using Suc.prems Suc.IH [of "p + 1" "tl s" "q + 1" "tl t"]
    by (cases s; cases t) (auto simp: not_less_iff_gr_or_eq sint_eq_iff)
qed

fun memcmp_loop :: "mem \<Rightarrow> u32 \<Rightarrow> u32 \<Rightarrow> nat \<Rightarrow> int" where
  "memcmp_loop m p1 p2 0 = 0"
| "memcmp_loop m p1 p2 (Suc n) =
     (if m p1 \<noteq> m p2 then uint (m p1) - uint (m p2) else memcmp_loop m (p1 + 1) (p2 + 1) n)"

text \<open>\<open>while (n > 0)\<close> with a signed \<open>int n\<close>: no iteration when it is negative.\<close>

definition memcmp :: "mem \<Rightarrow> u32 \<Rightarrow> u32 \<Rightarrow> u32 \<Rightarrow> int" where
  "memcmp m s1 s2 n = memcmp_loop m s1 s2 (nat (sint n))"

lemma memcmp_loop_0_iff: "memcmp_loop m p q n = 0 \<longleftrightarrow> rd_bytes m p n = rd_bytes m q n"
  by (induction n arbitrary: p q) (auto simp: word_uint_eq_iff)

text \<open>The string a pointer argument leads to.\<close>

partial_function (option) text_at :: "mem \<Rightarrow> u32 \<Rightarrow> u8 list option" where
  "text_at m p = (if m p = 0 then Some [] else Option.bind (text_at m (p + 1)) (\<lambda>s. Some (m p # s)))"

lemma text_at_cstr: "cstr m p s \<Longrightarrow> text_at m p = Some s"
proof (induction s arbitrary: p)
  case Nil
  then show ?case by (subst text_at.simps) simp
next
  case (Cons c s)
  then show ?case by (subst text_at.simps) auto
qed

text \<open>Upper-case letters fold to lower case, on signed characters.\<close>

definition fold_case :: "u8 \<Rightarrow> u8" where
  "fold_case c = (if 65 \<le> schar c \<and> schar c \<le> 90 then c + 32 else c)"

partial_function (option) strcasecmp :: "mem \<Rightarrow> u32 \<Rightarrow> u32 \<Rightarrow> int option" where
  "strcasecmp m s1 s2 =
     (if m s1 \<noteq> 0 \<and> m s2 \<noteq> 0 then
        (let c1 = fold_case (m s1); c2 = fold_case (m s2)
         in if c1 \<noteq> c2 then Some (schar c1 - schar c2) else strcasecmp m (s1 + 1) (s2 + 1))
      else Some (schar (m s1) - schar (m s2)))"

lemma strcasecmp_cstr_0:
  "cstr m p s \<Longrightarrow> cstr m q t \<Longrightarrow>
     \<exists>r. strcasecmp m p q = Some r \<and> (r = 0 \<longleftrightarrow> map fold_case s = map fold_case t)"
proof (induction s arbitrary: p q t)
  case Nil
  then show ?case by (subst strcasecmp.simps) (cases t; auto simp: sint_eq_iff)
next
  case (Cons a as)
  show ?case
  proof (cases t)
    case Nil
    with Cons.prems show ?thesis
      by (subst strcasecmp.simps) auto
  next
    case (Cons b bs)
    with Cons.prems have hd: "m p = a" "m q = b" "a \<noteq> 0" "b \<noteq> 0"
      and tl: "cstr m (p + 1) as" "cstr m (q + 1) bs" by auto
    obtain r where r: "strcasecmp m (p + 1) (q + 1) = Some r" "r = 0 \<longleftrightarrow> map fold_case as = map fold_case bs"
      using Cons.IH [OF tl] by blast
    then show ?thesis
      using hd Cons by (subst strcasecmp.simps) (auto simp: Let_def sint_eq_iff)
  qed
qed

section \<open>Copying\<close>

fun memcpy_loop :: "mem \<Rightarrow> u32 \<Rightarrow> u32 \<Rightarrow> nat \<Rightarrow> mem" where
  "memcpy_loop m d s 0 = m"
| "memcpy_loop m d s (Suc n) = memcpy_loop (m(d := m s)) (d + 1) (s + 1) n"

definition memcpy :: "mem \<Rightarrow> u32 \<Rightarrow> u32 \<Rightarrow> u32 \<Rightarrow> u32 \<times> mem" where
  "memcpy m dest src n = (dest, memcpy_loop m dest src (unat n))"

text \<open>\<open>d\<close> and \<open>s\<close> already stand \<open>n\<close> further: \<open>*--d = *--s\<close>.\<close>

fun memcpy_back :: "mem \<Rightarrow> u32 \<Rightarrow> u32 \<Rightarrow> nat \<Rightarrow> mem" where
  "memcpy_back m d s 0 = m"
| "memcpy_back m d s (Suc n) = memcpy_back (m(d - 1 := m (s - 1))) (d - 1) (s - 1) n"

definition memmove :: "mem \<Rightarrow> u32 \<Rightarrow> u32 \<Rightarrow> u32 \<Rightarrow> u32 \<times> mem" where
  "memmove m dest src n =
     (dest, if dest > src \<and> dest < src + n then memcpy_back m (dest + n) (src + n) (unat n)
            else memcpy_loop m dest src (unat n))"

fun memset_loop :: "mem \<Rightarrow> u32 \<Rightarrow> u8 \<Rightarrow> nat \<Rightarrow> mem" where
  "memset_loop m p c 0 = m"
| "memset_loop m p c (Suc n) = memset_loop (m(p := c)) (p + 1) c n"

definition memset :: "mem \<Rightarrow> u32 \<Rightarrow> u32 \<Rightarrow> u32 \<Rightarrow> mem" where
  "memset m s c n = memset_loop m s (ucast c) (unat n)"

text \<open>Copies up to and including the byte \<open>c\<close>; the result is the address after it, or null.\<close>

fun memccpy_loop :: "mem \<Rightarrow> u32 \<Rightarrow> u32 \<Rightarrow> u8 \<Rightarrow> nat \<Rightarrow> u32 \<times> mem" where
  "memccpy_loop m d s c 0 = (0, m)"
| "memccpy_loop m d s c (Suc n) =
     (let m' = m(d := m s) in
      if m' s = c then (d + 1, m') else memccpy_loop m' (d + 1) (s + 1) c n)"

definition memccpy :: "mem \<Rightarrow> u32 \<Rightarrow> u32 \<Rightarrow> u32 \<Rightarrow> u32 \<Rightarrow> u32 \<times> mem" where
  "memccpy m dest src c n = memccpy_loop m dest src (ucast c) (unat n)"

partial_function (option) strcpy_loop :: "mem \<Rightarrow> u32 \<Rightarrow> u32 \<Rightarrow> mem option" where
  "strcpy_loop m d src =
     (if m src \<noteq> 0 then strcpy_loop (m(d := m src)) (d + 1) (src + 1) else Some (m(d := 0)))"

definition strcpy :: "mem \<Rightarrow> u32 \<Rightarrow> u32 \<Rightarrow> (u32 \<times> mem) option" where
  "strcpy m dest src = map_option (\<lambda>m'. (dest, m')) (strcpy_loop m dest src)"

text \<open>The \<open>strncpy\<close> of the tree copies \<open>n\<close> bytes, whatever they are.\<close>

definition strncpy :: "mem \<Rightarrow> u32 \<Rightarrow> u32 \<Rightarrow> u32 \<Rightarrow> u32 \<times> mem" where
  "strncpy m dest src n = (dest, memcpy_loop m dest src (unat n))"

partial_function (option) find_end :: "mem \<Rightarrow> u32 \<Rightarrow> u32 option" where
  "find_end m p = (if m p \<noteq> 0 then find_end m (p + 1) else Some p)"

text \<open>\<open>while ((*dest++ = *src++));\<close>\<close>

partial_function (option) strcat_loop :: "mem \<Rightarrow> u32 \<Rightarrow> u32 \<Rightarrow> mem option" where
  "strcat_loop m d src =
     (let m' = m(d := m src) in
      if m src \<noteq> 0 then strcat_loop m' (d + 1) (src + 1) else Some m')"

definition strcat :: "mem \<Rightarrow> u32 \<Rightarrow> u32 \<Rightarrow> (u32 \<times> mem) option" where
  "strcat m dest src =
     (case find_end m dest of None \<Rightarrow> None
      | Some d \<Rightarrow> map_option (\<lambda>m'. (dest, m')) (strcat_loop m d src))"

fun strncat_loop :: "mem \<Rightarrow> u32 \<Rightarrow> u32 \<Rightarrow> nat \<Rightarrow> mem" where
  "strncat_loop m d src 0 = m"
| "strncat_loop m d src (Suc n) =
     (if m src \<noteq> 0 then strncat_loop (m(d := m src)) (d + 1) (src + 1) n else m(d := 0))"

text \<open>The loop with \<open>max\<close> left; where it stops at the end of \<open>src\<close>, \<open>max > 0\<close> and the zero is stored.\<close>

definition strncat :: "mem \<Rightarrow> u32 \<Rightarrow> u32 \<Rightarrow> u32 \<Rightarrow> (u32 \<times> mem) option" where
  "strncat m dest src maxlen =
     (case find_end m dest of None \<Rightarrow> None
      | Some d \<Rightarrow> Some (dest, strncat_loop m d src (unat maxlen)))"

subsection \<open>What the copies store\<close>

text \<open>A forward copy is right when no store hits a byte that is still to be read.\<close>

lemma memcpy_loop_forward:
  "(d = s \<or> n \<le> unat (d - s)) \<Longrightarrow> n \<le> 2 ^ 32 \<Longrightarrow> memcpy_loop m d s n = wr_bytes m d (rd_bytes m s n)"
proof (induction n arbitrary: m d s)
  case 0
  then show ?case by simp
next
  case (Suc n)
  have step: "d + 1 - (s + 1) = d - s" by simp
  have nin: "\<not> in_block (s + 1) n d"
  proof (cases "d = s")
    case True
    then show ?thesis using not_in_next_block Suc.prems(2) by simp
  next
    case False
    with Suc.prems have "Suc n \<le> unat (d - s)" by simp
    with False show ?thesis by (simp add: in_block_def unat_pred)
  qed
  have "rd_bytes (m(d := m s)) (s + 1) n = rd_bytes m (s + 1) n"
    using nin Suc.prems(2) by (intro rd_bytes_cong) (auto simp: in_block_def)
  moreover have "memcpy_loop (m(d := m s)) (d + 1) (s + 1) n =
      wr_bytes (m(d := m s)) (d + 1) (rd_bytes (m(d := m s)) (s + 1) n)"
    using Suc.prems by (intro Suc.IH) (auto simp: step)
  ultimately show ?case by simp
qed

lemma wr_bytes_snoc: "wr_bytes m a (bs @ [b]) = (wr_bytes m a bs)(a + of_nat (length bs) := b)"
  by (simp add: wr_bytes_append)

lemma rd_bytes_snoc: "rd_bytes m a (Suc n) = rd_bytes m a n @ [m (a + of_nat n)]"
  using rd_bytes_append [of m a n 1] by simp

lemma memcpy_back_block:
  "0 < unat (d - s) \<Longrightarrow> unat (d - s) + n \<le> 2 ^ 32 \<Longrightarrow>
     memcpy_back m (d + of_nat n) (s + of_nat n) n = wr_bytes m d (rd_bytes m s n)"
proof (induction n arbitrary: m)
  case 0
  then show ?case by simp
next
  case (Suc n)
  let ?m = "m(d + of_nat n := m (s + of_nat n))"
  have n32: "n < 2 ^ 32" using Suc.prems by simp
  have nin: "\<not> in_block s n (d + of_nat n)"
  proof -
    have e: "d + of_nat n - s = (d - s) + of_nat n" by simp
    have "unat ((d - s) + of_nat n) = unat (d - s) + n"
      using Suc.prems by (intro unat_add_of_nat) simp
    then show ?thesis unfolding in_block_def e by simp
  qed
  have nin': "\<not> in_block d n (d + of_nat n)"
    using n32 by (simp add: in_block_def unat_of_nat)
  have "memcpy_back m (d + of_nat (Suc n)) (s + of_nat (Suc n)) (Suc n) = memcpy_back ?m (d + of_nat n) (s + of_nat n) n"
    by simp
  also have "\<dots> = wr_bytes ?m d (rd_bytes ?m s n)" using Suc.prems by (intro Suc.IH) simp_all
  also have "rd_bytes ?m s n = rd_bytes m s n"
    using nin n32 by (intro rd_bytes_cong) (auto simp: in_block_def)
  also have "wr_bytes ?m d (rd_bytes m s n) = (wr_bytes m d (rd_bytes m s n))(d + of_nat n := m (s + of_nat n))"
    using wr_bytes_commute [of "[m (s + of_nat n)]" "rd_bytes m s n" "d + of_nat n" d m] nin' n32
    by (simp add: in_block_def unat_eq_0)
  finally show ?case unfolding rd_bytes_snoc wr_bytes_snoc by (simp del: memcpy_back.simps)
qed

lemma memset_loop_block: "memset_loop m p c n = wr_bytes m p (replicate n c)"
  by (induction n arbitrary: m p) auto

lemma strcpy_loop_cstr:
  "cstr m p s \<Longrightarrow> disjoint_blocks d (Suc (length s)) p (Suc (length s)) \<Longrightarrow> length s < 2 ^ 32 \<Longrightarrow>
     strcpy_loop m d p = Some (wr_bytes m d (s @ [0]))"
proof (induction s arbitrary: m p d)
  case Nil
  then show ?case by (simp add: strcpy_loop.simps del: fun_upd_apply)
next
  case (Cons c s)
  note step = disjoint_blocks_step [OF Cons.prems(2)]
  have "cstr (m(d := c)) (p + 1) s" using Cons.prems(1,3) step(3) by (simp add: cstr_upd)
  from Cons.IH [OF this] step Cons.prems show ?case by (subst strcpy_loop.simps) (auto simp del: fun_upd_apply)
qed

lemma find_end_cstr: "cstr m p s \<Longrightarrow> find_end m p = Some (p + of_nat (length s))"
proof (induction s arbitrary: p)
  case Nil
  then show ?case by (simp add: find_end.simps)
next
  case (Cons c s)
  then show ?case by (subst find_end.simps) (simp add: add.assoc)
qed

lemma strcat_loop_cstr:
  "cstr m p s \<Longrightarrow> disjoint_blocks d (Suc (length s)) p (Suc (length s)) \<Longrightarrow> length s < 2 ^ 32 \<Longrightarrow>
     strcat_loop m d p = Some (wr_bytes m d (s @ [0]))"
proof (induction s arbitrary: m p d)
  case Nil
  then show ?case by (simp add: strcat_loop.simps del: fun_upd_apply)
next
  case (Cons c s)
  note step = disjoint_blocks_step [OF Cons.prems(2)]
  have "cstr (m(d := c)) (p + 1) s" using Cons.prems(1,3) step(3) by (simp add: cstr_upd)
  from Cons.IH [OF this] step Cons.prems show ?case by (subst strcat_loop.simps) (auto simp: Let_def simp del: fun_upd_apply)
qed

lemma strncat_loop_cstr:
  "cstr m p s \<Longrightarrow> disjoint_blocks d (Suc (length s)) p (Suc (length s)) \<Longrightarrow> length s < 2 ^ 32 \<Longrightarrow>
     strncat_loop m d p n = wr_bytes m d (take n (s @ [0]))"
proof (induction s arbitrary: m p d n)
  case Nil
  then show ?case by (cases n) (auto simp del: fun_upd_apply)
next
  case (Cons c s)
  note step = disjoint_blocks_step [OF Cons.prems(2)]
  have "cstr (m(d := c)) (p + 1) s" using Cons.prems(1,3) step(3) by (simp add: cstr_upd)
  from Cons.IH [OF this] step Cons.prems show ?case by (cases n) (auto simp del: fun_upd_apply)
qed

end
