(* ===== verification/CSearch.thy ===== *)
theory CSearch
  imports CStrings
begin

text \<open>
  Searching and splitting in the C library (\<^verbatim>\<open>libc/src/string\<close>), the character classes of
  \<^verbatim>\<open>libc/src/stdlib\<close> and the case conversions.  Characters are compared as signed
  \<open>char\<close>s promoted to \<open>int\<close>, as the code does.
\<close>

text \<open>The position of the first element with property \<open>P\<close>, the length when there is none.\<close>

definition first_pos :: "('a \<Rightarrow> bool) \<Rightarrow> 'a list \<Rightarrow> nat" where
  "first_pos P xs = length (takeWhile (\<lambda>x. \<not> P x) xs)"

lemma first_pos_simps [simp]:
  "first_pos P [] = 0" "first_pos P (x # xs) = (if P x then 0 else Suc (first_pos P xs))"
  by (simp_all add: first_pos_def)

lemma first_pos_le: "first_pos P xs \<le> length xs"
  by (simp add: first_pos_def length_takeWhile_le)

lemma first_pos_less_iff: "first_pos P xs < length xs \<longleftrightarrow> (\<exists>x \<in> set xs. P x)"
  by (induction xs) auto

lemma first_pos_nth: "first_pos P xs < length xs \<Longrightarrow> P (xs ! first_pos P xs)"
  by (induction xs) auto

lemma before_first_pos: "i < first_pos P xs \<Longrightarrow> \<not> P (xs ! i)"
proof (induction xs arbitrary: i)
  case Nil
  then show ?case by simp
next
  case (Cons x xs)
  then show ?case by (cases i) (auto split: if_splits)
qed

section \<open>Searching\<close>

partial_function (option) strchr :: "mem \<Rightarrow> u32 \<Rightarrow> int \<Rightarrow> u32 option" where
  "strchr m str ch =
     (if m str \<noteq> 0 then (if schar (m str) = ch then Some str else strchr m (str + 1) ch)
      else Some 0)"

partial_function (option) strrchr_loop :: "mem \<Rightarrow> u32 \<Rightarrow> int \<Rightarrow> u32 \<Rightarrow> u32 option" where
  "strrchr_loop m str ch pos =
     (if m str \<noteq> 0 then strrchr_loop m (str + 1) ch (if schar (m str) = ch then str else pos)
      else Some pos)"

definition strrchr :: "mem \<Rightarrow> u32 \<Rightarrow> int \<Rightarrow> u32 option" where
  "strrchr m str ch = strrchr_loop m str ch 0"

fun memchr_loop :: "mem \<Rightarrow> u32 \<Rightarrow> u8 \<Rightarrow> nat \<Rightarrow> u32" where
  "memchr_loop m p c 0 = 0"
| "memchr_loop m p c (Suc n) = (if m p = c then p else memchr_loop m (p + 1) c n)"

definition memchr :: "mem \<Rightarrow> u32 \<Rightarrow> u32 \<Rightarrow> u32 \<Rightarrow> u32" where
  "memchr m s c n = memchr_loop m s (ucast c) (unat n)"

text \<open>Is \<open>c\<close> one of the characters of the string at \<open>r\<close>?\<close>

partial_function (option) char_in :: "mem \<Rightarrow> u32 \<Rightarrow> u8 \<Rightarrow> bool option" where
  "char_in m r c = (if m r \<noteq> 0 then (if c = m r then Some True else char_in m (r + 1) c) else Some False)"

text \<open>\<open>_search\<close> of \<^verbatim>\<open>strspn.c\<close>, indexing \<open>str2[j]\<close>.\<close>

partial_function (option) search_loop :: "mem \<Rightarrow> u32 \<Rightarrow> u8 \<Rightarrow> u32 \<Rightarrow> bool option" where
  "search_loop m str2 ch j =
     (if m (str2 + j) \<noteq> 0 then (if m (str2 + j) = ch then Some True else search_loop m str2 ch (j + 1))
      else Some False)"

partial_function (option) strcspn_loop :: "mem \<Rightarrow> u32 \<Rightarrow> u32 \<Rightarrow> u32 option" where
  "strcspn_loop m p reject =
     (if m p \<noteq> 0 then
        (case char_in m reject (m p) of
           None \<Rightarrow> None
         | Some hit \<Rightarrow> if hit then Some p else strcspn_loop m (p + 1) reject)
      else Some p)"

definition strcspn :: "mem \<Rightarrow> u32 \<Rightarrow> u32 \<Rightarrow> u32 option" where
  "strcspn m s reject = map_option (\<lambda>p. p - s) (strcspn_loop m s reject)"

partial_function (option) strspn_loop :: "mem \<Rightarrow> u32 \<Rightarrow> u32 \<Rightarrow> u32 \<Rightarrow> u32 option" where
  "strspn_loop m str1 str2 i =
     (if m (str1 + i) \<noteq> 0 then
        (case search_loop m str2 (m (str1 + i)) 0 of
           None \<Rightarrow> None
         | Some hit \<Rightarrow> if hit then strspn_loop m str1 str2 (i + 1) else Some i)
      else Some i)"

definition strspn :: "mem \<Rightarrow> u32 \<Rightarrow> u32 \<Rightarrow> u32 option" where
  "strspn m str1 str2 = strspn_loop m str1 str2 0"

definition strpbrk :: "mem \<Rightarrow> u32 \<Rightarrow> u32 \<Rightarrow> u32 option" where
  "strpbrk m s b = map_option (\<lambda>n. if m (s + n) \<noteq> 0 then s + n else 0) (strcspn m s b)"

text \<open>\<open>_compare\<close> of \<^verbatim>\<open>strstr.c\<close>: equal up to the end of the shorter string.\<close>

partial_function (option) strstr_compare :: "mem \<Rightarrow> u32 \<Rightarrow> u32 \<Rightarrow> bool option" where
  "strstr_compare m str1 str2 =
     (if m str1 \<noteq> 0 \<and> m str2 \<noteq> 0 then
        (if m str1 \<noteq> m str2 then Some False else strstr_compare m (str1 + 1) (str2 + 1))
      else Some True)"

partial_function (option) strstr :: "mem \<Rightarrow> u32 \<Rightarrow> u32 \<Rightarrow> u32 option" where
  "strstr m str1 str2 =
     (if m str1 \<noteq> 0 then
        (case strstr_compare m str1 str2 of
           None \<Rightarrow> None
         | Some eq \<Rightarrow> if eq then Some str1 else strstr m (str1 + 1) str2)
      else Some 0)"

fun memmem_loop :: "mem \<Rightarrow> u32 \<Rightarrow> u32 \<Rightarrow> u32 \<Rightarrow> nat \<Rightarrow> u32" where
  "memmem_loop m h n needlelen 0 = 0"
| "memmem_loop m h n needlelen (Suc k) =
     (if memcmp m h n needlelen = 0 then h else memmem_loop m (h + 1) n needlelen k)"

definition memmem :: "mem \<Rightarrow> u32 \<Rightarrow> u32 \<Rightarrow> u32 \<Rightarrow> u32 \<Rightarrow> u32" where
  "memmem m haystack haystacklen needle needlelen =
     (if needlelen = 0 then haystack
      else if needlelen > haystacklen then 0
      else memmem_loop m haystack needle needlelen (unat haystacklen - unat needlelen + 1))"

section \<open>strtok\<close>

text \<open>
  The static pointer \<open>p\<close> of \<open>strtok\<close> is passed and returned.  The scan returns where it
  stopped and whether it met a delimiter there.
\<close>

partial_function (option) strtok_scan :: "mem \<Rightarrow> u32 \<Rightarrow> u32 \<Rightarrow> (bool \<times> u32) option" where
  "strtok_scan m delim p =
     (if m p \<noteq> 0 then
        (case char_in m delim (m p) of
           None \<Rightarrow> None
         | Some hit \<Rightarrow> if hit then Some (True, p) else strtok_scan m delim (p + 1))
      else Some (False, p))"

definition strtok :: "mem \<Rightarrow> u32 \<Rightarrow> u32 \<Rightarrow> u32 \<Rightarrow> (u32 \<times> mem \<times> u32) option" where
  "strtok m p0 str delim =
     (let p = (if str \<noteq> 0 then str else p0) in
      if p = 0 then Some (0, m, p)
      else (case strtok_scan m delim p of
              None \<Rightarrow> None
            | Some (True, q) \<Rightarrow> Some (p, m(q := 0), q + 1)
            | Some (False, q) \<Rightarrow> Some (if p = q then 0 else p, m, q)))"

section \<open>Character classes and case\<close>

definition isalpha :: "u8 \<Rightarrow> u8" where
  "isalpha c = (if (0x41 \<le> schar c \<and> schar c \<le> 0x5A) \<or> (0x61 \<le> schar c \<and> schar c \<le> 0x7A) then 1 else 0)"

text \<open>The upper bound is the decimal number 39.\<close>

definition isdigit :: "u8 \<Rightarrow> u8" where
  "isdigit c = (if 0x30 \<le> schar c \<and> schar c \<le> 39 then 1 else 0)"

definition islower :: "u8 \<Rightarrow> u8" where
  "islower c = (if 0x61 \<le> schar c \<and> schar c \<le> 0x7A then 1 else 0)"

definition isspace :: "u8 \<Rightarrow> u8" where
  "isspace c = (if c = 0x20 then 1 else 0)"

definition isupper :: "u8 \<Rightarrow> u8" where
  "isupper c = (if 0x41 \<le> schar c \<and> schar c \<le> 0x5A then 1 else 0)"

definition tolower :: "int \<Rightarrow> int" where
  "tolower c = (if 65 \<le> c \<and> c \<le> 90 then c + 32 else c)"

definition toupper :: "int \<Rightarrow> int" where
  "toupper c = (if 97 \<le> c \<and> c \<le> 122 then c - 32 else c)"

partial_function (option) tolower_str :: "mem \<Rightarrow> u32 \<Rightarrow> mem option" where
  "tolower_str m str =
     (if m str \<noteq> 0 then
        tolower_str (if 65 \<le> schar (m str) \<and> schar (m str) \<le> 90 then m(str := m str + 32) else m) (str + 1)
      else Some m)"

partial_function (option) toupper_str :: "mem \<Rightarrow> u32 \<Rightarrow> mem option" where
  "toupper_str m str =
     (if m str \<noteq> 0 then
        toupper_str (if 97 \<le> schar (m str) \<and> schar (m str) \<le> 122 then m(str := m str - 32) else m) (str + 1)
      else Some m)"

section \<open>What the searches find\<close>

lemma strchr_cstr:
  "cstr m p s \<Longrightarrow> strchr m p ch =
     Some (if \<exists>c \<in> set s. schar c = ch then p + of_nat (first_pos (\<lambda>c. schar c = ch) s) else 0)"
proof (induction s arbitrary: p)
  case Nil
  then show ?case by (simp add: strchr.simps)
next
  case (Cons c s)
  then show ?case by (subst strchr.simps) (auto simp: add.assoc)
qed

lemma strrchr_loop_cstr:
  "cstr m p s \<Longrightarrow> strrchr_loop m p ch pos =
     Some (if \<exists>c \<in> set s. schar c = ch then p + of_nat (length s - 1 - first_pos (\<lambda>c. schar c = ch) (rev s)) else pos)"
proof (induction s arbitrary: p pos)
  case Nil
  then show ?case by (simp add: strrchr_loop.simps)
next
  case (Cons c s)
  have app: "first_pos P (xs @ ys) = (if \<exists>x \<in> set xs. P x then first_pos P xs else length xs + first_pos P ys)"
    for P :: "u8 \<Rightarrow> bool" and xs ys by (induction xs) auto
  have "strrchr_loop m p ch pos = strrchr_loop m (p + 1) ch (if schar c = ch then p else pos)"
    using Cons.prems by (subst strrchr_loop.simps) auto
  also have "\<dots> = Some (if \<exists>c \<in> set s. schar c = ch
      then (p + 1) + of_nat (length s - 1 - first_pos (\<lambda>c. schar c = ch) (rev s))
      else if schar c = ch then p else pos)"
    using Cons by simp
  also have "\<dots> = Some (if \<exists>x \<in> set (c # s). schar x = ch
      then p + of_nat (length (c # s) - 1 - first_pos (\<lambda>c. schar c = ch) (rev (c # s))) else pos)"
  proof (cases "\<exists>c \<in> set s. schar c = ch")
    case True
    then have "first_pos (\<lambda>c. schar c = ch) (rev s) < length s"
      using first_pos_less_iff [of "\<lambda>c. schar c = ch" "rev s"] by simp
    then have "length s - first_pos (\<lambda>c. schar c = ch) (rev s)
        = Suc (length s - 1 - first_pos (\<lambda>c. schar c = ch) (rev s))" by simp
    with True show ?thesis by (simp add: app)
  next
    case False
    then show ?thesis by (auto simp: app)
  qed
  finally show ?case .
qed

lemma memchr_loop_block:
  "memchr_loop m p c n = (if c \<in> set (rd_bytes m p n) then p + of_nat (first_pos ((=) c) (rd_bytes m p n)) else 0)"
  by (induction n arbitrary: p) (auto simp: add.assoc)

lemma char_in_cstr: "cstr m r s \<Longrightarrow> char_in m r c = Some (c \<in> set s)"
proof (induction s arbitrary: r)
  case Nil
  then show ?case by (simp add: char_in.simps)
next
  case (Cons b s)
  then show ?case by (subst char_in.simps) auto
qed

lemma search_loop_cstr: "cstr m (str2 + j) s \<Longrightarrow> search_loop m str2 c j = Some (c \<in> set s)"
proof (induction s arbitrary: j)
  case Nil
  then show ?case by (simp add: search_loop.simps)
next
  case (Cons b s)
  then have "cstr m (str2 + (j + 1)) s" by (simp add: add.assoc)
  with Cons show ?case by (subst search_loop.simps) auto
qed

lemma strcspn_loop_cstr:
  "cstr m p s \<Longrightarrow> cstr m r t \<Longrightarrow> strcspn_loop m p r = Some (p + of_nat (first_pos (\<lambda>c. c \<in> set t) s))"
proof (induction s arbitrary: p)
  case Nil
  then show ?case by (simp add: strcspn_loop.simps)
next
  case (Cons c s)
  then show ?case by (subst strcspn_loop.simps) (auto simp: char_in_cstr add.assoc)
qed

lemma strcspn_cstr:
  "cstr m p s \<Longrightarrow> cstr m r t \<Longrightarrow> strcspn m p r = Some (of_nat (first_pos (\<lambda>c. c \<in> set t) s))"
  by (simp add: strcspn_def strcspn_loop_cstr)

lemma strspn_loop_cstr:
  "cstr m (p + i) s \<Longrightarrow> cstr m r t \<Longrightarrow>
     strspn_loop m p r i = Some (i + of_nat (first_pos (\<lambda>c. c \<notin> set t) s))"
proof (induction s arbitrary: i)
  case Nil
  then show ?case by (simp add: strspn_loop.simps)
next
  case (Cons c s)
  then have "cstr m (p + (i + 1)) s" by (simp add: add.assoc)
  moreover have "search_loop m r c 0 = Some (c \<in> set t)" using Cons.prems(2) by (simp add: search_loop_cstr)
  ultimately show ?case using Cons by (subst strspn_loop.simps) (auto simp: add.assoc)
qed

lemma strspn_cstr:
  "cstr m p s \<Longrightarrow> cstr m r t \<Longrightarrow> strspn m p r = Some (of_nat (first_pos (\<lambda>c. c \<notin> set t) s))"
  using strspn_loop_cstr [of m p 0 s r t] by (simp add: strspn_def)

lemma strstr_compare_cstr:
  "cstr m p s \<Longrightarrow> cstr m q t \<Longrightarrow>
     strstr_compare m p q = Some (take (min (length s) (length t)) s = take (min (length s) (length t)) t)"
proof (induction s arbitrary: p q t)
  case Nil
  then show ?case by (simp add: strstr_compare.simps)
next
  case (Cons c s)
  show ?case
  proof (cases t)
    case Nil
    with Cons.prems show ?thesis by (simp add: strstr_compare.simps)
  next
    case (Cons b bs)
    with Cons.prems Cons.IH [of "p + 1" "q + 1" bs] show ?thesis
      by (subst strstr_compare.simps) auto
  qed
qed

lemma strtok_scan_cstr:
  "cstr m p s \<Longrightarrow> cstr m r t \<Longrightarrow>
     strtok_scan m r p = Some (first_pos (\<lambda>c. c \<in> set t) s < length s, p + of_nat (first_pos (\<lambda>c. c \<in> set t) s))"
proof (induction s arbitrary: p)
  case Nil
  then show ?case by (simp add: strtok_scan.simps)
next
  case (Cons c s)
  then show ?case by (subst strtok_scan.simps) (auto simp: char_in_cstr add.assoc)
qed

section \<open>Properties\<close>

text \<open>
  \<open>isdigit\<close> rejects every character, the ten digits included: its upper bound is
  the decimal 39 where the code of the digit 9 is hexadecimal 39.
\<close>

theorem isdigit_never: "isdigit c = 0"
  by (simp add: isdigit_def)

text \<open>
  On a string that continues the scan, \<open>strtok\<close> returns the start of the scan, cuts
  the string at the first delimiter and leaves the static pointer right behind it; with no
  delimiter left it returns the rest, and the null pointer once the rest is empty.
\<close>

theorem strtok_token:
  assumes s: "cstr m p s" and t: "cstr m r t" and p: "p \<noteq> 0" and len: "length s < 2 ^ 32"
  shows "if \<exists>c \<in> set s. c \<in> set t then
      (\<exists>m'. strtok m p 0 r = Some (p, m', p + of_nat (Suc (first_pos (\<lambda>c. c \<in> set t) s))) \<and>
        cstr m' p (take (first_pos (\<lambda>c. c \<in> set t) s) s) \<and>
        cstr m' (p + of_nat (Suc (first_pos (\<lambda>c. c \<in> set t) s))) (drop (Suc (first_pos (\<lambda>c. c \<in> set t) s)) s))
    else strtok m p 0 r = Some (if s = [] then 0 else p, m, p + of_nat (length s))"
proof (cases "\<exists>c \<in> set s. c \<in> set t")
  case True
  let ?n = "first_pos (\<lambda>c. c \<in> set t) s"
  have n: "?n < length s" using True by (simp add: first_pos_less_iff)
  let ?m' = "m(p + of_nat ?n := 0)"
  have split: "s = take ?n s @ s ! ?n # drop (Suc ?n) s" using n by (rule id_take_nth_drop)
  have c1: "0 \<notin> set (take ?n s)" "rd_bytes m p ?n = take ?n s"
    "cstr m (p + of_nat ?n) (s ! ?n # drop (Suc ?n) s)"
    using s split cstr_append [of m p "take ?n s" "s ! ?n # drop (Suc ?n) s"] n by simp_all
  have n32: "?n < 2 ^ 32" using n len by simp
  have out: "\<not> in_block p ?n (p + of_nat ?n)" using n32 by (simp add: in_block_def unat_of_nat)
  have "rd_bytes ?m' p ?n = rd_bytes m p ?n"
    using out n32 by (intro rd_bytes_cong) (auto simp: in_block_def)
  then have "cstr ?m' p (take ?n s)"
    using cstr_append [of ?m' p "take ?n s" "[]"] c1 n by simp
  moreover have "cstr ?m' (p + of_nat (Suc ?n)) (drop (Suc ?n) s)"
  proof -
    have q: "p + of_nat (Suc ?n) = (p + of_nat ?n) + 1" by simp
    have "\<not> in_block ((p + of_nat ?n) + 1) (Suc (length (drop (Suc ?n) s))) (p + of_nat ?n)"
      using len by (intro not_in_next_block) simp
    with c1(3) len show ?thesis unfolding q by (simp add: cstr_upd)
  qed
  moreover have "strtok m p 0 r = Some (p, ?m', p + of_nat (Suc ?n))"
    using strtok_scan_cstr [OF s t] n p by (simp add: strtok_def)
  ultimately show ?thesis using True by (simp del: of_nat_Suc)
next
  case False
  then have n: "first_pos (\<lambda>c. c \<in> set t) s = length s"
    using first_pos_less_iff [of "\<lambda>c. c \<in> set t" s] first_pos_le [of "\<lambda>c. c \<in> set t" s] by auto
  have "s \<noteq> [] \<Longrightarrow> p \<noteq> p + of_nat (length s)"
  proof
    assume ne: "s \<noteq> []" and "p = p + of_nat (length s)"
    then have "of_nat (length s) = (0 :: u32)" by simp
    then have "unat (of_nat (length s) :: u32) = 0" by simp
    with ne len show False by (simp add: unat_of_nat)
  qed
  with False show ?thesis
    using strtok_scan_cstr [OF s t] n p by (simp add: strtok_def)
qed

theorem strtok_token_witness:
  "\<exists>m'. strtok (wr_bytes (\<lambda>_. 0) 16 [97, 44, 98, 0, 44, 0]) 16 0 20 = Some (16, m', 18) \<and>
     cstr m' 16 [97] \<and> cstr m' 18 [98]"
proof -
  let ?m = "wr_bytes (\<lambda>_. 0) 16 [97, 44, 98, 0, 44, 0]"
  have "cstr ?m 16 [97, 44, 98]" "cstr ?m 20 [44]" by simp_all
  from strtok_token [OF this] show ?thesis by simp
qed

end
