(* ===== verification/NumConv.thy ===== *)
theory NumConv
  imports CSearch
begin

text \<open>
  Numbers and text in the C library: \<^verbatim>\<open>utoa.c\<close>, \<^verbatim>\<open>itoa.c\<close>, \<^verbatim>\<open>strtol.c\<close>,
  \<^verbatim>\<open>strtoul.c\<close>, \<^verbatim>\<open>strntoumax.c\<close> of \<^verbatim>\<open>libc/src/stdlib\<close>, and the conversions of
  \<^verbatim>\<open>libc/src/stdio/printf.c\<close>, which divide by shifting or by counting subtractions.
\<close>

section \<open>Buffers seen as lists\<close>

text \<open>A block that has been written, updated and read at one position.\<close>

lemma wr_bytes_update:
  assumes "j < length bs" "length bs \<le> 2 ^ 32"
  shows "(wr_bytes m a bs)(a + of_nat j := c) = wr_bytes m a (bs[j := c])"
proof
  fix x
  show "((wr_bytes m a bs)(a + of_nat j := c)) x = wr_bytes m a (bs[j := c]) x"
  proof (cases "x = a + of_nat j")
    case True
    with wr_bytes_nth [of j "bs[j := c]" m a] assms show ?thesis by simp
  next
    case False
    then have "unat (x - a) \<noteq> j" by auto
    with False assms show ?thesis by (simp add: wr_bytes_apply)
  qed
qed

section \<open>Unsigned to text\<close>

definition digit_char :: "nat \<Rightarrow> u8" where
  "digit_char d = bytes_of ''0123456789abcdefghijklmnopqrstuvwxyz'' ! d"

text \<open>The \<open>do ... while\<close> loop of \<open>__utoa\<close>; \<open>None\<close>: it never ends (base 1).\<close>

partial_function (option) utoa_loop :: "mem \<Rightarrow> u32 \<Rightarrow> u32 \<Rightarrow> u32 \<Rightarrow> u32 \<Rightarrow> (mem \<times> u32) option" where
  "utoa_loop m str i value base =
     (let remainder = value mod base;
          m' = m(str + i := digit_char (unat remainder));
          value' = value div base
      in if value' \<noteq> 0 then utoa_loop m' str (i + 1) value' base else Some (m', i + 1))"

text \<open>\<open>for (j = 0, i--; j < i; j++, i--)\<close> exchanges the two ends.\<close>

function utoa_reverse :: "mem \<Rightarrow> u32 \<Rightarrow> nat \<Rightarrow> nat \<Rightarrow> mem" where
  "utoa_reverse m str j i =
     (if j < i then
        (let c = m (str + of_nat j);
             m1 = m(str + of_nat j := m (str + of_nat i));
             m2 = m1(str + of_nat i := c)
         in utoa_reverse m2 str (Suc j) (i - 1))
      else m)"
  by pat_completeness auto
termination by (relation "measure (\<lambda>(m, str, j, i). i)") auto

declare utoa_reverse.simps [simp del]

definition utoa :: "mem \<Rightarrow> u32 \<Rightarrow> u32 \<Rightarrow> int \<Rightarrow> (u32 \<times> mem) option" where
  "utoa m value str base =
     (if base < 2 \<or> base > 36 then Some (0, m(str := 0))
      else (case utoa_loop m str 0 value (of_int base) of
              None \<Rightarrow> None
            | Some (m', i) \<Rightarrow> Some (str, utoa_reverse (m'(str + i := 0)) str 0 (unat i - 1))))"

text \<open>
  \<open>__itoa\<close> stores the minus sign at \<open>str[0]\<close> and then lets \<open>__utoa\<close> write from \<open>str\<close> on.
\<close>

definition itoa :: "mem \<Rightarrow> u32 \<Rightarrow> u32 \<Rightarrow> int \<Rightarrow> (u32 \<times> mem) option" where
  "itoa m value str base =
     (if base < 2 \<or> base > 36 then Some (0, m(str := 0))
      else
        let (m1, uvalue) = (if base = 10 \<and> sint value < 0 then (m(str := 45), - value) else (m, value))
        in (case utoa m1 uvalue str base of None \<Rightarrow> None | Some (_, m2) \<Rightarrow> Some (str, m2)))"

text \<open>The digits of a number in base \<open>b\<close>, least significant first.\<close>

fun digits_lsd :: "nat \<Rightarrow> nat \<Rightarrow> nat list" where
  "digits_lsd b n = (if b < 2 \<or> n < b then [n] else (n mod b) # digits_lsd b (n div b))"

declare digits_lsd.simps [simp del]

definition digit_text :: "nat \<Rightarrow> nat \<Rightarrow> u8 list" where
  "digit_text b n = map digit_char (rev (digits_lsd b n))"

text \<open>The value of a list of digits, most significant first.\<close>

fun digits_value :: "nat \<Rightarrow> nat list \<Rightarrow> nat" where
  "digits_value b [] = 0"
| "digits_value b (d # ds) = d * b ^ length ds + digits_value b ds"

lemma digits_value_snoc: "digits_value b (ds @ [d]) = b * digits_value b ds + d"
  by (induction ds) (auto simp: algebra_simps)

lemma digits_lsd_ne: "digits_lsd b n \<noteq> []"
  by (subst digits_lsd.simps) simp

lemma digits_value_lsd: "2 \<le> b \<Longrightarrow> digits_value b (rev (digits_lsd b n)) = n"
proof (induction b n rule: digits_lsd.induct)
  case (1 b n)
  show ?case
  proof (cases "n < b")
    case True
    then show ?thesis by (subst digits_lsd.simps) simp
  next
    case False
    with 1 have "digits_value b (rev (digits_lsd b (n div b))) = n div b" by simp
    with False "1.prems" show ?thesis
      by (subst digits_lsd.simps) (simp add: digits_value_snoc)
  qed
qed

lemma digits_lsd_less: "2 \<le> b \<Longrightarrow> d \<in> set (digits_lsd b n) \<Longrightarrow> d < b"
proof (induction b n rule: digits_lsd.induct)
  case (1 b n)
  then show ?case
    by (cases "n < b") (subst (asm) (2) digits_lsd.simps; auto)+
qed

lemma length_digits_lsd: "2 \<le> b \<Longrightarrow> n < 2 ^ k \<Longrightarrow> 0 < k \<Longrightarrow> length (digits_lsd b n) \<le> k"
proof (induction b n arbitrary: k rule: digits_lsd.induct)
  case (1 b n)
  show ?case
  proof (cases "n < b")
    case True
    with "1.prems" show ?thesis by (subst digits_lsd.simps) simp
  next
    case False
    have h: "n div b < 2 ^ (k - 1)"
    proof -
      have "n div b \<le> n div 2" using "1.prems"(1) by (simp add: div_le_mono2)
      also have "n div 2 < 2 ^ (k - 1)"
        using "1.prems"(2,3) by (cases k) auto
      finally show ?thesis .
    qed
    have "k \<noteq> 1"
      using False "1.prems" by auto
    with "1.prems"(3) have "0 < k - 1" by simp
    with "1.IH" [of "k - 1"] h False "1.prems" show ?thesis
      by (subst digits_lsd.simps) auto
  qed
qed

lemma utoa_loop_digits:
  assumes "2 \<le> base" "base < 2 ^ 32" "length bs + length (digits_lsd base (unat v)) < 2 ^ 32"
  shows "utoa_loop (wr_bytes m str bs) str (of_nat (length bs)) v (of_nat base) =
    Some (wr_bytes m str (bs @ map digit_char (digits_lsd base (unat v))),
          of_nat (length bs + length (digits_lsd base (unat v))))"
  using assms(3)
proof (induction "unat v" arbitrary: v bs rule: less_induct)
  case less
  have ub: "unat (of_nat base :: u32) = base" using assms(2) by (simp add: unat_of_nat)
  have md: "unat (v mod of_nat base) = unat v mod base" by (simp add: unat_mod ub)
  have dv: "unat (v div of_nat base) = unat v div base" by (simp add: unat_div ub)
  have store: "(wr_bytes m str bs)(str + of_nat (length bs) := c) = wr_bytes m str (bs @ [c])" for c
    by (simp add: wr_bytes_snoc)
  show ?case
  proof (cases "unat v < base")
    case True
    then have "v div of_nat base = 0" using dv by (simp add: unat_eq_0)
    moreover have "digits_lsd base (unat v) = [unat v]" using True by (subst digits_lsd.simps) simp
    ultimately show ?thesis
      using True md by (subst utoa_loop.simps) (simp add: Let_def store)
  next
    case False
    then have nz: "v div of_nat base \<noteq> 0"
    proof -
      have "0 < unat v div base" using False assms(1) by (simp add: div_greater_zero_iff)
      with dv have "unat (v div of_nat base) \<noteq> 0" by simp
      then show ?thesis by (metis unat_0)
    qed
    have d: "digits_lsd base (unat v) = (unat v mod base) # digits_lsd base (unat v div base)"
      using False assms(1) by (subst digits_lsd.simps) simp
    have "unat (v div of_nat base) < unat v"
      using dv False assms(1) by simp
    moreover have "length (bs @ [digit_char (unat v mod base)]) + length (digits_lsd base (unat (v div of_nat base))) < 2 ^ 32"
      using less.prems d dv by simp
    ultimately have "utoa_loop (wr_bytes m str (bs @ [digit_char (unat v mod base)])) str
        (of_nat (length (bs @ [digit_char (unat v mod base)]))) (v div of_nat base) (of_nat base) =
      Some (wr_bytes m str ((bs @ [digit_char (unat v mod base)]) @ map digit_char (digits_lsd base (unat (v div of_nat base)))),
          of_nat (length (bs @ [digit_char (unat v mod base)]) + length (digits_lsd base (unat (v div of_nat base)))))"
      by (rule less.hyps)
    with nz d dv md show ?thesis
      by (subst utoa_loop.simps) (simp add: Let_def store add.commute)
  qed
qed

text \<open>The exchange loop reverses what lies between its two indices.\<close>

lemma list_update_middle: "(xs @ a # ys)[length xs := c] = xs @ c # ys"
  by (simp add: list_update_append)

lemma utoa_reverse_rev:
  assumes "length pre + length mid + length post \<le> 2 ^ 32"
  shows "utoa_reverse (wr_bytes m str (pre @ mid @ post)) str (length pre) (length pre + length mid - 1) =
    wr_bytes m str (pre @ rev mid @ post)"
  using assms
proof (induction "length mid" arbitrary: pre mid post rule: less_induct)
  case less
  show ?case
  proof (cases "length mid \<le> 1")
    case True
    then have "rev mid = mid" by (cases mid) auto
    moreover have "\<not> length pre < length pre + length mid - 1" using True by simp
    ultimately show ?thesis by (subst utoa_reverse.simps) simp
  next
    case False
    then obtain a zs where mid1: "mid = a # zs" "zs \<noteq> []" by (cases mid) auto
    then obtain ys b where "zs = ys @ [b]" by (cases zs rule: rev_exhaust) auto
    with mid1 have mid: "mid = a # ys @ [b]" by simp
    let ?bs = "pre @ mid @ post" and ?j = "length pre" and ?i = "length pre + length mid - 1"
    have len: "length ?bs \<le> 2 ^ 32" using less.prems by simp
    have ji: "?j < ?i" "?i < length ?bs" using mid by simp_all
    have rj: "wr_bytes m str ?bs (str + of_nat ?j) = a"
      using wr_bytes_nth [of ?j ?bs m str] len mid by simp
    have ri: "wr_bytes m str ?bs (str + of_nat ?i) = b"
      using wr_bytes_nth [of ?i ?bs m str] len mid by (simp add: nth_append)
    have up: "(wr_bytes m str ?bs)(str + of_nat ?j := b, str + of_nat ?i := a)
        = wr_bytes m str (pre @ (b # ys @ [a]) @ post)"
    proof -
      have "(wr_bytes m str ?bs)(str + of_nat ?j := b) = wr_bytes m str (?bs[?j := b])"
        using len ji by (intro wr_bytes_update) auto
      moreover have "(wr_bytes m str (?bs[?j := b]))(str + of_nat ?i := a) = wr_bytes m str (?bs[?j := b, ?i := a])"
        using len ji by (intro wr_bytes_update) auto
      moreover have "?bs[?j := b, ?i := a] = pre @ (b # ys @ [a]) @ post"
        by (simp add: mid list_update_append)
      ultimately show ?thesis by simp
    qed
    have "utoa_reverse (wr_bytes m str ((pre @ [b]) @ ys @ ([a] @ post))) str (length (pre @ [b]))
        (length (pre @ [b]) + length ys - 1) = wr_bytes m str ((pre @ [b]) @ rev ys @ ([a] @ post))"
      using less.prems mid by (intro less.hyps) simp_all
    moreover have "length (pre @ [b]) + length ys - 1 = ?i - 1" using mid by simp
    ultimately show ?thesis
      using ji(1) rj ri up mid by (subst utoa_reverse.simps) (simp add: Let_def del: fun_upd_apply)
  qed
qed

lemma utoa_text:
  assumes "2 \<le> base" "base \<le> 36"
  shows "utoa m v str base =
    Some (str, wr_bytes m str (digit_text (nat base) (unat v) @ [0]))"
proof -
  let ?b = "nat base" and ?ds = "map digit_char (digits_lsd (nat base) (unat v))"
  have b: "2 \<le> ?b" "?b < 2 ^ 32" "of_int base = (of_nat ?b :: u32)" using assms by simp_all
  have l: "length (digits_lsd ?b (unat v)) \<le> 32"
    using b(1) unat_less_32 [of v] by (intro length_digits_lsd) simp_all
  let ?n = "length (digits_lsd ?b (unat v))"
  have lp: "utoa_loop m str 0 v (of_int base) = Some (wr_bytes m str ?ds, of_nat ?n)"
    using utoa_loop_digits [OF b(1,2), of "[]" v m str] l b(3) by simp
  have un: "unat (of_nat ?n :: u32) = ?n" using l by (simp add: unat_of_nat)
  have z: "(wr_bytes m str ?ds)(str + of_nat ?n := 0) = wr_bytes m str (?ds @ [0])"
    by (simp add: wr_bytes_snoc)
  have "utoa_reverse (wr_bytes m str ([] @ ?ds @ [0])) str (length []) (length [] + length ?ds - 1)
      = wr_bytes m str ([] @ rev ?ds @ [0])"
    using l utoa_reverse_rev [of "[]" ?ds "[0]" m str] by simp
  then show ?thesis
    using lp un z assms by (simp add: utoa_def digit_text_def rev_map del: fun_upd_apply)
qed


section \<open>Text to signed\<close>

text \<open>\<open>strtol\<close> looks at neither \<open>endptr\<close> nor \<open>base\<close>; a \<open>long\<close> is 32 bits and wraps.\<close>

partial_function (option) strtol_loop :: "mem \<Rightarrow> u32 \<Rightarrow> u32 \<Rightarrow> u32 option" where
  "strtol_loop m str resultado =
     (if 48 \<le> schar (m str) \<and> schar (m str) \<le> 57
      then strtol_loop m (str + 1) (resultado * 10 + of_int (schar (m str) - 48))
      else Some resultado)"

definition strtol :: "mem \<Rightarrow> u32 \<Rightarrow> u32 \<Rightarrow> int \<Rightarrow> u32 option" where
  "strtol m str endptr base = strtol_loop m str 0"

definition atoi :: "mem \<Rightarrow> u32 \<Rightarrow> u32 option" where
  "atoi m s = strtol m s 0 10"

definition atol :: "mem \<Rightarrow> u32 \<Rightarrow> u32 option" where
  "atol m s = strtol m s 0 10"

section \<open>Text to unsigned\<close>

text \<open>\<open>do c = *s++ while\<close> white space; the result is the character and the pointer behind it.\<close>

partial_function (option) strtoul_skip :: "mem \<Rightarrow> u32 \<Rightarrow> (int \<times> u32) option" where
  "strtoul_skip m s =
     (let c = schar (m s)
      in if c = 32 \<or> c = 9 \<or> c = 10 \<or> c = 13 \<or> c = 11 \<or> c = 12 then strtoul_skip m (s + 1) else Some (c, s + 1))"

definition strtoul_digit :: "int \<Rightarrow> int option" where
  "strtoul_digit c =
     (if 48 \<le> c \<and> c \<le> 57 then Some (c - 48)
      else if 97 \<le> c \<and> c \<le> 122 then Some (c - 97 + 10)
      else if 65 \<le> c \<and> c \<le> 90 then Some (c - 65 + 10)
      else None)"

partial_function (option) strtoul_loop ::
  "mem \<Rightarrow> int \<Rightarrow> u32 \<Rightarrow> int \<Rightarrow> int \<Rightarrow> u32 \<Rightarrow> int \<Rightarrow> u32 \<Rightarrow> (u32 \<times> int \<times> u32) option" where
  "strtoul_loop m base cutoff cutlim any acc c s =
     (case strtoul_digit c of
        None \<Rightarrow> Some (acc, any, s)
      | Some d \<Rightarrow>
          if d \<ge> base then Some (acc, any, s)
          else if any < 0 then strtoul_loop m base cutoff cutlim any acc (schar (m s)) (s + 1)
          else if acc > cutoff \<or> acc = cutoff \<and> d > cutlim
            then strtoul_loop m base cutoff cutlim (- 1) (- 1) (schar (m s)) (s + 1)
            else strtoul_loop m base cutoff cutlim 1 (acc * of_int base + of_int d) (schar (m s)) (s + 1))"

definition strtoul :: "mem \<Rightarrow> u32 \<Rightarrow> u32 \<Rightarrow> int \<Rightarrow> (u32 \<times> mem) option" where
  "strtoul m nptr endptr base =
     Option.bind (strtoul_skip m nptr) (\<lambda>(c0, s0).
       let neg = (c0 = 45);
           (c1, s1) = (if c0 = 45 \<or> c0 = 43 then (schar (m s0), s0 + 1) else (c0, s0));
           hex = (base = 0 \<or> base = 16) \<and> c1 = 48 \<and> (m s1 = 120 \<or> m s1 = 88);
           (c2, s2, base2) = (if hex then (schar (m (s1 + 1)), s1 + 2, 16) else (c1, s1, base));
           base3 = (if base2 = 0 then (if c2 = 48 then 8 else 10) else base2);
           cutoff = (- 1 :: u32) div of_int base3;
           cutlim = sint ((- 1 :: u32) mod of_int base3)
       in map_option (\<lambda>(acc, any, s).
            (if neg \<and> any > 0 then - acc else acc,
             if endptr \<noteq> 0 then wr32 m endptr (if any \<noteq> 0 then s - 1 else nptr) else m))
          (strtoul_loop m base3 cutoff cutlim 0 0 c2 s2))"

section \<open>Text to unsigned, at most \<open>n\<close> characters\<close>

definition digitval :: "u8 \<Rightarrow> int" where
  "digitval ch =
     (let d = ucast ch - 48 :: u32 in
      if d < 10 then int (unat d)
      else let d = ucast ch - 97 :: u32 in
        if d < 6 then int (unat d) + 10
        else let d = ucast ch - 65 :: u32 in if d < 6 then int (unat d) + 10 else - 1)"

partial_function (option) strntoumax_skip :: "mem \<Rightarrow> u32 \<Rightarrow> u32 \<Rightarrow> u32 option" where
  "strntoumax_skip m p end = (if p < end \<and> isspace (m p) \<noteq> 0 then strntoumax_skip m (p + 1) end else Some p)"

partial_function (option) strntoumax_loop :: "mem \<Rightarrow> u32 \<Rightarrow> int \<Rightarrow> u32 \<Rightarrow> u64 \<Rightarrow> (u32 \<times> u64) option" where
  "strntoumax_loop m end base p v =
     (if p < end \<and> digitval (m p) \<ge> 0 \<and> digitval (m p) < base
      then strntoumax_loop m end base (p + 1) (v * of_int base + of_int (digitval (m p)))
      else Some (p, v))"

definition strntoumax :: "mem \<Rightarrow> u32 \<Rightarrow> u32 \<Rightarrow> int \<Rightarrow> u32 \<Rightarrow> (u64 \<times> mem) option" where
  "strntoumax m nptr endptr base n =
     (let end = nptr + n in
      Option.bind (strntoumax_skip m nptr end) (\<lambda>p0.
        let minus = p0 < end \<and> m p0 = 45;
            p1 = (if p0 < end \<and> (m p0 = 45 \<or> m p0 = 43) then p0 + 1 else p0);
            hex = p1 + 2 < end \<and> m p1 = 48 \<and> (m (p1 + 1) = 120 \<or> m (p1 + 1) = 88);
            (p2, base2) =
              (if base = 0 then
                 (if hex then (p1 + 2, 16)
                  else if p1 + 1 < end \<and> m p1 = 48 then (p1 + 1, 8)
                  else (p1, 10))
               else if base = 16 \<and> hex then (p1 + 2, 16)
               else (p1, base))
        in map_option (\<lambda>(p, v). (if minus then - v else v, if endptr \<noteq> 0 then wr32 m endptr p else m))
             (strntoumax_loop m end base2 p2 0)))"

definition strtoll :: "mem \<Rightarrow> u32 \<Rightarrow> u32 \<Rightarrow> int \<Rightarrow> (u64 \<times> mem) option" where
  "strtoll m nptr endptr base = strntoumax m nptr endptr base (NOT 0)"

definition strtoull :: "mem \<Rightarrow> u32 \<Rightarrow> u32 \<Rightarrow> int \<Rightarrow> (u64 \<times> mem) option" where
  "strtoull m nptr endptr base = strntoumax m nptr endptr base (NOT 0)"

definition atoll :: "mem \<Rightarrow> u32 \<Rightarrow> (u64 \<times> mem) option" where
  "atoll m str = strtoll m str 0 10"

section \<open>Digits in memory\<close>

lemma digit_table: "\<forall>d \<in> set [0..<36]. digit_char d \<noteq> 0 \<and> strtoul_digit (schar (digit_char d)) = Some (int d)"
  by code_simp

lemma digit_char_nonzero [simp]: "d < 36 \<Longrightarrow> digit_char d \<noteq> 0"
  using digit_table by simp

lemma strtoul_digit_char: "d < 36 \<Longrightarrow> strtoul_digit (schar (digit_char d)) = Some (int d)"
  using digit_table by simp

lemma decimal_table: "\<forall>d \<in> set [0..<10]. schar (digit_char d) = 48 + int d"
  by code_simp

lemma decimal_digit: "d < 10 \<Longrightarrow> schar (digit_char d) = 48 + int d"
  using decimal_table by simp

text \<open>The accumulator after more digits.\<close>

definition horner :: "nat \<Rightarrow> nat \<Rightarrow> nat list \<Rightarrow> nat" where
  "horner b v ds = foldl (\<lambda>a d. a * b + d) v ds"

lemma horner_simps [simp]: "horner b v [] = v" "horner b v (d # ds) = horner b (v * b + d) ds"
  by (simp_all add: horner_def)

lemma horner_eq: "horner b v ds = v * b ^ length ds + digits_value b ds"
  by (induction ds arbitrary: v) (simp_all add: algebra_simps)

lemma horner_mono: "1 \<le> b \<Longrightarrow> v \<le> horner b v ds"
proof (induction ds arbitrary: v)
  case (Cons d ds)
  have "v \<le> v * b + d" using Cons.prems by (metis le_add1 le_trans mult.right_neutral mult_le_mono2)
  with Cons.IH [OF Cons.prems, of "v * b + d"] show ?case by simp
qed simp

lemma strtol_loop_digits:
  assumes "cstr m p (map digit_char ds @ rest)" "\<And>d. d \<in> set ds \<Longrightarrow> d < 10"
    "\<not> (48 \<le> schar (m (p + of_nat (length ds))) \<and> schar (m (p + of_nat (length ds))) \<le> 57)"
  shows "strtol_loop m p (of_nat v) = Some (of_nat (horner 10 v ds))"
  using assms
proof (induction ds arbitrary: p v)
  case Nil
  then show ?case by (subst strtol_loop.simps) auto
next
  case (Cons d ds)
  have d: "d < 10" using Cons.prems(2) by simp
  have c: "m p = digit_char d" "cstr m (p + 1) (map digit_char ds @ rest)" using Cons.prems(1) by simp_all
  have "strtol_loop m (p + 1) (of_nat (v * 10 + d)) = Some (of_nat (horner 10 (v * 10 + d) ds))"
    using Cons.prems by (intro Cons.IH c(2)) (simp_all add: add.assoc)
  then show ?case
    using d c(1) by (subst strtol_loop.simps) (simp add: decimal_digit)
qed

definition uint_max :: nat where "uint_max = 2 ^ 32 - 1"

lemma overflow_test:
  fixes acc :: u32
  assumes b: "2 \<le> b" "b \<le> 36" and d: "d < b"
  shows "(acc > (- 1) div of_nat b \<or> acc = (- 1) div of_nat b \<and> int d > sint ((- 1 :: u32) mod of_nat b))
    \<longleftrightarrow> uint_max < unat acc * b + d"
proof -
  have ub: "unat (of_nat b :: u32) = b" using b by (simp add: unat_of_nat)
  have um: "unat (- 1 :: u32) = uint_max" by (simp add: uint_max_def unsigned_minus_1_eq_mask mask_eq_exp_minus_1)
  have q: "unat ((- 1 :: u32) div of_nat b) = uint_max div b" by (simp add: unat_div ub um)
  have r: "unat ((- 1 :: u32) mod of_nat b) = uint_max mod b" by (simp add: unat_mod ub um)
  have "uint_max mod b < 36" using b by (metis less_le_trans mod_less_divisor not_numeral_le_zero order.strict_trans1 zero_less_iff_neq_zero le_zero_eq)
  then have s: "sint ((- 1 :: u32) mod of_nat b) = int (uint_max mod b)"
    using sint_small [of "(- 1 :: u32) mod of_nat b"] r by simp
  have dm: "uint_max = uint_max div b * b + uint_max mod b" by simp
  have "acc > (- 1) div of_nat b \<longleftrightarrow> uint_max div b < unat acc" by (simp add: word_less_nat_alt q)
  moreover have "acc = (- 1) div of_nat b \<longleftrightarrow> unat acc = uint_max div b"
    using q by (metis word_unat_eq_iff)
  moreover have "uint_max < unat acc * b + d \<longleftrightarrow> uint_max div b < unat acc \<or> unat acc = uint_max div b \<and> uint_max mod b < d"
  proof (cases "unat acc" "uint_max div b" rule: linorder_cases)
    case less
    then have "(unat acc + 1) * b \<le> uint_max div b * b" by (intro mult_le_mono1) simp
    then have "unat acc * b + b \<le> uint_max div b * b" by (simp add: algebra_simps)
    then show ?thesis using less d dm by linarith
  next
    case equal
    then show ?thesis using dm by (metis add_less_cancel_left less_irrefl)
  next
    case greater
    then have "(uint_max div b + 1) * b \<le> unat acc * b" by (intro mult_le_mono1) simp
    then have "uint_max div b * b + b \<le> unat acc * b" by (simp add: algebra_simps)
    moreover have "uint_max mod b < b" using b by simp
    ultimately show ?thesis using greater dm by linarith
  qed
  ultimately show ?thesis using s by auto
qed

text \<open>Once the value has overflowed the loop only looks for the end of the digits.\<close>

lemma strtoul_loop_saturated:
  assumes "cstr m p (map digit_char ds @ rest)" "\<And>d. d \<in> set ds \<Longrightarrow> d < b" "b \<le> 36"
    "strtoul_digit (schar (m (p + of_nat (length ds)))) = None"
  shows "strtoul_loop m (int b) cutoff cutlim (- 1) acc (schar (m p)) (p + 1) =
    Some (acc, - 1, p + of_nat (length ds) + 1)"
  using assms
proof (induction ds arbitrary: p)
  case Nil
  then show ?case by (subst strtoul_loop.simps) simp
next
  case (Cons d ds)
  have d: "d < b" "d < 36" using Cons.prems(2) [of d] Cons.prems(3) by simp_all
  have c: "m p = digit_char d" "cstr m (p + 1) (map digit_char ds @ rest)" using Cons.prems(1) by simp_all
  have "strtoul_loop m (int b) cutoff cutlim (- 1) acc (schar (m (p + 1))) (p + 1 + 1) =
      Some (acc, - 1, (p + 1) + of_nat (length ds) + 1)"
    using Cons.prems by (intro Cons.IH c(2)) (simp_all add: add.assoc)
  then show ?case
    using d c(1) by (subst strtoul_loop.simps) (simp add: strtoul_digit_char add.assoc)
qed

lemma strtoul_loop_digits:
  assumes "cstr m p (map digit_char ds @ rest)" "\<And>d. d \<in> set ds \<Longrightarrow> d < b" "2 \<le> b" "b \<le> 36"
    "strtoul_digit (schar (m (p + of_nat (length ds)))) = None" "any = 0 \<or> any = 1"
  shows "\<exists>any'. strtoul_loop m (int b) ((- 1) div of_nat b) (sint ((- 1 :: u32) mod of_nat b)) any acc (schar (m p)) (p + 1) =
      Some (if horner b (unat acc) ds \<le> uint_max then of_nat (horner b (unat acc) ds) else - 1, any',
        p + of_nat (length ds) + 1) \<and> (ds \<noteq> [] \<or> any = 1 \<longrightarrow> any' \<noteq> 0)"
  using assms
proof (induction ds arbitrary: p acc any)
  case Nil
  have "unat acc \<le> uint_max" using unat_less_32 [of acc] by (simp add: uint_max_def)
  with Nil show ?case by (subst strtoul_loop.simps) simp
next
  case (Cons d ds)
  let ?co = "(- 1 :: u32) div of_nat b" and ?cl = "sint ((- 1 :: u32) mod of_nat b)"
  have d: "d < b" "d < 36" using Cons.prems(2) [of d] Cons.prems(4) by simp_all
  have c: "m p = digit_char d" "cstr m (p + 1) (map digit_char ds @ rest)" using Cons.prems(1) by simp_all
  note ov = overflow_test [OF Cons.prems(3,4) d(1), of acc]
  have stop: "strtoul_digit (schar (m (p + 1 + of_nat (length ds)))) = None" using Cons.prems(5) by (simp add: add.assoc)
  have ds: "\<And>d. d \<in> set ds \<Longrightarrow> d < b" using Cons.prems(2) by simp
  have na: "\<not> any < 0" using Cons.prems(6) by auto
  show ?case
  proof (cases "uint_max < unat acc * b + d")
    case True
    then have "strtoul_loop m (int b) ?co ?cl any acc (schar (m p)) (p + 1) =
        strtoul_loop m (int b) ?co ?cl (- 1) (- 1) (schar (m (p + 1))) (p + 1 + 1)"
      using ov d c(1) na by (subst strtoul_loop.simps) (simp add: strtoul_digit_char)
    moreover have "\<not> horner b (unat acc) (d # ds) \<le> uint_max"
      using horner_mono [of b "unat acc * b + d" ds] True Cons.prems(3) by simp
    ultimately show ?thesis
      using strtoul_loop_saturated [OF c(2) ds Cons.prems(4) stop, of ?co ?cl "- 1"] by (simp add: add.assoc)
  next
    case False
    have u: "unat (acc * of_nat b + of_nat d) = unat acc * b + d"
    proof -
      have "acc * of_nat b + of_nat d = (of_nat (unat acc * b + d) :: u32)" by simp
      moreover have "unat acc * b + d < 2 ^ 32" using False by (simp add: uint_max_def)
      ultimately show ?thesis by (simp only: unsigned_of_nat take_bit_eq_mod) simp
    qed
    have "strtoul_loop m (int b) ?co ?cl any acc (schar (m p)) (p + 1) =
        strtoul_loop m (int b) ?co ?cl 1 (acc * of_nat b + of_nat d) (schar (m (p + 1))) (p + 1 + 1)"
      using ov d c(1) na False by (subst strtoul_loop.simps) (auto simp: strtoul_digit_char)
    moreover obtain any' where "strtoul_loop m (int b) ?co ?cl 1 (acc * of_nat b + of_nat d) (schar (m (p + 1))) (p + 1 + 1) =
        Some (if horner b (unat acc * b + d) ds \<le> uint_max then of_nat (horner b (unat acc * b + d) ds) else - 1, any',
          p + 1 + of_nat (length ds) + 1) \<and> any' \<noteq> 0"
      using Cons.IH [OF c(2) ds Cons.prems(3,4) stop, of 1 "acc * of_nat b + of_nat d"] unfolding u by blast
    ultimately show ?thesis by (auto simp: add.assoc)
  qed
qed

section \<open>Properties\<close>

text \<open>
  On a numeral of any base from 2 to 36 \<open>strtoul\<close> computes its value, or the largest
  32-bit number if the value does not fit, and stores the address behind the last digit.
\<close>

theorem strtoul_value:
  assumes p: "cstr m p (map digit_char ds @ rest)" and ds: "ds \<noteq> []" "\<And>d. d \<in> set ds \<Longrightarrow> d < b"
    and b: "2 \<le> b" "b \<le> 36" and stop: "strtoul_digit (schar (m (p + of_nat (length ds)))) = None"
  shows "strtoul m p endptr (int b) =
    Some (if digits_value b ds \<le> uint_max then of_nat (digits_value b ds) else - 1,
      if endptr \<noteq> 0 then wr32 m endptr (p + of_nat (length ds)) else m)"
proof -
  obtain d ds' where d: "ds = d # ds'" using ds(1) by (cases ds) auto
  have d36: "d < 36" using ds(2) [of d] b(2) d by simp
  have c: "m p = digit_char d" using p d by simp
  let ?c = "schar (m p)"
  have sd: "strtoul_digit ?c = Some (int d)" using c d36 by (simp add: strtoul_digit_char)
  then have nw: "?c \<noteq> 32" "?c \<noteq> 9" "?c \<noteq> 10" "?c \<noteq> 13" "?c \<noteq> 11" "?c \<noteq> 12" "?c \<noteq> 45" "?c \<noteq> 43"
    by (auto simp: strtoul_digit_def)
  then have sk: "strtoul_skip m p = Some (?c, p + 1)" by (subst strtoul_skip.simps) (simp add: Let_def)
  have nx: "m (p + 1) \<noteq> 120" "m (p + 1) \<noteq> 88" if "b = 16"
  proof -
    have "strtoul_digit (schar (m (p + 1))) = None \<or> (\<exists>e < 16. strtoul_digit (schar (m (p + 1))) = Some (int e))"
    proof (cases ds')
      case Nil
      then show ?thesis using stop d by simp
    next
      case (Cons e es)
      then have "e < 16" "m (p + 1) = digit_char e" using ds(2) [of e] p d that by auto
      then show ?thesis using strtoul_digit_char [of e] by auto
    qed
    then show "m (p + 1) \<noteq> 120" "m (p + 1) \<noteq> 88" by (auto simp: strtoul_digit_def)
  qed
  have cd: "(- 1 :: u32) div of_int (int b) = (- 1) div of_nat b" "(- 1 :: u32) mod of_int (int b) = (- 1) mod of_nat b"
    by simp_all
  obtain any' where l: "strtoul_loop m (int b) ((- 1) div of_nat b) (sint ((- 1 :: u32) mod of_nat b)) 0 0 ?c (p + 1) =
      Some (if horner b 0 ds \<le> uint_max then of_nat (horner b 0 ds) else - 1, any', p + of_nat (length ds) + 1)" "any' \<noteq> 0"
    using strtoul_loop_digits [OF p ds(2) b stop, of 0 0] ds(1) by auto
  have b0: "int b \<noteq> 0" using b by simp
  show ?thesis
    using sk nw nx l b0 by (auto simp: strtoul_def Let_def horner_eq)
qed

text \<open>
  C36: the text that \<open>__utoa\<close> writes is read back by \<open>strtoul\<close> as the same number, in every base.
\<close>

theorem utoa_strtoul_roundtrip:
  assumes "2 \<le> b" "b \<le> 36"
  shows "\<exists>m'. utoa m v str (int b) = Some (str, m') \<and> strtoul m' str 0 (int b) = Some (v, m')"
proof -
  let ?ds = "rev (digits_lsd b (unat v))"
  let ?m = "wr_bytes m str (digit_text b (unat v) @ [0])"
  have u: "utoa m v str (int b) = Some (str, ?m)" using utoa_text [of "int b"] assms by simp
  have l: "length ?ds \<le> 32" using length_digits_lsd [OF assms(1), of "unat v" 32] unat_less_32 [of v] by simp
  have ds: "d \<in> set ?ds \<Longrightarrow> d < b" for d using digits_lsd_less [OF assms(1)] by simp
  have z: "0 \<notin> set (map digit_char ?ds)"
  proof
    assume "0 \<in> set (map digit_char ?ds)"
    then obtain d where "d \<in> set ?ds" "digit_char d = 0" by auto
    then show False using ds [of d] assms(2) digit_char_nonzero [of d] by simp
  qed
  have c: "cstr ?m str (map digit_char ?ds @ [])"
    using cstr_wr_bytes_new [OF z] l by (simp add: digit_text_def)
  have "?m (str + of_nat (length ?ds)) = 0"
    using wr_bytes_nth [of "length ?ds" "digit_text b (unat v) @ [0]" m str] l
    by (simp add: digit_text_def nth_append)
  then have stop: "strtoul_digit (schar (?m (str + of_nat (length ?ds)))) = None" by (simp add: strtoul_digit_def)
  have ne: "?ds \<noteq> []" by (simp add: digits_lsd_ne)
  have v: "digits_value b ?ds = unat v" by (rule digits_value_lsd [OF assms(1)])
  have "unat v \<le> uint_max" using unat_less_32 [of v] by (simp add: uint_max_def)
  then show ?thesis using u strtoul_value [OF c ne ds assms stop, of 0] v by simp
qed

text \<open>
  \<open>strtol\<close>, and with it \<open>atoi\<close> and \<open>atol\<close>, compute the value of the decimal digits at
  the address, modulo $2^{32}$, whatever base and end pointer they are given.
\<close>

theorem strtol_decimal:
  assumes "cstr m p (map digit_char ds @ rest)" "\<And>d. d \<in> set ds \<Longrightarrow> d < 10"
    "\<not> (48 \<le> schar (m (p + of_nat (length ds))) \<and> schar (m (p + of_nat (length ds))) \<le> 57)"
  shows "strtol m p endptr base = Some (of_nat (digits_value 10 ds))"
  using strtol_loop_digits [OF assms, of 0] by (simp add: strtol_def horner_eq)

text \<open>
  \<open>__itoa\<close> of a negative number in base 10 is the text of its absolute value: the minus
  sign is overwritten.
\<close>

theorem itoa_loses_sign:
  assumes "sint v < 0"
  shows "itoa m v str 10 = Some (str, wr_bytes (m(str := 45)) str (digit_text 10 (unat (- v)) @ [0]))"
  using utoa_text [of 10 "m(str := 45)" "- v" str] assms by (simp add: itoa_def)

text \<open>
  \<open>strtoull\<close> and \<open>strtoll\<close> of any string that is not at the ends of the address space are 0: the end of
  the text is computed as \<open>nptr + SIZE_MAX\<close>, which is the address before it.
\<close>

theorem strtoull_always_zero:
  assumes "nptr \<noteq> 0" "unat nptr + 2 < 2 ^ 32"
  shows "map_option fst (strtoull m nptr endptr base) = Some 0"
proof -
  have e: "nptr + NOT 0 = nptr - 1" by simp
  have u: "unat (nptr + 1) = unat nptr + 1" "unat (nptr + 2) = unat nptr + 2"
    using assms(2) unat_add_of_nat [of nptr 1] unat_add_of_nat [of nptr 2] by simp_all
  have l: "\<not> nptr < nptr - 1" "\<not> nptr + 1 < nptr - 1" "\<not> nptr + 2 < nptr - 1"
    using assms(1) by (simp_all add: word_less_nat_alt unat_minus_one u)
  have sk: "strntoumax_skip m nptr (nptr - 1) = Some nptr" by (subst strntoumax_skip.simps) (simp add: l)
  have lp: "strntoumax_loop m (nptr - 1) b p 0 = Some (p, 0)" if "\<not> p < nptr - 1" for b p
    using that by (subst strntoumax_loop.simps) simp
  show ?thesis
    by (auto simp: strtoull_def strntoumax_def e sk l lp Let_def)
qed

theorem strtoul_value_witness:
  "strtoul ((\<lambda>_. 0)(0x100 := 55, 0x101 := 102)) 0x100 0 16 = Some (0x7F, (\<lambda>_. 0)(0x100 := 55, 0x101 := 102))"
proof -
  let ?m = "(\<lambda>_. 0)(0x100 := 55, 0x101 := 102)"
  have t: "digit_char 7 = 55" "digit_char 15 = 102" by (simp_all add: digit_char_def bytes_of_def)
  then have "cstr ?m 0x100 (map digit_char [7, 15] @ [])" by simp
  moreover have "\<And>d. d \<in> set [7, 15] \<Longrightarrow> d < (16 :: nat)" by auto
  ultimately show ?thesis using strtoul_value [of ?m "0x100" "[7, 15]" "[]" 16 0] by (simp add: strtoul_digit_def uint_max_def)
qed

theorem utoa_strtoul_roundtrip_witness:
  "\<exists>m'. utoa (\<lambda>_. 0) 48879 0x100 16 = Some (0x100, m') \<and> strtoul m' 0x100 0 16 = Some (48879, m')"
  using utoa_strtoul_roundtrip [of 16 "\<lambda>_. 0" 48879 "0x100"] by simp

theorem strtol_decimal_witness:
  "strtol ((\<lambda>_. 0)(0x100 := 52, 0x101 := 50)) 0x100 0 10 = Some 42"
proof -
  let ?m = "(\<lambda>_. 0)(0x100 := 52, 0x101 := 50)"
  have t: "digit_char 4 = 52" "digit_char 2 = 50" by (simp_all add: digit_char_def bytes_of_def)
  then have "cstr ?m 0x100 (map digit_char [4, 2] @ [])" by simp
  moreover have "\<And>d. d \<in> set [4, 2] \<Longrightarrow> d < (10 :: nat)" by auto
  ultimately show ?thesis using strtol_decimal [of ?m "0x100" "[4, 2]" "[]" 0 10] by simp
qed

theorem itoa_loses_sign_witness:
  "\<exists>m'. itoa (\<lambda>_. 0) (- 7) 0x100 10 = Some (0x100, m')"
  using itoa_loses_sign [of "- 7" "\<lambda>_. 0" "0x100"] by simp

theorem strtoull_always_zero_witness: "map_option fst (strtoull ((\<lambda>_. 0)(0x100 := 52)) 0x100 0 10) = Some 0"
  by (rule strtoull_always_zero) simp_all

end
