(* ===== verification/Mutex.thy ===== *)
theory Mutex
  imports Scheduler
begin

text \<open>
  The mutex of the kernel (\<^verbatim>\<open>apps/kernel/mutex.c\<close>): a lock that is handed over to the first
  task of a waiting queue, linked through the \<open>next\<close> fields of the task blocks.  The file
  declares its own task block.  \<open>Scheduler_AddReady\<close> and \<open>OS_Yield\<close> are not defined
  anywhere in the tree: they are arguments, and \<open>adds_ready\<close> states what the mutex relies on.
\<close>

section \<open>Data\<close>

record mtcb =
  m_sp :: u32
  m_next :: "nat option"
  m_state :: int

definition MTASK_READY :: int where "MTASK_READY = 0"
definition MTASK_RUNNING :: int where "MTASK_RUNNING = 1"
definition MTASK_BLOCKED :: int where "MTASK_BLOCKED = 2"

record mutex =
  locked :: int
  owner :: "nat option"
  wait_head :: "nat option"
  wait_tail :: "nat option"

record mkern =
  mtcbs :: "nat \<Rightarrow> mtcb"
  m_current :: "nat option"
  m_sr :: u16
  mtx :: mutex

definition upd_mtcb :: "nat \<Rightarrow> (mtcb \<Rightarrow> mtcb) \<Rightarrow> mkern \<Rightarrow> mkern" where
  "upd_mtcb i f k = k\<lparr>mtcbs := (mtcbs k)(i := f (mtcbs k i))\<rparr>"

abbreviation mnext :: "mkern \<Rightarrow> nat \<Rightarrow> nat option" where
  "mnext k \<equiv> (\<lambda>i. m_next (mtcbs k i))"

section \<open>Operations\<close>

definition Lock_CriticalEnter :: "mkern \<Rightarrow> u16 \<times> mkern" where
  "Lock_CriticalEnter k = (m_sr k, k\<lparr>m_sr := m_sr k OR 0x0700\<rparr>)"

definition Lock_CriticalExit :: "u16 \<Rightarrow> mkern \<Rightarrow> mkern" where
  "Lock_CriticalExit old_sr k = k\<lparr>m_sr := old_sr\<rparr>"

definition Mutex_Init :: "mkern \<Rightarrow> mkern" where
  "Mutex_Init k = k\<lparr>mtx := \<lparr>locked = 0, owner = None, wait_head = None, wait_tail = None\<rparr>\<rparr>"

text \<open>
  \<open>Mutex_Lock\<close> up to \<open>OS_Yield\<close>; the flag says that the caller has to yield.  \<open>None\<close>: the
  null pointer \<open>current_task\<close> is followed.
\<close>

definition Mutex_Lock_request :: "mkern \<Rightarrow> (bool \<times> mkern) option" where
  "Mutex_Lock_request k =
     (let (sr, k1) = Lock_CriticalEnter k
      in if locked (mtx k1) = 0 then
           Some (False, Lock_CriticalExit sr (k1\<lparr>mtx := (mtx k1)\<lparr>locked := 1, owner := m_current k1\<rparr>\<rparr>))
         else (case m_current k1 of
             None \<Rightarrow> None
           | Some me \<Rightarrow>
               let k2 = upd_mtcb me (\<lambda>t. t\<lparr>m_next := None\<rparr>) k1;
                   k3 = (case wait_tail (mtx k2) of
                           Some w \<Rightarrow> (upd_mtcb w (\<lambda>t. t\<lparr>m_next := Some me\<rparr>) k2)
                                       \<lparr>mtx := (mtx k2)\<lparr>wait_tail := Some me\<rparr>\<rparr>
                         | None \<Rightarrow> k2\<lparr>mtx := (mtx k2)\<lparr>wait_head := Some me, wait_tail := Some me\<rparr>\<rparr>);
                   k4 = upd_mtcb me (\<lambda>t. t\<lparr>m_state := MTASK_BLOCKED\<rparr>) k3
               in Some (True, Lock_CriticalExit sr k4)))"

definition Mutex_Lock :: "(mkern \<Rightarrow> mkern) \<Rightarrow> mkern \<Rightarrow> mkern option" where
  "Mutex_Lock OS_Yield k =
     map_option (\<lambda>(blocked, k'). if blocked then OS_Yield k' else k') (Mutex_Lock_request k)"

definition Mutex_Unlock :: "(nat \<Rightarrow> mkern \<Rightarrow> mkern) \<Rightarrow> mkern \<Rightarrow> mkern" where
  "Mutex_Unlock Scheduler_AddReady k =
     (let (sr, k1) = Lock_CriticalEnter k
      in case wait_head (mtx k1) of
           Some next_owner \<Rightarrow>
             let h = m_next (mtcbs k1 next_owner);
                 m2 = (mtx k1)\<lparr>wait_head := h\<rparr>;
                 m3 = (if h = None then m2\<lparr>wait_tail := None\<rparr> else m2);
                 k2 = k1\<lparr>mtx := m3\<lparr>owner := Some next_owner\<rparr>\<rparr>;
                 k3 = upd_mtcb next_owner (\<lambda>t. t\<lparr>m_state := MTASK_READY\<rparr>) k2
             in Lock_CriticalExit sr (Scheduler_AddReady next_owner k3)
         | None \<Rightarrow> Lock_CriticalExit sr (k1\<lparr>mtx := (mtx k1)\<lparr>locked := 0, owner := None\<rparr>\<rparr>))"

section \<open>Specification\<close>

text \<open>A mutex as its holder and the tasks that wait, in order.\<close>

type_synonym lock = "nat option \<times> nat list"

fun lock_spec :: "nat \<Rightarrow> lock \<Rightarrow> lock" where
  "lock_spec t (None, ws) = (Some t, ws)"
| "lock_spec t (Some h, ws) = (Some h, ws @ [t])"

fun unlock_spec :: "lock \<Rightarrow> lock" where
  "unlock_spec (h, []) = (None, [])"
| "unlock_spec (h, w # ws) = (Some w, ws)"

definition waitq :: "mkern \<Rightarrow> nat list \<Rightarrow> bool" where
  "waitq k ws \<longleftrightarrow> distinct ws \<and> npath (mnext k) (wait_head (mtx k)) ws None \<and>
     wait_tail (mtx k) = (if ws = [] then None else Some (last ws)) \<and>
     (\<forall>t \<in> set ws. m_state (mtcbs k t) = MTASK_BLOCKED)"

fun mutex_rel :: "mkern \<Rightarrow> lock \<Rightarrow> bool" where
  "mutex_rel k (None, ws) \<longleftrightarrow> locked (mtx k) = 0 \<and> owner (mtx k) = None \<and> ws = [] \<and> waitq k []"
| "mutex_rel k (Some h, ws) \<longleftrightarrow> locked (mtx k) = 1 \<and> owner (mtx k) = Some h \<and> waitq k ws"

text \<open>
  What the mutex needs of \<open>Scheduler_AddReady\<close>: it changes neither the mutex nor the status
  register, the current task or a task state, and relinks no blocked task
  but the one it is given.
\<close>

definition adds_ready :: "(nat \<Rightarrow> mkern \<Rightarrow> mkern) \<Rightarrow> bool" where
  "adds_ready add \<longleftrightarrow> (\<forall>t k. mtx (add t k) = mtx k \<and> m_sr (add t k) = m_sr k \<and> m_current (add t k) = m_current k \<and>
     (\<forall>i. m_state (mtcbs (add t k) i) = m_state (mtcbs k i)) \<and>
     (\<forall>i. i \<noteq> t \<and> m_state (mtcbs k i) = MTASK_BLOCKED \<longrightarrow> m_next (mtcbs (add t k) i) = m_next (mtcbs k i)))"

lemma npath_cong: "(\<And>x. x \<in> set xs \<Longrightarrow> nx x = nx' x) \<Longrightarrow> npath nx p xs q = npath nx' p xs q"
  by (induction xs arbitrary: p) auto

lemma Mutex_Init_rel: "mutex_rel (Mutex_Init k) (None, [])"
  by (simp add: Mutex_Init_def waitq_def)

lemma mutex_lock_free:
  assumes "mutex_rel k (None, [])" "m_current k = Some t"
  shows "Mutex_Lock_request k = Some (False, k\<lparr>mtx := (mtx k)\<lparr>locked := 1, owner := Some t\<rparr>\<rparr>) \<and>
    mutex_rel (k\<lparr>mtx := (mtx k)\<lparr>locked := 1, owner := Some t\<rparr>\<rparr>) (Some t, [])"
  using assms by (simp add: Mutex_Lock_request_def Lock_CriticalEnter_def Lock_CriticalExit_def waitq_def)

lemma mutex_lock_wait:
  assumes rel: "mutex_rel k (Some h, ws)" and cur: "m_current k = Some t"
    and run: "m_state (mtcbs k t) \<noteq> MTASK_BLOCKED"
  shows "\<exists>k'. Mutex_Lock_request k = Some (True, k') \<and> mutex_rel k' (Some h, ws @ [t]) \<and>
    m_sr k' = m_sr k \<and> m_current k' = Some t \<and> m_state (mtcbs k' t) = MTASK_BLOCKED"
proof -
  have q: "waitq k ws" and l: "locked (mtx k) = 1" "owner (mtx k) = Some h" using rel by simp_all
  have tw: "t \<notin> set ws" using q run by (auto simp: waitq_def)
  show ?thesis
  proof (cases ws rule: rev_cases)
    case Nil
    then have "wait_tail (mtx k) = None" using q by (simp add: waitq_def)
    then show ?thesis
      using Nil cur l by (simp add: Mutex_Lock_request_def Lock_CriticalEnter_def Lock_CriticalExit_def
          waitq_def upd_mtcb_def Let_def)
  next
    case (snoc us w)
    then have wt: "wait_tail (mtx k) = Some w" and wt_ne: "w \<noteq> t" using q tw by (auto simp: waitq_def)
    have pu: "npath (mnext k) (wait_head (mtx k)) us (Some w)" and d: "distinct (us @ [w])"
      using q snoc by (simp_all add: waitq_def npath_snoc)
    have "npath ((mnext k)(t := None, w := Some t)) (wait_head (mtx k)) us (Some w)"
      using pu d tw snoc by simp
    then have p: "npath ((mnext k)(t := None, w := Some t)) (wait_head (mtx k)) (ws @ [t]) None"
      using snoc wt_ne by (simp add: npath_append)
    let ?k1 = "upd_mtcb t (\<lambda>t. t\<lparr>m_next := None\<rparr>) (k\<lparr>m_sr := m_sr k OR 0x0700\<rparr>)"
    let ?k2 = "(upd_mtcb w (\<lambda>x. x\<lparr>m_next := Some t\<rparr>) ?k1)\<lparr>mtx := (mtx k)\<lparr>wait_tail := Some t\<rparr>\<rparr>"
    let ?k = "Lock_CriticalExit (m_sr k) (upd_mtcb t (\<lambda>t. t\<lparr>m_state := MTASK_BLOCKED\<rparr>) ?k2)"
    have r: "Mutex_Lock_request k = Some (True, ?k)"
      using wt cur l by (simp add: Mutex_Lock_request_def Lock_CriticalEnter_def upd_mtcb_def Let_def)
    have nx: "mnext ?k = (mnext k)(t := None, w := Some t)"
      using wt_ne by (auto simp: Lock_CriticalExit_def upd_mtcb_def)
    have st: "m_state (mtcbs ?k i) = (if i = t then MTASK_BLOCKED else m_state (mtcbs k i))" for i
      by (simp add: Lock_CriticalExit_def upd_mtcb_def)
    have mt: "mtx ?k = (mtx k)\<lparr>wait_tail := Some t\<rparr>" "m_sr ?k = m_sr k" "m_current ?k = Some t"
      using cur by (simp_all add: Lock_CriticalExit_def upd_mtcb_def)
    have "waitq ?k (ws @ [t])"
      using p q tw by (simp add: waitq_def nx st mt)
    with r mt st l show ?thesis by simp
  qed
qed

lemma mutex_unlock_rel:
  assumes rel: "mutex_rel k (Some h, ws)" and add: "adds_ready add"
  shows "mutex_rel (Mutex_Unlock add k) (unlock_spec (Some h, ws)) \<and>
    m_sr (Mutex_Unlock add k) = m_sr k \<and> m_current (Mutex_Unlock add k) = m_current k \<and>
    (ws \<noteq> [] \<longrightarrow> m_state (mtcbs (Mutex_Unlock add k) (hd ws)) = MTASK_READY)"
proof -
  have q: "waitq k ws" and l: "locked (mtx k) = 1" "owner (mtx k) = Some h" using rel by simp_all
  show ?thesis
  proof (cases ws)
    case Nil
    then have "wait_head (mtx k) = None" using q by (simp add: waitq_def)
    then show ?thesis
      using Nil q by (simp add: Mutex_Unlock_def Lock_CriticalEnter_def Lock_CriticalExit_def waitq_def)
  next
    case (Cons w vs)
    then have hd: "wait_head (mtx k) = Some w" and p: "npath (mnext k) (m_next (mtcbs k w)) vs None"
      and d: "distinct (w # vs)" using q by (simp_all add: waitq_def)
    have nn: "m_next (mtcbs k w) = None \<longleftrightarrow> vs = []" using p by (cases vs) auto
    let ?m = "(if m_next (mtcbs k w) = None then (mtx k)\<lparr>wait_head := m_next (mtcbs k w), wait_tail := None\<rparr>
        else (mtx k)\<lparr>wait_head := m_next (mtcbs k w)\<rparr>)\<lparr>owner := Some w\<rparr>"
    let ?k3 = "upd_mtcb w (\<lambda>t. t\<lparr>m_state := MTASK_READY\<rparr>) (k\<lparr>m_sr := m_sr k OR 0x0700, mtx := ?m\<rparr>)"
    have u: "Mutex_Unlock add k = Lock_CriticalExit (m_sr k) (add w ?k3)"
      using hd by (simp add: Mutex_Unlock_def Lock_CriticalEnter_def Let_def)
    have a: "mtx (add w ?k3) = ?m" "m_current (add w ?k3) = m_current k"
      "\<And>i. m_state (mtcbs (add w ?k3) i) = (if i = w then MTASK_READY else m_state (mtcbs k i))"
      "\<And>i. i \<noteq> w \<Longrightarrow> m_state (mtcbs k i) = MTASK_BLOCKED \<Longrightarrow> m_next (mtcbs (add w ?k3) i) = m_next (mtcbs k i)"
      using add by (simp_all add: adds_ready_def upd_mtcb_def)
    have same: "mnext (add w ?k3) x = mnext k x" if "x \<in> set vs" for x
      using that q d Cons by (intro a(4)) (auto simp: waitq_def)
    have "npath (mnext (add w ?k3)) (m_next (mtcbs k w)) vs None"
      using p npath_cong [OF same, of vs] by simp
    then have "waitq (Lock_CriticalExit (m_sr k) (add w ?k3)) vs"
      using q d Cons a nn by (auto simp: waitq_def Lock_CriticalExit_def)
    with u a l Cons show ?thesis by (simp add: Lock_CriticalExit_def)
  qed
qed

lemma unlock_spec_run:
  "n < length ws \<Longrightarrow> (unlock_spec ^^ Suc n) (Some h, ws) = (Some (ws ! n), drop (Suc n) ws)"
proof (induction n arbitrary: h ws)
  case 0
  then show ?case by (cases ws) auto
next
  case (Suc n)
  then show ?case
    by (cases ws) (simp_all only: funpow_Suc_right comp_apply unlock_spec.simps list.size nth_Cons_Suc drop_Suc_Cons not_less0 Suc_less_eq)
qed

lemma mutex_unlocks:
  assumes "mutex_rel k (Some h, ws)" "adds_ready add" "n \<le> length ws"
  shows "mutex_rel ((Mutex_Unlock add ^^ n) k) (if n = 0 then (Some h, ws) else (Some (ws ! (n - 1)), drop n ws)) \<and>
    m_sr ((Mutex_Unlock add ^^ n) k) = m_sr k"
  using assms(3)
proof (induction n)
  case 0
  with assms show ?case by simp
next
  case (Suc n)
  then have n: "n < length ws" by simp
  then obtain h' where h': "mutex_rel ((Mutex_Unlock add ^^ n) k) (Some h', drop n ws)"
    using Suc by (cases "n = 0") auto
  have "drop n ws = ws ! n # drop (Suc n) ws" using n by (simp add: Cons_nth_drop_Suc)
  with mutex_unlock_rel [OF h' assms(2)] Suc n show ?case by simp
qed

section \<open>Properties\<close>

lemma mutex_unlock_free:
  assumes "mutex_rel k (None, [])"
  shows "mutex_rel (Mutex_Unlock add k) (None, []) \<and> m_sr (Mutex_Unlock add k) = m_sr k"
  using assms by (simp add: Mutex_Unlock_def Lock_CriticalEnter_def Lock_CriticalExit_def waitq_def)

lemma mutex_lock_rel:
  assumes "mutex_rel k l" "m_current k = Some t" "m_state (mtcbs k t) \<noteq> MTASK_BLOCKED"
  shows "\<exists>k'. Mutex_Lock_request k = Some (fst l \<noteq> None, k') \<and> mutex_rel k' (lock_spec t l) \<and> m_sr k' = m_sr k \<and>
    (fst l \<noteq> None \<longrightarrow> m_state (mtcbs k' t) = MTASK_BLOCKED)"
proof (cases l)
  case (Pair h ws)
  show ?thesis
  proof (cases h)
    case None
    with Pair assms have "ws = []" by simp
    with Pair None mutex_lock_free [of k t] assms show ?thesis by auto
  next
    case (Some x)
    with Pair mutex_lock_wait [of k x ws t] assms show ?thesis by auto
  qed
qed

text \<open>
  C8: the three operations implement the specification of a lock with a holder and a waiting list.  Initialising
  makes it free with nobody waiting.  Locking gives a free mutex to the caller, and puts the running caller of
  a held one at the end of the list, blocked, to yield as \<open>Mutex_Lock\<close> then does.  Unlocking gives the
  mutex to the first task of the list, which becomes ready, or frees it.  The interrupt mask is restored by
  both.
\<close>

theorem mutex_refines:
  assumes "mutex_rel k l" "adds_ready add"
  shows "mutex_rel (Mutex_Init k0) (None, []) \<and>
    (\<forall>t. m_current k = Some t \<longrightarrow> m_state (mtcbs k t) \<noteq> MTASK_BLOCKED \<longrightarrow>
       (\<exists>k'. Mutex_Lock yield k = Some (if fst l = None then k' else yield k') \<and> mutex_rel k' (lock_spec t l) \<and> m_sr k' = m_sr k \<and>
          (fst l \<noteq> None \<longrightarrow> m_state (mtcbs k' t) = MTASK_BLOCKED))) \<and>
    mutex_rel (Mutex_Unlock add k) (unlock_spec l) \<and> m_sr (Mutex_Unlock add k) = m_sr k \<and>
    (fst l \<noteq> None \<longrightarrow> snd l \<noteq> [] \<longrightarrow> m_state (mtcbs (Mutex_Unlock add k) (hd (snd l))) = MTASK_READY)"
proof (intro conjI allI impI)
  show "mutex_rel (Mutex_Init k0) (None, [])" by (rule Mutex_Init_rel)
next
  fix t assume "m_current k = Some t" "m_state (mtcbs k t) \<noteq> MTASK_BLOCKED"
  from mutex_lock_rel [OF assms(1) this] obtain k' where
    k': "Mutex_Lock_request k = Some (fst l \<noteq> None, k')" "mutex_rel k' (lock_spec t l)" "m_sr k' = m_sr k"
      "fst l \<noteq> None \<longrightarrow> m_state (mtcbs k' t) = MTASK_BLOCKED" by blast
  from k'(1) have "Mutex_Lock yield k = Some (if fst l = None then k' else yield k')" by (simp add: Mutex_Lock_def)
  with k'(2-4) show "\<exists>k'. Mutex_Lock yield k = Some (if fst l = None then k' else yield k') \<and>
      mutex_rel k' (lock_spec t l) \<and> m_sr k' = m_sr k \<and> (fst l \<noteq> None \<longrightarrow> m_state (mtcbs k' t) = MTASK_BLOCKED)"
    by blast
next
  obtain h ws where l: "l = (h, ws)" by fastforce
  have u: "mutex_rel (Mutex_Unlock add k) (unlock_spec l) \<and> m_sr (Mutex_Unlock add k) = m_sr k \<and>
      (fst l \<noteq> None \<longrightarrow> snd l \<noteq> [] \<longrightarrow> m_state (mtcbs (Mutex_Unlock add k) (hd (snd l))) = MTASK_READY)"
  proof (cases h)
    case None
    with l assms(1) have "ws = []" by simp
    with None l assms(1) mutex_unlock_free [of k add] show ?thesis by simp
  next
    case (Some x)
    with l mutex_unlock_rel [OF _ assms(2), of k x ws] assms(1) show ?thesis by simp
  qed
  then show "mutex_rel (Mutex_Unlock add k) (unlock_spec l)" "m_sr (Mutex_Unlock add k) = m_sr k"
    "fst l \<noteq> None \<Longrightarrow> snd l \<noteq> [] \<Longrightarrow> m_state (mtcbs (Mutex_Unlock add k) (hd (snd l))) = MTASK_READY"
    by blast+
qed

text \<open>
  C9: with tasks \<open>ws\<close> waiting, the unlocks hand the mutex to them one after the
  other in the order in which they asked for it, it is never free in between, and the interrupt
  mask is restored.
\<close>

theorem mutex_hands_over_in_order:
  assumes "mutex_rel k (Some h, ws)" "adds_ready add" "n < length ws"
  shows "owner (mtx ((Mutex_Unlock add ^^ Suc n) k)) = Some (ws ! n) \<and>
    locked (mtx ((Mutex_Unlock add ^^ Suc n) k)) = 1 \<and>
    waitq ((Mutex_Unlock add ^^ Suc n) k) (drop (Suc n) ws) \<and>
    m_sr ((Mutex_Unlock add ^^ Suc n) k) = m_sr k"
  using mutex_unlocks [OF assms(1,2), of "Suc n"] assms(3) by simp

definition demo_mutex :: mkern where
  "demo_mutex = \<lparr>mtcbs = (\<lambda>i. \<lparr>m_sp = 0, m_next = (if i = 1 then Some 2 else None),
       m_state = (if i = 0 then 1 else 2)\<rparr>), m_current = Some 0, m_sr = 0x2000,
     mtx = \<lparr>locked = 1, owner = Some 0, wait_head = Some 1, wait_tail = Some 2\<rparr>\<rparr>"

lemma demo_mutex_rel: "mutex_rel demo_mutex (Some 0, [1, 2])"
  by (simp add: demo_mutex_def waitq_def MTASK_BLOCKED_def)

lemma demo_adds_ready: "adds_ready (\<lambda>t. upd_mtcb t (\<lambda>b. b\<lparr>m_next := None\<rparr>))"
  by (simp add: adds_ready_def upd_mtcb_def)

theorem mutex_refines_witness:
  "(\<exists>k'. Mutex_Lock (\<lambda>k. k\<lparr>m_current := Some 7\<rparr>) demo_mutex = Some (k'\<lparr>m_current := Some 7\<rparr>) \<and> mutex_rel k' (Some 0, [1, 2, 0])) \<and>
    mutex_rel (Mutex_Unlock (\<lambda>t. upd_mtcb t (\<lambda>b. b\<lparr>m_next := None\<rparr>)) demo_mutex) (Some 1, [2])"
proof -
  have "m_current demo_mutex = Some 0" "m_state (mtcbs demo_mutex 0) \<noteq> MTASK_BLOCKED"
    by (simp_all add: demo_mutex_def MTASK_BLOCKED_def)
  then show ?thesis using mutex_refines [OF demo_mutex_rel demo_adds_ready, of undefined "\<lambda>k. k\<lparr>m_current := Some 7\<rparr>"] by auto
qed

theorem mutex_hands_over_in_order_witness:
  "owner (mtx ((Mutex_Unlock (\<lambda>t. upd_mtcb t (\<lambda>b. b\<lparr>m_next := None\<rparr>)) ^^ Suc 1) demo_mutex)) = Some 2"
proof -
  from mutex_hands_over_in_order [OF demo_mutex_rel demo_adds_ready, of 1] show ?thesis by simp
qed

end
