(* ===== verification/TaskCreate.thy ===== *)
theory TaskCreate
  imports ContextSwitch CStrings
begin

text \<open>
  Tasks made from a loaded program (\<^verbatim>\<open>apps/kernel/task_create.c\<close>): the arguments are copied
  to the top of the program's slot, and below them the frame is built that
  \<open>OS_StartHighRdy\<close> consumes.  The allocator \<open>kmalloc\<close> is an argument.
\<close>

section \<open>Operations\<close>

definition SLOT_SIZE :: u32 where "SLOT_SIZE = 0x40000"

definition ARGS_AREA_SIZE :: u32 where "ARGS_AREA_SIZE = 512"

definition REGBLK_A5 :: nat where "REGBLK_A5 = 1"

definition REGBLK_NREGS :: nat where "REGBLK_NREGS = 15"

text \<open>The loop over \<open>argv\<close> from \<open>n - 1\<close> down to 0; the result also has the last \<open>str_cursor\<close>.\<close>

fun copy_args_loop :: "nat \<Rightarrow> mem \<Rightarrow> u32 \<Rightarrow> u32 \<Rightarrow> u32 \<Rightarrow> (u32 \<times> mem) option" where
  "copy_args_loop 0 m argv argv_copy str_cursor = Some (str_cursor, m)"
| "copy_args_loop (Suc i) m argv argv_copy str_cursor =
     (let src = rd32 m (argv + 4 * of_nat i) in
      case strlen m src of
        None \<Rightarrow> None
      | Some l \<Rightarrow>
          let len = l + 1;
              str_cursor' = str_cursor - len;
              m1 = snd (memcpy m str_cursor' src len);
              m2 = wr32 m1 (argv_copy + 4 * of_nat i) str_cursor'
          in copy_args_loop i m2 argv argv_copy str_cursor')"

text \<open>Result: the lowest address used, \<open>argv_copy\<close>, and the memory.\<close>

definition copy_args_into_slot :: "mem \<Rightarrow> u32 \<Rightarrow> u32 \<Rightarrow> u32 \<Rightarrow> (u32 \<times> u32 \<times> mem) option" where
  "copy_args_into_slot m area_top argc argv =
     (let argv_copy = (area_top - (argc + 1) * 4) AND NOT 3
      in case copy_args_loop (nat (sint argc)) m argv argv_copy argv_copy of
           None \<Rightarrow> None
         | Some (str_cursor, m1) \<Rightarrow>
             Some (str_cursor, argv_copy, wr32 m1 (argv_copy + 4 * argc) 0))"

text \<open>The block is a \<open>TCB\<close> of the file: \<open>sp\<close> at offset 0, \<open>next\<close> at 4, \<open>state\<close> at 8.\<close>

definition Task_CreateFromElf ::
  "(u32 \<Rightarrow> mem \<Rightarrow> u32 \<times> mem) \<Rightarrow> mem \<Rightarrow> u32 \<Rightarrow> u32 \<Rightarrow> u32 \<Rightarrow> u32 \<Rightarrow> u32 \<Rightarrow> (u32 \<times> mem) option" where
  "Task_CreateFromElf kmalloc m0 task_base entry got_addr_saved argc argv =
     (let (tcb, m) = kmalloc 12 m0 in
      if tcb = 0 then Some (0, m)
      else
        let slot_top = task_base + SLOT_SIZE;
            args_area_bottom = slot_top - ARGS_AREA_SIZE
        in case copy_args_into_slot m slot_top argc argv of
             None \<Rightarrow> None
           | Some (_, argv_copy, m1) \<Rightarrow>
               let sp = args_area_bottom AND NOT 3;
                   m2 = wr32 m1 (sp - 4) argv_copy;
                   m3 = wr32 m2 (sp - 8) argc;
                   m4 = wr32 m3 (sp - 12) 0xDEADBEEF;
                   m5 = wr16 m4 (sp - 18) 0x2000;
                   m6 = wr32 m5 (sp - 16) (task_base + entry);
                   regs = sp - 18 - of_nat (REGBLK_NREGS * 4);
                   m7 = memset m6 regs 0 (of_nat (REGBLK_NREGS * 4));
                   m8 = wr32 m7 (regs + 4 * of_nat REGBLK_A5) (task_base + got_addr_saved);
                   m9 = wr32 m8 tcb regs;
                   m10 = wr32 m9 (tcb + 4) 0;
                   m11 = wr32 m10 (tcb + 8) 0
               in Some (tcb, m11))"

section \<open>Where the arguments go\<close>

text \<open>The copied strings, one after the other, and the addresses they start at.\<close>

definition arg_strings :: "u8 list list \<Rightarrow> u8 list" where
  "arg_strings ss = concat (map (\<lambda>s. s @ [0]) ss)"

fun arg_addrs :: "u32 \<Rightarrow> u8 list list \<Rightarrow> u32 list" where
  "arg_addrs a [] = []"
| "arg_addrs a (s # ss) = a # arg_addrs (a + of_nat (length s + 1)) ss"

lemma length_arg_addrs [simp]: "length (arg_addrs a ss) = length ss"
  by (induction ss arbitrary: a) auto

lemma length_concat_be32 [simp]: "length (concat (map be32 xs)) = 4 * length xs"
  by (induction xs) auto

lemma length_arg_strings_Cons [simp]:
  "length (arg_strings (s # ss)) = length s + 1 + length (arg_strings ss)"
  "arg_strings [] = []" "arg_strings (s # ss) = s @ 0 # arg_strings ss"
  by (simp_all add: arg_strings_def)

text \<open>
  The block that the loop has filled when the strings \<open>ss\<close>, the last ones, are copied: the
  strings, the untouched first pointers \<open>old\<close> and the pointers to the strings.
\<close>

definition args_block :: "u32 \<Rightarrow> u8 list list \<Rightarrow> u8 list \<Rightarrow> u8 list \<Rightarrow> u8 list" where
  "args_block a ss old rest = arg_strings ss @ old @ concat (map be32 (arg_addrs a ss)) @ rest"

lemma length_args_block [simp]:
  "length (args_block a ss old rest) = length (arg_strings ss) + length old + 4 * length ss + length rest"
  by (simp add: args_block_def)

lemma copy_args_step:
  assumes "length old = 4 * Suc n" "length (args_block a ss old rest) + length s + 1 \<le> 2 ^ 32"
    and lo: "lo = a - of_nat (length s + 1)" and ac: "ac = a + of_nat (length (arg_strings ss))"
  shows "wr32 (wr_bytes (wr_bytes m a (args_block a ss old rest)) lo (s @ [0])) (ac + 4 * of_nat n) lo =
    wr_bytes m lo (args_block lo (s # ss) (take (4 * n) old) rest)"
proof -
  have below: "wr_bytes (wr_bytes m a (args_block a ss old rest)) lo (s @ [0])
      = wr_bytes m lo ((s @ [0]) @ args_block a ss old rest)"
    using wr_bytes_below [of "s @ [0]" "args_block a ss old rest" m a] assms by simp
  have sp: "(s @ [0]) @ args_block a ss old rest =
      ((s @ [0]) @ arg_strings ss @ take (4 * n) old) @ drop (4 * n) old @ (concat (map be32 (arg_addrs a ss)) @ rest)"
    by (simp add: args_block_def)
  have pos: "ac + 4 * of_nat n = lo + of_nat (length ((s @ [0]) @ arg_strings ss @ take (4 * n) old))"
    using assms(1) by (simp add: lo ac)
  show ?thesis
    unfolding wr32_def below sp pos
    by (subst wr_bytes_part) (use assms in \<open>simp_all add: args_block_def\<close>)
qed

text \<open>What the loop reads lies outside the block it fills.\<close>

definition args_readable :: "mem \<Rightarrow> u32 \<Rightarrow> u8 list list \<Rightarrow> u32 \<Rightarrow> nat \<Rightarrow> bool" where
  "args_readable m argv ss lo n \<longleftrightarrow>
     (\<forall>i < length ss. cstr m (rd32 m (argv + 4 * of_nat i)) (ss ! i) \<and>
        disjoint_blocks lo n (rd32 m (argv + 4 * of_nat i)) (Suc (length (ss ! i))) \<and>
        disjoint_blocks lo n (argv + 4 * of_nat i) 4)"

lemma wr_bytes_outside:
  assumes "disjoint_blocks a n b k" "length bs \<le> n" "n \<le> 2 ^ 32" "in_block b k x"
  shows "wr_bytes m a bs x = m x"
proof -
  have "in_block a (length bs) x \<Longrightarrow> in_block a n x" using assms(2) by (simp add: in_block_def)
  then have "\<not> in_block a (length bs) x" using disjoint_blocksD [OF assms(1)] assms(4) by blast
  then show ?thesis using assms(2,3) by (simp add: wr_bytes_frame)
qed

lemma args_readable_snoc:
  "args_readable m argv (us @ [s]) lo n \<longleftrightarrow> args_readable m argv us lo n \<and>
     cstr m (rd32 m (argv + 4 * of_nat (length us))) s \<and>
     disjoint_blocks lo n (rd32 m (argv + 4 * of_nat (length us))) (Suc (length s)) \<and>
     disjoint_blocks lo n (argv + 4 * of_nat (length us)) 4"
  by (auto simp: args_readable_def less_Suc_eq all_conj_distrib nth_append imp_conjR)

lemma copy_args_loop_block:
  assumes "args_readable m argv ss1 lo n" "lo = a - of_nat (length (arg_strings ss1))"
    "ac = a + of_nat (length (arg_strings ss2))" "length old = 4 * length ss1"
    "n = length (arg_strings ss1) + length (args_block a ss2 old rest)" "n < 2 ^ 32"
  shows "copy_args_loop (length ss1) (wr_bytes m a (args_block a ss2 old rest)) argv ac a =
    Some (lo, wr_bytes m lo (args_block lo (ss1 @ ss2) [] rest))"
  using assms
proof (induction ss1 arbitrary: a ss2 old rule: rev_induct)
  case Nil
  then show ?case by simp
next
  case (snoc s us)
  let ?i = "length us" and ?B = "args_block a ss2 old rest"
  let ?off = "length (arg_strings (us @ [s]))"
  have S: "length (arg_strings (us @ [s])) = length (arg_strings us) + length s + 1"
    by (simp add: arg_strings_def)
  have a: "a = lo + of_nat ?off" using snoc.prems(2) by simp
  have len: "?off + length ?B = n" using snoc.prems(5) by simp
  let ?src = "rd32 m (argv + 4 * of_nat ?i)"
  have rd: "cstr m ?src s" and ds: "disjoint_blocks lo n ?src (Suc (length s))"
    and da: "disjoint_blocks lo n (argv + 4 * of_nat ?i) 4"
    using snoc.prems(1) by (simp_all add: args_readable_snoc)
  have s32: "length s < 2 ^ 32" using len snoc.prems(6) S by simp
  have ne: "0 < length ?B" using snoc.prems(4) by simp
  have out: "wr_bytes m a ?B x = m x" if "disjoint_blocks lo n b k" "in_block b k x" for b k x
  proof -
    have "disjoint_blocks a (length ?B) b k"
      by (subst a, rule disjoint_blocks_part [OF that(1) _ ne]) (use len in simp)
    from wr_bytes_outside [OF this _ _ that(2)] show ?thesis using len snoc.prems(6) by simp
  qed
  have src: "rd32 (wr_bytes m a ?B) (argv + 4 * of_nat ?i) = ?src"
    using out [OF da] by (intro rd32_frame) simp
  have str: "cstr (wr_bytes m a ?B) ?src s"
  proof -
    have "cstr (wr_bytes m a ?B) ?src s = cstr m ?src s"
      by (rule cstr_frame [OF _ s32]) (rule out [OF ds])
    with rd show ?thesis by blast
  qed
  define L where "L = a - (of_nat (length s) + 1)"
  have un: "unat (of_nat (length s) + 1 :: u32) = Suc (length s)"
  proof -
    have "Suc (length s) < 2 ^ 32" using len S snoc.prems(6) by linarith
    then have "unat (of_nat (Suc (length s)) :: u32) = Suc (length s)" unfolding unat_of_nat by simp
    then show ?thesis by (simp only: of_nat_Suc add.commute)
  qed
  have lo': "L = lo + of_nat (length (arg_strings us))"
    using snoc.prems(2) S by (simp add: L_def)
  have "disjoint_blocks L (length s + 1) ?src (Suc (length s))"
    unfolding lo' by (rule disjoint_blocks_part [OF ds]) (use len S in simp_all)
  then have "Suc (length s) \<le> unat (L - ?src)" by (simp add: disjoint_blocks_def)
  then have cp: "memcpy_loop (wr_bytes m a ?B) L ?src (Suc (length s))
      = wr_bytes (wr_bytes m a ?B) L (s @ [0])"
    using memcpy_loop_forward [of L ?src "Suc (length s)" "wr_bytes m a ?B"] s32 str
    by (simp only: cstr_iff) simp
  have st: "wr32 (wr_bytes (wr_bytes m a ?B) L (s @ [0])) (ac + 4 * of_nat ?i) L =
      wr_bytes m L (args_block L (s # ss2) (take (4 * ?i) old) rest)"
    by (rule copy_args_step) (use snoc.prems(3,4,6) len S in \<open>simp_all add: L_def add.commute\<close>)
  have stp: "copy_args_loop (Suc ?i) (wr_bytes m a ?B) argv ac a =
      copy_args_loop ?i (wr_bytes m L (args_block L (s # ss2) (take (4 * ?i) old) rest)) argv ac L"
    unfolding copy_args_loop.simps(2) src Let_def strlen_cstr [OF str] memcpy_def option.case snd_conv
      L_def [symmetric] un cp st by (rule refl)
  have "args_readable m argv us lo n"
    using snoc.prems(1) by (simp add: args_readable_snoc)
  moreover have "lo = L - of_nat (length (arg_strings us))" using lo' by simp
  moreover have "ac = L + of_nat (length (arg_strings (s # ss2)))" using snoc.prems(3) by (simp add: L_def)
  ultimately have "copy_args_loop ?i (wr_bytes m L (args_block L (s # ss2) (take (4 * ?i) old) rest)) argv ac L =
      Some (lo, wr_bytes m lo (args_block lo (us @ s # ss2) [] rest))"
    by (rule snoc.IH) (use snoc.prems(4,5,6) S in simp_all)
  then show ?case using stp by simp
qed

lemma and_not_unchanged:
  fixes z w :: "'a::len word"
  assumes "z AND w = 0"
  shows "z AND NOT w = z"
proof (rule bit_word_eqI)
  fix n assume n: "n < LENGTH('a)"
  have "\<not> bit (z AND w) n" using assms by simp
  then show "bit (z AND NOT w) n = bit z n" using n by (auto simp: bit_simps)
qed

lemma aligned_minus:
  fixes x :: u32
  assumes "4 dvd uint x"
  shows "(x - 4 * y) AND NOT 3 = x - 4 * y"
proof -
  let ?z = "x - 4 * y"
  have "uint ?z = (uint x - (4 * uint y) mod 2 ^ 32) mod 2 ^ 32"
    by (simp add: uint_word_ariths)
  moreover have "(4 :: int) dvd (uint x - (4 * uint y) mod 2 ^ 32) mod 2 ^ 32"
    using assms by (simp add: dvd_mod)
  ultimately have "(4 :: int) dvd uint ?z" by simp
  then have "uint ?z mod 2 ^ 2 = 0" by simp
  then have "take_bit 2 ?z = 0"
    by (metis take_bit_eq_mod uint_0_iff unsigned_take_bit_eq)
  then have "?z AND 3 = 0" by (simp add: take_bit_eq_mask mask_eq_exp_minus_1 numeral_2_eq_2)
  then show ?thesis by (rule and_not_unchanged)
qed

lemma copy_args_block:
  assumes rd: "args_readable m argv ss lo (length (arg_strings ss) + 4 * Suc (length ss))"
    and lo: "lo = hi - of_nat (length (arg_strings ss) + 4 * Suc (length ss))"
    and small: "length (arg_strings ss) + 4 * Suc (length ss) < 2 ^ 31" and al: "4 dvd uint hi"
  shows "copy_args_into_slot m hi (of_nat (length ss)) argv =
    Some (lo, hi - 4 * of_nat (Suc (length ss)),
      wr_bytes m lo (arg_strings ss @ concat (map be32 (arg_addrs lo ss)) @ be32 0))"
proof -
  let ?n = "length ss"
  let ?ac = "hi - 4 * of_nat (Suc ?n)"
  let ?old = "rd_bytes m ?ac (4 * ?n)" and ?rest = "rd_bytes m (?ac + of_nat (4 * ?n)) 4"
  have ac: "(hi - (of_nat ?n + 1) * 4) AND NOT 3 = ?ac"
    using aligned_minus [OF al, of "of_nat (Suc ?n)"] by (simp add: mult.commute add.commute)
  have id: "wr_bytes m ?ac (args_block ?ac [] ?old ?rest) = m"
    using small wr_bytes_rd_bytes [of "4 * ?n + 4" m ?ac] by (simp add: args_block_def rd_bytes_append)
  have sn: "nat (sint (of_nat ?n :: u32)) = ?n"
    using small by (simp add: signed_of_nat signed_take_bit_int_eq_self)
  have "copy_args_loop ?n (wr_bytes m ?ac (args_block ?ac [] ?old ?rest)) argv ?ac ?ac =
      Some (lo, wr_bytes m lo (args_block lo (ss @ []) [] ?rest))"
    by (rule copy_args_loop_block [OF rd]) (use small in \<open>simp_all add: lo algebra_simps\<close>)
  then have loop: "copy_args_loop ?n m argv ?ac ?ac = Some (lo, wr_bytes m lo (args_block lo ss [] ?rest))"
    unfolding id by simp
  have pos: "?ac + 4 * of_nat ?n = lo + of_nat (length (arg_strings ss @ concat (map be32 (arg_addrs lo ss))))"
    by (simp add: lo)
  have blk: "args_block lo ss [] ?rest = (arg_strings ss @ concat (map be32 (arg_addrs lo ss))) @ ?rest @ []"
    by (simp add: args_block_def)
  have "wr32 (wr_bytes m lo (args_block lo ss [] ?rest)) (?ac + 4 * of_nat ?n) 0 =
      wr_bytes m lo (arg_strings ss @ concat (map be32 (arg_addrs lo ss)) @ be32 0)"
    unfolding wr32_def pos blk by (subst wr_bytes_part) (use small in simp_all)
  then show ?thesis
    unfolding copy_args_into_slot_def Let_def ac sn loop by (simp only: option.case prod.case)
qed

lemma rd32_be32s:
  assumes "i < length vs" "length (xs @ concat (map be32 vs) @ ys) \<le> 2 ^ 32"
  shows "rd32 (wr_bytes m a (xs @ concat (map be32 vs) @ ys)) (a + of_nat (length xs) + 4 * of_nat i) = vs ! i"
proof (rule rd32_wr_part)
  have "concat (map be32 vs) = concat (map be32 (take i vs)) @ be32 (vs ! i) @ concat (map be32 (drop (Suc i) vs))"
    using assms(1) by (metis concat.simps(2) concat_append id_take_nth_drop list.simps(9) map_append)
  then show "xs @ concat (map be32 vs) @ ys =
      (xs @ concat (map be32 (take i vs))) @ be32 (vs ! i) @ concat (map be32 (drop (Suc i) vs)) @ ys" by simp
  show "a + of_nat (length xs) + 4 * of_nat i = a + of_nat (length (xs @ concat (map be32 (take i vs))))"
    using assms(1) by simp
qed (rule assms(2))

lemma cstr_arg_strings:
  "i < length ss \<Longrightarrow> \<forall>s \<in> set ss. 0 \<notin> set s \<Longrightarrow> length (arg_strings ss @ ys) \<le> 2 ^ 32 \<Longrightarrow>
     cstr (wr_bytes m a (arg_strings ss @ ys)) (arg_addrs a ss ! i) (ss ! i)"
proof (induction ss arbitrary: i m a)
  case Nil
  then show ?case by simp
next
  case (Cons s ss)
  show ?case
  proof (cases i)
    case 0
    with Cons.prems cstr_wr_prefix [of s "arg_strings ss @ ys" m a] show ?thesis by simp
  next
    case (Suc j)
    have "wr_bytes m a (arg_strings (s # ss) @ ys) =
        wr_bytes (wr_bytes m a (s @ [0])) (a + of_nat (length s + 1)) (arg_strings ss @ ys)"
      using wr_bytes_append [of m a "s @ [0]" "arg_strings ss @ ys"] by simp
    with Suc Cons show ?thesis by (simp del: wr_bytes.simps add: wr_bytes_append)
  qed
qed

section \<open>The frame\<close>

text \<open>The registers of the new task, D0 to D7 and A0 to A6, as they are restored.\<close>

definition new_regs :: "u32 \<Rightarrow> u32 list" where
  "new_regs got = (replicate 15 0)[1 := got]"

definition elf_frame :: "u32 \<Rightarrow> u32 \<Rightarrow> u32 \<Rightarrow> u32 \<Rightarrow> u8 list" where
  "elf_frame got pc argc argv_copy =
     concat (map be32 (new_regs got)) @ be16 0x2000 @ be32 pc @ be32 0xDEADBEEF @ be32 argc @ be32 argv_copy"

lemma length_elf_frame [simp]: "length (elf_frame got pc argc argv_copy) = 78"
  by (simp add: elf_frame_def new_regs_def)

lemma elf_frame_stores:
  "(let m2 = wr32 m (sp - 4) argv_copy;
        m3 = wr32 m2 (sp - 8) argc;
        m4 = wr32 m3 (sp - 12) 0xDEADBEEF;
        m5 = wr16 m4 (sp - 18) 0x2000;
        m6 = wr32 m5 (sp - 16) pc;
        m7 = memset m6 (sp - 18 - 60) 0 60
    in wr32 m7 (sp - 18 - 60 + 4) got) = wr_bytes m (sp - 78) (elf_frame got pc argc argv_copy)"
proof -
  let ?b1 = "be32 argv_copy" let ?b2 = "be32 argc @ ?b1" let ?b3 = "be32 0xDEADBEEF @ ?b2"
  let ?b4 = "be32 pc @ ?b3" let ?b5 = "be16 0x2000 @ ?b4"
  have 2: "wr32 (wr_bytes m (sp - 4) ?b1) (sp - 8) argc = wr_bytes m (sp - 8) ?b2"
    using wr_bytes_below [of "be32 argc" ?b1 m "sp - 4"] by (simp add: wr32_def)
  have 3: "wr32 (wr_bytes m (sp - 8) ?b2) (sp - 12) 0xDEADBEEF = wr_bytes m (sp - 12) ?b3"
    using wr_bytes_below [of "be32 0xDEADBEEF" ?b2 m "sp - 8"] by (simp add: wr32_def)
  have sw: "wr32 (wr16 n (sp - 18) 0x2000) (sp - 16) pc = wr16 (wr32 n (sp - 16) pc) (sp - 18) 0x2000" for n
    unfolding wr16_def wr32_def
  proof (rule wr_bytes_commute)
    fix x assume "in_block (sp - 18) (length (be16 0x2000)) x"
    then show "\<not> in_block (sp - 16) (length (be32 pc)) x"
      using in_block_adjacent [of "sp - 16" 4 x 2] by auto
  qed simp_all
  have 4: "wr32 (wr_bytes m (sp - 12) ?b3) (sp - 16) pc = wr_bytes m (sp - 16) ?b4"
    using wr_bytes_below [of "be32 pc" ?b3 m "sp - 12"] by (simp add: wr32_def)
  have 5: "wr16 (wr_bytes m (sp - 16) ?b4) (sp - 18) 0x2000 = wr_bytes m (sp - 18) ?b5"
    using wr_bytes_below [of "be16 0x2000" ?b4 m "sp - 16"] by (simp add: wr16_def)
  have 6: "memset (wr_bytes m (sp - 18) ?b5) (sp - 18 - 60) 0 60 = wr_bytes m (sp - 78) (replicate 60 0 @ ?b5)"
    using wr_bytes_below [of "replicate 60 0" ?b5 m "sp - 18"] by (simp add: memset_def memset_loop_block)
  have sp: "replicate 60 0 @ ?b5 = replicate 4 0 @ replicate 4 0 @ (replicate 52 0 @ ?b5)"
    by (simp flip: replicate_add append_assoc)
  have 7: "wr32 (wr_bytes m (sp - 78) (replicate 60 0 @ ?b5)) (sp - 18 - 60 + 4) got =
      wr_bytes m (sp - 78) (replicate 4 0 @ be32 got @ (replicate 52 0 @ ?b5))"
    using wr_bytes_part [of "be32 got" "replicate 4 0" "replicate 4 0" "replicate 52 0 @ ?b5" m "sp - 78"]
    unfolding sp by (simp add: wr32_def)
  have 8: "replicate 4 0 @ be32 got @ (replicate 52 0 @ ?b5) = elf_frame got pc argc argv_copy"
    by (simp add: elf_frame_def new_regs_def be32_zero numeral_eq_Suc)
  show ?thesis
    unfolding Let_def sw using 2 3 4 5 6 7 8 by (simp add: wr32_def)
qed

lemma restore_elf_frame:
  "restore_context (wr_bytes m a (elf_frame got pc argc argv_copy)) a =
     \<lparr>c_regs = new_regs got, c_sr = 0x2000, c_pc = pc, c_a7 = a + 66\<rparr>"
  by (rule restore_block [where rest = "be32 0xDEADBEEF @ be32 argc @ be32 argv_copy"])
    (simp_all add: new_regs_def elf_frame_def)

lemma elf_frame_call:
  "rd32 (wr_bytes m a (elf_frame got pc argc argv_copy)) (a + 66) = 0xDEADBEEF \<and>
   rd32 (wr_bytes m a (elf_frame got pc argc argv_copy)) (a + 70) = argc \<and>
   rd32 (wr_bytes m a (elf_frame got pc argc argv_copy)) (a + 74) = argv_copy"
proof (intro conjI)
  let ?p = "concat (map be32 (new_regs got)) @ be16 0x2000 @ be32 pc"
  have l: "length ?p = 66" by (simp add: new_regs_def)
  show "rd32 (wr_bytes m a (elf_frame got pc argc argv_copy)) (a + 66) = 0xDEADBEEF"
    by (rule rd32_wr_part [of _ ?p _ "be32 argc @ be32 argv_copy"])
      (use l in \<open>simp_all add: elf_frame_def\<close>)
  show "rd32 (wr_bytes m a (elf_frame got pc argc argv_copy)) (a + 70) = argc"
    by (rule rd32_wr_part [of _ "?p @ be32 0xDEADBEEF" _ "be32 argv_copy"])
      (use l in \<open>simp_all add: elf_frame_def\<close>)
  show "rd32 (wr_bytes m a (elf_frame got pc argc argv_copy)) (a + 74) = argv_copy"
    by (rule rd32_wr_part [of _ "?p @ be32 0xDEADBEEF @ be32 argc" _ "[]"])
      (use l in \<open>simp_all add: elf_frame_def\<close>)
qed

lemma arg_addrs_nth:
  "i < length ss \<Longrightarrow> arg_addrs a ss ! i = a + of_nat (length (arg_strings (take i ss))) \<and>
     length (arg_strings (take i ss)) + Suc (length (ss ! i)) \<le> length (arg_strings ss)"
proof (induction ss arbitrary: a i)
  case Nil
  then show ?case by simp
next
  case (Cons s ss)
  then show ?case by (cases i) (simp_all add: algebra_simps)
qed

lemma dvd_uint_add:
  fixes x y :: u32
  assumes "4 dvd uint x"
  shows "4 dvd uint (x + 4 * y)"
proof -
  have "uint (x + 4 * y) = (uint x + (4 * uint y) mod 2 ^ 32) mod 2 ^ 32"
    by (simp add: uint_word_ariths)
  moreover have "(4 :: int) dvd (uint x + (4 * uint y) mod 2 ^ 32) mod 2 ^ 32"
    using assms by (simp add: dvd_mod)
  ultimately show ?thesis by simp
qed

lemma slot_aligned:
  assumes "4 dvd uint (task_base :: u32)"
  shows "4 dvd uint (task_base + SLOT_SIZE)"
    "(task_base + SLOT_SIZE - ARGS_AREA_SIZE) AND NOT 3 = task_base + SLOT_SIZE - 512"
proof -
  show "4 dvd uint (task_base + SLOT_SIZE)"
    using dvd_uint_add [OF assms, of "0x10000"] by (simp add: SLOT_SIZE_def)
  from aligned_minus [OF this, of 128]
  show "(task_base + SLOT_SIZE - ARGS_AREA_SIZE) AND NOT 3 = task_base + SLOT_SIZE - 512"
    by (simp add: ARGS_AREA_SIZE_def)
qed

lemma restore_context_frame:
  assumes "\<And>x. in_block sp 66 x \<Longrightarrow> m x = m' x"
  shows "restore_context m sp = restore_context m' sp"
proof -
  have same: "m (sp + of_nat i) = m' (sp + of_nat i)" if "i < 66" for i
    using that by (intro assms) (simp add: in_block_def unat_of_nat)
  have "rd32 m (sp + 4 * of_nat i) = rd32 m' (sp + 4 * of_nat i)" if "i < 15" for i
    using that same [of "4 * i"] same [of "4 * i + 1"] same [of "4 * i + 2"] same [of "4 * i + 3"]
    by (simp add: rd32_def ac_simps)
  then have r: "map (\<lambda>i. rd32 m (sp + 4 * of_nat i)) [0..<15] = map (\<lambda>i. rd32 m' (sp + 4 * of_nat i)) [0..<15]"
    by simp
  have "rd16 m (sp + 60) = rd16 m' (sp + 60)"
    using same [of 60] same [of 61] by (simp add: rd16_def add.assoc)
  moreover have "rd32 m (sp + 62) = rd32 m' (sp + 62)"
    using same [of 62] same [of 63] same [of 64] same [of 65] by (simp add: rd32_def add.assoc)
  ultimately show ?thesis unfolding restore_context_def by (simp only: r)
qed

text \<open>The task block is written last; the slot keeps arguments and frame.\<close>

lemma Task_CreateFromElf_memory:
  assumes km: "kmalloc 12 m0 = (tcb, m)" "tcb \<noteq> 0"
    and n: "T = length (arg_strings ss) + 4 * Suc (length ss)" "T \<le> 512"
    and lo: "lo = task_base + SLOT_SIZE - of_nat T"
    and rd: "args_readable m argv ss lo T" and al: "4 dvd uint task_base"
  shows "Task_CreateFromElf kmalloc m0 task_base entry got (of_nat (length ss)) argv = Some (tcb,
    wr_bytes (wr_bytes (wr_bytes m lo (arg_strings ss @ concat (map be32 (arg_addrs lo ss)) @ be32 0))
      (task_base + SLOT_SIZE - 590)
      (elf_frame (task_base + got) (task_base + entry) (of_nat (length ss)) (lo + of_nat (length (arg_strings ss)))))
      tcb (be32 (task_base + SLOT_SIZE - 590) @ be32 0 @ be32 0))"
proof -
  let ?hi = "task_base + SLOT_SIZE" and ?n = "length ss"
  let ?m1 = "wr_bytes m lo (arg_strings ss @ concat (map be32 (arg_addrs lo ss)) @ be32 0)"
  let ?ac = "?hi - 4 * of_nat (Suc ?n)" and ?sp = "?hi - 512"
  have ca: "copy_args_into_slot m ?hi (of_nat ?n) argv = Some (lo, ?ac, ?m1)"
    by (rule copy_args_block) (use rd n lo slot_aligned [OF al] in simp_all)
  have ac: "?ac = lo + of_nat (length (arg_strings ss))" using n lo by simp
  have fr: "wr32 (memset (wr32 (wr16 (wr32 (wr32 (wr32 ?m1 (?sp - 4) ?ac) (?sp - 8) (of_nat ?n)) (?sp - 12) 0xDEADBEEF)
        (?sp - 18) 0x2000) (?sp - 16) (task_base + entry)) (?sp - 18 - 60) 0 60) (?sp - 18 - 60 + 4) (task_base + got)
      = wr_bytes ?m1 (?sp - 78) (elf_frame (task_base + got) (task_base + entry) (of_nat ?n) ?ac)"
    using elf_frame_stores [of ?m1 ?sp ?ac "of_nat ?n" "task_base + entry" "task_base + got"]
    unfolding Let_def .
  have tc: "wr32 (wr32 (wr32 M tcb R) (tcb + 4) 0) (tcb + 8) 0 = wr_bytes M tcb (be32 R @ be32 0 @ be32 0)" for M R
    by (simp add: wr32_def wr_bytes_append add.assoc)
  have nums: "of_nat (REGBLK_NREGS * 4) = (60 :: u32)" "4 * of_nat REGBLK_A5 = (4 :: u32)"
    by (simp_all add: REGBLK_NREGS_def REGBLK_A5_def)
  have "Task_CreateFromElf kmalloc m0 task_base entry got (of_nat ?n) argv = Some (tcb,
      wr_bytes (wr_bytes ?m1 (?sp - 78) (elf_frame (task_base + got) (task_base + entry) (of_nat ?n) ?ac))
        tcb (be32 (?sp - 18 - 60) @ be32 0 @ be32 0))"
    unfolding Task_CreateFromElf_def km prod.case Let_def slot_aligned(2) [OF al] ca option.case nums fr tc
    using km(2) by (simp only: if_False)
  moreover have "?sp - 78 = ?hi - 590" "?sp - 18 - 60 = ?hi - 590" by simp_all
  ultimately show ?thesis unfolding ac by (simp only:)
qed

section \<open>Properties\<close>

text \<open>
  C10: a task created from a loaded program, when its arguments fit in the 512 bytes
  reserved for them, starts at its entry point in supervisor mode; the words at its stack
  pointer are the marker return address, \<open>argc\<close> and \<open>argv\<close>; \<open>argv\<close> is a null-terminated array
  of pointers to copies of the arguments inside the slot.  Its GOT address is restored into
  D1, the second register of the block, while A5, which position-independent code needs it
  in, starts as zero.
\<close>

theorem elf_task_starts_with_arguments:
  assumes km: "kmalloc 12 m0 = (tcb, m)" "tcb \<noteq> 0"
    and n: "T = length (arg_strings ss) + 4 * Suc (length ss)" "T \<le> 512"
    and lo: "lo = task_base + SLOT_SIZE - of_nat T"
    and rd: "args_readable m argv ss lo T" and al: "4 dvd uint task_base"
    and tcb: "disjoint_blocks (task_base + SLOT_SIZE - 590) 590 tcb 12"
  shows "\<exists>m' argv'. Task_CreateFromElf kmalloc m0 task_base entry got (of_nat (length ss)) argv = Some (tcb, m') \<and>
    (let c = restore_context m' (rd32 m' tcb) in
      c_pc c = task_base + entry \<and> c_sr c = 0x2000 \<and>
      rd32 m' (c_a7 c) = 0xDEADBEEF \<and> rd32 m' (c_a7 c + 4) = of_nat (length ss) \<and> rd32 m' (c_a7 c + 8) = argv' \<and>
      (\<forall>i < length ss. cstr m' (rd32 m' (argv' + 4 * of_nat i)) (ss ! i)) \<and>
      rd32 m' (argv' + 4 * of_nat (length ss)) = 0 \<and>
      c_regs c ! 1 = task_base + got \<and> c_regs c ! 13 = 0)"
proof -
  let ?hi = "task_base + SLOT_SIZE" and ?n = "length ss"
  define argv' where "argv' = lo + of_nat (length (arg_strings ss))"
  define A where "A = arg_strings ss @ concat (map be32 (arg_addrs lo ss)) @ be32 0"
  define sp where "sp = ?hi - 590"
  define F where "F = elf_frame (task_base + got) (task_base + entry) (of_nat ?n) argv'"
  define m1 where "m1 = wr_bytes m lo A"
  define m2 where "m2 = wr_bytes m1 sp F"
  define m' where "m' = wr_bytes m2 tcb (be32 sp @ be32 0 @ be32 0)"
  have r: "Task_CreateFromElf kmalloc m0 task_base entry got (of_nat ?n) argv = Some (tcb, m')"
    using Task_CreateFromElf_memory [where entry = entry and got = got, of kmalloc m0 tcb m T ss lo task_base argv] km n lo rd al
    by (simp add: m'_def m2_def m1_def A_def F_def argv'_def sp_def)
  have lA: "length A = T" using n by (simp add: A_def)
  have keep: "m' x = m2 x" if "in_block sp 590 x" for x
    using disjoint_blocksD [OF tcb, of x] that by (simp add: m'_def sp_def wr_bytes_frame)
  have lo': "lo = sp + of_nat (590 - T)" "lo = (sp + 78) + of_nat (512 - T)"
    using lo n(2) by (simp_all add: sp_def of_nat_diff)
  have keepA: "m' x = m1 x" if x: "in_block lo T x" for x
  proof -
    have "in_block sp 590 x" using n(2) by (intro in_block_part [OF x [unfolded lo'(1)]]) simp_all
    moreover have "in_block (sp + 78) 512 x" using n(2) by (intro in_block_part [OF x [unfolded lo'(2)]]) simp_all
    then have "\<not> in_block sp (length F) x" using in_block_adjacent [of "sp + 78" 512 x 78] by (simp add: F_def)
    ultimately show ?thesis using keep by (simp add: m2_def wr_bytes_frame F_def)
  qed
  have pt: "rd32 m' tcb = sp"
    unfolding m'_def by (rule rd32_wr_part [of _ "[]" _ "be32 0 @ be32 0"]) simp_all
  have c: "restore_context m' sp = \<lparr>c_regs = new_regs (task_base + got), c_sr = 0x2000, c_pc = task_base + entry, c_a7 = sp + 66\<rparr>"
    using restore_context_frame [of sp m' m2] keep restore_elf_frame [of m1 sp]
    by (simp add: m2_def F_def in_block_def)
  have fr: "rd32 m' (sp + of_nat k) = rd32 m2 (sp + of_nat k)" if "k + 4 \<le> 590" for k
    by (rule rd32_frame, rule keep, rule in_block_part [of _ k 4]) (use that in simp_all)
  have call: "rd32 m' (sp + 66) = 0xDEADBEEF \<and> rd32 m' (sp + 70) = of_nat ?n \<and> rd32 m' (sp + 74) = argv'"
    using elf_frame_call [of m1 sp] fr [of 66] fr [of 70] fr [of 74] by (simp add: m2_def F_def)
  have frA: "rd32 m' (lo + of_nat k) = rd32 m1 (lo + of_nat k)" if "k + 4 \<le> T" for k
    by (rule rd32_frame, rule keepA, rule in_block_part [of _ k 4]) (use that n in simp_all)
  have lenA: "length (arg_strings ss) + 4 * ?n + 4 = T" using n(1) by simp
  have arr: "cstr m' (rd32 m' (argv' + 4 * of_nat i)) (ss ! i)" if i: "i < ?n" for i
  proof -
    have pos: "argv' + 4 * of_nat i = lo + of_nat (length (arg_strings ss) + 4 * i)"
      by (simp add: argv'_def)
    have "rd32 m' (argv' + 4 * of_nat i) = rd32 m1 (lo + of_nat (length (arg_strings ss)) + 4 * of_nat i)"
      unfolding pos using frA [of "length (arg_strings ss) + 4 * i"] lenA i by (simp add: add.assoc)
    also have "\<dots> = arg_addrs lo ss ! i"
      unfolding m1_def A_def by (rule rd32_be32s) (use i n lenA in simp_all)
    finally have p: "rd32 m' (argv' + 4 * of_nat i) = arg_addrs lo ss ! i" .
    have nz: "\<forall>s \<in> set ss. 0 \<notin> set s"
    proof
      fix s assume "s \<in> set ss"
      then obtain j where "j < ?n" "s = ss ! j" by (auto simp: in_set_conv_nth)
      with rd show "0 \<notin> set s" unfolding args_readable_def using cstr_nonzero by blast
    qed
    have "cstr m1 (arg_addrs lo ss ! i) (ss ! i)"
      unfolding m1_def A_def by (rule cstr_arg_strings [OF i nz]) (use n lenA in simp)
    moreover have "cstr m' (arg_addrs lo ss ! i) (ss ! i) = cstr m1 (arg_addrs lo ss ! i) (ss ! i)"
    proof (rule cstr_frame)
      note pi = arg_addrs_nth [OF i, of lo]
      show "length (ss ! i) < 2 ^ 32" using pi n by simp
      fix x assume x: "in_block (arg_addrs lo ss ! i) (Suc (length (ss ! i))) x"
      show "m' x = m1 x"
        by (rule keepA, rule in_block_part [of _ "length (arg_strings (take i ss))" "Suc (length (ss ! i))"])
          (use x pi n in simp_all)
    qed
    ultimately show ?thesis unfolding p by simp
  qed
  have endp: "rd32 m' (argv' + 4 * of_nat ?n) = 0"
  proof -
    have pos: "argv' + 4 * of_nat ?n = lo + of_nat (length (arg_strings ss) + 4 * ?n)" by (simp add: argv'_def)
    have "rd32 m1 (lo + of_nat (length (arg_strings ss) + 4 * ?n)) = 0"
      unfolding m1_def A_def by (rule rd32_wr_part [of _ "arg_strings ss @ concat (map be32 (arg_addrs lo ss))" _ "[]"])
        (use n lenA in simp_all)
    then show ?thesis unfolding pos using frA [of "length (arg_strings ss) + 4 * ?n"] lenA by simp
  qed
  have regs: "new_regs g ! 1 = g \<and> new_regs g ! 13 = 0" for g
    by (simp add: new_regs_def)
  show ?thesis
    by (intro exI [of _ m'] exI [of _ argv']) (use r pt c call arr endp regs in \<open>simp add: add.assoc\<close>)
qed

definition demo_args :: mem where
  "demo_args = (\<lambda>_. 0)(0x1002 := 0x10, 0x1003 := 0x10, 0x1010 := 97)"

theorem elf_task_starts_with_arguments_witness:
  "\<exists>m' argv'. Task_CreateFromElf (\<lambda>_ m. (0x900, m)) demo_args 0x40000 0x80 0x200 1 0x1000 = Some (0x900, m') \<and>
    c_pc (restore_context m' (rd32 m' 0x900)) = 0x40080 \<and> cstr m' (rd32 m' argv') [97]"
proof -
  have rd: "args_readable demo_args 0x1000 [[97]] 0x7FFF6 10"
    by (simp add: args_readable_def demo_args_def rd32_def of_be32_def disjoint_blocks_def)
  have "\<exists>m' argv'. Task_CreateFromElf (\<lambda>_ m. (0x900, m)) demo_args 0x40000 0x80 0x200 (of_nat (length [[97 :: u8]])) 0x1000 =
      Some (0x900, m') \<and>
    (let c = restore_context m' (rd32 m' 0x900) in
      c_pc c = 0x40000 + 0x80 \<and> c_sr c = 0x2000 \<and>
      rd32 m' (c_a7 c) = 0xDEADBEEF \<and> rd32 m' (c_a7 c + 4) = of_nat (length [[97 :: u8]]) \<and> rd32 m' (c_a7 c + 8) = argv' \<and>
      (\<forall>i < length [[97 :: u8]]. cstr m' (rd32 m' (argv' + 4 * of_nat i)) ([[97]] ! i)) \<and>
      rd32 m' (argv' + 4 * of_nat (length [[97 :: u8]])) = 0 \<and>
      c_regs c ! 1 = 0x40000 + 0x200 \<and> c_regs c ! 13 = 0)"
    by (rule elf_task_starts_with_arguments [OF _ _ _ _ _ rd])
      (simp_all add: SLOT_SIZE_def disjoint_blocks_def)
  then show ?thesis by (auto simp: Let_def)
qed

end
