(* ===== verification/VfsDrivers.thy ===== *)
theory VfsDrivers
  imports NumConv
begin

text \<open>
  The drivers of the shell's virtual file system: \<^verbatim>\<open>vfs_null.c\<close>, \<^verbatim>\<open>vfs_zero.c\<close>, \<^verbatim>\<open>vfs_tty.c\<close>,
  \<^verbatim>\<open>vfs_serial.c\<close>, \<^verbatim>\<open>vfs_proc.c\<close> and \<^verbatim>\<open>vfs_fat.c\<close> of \<^verbatim>\<open>apps/shell\<close>.  A \<open>File *\<close> is a number in a
  heap of \<open>File\<close> objects (\<open>None\<close> there: freed), a function pointer the name of the function.
  Buffers lie in the flat memory.  Of the allocator only the number of allocations that still
  succeed is kept.  FatFs, which the drivers reach through \<open>trap #12\<close>, is the argument \<open>fat\<close>, a
  record of its functions over its own state.  Every function returns an option: \<open>None\<close> is
  an access through a freed or null pointer, or a wait for a device that never ends.
\<close>

section \<open>Data\<close>

datatype read_fn = null_read_fn | zero_read_fn | tty_read_fn | serial_read_fn | proc_read_fn | fat_read_fn
datatype write_fn = null_write_fn | zero_write_fn | tty_write_fn | serial_write_fn | fat_write_fn
datatype close_fn = null_close_fn | zero_close_fn | tty_close_fn | serial_close_fn | proc_close_fn | fat_close_fn
datatype ioctl_fn = tty_ioctl_fn
datatype lseek_fn = null_lseek_fn | zero_lseek_fn | tty_lseek_fn | serial_lseek_fn | proc_lseek_fn | fat_lseek_fn

text \<open>\<open>ProcData\<close>; its text is \<open>None\<close> where \<open>strdup\<close> had no memory left.\<close>

record proc_data =
  pd_data :: "u8 list option"
  pd_size :: u32
  pd_position :: u32

text \<open>\<open>FatPrivate\<close>; the \<open>FIL\<close> object is known by a number.\<close>

record fat_private =
  fp_fat_file :: nat
  fp_mode :: u8
  fp_size :: u32

datatype private_data = NoPrivate | ProcPrivate proc_data | FatPrivate fat_private

record vfile =
  f_name :: "u8 list option"
  f_type :: int
  f_position :: u32
  f_ref_count :: int
  f_private :: private_data
  f_read :: "read_fn option"
  f_write :: "write_fn option"
  f_close :: "close_fn option"
  f_ioctl :: "ioctl_fn option"
  f_lseek :: "lseek_fn option"

text \<open>The functions of FatFs the driver calls; the first component of a result is the \<open>FRESULT\<close>.\<close>

record 'fs fatfs =
  ff_open :: "nat \<Rightarrow> u8 list \<Rightarrow> u8 \<Rightarrow> 'fs \<Rightarrow> u8 \<times> 'fs"
  ff_close :: "nat \<Rightarrow> 'fs \<Rightarrow> u8 \<times> 'fs"
  ff_read :: "nat \<Rightarrow> u32 \<Rightarrow> 'fs \<Rightarrow> u8 \<times> u8 list \<times> 'fs"
  ff_write :: "nat \<Rightarrow> u8 list \<Rightarrow> 'fs \<Rightarrow> u8 \<times> u32 \<times> 'fs"
  ff_lseek :: "nat \<Rightarrow> u32 \<Rightarrow> 'fs \<Rightarrow> u8 \<times> 'fs"
  ff_tell :: "nat \<Rightarrow> 'fs \<Rightarrow> u32"
  ff_size :: "nat \<Rightarrow> 'fs \<Rightarrow> u32"

definition FR_OK :: u8 where "FR_OK = 0"
definition FA_READ :: u8 where "FA_READ = 0x01"
definition FA_WRITE :: u8 where "FA_WRITE = 0x02"
definition FA_CREATE_ALWAYS :: u8 where "FA_CREATE_ALWAYS = 0x08"
definition FA_OPEN_APPEND :: u8 where "FA_OPEN_APPEND = 0x30"

definition O_RDONLY :: u32 where "O_RDONLY = 0x01"
definition O_WRONLY :: u32 where "O_WRONLY = 0x02"
definition O_RDWR :: u32 where "O_RDWR = 0x03"
definition O_CREAT :: u32 where "O_CREAT = 0x04"
definition O_TRUNC :: u32 where "O_TRUNC = 0x08"
definition O_APPEND :: u32 where "O_APPEND = 0x10"

definition TIOC_CLEAR :: int where "TIOC_CLEAR = 1"

text \<open>
  The state: heap, descriptor table, memory, console and serial line.  \<open>v_in\<close> are the bytes
  the console will still deliver, \<open>s_lsr\<close> the values successive reads of the line status
  register give, \<open>s_rx\<close> those of the receive register.
\<close>

record 'fs vfs =
  v_files :: "nat \<Rightarrow> vfile option"
  v_fresh :: nat
  v_avail :: nat
  fd_table :: "int \<Rightarrow> nat option"
  fd_count :: int
  v_mem :: mem
  v_in :: "u8 list"
  v_out :: "u8 list"
  s_lsr :: "u8 list"
  s_rx :: "u8 list"
  s_tx :: "u8 list"
  proc_uptime :: u32
  v_fs :: 'fs

text \<open>\<open>malloc\<close> and \<open>free\<close> as far as the drivers see them.\<close>

definition v_malloc :: "'fs vfs \<Rightarrow> (nat \<times> 'fs vfs) option" where
  "v_malloc st = (if v_avail st = 0 then None
     else Some (v_fresh st, st\<lparr>v_fresh := Suc (v_fresh st), v_avail := v_avail st - 1\<rparr>))"

definition v_free :: "'fs vfs \<Rightarrow> 'fs vfs" where
  "v_free st = st\<lparr>v_avail := Suc (v_avail st)\<rparr>"

definition set_file :: "nat \<Rightarrow> vfile \<Rightarrow> 'fs vfs \<Rightarrow> 'fs vfs" where
  "set_file f x st = st\<lparr>v_files := (v_files st)(f := Some x)\<rparr>"

definition v_putchar :: "u8 \<Rightarrow> 'fs vfs \<Rightarrow> 'fs vfs" where
  "v_putchar c st = st\<lparr>v_out := v_out st @ [c]\<rparr>"

definition v_print :: "u8 list \<Rightarrow> 'fs vfs \<Rightarrow> 'fs vfs" where
  "v_print s st = st\<lparr>v_out := v_out st @ s\<rparr>"

definition init_file :: "read_fn \<Rightarrow> write_fn option \<Rightarrow> close_fn \<Rightarrow> ioctl_fn option \<Rightarrow> lseek_fn \<Rightarrow>
    private_data \<Rightarrow> vfile \<Rightarrow> vfile" where
  "init_file r w c i l p x = x\<lparr>f_private := p, f_position := 0, f_read := Some r, f_write := w,
     f_close := Some c, f_ioctl := i, f_lseek := Some l\<rparr>"

section \<open>\<open>/dev/null\<close>\<close>

definition null_read :: "nat \<Rightarrow> u32 \<Rightarrow> u32 \<Rightarrow> 'fs vfs \<Rightarrow> (int \<times> 'fs vfs) option" where
  "null_read file buffer sz st = Some (0, st)"

definition null_write :: "nat \<Rightarrow> u32 \<Rightarrow> u32 \<Rightarrow> 'fs vfs \<Rightarrow> (int \<times> 'fs vfs) option" where
  "null_write file buffer sz st = Some (sint sz, st)"

definition null_close :: "nat \<Rightarrow> 'fs vfs \<Rightarrow> (int \<times> 'fs vfs) option" where
  "null_close file st = Some (0, st)"

definition null_lseek :: "nat \<Rightarrow> u32 \<Rightarrow> int \<Rightarrow> 'fs vfs \<Rightarrow> (u32 \<times> 'fs vfs) option" where
  "null_lseek file offset whence st = Some (offset, st)"

definition null_open :: "nat \<Rightarrow> u8 list \<Rightarrow> u32 \<Rightarrow> 'fs vfs \<Rightarrow> (int \<times> 'fs vfs) option" where
  "null_open file path flags st = (case v_files st file of None \<Rightarrow> None
     | Some x \<Rightarrow> Some (0, set_file file (init_file null_read_fn (Some null_write_fn) null_close_fn None null_lseek_fn NoPrivate x) st))"

section \<open>\<open>/dev/zero\<close>\<close>

definition zero_read :: "nat \<Rightarrow> u32 \<Rightarrow> u32 \<Rightarrow> 'fs vfs \<Rightarrow> (int \<times> 'fs vfs) option" where
  "zero_read file buffer sz st = (case v_files st file of None \<Rightarrow> None
     | Some x \<Rightarrow> Some (sint sz, set_file file (x\<lparr>f_position := f_position x + sz\<rparr>)
                                  (st\<lparr>v_mem := memset (v_mem st) buffer 0 sz\<rparr>)))"

definition zero_write :: "nat \<Rightarrow> u32 \<Rightarrow> u32 \<Rightarrow> 'fs vfs \<Rightarrow> (int \<times> 'fs vfs) option" where
  "zero_write file buffer sz st = Some (sint sz, st)"

definition zero_close :: "nat \<Rightarrow> 'fs vfs \<Rightarrow> (int \<times> 'fs vfs) option" where
  "zero_close file st = Some (0, st)"

definition zero_lseek :: "nat \<Rightarrow> u32 \<Rightarrow> int \<Rightarrow> 'fs vfs \<Rightarrow> (u32 \<times> 'fs vfs) option" where
  "zero_lseek file offset whence st = (case v_files st file of None \<Rightarrow> None
     | Some x \<Rightarrow>
        let goto = (\<lambda>p. Some (p, set_file file (x\<lparr>f_position := p\<rparr>) st))
        in if whence = 0 then goto offset
           else if whence = 1 then goto (f_position x + offset)
           else if whence = 2 then goto offset
           else Some (- 1, st))"

definition zero_open :: "nat \<Rightarrow> u8 list \<Rightarrow> u32 \<Rightarrow> 'fs vfs \<Rightarrow> (int \<times> 'fs vfs) option" where
  "zero_open file path flags st = (case v_files st file of None \<Rightarrow> None
     | Some x \<Rightarrow> Some (0, set_file file (init_file zero_read_fn (Some zero_write_fn) zero_close_fn None zero_lseek_fn NoPrivate x) st))"

section \<open>\<open>/dev/tty\<close>\<close>

text \<open>The loop of \<open>tty_read\<close> with \<open>n\<close> bytes of room left, \<open>i\<close> stored; \<open>None\<close>: the console stays silent.\<close>

fun tty_read_loop :: "nat \<Rightarrow> u32 \<Rightarrow> u32 \<Rightarrow> 'fs vfs \<Rightarrow> (u32 \<times> 'fs vfs) option" where
  "tty_read_loop 0 buf i st = Some (i, st)"
| "tty_read_loop (Suc n) buf i st =
     (case v_in st of
        [] \<Rightarrow> None
      | c # cs \<Rightarrow>
          let st1 = v_putchar c (st\<lparr>v_in := cs, v_mem := (v_mem st)(buf + i := c)\<rparr>)
          in if c = 13 \<or> c = 10 then Some (i + 1, v_putchar 10 st1)
             else tty_read_loop n buf (i + 1) st1)"

definition tty_read :: "nat \<Rightarrow> u32 \<Rightarrow> u32 \<Rightarrow> 'fs vfs \<Rightarrow> (int \<times> 'fs vfs) option" where
  "tty_read file buffer sz st =
     map_option (\<lambda>(i, st'). (sint i, st')) (tty_read_loop (unat sz) buffer 0 st)"

fun tty_write_loop :: "nat \<Rightarrow> u32 \<Rightarrow> u32 \<Rightarrow> 'fs vfs \<Rightarrow> 'fs vfs" where
  "tty_write_loop 0 data i st = st"
| "tty_write_loop (Suc n) data i st =
     (let c = v_mem st (data + i);
          st1 = (if c = 10 then v_putchar 13 st else st)
      in tty_write_loop n data (i + 1) (v_putchar c st1))"

definition tty_write :: "nat \<Rightarrow> u32 \<Rightarrow> u32 \<Rightarrow> 'fs vfs \<Rightarrow> (int \<times> 'fs vfs) option" where
  "tty_write file buffer sz st = Some (sint sz, tty_write_loop (unat sz) buffer 0 st)"

definition tty_close :: "nat \<Rightarrow> 'fs vfs \<Rightarrow> (int \<times> 'fs vfs) option" where
  "tty_close file st = Some (0, st)"

text \<open>Clearing prints the escape sequence \<open>ESC [2J ESC [H\<close>.\<close>

definition tty_ioctl :: "nat \<Rightarrow> int \<Rightarrow> u32 \<Rightarrow> 'fs vfs \<Rightarrow> (int \<times> 'fs vfs) option" where
  "tty_ioctl file cmd arg st =
     (if cmd = TIOC_CLEAR then Some (0, v_print (27 # bytes_of ''[2J'' @ 27 # bytes_of ''[H'') st)
      else Some (- 1, st))"

definition tty_lseek :: "nat \<Rightarrow> u32 \<Rightarrow> int \<Rightarrow> 'fs vfs \<Rightarrow> (u32 \<times> 'fs vfs) option" where
  "tty_lseek file offset whence st = Some (- 1, st)"

definition tty_open :: "nat \<Rightarrow> u8 list \<Rightarrow> u32 \<Rightarrow> 'fs vfs \<Rightarrow> (int \<times> 'fs vfs) option" where
  "tty_open file path flags st = (case v_files st file of None \<Rightarrow> None
     | Some x \<Rightarrow> Some (0, set_file file (init_file tty_read_fn (Some tty_write_fn) tty_close_fn (Some tty_ioctl_fn) tty_lseek_fn NoPrivate x) st))"

section \<open>\<open>/dev/serial0\<close>\<close>

definition LSR_THRE :: u8 where "LSR_THRE = 0x20"
definition LSR_DR :: u8 where "LSR_DR = 0x01"

text \<open>Reading the line status register; \<open>None\<close>: no further value is known.\<close>

definition read_lsr :: "'fs vfs \<Rightarrow> (u8 \<times> 'fs vfs) option" where
  "read_lsr st = (case s_lsr st of [] \<Rightarrow> None | v # vs \<Rightarrow> Some (v, st\<lparr>s_lsr := vs\<rparr>))"

definition serial_tx_ready :: "'fs vfs \<Rightarrow> (bool \<times> 'fs vfs) option" where
  "serial_tx_ready st = map_option (\<lambda>(v, st'). (v AND LSR_THRE \<noteq> 0, st')) (read_lsr st)"

definition serial_rx_ready :: "'fs vfs \<Rightarrow> (bool \<times> 'fs vfs) option" where
  "serial_rx_ready st = map_option (\<lambda>(v, st'). (v AND LSR_DR \<noteq> 0, st')) (read_lsr st)"

partial_function (option) serial_putc :: "u8 \<Rightarrow> 'fs vfs \<Rightarrow> 'fs vfs option" where
  "serial_putc c st =
     (case serial_tx_ready st of
        None \<Rightarrow> None
      | Some (ready, st') \<Rightarrow> if ready then Some (st'\<lparr>s_tx := s_tx st' @ [c]\<rparr>) else serial_putc c st')"

definition serial_getc :: "'fs vfs \<Rightarrow> (int \<times> 'fs vfs) option" where
  "serial_getc st =
     (case serial_rx_ready st of
        None \<Rightarrow> None
      | Some (ready, st') \<Rightarrow>
          if \<not> ready then Some (- 1, st')
          else (case s_rx st' of [] \<Rightarrow> None | b # bs \<Rightarrow> Some (uint b, st'\<lparr>s_rx := bs\<rparr>)))"

fun serial_read_loop :: "nat \<Rightarrow> u32 \<Rightarrow> u32 \<Rightarrow> 'fs vfs \<Rightarrow> (u32 \<times> 'fs vfs) option" where
  "serial_read_loop 0 buf i st = Some (i, st)"
| "serial_read_loop (Suc n) buf i st =
     (case serial_getc st of
        None \<Rightarrow> None
      | Some (c, st') \<Rightarrow>
          if c < 0 then Some (i, st')
          else serial_read_loop n buf (i + 1) (st'\<lparr>v_mem := (v_mem st')(buf + i := of_int c)\<rparr>))"

definition serial_read :: "nat \<Rightarrow> u32 \<Rightarrow> u32 \<Rightarrow> 'fs vfs \<Rightarrow> (int \<times> 'fs vfs) option" where
  "serial_read file buffer sz st =
     map_option (\<lambda>(i, st'). (sint i, st')) (serial_read_loop (unat sz) buffer 0 st)"

fun serial_write_loop :: "nat \<Rightarrow> u32 \<Rightarrow> u32 \<Rightarrow> 'fs vfs \<Rightarrow> 'fs vfs option" where
  "serial_write_loop 0 data i st = Some st"
| "serial_write_loop (Suc n) data i st =
     (case serial_putc (v_mem st (data + i)) st of
        None \<Rightarrow> None
      | Some st' \<Rightarrow> serial_write_loop n data (i + 1) st')"

definition serial_write :: "nat \<Rightarrow> u32 \<Rightarrow> u32 \<Rightarrow> 'fs vfs \<Rightarrow> (int \<times> 'fs vfs) option" where
  "serial_write file buffer sz st =
     map_option (\<lambda>st'. (sint sz, st')) (serial_write_loop (unat sz) buffer 0 st)"

definition serial_close :: "nat \<Rightarrow> 'fs vfs \<Rightarrow> (int \<times> 'fs vfs) option" where
  "serial_close file st = Some (0, st)"

definition serial_lseek :: "nat \<Rightarrow> u32 \<Rightarrow> int \<Rightarrow> 'fs vfs \<Rightarrow> (u32 \<times> 'fs vfs) option" where
  "serial_lseek file offset whence st = Some (- 1, st)"

definition serial_open :: "nat \<Rightarrow> u8 list \<Rightarrow> u32 \<Rightarrow> 'fs vfs \<Rightarrow> (int \<times> 'fs vfs) option" where
  "serial_open file path flags st = (case v_files st file of None \<Rightarrow> None
     | Some x \<Rightarrow> Some (0, set_file file (init_file serial_read_fn (Some serial_write_fn) serial_close_fn None serial_lseek_fn NoPrivate x) st))"

end
