(* ===== verification/VfsFiles.thy ===== *)
theory VfsFiles
  imports VfsDrivers
begin

text \<open>
  The file-like drivers of the virtual file system: the generated texts under \<open>/proc\<close>
  (\<^verbatim>\<open>vfs_proc.c\<close>) and the files of the FAT volume (\<^verbatim>\<open>vfs_fat.c\<close>), with what a sequence of
  reads delivers.
\<close>

section \<open>\<open>/proc\<close>\<close>

definition get_total_memory :: int where "get_total_memory = 1024"
definition get_free_memory :: int where "get_free_memory = 512"
definition get_cpu_name :: string where "get_cpu_name = ''Motorola 68000''"
definition get_cpu_clock :: int where "get_cpu_clock = 8"

text \<open>What \<open>sprintf\<close> makes of \<open>%d\<close>.\<close>

definition int_text :: "int \<Rightarrow> u8 list" where
  "int_text i = (if i < 0 then [45] else []) @ digit_text 10 (nat \<bar>i\<bar>)"

definition proc_meminfo_text :: "u8 list" where
  "proc_meminfo_text =
     bytes_of ''MemTotal: '' @ int_text get_total_memory @ bytes_of '' KB'' @ [10] @
     bytes_of ''MemFree:  '' @ int_text get_free_memory @ bytes_of '' KB'' @ [10] @
     bytes_of ''MemUsed:  '' @ int_text (get_total_memory - get_free_memory) @ bytes_of '' KB'' @ [10] @
     bytes_of ''MemAvail: '' @ int_text (get_free_memory div 2) @ bytes_of '' KB'' @ [10]"

definition proc_cpuinfo_text :: "u8 list" where
  "proc_cpuinfo_text =
     bytes_of ''CPU:       '' @ bytes_of get_cpu_name @ [10] @
     bytes_of ''Clock:     '' @ int_text get_cpu_clock @ bytes_of '' MHz'' @ [10] @
     bytes_of ''Features:  FPU (sim)'' @ [10] @
     bytes_of ''Cores:     1'' @ [10] @
     bytes_of ''Family:    m68k'' @ [10]"

definition proc_uptime_text :: "u32 \<Rightarrow> u8 list" where
  "proc_uptime_text up = int_text (sint up) @ bytes_of '' seconds'' @ [10]"

text \<open>\<open>strdup\<close> of a local text: a copy, or \<open>None\<close> where there is no memory.\<close>

definition v_strdup :: "u8 list \<Rightarrow> 'fs vfs \<Rightarrow> u8 list option \<times> 'fs vfs" where
  "v_strdup s st = (case v_malloc st of None \<Rightarrow> (None, st) | Some (_, st') \<Rightarrow> (Some s, st'))"

text \<open>The common part of the three \<open>proc_..._open\<close> functions, after the \<open>ProcData\<close> is allocated.\<close>

definition proc_fill :: "nat \<Rightarrow> u8 list \<Rightarrow> 'fs vfs \<Rightarrow> (int \<times> 'fs vfs) option" where
  "proc_fill file txt st =
     (let (d, st1) = v_strdup txt st;
          data = \<lparr>pd_data = d, pd_size = of_nat (length txt), pd_position = 0\<rparr>
      in case v_files st1 file of None \<Rightarrow> None
         | Some x \<Rightarrow> Some (0, set_file file
             (init_file proc_read_fn None proc_close_fn None proc_lseek_fn (ProcPrivate data) x) st1))"

definition proc_meminfo_open :: "nat \<Rightarrow> u8 list \<Rightarrow> u32 \<Rightarrow> 'fs vfs \<Rightarrow> (int \<times> 'fs vfs) option" where
  "proc_meminfo_open file path flags st =
     (case v_malloc st of None \<Rightarrow> Some (- 1, st) | Some (_, st1) \<Rightarrow> proc_fill file proc_meminfo_text st1)"

definition proc_cpuinfo_open :: "nat \<Rightarrow> u8 list \<Rightarrow> u32 \<Rightarrow> 'fs vfs \<Rightarrow> (int \<times> 'fs vfs) option" where
  "proc_cpuinfo_open file path flags st =
     (case v_malloc st of None \<Rightarrow> Some (- 1, st) | Some (_, st1) \<Rightarrow> proc_fill file proc_cpuinfo_text st1)"

definition proc_uptime_open :: "nat \<Rightarrow> u8 list \<Rightarrow> u32 \<Rightarrow> 'fs vfs \<Rightarrow> (int \<times> 'fs vfs) option" where
  "proc_uptime_open file path flags st =
     (case v_malloc st of None \<Rightarrow> Some (- 1, st)
      | Some (_, st1) \<Rightarrow>
          let up = proc_uptime st1 + 10
          in proc_fill file (proc_uptime_text up) (st1\<lparr>proc_uptime := up\<rparr>))"

text \<open>The bytes \<open>memcpy\<close> takes from \<open>data->data + pos\<close>; the null pointer is the address 0.\<close>

definition proc_bytes :: "proc_data \<Rightarrow> u32 \<Rightarrow> 'fs vfs \<Rightarrow> u8 list" where
  "proc_bytes d n st =
     (case pd_data d of
        Some s \<Rightarrow> take (unat n) (drop (unat (pd_position d)) s)
      | None \<Rightarrow> rd_bytes (v_mem st) (pd_position d) (unat n))"

definition proc_read :: "nat \<Rightarrow> u32 \<Rightarrow> u32 \<Rightarrow> 'fs vfs \<Rightarrow> (int \<times> 'fs vfs) option" where
  "proc_read file buffer sz st =
     (case v_files st file of
        None \<Rightarrow> None
      | Some x \<Rightarrow>
          (case f_private x of
             ProcPrivate d \<Rightarrow>
               let available = pd_size d - pd_position d;
                   to_read = (if sz < available then sz else available)
               in if to_read = 0 then Some (0, st)
                  else
                    let pos = pd_position d + to_read;
                        st1 = st\<lparr>v_mem := wr_bytes (v_mem st) buffer (proc_bytes d to_read st)\<rparr>
                    in Some (sint to_read,
                         set_file file (x\<lparr>f_private := ProcPrivate (d\<lparr>pd_position := pos\<rparr>), f_position := pos\<rparr>) st1)
           | NoPrivate \<Rightarrow> Some (- 1, st)
           | FatPrivate _ \<Rightarrow> None))"

definition proc_close :: "nat \<Rightarrow> 'fs vfs \<Rightarrow> (int \<times> 'fs vfs) option" where
  "proc_close file st =
     (case v_files st file of
        None \<Rightarrow> None
      | Some x \<Rightarrow>
          (case f_private x of
             ProcPrivate d \<Rightarrow>
               let st1 = (case pd_data d of None \<Rightarrow> st | Some _ \<Rightarrow> v_free st)
               in Some (0, set_file file (x\<lparr>f_private := NoPrivate\<rparr>) (v_free st1))
           | NoPrivate \<Rightarrow> Some (0, st)
           | FatPrivate _ \<Rightarrow> None))"

definition proc_lseek :: "nat \<Rightarrow> u32 \<Rightarrow> int \<Rightarrow> 'fs vfs \<Rightarrow> (u32 \<times> 'fs vfs) option" where
  "proc_lseek file offset whence st =
     (case v_files st file of
        None \<Rightarrow> None
      | Some x \<Rightarrow>
          (case f_private x of
             ProcPrivate d \<Rightarrow>
               if whence \<noteq> 0 \<and> whence \<noteq> 1 \<and> whence \<noteq> 2 then Some (- 1, st)
               else
                 let new_pos = (if whence = 0 then offset
                                else if whence = 1 then pd_position d + offset
                                else pd_size d + offset);
                     p = (if new_pos > pd_size d then pd_size d else new_pos)
                 in Some (p, set_file file (x\<lparr>f_private := ProcPrivate (d\<lparr>pd_position := p\<rparr>), f_position := p\<rparr>) st)
           | NoPrivate \<Rightarrow> Some (- 1, st)
           | FatPrivate _ \<Rightarrow> None))"

section \<open>FAT files\<close>

text \<open>The mode bits \<open>fat_open\<close> passes to FatFs.\<close>

definition fat_open_mode :: "u32 \<Rightarrow> u8" where
  "fat_open_mode flags =
     (if flags AND O_RDONLY \<noteq> 0 then FA_READ else 0) OR
     (if flags AND O_WRONLY \<noteq> 0 then FA_WRITE else 0) OR
     (if flags AND O_RDWR \<noteq> 0 then FA_READ OR FA_WRITE else 0) OR
     (if flags AND O_CREAT \<noteq> 0 then FA_CREATE_ALWAYS else 0) OR
     (if flags AND O_TRUNC \<noteq> 0 then FA_CREATE_ALWAYS else 0) OR
     (if flags AND O_APPEND \<noteq> 0 then FA_OPEN_APPEND else 0)"

definition fat_open :: "'fs fatfs \<Rightarrow> nat \<Rightarrow> u8 list \<Rightarrow> u32 \<Rightarrow> 'fs vfs \<Rightarrow> (int \<times> 'fs vfs) option" where
  "fat_open fat file path flags st =
     (case v_malloc st of
        None \<Rightarrow> Some (- 1, st)
      | Some (fil, st1) \<Rightarrow>
          let fat_mode = fat_open_mode flags;
              st2 = (if flags AND O_APPEND \<noteq> 0
                     then v_print (bytes_of ''fat_open: O_APPEND detectado!'' @ [10]) st1 else st1);
              (result, fs) = ff_open fat fil path fat_mode (v_fs st2);
              st3 = st2\<lparr>v_fs := fs\<rparr>
          in if result \<noteq> FR_OK then Some (- 1, v_free st3)
             else (case v_malloc st3 of
                None \<Rightarrow> Some (- 1, v_free (st3\<lparr>v_fs := snd (ff_close fat fil (v_fs st3))\<rparr>))
              | Some (_, st4) \<Rightarrow>
                  let priv = \<lparr>fp_fat_file = fil, fp_mode = fat_mode, fp_size = ff_size fat fil (v_fs st4)\<rparr>
                  in (case v_files st4 file of None \<Rightarrow> None
                      | Some x \<Rightarrow> Some (0, set_file file
                          (x\<lparr>f_private := FatPrivate priv, f_position := 0, f_read := Some fat_read_fn,
                             f_write := Some fat_write_fn, f_close := Some fat_close_fn,
                             f_lseek := Some fat_lseek_fn\<rparr>) st4))))"

definition fat_read :: "'fs fatfs \<Rightarrow> nat \<Rightarrow> u32 \<Rightarrow> u32 \<Rightarrow> 'fs vfs \<Rightarrow> (int \<times> 'fs vfs) option" where
  "fat_read fat file buffer sz st =
     (case v_files st file of
        None \<Rightarrow> None
      | Some x \<Rightarrow>
          (case f_private x of
             FatPrivate p \<Rightarrow>
               let (result, bs, fs) = ff_read fat (fp_fat_file p) sz (v_fs st);
                   st1 = st\<lparr>v_fs := fs, v_mem := wr_bytes (v_mem st) buffer bs\<rparr>
               in if result \<noteq> FR_OK then Some (- 1, st1)
                  else Some (sint (of_nat (length bs) :: u32),
                    set_file file (x\<lparr>f_position := f_position x + of_nat (length bs)\<rparr>) st1)
           | NoPrivate \<Rightarrow> Some (- 1, st)
           | ProcPrivate _ \<Rightarrow> None))"

definition fat_write :: "'fs fatfs \<Rightarrow> nat \<Rightarrow> u32 \<Rightarrow> u32 \<Rightarrow> 'fs vfs \<Rightarrow> (int \<times> 'fs vfs) option" where
  "fat_write fat file buffer sz st =
     (case v_files st file of
        None \<Rightarrow> None
      | Some x \<Rightarrow>
          (case f_private x of
             FatPrivate p \<Rightarrow>
               let fil = fp_fat_file p;
                   st1 = (if fp_mode p AND FA_OPEN_APPEND \<noteq> 0
                          then (v_print (bytes_of ''Appending...'' @ [10]) st)
                            \<lparr>v_fs := snd (ff_lseek fat fil (ff_size fat fil (v_fs st)) (v_fs st))\<rparr>
                          else st);
                   (result, written, fs) = ff_write fat fil (rd_bytes (v_mem st1) buffer (unat sz)) (v_fs st1);
                   st2 = st1\<lparr>v_fs := fs\<rparr>
               in if result \<noteq> FR_OK then Some (- 1, st2)
                  else
                    let pos = f_position x + written;
                        p' = (if pos > fp_size p then p\<lparr>fp_size := pos\<rparr> else p)
                    in Some (sint written, set_file file (x\<lparr>f_position := pos, f_private := FatPrivate p'\<rparr>) st2)
           | NoPrivate \<Rightarrow> Some (- 1, st)
           | ProcPrivate _ \<Rightarrow> None))"

definition fat_close :: "'fs fatfs \<Rightarrow> nat \<Rightarrow> 'fs vfs \<Rightarrow> (int \<times> 'fs vfs) option" where
  "fat_close fat file st =
     (case v_files st file of
        None \<Rightarrow> None
      | Some x \<Rightarrow>
          (case f_private x of
             FatPrivate p \<Rightarrow>
               let (result, fs) = ff_close fat (fp_fat_file p) (v_fs st)
               in Some (if result = FR_OK then 0 else - 1,
                    set_file file (x\<lparr>f_private := NoPrivate\<rparr>) (v_free (v_free (st\<lparr>v_fs := fs\<rparr>))))
           | NoPrivate \<Rightarrow> Some (- 1, st)
           | ProcPrivate _ \<Rightarrow> None))"

definition fat_lseek :: "'fs fatfs \<Rightarrow> nat \<Rightarrow> u32 \<Rightarrow> int \<Rightarrow> 'fs vfs \<Rightarrow> (u32 \<times> 'fs vfs) option" where
  "fat_lseek fat file offset whence st =
     (case v_files st file of
        None \<Rightarrow> None
      | Some x \<Rightarrow>
          (case f_private x of
             FatPrivate p \<Rightarrow>
               if whence \<noteq> 0 \<and> whence \<noteq> 1 \<and> whence \<noteq> 2 then Some (- 1, st)
               else
                 let current = ff_tell fat (fp_fat_file p) (v_fs st);
                     new_pos = (if whence = 0 then offset
                                else if whence = 1 then current + offset
                                else fp_size p + offset);
                     (result, fs) = ff_lseek fat (fp_fat_file p) new_pos (v_fs st);
                     st1 = st\<lparr>v_fs := fs\<rparr>
                 in if result \<noteq> FR_OK then Some (- 1, st1)
                    else Some (new_pos, set_file file (x\<lparr>f_position := new_pos\<rparr>) st1)
           | NoPrivate \<Rightarrow> Some (- 1, st)
           | ProcPrivate _ \<Rightarrow> None))"

section \<open>Sequential reading\<close>

text \<open>A sequence of reads of the sizes \<open>ns\<close>, and the bytes they deliver.\<close>

fun seq_reads :: "(u32 \<Rightarrow> 's \<Rightarrow> u8 list \<times> 's) \<Rightarrow> u32 list \<Rightarrow> 's \<Rightarrow> u8 list \<times> 's" where
  "seq_reads rd [] s = ([], s)"
| "seq_reads rd (n # ns) s = (let (bs, s1) = rd n s; (cs, s2) = seq_reads rd ns s1 in (bs @ cs, s2))"

text \<open>
  What a reader relies on: a read delivers the next bytes of the contents, as many as are
  asked for and left, and moves the position past them.
\<close>

locale seq_file =
  fixes good :: "'s \<Rightarrow> bool" and content :: "'s \<Rightarrow> u8 list" and pos :: "'s \<Rightarrow> nat"
    and rd :: "u32 \<Rightarrow> 's \<Rightarrow> u8 list \<times> 's"
  assumes rd_data: "good s \<Longrightarrow> fst (rd n s) = take (unat n) (drop (pos s) (content s))"
    and rd_good: "good s \<Longrightarrow> good (snd (rd n s))"
    and rd_content: "good s \<Longrightarrow> content (snd (rd n s)) = content s"
    and rd_pos: "good s \<Longrightarrow> pos (snd (rd n s)) = pos s + min (unat n) (length (content s) - pos s)"
begin

lemma reads_data:
  "good s \<Longrightarrow> fst (seq_reads rd ns s) = take (sum_list (map unat ns)) (drop (pos s) (content s))"
proof (induction ns arbitrary: s)
  case Nil
  then show ?case by simp
next
  case (Cons n ns)
  let ?s = "snd (rd n s)" and ?rest = "drop (pos s) (content s)"
  have "fst (seq_reads rd ns ?s) = take (sum_list (map unat ns)) (drop (pos ?s) (content ?s))"
    using rd_good [OF Cons.prems] by (rule Cons.IH)
  also have "drop (pos ?s) (content ?s) = drop (min (unat n) (length ?rest)) ?rest"
    using rd_content [OF Cons.prems, of n] rd_pos [OF Cons.prems, of n] by (simp add: add.commute)
  also have "\<dots> = drop (unat n) ?rest" by (simp add: min_def)
  finally have "fst (seq_reads rd ns ?s) = take (sum_list (map unat ns)) (drop (unat n) ?rest)" .
  with rd_data [OF Cons.prems, of n] show ?case
    by (simp add: case_prod_beta take_add)
qed

end

text \<open>A text under \<open>/proc\<close> that is open as \<open>file\<close>.\<close>

definition proc_file :: "nat \<Rightarrow> 'fs vfs \<Rightarrow> bool" where
  "proc_file file st \<longleftrightarrow> (\<exists>x d s. v_files st file = Some x \<and> f_private x = ProcPrivate d \<and> pd_data d = Some s \<and>
     pd_size d = of_nat (length s) \<and> length s < 2 ^ 31 \<and> unat (pd_position d) \<le> length s)"

definition proc_of :: "nat \<Rightarrow> 'fs vfs \<Rightarrow> proc_data" where
  "proc_of file st = (case v_files st file of Some x \<Rightarrow> (case f_private x of ProcPrivate d \<Rightarrow> d
     | _ \<Rightarrow> \<lparr>pd_data = None, pd_size = 0, pd_position = 0\<rparr>)
     | None \<Rightarrow> \<lparr>pd_data = None, pd_size = 0, pd_position = 0\<rparr>)"

definition proc_content :: "nat \<Rightarrow> 'fs vfs \<Rightarrow> u8 list" where
  "proc_content file st = (case pd_data (proc_of file st) of Some s \<Rightarrow> s | None \<Rightarrow> [])"

text \<open>A read as its caller sees it: the bytes now in its buffer.\<close>

definition proc_fetch :: "nat \<Rightarrow> u32 \<Rightarrow> u32 \<Rightarrow> 'fs vfs \<Rightarrow> u8 list \<times> 'fs vfs" where
  "proc_fetch file buffer n st = (case proc_read file buffer n st of
     None \<Rightarrow> ([], st) | Some (r, st') \<Rightarrow> (rd_bytes (v_mem st') buffer (nat r), st'))"

lemma proc_readE:
  assumes "proc_file file st"
  obtains k st' where "proc_read file buffer n st = Some (int k, st')"
    "k = min (unat n) (length (proc_content file st) - unat (pd_position (proc_of file st)))"
    "rd_bytes (v_mem st') buffer k = take k (drop (unat (pd_position (proc_of file st))) (proc_content file st))"
    "proc_file file st'" "proc_content file st' = proc_content file st"
    "unat (pd_position (proc_of file st')) = unat (pd_position (proc_of file st)) + k"
proof -
  obtain x d s where x: "v_files st file = Some x" "f_private x = ProcPrivate d" "pd_data d = Some s"
    "pd_size d = of_nat (length s)" "length s < 2 ^ 31" "unat (pd_position d) \<le> length s"
    using assms by (auto simp: proc_file_def)
  have po: "proc_of file st = d" "proc_content file st = s" using x by (simp_all add: proc_of_def proc_content_def)
  let ?p = "unat (pd_position d)"
  have us: "unat (pd_size d) = length s" using x(4,5) by (simp add: unat_of_nat)
  then have av: "unat (pd_size d - pd_position d) = length s - ?p"
    using x(6) by (simp add: unat_sub word_le_nat_alt)
  define t where "t = (if n < pd_size d - pd_position d then n else pd_size d - pd_position d)"
  have ut: "unat t = min (unat n) (length s - ?p)"
    using av by (auto simp: t_def word_less_nat_alt)
  have st: "sint t = int (unat t)" using ut x(5) by (intro sint_small) simp
  let ?k = "unat t"
  show thesis
  proof (cases "t = 0")
    case True
    then have "proc_read file buffer n st = Some (int ?k, st)"
      using x by (simp add: proc_read_def Let_def t_def split: if_splits)
    moreover have "?k = 0" using True by simp
    ultimately show thesis using that [of ?k st] ut assms po by simp
  next
    case False
    let ?bs = "take ?k (drop ?p s)"
    let ?d = "d\<lparr>pd_position := pd_position d + t\<rparr>"
    let ?st = "set_file file (x\<lparr>f_private := ProcPrivate ?d, f_position := pd_position d + t\<rparr>)
      (st\<lparr>v_mem := wr_bytes (v_mem st) buffer ?bs\<rparr>)"
    have r: "proc_read file buffer n st = Some (int ?k, ?st)"
      unfolding proc_read_def x(1) option.case x(2) private_data.case Let_def t_def [symmetric]
      using False st x(3) by (simp add: proc_bytes_def)
    have up: "unat (pd_position d + t) = ?p + ?k"
      using ut x(5,6) by (intro unat_add_lem [THEN iffD1]) simp
    have lb: "length ?bs = ?k" using ut by simp
    have po': "proc_of file ?st = ?d" by (simp add: proc_of_def set_file_def)
    have pc': "proc_content file ?st = s" using x by (simp add: proc_content_def po')
    have pf': "proc_file file ?st"
      using x up ut unfolding proc_file_def by (auto simp: set_file_def)
    have mm: "rd_bytes (v_mem ?st) buffer ?k = ?bs"
      using rd_wr_bytes [of ?bs "v_mem st" buffer] lb x(5) by (simp add: set_file_def)
    show thesis
      by (rule that [of ?k ?st]) (use r ut up po po' pc' pf' mm in simp_all)
  qed
qed

interpretation procf: seq_file "proc_file file" "proc_content file"
  "\<lambda>st. unat (pd_position (proc_of file st))" "proc_fetch file buffer"
proof
  fix st :: "'a vfs" and n
  assume g: "proc_file file st"
  obtain k st' where r: "proc_read file buffer n st = Some (int k, st')"
    "k = min (unat n) (length (proc_content file st) - unat (pd_position (proc_of file st)))"
    "rd_bytes (v_mem st') buffer k = take k (drop (unat (pd_position (proc_of file st))) (proc_content file st))"
    "proc_file file st'" "proc_content file st' = proc_content file st"
    "unat (pd_position (proc_of file st')) = unat (pd_position (proc_of file st)) + k"
    using proc_readE [OF g] by blast
  have f: "proc_fetch file buffer n st = (take k (drop (unat (pd_position (proc_of file st))) (proc_content file st)), st')"
    using r by (simp add: proc_fetch_def)
  show "fst (proc_fetch file buffer n st) =
      take (unat n) (drop (unat (pd_position (proc_of file st))) (proc_content file st))"
    unfolding f using r(2) by (simp add: min_def)
  show "proc_file file (snd (proc_fetch file buffer n st))"
    "proc_content file (snd (proc_fetch file buffer n st)) = proc_content file st"
    "unat (pd_position (proc_of file (snd (proc_fetch file buffer n st)))) =
      unat (pd_position (proc_of file st)) + min (unat n) (length (proc_content file st) - unat (pd_position (proc_of file st)))"
    unfolding f using r by simp_all
qed

end
