(* ===== verification/Vfs.thy ===== *)
theory Vfs
  imports VfsFiles
begin

text \<open>
  The virtual file system of the shell (\<^verbatim>\<open>apps/shell/vfs.c\<close>): the table of 256 descriptors, the
  table of drivers (\<^verbatim>\<open>vfs_drivers.c\<close>) and the calls that dispatch through the function
  pointers of the \<open>File\<close> objects.
\<close>

section \<open>The driver table\<close>

datatype open_fn = tty_open_fn | null_open_fn | zero_open_fn | serial_open_fn
  | proc_meminfo_open_fn | proc_cpuinfo_open_fn | proc_uptime_open_fn

record device_driver =
  dd_path :: "u8 list"
  dd_open :: open_fn
  dd_read :: read_fn
  dd_write :: "write_fn option"
  dd_close :: close_fn
  dd_ioctl :: "ioctl_fn option"
  dd_lseek :: lseek_fn

definition drivers :: "device_driver list" where
  "drivers =
    [\<lparr>dd_path = bytes_of ''/dev/tty'', dd_open = tty_open_fn, dd_read = tty_read_fn, dd_write = Some tty_write_fn,
       dd_close = tty_close_fn, dd_ioctl = Some tty_ioctl_fn, dd_lseek = tty_lseek_fn\<rparr>,
     \<lparr>dd_path = bytes_of ''/dev/null'', dd_open = null_open_fn, dd_read = null_read_fn, dd_write = Some null_write_fn,
       dd_close = null_close_fn, dd_ioctl = None, dd_lseek = null_lseek_fn\<rparr>,
     \<lparr>dd_path = bytes_of ''/dev/zero'', dd_open = zero_open_fn, dd_read = zero_read_fn, dd_write = Some zero_write_fn,
       dd_close = zero_close_fn, dd_ioctl = None, dd_lseek = zero_lseek_fn\<rparr>,
     \<lparr>dd_path = bytes_of ''/dev/serial0'', dd_open = serial_open_fn, dd_read = serial_read_fn, dd_write = Some serial_write_fn,
       dd_close = serial_close_fn, dd_ioctl = None, dd_lseek = serial_lseek_fn\<rparr>,
     \<lparr>dd_path = bytes_of ''/proc/meminfo'', dd_open = proc_meminfo_open_fn, dd_read = proc_read_fn, dd_write = None,
       dd_close = proc_close_fn, dd_ioctl = None, dd_lseek = proc_lseek_fn\<rparr>,
     \<lparr>dd_path = bytes_of ''/proc/cpuinfo'', dd_open = proc_cpuinfo_open_fn, dd_read = proc_read_fn, dd_write = None,
       dd_close = proc_close_fn, dd_ioctl = None, dd_lseek = proc_lseek_fn\<rparr>,
     \<lparr>dd_path = bytes_of ''/proc/uptime'', dd_open = proc_uptime_open_fn, dd_read = proc_read_fn, dd_write = None,
       dd_close = proc_close_fn, dd_ioctl = None, dd_lseek = proc_lseek_fn\<rparr>]"

text \<open>Calls through the function pointers.\<close>

fun call_open :: "open_fn \<Rightarrow> nat \<Rightarrow> u8 list \<Rightarrow> u32 \<Rightarrow> 'fs vfs \<Rightarrow> (int \<times> 'fs vfs) option" where
  "call_open tty_open_fn = tty_open"
| "call_open null_open_fn = null_open"
| "call_open zero_open_fn = zero_open"
| "call_open serial_open_fn = serial_open"
| "call_open proc_meminfo_open_fn = proc_meminfo_open"
| "call_open proc_cpuinfo_open_fn = proc_cpuinfo_open"
| "call_open proc_uptime_open_fn = proc_uptime_open"

fun call_read :: "'fs fatfs \<Rightarrow> read_fn \<Rightarrow> nat \<Rightarrow> u32 \<Rightarrow> u32 \<Rightarrow> 'fs vfs \<Rightarrow> (int \<times> 'fs vfs) option" where
  "call_read fat null_read_fn = null_read"
| "call_read fat zero_read_fn = zero_read"
| "call_read fat tty_read_fn = tty_read"
| "call_read fat serial_read_fn = serial_read"
| "call_read fat proc_read_fn = proc_read"
| "call_read fat fat_read_fn = fat_read fat"

fun call_write :: "'fs fatfs \<Rightarrow> write_fn \<Rightarrow> nat \<Rightarrow> u32 \<Rightarrow> u32 \<Rightarrow> 'fs vfs \<Rightarrow> (int \<times> 'fs vfs) option" where
  "call_write fat null_write_fn = null_write"
| "call_write fat zero_write_fn = zero_write"
| "call_write fat tty_write_fn = tty_write"
| "call_write fat serial_write_fn = serial_write"
| "call_write fat fat_write_fn = fat_write fat"

fun call_close :: "'fs fatfs \<Rightarrow> close_fn \<Rightarrow> nat \<Rightarrow> 'fs vfs \<Rightarrow> (int \<times> 'fs vfs) option" where
  "call_close fat null_close_fn = null_close"
| "call_close fat zero_close_fn = zero_close"
| "call_close fat tty_close_fn = tty_close"
| "call_close fat serial_close_fn = serial_close"
| "call_close fat proc_close_fn = proc_close"
| "call_close fat fat_close_fn = fat_close fat"

fun call_lseek :: "'fs fatfs \<Rightarrow> lseek_fn \<Rightarrow> nat \<Rightarrow> u32 \<Rightarrow> int \<Rightarrow> 'fs vfs \<Rightarrow> (u32 \<times> 'fs vfs) option" where
  "call_lseek fat null_lseek_fn = null_lseek"
| "call_lseek fat zero_lseek_fn = zero_lseek"
| "call_lseek fat tty_lseek_fn = tty_lseek"
| "call_lseek fat serial_lseek_fn = serial_lseek"
| "call_lseek fat proc_lseek_fn = proc_lseek"
| "call_lseek fat fat_lseek_fn = fat_lseek fat"

section \<open>The descriptor table\<close>

definition vfs_set_fd :: "int \<Rightarrow> nat option \<Rightarrow> 'fs vfs \<Rightarrow> 'fs vfs" where
  "vfs_set_fd fd file st = (if fd \<ge> 0 \<and> fd < 256 then st\<lparr>fd_table := (fd_table st)(fd := file)\<rparr> else st)"

definition vfs_get_fd :: "int \<Rightarrow> 'fs vfs \<Rightarrow> nat option" where
  "vfs_get_fd fd st = (if fd \<ge> 0 \<and> fd < 256 then fd_table st fd else None)"

text \<open>\<open>for (int i = 3; i < 256; i++)\<close> with \<open>n\<close> descriptors left to look at.\<close>

fun find_fd :: "(int \<Rightarrow> nat option) \<Rightarrow> nat \<Rightarrow> int \<Rightarrow> int option" where
  "find_fd tab 0 i = None"
| "find_fd tab (Suc n) i = (if tab i = None then Some i else find_fd tab n (i + 1))"

definition allocate_fd :: "nat \<Rightarrow> 'fs vfs \<Rightarrow> int \<times> 'fs vfs" where
  "allocate_fd file st =
     (case find_fd (fd_table st) 253 3 of
        Some i \<Rightarrow> (i, st\<lparr>fd_table := (fd_table st)(i := Some file), fd_count := fd_count st + 1\<rparr>)
      | None \<Rightarrow> (- 1, st))"

definition get_file_from_fd :: "int \<Rightarrow> 'fs vfs \<Rightarrow> nat option" where
  "get_file_from_fd fd st = (if fd < 0 \<or> fd \<ge> 256 then None else fd_table st fd)"

definition free_fd :: "int \<Rightarrow> 'fs vfs \<Rightarrow> 'fs vfs" where
  "free_fd fd st = (if fd \<ge> 0 \<and> fd < 256
     then st\<lparr>fd_table := (fd_table st)(fd := None), fd_count := fd_count st - 1\<rparr> else st)"

section \<open>The calls\<close>

definition zero_file :: vfile where
  "zero_file = \<lparr>f_name = None, f_type = 0, f_position = 0, f_ref_count = 0, f_private = NoPrivate,
     f_read = None, f_write = None, f_close = None, f_ioctl = None, f_lseek = None\<rparr>"

text \<open>\<open>free(file->name); free(file)\<close>.\<close>

definition discard_file :: "nat \<Rightarrow> 'fs vfs \<Rightarrow> 'fs vfs option" where
  "discard_file file st =
     (case v_files st file of
        None \<Rightarrow> None
      | Some x \<Rightarrow>
          let st1 = (case f_name x of None \<Rightarrow> st | Some _ \<Rightarrow> v_free st)
          in Some (v_free (st1\<lparr>v_files := (v_files st1)(file := None)\<rparr>)))"

text \<open>The loop over \<open>drivers\<close>: a matching driver that opens but finds no descriptor goes on.\<close>

fun try_drivers :: "device_driver list \<Rightarrow> nat \<Rightarrow> u8 list \<Rightarrow> u32 \<Rightarrow> 'fs vfs \<Rightarrow> (int \<times> 'fs vfs) option" where
  "try_drivers [] file path flags st = map_option (\<lambda>st'. (- 1, st')) (discard_file file st)"
| "try_drivers (d # ds) file path flags st =
     (if path = dd_path d then
        (case call_open (dd_open d) file path flags st of
           None \<Rightarrow> None
         | Some (r, st1) \<Rightarrow>
             if r = 0 then
               (let (fd, st2) = allocate_fd file st1
                in if fd \<ge> 0 then Some (fd, st2) else try_drivers ds file path flags st2)
             else try_drivers ds file path flags st1)
      else try_drivers ds file path flags st)"

definition vfs_open :: "'fs fatfs \<Rightarrow> u8 list \<Rightarrow> u32 \<Rightarrow> 'fs vfs \<Rightarrow> (int \<times> 'fs vfs) option" where
  "vfs_open fat path flags st =
     (case v_malloc st of
        None \<Rightarrow> Some (- 1, st)
      | Some (file, st1) \<Rightarrow>
          let (name, st2) = v_strdup path st1;
              st3 = set_file file (zero_file\<lparr>f_name := name\<rparr>) st2
          in (case fat_open fat file path flags st3 of
                None \<Rightarrow> None
              | Some (r, st4) \<Rightarrow>
                  if r = 0 then
                    (let (fd, st5) = allocate_fd file st4
                     in if fd \<ge> 0 then Some (fd, st5) else map_option (\<lambda>st'. (- 1, st')) (discard_file file st5))
                  else try_drivers drivers file path flags st4))"

definition vfs_read :: "'fs fatfs \<Rightarrow> int \<Rightarrow> u32 \<Rightarrow> u32 \<Rightarrow> 'fs vfs \<Rightarrow> (int \<times> 'fs vfs) option" where
  "vfs_read fat fd buffer sz st =
     (case get_file_from_fd fd st of
        None \<Rightarrow> Some (- 1, st)
      | Some file \<Rightarrow> (case v_files st file of None \<Rightarrow> None
          | Some x \<Rightarrow> (case f_read x of None \<Rightarrow> Some (- 1, st) | Some fn \<Rightarrow> call_read fat fn file buffer sz st)))"

definition vfs_write :: "'fs fatfs \<Rightarrow> int \<Rightarrow> u32 \<Rightarrow> u32 \<Rightarrow> 'fs vfs \<Rightarrow> (int \<times> 'fs vfs) option" where
  "vfs_write fat fd buffer sz st =
     (case get_file_from_fd fd st of
        None \<Rightarrow> Some (- 1, st)
      | Some file \<Rightarrow> (case v_files st file of None \<Rightarrow> None
          | Some x \<Rightarrow> (case f_write x of None \<Rightarrow> Some (- 1, st) | Some fn \<Rightarrow> call_write fat fn file buffer sz st)))"

definition vfs_close :: "'fs fatfs \<Rightarrow> int \<Rightarrow> 'fs vfs \<Rightarrow> (int \<times> 'fs vfs) option" where
  "vfs_close fat fd st =
     (case get_file_from_fd fd st of
        None \<Rightarrow> Some (- 1, st)
      | Some file \<Rightarrow> (case v_files st file of None \<Rightarrow> None
          | Some x \<Rightarrow>
              (case (case f_close x of None \<Rightarrow> Some (0, st) | Some fn \<Rightarrow> call_close fat fn file st) of
                 None \<Rightarrow> None
               | Some (result, st1) \<Rightarrow> map_option (\<lambda>st2. (result, free_fd fd st2)) (discard_file file st1))))"

definition vfs_ioctl :: "int \<Rightarrow> int \<Rightarrow> u32 \<Rightarrow> 'fs vfs \<Rightarrow> (int \<times> 'fs vfs) option" where
  "vfs_ioctl fd cmd arg st =
     (case get_file_from_fd fd st of
        None \<Rightarrow> Some (- 1, st)
      | Some file \<Rightarrow> (case v_files st file of None \<Rightarrow> None
          | Some x \<Rightarrow> (case f_ioctl x of None \<Rightarrow> Some (- 1, st) | Some tty_ioctl_fn \<Rightarrow> tty_ioctl file cmd arg st)))"

definition vfs_lseek :: "'fs fatfs \<Rightarrow> int \<Rightarrow> u32 \<Rightarrow> int \<Rightarrow> 'fs vfs \<Rightarrow> (u32 \<times> 'fs vfs) option" where
  "vfs_lseek fat fd offset whence st =
     (case get_file_from_fd fd st of
        None \<Rightarrow> Some (- 1, st)
      | Some file \<Rightarrow> (case v_files st file of None \<Rightarrow> None
          | Some x \<Rightarrow> (case f_lseek x of
                Some fn \<Rightarrow> call_lseek fat fn file offset whence st
              | None \<Rightarrow>
                  if whence = 0 then Some (offset, set_file file (x\<lparr>f_position := offset\<rparr>) st)
                  else if whence = 1 then
                    Some (f_position x + offset, set_file file (x\<lparr>f_position := f_position x + offset\<rparr>) st)
                  else Some (- 1, st))))"

definition vfs_restore_fd :: "'fs fatfs \<Rightarrow> int \<Rightarrow> 'fs vfs \<Rightarrow> 'fs vfs option" where
  "vfs_restore_fd fat fd st =
     (if fd \<ge> 0 \<and> fd < 256 then
        (case vfs_open fat (bytes_of ''/dev/tty'') O_RDWR st of
           None \<Rightarrow> None
         | Some (tty_fd, st1) \<Rightarrow>
             if tty_fd \<ge> 0 then Some (st1\<lparr>fd_table := (fd_table st1)(fd := fd_table st1 tty_fd, tty_fd := None)\<rparr>)
             else Some st1)
      else Some st)"

text \<open>Moving a descriptor in \<open>vfs_init\<close>; \<open>None\<close>: the table is accessed at a negative index.\<close>

definition move_fd :: "int \<Rightarrow> int \<Rightarrow> 'fs vfs \<Rightarrow> 'fs vfs option" where
  "move_fd target fd st =
     (if fd = target then Some st
      else if fd < 0 then None
      else Some (st\<lparr>fd_table := (fd_table st)(target := fd_table st fd, fd := None), fd_count := fd_count st - 1\<rparr>))"

definition vfs_init :: "'fs fatfs \<Rightarrow> 'fs vfs \<Rightarrow> 'fs vfs option" where
  "vfs_init fat st =
     (let st0 = st\<lparr>fd_table := (\<lambda>_. None), fd_count := 0\<rparr>;
          tty = bytes_of ''/dev/tty''
      in case vfs_open fat tty O_RDWR st0 of None \<Rightarrow> None
         | Some (fd0, st1) \<Rightarrow>
        (case vfs_open fat tty O_RDWR st1 of None \<Rightarrow> None
         | Some (fd1, st2) \<Rightarrow>
        (case vfs_open fat tty O_RDWR st2 of None \<Rightarrow> None
         | Some (fd2, st3) \<Rightarrow>
        (case move_fd 0 fd0 st3 of None \<Rightarrow> None
         | Some st4 \<Rightarrow>
        (case move_fd 1 fd1 st4 of None \<Rightarrow> None
         | Some st5 \<Rightarrow>
        (case move_fd 2 fd2 st5 of None \<Rightarrow> None
         | Some st6 \<Rightarrow>
           Some (v_print (bytes_of ''VFS inicializado: stdin=0, stdout=1, stderr=2'' @ [10]) st6)))))))"

section \<open>Opening and closing\<close>

text \<open>Blocks of memory that belong to the private data of a file.\<close>

fun private_blocks :: "private_data \<Rightarrow> nat" where
  "private_blocks NoPrivate = 0"
| "private_blocks (ProcPrivate d) = (if pd_data d = None then 1 else 2)"
| "private_blocks (FatPrivate p) = 2"

definition name_blocks :: "vfile \<Rightarrow> nat" where
  "name_blocks x = (if f_name x = None then 0 else 1)"

text \<open>The functions of a file fit its private data.\<close>

definition file_wf :: "vfile \<Rightarrow> bool" where
  "file_wf x \<longleftrightarrow> (case f_private x of
      FatPrivate _ \<Rightarrow> f_close x = Some fat_close_fn \<and> f_read x = Some fat_read_fn \<and>
        f_write x = Some fat_write_fn \<and> f_lseek x = Some fat_lseek_fn
    | ProcPrivate _ \<Rightarrow> f_close x = Some proc_close_fn \<and> f_read x = Some proc_read_fn \<and>
        f_write x = None \<and> f_lseek x = Some proc_lseek_fn
    | NoPrivate \<Rightarrow> f_close x \<notin> {Some fat_close_fn, Some proc_close_fn} \<and>
        f_read x \<notin> {Some fat_read_fn, Some proc_read_fn} \<and> f_write x \<noteq> Some fat_write_fn \<and>
        f_lseek x \<notin> {Some fat_lseek_fn, Some proc_lseek_fn})"

text \<open>What every \<open>open\<close> of a driver does to a state in which \<open>file\<close> is the new object \<open>x\<close>.\<close>

definition opened :: "nat \<Rightarrow> vfile \<Rightarrow> 'fs vfs \<Rightarrow> int \<Rightarrow> 'fs vfs \<Rightarrow> bool" where
  "opened file x st r st' \<longleftrightarrow> fd_table st' = fd_table st \<and> fd_count st' = fd_count st \<and> v_fresh st \<le> v_fresh st' \<and>
     (\<forall>g. g \<noteq> file \<longrightarrow> v_files st' g = v_files st g) \<and>
     (\<exists>x'. v_files st' file = Some x' \<and> f_name x' = f_name x \<and>
        (if r = 0 then file_wf x' \<and> f_close x' \<noteq> None \<and> v_avail st' + private_blocks (f_private x') = v_avail st
         else x' = x \<and> v_avail st' = v_avail st))"

lemma fat_open_opened:
  assumes "v_files st file = Some x" "f_private x = NoPrivate"
  shows "\<exists>r st'. fat_open fat file path flags st = Some (r, st') \<and> opened file x st r st'"
  using assms
  by (auto simp: fat_open_def v_malloc_def v_free_def v_print_def set_file_def opened_def file_wf_def Let_def
      split: prod.splits if_splits)

lemma proc_fill_opened:
  assumes "v_files st file = Some x" "v_fresh st0 \<le> v_fresh st" "Suc (v_avail st) = v_avail st0"
    "fd_table st = fd_table st0" "fd_count st = fd_count st0" "v_files st = v_files st0"
  shows "\<exists>st'. proc_fill file txt st = Some (0, st') \<and> opened file x st0 0 st'"
  using assms
  by (auto simp: proc_fill_def v_strdup_def v_malloc_def set_file_def opened_def file_wf_def init_file_def)

lemma proc_open_opened:
  assumes "v_files st file = Some x"
  shows "\<exists>r st'. (case v_malloc st of None \<Rightarrow> Some (- 1, st)
      | Some (_, st1) \<Rightarrow> proc_fill file txt (st1\<lparr>proc_uptime := up\<rparr>)) = Some (r, st') \<and> opened file x st r st'"
proof (cases "v_avail st")
  case 0
  with assms show ?thesis by (simp add: v_malloc_def opened_def)
next
  case (Suc n)
  let ?st = "st\<lparr>v_fresh := Suc (v_fresh st), v_avail := n, proc_uptime := up\<rparr>"
  have "\<exists>st'. proc_fill file txt ?st = Some (0, st') \<and> opened file x st 0 st'"
    by (rule proc_fill_opened) (use assms Suc in simp_all)
  then show ?thesis using Suc by (auto simp: v_malloc_def)
qed

lemma call_open_opened:
  assumes "v_files st file = Some x"
  shows "\<exists>r st'. call_open fn file path flags st = Some (r, st') \<and> opened file x st r st'"
proof -
  have same: "(case v_malloc st of None \<Rightarrow> Some (- 1, st) | Some (_, st1) \<Rightarrow> proc_fill file tx st1) =
      (case v_malloc st of None \<Rightarrow> Some (- 1, st)
       | Some (_, st1) \<Rightarrow> proc_fill file tx (st1\<lparr>proc_uptime := proc_uptime st\<rparr>))" for tx
    by (simp add: v_malloc_def)
  show ?thesis
  proof (cases fn)
  case proc_meminfo_open_fn
  show ?thesis
    unfolding proc_meminfo_open_fn call_open.simps proc_meminfo_open_def same by (rule proc_open_opened [OF assms])
next
  case proc_cpuinfo_open_fn
  show ?thesis
    unfolding proc_cpuinfo_open_fn call_open.simps proc_cpuinfo_open_def same by (rule proc_open_opened [OF assms])
next
  case proc_uptime_open_fn
  have uptime: "(case v_malloc st of None \<Rightarrow> Some (- 1, st) | Some (_, st1) \<Rightarrow> let up = proc_uptime st1 + 10
        in proc_fill file (proc_uptime_text up) (st1\<lparr>proc_uptime := up\<rparr>)) =
      (case v_malloc st of None \<Rightarrow> Some (- 1, st)
       | Some (_, st1) \<Rightarrow> proc_fill file (proc_uptime_text (proc_uptime st + 10)) (st1\<lparr>proc_uptime := proc_uptime st + 10\<rparr>))"
    by (simp add: v_malloc_def Let_def)
  show ?thesis
    unfolding proc_uptime_open_fn call_open.simps proc_uptime_open_def uptime by (rule proc_open_opened [OF assms])
  qed (use assms in \<open>auto simp: tty_open_def null_open_def zero_open_def serial_open_def set_file_def
    opened_def file_wf_def init_file_def\<close>)
qed

lemma find_fd_None: "find_fd tab n i = None \<Longrightarrow> i \<le> j \<Longrightarrow> j < i + int n \<Longrightarrow> tab j \<noteq> None"
proof (induction tab n i rule: find_fd.induct)
  case (2 tab n i)
  then show ?case by (cases "j = i") (auto split: if_splits)
qed simp

lemma find_fd_Some:
  "find_fd tab n i = Some k \<Longrightarrow> i \<le> k \<and> k < i + int n \<and> tab k = None \<and> (\<forall>j. i \<le> j \<and> j < k \<longrightarrow> tab j \<noteq> None)"
proof (induction tab n i rule: find_fd.induct)
  case (2 tab n i)
  show ?case
  proof (cases "tab i = None")
    case True
    with 2 show ?thesis by auto
  next
    case False
    with 2 have "i + 1 \<le> k \<and> k < i + 1 + int n \<and> tab k = None \<and> (\<forall>j. i + 1 \<le> j \<and> j < k \<longrightarrow> tab j \<noteq> None)"
      by simp
    then have k: "i + 1 \<le> k" "k < i + 1 + int n" "tab k = None" "\<And>j. i + 1 \<le> j \<Longrightarrow> j < k \<Longrightarrow> tab j \<noteq> None"
      by blast+
    have "tab j \<noteq> None" if "i \<le> j" "j < k" for j
      using that False k(4) [of j] by (cases "j = i") simp_all
    with k(1-3) show ?thesis by simp
  qed
qed simp

lemma allocate_fd_cases:
  obtains (Full) "allocate_fd file st = (- 1, st)" "\<And>i. 3 \<le> i \<Longrightarrow> i < 256 \<Longrightarrow> fd_table st i \<noteq> None"
  | (Free) i where "allocate_fd file st =
        (i, st\<lparr>fd_table := (fd_table st)(i := Some file), fd_count := fd_count st + 1\<rparr>)"
      "3 \<le> i" "i < 256" "fd_table st i = None" "\<And>j. 3 \<le> j \<Longrightarrow> j < i \<Longrightarrow> fd_table st j \<noteq> None"
proof (cases "find_fd (fd_table st) 253 3")
  case None
  from find_fd_None [OF None] None show thesis by (intro Full) (simp_all add: allocate_fd_def)
next
  case (Some i)
  from find_fd_Some [OF Some] Some show thesis by (intro Free [of i]) (simp_all add: allocate_fd_def)
qed

text \<open>What \<open>vfs_open\<close> does to the descriptors, seen from a state in which \<open>file\<close> is allocated.\<close>

definition fd_result :: "nat \<Rightarrow> 'fs vfs \<Rightarrow> int \<Rightarrow> 'fs vfs \<Rightarrow> bool" where
  "fd_result file st fd st' \<longleftrightarrow> v_fresh st \<le> v_fresh st' \<and> (\<forall>g. g \<noteq> file \<longrightarrow> v_files st' g = v_files st g) \<and>
     (if fd = - 1 then fd_table st' = fd_table st \<and> fd_count st' = fd_count st \<and> v_files st' file = None
      else 3 \<le> fd \<and> fd < 256 \<and> fd_table st fd = None \<and> (\<forall>j. 3 \<le> j \<and> j < fd \<longrightarrow> fd_table st j \<noteq> None) \<and>
        fd_table st' = (fd_table st)(fd := Some file) \<and> fd_count st' = fd_count st + 1 \<and>
        (\<exists>x. v_files st' file = Some x \<and> file_wf x \<and> f_close x \<noteq> None))"

definition balanced :: "nat \<Rightarrow> nat \<Rightarrow> 'fs vfs \<Rightarrow> bool" where
  "balanced file n st' \<longleftrightarrow>
     (\<forall>x. v_files st' file = Some x \<longrightarrow> v_avail st' + private_blocks (f_private x) + name_blocks x = n)"

lemma fd_result_step:
  assumes "opened file x st r st1" "fd_result file st1 fd st'"
  shows "fd_result file st fd st'"
  using assms unfolding opened_def fd_result_def by auto

lemma try_drivers_result:
  assumes "v_files st file = Some x"
  shows "\<exists>fd st'. try_drivers ds file path flags st = Some (fd, st') \<and> fd_result file st fd st' \<and>
    (fd \<noteq> - 1 \<longrightarrow> balanced file (v_avail st + name_blocks x) st')"
  using assms
proof (induction ds arbitrary: st x)
  case Nil
  then show ?case by (auto simp: discard_file_def fd_result_def v_free_def Let_def split: option.split)
next
  case (Cons d ds)
  show ?case
  proof (cases "path = dd_path d")
    case False
    with Cons show ?thesis by simp
  next
    case True
    obtain r st1 where o: "call_open (dd_open d) file path flags st = Some (r, st1)" "opened file x st r st1"
      using call_open_opened [OF Cons.prems] by blast
    then obtain x1 where x1: "v_files st1 file = Some x1" "f_name x1 = f_name x"
      "if r = 0 then file_wf x1 \<and> f_close x1 \<noteq> None \<and> v_avail st1 + private_blocks (f_private x1) = v_avail st
       else x1 = x \<and> v_avail st1 = v_avail st" by (auto simp: opened_def)
    obtain fd st' where rest: "try_drivers ds file path flags st1 = Some (fd, st')" "fd_result file st1 fd st'"
      "fd \<noteq> - 1 \<longrightarrow> balanced file (v_avail st1 + name_blocks x1) st'"
      using Cons.IH [OF x1(1)] by blast
    note step = fd_result_step [OF o(2) rest(2)]
    show ?thesis
    proof (cases "r = 0")
      case r: False
      with o rest step x1 True show ?thesis by simp
    next
      case r: True
      show ?thesis
      proof (cases rule: allocate_fd_cases [of "file" st1])
        case Full
        have "fd = - 1"
          using rest(2) Full(2) [of fd] by (auto simp: fd_result_def split: if_splits)
        with Full r True o rest step show ?thesis by simp
      next
        case (Free i)
        let ?st = "st1\<lparr>fd_table := (fd_table st1)(i := Some file), fd_count := fd_count st1 + 1\<rparr>"
        have "try_drivers (d # ds) file path flags st = Some (i, ?st)" using Free r True o by simp
        moreover have "fd_result file st i ?st"
          using Free o(2) x1 r by (auto simp: fd_result_def opened_def)
        moreover have "balanced file (v_avail st + name_blocks x) ?st"
          using x1 r by (simp add: balanced_def name_blocks_def)
        ultimately show ?thesis by blast
      qed
    qed
  qed
qed

lemma discard_file_result:
  assumes "v_files st file = Some x"
  shows "\<exists>st'. discard_file file st = Some st' \<and> fd_table st' = fd_table st \<and> fd_count st' = fd_count st \<and>
    v_fresh st' = v_fresh st \<and> v_files st' = (v_files st)(file := None) \<and>
    v_avail st' = v_avail st + 1 + name_blocks x"
  using assms by (auto simp: discard_file_def v_free_def name_blocks_def Let_def split: option.split)

lemma vfs_open_result:
  "\<exists>fd st'. vfs_open fat path flags st = Some (fd, st') \<and>
     (if v_avail st = 0 then fd = - 1 \<and> st' = st
      else fd_result (v_fresh st) st fd st' \<and> v_fresh st < v_fresh st' \<and>
        (fd \<noteq> - 1 \<longrightarrow> balanced (v_fresh st) (v_avail st - 1) st'))"
proof (cases "v_avail st = 0")
  case True
  then show ?thesis by (simp add: vfs_open_def v_malloc_def)
next
  case False
  let ?f = "v_fresh st"
  obtain nm st2 where nm: "v_strdup path (st\<lparr>v_fresh := Suc ?f, v_avail := v_avail st - 1\<rparr>) = (nm, st2)"
    by fastforce
  let ?x = "zero_file\<lparr>f_name := nm\<rparr>"
  let ?st3 = "set_file ?f ?x st2"
  have st2: "fd_table st2 = fd_table st" "fd_count st2 = fd_count st" "v_files st2 = v_files st" "?f < v_fresh st2"
    "v_avail st2 + name_blocks ?x = v_avail st - 1"
    using nm False by (auto simp: v_strdup_def v_malloc_def name_blocks_def split: if_splits)
  have x: "v_files ?st3 ?f = Some ?x" by (simp add: set_file_def)
  have lift: "fd_result ?f st fd st' \<and> ?f < v_fresh st'" if "fd_result ?f ?st3 fd st'" for fd st'
    using that st2 by (auto simp: fd_result_def set_file_def)
  obtain r st4 where o: "fat_open fat ?f path flags ?st3 = Some (r, st4)" "opened ?f ?x ?st3 r st4"
    using fat_open_opened [OF x] by (force simp: zero_file_def)
  have unf: "vfs_open fat path flags st =
      (if r = 0 then (let (fd, st5) = allocate_fd ?f st4
         in if fd \<ge> 0 then Some (fd, st5) else map_option (\<lambda>st'. (- 1, st')) (discard_file ?f st5))
       else try_drivers drivers ?f path flags st4)"
    using False nm o(1) by (simp add: vfs_open_def v_malloc_def)
  have a3: "v_avail ?st3 = v_avail st2" "f_name ?x = nm" by (simp_all add: set_file_def)
  obtain x' where x': "v_files st4 ?f = Some x'" "f_name x' = nm"
    "if r = 0 then file_wf x' \<and> f_close x' \<noteq> None \<and> v_avail st4 + private_blocks (f_private x') = v_avail st2 else x' = ?x \<and> v_avail st4 = v_avail st2"
    using o(2) unfolding opened_def a3 by blast
  have nb: "name_blocks x' = name_blocks ?x" using x'(2) by (simp add: name_blocks_def)
  show ?thesis
  proof (cases "r = 0")
    case r: False
    obtain fd st' where t: "try_drivers drivers ?f path flags st4 = Some (fd, st')" "fd_result ?f st4 fd st'"
      "fd \<noteq> - 1 \<longrightarrow> balanced ?f (v_avail st4 + name_blocks x') st'"
      using try_drivers_result [OF x'(1)] by blast
    with lift [OF fd_result_step [OF o(2) t(2)]] r x' nb st2(5) False unf show ?thesis by simp
  next
    case r: True
    show ?thesis
    proof (cases rule: allocate_fd_cases [of "?f" st4])
      case Full
      obtain st' where d: "discard_file ?f st4 = Some st'" "fd_table st' = fd_table st4" "fd_count st' = fd_count st4"
        "v_fresh st' = v_fresh st4" "v_files st' = (v_files st4)(?f := None)"
        using discard_file_result [OF x'(1)] by blast
      have "fd_result ?f st4 (- 1) st'" using d by (simp add: fd_result_def)
      from lift [OF fd_result_step [OF o(2) this]] show ?thesis using Full d r False unf by simp
    next
      case (Free i)
      let ?st = "st4\<lparr>fd_table := (fd_table st4)(i := Some ?f), fd_count := fd_count st4 + 1\<rparr>"
      have "fd_result ?f st4 i ?st" using Free x' r by (auto simp: fd_result_def)
      from lift [OF fd_result_step [OF o(2) this]]
      have "fd_result ?f st i ?st \<and> ?f < v_fresh ?st" .
      moreover have "balanced ?f (v_avail st - 1) ?st"
        using x' r nb st2(5) by (simp add: balanced_def)
      moreover have "vfs_open fat path flags st = Some (i, ?st)" using Free r unf by simp
      ultimately show ?thesis using False by auto
    qed
  qed
qed

section \<open>The invariant of the descriptor table\<close>

text \<open>
  Every descriptor in use leads to a live file whose functions fit its data, no two
  descriptors share a file, and files are numbered below the next fresh number.
\<close>

definition vfs_ok :: "'fs vfs \<Rightarrow> bool" where
  "vfs_ok st \<longleftrightarrow>
     (\<forall>i f. fd_table st i = Some f \<longrightarrow> 0 \<le> i \<and> i < 256 \<and> (\<exists>x. v_files st f = Some x \<and> file_wf x)) \<and>
     (\<forall>i j f. fd_table st i = Some f \<and> fd_table st j = Some f \<longrightarrow> i = j) \<and>
     (\<forall>f. v_files st f \<noteq> None \<longrightarrow> f < v_fresh st)"

lemma vfs_okD:
  assumes "vfs_ok st" "fd_table st i = Some f"
  shows "0 \<le> i" "i < 256" "\<exists>x. v_files st f = Some x \<and> file_wf x" "f < v_fresh st"
proof -
  show *: "0 \<le> i" "i < 256" "\<exists>x. v_files st f = Some x \<and> file_wf x"
    using assms unfolding vfs_ok_def by blast+
  then have "v_files st f \<noteq> None" by auto
  then show "f < v_fresh st" using assms(1) unfolding vfs_ok_def by blast
qed

lemma vfs_ok_open:
  assumes ok: "vfs_ok st" and r: "fd_result (v_fresh st) st fd st'" "v_fresh st < v_fresh st'"
  shows "vfs_ok st'"
proof -
  have fr: "f < v_fresh st" if "v_files st f \<noteq> None" for f using ok that by (simp add: vfs_ok_def)
  have tb: "f < v_fresh st" if "fd_table st i = Some f" for i f using vfs_okD(4) [OF ok that] .
  have live: "f < v_fresh st'" if "v_files st' f \<noteq> None" for f
  proof (cases "f = v_fresh st")
    case True
    with r(2) show ?thesis by simp
  next
    case False
    then have "v_files st f \<noteq> None" using that r(1) by (simp add: fd_result_def)
    from fr [OF this] r(2) show ?thesis by simp
  qed
  show ?thesis
  proof (cases "fd = - 1")
    case True
    with r ok live show ?thesis
      unfolding vfs_ok_def fd_result_def by (metis (no_types, lifting) nat_neq_iff tb)
  next
    case False
    then have t: "fd_table st' = (fd_table st)(fd := Some (v_fresh st))" "3 \<le> fd" "fd < 256"
      "\<exists>x. v_files st' (v_fresh st) = Some x \<and> file_wf x" "\<And>g. g \<noteq> v_fresh st \<Longrightarrow> v_files st' g = v_files st g"
      using r(1) by (auto simp: fd_result_def)
    have "0 \<le> i \<and> i < 256 \<and> (\<exists>x. v_files st' f = Some x \<and> file_wf x)" if "fd_table st' i = Some f" for i f
    proof (cases "i = fd")
      case True
      with that t show ?thesis by auto
    next
      case False
      with that t(1) have "fd_table st i = Some f" by simp
      from vfs_okD [OF ok this] t(5) [of f] show ?thesis by auto
    qed
    moreover have "i = j" if "fd_table st' i = Some f" "fd_table st' j = Some f" for i j f
      using that t(1) tb ok unfolding vfs_ok_def by (auto split: if_splits)
    ultimately show ?thesis using live unfolding vfs_ok_def by blast
  qed
qed

lemma call_close_result:
  assumes "v_files st file = Some x" "file_wf x" "f_close x = Some fn"
  shows "\<exists>r st' x'. call_close fat fn file st = Some (r, st') \<and> fd_table st' = fd_table st \<and> fd_count st' = fd_count st \<and>
    v_fresh st' = v_fresh st \<and> v_files st' = (v_files st)(file := Some x') \<and> f_name x' = f_name x \<and>
    v_avail st' = v_avail st + private_blocks (f_private x)"
proof -
  have id: "(v_files st)(file := Some x) = v_files st" using assms(1) by (rule fun_upd_idem)
  show ?thesis
  proof (cases "f_private x")
    case NoPrivate
    then have "fn \<noteq> fat_close_fn" "fn \<noteq> proc_close_fn" using assms by (auto simp: file_wf_def)
    then have "call_close fat fn file st = Some (0, st)"
      by (cases fn) (simp_all add: null_close_def zero_close_def tty_close_def serial_close_def)
    with NoPrivate id show ?thesis by (intro exI [of _ 0] exI [of _ st] exI [of _ x]) simp
  next
    case (ProcPrivate d)
    then have "fn = proc_close_fn" using assms by (simp add: file_wf_def)
    with ProcPrivate assms(1) show ?thesis
      by (auto simp: proc_close_def set_file_def v_free_def Let_def split: option.split)
  next
    case (FatPrivate p)
    then have "fn = fat_close_fn" using assms by (simp add: file_wf_def)
    with FatPrivate assms(1) show ?thesis
      by (auto simp: fat_close_def set_file_def v_free_def Let_def split: prod.split)
  qed
qed

lemma vfs_close_file:
  assumes fd: "fd_table st fd = Some f" "0 \<le> fd" "fd < 256" and x: "v_files st f = Some x" and wf: "file_wf x"
  shows "\<exists>r st'. vfs_close fat fd st = Some (r, st') \<and> fd_table st' = (fd_table st)(fd := None) \<and>
    fd_count st' = fd_count st - 1 \<and> v_files st' = (v_files st)(f := None) \<and> v_fresh st' = v_fresh st \<and>
    (f_close x \<noteq> None \<longrightarrow> v_avail st' = v_avail st + private_blocks (f_private x) + name_blocks x + 1) \<and>
    v_avail st \<le> v_avail st'"
proof -
  have g: "get_file_from_fd fd st = Some f" using fd by (simp add: get_file_from_fd_def)
  have "\<exists>r st1 x1. (case f_close x of None \<Rightarrow> Some (0, st) | Some fn \<Rightarrow> call_close fat fn f st) = Some (r, st1) \<and>
      fd_table st1 = fd_table st \<and> fd_count st1 = fd_count st \<and> v_fresh st1 = v_fresh st \<and>
      v_files st1 = (v_files st)(f := Some x1) \<and> f_name x1 = f_name x \<and>
      (f_close x \<noteq> None \<longrightarrow> v_avail st1 = v_avail st + private_blocks (f_private x)) \<and> v_avail st \<le> v_avail st1"
  proof (cases "f_close x")
    case None
    have "(v_files st)(f := Some x) = v_files st" using x by (rule fun_upd_idem)
    with None show ?thesis by (intro exI [of _ 0] exI [of _ st] exI [of _ x]) simp
  next
    case (Some fn)
    from call_close_result [OF x wf Some, of fat] Some show ?thesis by auto
  qed
  then obtain r st1 x1 where c: "(case f_close x of None \<Rightarrow> Some (0, st) | Some fn \<Rightarrow> call_close fat fn f st) = Some (r, st1)"
    "fd_table st1 = fd_table st" "fd_count st1 = fd_count st" "v_fresh st1 = v_fresh st"
    "v_files st1 = (v_files st)(f := Some x1)" "f_name x1 = f_name x"
    "f_close x \<noteq> None \<longrightarrow> v_avail st1 = v_avail st + private_blocks (f_private x)" "v_avail st \<le> v_avail st1" by blast
  have "v_files st1 f = Some x1" using c(5) by simp
  from discard_file_result [OF this] obtain st2 where d: "discard_file f st1 = Some st2"
    "fd_table st2 = fd_table st1" "fd_count st2 = fd_count st1" "v_fresh st2 = v_fresh st1"
    "v_files st2 = (v_files st1)(f := None)" "v_avail st2 = v_avail st1 + 1 + name_blocks x1" by blast
  have "vfs_close fat fd st = Some (r, free_fd fd st2)"
    using g x c(1) d(1) by (simp add: vfs_close_def)
  moreover have "name_blocks x1 = name_blocks x" using c(6) by (simp add: name_blocks_def)
  ultimately show ?thesis using c d fd by (simp add: free_fd_def)
qed

lemma vfs_close_result:
  assumes ok: "vfs_ok st" and fd: "fd_table st fd = Some f" and x: "v_files st f = Some x"
  shows "\<exists>r st'. vfs_close fat fd st = Some (r, st') \<and> fd_table st' = (fd_table st)(fd := None) \<and>
    fd_count st' = fd_count st - 1 \<and> v_files st' = (v_files st)(f := None) \<and> v_fresh st' = v_fresh st \<and>
    (f_close x \<noteq> None \<longrightarrow> v_avail st' = v_avail st + private_blocks (f_private x) + name_blocks x + 1)"
proof -
  note D = vfs_okD [OF ok fd]
  have "file_wf x" using D(3) x by simp
  from vfs_close_file [OF fd D(1,2) x this, of fat] show ?thesis by blast
qed

lemma vfs_ok_close:
  assumes ok: "vfs_ok st" and fd: "fd_table st fd = Some f"
    and t: "fd_table st' = (fd_table st)(fd := None)" "v_files st' = (v_files st)(f := None)" "v_fresh st' = v_fresh st"
  shows "vfs_ok st'"
  using assms unfolding vfs_ok_def by (auto split: if_splits) 

section \<open>Starting up\<close>

text \<open>FatFs has no file of that name.\<close>

definition fat_rejects :: "'fs fatfs \<Rightarrow> u8 list \<Rightarrow> bool" where
  "fat_rejects fat path \<longleftrightarrow> (\<forall>fil mode fs. fst (ff_open fat fil path mode fs) \<noteq> FR_OK)"

definition tty_file :: "vfile \<Rightarrow> bool" where
  "tty_file x \<longleftrightarrow> f_read x = Some tty_read_fn \<and> f_write x = Some tty_write_fn \<and> f_close x = Some tty_close_fn \<and>
     f_ioctl x = Some tty_ioctl_fn \<and> f_lseek x = Some tty_lseek_fn \<and> f_private x = NoPrivate \<and> f_position x = 0"

lemma fat_open_rejected:
  assumes "fat_rejects fat path"
  shows "\<exists>st'. fat_open fat file path flags st = Some (- 1, st') \<and> fd_table st' = fd_table st \<and>
    fd_count st' = fd_count st \<and> v_files st' = v_files st \<and> v_fresh st \<le> v_fresh st' \<and> v_avail st' = v_avail st"
proof (cases "v_malloc st")
  case None
  then show ?thesis by (simp add: fat_open_def)
next
  case (Some p)
  obtain fil st1 where p: "p = (fil, st1)" by (cases p)
  have st1: "fd_table st1 = fd_table st" "fd_count st1 = fd_count st" "v_files st1 = v_files st"
    "v_fresh st \<le> v_fresh st1" "Suc (v_avail st1) = v_avail st"
    using Some p by (auto simp: v_malloc_def split: if_splits)
  define st2 where "st2 = (if flags AND O_APPEND \<noteq> 0
      then v_print (bytes_of ''fat_open: O_APPEND detectado!'' @ [10]) st1 else st1)"
  obtain r fs where o: "ff_open fat fil path (fat_open_mode flags) (v_fs st2) = (r, fs)" by fastforce
  have "r \<noteq> FR_OK" using assms o unfolding fat_rejects_def by (metis fst_conv)
  then have "fat_open fat file path flags st = Some (- 1, v_free (st2\<lparr>v_fs := fs\<rparr>))"
    using Some p o by (simp add: fat_open_def Let_def st2_def)
  moreover have "fd_table st2 = fd_table st1" "fd_count st2 = fd_count st1" "v_files st2 = v_files st1"
    "v_fresh st2 = v_fresh st1" "v_avail st2 = v_avail st1"
    by (simp_all add: st2_def v_print_def)
  ultimately show ?thesis using st1 by (simp add: v_free_def)
qed

lemma vfs_open_tty:
  assumes rej: "fat_rejects fat (bytes_of ''/dev/tty'')" and mem: "2 \<le> v_avail st"
    and i: "find_fd (fd_table st) 253 3 = Some i"
  shows "\<exists>st'. vfs_open fat (bytes_of ''/dev/tty'') flags st = Some (i, st') \<and>
    fd_table st' = (fd_table st)(i := Some (v_fresh st)) \<and> fd_count st' = fd_count st + 1 \<and>
    (\<forall>g. g \<noteq> v_fresh st \<longrightarrow> v_files st' g = v_files st g) \<and>
    (\<exists>x. v_files st' (v_fresh st) = Some x \<and> tty_file x) \<and> v_avail st' = v_avail st - 2 \<and> v_fresh st < v_fresh st'"
proof -
  let ?f = "v_fresh st" and ?p = "bytes_of ''/dev/tty''"
  let ?st2 = "st\<lparr>v_fresh := Suc (Suc ?f), v_avail := v_avail st - 2\<rparr>"
  let ?x = "zero_file\<lparr>f_name := Some ?p\<rparr>"
  let ?st3 = "set_file ?f ?x ?st2"
  obtain st4 where st4: "fat_open fat ?f ?p flags ?st3 = Some (- 1, st4)" "fd_table st4 = fd_table ?st3"
    "fd_count st4 = fd_count ?st3" "v_files st4 = v_files ?st3" "v_fresh ?st3 \<le> v_fresh st4" "v_avail st4 = v_avail ?st3"
    using fat_open_rejected [OF rej, of "?f" flags ?st3] by blast
  let ?y = "init_file tty_read_fn (Some tty_write_fn) tty_close_fn (Some tty_ioctl_fn) tty_lseek_fn NoPrivate ?x"
  let ?st5 = "set_file ?f ?y st4"
  let ?st6 = "?st5\<lparr>fd_table := (fd_table ?st5)(i := Some ?f), fd_count := fd_count ?st5 + 1\<rparr>"
  have x: "v_files st4 ?f = Some ?x" using st4(4) by (simp add: set_file_def)
  have tb: "fd_table ?st5 = fd_table st" using st4(2) by (simp add: set_file_def)
  have al: "allocate_fd ?f ?st5 = (i, ?st6)" using i tb by (simp add: allocate_fd_def)
  have i3: "3 \<le> i" using find_fd_Some [OF i] by simp
  have ta: "tty_open ?f ?p flags st4 = Some (0, ?st5)" using x by (simp add: tty_open_def)
  have "try_drivers drivers ?f ?p flags st4 = Some (i, ?st6)"
    using i3 by (simp add: drivers_def ta al)
  moreover have sd: "v_strdup ?p (st\<lparr>v_fresh := Suc ?f, v_avail := v_avail st - 1\<rparr>) = (Some ?p, ?st2)"
    using mem by (simp add: v_strdup_def v_malloc_def)
  ultimately have "vfs_open fat ?p flags st = Some (i, ?st6)"
    using mem st4(1) by (simp add: vfs_open_def v_malloc_def)
  then show ?thesis using st4 by (auto simp: set_file_def tty_file_def init_file_def)
qed

lemma find_fd_first:
  assumes "\<And>i. 3 \<le> i \<Longrightarrow> i < k \<Longrightarrow> tab i \<noteq> None" "tab k = None" "3 \<le> k" "k < 256"
  shows "find_fd tab 253 3 = Some k"
proof (cases "find_fd tab 253 3")
  case None
  from find_fd_None [OF None, of k] assms show ?thesis by simp
next
  case (Some j)
  from find_fd_Some [OF Some] assms have "j = k" by (metis linorder_neqE)
  with Some show ?thesis by simp
qed

lemma vfs_init_result:
  assumes rej: "fat_rejects fat (bytes_of ''/dev/tty'')" and mem: "6 \<le> v_avail st"
  shows "\<exists>st' f0 f1 f2. vfs_init fat st = Some st' \<and> distinct [f0, f1, f2] \<and>
    fd_table st' = (\<lambda>_. None)(0 := Some f0, 1 := Some f1, 2 := Some f2) \<and> fd_count st' = 0 \<and>
    (\<forall>f \<in> {f0, f1, f2}. \<exists>x. v_files st' f = Some x \<and> tty_file x)"
proof -
  let ?p = "bytes_of ''/dev/tty''"
  let ?st0 = "st\<lparr>fd_table := (\<lambda>_. None), fd_count := 0\<rparr>"
  obtain st1 where s1: "vfs_open fat ?p O_RDWR ?st0 = Some (3, st1)"
    "fd_table st1 = (\<lambda>_. None)(3 := Some (v_fresh st))" "fd_count st1 = 1"
    "\<exists>x. v_files st1 (v_fresh st) = Some x \<and> tty_file x" "v_avail st1 = v_avail st - 2" "v_fresh st < v_fresh st1"
    using vfs_open_tty [OF rej, of ?st0 3 O_RDWR] mem find_fd_first [of 3 "\<lambda>_. None"] by auto
  have m1: "2 \<le> v_avail st1" using mem s1(5) by simp
  have n1: "find_fd (fd_table st1) 253 3 = Some 4" by (rule find_fd_first) (auto simp: s1(2))
  obtain st2 where s2: "vfs_open fat ?p O_RDWR st1 = Some (4, st2)"
    "fd_table st2 = (fd_table st1)(4 := Some (v_fresh st1))" "fd_count st2 = 2"
    "\<forall>g. g \<noteq> v_fresh st1 \<longrightarrow> v_files st2 g = v_files st1 g"
    "\<exists>x. v_files st2 (v_fresh st1) = Some x \<and> tty_file x" "v_avail st2 = v_avail st1 - 2" "v_fresh st1 < v_fresh st2"
    using vfs_open_tty [OF rej m1 n1, of O_RDWR] s1(3) by auto
  have m2: "2 \<le> v_avail st2" using mem s1(5) s2(6) by simp
  have n2: "find_fd (fd_table st2) 253 3 = Some 5" by (rule find_fd_first) (auto simp: s1(2) s2(2))
  obtain st3 where s3: "vfs_open fat ?p O_RDWR st2 = Some (5, st3)"
    "fd_table st3 = (fd_table st2)(5 := Some (v_fresh st2))" "fd_count st3 = 3"
    "\<forall>g. g \<noteq> v_fresh st2 \<longrightarrow> v_files st3 g = v_files st2 g"
    "\<exists>x. v_files st3 (v_fresh st2) = Some x \<and> tty_file x"
    using vfs_open_tty [OF rej m2 n2, of O_RDWR] s2(3) by auto
  let ?t = "(\<lambda>_. None)(0 := Some (v_fresh st), 1 := Some (v_fresh st1), 2 := Some (v_fresh st2))"
  have tab: "fd_table st3 = (\<lambda>_. None)(3 := Some (v_fresh st), 4 := Some (v_fresh st1), 5 := Some (v_fresh st2))"
    using s1(2) s2(2) s3(2) by simp
  define st6 where "st6 = st3\<lparr>fd_table := ?t, fd_count := 0\<rparr>"
  let ?a = "st3\<lparr>fd_table := (\<lambda>_. None)(0 := Some (v_fresh st), 4 := Some (v_fresh st1), 5 := Some (v_fresh st2)), fd_count := 2\<rparr>"
  let ?b = "st3\<lparr>fd_table := (\<lambda>_. None)(0 := Some (v_fresh st), 1 := Some (v_fresh st1), 5 := Some (v_fresh st2)), fd_count := 1\<rparr>"
  have mv: "move_fd t k a = Some b" if "t \<noteq> k" "0 \<le> k" "(fd_table a)(t := fd_table a k, k := None) = T"
    "b = a\<lparr>fd_table := T, fd_count := fd_count a - 1\<rparr>" for t k T and a b :: "'a vfs"
    using that by (simp add: move_fd_def)
  have "move_fd 0 3 st3 = Some ?a"
    by (rule mv [OF _ _ _ refl, THEN trans]) (use s3(3) in \<open>auto simp: tab\<close>)
  moreover have "move_fd 1 4 ?a = Some ?b"
    by (rule mv [OF _ _ _ refl, THEN trans]) auto
  moreover have "move_fd 2 5 ?b = Some st6"
    by (rule mv [OF _ _ _ refl, THEN trans]) (auto simp: st6_def)
  ultimately have "vfs_init fat st = Some (v_print (bytes_of ''VFS inicializado: stdin=0, stdout=1, stderr=2'' @ [10]) st6)"
    using s1(1) s2(1) s3(1) by (simp add: vfs_init_def del: fun_upd_apply)
  moreover have "v_files st3 (v_fresh st) = v_files st1 (v_fresh st)" "v_files st3 (v_fresh st1) = v_files st2 (v_fresh st1)"
    using s1(6) s2(4,7) s3(4) by simp_all
  ultimately show ?thesis
    using s1(4,6) s2(5,7) s3(5)
    by (intro exI [of _ "v_print (bytes_of ''VFS inicializado: stdin=0, stdout=1, stderr=2'' @ [10]) st6"]
        exI [of _ "v_fresh st"] exI [of _ "v_fresh st1"] exI [of _ "v_fresh st2"])
      (simp add: v_print_def st6_def)
qed

section \<open>Properties\<close>

text \<open>
  C11: opening always returns; on success the result is the lowest free descriptor from
  3 on, which now leads to a fresh file, every other descriptor and file is untouched and the
  count of descriptors grows by one; on failure it is -1 and the descriptors are as before.
  The table stays well formed either way.
\<close>

theorem vfs_open_takes_lowest_descriptor:
  assumes "vfs_ok st"
  shows "\<exists>fd st'. vfs_open fat path flags st = Some (fd, st') \<and> vfs_ok st' \<and>
    (\<forall>g. g < v_fresh st \<longrightarrow> v_files st' g = v_files st g) \<and>
    (if fd = - 1 then fd_table st' = fd_table st \<and> fd_count st' = fd_count st
     else 3 \<le> fd \<and> fd < 256 \<and> fd_table st fd = None \<and> (\<forall>j. 3 \<le> j \<and> j < fd \<longrightarrow> fd_table st j \<noteq> None) \<and>
       fd_table st' = (fd_table st)(fd := Some (v_fresh st)) \<and> fd_count st' = fd_count st + 1)"
proof -
  obtain fd st' where o: "vfs_open fat path flags st = Some (fd, st')"
    "if v_avail st = 0 then fd = - 1 \<and> st' = st
      else fd_result (v_fresh st) st fd st' \<and> v_fresh st < v_fresh st' \<and>
        (fd \<noteq> - 1 \<longrightarrow> balanced (v_fresh st) (v_avail st - 1) st')"
    using vfs_open_result [of fat path flags st] by blast
  show ?thesis
  proof (cases "v_avail st = 0")
    case True
    with o assms show ?thesis by simp
  next
    case False
    with o have r: "fd_result (v_fresh st) st fd st'" "v_fresh st < v_fresh st'" by simp_all
    from vfs_ok_open [OF assms r] r(1) o(1) show ?thesis by (auto simp: fd_result_def)
  qed
qed

text \<open>
  Closing an open descriptor always returns, frees the descriptor and its file and
  nothing else, and keeps the table well formed.
\<close>

theorem vfs_close_frees_descriptor:
  assumes "vfs_ok st" "fd_table st fd = Some f"
  shows "\<exists>r st'. vfs_close fat fd st = Some (r, st') \<and> vfs_ok st' \<and> fd_table st' = (fd_table st)(fd := None) \<and>
    v_files st' = (v_files st)(f := None) \<and> fd_count st' = fd_count st - 1"
proof -
  obtain x where "v_files st f = Some x" using vfs_okD(3) [OF assms] by blast
  from vfs_close_result [OF assms this, of fat] show ?thesis
    using vfs_ok_close [OF assms] by blast
qed

text \<open>
  C12: closing the descriptor that an open returned gives back all memory the open
  took: the number of free blocks of the heap is the one before the open, the file
  object is gone, and the descriptor table and its count are restored. It holds for
  whatever driver opened the file, because each of them sets a close function that
  releases its private data (\<open>opened\<close>, \<open>fd_result\<close>).
\<close>

theorem vfs_open_close_restores:
  assumes ok: "vfs_ok st" and o: "vfs_open fat path flags st = Some (fd, st1)" and fd: "fd \<noteq> - 1"
  shows "\<exists>r st2. vfs_close fat fd st1 = Some (r, st2) \<and> fd_table st2 = fd_table st \<and> fd_count st2 = fd_count st \<and>
    v_avail st2 = v_avail st \<and> v_files st2 (v_fresh st) = None"
proof -
  have av: "v_avail st \<noteq> 0" using vfs_open_result [of fat path flags st] o fd by (auto split: if_splits)
  have r: "fd_result (v_fresh st) st fd st1" "v_fresh st < v_fresh st1" "balanced (v_fresh st) (v_avail st - 1) st1"
    using vfs_open_result [of fat path flags st] o fd av by auto
  have t: "fd_table st1 = (fd_table st)(fd := Some (v_fresh st))" "fd_table st fd = None" "fd_count st1 = fd_count st + 1"
    using r(1) fd by (auto simp: fd_result_def)
  obtain x where x: "v_files st1 (v_fresh st) = Some x" "f_close x \<noteq> None"
    using r(1) fd by (auto simp: fd_result_def)
  have t1: "fd_table st1 fd = Some (v_fresh st)" using t(1) by simp
  from vfs_close_result [OF vfs_ok_open [OF ok r(1,2)] t1 x(1), of fat] obtain r' st2 where
    c: "vfs_close fat fd st1 = Some (r', st2)" "fd_table st2 = (fd_table st1)(fd := None)" "fd_count st2 = fd_count st1 - 1"
      "v_files st2 = (v_files st1)(v_fresh st := None)"
      "f_close x \<noteq> None \<longrightarrow> v_avail st2 = v_avail st1 + private_blocks (f_private x) + name_blocks x + 1" by blast
  have "fd_table st2 = fd_table st" using c(2) t(1,2) by (auto simp: fun_eq_iff)
  moreover have "v_avail st1 + private_blocks (f_private x) + name_blocks x = v_avail st - 1"
    using r(3) x by (simp add: balanced_def)
  ultimately show ?thesis using c t av x by auto
qed

text \<open>
  When the volume has no such file and memory for it is left, starting up makes the
  descriptors 0, 1 and 2 three separate console files, and no other descriptor is in use.
\<close>

theorem vfs_init_standard_descriptors:
  assumes "fat_rejects fat (bytes_of ''/dev/tty'')" "6 \<le> v_avail st"
  shows "\<exists>st' f0 f1 f2. vfs_init fat st = Some st' \<and> distinct [f0, f1, f2] \<and>
    fd_table st' = (\<lambda>_. None)(0 := Some f0, 1 := Some f1, 2 := Some f2) \<and> fd_count st' = 0 \<and>
    (\<forall>f \<in> {f0, f1, f2}. \<exists>x. v_files st' f = Some x \<and> tty_file x)"
  using assms by (rule vfs_init_result)

text \<open>
  With all descriptors taken, opening a file of the volume fails, but the file stays
  open in FatFs and the two blocks of its private data are lost: nothing calls \<open>fat_close\<close>.
\<close>

theorem vfs_open_full_leaks:
  assumes full: "\<And>i. 3 \<le> i \<Longrightarrow> i < 256 \<Longrightarrow> fd_table st i \<noteq> None" and mem: "4 \<le> v_avail st"
    and plain: "flags AND O_APPEND = 0"
    and opens: "ff_open fat (Suc (Suc (v_fresh st))) path (fat_open_mode flags) (v_fs st) = (FR_OK, fs)"
  shows "\<exists>st'. vfs_open fat path flags st = Some (- 1, st') \<and> v_avail st' = v_avail st - 2 \<and> v_fs st' = fs"
proof -
  let ?f = "v_fresh st"
  have "find_fd (fd_table st) 253 3 = None"
  proof (cases "find_fd (fd_table st) 253 3")
    case (Some i)
    from find_fd_Some [OF Some] full [of i] show ?thesis by simp
  qed
  note none = this
  from mem obtain n where n: "v_avail st = Suc (Suc (Suc (Suc n)))"
    by (metis Suc_le_D add_2_eq_Suc' numeral_Bit0 numeral_One plus_1_eq_Suc Suc_le_mono numeral_2_eq_2)
  let ?st2 = "st\<lparr>v_fresh := Suc (Suc ?f), v_avail := Suc (Suc n)\<rparr>"
  let ?x = "zero_file\<lparr>f_name := Some path\<rparr>"
  let ?st3 = "set_file ?f ?x ?st2"
  let ?p = "\<lparr>fp_fat_file = Suc (Suc ?f), fp_mode = fat_open_mode flags, fp_size = ff_size fat (Suc (Suc ?f)) fs\<rparr>"
  let ?y = "?x\<lparr>f_private := FatPrivate ?p, f_position := 0, f_read := Some fat_read_fn,
      f_write := Some fat_write_fn, f_close := Some fat_close_fn, f_lseek := Some fat_lseek_fn\<rparr>"
  let ?st4 = "set_file ?f ?y (?st3\<lparr>v_fresh := Suc (Suc (Suc (Suc ?f))), v_avail := n, v_fs := fs\<rparr>)"
  have s: "v_strdup path (st\<lparr>v_fresh := Suc ?f, v_avail := Suc (Suc (Suc n))\<rparr>) = (Some path, ?st2)"
    by (simp add: v_strdup_def v_malloc_def)
  have o: "fat_open fat ?f path flags ?st3 = Some (0, ?st4)"
    using plain opens by (simp add: fat_open_def v_malloc_def set_file_def)
  have a: "allocate_fd ?f ?st4 = (- 1, ?st4)"
    using none by (simp add: allocate_fd_def set_file_def)
  have "discard_file ?f ?st4 = Some (v_free (v_free (?st4\<lparr>v_files := (v_files ?st4)(?f := None)\<rparr>)))"
    by (simp add: discard_file_def set_file_def v_free_def)
  then have "vfs_open fat path flags st = Some (- 1, v_free (v_free (?st4\<lparr>v_files := (v_files ?st4)(?f := None)\<rparr>)))"
    using n s o a by (simp add: vfs_open_def v_malloc_def)
  then show ?thesis by (simp add: v_free_def set_file_def n)
qed

text \<open>
  A file opened read-only is opened for writing as well, as \<open>O_RDONLY\<close> is a bit of
  \<open>O_RDWR\<close>; and \<open>O_CREAT\<close> alone selects \<open>FA_CREATE_ALWAYS\<close>, which empties an existing file.
\<close>

theorem fat_open_mode_too_wide:
  "fat_open_mode O_RDONLY = FA_READ OR FA_WRITE \<and>
   fat_open_mode (O_RDWR OR O_CREAT) = FA_READ OR FA_WRITE OR FA_CREATE_ALWAYS"
  by (simp add: fat_open_mode_def O_RDONLY_def O_WRONLY_def O_RDWR_def O_CREAT_def O_TRUNC_def O_APPEND_def
      FA_READ_def FA_WRITE_def FA_CREATE_ALWAYS_def)

text \<open>
  However a text under \<open>/proc\<close> is read, in pieces of any sizes, the pieces are in
  order the next bytes of the text, and the reads never fail.
\<close>

theorem proc_reads_deliver_text:
  assumes "proc_file file st"
  shows "fst (seq_reads (proc_fetch file buffer) ns st) =
    take (sum_list (map unat ns)) (drop (unat (pd_position (proc_of file st))) (proc_content file st))"
  using assms by (rule procf.reads_data)

section \<open>Instances\<close>

definition demo_fat :: "unit fatfs" where
  "demo_fat = \<lparr>ff_open = (\<lambda>fil path mode fs. (if path = bytes_of ''A.TXT'' then 0 else 4, fs)),
     ff_close = (\<lambda>fil fs. (0, fs)), ff_read = (\<lambda>fil n fs. (0, [], fs)), ff_write = (\<lambda>fil bs fs. (0, 0, fs)),
     ff_lseek = (\<lambda>fil p fs. (0, fs)), ff_tell = (\<lambda>fil fs. 0), ff_size = (\<lambda>fil fs. 0)\<rparr>"

definition demo_vfs :: "unit vfs" where
  "demo_vfs = \<lparr>v_files = (\<lambda>f. if f = 0 then Some (zero_file\<lparr>f_close := Some tty_close_fn\<rparr>) else None), v_fresh = 1, v_avail = 9,
     fd_table = (\<lambda>i. if i = 3 then Some 0 else None), fd_count = 1, v_mem = (\<lambda>_. 0), v_in = [], v_out = [],
     s_lsr = [], s_rx = [], s_tx = [], proc_uptime = 0, v_fs = ()\<rparr>"

lemma demo_vfs_ok: "vfs_ok demo_vfs"
  by (auto simp: vfs_ok_def demo_vfs_def file_wf_def zero_file_def split: if_splits)

theorem vfs_open_takes_lowest_descriptor_witness:
  "\<exists>fd st'. vfs_open demo_fat (bytes_of ''A.TXT'') O_RDWR demo_vfs = Some (fd, st') \<and> vfs_ok st'"
  using vfs_open_takes_lowest_descriptor [OF demo_vfs_ok, of demo_fat "bytes_of ''A.TXT''" O_RDWR] by blast

theorem vfs_close_frees_descriptor_witness:
  "\<exists>r st'. vfs_close demo_fat 3 demo_vfs = Some (r, st') \<and> fd_table st' = (\<lambda>_. None)"
proof -
  have "fd_table demo_vfs 3 = Some 0" by (simp add: demo_vfs_def)
  from vfs_close_frees_descriptor [OF demo_vfs_ok this, of demo_fat]
  obtain r st' where "vfs_close demo_fat 3 demo_vfs = Some (r, st')" "fd_table st' = (fd_table demo_vfs)(3 := None)"
    by blast
  moreover have "(fd_table demo_vfs)(3 := None) = (\<lambda>_. None)" by (auto simp: demo_vfs_def)
  ultimately show ?thesis by metis
qed

theorem vfs_open_close_restores_witness:
  "\<exists>st1 r st2. vfs_open demo_fat (bytes_of ''A.TXT'') O_RDWR demo_vfs = Some (4, st1) \<and>
    vfs_close demo_fat 4 st1 = Some (r, st2) \<and> fd_table st2 = fd_table demo_vfs \<and> v_avail st2 = 9"
proof -
  have "\<exists>st1. vfs_open demo_fat (bytes_of ''A.TXT'') O_RDWR demo_vfs = Some (4, st1)"
  proof -
    have "find_fd (\<lambda>i. if i = 3 then Some 0 else None) 253 3 = Some 4" by (rule find_fd_first) auto
    then show ?thesis
      by (simp add: vfs_open_def v_malloc_def v_strdup_def fat_open_def set_file_def allocate_fd_def
          demo_fat_def demo_vfs_def FR_OK_def O_RDWR_def O_APPEND_def Let_def)
  qed
  then obtain st1 where o: "vfs_open demo_fat (bytes_of ''A.TXT'') O_RDWR demo_vfs = Some (4, st1)" by blast
  have "(4 :: int) \<noteq> - 1" by simp
  have nine: "v_avail demo_vfs = 9" by (simp add: demo_vfs_def)
  from vfs_open_close_restores [OF demo_vfs_ok o \<open>(4 :: int) \<noteq> - 1\<close>] o show ?thesis unfolding nine by blast
qed

theorem vfs_init_standard_descriptors_witness:
  "\<exists>st' f0 f1 f2. vfs_init demo_fat demo_vfs = Some st' \<and>
    fd_table st' = (\<lambda>_. None)(0 := Some f0, 1 := Some f1, 2 := Some f2)"
proof -
  have "fat_rejects demo_fat (bytes_of ''/dev/tty'')"
    by (simp add: fat_rejects_def demo_fat_def FR_OK_def bytes_of_def)
  moreover have "6 \<le> v_avail demo_vfs" by (simp add: demo_vfs_def)
  ultimately show ?thesis using vfs_init_standard_descriptors [of demo_fat demo_vfs] by blast
qed

theorem vfs_open_full_leaks_witness:
  "\<exists>st'. vfs_open demo_fat (bytes_of ''A.TXT'') O_RDWR (demo_vfs\<lparr>fd_table := (\<lambda>_. Some 0)\<rparr>) = Some (- 1, st') \<and> v_avail st' = 7"
proof -
  let ?st = "demo_vfs\<lparr>fd_table := (\<lambda>_. Some 0)\<rparr>"
  have "\<exists>st'. vfs_open demo_fat (bytes_of ''A.TXT'') O_RDWR ?st = Some (- 1, st') \<and> v_avail st' = v_avail ?st - 2 \<and> v_fs st' = ()"
    by (rule vfs_open_full_leaks) (simp_all add: demo_vfs_def demo_fat_def O_RDWR_def O_APPEND_def FR_OK_def)
  then show ?thesis by (simp add: demo_vfs_def)
qed

theorem proc_reads_deliver_text_witness:
  "fst (seq_reads (proc_fetch 0 0x100) [2, 5] (demo_vfs\<lparr>v_files := (\<lambda>_. Some (zero_file\<lparr>f_private :=
      ProcPrivate \<lparr>pd_data = Some [65, 66, 67], pd_size = 3, pd_position = 0\<rparr>\<rparr>))\<rparr>)) = [65, 66, 67]"
proof -
  let ?st = "demo_vfs\<lparr>v_files := (\<lambda>_. Some (zero_file\<lparr>f_private :=
      ProcPrivate \<lparr>pd_data = Some [65, 66, 67], pd_size = 3, pd_position = 0\<rparr>\<rparr>))\<rparr>"
  have "proc_file 0 ?st" by (simp add: proc_file_def)
  from proc_reads_deliver_text [OF this, of "0x100" "[2, 5]"] show ?thesis
    by (simp add: proc_of_def proc_content_def)
qed

end
