(* ===== verification/Slots.thy ===== *)
theory Slots
  imports Prelude
begin

text \<open>
  The memory slots that programs are loaded into (\<^verbatim>\<open>apps/shell/slots.c\<close>, \<^verbatim>\<open>slots.h\<close>): ten
  blocks of 256 KB, each in use or not.
\<close>

section \<open>Operations\<close>

definition SLOT_BASE :: u32 where "SLOT_BASE = 0x00092000"
definition SLOT_SIZE :: u32 where "SLOT_SIZE = 0x00040000"
definition SLOT_COUNT :: nat where "SLOT_COUNT = 10"

type_synonym slots = "nat \<Rightarrow> u8"

definition Slots_Init :: "slots \<Rightarrow> slots" where
  "Slots_Init s = (\<lambda>i. if i < SLOT_COUNT then 0 else s i)"

text \<open>The loop over the slots with \<open>n\<close> left to look at.\<close>

fun slots_alloc_loop :: "nat \<Rightarrow> nat \<Rightarrow> slots \<Rightarrow> int \<times> slots" where
  "slots_alloc_loop 0 i s = (- 1, s)"
| "slots_alloc_loop (Suc n) i s = (if s i = 0 then (int i, s(i := 1)) else slots_alloc_loop n (Suc i) s)"

definition Slots_Alloc :: "slots \<Rightarrow> int \<times> slots" where
  "Slots_Alloc s = slots_alloc_loop SLOT_COUNT 0 s"

definition Slots_Free :: "int \<Rightarrow> slots \<Rightarrow> slots" where
  "Slots_Free slot_index s =
     (if slot_index \<ge> 0 \<and> slot_index < int SLOT_COUNT then s(nat slot_index := 0) else s)"

definition Slots_BaseAddr :: "int \<Rightarrow> u32" where
  "Slots_BaseAddr slot_index = SLOT_BASE + of_int slot_index * SLOT_SIZE"

section \<open>Allocation\<close>

lemma slots_alloc_loop_cases:
  obtains (Full) "slots_alloc_loop n i s = (- 1, s)" "\<And>j. i \<le> j \<Longrightarrow> j < i + n \<Longrightarrow> s j \<noteq> 0"
  | (Free) k where "slots_alloc_loop n i s = (int k, s(k := 1))" "i \<le> k" "k < i + n" "s k = 0"
      "\<And>j. i \<le> j \<Longrightarrow> j < k \<Longrightarrow> s j \<noteq> 0"
proof (induction n arbitrary: i thesis)
  case 0
  then show ?case by simp
next
  case (Suc n)
  show ?case
  proof (cases "s i = 0")
    case True
    then show ?thesis by (intro Suc.prems(2) [of i]) (simp_all add: fun_upd_def)
  next
    case False
    show ?thesis
    proof (rule Suc.IH [of "Suc i"])
      assume f: "slots_alloc_loop n (Suc i) s = (- 1, s)" "\<And>j. Suc i \<le> j \<Longrightarrow> j < Suc i + n \<Longrightarrow> s j \<noteq> 0"
      have "s j \<noteq> 0" if "i \<le> j" "j < i + Suc n" for j
        using that False f(2) [of j] by (cases "j = i") simp_all
      with f(1) False show ?thesis by (intro Suc.prems(1)) simp_all
    next
      fix k
      assume f: "slots_alloc_loop n (Suc i) s = (int k, s(k := 1))" "Suc i \<le> k" "k < Suc i + n" "s k = 0"
        "\<And>j. Suc i \<le> j \<Longrightarrow> j < k \<Longrightarrow> s j \<noteq> 0"
      have "s j \<noteq> 0" if "i \<le> j" "j < k" for j
        using that False f(5) [of j] by (cases "j = i") simp_all
      with f(1-4) False show ?thesis by (intro Suc.prems(2) [of k]) (simp_all add: fun_upd_def)
    qed
  qed
qed

lemma Slots_Alloc_cases:
  obtains (Full) "Slots_Alloc s = (- 1, s)" "\<And>j. j < SLOT_COUNT \<Longrightarrow> s j \<noteq> 0"
  | (Free) k where "Slots_Alloc s = (int k, s(k := 1))" "k < SLOT_COUNT" "s k = 0" "\<And>j. j < k \<Longrightarrow> s j \<noteq> 0"
  by (rule slots_alloc_loop_cases [of SLOT_COUNT 0 s]) (auto simp: Slots_Alloc_def)

lemma Slots_Free_Alloc:
  assumes "Slots_Alloc s = (i, s')" "i \<noteq> - 1"
  shows "Slots_Free i s' = s"
proof (cases rule: Slots_Alloc_cases [of s])
  case Full
  with assms show ?thesis by simp
next
  case (Free k)
  then have "i = int k" "s' = s(k := 1)" using assms by simp_all
  with Free(2,3) show ?thesis by (auto simp: Slots_Free_def)
qed

lemma slot_base: "i < 10 \<Longrightarrow> unat (Slots_BaseAddr (int i)) = 0x92000 + i * 0x40000"
proof -
  assume i: "i < 10"
  have "Slots_BaseAddr (int i) = of_nat (0x92000 + i * 0x40000)"
    by (simp add: Slots_BaseAddr_def SLOT_BASE_def SLOT_SIZE_def)
  then show ?thesis using i by (simp only: unat_of_nat) simp
qed

lemma slots_disjoint:
  assumes "i < SLOT_COUNT" "j < SLOT_COUNT" "i \<noteq> j"
  shows "disjoint_blocks (Slots_BaseAddr (int i)) (unat SLOT_SIZE) (Slots_BaseAddr (int j)) (unat SLOT_SIZE)"
proof -
  have *: "unat SLOT_SIZE \<le> unat (Slots_BaseAddr (int b) - Slots_BaseAddr (int a))" if "a < 10" "b < 10" "a \<noteq> b" for a b
  proof (cases "a < b")
    case True
    have "Slots_BaseAddr (int a) \<le> Slots_BaseAddr (int b)"
      using slot_base [OF that(1)] slot_base [OF that(2)] True by (simp add: word_le_nat_alt)
    then have "unat (Slots_BaseAddr (int b) - Slots_BaseAddr (int a)) = (b - a) * 0x40000"
      using slot_base [OF that(1)] slot_base [OF that(2)] True by (simp add: unat_sub diff_mult_distrib)
    then show ?thesis using True by (simp add: SLOT_SIZE_def)
  next
    case False
    then have lt: "b < a" using that by simp
    have le: "Slots_BaseAddr (int b) \<le> Slots_BaseAddr (int a)"
      using slot_base [OF that(1)] slot_base [OF that(2)] lt by (simp add: word_le_nat_alt)
    then have u: "unat (Slots_BaseAddr (int a) - Slots_BaseAddr (int b)) = (a - b) * 0x40000"
      using slot_base [OF that(1)] slot_base [OF that(2)] lt by (simp add: unat_sub diff_mult_distrib)
    then have nz: "Slots_BaseAddr (int a) - Slots_BaseAddr (int b) \<noteq> 0" using lt by auto
    have "unat (Slots_BaseAddr (int b) - Slots_BaseAddr (int a)) = 2 ^ 32 - (a - b) * 0x40000"
      using unat_uminus [OF nz] u by simp
    then show ?thesis using that lt by (simp add: SLOT_SIZE_def)
  qed
  show ?thesis using assms * [of i j] * [of j i] by (simp add: disjoint_blocks_def SLOT_COUNT_def)
qed

text \<open>The heap that \<open>main\<close> of \<^verbatim>\<open>shell.c\<close> hands to \<open>malloc_init\<close>.\<close>

definition HEAP_START :: u32 where "HEAP_START = 0x94000"
definition HEAP_SIZE :: u32 where "HEAP_SIZE = 128 * 1024"

section \<open>Properties\<close>

text \<open>
  An allocation returns the lowest free slot, which is then in use, or -1 when every
  slot is in use; freeing it restores the table; and the memory of different slots is disjoint.
\<close>

theorem slots_alloc_free:
  "(if \<exists>i < SLOT_COUNT. s i = 0
    then (\<exists>k < SLOT_COUNT. Slots_Alloc s = (int k, s(k := 1)) \<and> s k = 0 \<and> (\<forall>j < k. s j \<noteq> 0) \<and>
       Slots_Free (int k) (s(k := 1)) = s \<and>
       (\<forall>j < SLOT_COUNT. j \<noteq> k \<longrightarrow> disjoint_blocks (Slots_BaseAddr (int k)) (unat SLOT_SIZE)
          (Slots_BaseAddr (int j)) (unat SLOT_SIZE)))
    else Slots_Alloc s = (- 1, s))"
proof (cases rule: Slots_Alloc_cases [of s])
  case Full
  then show ?thesis by auto
next
  case (Free k)
  have "Slots_Free (int k) (s(k := 1)) = s" by (rule Slots_Free_Alloc [OF Free(1)]) simp
  moreover have "\<forall>j < SLOT_COUNT. j \<noteq> k \<longrightarrow> disjoint_blocks (Slots_BaseAddr (int k)) (unat SLOT_SIZE)
      (Slots_BaseAddr (int j)) (unat SLOT_SIZE)" using slots_disjoint [OF Free(2)] by metis
  ultimately show ?thesis using Free by auto
qed

theorem slots_alloc_free_witness:
  "Slots_Alloc ((\<lambda>_. 0)(0 := 1)) = (1, (\<lambda>_. 0)(0 := 1, 1 := 1))"
proof -
  have ex: "\<exists>i < SLOT_COUNT. ((\<lambda>_. 0 :: u8)(0 := 1)) i = 0" by (rule exI [of _ 1]) (simp add: SLOT_COUNT_def)
  obtain k where k: "Slots_Alloc ((\<lambda>_. 0)(0 := 1)) = (int k, (\<lambda>_. 0)(0 := 1, k := 1))"
    "((\<lambda>_. 0 :: u8)(0 := 1)) k = 0" "\<forall>j < k. ((\<lambda>_. 0 :: u8)(0 := 1)) j \<noteq> 0"
    using slots_alloc_free [of "(\<lambda>_. 0)(0 := 1)"] ex by (simp only: if_True) blast
  have "k = 1" using k(2) k(3) [rule_format, of 1] by (cases k) (auto split: if_splits)
  with k(1) show ?thesis by simp
qed

text \<open>
  The first slot contains the whole heap of the shell, so loading a program into it
  overwrites blocks that \<open>malloc\<close> has handed out.
\<close>

theorem first_slot_contains_shell_heap:
  "in_block HEAP_START (unat HEAP_SIZE) x \<Longrightarrow> in_block (Slots_BaseAddr 0) (unat SLOT_SIZE) x"
proof -
  assume "in_block HEAP_START (unat HEAP_SIZE) x"
  then have "in_block (Slots_BaseAddr 0 + of_nat 0x2000) (unat HEAP_SIZE) x"
    by (simp add: HEAP_START_def Slots_BaseAddr_def SLOT_BASE_def)
  then show ?thesis
    by (rule in_block_part) (simp_all add: HEAP_SIZE_def SLOT_SIZE_def)
qed

theorem first_slot_contains_shell_heap_witness:
  "in_block (Slots_BaseAddr 0) (unat SLOT_SIZE) 0x94000"
  by (rule first_slot_contains_shell_heap) (simp add: in_block_def HEAP_START_def HEAP_SIZE_def)

end
