(* ===== verification/PicLoader.thy ===== *)
theory PicLoader
  imports Slots CSearch
begin

text \<open>
  The loader of position-independent programs (\<^verbatim>\<open>apps/shell/loader_pic.c\<close>): it reads an ELF
  file into a slot, adds the slot's base to every word of the GOT and to the words that
  \<open>.rela.data\<close> lists, and calls the entry point.  The open file is the argument \<open>f\<close>: what
  \<open>flseek\<close> to an offset and \<open>fread\<close> of a size give, the \<open>FRESULT\<close> and the bytes.  The
  program that is called is the argument \<open>run\<close>.  Console messages are left out.  \<open>None\<close>
  is a program that never returns, or the use of the uninitialised pointer \<open>got\<close>.
\<close>

section \<open>Reading the file\<close>

type_synonym efile = "u32 \<Rightarrow> u32 \<Rightarrow> u8 \<times> u8 list"

text \<open>\<open>fread(...) != FR_OK || bytesRead != n\<close>: \<open>None\<close>.\<close>

definition read_exact :: "efile \<Rightarrow> u32 \<Rightarrow> u32 \<Rightarrow> u8 list option" where
  "read_exact f off n = (let (r, bs) = f off n in if r \<noteq> 0 \<or> length bs \<noteq> unat n then None else Some bs)"

definition get32 :: "u8 list \<Rightarrow> nat \<Rightarrow> u32" where
  "get32 bs i = of_be32 (bs ! i) (bs ! (i + 1)) (bs ! (i + 2)) (bs ! (i + 3))"

definition get16 :: "u8 list \<Rightarrow> nat \<Rightarrow> u16" where
  "get16 bs i = of_be16 (bs ! i) (bs ! (i + 1))"

text \<open>A name of at most \<open>n\<close> bytes, up to its zero byte.\<close>

definition section_name :: "efile \<Rightarrow> u32 \<Rightarrow> u32 \<Rightarrow> u8 list" where
  "section_name f off n = takeWhile (\<lambda>c. c \<noteq> 0) (snd (f off n))"

section \<open>Relocation\<close>

text \<open>
  \<open>find_got_section\<close>: the smallest range that contains all sections whose names begin with
  \<open>.got\<close>.  \<open>None\<close>: it returns 0.
\<close>

fun find_got_loop :: "efile \<Rightarrow> u32 \<Rightarrow> u16 \<Rightarrow> u32 \<Rightarrow> nat list \<Rightarrow> u32 \<Rightarrow> u32 \<Rightarrow> bool \<Rightarrow> (u32 \<times> u32 \<times> bool) option" where
  "find_got_loop f shoff shentsize strtab [] min_addr max_end found = Some (min_addr, max_end, found)"
| "find_got_loop f shoff shentsize strtab (i # is) min_addr max_end found =
     (case read_exact f (of_nat i * ucast shentsize + shoff) 40 of
        None \<Rightarrow> None
      | Some hdr \<Rightarrow>
          if take 4 (section_name f (strtab + get32 hdr 0) 9) = bytes_of ''.got'' then
            (let addr = get32 hdr 0x0C; sz = get32 hdr 0x14
             in find_got_loop f shoff shentsize strtab is
                  (if addr < min_addr then addr else min_addr)
                  (if addr + sz > max_end then addr + sz else max_end) True)
          else find_got_loop f shoff shentsize strtab is min_addr max_end found)"

definition find_got_section :: "efile \<Rightarrow> u32 \<Rightarrow> u16 \<Rightarrow> u16 \<Rightarrow> u16 \<Rightarrow> (u32 \<times> u32) option" where
  "find_got_section f shoff shnum shentsize shstrndx =
     (case read_exact f (ucast shstrndx * ucast shentsize + shoff) 40 of
        None \<Rightarrow> None
      | Some hdr \<Rightarrow>
          (case find_got_loop f shoff shentsize (get32 hdr 0x10) [0..<unat shnum] 0xFFFFFFFF 0 False of
             None \<Rightarrow> None
           | Some (min_addr, max_end, found) \<Rightarrow> if found then Some (min_addr, max_end - min_addr) else None))"

text \<open>\<open>for (w = 0; w < got_words; w++) got[w] += task_base;\<close>\<close>

fun patch_got :: "mem \<Rightarrow> u32 \<Rightarrow> u32 \<Rightarrow> nat \<Rightarrow> mem" where
  "patch_got m got task_base 0 = m"
| "patch_got m got task_base (Suc n) = patch_got (wr32 m got (rd32 m got + task_base)) (got + 4) task_base n"

text \<open>The relocations of \<open>.rela.data\<close>; only \<open>R_68K_32\<close> (1) is applied.\<close>

fun apply_relas :: "efile \<Rightarrow> u32 \<Rightarrow> u32 \<Rightarrow> nat list \<Rightarrow> mem \<Rightarrow> mem" where
  "apply_relas f rela_offset task_base [] m = m"
| "apply_relas f rela_offset task_base (r # rs) m =
     (case read_exact f (rela_offset + of_nat r * 12) 12 of
        None \<Rightarrow> apply_relas f rela_offset task_base rs m
      | Some rela \<Rightarrow>
          if get32 rela 4 AND 0xFF \<noteq> 1 then apply_relas f rela_offset task_base rs m
          else let patch_addr = task_base + get32 rela 0
               in apply_relas f rela_offset task_base rs (wr32 m patch_addr (rd32 m patch_addr + task_base)))"

fun data_relocations_loop :: "efile \<Rightarrow> u32 \<Rightarrow> u16 \<Rightarrow> u32 \<Rightarrow> u32 \<Rightarrow> nat list \<Rightarrow> mem \<Rightarrow> mem" where
  "data_relocations_loop f shoff shentsize strtab task_base [] m = m"
| "data_relocations_loop f shoff shentsize strtab task_base (i # is) m =
     (case read_exact f (of_nat i * ucast shentsize + shoff) 40 of
        None \<Rightarrow> data_relocations_loop f shoff shentsize strtab task_base is m
      | Some hdr \<Rightarrow>
          if section_name f (strtab + get32 hdr 0) 15 \<noteq> bytes_of ''.rela.data'' then
            data_relocations_loop f shoff shentsize strtab task_base is m
          else apply_relas f (get32 hdr 0x10) task_base [0..<unat (get32 hdr 0x14 div 12)] m)"

definition apply_data_relocations :: "efile \<Rightarrow> u32 \<Rightarrow> u16 \<Rightarrow> u16 \<Rightarrow> u16 \<Rightarrow> u32 \<Rightarrow> mem \<Rightarrow> mem" where
  "apply_data_relocations f shoff shnum shentsize shstrndx task_base m =
     (case read_exact f (ucast shstrndx * ucast shentsize + shoff) 40 of
        None \<Rightarrow> m
      | Some hdr \<Rightarrow> data_relocations_loop f shoff shentsize (get32 hdr 0x10) task_base [0..<unat shnum] m)"

section \<open>Segments\<close>

record program_header =
  ph_type :: u32
  ph_offset :: u32
  ph_paddr :: u32
  ph_filesz :: u32
  ph_memsz :: u32

definition program_header_of :: "u8 list \<Rightarrow> program_header" where
  "program_header_of bs = \<lparr>ph_type = get32 bs 0, ph_offset = get32 bs 4, ph_paddr = get32 bs 12,
     ph_filesz = get32 bs 16, ph_memsz = get32 bs 20\<rparr>"

record elf_header =
  eh_entry :: u32
  eh_phoff :: u32
  eh_shoff :: u32
  eh_phentsize :: u16
  eh_phnum :: u16
  eh_shentsize :: u16
  eh_shnum :: u16
  eh_shstrndx :: u16

text \<open>The checks of the file header; \<open>None\<close>: the file is refused.\<close>

definition elf_header_of :: "u8 list \<Rightarrow> elf_header option" where
  "elf_header_of h =
     (if h ! 0 \<noteq> 0x7F \<or> h ! 1 \<noteq> 69 \<or> h ! 2 \<noteq> 76 \<or> h ! 3 \<noteq> 70 \<or> h ! 6 \<noteq> 1 then None
      else if h ! 4 \<noteq> 1 \<or> h ! 5 \<noteq> 2 then None
      else if get16 h 0x10 \<noteq> 2 then None
      else if get16 h 0x12 \<noteq> 4 then None
      else Some \<lparr>eh_entry = get32 h 0x18, eh_phoff = get32 h 0x1C, eh_shoff = get32 h 0x20,
        eh_phentsize = get16 h 0x2A, eh_phnum = get16 h 0x2C, eh_shentsize = get16 h 0x2E,
        eh_shnum = get16 h 0x30, eh_shstrndx = get16 h 0x32\<rparr>)"

text \<open>
  A \<open>PT_LOAD\<close> segment: the file's bytes at \<open>task_base + paddr\<close>, zeros behind them.  The flag
  is false where reading fails; the memory then has what was read.
\<close>

definition load_segment :: "efile \<Rightarrow> u32 \<Rightarrow> program_header \<Rightarrow> mem \<Rightarrow> bool \<times> mem" where
  "load_segment f task_base ph m =
     (let actual_addr = task_base + ph_paddr ph;
          (r, bs) = f (ph_offset ph) (ph_filesz ph);
          m1 = wr_bytes m actual_addr bs
      in if r \<noteq> 0 \<or> length bs \<noteq> unat (ph_filesz ph) then (False, m1)
         else (True, if ph_memsz ph > ph_filesz ph
                     then memset m1 (actual_addr + ph_filesz ph) 0 (ph_memsz ph - ph_filesz ph) else m1))"

record lstate =
  l_mem :: mem
  l_seen :: nat
  l_got :: "u32 option"
  l_got_addr :: u32

text \<open>What is done after the second loaded segment.\<close>

definition relocate :: "efile \<Rightarrow> elf_header \<Rightarrow> u32 \<Rightarrow> lstate \<Rightarrow> lstate" where
  "relocate f eh task_base l =
     (let l1 = (case find_got_section f (eh_shoff eh) (eh_shnum eh) (eh_shentsize eh) (eh_shstrndx eh) of
                  Some (got_addr, got_size) \<Rightarrow>
                    l\<lparr>l_got := Some (task_base + got_addr), l_got_addr := got_addr,
                      l_mem := patch_got (l_mem l) (task_base + got_addr) task_base (unat (got_size div 4))\<rparr>
                | None \<Rightarrow> l)
      in l1\<lparr>l_mem := apply_data_relocations f (eh_shoff eh) (eh_shnum eh) (eh_shentsize eh)
                       (eh_shstrndx eh) task_base (l_mem l1)\<rparr>)"

text \<open>The loop over the program headers; the flag is false where it goes to \<open>fail\<close>.\<close>

fun load_segments :: "efile \<Rightarrow> elf_header \<Rightarrow> u32 \<Rightarrow> nat list \<Rightarrow> lstate \<Rightarrow> bool \<times> lstate" where
  "load_segments f eh task_base [] l = (True, l)"
| "load_segments f eh task_base (i # is) l =
     (case read_exact f (of_nat i * ucast (eh_phentsize eh) + eh_phoff eh) 32 of
        None \<Rightarrow> (False, l)
      | Some bs \<Rightarrow>
          let ph = program_header_of bs
          in if ph_type ph = 1 then
               (let (ok, m) = load_segment f task_base ph (l_mem l);
                    l1 = l\<lparr>l_mem := m\<rparr>
                in if \<not> ok then (False, l1)
                   else let l2 = (if l_seen l = 1 then relocate f eh task_base l1 else l1)
                        in load_segments f eh task_base is (l2\<lparr>l_seen := l_seen l + 1\<rparr>))
             else if ph_type ph = 2 \<or> ph_type ph = 5 then (False, l)
             else if ph_type ph = 3 then (False, l)
             else load_segments f eh task_base is l)"

section \<open>Loading and running\<close>

text \<open>\<open>run entry a5 m\<close>: the program called at \<open>entry\<close> with A5 set, its result and the memory it leaves.\<close>

definition load_pic_elf_standalone ::
  "(u32 \<Rightarrow> u32 \<Rightarrow> mem \<Rightarrow> (int \<times> mem) option) \<Rightarrow> efile \<Rightarrow> slots \<Rightarrow> mem \<Rightarrow> (int \<times> slots \<times> mem) option" where
  "load_pic_elf_standalone run f s m =
     (let (slot_index, s1) = Slots_Alloc s in
      if slot_index < 0 then Some (- 1, s1, m)
      else
        let task_base = Slots_BaseAddr slot_index;
            fail = (\<lambda>m'. Some (- 1, Slots_Free slot_index s1, m'))
        in case read_exact f 0 52 of
             None \<Rightarrow> fail m
           | Some h \<Rightarrow>
         (case elf_header_of h of
             None \<Rightarrow> fail m
           | Some eh \<Rightarrow>
               let (ok, l) = load_segments f eh task_base [0..<unat (eh_phnum eh)]
                               \<lparr>l_mem = m, l_seen = 0, l_got = None, l_got_addr = 0\<rparr>
               in if \<not> ok then fail (l_mem l)
                  else if l_seen l \<noteq> 2 then fail (l_mem l)
                  else (case l_got l of
                     None \<Rightarrow> None
                   | Some got \<Rightarrow>
                       (case run (task_base + eh_entry eh) (task_base + l_got_addr l) (l_mem l) of
                          None \<Rightarrow> None
                        | Some (ret, m') \<Rightarrow> Some (ret, Slots_Free slot_index s1, m')))))"

text \<open>
  \<open>loader_pic\<close>: \<open>argv0\<close> and \<open>argv1\<close> are the pointers \<open>argv[0]\<close> and \<open>argv[1]\<close>, \<open>ext\<close> is the address of
  the literal \<open>".elf"\<close>, and \<open>fopen\<close> says what opening a path gives: \<open>None\<close> a failure.  The
  stack frame has no other memory.
\<close>

definition loader_pic ::
  "(u32 \<Rightarrow> u32 \<Rightarrow> mem \<Rightarrow> (int \<times> mem) option) \<Rightarrow> (u32 \<Rightarrow> efile option) \<Rightarrow> u32 \<Rightarrow> u32 \<Rightarrow> u32 \<Rightarrow> slots \<Rightarrow> mem \<Rightarrow>
     (int \<times> slots \<times> mem) option" where
  "loader_pic run fopen ext argv0 argv1 s m =
     (if argv0 = 0 then Some (1, s, m)
      else case strstr m ext argv0 of
        None \<Rightarrow> None
      | Some p \<Rightarrow>
          if p = 0 then Some (1, s, m)
          else (case fopen argv1 of
             None \<Rightarrow> Some (0, s, m)
           | Some f \<Rightarrow> map_option (\<lambda>(_, s', m'). (0, s', m')) (load_pic_elf_standalone run f s m)))"

section \<open>What the patches do\<close>

lemma in_block_word: "in_block a 4 x \<Longrightarrow> k \<noteq> j \<Longrightarrow> k < n \<Longrightarrow> j < n \<Longrightarrow> 4 * n \<le> 2 ^ 32 \<Longrightarrow>
    a = b + 4 * of_nat k \<Longrightarrow> \<not> in_block (b + 4 * of_nat j) 4 x"
proof
  assume h: "in_block a 4 x" "k \<noteq> j" "k < n" "j < n" "4 * n \<le> 2 ^ 32" "a = b + 4 * of_nat k"
    and j: "in_block (b + 4 * of_nat j) 4 x"
  have pos: "unat (x - b) = unat (x - (b + of_nat (4 * i))) + 4 * i"
    if "in_block (b + 4 * of_nat i) 4 x" "i < n" for i
  proof -
    have e: "x - b = (x - (b + of_nat (4 * i))) + of_nat (4 * i)" by simp
    have u: "unat (x - (b + of_nat (4 * i))) < 4" using that(1) by (simp add: in_block_def)
    show ?thesis
    proof (subst e, rule unat_add_of_nat)
      show "unat (x - (b + of_nat (4 * i))) + 4 * i < 2 ^ 32" using u that(2) h(5) by linarith
    qed
  qed
  have "unat (x - (b + of_nat (4 * k))) < 4" "unat (x - (b + of_nat (4 * j))) < 4"
    using h(1,6) j by (simp_all add: in_block_def)
  with pos [of k] pos [of j] h j have "k = j" by simp
  with h(2) show False ..
qed

lemma rd32_wr32_other:
  assumes "\<And>x. in_block p 4 x \<Longrightarrow> \<not> in_block q 4 x"
  shows "rd32 (wr32 m q v) p = rd32 m p"
proof -
  have "wr32 m q v x = m x" if "in_block p 4 x" for x
    using assms [OF that] by (simp add: wr32_def wr_bytes_frame)
  then show ?thesis by (rule rd32_frame)
qed

lemma rd32_wr32_same: "rd32 (wr32 m q v) q = v"
  by (simp add: wr32_def rd32_wr_be32)

lemma patch_got_words:
  assumes "4 * n \<le> 2 ^ 32"
  shows "(\<forall>j < n. rd32 (patch_got m got b n) (got + 4 * of_nat j) = rd32 m (got + 4 * of_nat j) + b) \<and>
    (\<forall>x. \<not> in_block got (4 * n) x \<longrightarrow> patch_got m got b n x = m x)"
  using assms
proof (induction n arbitrary: m got)
  case 0
  then show ?case by simp
next
  case (Suc n)
  let ?m = "wr32 m got (rd32 m got + b)"
  have fr: "?m x = m x" if "\<not> in_block got 4 x" for x
    using that by (simp add: wr32_def wr_bytes_frame)
  have out: "\<not> in_block got 4 x" if "\<not> in_block got (4 * Suc n) x" for x
    using that by (auto simp: in_block_def)
  have low: "\<not> in_block (got + 4) (4 * n) x" if "\<not> in_block got (4 * Suc n) x" for x
    using that in_block_part [of got 4 "4 * n" x "4 * Suc n"] Suc.prems by auto
  have "rd32 (patch_got ?m (got + 4) b n) (got + 4 * of_nat j) = rd32 m (got + 4 * of_nat j) + b" if j: "j < Suc n" for j
  proof (cases j)
    case 0
    have "patch_got ?m (got + 4) b n x = ?m x" if "in_block got 4 x" for x
      using in_block_adjacent [of "got + 4" "4 * n" x 4] that Suc.prems Suc.IH [of ?m "got + 4"] by auto
    then have "rd32 (patch_got ?m (got + 4) b n) got = rd32 ?m got" by (rule rd32_frame)
    then show ?thesis using 0 by (simp add: rd32_wr32_same)
  next
    case (Suc i)
    have p: "got + 4 * of_nat j = (got + 4) + 4 * of_nat i" using Suc by simp
    have "rd32 ?m (got + 4 * of_nat j) = rd32 m (got + 4 * of_nat j)"
    proof (rule rd32_wr32_other)
      fix x assume "in_block (got + 4 * of_nat j) 4 x"
      from in_block_word [OF this, of j 0 "Suc n" got] Suc j Suc.prems show "\<not> in_block got 4 x" by simp
    qed
    moreover have "rd32 (patch_got ?m (got + 4) b n) ((got + 4) + 4 * of_nat i) = rd32 ?m ((got + 4) + 4 * of_nat i) + b"
      using Suc.IH [of ?m "got + 4"] Suc.prems Suc j by auto
    ultimately show ?thesis unfolding p by simp
  qed
  moreover have "patch_got ?m (got + 4) b n x = m x" if "\<not> in_block got (4 * Suc n) x" for x
    using Suc.IH [of ?m "got + 4"] Suc.prems low [OF that] fr [OF out [OF that]] by simp
  ultimately show ?case by simp
qed

text \<open>The words that the relocations from the list \<open>rs\<close> of indices address.\<close>

fun rela_targets :: "efile \<Rightarrow> u32 \<Rightarrow> u32 \<Rightarrow> nat list \<Rightarrow> u32 list" where
  "rela_targets f rela_offset task_base [] = []"
| "rela_targets f rela_offset task_base (r # rs) =
     (case read_exact f (rela_offset + of_nat r * 12) 12 of
        Some rela \<Rightarrow> if get32 rela 4 AND 0xFF = 1
          then (task_base + get32 rela 0) # rela_targets f rela_offset task_base rs
          else rela_targets f rela_offset task_base rs
      | None \<Rightarrow> rela_targets f rela_offset task_base rs)"

definition patch_word :: "u32 \<Rightarrow> u32 \<Rightarrow> mem \<Rightarrow> mem" where
  "patch_word b p m = wr32 m p (rd32 m p + b)"

lemma apply_relas_fold: "apply_relas f off b rs m = fold (patch_word b) (rela_targets f off b rs) m"
  by (induction rs arbitrary: m) (auto simp: patch_word_def Let_def split: option.split)

definition apart :: "u32 \<Rightarrow> u32 \<Rightarrow> bool" where
  "apart p q \<longleftrightarrow> disjoint_blocks p 4 q 4"

lemma patch_words:
  assumes "sorted_wrt apart ps"
  shows "(\<forall>p \<in> set ps. rd32 (fold (patch_word b) ps m) p = rd32 m p + b) \<and>
    (\<forall>x. (\<forall>p \<in> set ps. \<not> in_block p 4 x) \<longrightarrow> fold (patch_word b) ps m x = m x)"
  using assms
proof (induction ps arbitrary: m)
  case Nil
  then show ?case by simp
next
  case (Cons q ps)
  let ?m = "patch_word b q m"
  have IH: "\<And>p. p \<in> set ps \<Longrightarrow> rd32 (fold (patch_word b) ps ?m) p = rd32 ?m p + b"
    "\<And>x. (\<forall>p \<in> set ps. \<not> in_block p 4 x) \<Longrightarrow> fold (patch_word b) ps ?m x = ?m x"
    using Cons.IH [of ?m] Cons.prems by auto
  have ap: "\<And>p x. p \<in> set ps \<Longrightarrow> in_block q 4 x \<Longrightarrow> \<not> in_block p 4 x"
    using Cons.prems by (auto simp: apart_def dest: disjoint_blocksD)
  have "rd32 (fold (patch_word b) ps ?m) q = rd32 ?m q"
    using ap IH(2) by (intro rd32_frame) blast
  then have "rd32 (fold (patch_word b) ps ?m) q = rd32 m q + b" by (simp add: patch_word_def rd32_wr32_same)
  moreover have "rd32 ?m p = rd32 m p" if "p \<in> set ps" for p
    unfolding patch_word_def using ap [OF that] by (intro rd32_wr32_other) blast
  moreover have "?m x = m x" if "\<not> in_block q 4 x" for x
    using that by (simp add: patch_word_def wr32_def wr_bytes_frame)
  ultimately show ?case using IH by auto
qed

lemma load_segment_bytes:
  assumes "load_segment f b ph m = (True, m')"
  shows "\<exists>bs. f (ph_offset ph) (ph_filesz ph) = (0, bs) \<and> length bs = unat (ph_filesz ph) \<and>
    m' = wr_bytes m (b + ph_paddr ph) (bs @ replicate (unat (ph_memsz ph) - unat (ph_filesz ph)) 0)"
proof -
  obtain r bs where f: "f (ph_offset ph) (ph_filesz ph) = (r, bs)" by fastforce
  have ok: "r = 0" "length bs = unat (ph_filesz ph)"
    using assms f by (auto simp: load_segment_def Let_def split: if_splits)
  have m': "m' = (if ph_memsz ph > ph_filesz ph
      then memset (wr_bytes m (b + ph_paddr ph) bs) (b + ph_paddr ph + ph_filesz ph) 0 (ph_memsz ph - ph_filesz ph)
      else wr_bytes m (b + ph_paddr ph) bs)"
    using assms f ok by (simp add: load_segment_def Let_def)
  have len: "of_nat (length bs) = ph_filesz ph" using ok(2) by simp
  show ?thesis
  proof (cases "ph_memsz ph > ph_filesz ph")
    case True
    then have "unat (ph_memsz ph - ph_filesz ph) = unat (ph_memsz ph) - unat (ph_filesz ph)"
      by (simp add: unat_sub order_less_imp_le)
    with True m' f ok len show ?thesis by (simp add: memset_def memset_loop_block wr_bytes_append)
  next
    case False
    then have "unat (ph_memsz ph) - unat (ph_filesz ph) = 0" by (simp add: word_less_nat_alt)
    with False m' f ok show ?thesis by simp
  qed
qed

lemma load_pic_slots:
  assumes "load_pic_elf_standalone run f s m = Some (r, s', m')"
  shows "s' = s"
proof (cases rule: Slots_Alloc_cases [of s])
  case Full
  with assms show ?thesis by (simp add: load_pic_elf_standalone_def)
next
  case (Free k)
  have fr: "Slots_Free (int k) (s(k := 1)) = s" by (rule Slots_Free_Alloc [OF Free(1)]) simp
  from assms show ?thesis
    unfolding load_pic_elf_standalone_def Free(1) Let_def
    by (auto simp: fr split: option.splits if_splits prod.splits)
qed

lemma strstr_first:
  assumes "cstr m p s" "cstr m q (c # cs)" "c \<notin> set s"
  shows "strstr m p q = Some 0"
  using assms
proof (induction s arbitrary: p)
  case Nil
  then show ?case by (simp add: strstr.simps)
next
  case (Cons a s)
  then have "strstr_compare m p q = Some False" by (subst strstr_compare.simps) auto
  with Cons show ?case by (subst strstr.simps) auto
qed

section \<open>Properties\<close>

text \<open>
  C30: relocating the GOT adds the slot's base exactly once to every word of it and changes no
  other byte.
\<close>

theorem got_words_patched_once:
  assumes "4 * n \<le> 2 ^ 32"
  shows "(\<forall>j < n. rd32 (patch_got m got task_base n) (got + 4 * of_nat j) = rd32 m (got + 4 * of_nat j) + task_base) \<and>
    (\<forall>x. \<not> in_block got (4 * n) x \<longrightarrow> patch_got m got task_base n x = m x)"
  using assms by (rule patch_got_words)

theorem got_words_patched_once_witness:
  "rd32 (patch_got (wr32 (\<lambda>_. 0) 0x104 7) 0x100 0x92000 2) 0x104 = 0x92007"
proof -
  have l: "4 * (2 :: nat) \<le> 2 ^ 32" by simp
  have "rd32 (patch_got (wr32 (\<lambda>_. 0) 0x104 7) 0x100 0x92000 2) (0x100 + 4 * of_nat 1)
      = rd32 (wr32 (\<lambda>_. 0) 0x104 7) (0x100 + 4 * of_nat 1) + 0x92000"
    using got_words_patched_once [OF l] by (metis one_less_numeral_iff semiring_norm(76))
  then show ?thesis by (simp add: rd32_wr32_same)
qed

text \<open>
  Applying the relocations of \<open>.rela.data\<close> adds the slot's base to every word that an
  \<open>R_68K_32\<close> entry addresses, as long as these words do not overlap, and changes no other byte;
  entries of other types and unreadable ones are skipped.
\<close>

theorem data_relocations_applied:
  assumes "sorted_wrt apart (rela_targets f off task_base rs)"
  shows "(\<forall>p \<in> set (rela_targets f off task_base rs).
      rd32 (apply_relas f off task_base rs m) p = rd32 m p + task_base) \<and>
    (\<forall>x. (\<forall>p \<in> set (rela_targets f off task_base rs). \<not> in_block p 4 x) \<longrightarrow>
      apply_relas f off task_base rs m x = m x)"
  unfolding apply_relas_fold using assms by (rule patch_words)

theorem data_relocations_applied_witness:
  "rd32 (apply_relas (\<lambda>o1 n. (0, [0, 0, 0, 8, 0, 0, 0, 1, 0, 0, 0, 0])) 0x40 0x92000 [0] (wr32 (\<lambda>_. 0) 0x92008 5)) 0x92008
     = 0x92005"
proof -
  let ?f = "\<lambda>(o1 :: u32) (n :: u32). (0 :: u8, [0, 0, 0, 8, 0, 0, 0, 1, 0, 0, 0, 0 :: u8])"
  have t: "rela_targets ?f 0x40 0x92000 [0] = [0x92008]"
    by (simp add: read_exact_def get32_def of_be32_def)
  have "sorted_wrt apart (rela_targets ?f 0x40 0x92000 [0])" unfolding t by simp
  from data_relocations_applied [OF this, of "wr32 (\<lambda>_. 0) 0x92008 5"]
  have "rd32 (apply_relas ?f 0x40 0x92000 [0] (wr32 (\<lambda>_. 0) 0x92008 5)) 0x92008 = rd32 (wr32 (\<lambda>_. 0) 0x92008 5) 0x92008 + 0x92000"
    unfolding t by simp
  then show ?thesis by (simp add: rd32_wr32_same)
qed

text \<open>
  A segment that loads has its bytes of the file at the slot's base plus its address,
  followed by zeros up to its size in memory, and no other byte of memory changes.
\<close>

theorem segment_is_file_then_zeros:
  assumes "load_segment f task_base ph m = (True, m')"
  shows "\<exists>bs. f (ph_offset ph) (ph_filesz ph) = (0, bs) \<and> length bs = unat (ph_filesz ph) \<and>
    m' = wr_bytes m (task_base + ph_paddr ph) (bs @ replicate (unat (ph_memsz ph) - unat (ph_filesz ph)) 0)"
  using assms by (rule load_segment_bytes)

theorem segment_is_file_then_zeros_witness:
  "snd (load_segment (\<lambda>o1 n. (0, [1, 2])) 0x92000 \<lparr>ph_type = 1, ph_offset = 0, ph_paddr = 0x10, ph_filesz = 2, ph_memsz = 4\<rparr> (\<lambda>_. 9))
     = wr_bytes (\<lambda>_. 9) 0x92010 [1, 2, 0, 0]"
proof -
  let ?ph = "\<lparr>ph_type = 1, ph_offset = 0, ph_paddr = 0x10, ph_filesz = 2, ph_memsz = 4\<rparr>"
  have "load_segment (\<lambda>o1 n. (0, [1, 2])) 0x92000 ?ph (\<lambda>_. 9) = (True, snd (load_segment (\<lambda>o1 n. (0, [1, 2])) 0x92000 ?ph (\<lambda>_. 9)))"
    by (simp add: load_segment_def)
  from segment_is_file_then_zeros [OF this]
  have "snd (load_segment (\<lambda>o1 n. (0, [1, 2])) 0x92000 ?ph (\<lambda>_. 9)) = wr_bytes (\<lambda>_. 9) 0x92010 ([1, 2] @ replicate 2 0)"
    by (auto simp del: wr_bytes.simps)
  moreover have "replicate 2 (0 :: u8) = [0, 0]" by (simp add: numeral_2_eq_2)
  ultimately show ?thesis by (simp only: append.simps)
qed

text \<open>
  Whatever the file and the program do, a return of the loader leaves the table of
  slots as it was: the slot it took is free again on every path.
\<close>

theorem loader_returns_its_slot:
  assumes "load_pic_elf_standalone run f s m = Some (r, s', m')"
  shows "s' = s"
  using assms by (rule load_pic_slots)

theorem loader_returns_its_slot_witness:
  "load_pic_elf_standalone (\<lambda>e a m. None) (\<lambda>o1 n. (1, [])) (\<lambda>_. 0) (\<lambda>_. 0) = Some (- 1, (\<lambda>_. 0), (\<lambda>_. 0))"
proof -
  have "\<exists>s'. load_pic_elf_standalone (\<lambda>e a m. None) (\<lambda>o1 n. (1, [])) (\<lambda>_. 0) (\<lambda>_. 0) = Some (- 1, s', (\<lambda>_. 0))"
    by (cases rule: Slots_Alloc_cases [of "\<lambda>_. 0"]) (auto simp: load_pic_elf_standalone_def read_exact_def)
  with loader_returns_its_slot show ?thesis by metis
qed

text \<open>
  \<open>loader_pic\<close> searches the program's name in \<open>".elf"\<close> and not \<open>".elf"\<close> in the name: a
  name whose first letter is not one of these four characters is refused, whatever its
  extension.
\<close>

theorem loader_refuses_proper_names:
  assumes "cstr m ext (bytes_of ''.elf'')" "cstr m argv0 (c # cs)" "c \<notin> set (bytes_of ''.elf'')" "argv0 \<noteq> 0"
  shows "loader_pic run fopen ext argv0 argv1 s m = Some (1, s, m)"
  using strstr_first [OF assms(1,2,3)] assms(4) by (simp add: loader_pic_def)

theorem loader_refuses_proper_names_witness:
  "\<forall>run fopen s. loader_pic run fopen 0x10 0x20 0x20 s (wr_bytes (wr_bytes (\<lambda>_. 0) 0x10 [46, 101, 108, 102]) 0x20 [97, 46, 101, 108, 102])
     = Some (1, s, wr_bytes (wr_bytes (\<lambda>_. 0) 0x10 [46, 101, 108, 102]) 0x20 [97, 46, 101, 108, 102])"
  by (intro allI, rule loader_refuses_proper_names [of _ _ _ 97 "[46, 101, 108, 102]"]) (simp_all add: bytes_of_def)

end
