(* ===== verification/Crc32.thy ===== *)
theory Crc32
  imports Prelude
begin

text \<open>
  The CRC-32 of the BIOS (\<^verbatim>\<open>apps/bios/shell/crc32.c\<close>), used on files received over the
  serial line: a table of 256 entries and an update that takes four bytes per iteration.
  The reference is the bitwise division it stands for.
\<close>

section \<open>Operations\<close>

definition CRC32_POLYNOMIAL :: u32 where "CRC32_POLYNOMIAL = 0xEDB88320"

type_synonym crc_table = "u8 \<Rightarrow> u32"

definition crc_step :: "u32 \<Rightarrow> u32" where
  "crc_step c = (if c AND 1 \<noteq> 0 then CRC32_POLYNOMIAL XOR drop_bit 1 c else drop_bit 1 c)"

text \<open>The table after \<open>crc32_init\<close>.\<close>

definition crc32_init :: crc_table where
  "crc32_init i = (crc_step ^^ 8) (ucast i)"

definition crc_byte :: "crc_table \<Rightarrow> u32 \<Rightarrow> u8 \<Rightarrow> u32" where
  "crc_byte tab crc b = tab (ucast ((crc XOR ucast b) AND 0xFF)) XOR drop_bit 8 crc"

text \<open>The last argument is the length as a number; four bytes at a time, then one at a time.\<close>

fun crc32_rest :: "crc_table \<Rightarrow> mem \<Rightarrow> u32 \<Rightarrow> u32 \<Rightarrow> nat \<Rightarrow> u32" where
  "crc32_rest tab m crc buffer 0 = crc"
| "crc32_rest tab m crc buffer (Suc n) = crc32_rest tab m (crc_byte tab crc (m buffer)) (buffer + 1) n"

function crc32_loop :: "crc_table \<Rightarrow> mem \<Rightarrow> u32 \<Rightarrow> u32 \<Rightarrow> nat \<Rightarrow> u32" where
  "crc32_loop tab m crc buffer n =
     (if n \<ge> 4 then
        (let c1 = crc_byte tab crc (m buffer);
             c2 = crc_byte tab c1 (m (buffer + 1));
             c3 = crc_byte tab c2 (m (buffer + 2));
             c4 = crc_byte tab c3 (m (buffer + 3))
         in crc32_loop tab m c4 (buffer + 4) (n - 4))
      else crc32_rest tab m crc buffer n)"
  by pat_completeness auto
termination by (relation "measure (\<lambda>(tab, m, crc, buffer, n). n)") auto

declare crc32_loop.simps [simp del]

definition crc32_update :: "crc_table \<Rightarrow> mem \<Rightarrow> u32 \<Rightarrow> u32 \<Rightarrow> u32 \<Rightarrow> u32" where
  "crc32_update tab m crc buffer len = crc32_loop tab m crc buffer (unat len)"

definition crc32_calculate :: "crc_table \<Rightarrow> mem \<Rightarrow> u32 \<Rightarrow> u32 \<Rightarrow> u32" where
  "crc32_calculate tab m buffer len = crc32_update tab m 0xFFFFFFFF buffer len XOR 0xFFFFFFFF"

section \<open>Reference\<close>

definition crc_ref_byte :: "u32 \<Rightarrow> u8 \<Rightarrow> u32" where
  "crc_ref_byte c b = (crc_step ^^ 8) (c XOR ucast b)"

definition crc_ref :: "u32 \<Rightarrow> u8 list \<Rightarrow> u32" where
  "crc_ref c bs = foldl crc_ref_byte c bs"

section \<open>The unrolled loop\<close>

lemma crc32_rest_fold: "crc32_rest tab m crc a n = foldl (crc_byte tab) crc (rd_bytes m a n)"
  by (induction n arbitrary: crc a) auto

lemma crc32_loop_fold: "crc32_loop tab m crc a n = foldl (crc_byte tab) crc (rd_bytes m a n)"
proof (induction tab m crc a n rule: crc32_loop.induct)
  case (1 tab m crc a n)
  show ?case
  proof (cases "n \<ge> 4")
    case True
    define k where "k = n - 4"
    with True have k: "n = Suc (Suc (Suc (Suc k)))" by arith
    have "crc32_loop tab m crc a n = foldl (crc_byte tab)
        (crc_byte tab (crc_byte tab (crc_byte tab (crc_byte tab crc (m a)) (m (a + 1))) (m (a + 2))) (m (a + 3)))
        (rd_bytes m (a + 4) (n - 4))"
      using True 1 by (subst crc32_loop.simps) (simp add: Let_def)
    then show ?thesis using k by (simp add: add.assoc)
  next
    case False
    then show ?thesis by (subst crc32_loop.simps) (simp add: crc32_rest_fold)
  qed
qed

section \<open>The table\<close>

lemma drop_bit_xor: "drop_bit n (a XOR b) = drop_bit n a XOR drop_bit n (b :: 'a::len word)"
  by (rule bit_word_eqI) (auto simp: bit_simps)

lemma and_one_xor: "(a XOR b) AND 1 \<noteq> 0 \<longleftrightarrow> (a AND 1 \<noteq> 0) \<noteq> (b AND 1 \<noteq> (0 :: u32))"
  by (simp add: and_one_eq mod_2_eq_odd flip: bit_0) (simp add: bit_simps)

lemma crc_step_xor: "crc_step (a XOR b) = crc_step a XOR crc_step b"
  unfolding crc_step_def and_one_xor drop_bit_xor
  by (auto simp: xor.assoc xor.left_commute)

lemma crc_steps_xor: "(crc_step ^^ n) (a XOR b) = (crc_step ^^ n) a XOR (crc_step ^^ n) b"
  by (induction n) (simp_all add: crc_step_xor)

lemma crc_steps_high: "take_bit n x = 0 \<Longrightarrow> (crc_step ^^ n) x = drop_bit n (x :: u32)"
proof (induction n arbitrary: x)
  case 0
  then show ?case by simp
next
  case (Suc n)
  have e: "x AND 1 = 0"
  proof -
    have "\<not> bit x 0" using arg_cong [OF Suc.prems, of "\<lambda>w. bit w 0"] by (simp add: bit_simps)
    then show ?thesis by (simp add: and_one_eq mod_2_eq_odd flip: bit_0)
  qed
  have "take_bit n (drop_bit 1 x) = 0"
  proof (rule bit_word_eqI)
    fix i assume "i < LENGTH(32)"
    have "bit (take_bit (Suc n) x) (Suc i) = False" using Suc.prems by simp
    then show "bit (take_bit n (drop_bit 1 x)) i = bit 0 i" by (auto simp: bit_simps)
  qed
  from Suc.IH [OF this] e show ?case by (simp add: funpow_Suc_right crc_step_def drop_bit_drop_bit add.commute del: funpow.simps)
qed

lemma crc_byte_ref: "crc_byte crc32_init c b = crc_ref_byte c b"
proof -
  define x where "x = c XOR ucast b"
  have ff: "0xFF = (mask 8 :: u32)" by (simp add: mask_eq_exp_minus_1)
  have split: "x = (x AND 0xFF) XOR (x AND NOT 0xFF)"
    unfolding ff by (rule bit_word_eqI) (auto simp: bit_simps)
  have lo: "ucast (ucast (x AND 0xFF) :: u8) = x AND (0xFF :: u32)"
    unfolding ff by (rule bit_word_eqI) (auto simp: bit_simps)
  have hi: "take_bit 8 (x AND NOT 0xFF) = 0"
    unfolding ff by (rule bit_word_eqI) (auto simp: bit_simps)
  have dr: "drop_bit 8 (x AND NOT 0xFF) = drop_bit 8 c"
    unfolding ff by (rule bit_word_eqI) (auto simp: bit_simps x_def dest: bit_imp_le_length)
  have "(crc_step ^^ 8) x = (crc_step ^^ 8) (x AND 0xFF) XOR (crc_step ^^ 8) (x AND NOT 0xFF)"
    using crc_steps_xor [of 8 "x AND 0xFF" "x AND NOT 0xFF"] split by simp
  also have "\<dots> = (crc_step ^^ 8) (x AND 0xFF) XOR drop_bit 8 c"
    by (simp only: crc_steps_high [OF hi] dr)
  finally show ?thesis
    by (simp only: crc_byte_def crc_ref_byte_def crc32_init_def lo flip: x_def)
qed

section \<open>Errors are seen\<close>

lemma xor_cancel:
  fixes a b c :: "'a::len word"
  assumes "a XOR c = b XOR c"
  shows "a = b"
proof -
  have "(a XOR c) XOR c = (b XOR c) XOR c" by (simp only: assms)
  then show ?thesis by (simp only: xor.assoc xor_self_eq xor.right_neutral)
qed

lemma crc_step_inj: "crc_step a = crc_step b \<Longrightarrow> a = b"
proof -
  assume h: "crc_step a = crc_step b"
  have top: "bit (crc_step c) 31 = bit c 0" for c
    using bit_imp_le_length [of c 32] by (auto simp: crc_step_def CRC32_POLYNOMIAL_def and_one_eq mod_2_eq_odd bit_simps simp flip: bit_0)
  have low: "bit (crc_step c) n = (bit c (Suc n) \<noteq> (bit c 0 \<and> bit CRC32_POLYNOMIAL n))" if "n < 31" for c n
    using that by (simp add: crc_step_def and_one_eq mod_2_eq_odd bit_simps flip: bit_0) auto
  have z: "bit a 0 = bit b 0" using top [of a] top [of b] h by simp
  show "a = b"
  proof (rule bit_word_eqI)
    fix n assume "n < LENGTH(32)"
    then show "bit a n = bit b n"
      using z low [of "n - 1" a] low [of "n - 1" b] h by (cases n) auto
  qed
qed

lemma crc_steps_inj: "(crc_step ^^ n) a = (crc_step ^^ n) b \<Longrightarrow> a = b"
  by (induction n) (auto dest: crc_step_inj)

lemma crc_ref_byte_inj: "crc_ref_byte c b = crc_ref_byte c' b \<Longrightarrow> c = c'"
proof -
  assume "crc_ref_byte c b = crc_ref_byte c' b"
  then have "c XOR ucast b = c' XOR ucast b" unfolding crc_ref_byte_def by (rule crc_steps_inj)
  then show "c = c'" by (rule xor_cancel)
qed

lemma crc_ref_inj: "crc_ref c bs = crc_ref c' bs \<Longrightarrow> c = c'"
  unfolding crc_ref_def by (induction bs arbitrary: c c') (auto dest: crc_ref_byte_inj)

lemma crc_ref_byte_other: "b \<noteq> b' \<Longrightarrow> crc_ref_byte c b \<noteq> crc_ref_byte c b'"
proof
  assume ne: "b \<noteq> b'" and "crc_ref_byte c b = crc_ref_byte c b'"
  then have "c XOR ucast b = c XOR (ucast b' :: u32)" unfolding crc_ref_byte_def by (blast dest: crc_steps_inj)
  then have "c XOR (c XOR ucast b) = c XOR (c XOR (ucast b' :: u32))" by simp
  then have u: "ucast b = (ucast b' :: u32)" by (simp flip: xor.assoc)
  have "b = b'"
  proof (rule bit_word_eqI)
    fix n assume "n < LENGTH(8)"
    then show "bit b n = bit b' n" using arg_cong [OF u, of "\<lambda>w. bit w n"] by (simp add: bit_simps)
  qed
  with ne show False ..
qed

lemma crc32_calculate_ref:
  "crc32_calculate crc32_init m a len = crc_ref 0xFFFFFFFF (rd_bytes m a (unat len)) XOR 0xFFFFFFFF"
proof -
  have "foldl (crc_byte crc32_init) c bs = crc_ref c bs" for c bs
    by (induction bs arbitrary: c) (simp_all add: crc_ref_def crc_byte_ref)
  then show ?thesis by (simp add: crc32_calculate_def crc32_update_def crc32_loop_fold)
qed

section \<open>Properties\<close>

text \<open>
  C37: the table-driven update that takes four bytes at a time computes the bitwise
  remainder of the reference, for every buffer and every length.
\<close>

theorem crc32_is_bitwise_remainder:
  "crc32_calculate crc32_init m buffer len = crc_ref 0xFFFFFFFF (rd_bytes m buffer (unat len)) XOR 0xFFFFFFFF"
  by (rule crc32_calculate_ref)

text \<open>
  The checksum of a file that arrives in two parts is the one of the whole.
\<close>

theorem crc32_update_in_parts:
  assumes "unat n + unat k < 2 ^ 32"
  shows "crc32_update tab m (crc32_update tab m crc buffer n) (buffer + n) k = crc32_update tab m crc buffer (n + k)"
proof -
  have "unat (n + k) = unat n + unat k" using assms by (simp add: unat_add_lem [THEN iffD1])
  then show ?thesis by (simp add: crc32_update_def crc32_loop_fold rd_bytes_append)
qed

theorem crc32_update_in_parts_witness:
  "crc32_update crc32_init (\<lambda>_. 65) (crc32_update crc32_init (\<lambda>_. 65) 0xFFFFFFFF 0x10 5) 0x15 2 =
     crc32_update crc32_init (\<lambda>_. 65) 0xFFFFFFFF 0x10 7"
  using crc32_update_in_parts [of 5 2 crc32_init "\<lambda>_. 65" "0xFFFFFFFF" "0x10"] by simp

text \<open>
  Two buffers of the same length that differ in exactly one byte never have the
  same checksum.
\<close>

theorem crc32_detects_changed_byte:
  assumes "rd_bytes m a (unat n) = xs @ b # ys" "rd_bytes m' a' (unat n) = xs @ b' # ys" "b \<noteq> b'"
  shows "crc32_calculate crc32_init m a n \<noteq> crc32_calculate crc32_init m' a' n"
proof
  assume "crc32_calculate crc32_init m a n = crc32_calculate crc32_init m' a' n"
  then have "crc_ref 0xFFFFFFFF (xs @ b # ys) XOR 0xFFFFFFFF = crc_ref 0xFFFFFFFF (xs @ b' # ys) XOR 0xFFFFFFFF"
    by (simp add: crc32_calculate_ref assms)
  then have "crc_ref 0xFFFFFFFF (xs @ b # ys) = crc_ref 0xFFFFFFFF (xs @ b' # ys)" by (rule xor_cancel)
  then have "crc_ref (crc_ref_byte (crc_ref 0xFFFFFFFF xs) b) ys = crc_ref (crc_ref_byte (crc_ref 0xFFFFFFFF xs) b') ys"
    by (simp add: crc_ref_def)
  then have "crc_ref_byte (crc_ref 0xFFFFFFFF xs) b = crc_ref_byte (crc_ref 0xFFFFFFFF xs) b'" by (rule crc_ref_inj)
  with crc_ref_byte_other [OF assms(3)] show False by blast
qed

theorem crc32_detects_changed_byte_witness:
  "crc32_calculate crc32_init ((\<lambda>_. 0)(1 := 5)) 0 3 \<noteq> crc32_calculate crc32_init ((\<lambda>_. 0)(1 := 6)) 0 3"
proof -
  have r: "rd_bytes f 0 (unat (3 :: u32)) = [f 0, f 1, f 2]" for f :: mem
  proof -
    have "unat (3 :: u32) = 3" by simp
    then show ?thesis by (simp only: numeral_3_eq_3 rd_bytes.simps) simp
  qed
  have "rd_bytes ((\<lambda>_. 0)(1 := 5)) 0 (unat (3 :: u32)) = [0] @ 5 # [0]"
    "rd_bytes ((\<lambda>_. 0)(1 := 6)) 0 (unat (3 :: u32)) = [0] @ 6 # [0]" unfolding r by simp_all
  from crc32_detects_changed_byte [OF this] show ?thesis by simp
qed

end
