(* ===== verification/ShellHistory.thy ===== *)
theory ShellHistory
  imports Prelude
begin

text \<open>
  The line editor of the shell with its command history (\<^verbatim>\<open>apps/bios/shell/shell_history.c\<close>).
  A character array is a function from indices; the keys are a list, \<open>None\<close> is a line that is
  still being edited when the list ends.  The specification edits a list and walks through the
  list of the most recent commands.
\<close>

section \<open>State and operations\<close>

definition HIST_SIZE :: nat where "HIST_SIZE = 16"
definition LINE_MAX :: nat where "LINE_MAX = 128"
definition KEY_UP :: u8 where "KEY_UP = 0x10"
definition KEY_DOWN :: u8 where "KEY_DOWN = 0x11"
definition KEY_BS :: u8 where "KEY_BS = 0x08"
definition KEY_ENTER :: u8 where "KEY_ENTER = 13"

type_synonym chars = "nat \<Rightarrow> u8"

record hist =
  history :: "nat \<Rightarrow> chars"
  hist_count :: nat
  hist_cursor :: int
  h_out :: "u8 list"

definition h_putchar :: "u8 \<Rightarrow> hist \<Rightarrow> hist" where
  "h_putchar c h = h\<lparr>h_out := h_out h @ [c]\<rparr>"

text \<open>The string in an array of \<open>LINE_MAX\<close> characters.\<close>

definition str_of :: "chars \<Rightarrow> u8 list" where
  "str_of a = takeWhile (\<lambda>c. c \<noteq> 0) (map a [0..<LINE_MAX])"

definition redraw_line :: "nat \<Rightarrow> u8 list \<Rightarrow> hist \<Rightarrow> hist" where
  "redraw_line old_len txt h =
     h\<lparr>h_out := h_out h @ replicate old_len 8 @ replicate old_len 32 @ replicate old_len 8 @ txt\<rparr>"

text \<open>\<open>strncpy\<close> of the library copies \<open>LINE_MAX - 1\<close> characters, whatever they are.\<close>

definition history_add :: "chars \<Rightarrow> hist \<Rightarrow> hist" where
  "history_add cmd h =
     (if cmd 0 = 0 then h
      else let slot = hist_count h mod HIST_SIZE;
               a = (\<lambda>i. if i < LINE_MAX - 1 then cmd i else if i = LINE_MAX - 1 then 0 else history h slot i)
           in h\<lparr>history := (history h)(slot := a), hist_count := Suc (hist_count h), hist_cursor := - 1\<rparr>)"

text \<open>\<open>strcpy(buf, s)\<close>: the characters of the string and a zero.\<close>

definition copy_str :: "chars \<Rightarrow> u8 list \<Rightarrow> chars" where
  "copy_str buf s = (\<lambda>i. if i < length s then s ! i else if i = length s then 0 else buf i)"

definition hist_index :: "nat \<Rightarrow> int \<Rightarrow> nat" where
  "hist_index count cursor = nat ((int count - 1 - cursor + int HIST_SIZE) mod int HIST_SIZE)"

text \<open>One key that does not end the line.\<close>

definition edit_key :: "u8 \<Rightarrow> chars \<Rightarrow> nat \<Rightarrow> hist \<Rightarrow> chars \<times> nat \<times> hist" where
  "edit_key c buf len h =
     (if c = KEY_BS then
        (if len > 0 then (buf(len - 1 := 0), len - 1, h_putchar 8 (h_putchar 32 (h_putchar 8 h)))
         else (buf, len, h))
      else if c = KEY_UP then
        (if hist_cursor h + 1 < int (hist_count h) \<and> hist_cursor h + 1 < int HIST_SIZE then
           (let h1 = h\<lparr>hist_cursor := hist_cursor h + 1\<rparr>;
                s = str_of (history h1 (hist_index (hist_count h1) (hist_cursor h1)));
                h2 = redraw_line len s h1
            in (copy_str buf s, length s, h2))
         else (buf, len, h))
      else if c = KEY_DOWN then
        (if hist_cursor h > 0 then
           (let h1 = h\<lparr>hist_cursor := hist_cursor h - 1\<rparr>;
                s = str_of (history h1 (hist_index (hist_count h1) (hist_cursor h1)));
                h2 = redraw_line len s h1
            in (copy_str buf s, length s, h2))
         else if hist_cursor h = 0 then
           (buf(0 := 0), 0, redraw_line len [] (h\<lparr>hist_cursor := - 1\<rparr>))
         else (buf, len, h))
      else if len < LINE_MAX - 1 then (buf(len := c, Suc len := 0), Suc len, h_putchar c h)
      else (buf, len, h))"

fun readline_loop :: "u8 list \<Rightarrow> chars \<Rightarrow> nat \<Rightarrow> hist \<Rightarrow> (chars \<times> hist) option" where
  "readline_loop [] buf len h = None"
| "readline_loop (c # keys) buf len h =
     (if c = KEY_ENTER then Some (buf(len := 0), h_putchar 10 h)
      else let (buf', len', h') = edit_key c buf len h in readline_loop keys buf' len' h')"

definition readline_with_history :: "u8 list \<Rightarrow> chars \<Rightarrow> hist \<Rightarrow> (chars \<times> hist) option" where
  "readline_with_history keys buf h = readline_loop keys (buf(0 := 0)) 0 (h\<lparr>hist_cursor := - 1\<rparr>)"

section \<open>Specification\<close>

text \<open>The line and how far back in the history (\<open>-1\<close>: not at all) it comes from.\<close>

fun spec_key :: "u8 list list \<Rightarrow> u8 \<Rightarrow> u8 list \<times> int \<Rightarrow> u8 list \<times> int" where
  "spec_key cmds c (line, cur) =
     (if c = KEY_BS then (butlast line, cur)
      else if c = KEY_UP then
        (if cur + 1 < int (length cmds) then (cmds ! nat (cur + 1), cur + 1) else (line, cur))
      else if c = KEY_DOWN then
        (if cur > 0 then (cmds ! nat (cur - 1), cur - 1) else if cur = 0 then ([], - 1) else (line, cur))
      else if length line < LINE_MAX - 1 then (line @ [c], cur) else (line, cur))"

definition spec_line :: "u8 list list \<Rightarrow> u8 list \<Rightarrow> u8 list" where
  "spec_line cmds keys = fst (fold (spec_key cmds) keys ([], - 1))"

text \<open>\<open>hist_rel h cmds\<close>: the history holds \<open>cmds\<close>, the most recent command first.\<close>

definition hist_rel :: "hist \<Rightarrow> u8 list list \<Rightarrow> bool" where
  "hist_rel h cmds \<longleftrightarrow> length cmds = min (hist_count h) HIST_SIZE \<and>
     (\<forall>j < length cmds. str_of (history h ((hist_count h - 1 - j) mod HIST_SIZE)) = cmds ! j \<and>
        length (cmds ! j) < LINE_MAX)"

definition line_rel :: "chars \<Rightarrow> nat \<Rightarrow> u8 list \<Rightarrow> bool" where
  "line_rel buf len line \<longleftrightarrow> len = length line \<and> length line < LINE_MAX \<and> (\<forall>i < len. buf i = line ! i) \<and> buf len = 0"

lemma hist_index_recent:
  assumes "0 \<le> cur" "cur < int n" "cur < int HIST_SIZE"
  shows "hist_index n cur = (n - 1 - nat cur) mod HIST_SIZE"
proof -
  have "int n - 1 - cur = int (n - 1 - nat cur)" using assms by simp
  then have "(int n - 1 - cur + int HIST_SIZE) mod int HIST_SIZE = int ((n - 1 - nat cur) mod HIST_SIZE)"
    by (simp add: zmod_int)
  then show ?thesis by (simp add: hist_index_def)
qed

lemma line_rel_copy: "length s < LINE_MAX \<Longrightarrow> line_rel (copy_str buf s) (length s) s"
  by (simp add: line_rel_def copy_str_def)

lemma recent_command:
  assumes "hist_rel h cmds" "0 \<le> cur" "cur < int (length cmds)"
  shows "str_of (history h (hist_index (hist_count h) cur)) = cmds ! nat cur \<and> length (cmds ! nat cur) < LINE_MAX"
proof -
  have l: "length cmds = min (hist_count h) HIST_SIZE" using assms(1) by (simp add: hist_rel_def)
  have j: "nat cur < length cmds" using assms(2,3) by linarith
  have "cur < int (hist_count h)" "cur < int HIST_SIZE" using assms(3) l by (auto simp: min_def split: if_splits)
  then have "hist_index (hist_count h) cur = (hist_count h - 1 - nat cur) mod HIST_SIZE"
    by (rule hist_index_recent [OF assms(2)])
  with assms(1) j show ?thesis by (simp add: hist_rel_def)
qed

lemma edit_key_spec:
  assumes r: "line_rel buf len line" "hist_rel h cmds"
    and c: "- 1 \<le> hist_cursor h" "hist_cursor h < int (length cmds)"
    and e: "edit_key k buf len h = (buf', len', h')"
  shows "\<exists>line'. spec_key cmds k (line, hist_cursor h) = (line', hist_cursor h') \<and> line_rel buf' len' line' \<and>
      hist_rel h' cmds \<and> - 1 \<le> hist_cursor h' \<and> hist_cursor h' < int (length cmds)"
proof -
  have lc: "length cmds = min (hist_count h) HIST_SIZE" using r(2) by (simp add: hist_rel_def)
  have hr: "hist_rel (h\<lparr>hist_cursor := x, h_out := y\<rparr>) cmds" for x y
    using r(2) by (simp add: hist_rel_def)
  consider "k = KEY_BS" | "k = KEY_UP" | "k = KEY_DOWN" | "k \<noteq> KEY_BS" "k \<noteq> KEY_UP" "k \<noteq> KEY_DOWN" by blast
  then show "\<exists>line'. spec_key cmds k (line, hist_cursor h) = (line', hist_cursor h') \<and> line_rel buf' len' line' \<and>
      hist_rel h' cmds \<and> - 1 \<le> hist_cursor h' \<and> hist_cursor h' < int (length cmds)"
  proof cases
    case 1
    show ?thesis
    proof (cases "len = 0")
      case True
      with 1 e r c show ?thesis by (auto simp: edit_key_def line_rel_def)
    next
      case False
      then have "line_rel (buf(len - 1 := 0)) (len - 1) (butlast line)"
        using r(1) by (auto simp: line_rel_def nth_butlast)
      with False 1 e r(2) c show ?thesis by (auto simp: edit_key_def h_putchar_def hist_rel_def)
    qed
  next
    case 2
    have n: "KEY_UP \<noteq> KEY_BS" by (simp add: KEY_UP_def KEY_BS_def)
    show ?thesis
    proof (cases "hist_cursor h + 1 < int (length cmds)")
      case False
      then have "\<not> (hist_cursor h + 1 < int (hist_count h) \<and> hist_cursor h + 1 < int HIST_SIZE)"
        using lc by (auto simp: min_def split: if_splits)
      then have "edit_key k buf len h = (buf, len, h)" using 2 n by (auto simp: edit_key_def)
      with False 2 n e r c show ?thesis by simp
    next
      case True
      then have g: "hist_cursor h + 1 < int (hist_count h) \<and> hist_cursor h + 1 < int HIST_SIZE"
        using lc by (auto simp: min_def split: if_splits)
      note rc = recent_command [OF r(2) _ True]
      have "buf' = copy_str buf (cmds ! nat (hist_cursor h + 1))" "len' = length (cmds ! nat (hist_cursor h + 1))"
        "hist_cursor h' = hist_cursor h + 1" "hist_rel h' cmds"
        using 2 n e g rc c hr by (auto simp: edit_key_def redraw_line_def Let_def)
      then show ?thesis using 2 n True rc c line_rel_copy by auto
    qed
  next
    case 3
    have n: "KEY_DOWN \<noteq> KEY_BS" "KEY_DOWN \<noteq> KEY_UP" by (simp_all add: KEY_DOWN_def KEY_UP_def KEY_BS_def)
    consider "hist_cursor h > 0" | "hist_cursor h = 0" | "hist_cursor h = - 1" using c by linarith
    then show ?thesis
    proof cases
      case pos: 1
      have lt: "hist_cursor h - 1 < int (length cmds)" using c by simp
      note rc = recent_command [OF r(2) _ lt]
      have "buf' = copy_str buf (cmds ! nat (hist_cursor h - 1))" "len' = length (cmds ! nat (hist_cursor h - 1))"
        "hist_cursor h' = hist_cursor h - 1" "hist_rel h' cmds"
        using 3 n e pos rc hr by (auto simp: edit_key_def redraw_line_def Let_def)
      then show ?thesis using 3 n lt rc pos line_rel_copy by auto
    next
      case zero: 2
      with 3 n e hr c show ?thesis
        by (auto simp: edit_key_def redraw_line_def line_rel_def LINE_MAX_def)
    next
      case neg: 3
      with 3 n e r c show ?thesis by (auto simp: edit_key_def)
    qed
  next
    case 4
    show ?thesis
    proof (cases "len < LINE_MAX - 1")
      case True
      then have "line_rel (buf(len := k, Suc len := 0)) (Suc len) (line @ [k])"
        using r(1) by (auto simp: line_rel_def nth_append)
      with True 4 e r c show ?thesis by (auto simp: edit_key_def h_putchar_def hist_rel_def line_rel_def)
    next
      case False
      with 4 e r c show ?thesis by (auto simp: edit_key_def line_rel_def)
    qed
  qed
qed

lemma readline_loop_spec:
  assumes "line_rel buf len line" "hist_rel h cmds" "- 1 \<le> hist_cursor h" "hist_cursor h < int (length cmds)"
    and "KEY_ENTER \<notin> set keys"
  shows "\<exists>buf' h'. readline_loop (keys @ KEY_ENTER # rest) buf len h = Some (buf', h') \<and>
    line_rel buf' (length (fst (fold (spec_key cmds) keys (line, hist_cursor h))))
      (fst (fold (spec_key cmds) keys (line, hist_cursor h))) \<and> hist_rel h' cmds"
  using assms
proof (induction keys arbitrary: buf len line h)
  case Nil
  then have "line_rel (buf(len := 0)) (length line) line" by (simp add: line_rel_def)
  with Nil show ?case by (simp add: h_putchar_def hist_rel_def)
next
  case (Cons k keys)
  obtain buf' len' h' where e: "edit_key k buf len h = (buf', len', h')" by (metis prod_cases3)
  obtain line' where l: "spec_key cmds k (line, hist_cursor h) = (line', hist_cursor h')" "line_rel buf' len' line'"
    "hist_rel h' cmds" "- 1 \<le> hist_cursor h'" "hist_cursor h' < int (length cmds)"
    using edit_key_spec [OF Cons.prems(1-4) e] by blast
  have "KEY_ENTER \<notin> set keys" "k \<noteq> KEY_ENTER" using Cons.prems(5) by auto
  with Cons.IH [OF l(2-5)] l(1) e show ?case by simp
qed

lemma history_add_rel:
  assumes rel: "hist_rel h cmds" and len: "length (str_of cmd) < LINE_MAX" and ne: "cmd 0 \<noteq> 0"
  shows "hist_rel (history_add cmd h) (take HIST_SIZE (str_of cmd # cmds)) \<and> hist_cursor (history_add cmd h) = - 1"
proof -
  let ?n = "hist_count h"
  let ?slot = "?n mod HIST_SIZE"
  define a where "a = (\<lambda>i. if i < LINE_MAX - 1 then cmd i else if i = LINE_MAX - 1 then 0 else history h ?slot i)"
  have h': "history_add cmd h = h\<lparr>history := (history h)(?slot := a), hist_count := Suc ?n, hist_cursor := - 1\<rparr>"
    using ne by (simp add: history_add_def a_def Let_def)
  have sa: "str_of a = str_of cmd"
  proof -
    have up: "[0..<LINE_MAX] = [0..<LINE_MAX - 1] @ [LINE_MAX - 1]" by (simp add: LINE_MAX_def flip: upt_Suc_append)
    have m: "map a [0..<LINE_MAX - 1] = map cmd [0..<LINE_MAX - 1]" by (simp add: a_def)
    have z: "a 127 = 0" by (simp add: a_def LINE_MAX_def)
    have l127: "LINE_MAX - 1 = 127" by (simp add: LINE_MAX_def)
    show ?thesis
    proof (cases "\<exists>c \<in> set (map cmd [0..<LINE_MAX - 1]). c = 0")
      case True
      then obtain c where c: "c \<in> set (map cmd [0..<LINE_MAX - 1])" "\<not> c \<noteq> 0" by blast
      show ?thesis unfolding str_of_def up map_append m
        using takeWhile_append1 [OF c(1), of "\<lambda>c. c \<noteq> 0"] c(2) by simp
    next
      case False
      have all: "takeWhile (\<lambda>c. c \<noteq> 0) (map cmd [0..<LINE_MAX - 1] @ ys) = map cmd [0..<LINE_MAX - 1] @ takeWhile (\<lambda>c. c \<noteq> 0) ys" for ys
        using False by (intro takeWhile_append2) blast
      have "cmd (LINE_MAX - 1) = 0"
      proof (rule ccontr)
        assume "cmd (LINE_MAX - 1) \<noteq> 0"
        then have "length (str_of cmd) = LINE_MAX" unfolding str_of_def up map_append all by (simp add: LINE_MAX_def)
        with len show False by simp
      qed
      then show ?thesis unfolding str_of_def up map_append m all by (simp only: l127) (simp add: z)
    qed
  qed
  have lc: "length cmds = min ?n HIST_SIZE" using rel by (simp add: hist_rel_def)
  have "str_of (history (history_add cmd h) ((Suc ?n - 1 - j) mod HIST_SIZE)) = (str_of cmd # cmds) ! j \<and>
      length ((str_of cmd # cmds) ! j) < LINE_MAX" if j: "j < min (Suc ?n) HIST_SIZE" for j
  proof (cases j)
    case 0
    then show ?thesis using sa len by (simp add: h')
  next
    case (Suc i)
    have i: "i < length cmds" "Suc ?n - 1 - j = ?n - 1 - i" using j Suc lc by auto
    have lt: "?n - 1 - i < ?n" "?n - (?n - 1 - i) < HIST_SIZE" using j Suc by auto
    have "(?n - 1 - i) mod HIST_SIZE \<noteq> ?slot"
    proof
      assume "(?n - 1 - i) mod HIST_SIZE = ?slot"
      then have "HIST_SIZE dvd ?n - (?n - 1 - i)" using lt(1) by (metis mod_eq_dvd_iff_nat less_imp_le)
      moreover have "0 < ?n - (?n - 1 - i)" using lt(1) by simp
      ultimately show False using lt(2) by (auto dest: dvd_imp_le)
    qed
    then show ?thesis using rel i Suc by (simp add: h' hist_rel_def)
  qed
  moreover have "length (take HIST_SIZE (str_of cmd # cmds)) = min (hist_count (history_add cmd h)) HIST_SIZE"
    using lc by (simp add: h' HIST_SIZE_def)
  ultimately show ?thesis by (auto simp: hist_rel_def h')
qed

section \<open>Properties\<close>

text \<open>
  C38: the line that is read is the one the specification makes of the same keys:
  characters are appended up to 127, backspace takes the last one away, the arrow keys replace
  the line by older and newer commands; the array is never written past its 128 cells.
\<close>

theorem readline_edits_as_specified:
  assumes "hist_rel h cmds" "KEY_ENTER \<notin> set keys"
  shows "\<exists>buf' h'. readline_with_history (keys @ KEY_ENTER # rest) buf h = Some (buf', h') \<and>
    line_rel buf' (length (spec_line cmds keys)) (spec_line cmds keys) \<and> hist_rel h' cmds"
proof -
  have "line_rel (buf(0 := 0)) 0 []" by (simp add: line_rel_def LINE_MAX_def)
  moreover have "hist_rel (h\<lparr>hist_cursor := - 1\<rparr>) cmds" using assms(1) by (simp add: hist_rel_def)
  ultimately show ?thesis
    using readline_loop_spec [of "buf(0 := 0)" 0 "[]" "h\<lparr>hist_cursor := - 1\<rparr>" cmds keys rest] assms(2)
    by (simp add: readline_with_history_def spec_line_def)
qed

text \<open>
  A command that is added becomes the most recent of the history, which keeps the
  last sixteen, and the next arrow key starts from it.
\<close>

theorem history_add_most_recent:
  assumes "hist_rel h cmds" "length (str_of cmd) < LINE_MAX" "cmd 0 \<noteq> 0"
  shows "hist_rel (history_add cmd h) (take HIST_SIZE (str_of cmd # cmds)) \<and> hist_cursor (history_add cmd h) = - 1"
  using assms by (rule history_add_rel)

definition demo_hist :: hist where
  "demo_hist = \<lparr>history = (\<lambda>_ _. 0), hist_count = 0, hist_cursor = - 1, h_out = []\<rparr>"

lemma demo_hist_rel: "hist_rel demo_hist []"
  by (simp add: hist_rel_def demo_hist_def)

theorem readline_edits_as_specified_witness:
  "\<exists>buf' h'. readline_with_history [65, 66, KEY_BS, 67, KEY_ENTER] (\<lambda>_. 1) demo_hist = Some (buf', h') \<and>
    line_rel buf' (Suc (Suc 0)) [65, 67]"
proof -
  have k: "KEY_ENTER \<notin> set [65, 66, KEY_BS, 67]" by (simp add: KEY_ENTER_def KEY_BS_def)
  have "spec_line [] [65, 66, KEY_BS, 67] = [65, 67]"
    by code_simp
  with readline_edits_as_specified [OF demo_hist_rel k, of "[]" "\<lambda>_. 1"] show ?thesis by auto
qed

theorem history_add_most_recent_witness:
  "hist_rel (history_add ((\<lambda>_. 0)(0 := 65)) demo_hist) [[65]]"
proof -
  have "[0..<LINE_MAX] = 0 # 1 # [2..<128]" by (simp add: LINE_MAX_def upt_rec)
  then have s: "str_of ((\<lambda>_. 0)(0 := 65)) = [65]" by (simp add: str_of_def)
  then have "length (str_of ((\<lambda>_. 0)(0 := 65))) < LINE_MAX" by (simp add: LINE_MAX_def)
  moreover have "((\<lambda>_. 0 :: u8)(0 := 65)) 0 \<noteq> 0" by simp
  ultimately show ?thesis
    using history_add_most_recent [OF demo_hist_rel, of "(\<lambda>_. 0)(0 := 65)"] s by (simp add: HIST_SIZE_def)
qed

end
