(* ===== verification/Printf.thy ===== *)
theory Printf
  imports NumConv
begin

text \<open>
  Formatted output (\<^verbatim>\<open>libc/src/stdio/printf.c\<close>, \<^verbatim>\<open>sprintf.c\<close>, \<^verbatim>\<open>puts.c\<close>).  Format and
  string arguments lie in the flat memory; the local arrays \<open>buffer[32]\<close> and \<open>num_str[10]\<close> are
  lists of cells, and \<open>None\<close> is a write behind their end, a missing argument or a string that
  never ends.  The arguments are the words the caller pushed.
\<close>

section \<open>Conversion of numbers\<close>

definition ascii_digit :: "nat \<Rightarrow> u8" where
  "ascii_digit d = 48 + of_nat d"

text \<open>\<open>for (shift = ...; shift >= 0; shift -= 4)\<close>: the characters that are stored.\<close>

fun itox_loop :: "u32 \<Rightarrow> nat list \<Rightarrow> bool \<Rightarrow> u8 list" where
  "itox_loop value [] started = []"
| "itox_loop value (shift # shifts) started =
     (let nibble = unat (drop_bit shift value AND 0xF)
      in if nibble \<noteq> 0 \<or> started
         then (bytes_of ''0123456789abcdef'' ! nibble) # itox_loop value shifts True
         else itox_loop value shifts started)"

definition itox_chars :: "u32 \<Rightarrow> u8 list" where
  "itox_chars value = (if value = 0 then [48] else itox_loop value [28, 24, 20, 16, 12, 8, 4, 0] False)"

fun itooct_loop :: "u32 \<Rightarrow> nat list \<Rightarrow> bool \<Rightarrow> u8 list" where
  "itooct_loop value [] started = []"
| "itooct_loop value (shift # shifts) started =
     (let triplet = unat (drop_bit shift value AND 0x7)
      in if triplet \<noteq> 0 \<or> started then ascii_digit triplet # itooct_loop value shifts True
         else itooct_loop value shifts started)"

definition itooct_chars :: "u32 \<Rightarrow> u8 list" where
  "itooct_chars value =
     (if value = 0 then [48] else itooct_loop value [30, 27, 24, 21, 18, 15, 12, 9, 6, 3, 0] False)"

text \<open>\<open>while (uvalue >= power)\<close> counts subtractions; the result is the digit and what is left.\<close>

function count_subtractions :: "u32 \<Rightarrow> u32 \<Rightarrow> nat \<Rightarrow> nat \<times> u32" where
  "count_subtractions value pw digit =
     (if pw \<noteq> 0 \<and> value \<ge> pw then count_subtractions (value - pw) pw (Suc digit) else (digit, value))"
  by pat_completeness auto
termination
proof (relation "measure (\<lambda>(v, p, d). unat v)")
  fix val pw :: u32 and digit :: nat
  assume "pw \<noteq> 0 \<and> pw \<le> val"
  then show "((val - pw, pw, Suc digit), val, pw, digit) \<in> measure (\<lambda>(v, p, d). unat v)"
    using unat_gt_0 [of pw] by (auto simp: unat_sub word_le_nat_alt intro!: diff_less)
qed simp

declare count_subtractions.simps [simp del]

definition powers :: "u32 list" where
  "powers = [1000000000, 100000000, 10000000, 1000000, 100000, 10000, 1000, 100, 10, 1]"

fun itodec_loop :: "u32 \<Rightarrow> u32 list \<Rightarrow> bool \<Rightarrow> u8 list" where
  "itodec_loop value [] started = []"
| "itodec_loop value (pw # ps) started =
     (let (digit, rest) = count_subtractions value pw 0
      in if digit \<noteq> 0 \<or> started then ascii_digit digit # itodec_loop rest ps True
         else itodec_loop rest ps started)"

definition itoudec_chars :: "u32 \<Rightarrow> u8 list" where
  "itoudec_chars value = (if value = 0 then [48] else itodec_loop value powers False)"

definition itodec_chars :: "u32 \<Rightarrow> u8 list" where
  "itodec_chars value =
     (if value = 0 then [48]
      else if sint value < 0 then 45 # itodec_loop (- value) powers False
      else itodec_loop value powers False)"

section \<open>The local arrays\<close>

text \<open>\<open>*ptr++ = c\<close> for every character and a final zero.\<close>

definition store_str :: "u8 list \<Rightarrow> u8 list \<Rightarrow> u8 list option" where
  "store_str cs buf = (if length cs < length buf then Some (cs @ 0 # drop (Suc (length cs)) buf) else None)"

definition itox :: "u32 \<Rightarrow> u8 list \<Rightarrow> u8 list option" where "itox value = store_str (itox_chars value)"
definition itooct :: "u32 \<Rightarrow> u8 list \<Rightarrow> u8 list option" where "itooct value = store_str (itooct_chars value)"
definition itodec :: "u32 \<Rightarrow> u8 list \<Rightarrow> u8 list option" where "itodec value = store_str (itodec_chars value)"
definition itoudec :: "u32 \<Rightarrow> u8 list \<Rightarrow> u8 list option" where "itoudec value = store_str (itoudec_chars value)"

definition text_of :: "u8 list \<Rightarrow> u8 list" where
  "text_of buf = takeWhile (\<lambda>c. c \<noteq> 0) buf"

definition put_cell :: "u8 list \<Rightarrow> nat \<Rightarrow> u8 \<Rightarrow> u8 list option" where
  "put_cell buf i c = (if i < length buf then Some (buf[i := c]) else None)"

text \<open>\<open>for (i = len; i >= 0; i--) str[i + k] = str[i]\<close>\<close>

fun pad_move :: "nat \<Rightarrow> nat \<Rightarrow> u8 list \<Rightarrow> u8 list option" where
  "pad_move 0 k buf = put_cell buf k (buf ! 0)"
| "pad_move (Suc i) k buf = Option.bind (put_cell buf (Suc i + k) (buf ! Suc i)) (pad_move i k)"

fun pad_fill :: "nat \<Rightarrow> u8 list \<Rightarrow> u8 list option" where
  "pad_fill 0 buf = Some buf"
| "pad_fill (Suc n) buf = Option.bind (pad_fill n buf) (\<lambda>b. put_cell b n 48)"

definition pad_zeros :: "nat \<Rightarrow> u8 list \<Rightarrow> u8 list option" where
  "pad_zeros width buf =
     (let len = length (text_of buf)
      in if len \<ge> width then Some buf
         else Option.bind (pad_move len (width - len) buf) (pad_fill (width - len)))"

section \<open>\<open>printf\<close>\<close>

text \<open>\<open>puts\<close> writes the characters up to the zero and no line end.\<close>

partial_function (option) puts_loop :: "mem \<Rightarrow> u32 \<Rightarrow> u8 list \<Rightarrow> u8 list option" where
  "puts_loop m str out = (if m str \<noteq> 0 then puts_loop m (str + 1) (out @ [m str]) else Some out)"

definition puts :: "mem \<Rightarrow> u32 \<Rightarrow> u8 list option" where
  "puts m str = puts_loop m str []"

text \<open>Flags and width: the place behind them, whether a zero led, the width.\<close>

partial_function (option) format_flags :: "mem \<Rightarrow> u32 \<Rightarrow> bool \<Rightarrow> nat \<Rightarrow> (u32 \<times> bool \<times> nat) option" where
  "format_flags m p zero_pad width =
     (if 48 \<le> schar (m p) \<and> schar (m p) \<le> 57
      then if m p = 48 \<and> width = 0 then format_flags m (p + 1) True width
           else format_flags m (p + 1) zero_pad (width * 10 + nat (schar (m p) - 48))
      else Some (p, zero_pad, width))"

text \<open>A number: converted into \<open>buffer[32]\<close>, padded if the zero flag is set.\<close>

definition number_text :: "(u32 \<Rightarrow> u8 list \<Rightarrow> u8 list option) \<Rightarrow> bool \<Rightarrow> nat \<Rightarrow> u32 \<Rightarrow> u8 list option" where
  "number_text conv zero_pad width num =
     map_option text_of (Option.bind (conv num (replicate 32 0))
       (\<lambda>b. if zero_pad \<and> width > 0 then pad_zeros width b else Some b))"

text \<open>
  The \<open>switch\<close>: what is printed, what is added to the count, the arguments that are left.
  \<open>%f\<close> takes a double, which is two words.
\<close>

fun printf_switch :: "mem \<Rightarrow> u8 \<Rightarrow> bool \<Rightarrow> nat \<Rightarrow> u32 list \<Rightarrow> (u8 list \<times> nat \<times> u32 list) option" where
  "printf_switch m c zero_pad width args =
     (if c = 99 then (case args of [] \<Rightarrow> None | a # as \<Rightarrow> Some ([ucast a], 1, as))
      else if c = 100 \<or> c = 105 then (case args of [] \<Rightarrow> None | a # as \<Rightarrow>
        map_option (\<lambda>t. (t, length t, as)) (number_text itodec zero_pad width a))
      else if c = 117 then (case args of [] \<Rightarrow> None | a # as \<Rightarrow>
        map_option (\<lambda>t. (t, length t, as)) (number_text itoudec zero_pad width a))
      else if c = 102 \<or> c = 70 then (case args of a # b # as \<Rightarrow> Some (bytes_of ''[float]'', 7, as) | _ \<Rightarrow> None)
      else if c = 115 then (case args of [] \<Rightarrow> None | a # as \<Rightarrow>
        if a \<noteq> 0 then map_option (\<lambda>t. (t, length t, as)) (puts m a) else Some (bytes_of ''(null)'', 6, as))
      else if c = 120 \<or> c = 88 then (case args of [] \<Rightarrow> None | a # as \<Rightarrow>
        map_option (\<lambda>t. (t, length t, as)) (number_text itox zero_pad width a))
      else if c = 111 then (case args of [] \<Rightarrow> None | a # as \<Rightarrow>
        map_option (\<lambda>t. (t, length t, as)) (number_text itooct zero_pad width a))
      else if c = 37 then Some ([37], 1, args)
      else if width > 0 then map_option (\<lambda>b. ([37] @ (if zero_pad then [48] else []) @ text_of b @ [c], 2 + length (text_of b), args))
             (itodec (of_nat width) (replicate 10 0))
           else Some ([37] @ (if zero_pad then [48] else []) @ [c], 2, args))"

declare printf_switch.simps [simp del]

partial_function (option) printf_loop :: "mem \<Rightarrow> u32 \<Rightarrow> u32 list \<Rightarrow> nat \<Rightarrow> u8 list \<Rightarrow> (nat \<times> u8 list) option" where
  "printf_loop m p args count out =
     (if m p = 0 then Some (count, out)
      else if m p \<noteq> 37 then printf_loop m (p + 1) args (count + 1) (out @ [m p])
      else Option.bind (format_flags m (p + 1) False 0) (\<lambda>(p1, zero_pad, width).
        let p2 = (if m p1 = 108 then p1 + 1 else p1)
        in Option.bind (printf_switch m (m p2) zero_pad width args) (\<lambda>(t, n, as).
             printf_loop m (p2 + 1) as (count + n) (out @ t))))"

definition printf :: "mem \<Rightarrow> u32 \<Rightarrow> u32 list \<Rightarrow> (nat \<times> u8 list) option" where
  "printf m format args = printf_loop m format args 0 []"

section \<open>\<open>sprintf\<close>\<close>

text \<open>\<open>*str++ = *s++\<close> while \<open>*s\<close>, in one memory.\<close>

partial_function (option) copy_text :: "mem \<Rightarrow> u32 \<Rightarrow> u32 \<Rightarrow> (mem \<times> u32) option" where
  "copy_text m str s = (if m s \<noteq> 0 then copy_text (m(str := m s)) (str + 1) (s + 1) else Some (m, str))"

fun put_text :: "mem \<Rightarrow> u32 \<Rightarrow> u8 list \<Rightarrow> mem \<times> u32" where
  "put_text m str [] = (m, str)"
| "put_text m str (c # cs) = put_text (m(str := c)) (str + 1) cs"

fun sprintf_switch :: "mem \<Rightarrow> u32 \<Rightarrow> u8 \<Rightarrow> bool \<Rightarrow> nat \<Rightarrow> u32 list \<Rightarrow> ((mem \<times> u32) \<times> u32 list) option" where
  "sprintf_switch m str c zero_pad width args =
     (if c = 99 then (case args of [] \<Rightarrow> None | a # as \<Rightarrow> Some (put_text m str [ucast a], as))
      else if c = 100 \<or> c = 105 then (case args of [] \<Rightarrow> None | a # as \<Rightarrow>
        map_option (\<lambda>t. (put_text m str t, as)) (number_text itodec zero_pad width a))
      else if c = 117 then (case args of [] \<Rightarrow> None | a # as \<Rightarrow>
        map_option (\<lambda>t. (put_text m str t, as)) (number_text itoudec zero_pad width a))
      else if c = 102 \<or> c = 70 then (case args of a # b # as \<Rightarrow> Some (put_text m str (bytes_of ''[float]''), as) | _ \<Rightarrow> None)
      else if c = 115 then (case args of [] \<Rightarrow> None | a # as \<Rightarrow>
        if a \<noteq> 0 then map_option (\<lambda>r. (r, as)) (copy_text m str a) else Some (put_text m str (bytes_of ''(null)''), as))
      else if c = 120 \<or> c = 88 then (case args of [] \<Rightarrow> None | a # as \<Rightarrow>
        map_option (\<lambda>t. (put_text m str t, as)) (number_text itox zero_pad width a))
      else if c = 111 then (case args of [] \<Rightarrow> None | a # as \<Rightarrow>
        map_option (\<lambda>t. (put_text m str t, as)) (number_text itooct zero_pad width a))
      else if c = 37 then Some (put_text m str [37], args)
      else Some (put_text m str [37, c], args))"

declare sprintf_switch.simps [simp del]

partial_function (option) sprintf_loop :: "mem \<Rightarrow> u32 \<Rightarrow> u32 \<Rightarrow> u32 list \<Rightarrow> (mem \<times> u32) option" where
  "sprintf_loop m str p args =
     (if m p = 0 then Some (m(str := 0), str)
      else if m p \<noteq> 37 then sprintf_loop (m(str := m p)) (str + 1) (p + 1) args
      else Option.bind (format_flags m (p + 1) False 0) (\<lambda>(p1, zero_pad, width).
             Option.bind (sprintf_switch m str (m p1) zero_pad width args) (\<lambda>((m', str'), as).
               sprintf_loop m' str' (p1 + 1) as)))"

definition sprintf :: "mem \<Rightarrow> u32 \<Rightarrow> u32 \<Rightarrow> u32 list \<Rightarrow> (u32 \<times> mem) option" where
  "sprintf m str format args = map_option (\<lambda>(m', e). (e - str, m')) (sprintf_loop m str format args)"


section \<open>The digits that are printed\<close>

text \<open>All \<open>k\<close> digits of a number, and the number without its leading zeros.\<close>

definition pos_digits :: "nat \<Rightarrow> nat \<Rightarrow> nat \<Rightarrow> nat list" where
  "pos_digits b k n = map (\<lambda>i. n div b ^ i mod b) (rev [0..<k])"

lemma pos_digits_Suc: "pos_digits b (Suc k) n = n div b ^ k mod b # pos_digits b k n"
  by (simp add: pos_digits_def)

lemma pos_digits_mod:
  assumes "0 < b"
  shows "pos_digits b k (n mod b ^ k) = pos_digits b k n"
proof -
  have "n mod b ^ k div b ^ i mod b = n div b ^ i mod b" if i: "i < k" for i
  proof -
    obtain j where k: "k = Suc (i + j)" using less_imp_Suc_add [of i k] i by auto
    have "n mod (b ^ i * b ^ Suc j) = b ^ i * (n div b ^ i mod b ^ Suc j) + n mod b ^ i" by (rule mod_mult2_eq)
    then have "n mod b ^ k div b ^ i = n div b ^ i mod b ^ Suc j"
      using assms by (simp add: k power_add mult.left_commute)
    then show ?thesis by (simp add: mod_mod_cancel)
  qed
  then show ?thesis by (auto simp: pos_digits_def)
qed

lemma digits_lsd_padded:
  assumes "2 \<le> b" "n < b ^ Suc k"
  shows "\<exists>z. map (\<lambda>i. n div b ^ i mod b) [0..<Suc k] = digits_lsd b n @ replicate z 0"
  using assms(2)
proof (induction k arbitrary: n)
  case 0
  then have "n < b" by simp
  moreover from this have "digits_lsd b n = [n]" by (subst digits_lsd.simps) simp
  ultimately show ?case by (intro exI [of _ 0]) simp
next
  case (Suc k)
  have up: "map (\<lambda>i. n div b ^ i mod b) [0..<Suc (Suc k)]
      = n mod b # map (\<lambda>i. n div b div b ^ i mod b) [0..<Suc k]"
  proof -
    have "[0..<Suc (Suc k)] = 0 # map Suc [0..<Suc k]" by (simp add: map_Suc_upt upt_conv_Cons del: upt_Suc)
    then show ?thesis by (simp add: div_mult2_eq o_def del: upt_Suc)
  qed
  show ?case
  proof (cases "n < b")
    case True
    then have "map (\<lambda>i. n div b div b ^ i mod b) [0..<Suc k] = replicate (Suc k) 0"
      by (simp add: map_replicate_const del: upt_Suc replicate_Suc)
    moreover have "digits_lsd b n = [n]" using True by (subst digits_lsd.simps) simp
    ultimately show ?thesis using True unfolding up by (intro exI [of _ "Suc k"]) simp
  next
    case False
    have "n div b < b ^ Suc k" using Suc.prems assms(1) by (simp add: less_mult_imp_div_less mult.commute)
    from Suc.IH [OF this] obtain z where
      z: "map (\<lambda>i. n div b div b ^ i mod b) [0..<Suc k] = digits_lsd b (n div b) @ replicate z 0" by blast
    have "digits_lsd b n = n mod b # digits_lsd b (n div b)"
      using False assms(1) by (subst digits_lsd.simps) simp
    then show ?thesis unfolding up z by (intro exI [of _ z]) simp
  qed
qed

lemma last_digit_nonzero: "2 \<le> b \<Longrightarrow> 0 < n \<Longrightarrow> last (digits_lsd b n) \<noteq> 0"
proof (induction b n rule: digits_lsd.induct)
  case (1 b n)
  then show ?case
    by (cases "n < b") (auto simp: digits_lsd.simps [of b n] digits_lsd_ne div_greater_zero_iff)
qed

lemma strip_pos_digits:
  assumes "2 \<le> b" "0 < n" "n < b ^ k" "0 < k"
  shows "dropWhile (\<lambda>d. d = 0) (pos_digits b k n) = rev (digits_lsd b n)"
proof -
  obtain k' where k: "k = Suc k'" using assms(4) gr0_implies_Suc by auto
  obtain z where "map (\<lambda>i. n div b ^ i mod b) [0..<k] = digits_lsd b n @ replicate z 0"
    using digits_lsd_padded [OF assms(1), of n k'] assms(3) k by auto
  then have "pos_digits b k n = replicate z 0 @ rev (digits_lsd b n)"
    by (simp add: pos_digits_def flip: rev_map)
  moreover have "hd (rev (digits_lsd b n)) \<noteq> 0" "rev (digits_lsd b n) \<noteq> []"
    using last_digit_nonzero [OF assms(1,2)] digits_lsd_ne by (simp_all add: hd_rev)
  ultimately show ?thesis
    by (cases "rev (digits_lsd b n)") (auto simp: dropWhile_append)
qed

abbreviation strip :: "bool \<Rightarrow> nat list \<Rightarrow> nat list" where
  "strip started ds \<equiv> (if started then ds else dropWhile (\<lambda>d. d = 0) ds)"

lemma hex_table: "\<forall>d \<in> set [0..<16]. bytes_of ''0123456789abcdef'' ! d = digit_char d"
  by code_simp

lemma ascii_table: "\<forall>d \<in> set [0..<10]. ascii_digit d = digit_char d"
  by code_simp

lemma ascii_digit_char: "d < 10 \<Longrightarrow> ascii_digit d = digit_char d"
  using ascii_table by simp

lemma masked_digit:
  fixes v :: u32
  shows "unat (drop_bit (k * i) v AND mask k) = unat v div (2 ^ k) ^ i mod 2 ^ k"
  by (simp add: unsigned_take_bit_eq unat_drop_bit_eq flip: take_bit_eq_mask) (simp add: take_bit_eq_mod drop_bit_eq_div power_mult)

lemma itox_loop_strip:
  "itox_loop v shifts started = map digit_char (strip started (map (\<lambda>s. unat (drop_bit s v AND 0xF)) shifts))"
proof (induction shifts arbitrary: started)
  case (Cons s shifts)
  have "unat (drop_bit s v AND 0xF) < 16"
    using word_and_le1 [of "drop_bit s v" "0xF"] by (simp add: word_le_nat_alt)
  then have "bytes_of ''0123456789abcdef'' ! unat (drop_bit s v AND 0xF) = digit_char (unat (drop_bit s v AND 0xF))"
    using hex_table by simp
  with Cons show ?case by (simp add: Let_def)
qed simp

lemma itooct_loop_strip:
  "itooct_loop v shifts started = map digit_char (strip started (map (\<lambda>s. unat (drop_bit s v AND 0x7)) shifts))"
proof (induction shifts arbitrary: started)
  case (Cons s shifts)
  have "unat (drop_bit s v AND 0x7) < 10"
    using word_and_le1 [of "drop_bit s v" "0x7"] by (simp add: word_le_nat_alt)
  with Cons show ?case by (simp add: Let_def ascii_digit_char)
qed simp

lemma digit_text_strip:
  assumes "2 \<le> b" "0 < n" "n < b ^ k" "0 < k"
  shows "map digit_char (strip False (pos_digits b k n)) = digit_text b n"
  using strip_pos_digits [OF assms] by (simp add: digit_text_def)

lemma digit_text_0: "2 \<le> b \<Longrightarrow> digit_text b 0 = [48]"
  by (simp add: digit_text_def digits_lsd.simps) code_simp

lemma pos_digits_eqI:
  assumes "shifts = rev (map (\<lambda>i. j * i) [0..<k])" "\<And>i. f (j * i) = n div b ^ i mod b"
  shows "map f shifts = pos_digits b k n"
  by (simp add: assms pos_digits_def rev_map o_def)

lemma itox_chars_digits: "itox_chars v = digit_text 16 (unat v)"
proof (cases "v = 0")
  case False
  have "map (\<lambda>s. unat (drop_bit s v AND 0xF)) [28, 24, 20, 16, 12, 8, 4, 0] = pos_digits 16 8 (unat v)"
  proof (rule pos_digits_eqI)
    show "unat (drop_bit (4 * i) v AND 0xF) = unat v div 16 ^ i mod 16" for i
      using masked_digit [of 4 i v] by (simp add: mask_eq_exp_minus_1)
  qed (simp add: upt_rec)
  moreover have "map digit_char (strip False (pos_digits 16 8 (unat v))) = digit_text 16 (unat v)"
    using False unat_less_32 [of v] by (intro digit_text_strip) (auto simp: unat_gt_0)
  ultimately show ?thesis using False by (simp add: itox_chars_def itox_loop_strip del: list.map)
qed (simp add: itox_chars_def digit_text_0)

lemma itooct_chars_digits: "itooct_chars v = digit_text 8 (unat v)"
proof (cases "v = 0")
  case False
  have "map (\<lambda>s. unat (drop_bit s v AND 0x7)) [30, 27, 24, 21, 18, 15, 12, 9, 6, 3, 0] = pos_digits 8 11 (unat v)"
  proof (rule pos_digits_eqI)
    show "unat (drop_bit (3 * i) v AND 0x7) = unat v div 8 ^ i mod 8" for i
      using masked_digit [of 3 i v] by (simp add: mask_eq_exp_minus_1)
  qed (simp add: upt_rec)
  moreover have "map digit_char (strip False (pos_digits 8 11 (unat v))) = digit_text 8 (unat v)"
    using False unat_less_32 [of v] by (intro digit_text_strip) (auto simp: unat_gt_0)
  ultimately show ?thesis using False by (simp add: itooct_chars_def itooct_loop_strip del: list.map)
qed (simp add: itooct_chars_def digit_text_0)

text \<open>Counting subtractions divides.\<close>

lemma count_subtractions_div:
  "pw \<noteq> 0 \<Longrightarrow> count_subtractions v pw d = (d + unat v div unat pw, v mod pw)"
proof (induction v pw d rule: count_subtractions.induct)
  case (1 v pw d)
  show ?case
  proof (cases "pw \<le> v")
    case True
    have u: "unat (v - pw) = unat v - unat pw" using True by (simp add: unat_sub)
    have le: "unat pw \<le> unat v" "0 < unat pw" using True "1.prems" by (simp_all add: word_le_nat_alt unat_gt_0)
    have "count_subtractions v pw d = (Suc d + (unat v - unat pw) div unat pw, (v - pw) mod pw)"
      using 1 True u by (subst count_subtractions.simps) simp
    moreover have "Suc d + (unat v - unat pw) div unat pw = d + unat v div unat pw"
      using le by (simp add: le_div_geq)
    moreover have "(v - pw) mod pw = v mod pw"
      using le by (intro word_unat_eq_iff [THEN iffD2]) (simp add: unat_mod u le_mod_geq)
    ultimately show ?thesis by simp
  next
    case False
    then have "unat v < unat pw" by (simp add: word_le_nat_alt)
    with False show ?thesis
      by (subst count_subtractions.simps) (simp add: word_unat_eq_iff unat_mod)
  qed
qed

lemma itodec_loop_strip:
  "unat v < 10 ^ k \<Longrightarrow> k \<le> 10 \<Longrightarrow>
    itodec_loop v (map (\<lambda>i. 10 ^ i) (rev [0..<k])) started = map digit_char (strip started (pos_digits 10 k (unat v)))"
proof (induction k arbitrary: v started)
  case 0
  then show ?case by (simp add: pos_digits_def)
next
  case (Suc k)
  have "(10::nat) ^ k \<le> 10 ^ 9" using Suc.prems(2) by (intro power_increasing) simp_all
  then have "unat (of_nat (10 ^ k) :: u32) = 10 ^ k" by (simp only: unat_of_nat) simp
  then have p: "unat (10 ^ k :: u32) = 10 ^ k" by simp
  then have nz: "(10 ^ k :: u32) \<noteq> 0" by (metis power_not_zero unat_0 zero_neq_numeral)
  have d: "unat v div 10 ^ k < 10" using Suc.prems(1) by (simp add: less_mult_imp_div_less mult.commute)
  have r: "unat (v mod 10 ^ k) = unat v mod 10 ^ k" by (simp add: unat_mod p)
  then have "unat (v mod 10 ^ k) < 10 ^ k" by simp
  with Suc.IH [of "v mod 10 ^ k"] Suc.prems(2) r
  have "itodec_loop (v mod 10 ^ k) (map (\<lambda>i. 10 ^ i) (rev [0..<k])) st
      = map digit_char (strip st (pos_digits 10 k (unat v)))" for st
    by (simp add: pos_digits_mod)
  with d show ?case
    by (simp add: count_subtractions_div [OF nz] p pos_digits_Suc ascii_digit_char)
qed

lemma powers_eq: "powers = map (\<lambda>i. 10 ^ i) (rev [0..<10])"
  by (simp add: powers_def upt_rec)

lemma decimal_loop_digits: "v \<noteq> 0 \<Longrightarrow> itodec_loop v powers False = digit_text 10 (unat v)"
  using itodec_loop_strip [of v 10 False] digit_text_strip [of 10 "unat v" 10] unat_less_32 [of v]
  by (simp add: powers_eq unat_gt_0)

lemma itoudec_chars_digits: "itoudec_chars v = digit_text 10 (unat v)"
  by (simp add: itoudec_chars_def decimal_loop_digits digit_text_0)

text \<open>The text of a signed number.\<close>

definition signed_text :: "int \<Rightarrow> u8 list" where
  "signed_text i = (if i < 0 then 45 # digit_text 10 (nat (- i)) else digit_text 10 (nat i))"

lemma unat_signed:
  fixes v :: u32
  shows "0 \<le> sint v \<Longrightarrow> unat v = nat (sint v)" "sint v < 0 \<Longrightarrow> unat (- v) = nat (- sint v)"
proof -
  have u: "int (unat v) = sint v mod 2 ^ 32" by (simp add: uint_sint take_bit_eq_mod)
  have r: "- (2 ^ 31) \<le> sint v" "sint v < 2 ^ 31" using sint_greater_eq [of v] sint_less [of v] by simp_all
  show "0 \<le> sint v \<Longrightarrow> unat v = nat (sint v)"
  proof -
    assume "0 \<le> sint v"
    then have "int (unat v) = sint v" using u r by simp
    then show ?thesis by linarith
  qed
  assume neg: "sint v < 0"
  have "sint v mod 2 ^ 32 = (sint v + 2 ^ 32) mod 2 ^ 32" by simp
  also have "\<dots> = sint v + 2 ^ 32" using neg r by (intro mod_pos_pos_trivial) simp_all
  finally have "int (unat v) = sint v + 2 ^ 32" using u by simp
  moreover have "v \<noteq> 0" using neg by auto
  moreover have "unat v < 2 ^ 32" by (rule unat_less_32)
  ultimately have "int (unat (- v)) = - sint v" by (simp add: unat_uminus of_nat_diff)
  then show "unat (- v) = nat (- sint v)" by linarith
qed

lemma itodec_chars_digits: "itodec_chars v = signed_text (sint v)"
  using decimal_loop_digits [of v] decimal_loop_digits [of "- v"] unat_signed [of v]
  by (auto simp: itodec_chars_def signed_text_def digit_text_0)


section \<open>Padding\<close>

lemma pad_move_shift:
  "0 < k \<Longrightarrow> i + k < length buf \<Longrightarrow>
    pad_move i k buf = Some (take k buf @ take (Suc i) buf @ drop (Suc (i + k)) buf)"
proof (induction i arbitrary: buf)
  case 0
  then have "take (Suc 0) buf = [buf ! 0]" by (cases buf) simp_all
  with "0" show ?case by (simp add: put_cell_def upd_conv_take_nth_drop)
next
  case (Suc i)
  let ?b = "buf[Suc i + k := buf ! Suc i]"
  have "pad_move i k ?b = Some (take k ?b @ take (Suc i) ?b @ drop (Suc (i + k)) ?b)"
    using Suc.prems by (intro Suc.IH) simp_all
  moreover have "take (Suc (Suc i)) buf = take (Suc i) buf @ [buf ! Suc i]"
    using Suc.prems by (simp add: take_Suc_conv_app_nth)
  moreover have "drop (Suc (i + k)) ?b = buf ! Suc i # drop (Suc (Suc (i + k))) buf"
    using Suc.prems by (simp add: upd_conv_take_nth_drop)
  ultimately show ?case using Suc.prems by (simp add: put_cell_def)
qed

lemma pad_move_overrun: "length buf \<le> i + k \<Longrightarrow> pad_move i k buf = None"
  by (cases i) (simp_all add: put_cell_def)

lemma pad_fill_zeros: "n \<le> length buf \<Longrightarrow> pad_fill n buf = Some (replicate n 48 @ drop n buf)"
proof (induction n)
  case (Suc n)
  then have "drop n buf = buf ! n # drop (Suc n) buf" by (simp add: Cons_nth_drop_Suc)
  moreover have "(replicate n x @ c # ys)[n := d] = replicate n x @ d # ys" for x c d and ys :: "u8 list"
    using list_update_length [of "replicate n x" c ys d] by simp
  ultimately show ?case
    using Suc by (simp add: put_cell_def replicate_app_Cons_same)
qed simp

text \<open>A text that a conversion stored, and its leading zeros.\<close>

definition zero_padded :: "nat \<Rightarrow> u8 list \<Rightarrow> u8 list" where
  "zero_padded width t = replicate (width - length t) 48 @ t"

lemma text_of_stored: "0 \<notin> set t \<Longrightarrow> text_of (t @ 0 # zs) = t"
  by (simp add: text_of_def takeWhile_append2 takeWhile_tail) (metis takeWhile_eq_all_conv)

lemma pad_zeros_text:
  assumes "0 \<notin> set t" "width < length (t @ 0 # zs)"
  shows "map_option text_of (pad_zeros width (t @ 0 # zs)) = Some (zero_padded width t)"
proof (cases "width \<le> length t")
  case True
  with assms(1) show ?thesis by (simp add: pad_zeros_def text_of_stored zero_padded_def)
next
  case False
  let ?b = "t @ 0 # zs" and ?n = "width - length t"
  have "pad_move (length t) ?n ?b = Some (take ?n ?b @ t @ 0 # drop (Suc width) ?b)"
    using False assms(2) pad_move_shift [of ?n "length t" ?b] by simp
  moreover have "pad_fill ?n (take ?n ?b @ t @ 0 # drop (Suc width) ?b)
      = Some (replicate ?n 48 @ t @ 0 # drop (Suc width) ?b)"
    using False assms(2) by (subst pad_fill_zeros) simp_all
  moreover have "text_of (replicate ?n 48 @ t @ 0 # drop (Suc width) ?b) = replicate ?n 48 @ t"
    using assms(1) text_of_stored [of "replicate ?n 48 @ t"] by simp
  ultimately show ?thesis
    using False assms(1) by (simp add: pad_zeros_def text_of_stored zero_padded_def Let_def)
qed

lemma pad_zeros_overrun:
  assumes "0 \<notin> set t" "length (t @ 0 # zs) \<le> width"
  shows "pad_zeros width (t @ 0 # zs) = None"
  using assms pad_move_overrun [of "t @ 0 # zs" "length t" "width - length t"]
  by (simp add: pad_zeros_def text_of_stored)

definition number_spec :: "bool \<Rightarrow> nat \<Rightarrow> u8 list \<Rightarrow> u8 list" where
  "number_spec zero_pad width t = (if zero_pad then zero_padded width t else t)"

lemma number_text_spec:
  assumes "conv v (replicate 32 0) = store_str t (replicate 32 0)" "0 \<notin> set t" "length t < 32" "zero_pad \<Longrightarrow> width < 32"
  shows "number_text conv zero_pad width v = Some (number_spec zero_pad width t)"
proof -
  have s: "store_str t (replicate 32 0) = Some (t @ 0 # replicate (31 - length t) 0)"
    using assms(3) by (simp add: store_str_def)
  show ?thesis
  proof (cases "zero_pad \<and> width > 0")
    case True
    have "width < length (t @ 0 # replicate (31 - length t) 0)" using assms(3,4) True by simp
    with True show ?thesis
      using assms(1,2) s pad_zeros_text [of t width "replicate (31 - length t) 0"]
      by (simp add: number_text_def number_spec_def)
  next
    case False
    then show ?thesis
      using assms(1,2) s by (auto simp: number_text_def number_spec_def text_of_stored zero_padded_def)
  qed
qed

lemma number_text_overrun:
  assumes "conv v (replicate 32 0) = store_str t (replicate 32 0)" "0 \<notin> set t" "length t < 32" "zero_pad" "32 \<le> width"
  shows "number_text conv zero_pad width v = None"
proof -
  have "length (t @ 0 # replicate (31 - length t) 0) \<le> width" using assms(3,5) by simp
  then show ?thesis
    using assms pad_zeros_overrun [of t "replicate (31 - length t) 0" width]
    by (simp add: number_text_def store_str_def)
qed

text \<open>The texts fit: at most 32 digits, and none of them is zero.\<close>

lemma digit_text_nonzero: "2 \<le> b \<Longrightarrow> b \<le> 36 \<Longrightarrow> 0 \<notin> set (digit_text b n)"
proof
  assume b: "2 \<le> b" "b \<le> 36" and "0 \<in> set (digit_text b n)"
  then obtain d where d: "d \<in> set (digits_lsd b n)" "digit_char d = 0" by (auto simp: digit_text_def)
  with digits_lsd_less [OF b(1) d(1)] b(2) show False by simp
qed

lemma length_digits_lsd_base: "2 \<le> b \<Longrightarrow> n < b ^ Suc k \<Longrightarrow> length (digits_lsd b n) \<le> Suc k"
  using digits_lsd_padded [of b n k] by (metis add_leD1 length_append length_map length_upt diff_zero le_refl)

lemma length_digit_text: "2 \<le> b \<Longrightarrow> n < b ^ Suc k \<Longrightarrow> length (digit_text b n) \<le> Suc k"
  using length_digits_lsd_base by (simp add: digit_text_def)

lemma signed_text_fits:
  assumes "- (2 ^ 31) \<le> i" "i < 2 ^ 31"
  shows "0 \<notin> set (signed_text i) \<and> length (signed_text i) < 32"
proof -
  have "nat i < 10 ^ Suc 9" "nat (- i) < 10 ^ Suc 9" using assms by (simp_all add: nat_less_iff)
  then show ?thesis
    using digit_text_nonzero [of 10 "nat i"] digit_text_nonzero [of 10 "nat (- i)"]
      length_digit_text [of 10 "nat i" 9] length_digit_text [of 10 "nat (- i)" 9]
    by (simp add: signed_text_def del: power_Suc)
qed

lemma conversions_spec:
  fixes v :: u32
  assumes "zero_pad \<Longrightarrow> width < 32"
  shows "number_text itodec zero_pad width v = Some (number_spec zero_pad width (signed_text (sint v)))"
    "number_text itoudec zero_pad width v = Some (number_spec zero_pad width (digit_text 10 (unat v)))"
    "number_text itox zero_pad width v = Some (number_spec zero_pad width (digit_text 16 (unat v)))"
    "number_text itooct zero_pad width v = Some (number_spec zero_pad width (digit_text 8 (unat v)))"
proof -
  have u: "unat v < 2 ^ 32" by (rule unat_less_32)
  have "- (2 ^ 31) \<le> sint v" "sint v < 2 ^ 31" using sint_greater_eq [of v] sint_less [of v] by simp_all
  then show "number_text itodec zero_pad width v = Some (number_spec zero_pad width (signed_text (sint v)))"
    using signed_text_fits [of "sint v"] assms
    by (intro number_text_spec) (simp_all add: itodec_def itodec_chars_digits)
  show "number_text itoudec zero_pad width v = Some (number_spec zero_pad width (digit_text 10 (unat v)))"
    using u length_digit_text [of 10 "unat v" 9] digit_text_nonzero [of 10 "unat v"] assms
    by (intro number_text_spec) (simp_all add: itoudec_def itoudec_chars_digits)
  show "number_text itox zero_pad width v = Some (number_spec zero_pad width (digit_text 16 (unat v)))"
    using u length_digit_text [of 16 "unat v" 7] digit_text_nonzero [of 16 "unat v"] assms
    by (intro number_text_spec) (simp_all add: itox_def itox_chars_digits)
  show "number_text itooct zero_pad width v = Some (number_spec zero_pad width (digit_text 8 (unat v)))"
    using u length_digit_text [of 8 "unat v" 10] digit_text_nonzero [of 8 "unat v"] assms
    by (intro number_text_spec) (simp_all add: itooct_def itooct_chars_digits)
qed

section \<open>Format strings and what they mean\<close>

text \<open>A format is a list of plain characters and directives: flags and width, \<open>l\<close> or not, letter.\<close>

datatype directive = Lit u8 | Directive "u8 list" bool u8

definition digit_byte :: "u8 \<Rightarrow> bool" where
  "digit_byte c \<longleftrightarrow> 48 \<le> schar c \<and> schar c \<le> 57"

definition zero_flag :: "u8 list \<Rightarrow> bool" where
  "zero_flag fs \<longleftrightarrow> fs \<noteq> [] \<and> hd fs = 48"

definition width_from :: "nat \<Rightarrow> u8 list \<Rightarrow> nat" where
  "width_from w fs = foldl (\<lambda>w c. w * 10 + nat (schar c - 48)) w fs"

abbreviation field_width :: "u8 list \<Rightarrow> nat" where
  "field_width \<equiv> width_from 0"

definition flags_fit :: "u8 list \<Rightarrow> bool" where
  "flags_fit fs \<longleftrightarrow> (zero_flag fs \<longrightarrow> field_width fs < 32)"

fun format_of :: "directive \<Rightarrow> u8 list" where
  "format_of (Lit c) = [c]"
| "format_of (Directive fs l c) = 37 # fs @ (if l then [108] else []) @ [c]"

abbreviation format_text :: "directive list \<Rightarrow> u8 list" where
  "format_text ds \<equiv> concat (List.map format_of ds)"

fun plain_flags :: "directive \<Rightarrow> bool" where
  "plain_flags (Lit c) \<longleftrightarrow> c \<noteq> 37"
| "plain_flags (Directive fs l c) \<longleftrightarrow> (\<forall>d \<in> set fs. digit_byte d) \<and> \<not> digit_byte c \<and> c \<noteq> 108"

abbreviation number_field :: "u8 list \<Rightarrow> u8 list \<Rightarrow> u8 list" where
  "number_field fs t \<equiv> number_spec (zero_flag fs) (field_width fs) t"

text \<open>The output of a format on its arguments, where \<open>str_at\<close> says which text a pointer leads to.\<close>

inductive prints :: "(u32 \<Rightarrow> u8 list \<Rightarrow> bool) \<Rightarrow> directive list \<Rightarrow> u32 list \<Rightarrow> u8 list \<Rightarrow> bool"
  for str_at where
  prints_end: "prints str_at [] args []"
| prints_lit: "prints str_at ds args out \<Longrightarrow> prints str_at (Lit c # ds) args (c # out)"
| prints_char: "prints str_at ds args out \<Longrightarrow>
    prints str_at (Directive fs l 99 # ds) (a # args) (ucast a # out)"
| prints_signed: "prints str_at ds args out \<Longrightarrow> flags_fit fs \<Longrightarrow> c = 100 \<or> c = 105 \<Longrightarrow>
    prints str_at (Directive fs l c # ds) (a # args) (number_field fs (signed_text (sint a)) @ out)"
| prints_unsigned: "prints str_at ds args out \<Longrightarrow> flags_fit fs \<Longrightarrow>
    prints str_at (Directive fs l 117 # ds) (a # args) (number_field fs (digit_text 10 (unat a)) @ out)"
| prints_hex: "prints str_at ds args out \<Longrightarrow> flags_fit fs \<Longrightarrow> c = 120 \<or> c = 88 \<Longrightarrow>
    prints str_at (Directive fs l c # ds) (a # args) (number_field fs (digit_text 16 (unat a)) @ out)"
| prints_octal: "prints str_at ds args out \<Longrightarrow> flags_fit fs \<Longrightarrow>
    prints str_at (Directive fs l 111 # ds) (a # args) (number_field fs (digit_text 8 (unat a)) @ out)"
| prints_string: "prints str_at ds args out \<Longrightarrow> a \<noteq> 0 \<Longrightarrow> str_at a s \<Longrightarrow>
    prints str_at (Directive fs l 115 # ds) (a # args) (s @ out)"
| prints_null: "prints str_at ds args out \<Longrightarrow>
    prints str_at (Directive fs l 115 # ds) (0 # args) (bytes_of ''(null)'' @ out)"
| prints_float: "prints str_at ds args out \<Longrightarrow> c = 102 \<or> c = 70 \<Longrightarrow>
    prints str_at (Directive fs l c # ds) (a # b # args) (bytes_of ''[float]'' @ out)"
| prints_percent: "prints str_at ds args out \<Longrightarrow>
    prints str_at (Directive fs l 37 # ds) args (37 # out)"

lemma format_flags_scan:
  "rd_bytes m p (length fs) = fs \<Longrightarrow> \<forall>d \<in> set fs. digit_byte d \<Longrightarrow> \<not> digit_byte (m (p + of_nat (length fs))) \<Longrightarrow>
    format_flags m p z w = Some (p + of_nat (length fs), z \<or> w = 0 \<and> zero_flag fs, width_from w fs)"
proof (induction fs arbitrary: p z w)
  case Nil
  then show ?case
    by (subst format_flags.simps) (auto simp: digit_byte_def zero_flag_def width_from_def)
next
  case (Cons d fs)
  have IH: "format_flags m (p + 1) z' w' = Some (p + 1 + of_nat (length fs), z' \<or> w' = 0 \<and> zero_flag fs, width_from w' fs)"
    for z' w'
    using Cons.prems by (intro Cons.IH) (simp_all add: add.assoc)
  have d: "m p = d" "48 \<le> schar d" "schar d \<le> 57" using Cons.prems by (simp_all add: digit_byte_def)
  show ?case
  proof (cases "d = 48 \<and> w = 0")
    case True
    with d have "format_flags m p z w = format_flags m (p + 1) True w" by (subst format_flags.simps) simp
    with True IH show ?thesis by (simp add: zero_flag_def width_from_def add.assoc)
  next
    case False
    define w' where "w' = w * 10 + nat (schar d - 48)"
    have "w' \<noteq> 0"
    proof
      assume "w' = 0"
      then have "w = 0" "schar d = sint (48 :: u8)" using d(2) by (simp_all add: w'_def)
      then show False using False by (metis sint_eq_iff)
    qed
    moreover have "format_flags m p z w = format_flags m (p + 1) z w'"
      using d False by (subst format_flags.simps) (auto simp: w'_def)
    moreover have "width_from w (d # fs) = width_from w' fs" by (simp add: width_from_def w'_def)
    ultimately show ?thesis using False IH [of z w'] by (auto simp: zero_flag_def add.assoc)
  qed
qed

lemma cstr_format:
  assumes "cstr m p (format_of (Directive fs l c) @ rest)"
  shows "m p = 37" "rd_bytes m (p + 1) (length fs) = fs"
    "m (p + 1 + of_nat (length fs)) = (if l then 108 else c)"
    "m (p + 1 + of_nat (length fs) + (if l then 1 else 0)) = c"
    "cstr m (p + 1 + of_nat (length fs) + (if l then 1 else 0) + 1) rest" "c \<noteq> 0"
  using assms by (auto simp: cstr_append split: if_splits)

lemma printf_directive:
  assumes "cstr m p (format_of (Directive fs l c) @ rest)" "plain_flags (Directive fs l c)"
  shows "\<exists>p'. cstr m p' rest \<and> printf_loop m p args n out =
    Option.bind (printf_switch m c (zero_flag fs) (field_width fs) args) (\<lambda>(t, k, as).
      printf_loop m p' as (n + k) (out @ t))"
proof -
  let ?q = "p + 1 + of_nat (length fs)"
  note f = cstr_format [OF assms(1)]
  have "\<not> digit_byte (m ?q)" using f(3) assms(2) by (auto simp: digit_byte_def)
  then have fl: "format_flags m (p + 1) False 0 = Some (?q, zero_flag fs, field_width fs)"
    using format_flags_scan [of m "p + 1" fs False 0] f(2) assms(2) by simp
  have "printf_loop m p args n out =
    Option.bind (printf_switch m c (zero_flag fs) (field_width fs) args) (\<lambda>(t, k, as).
      printf_loop m (?q + (if l then 1 else 0) + 1) as (n + k) (out @ t))"
    using f assms(2) by (subst printf_loop.simps) (auto simp: fl Let_def)
  with f(5) show ?thesis by blast
qed

lemma puts_text: "cstr m p s \<Longrightarrow> puts_loop m p out = Some (out @ s)"
  by (induction s arbitrary: p out) (subst puts_loop.simps; simp)+

lemma printf_loop_prints:
  assumes "prints (cstr m) ds args t" "\<forall>d \<in> set ds. plain_flags d" "cstr m p (format_text ds)"
  shows "printf_loop m p args n out = Some (n + length t, out @ t)"
  using assms
proof (induction arbitrary: p n out rule: prints.induct)
  case (prints_end args)
  then show ?case by (subst printf_loop.simps) simp
next
  case (prints_lit ds args out' c)
  then show ?case by (subst printf_loop.simps) simp
next
  case (prints_char ds args t fs l a)
  then show ?case
    using printf_directive [of m p fs l 99 "format_text ds" "a # args" n out]
    by (auto simp: printf_switch.simps)
next
  case (prints_signed ds args t fs c l a)
  then show ?case
    using printf_directive [of m p fs l c "format_text ds" "a # args" n out]
    by (auto simp: printf_switch.simps conversions_spec flags_fit_def)
next
  case (prints_unsigned ds args t fs l a)
  then show ?case
    using printf_directive [of m p fs l 117 "format_text ds" "a # args" n out]
    by (auto simp: printf_switch.simps conversions_spec flags_fit_def)
next
  case (prints_hex ds args t fs c l a)
  then show ?case
    using printf_directive [of m p fs l c "format_text ds" "a # args" n out]
    by (auto simp: printf_switch.simps conversions_spec flags_fit_def)
next
  case (prints_octal ds args t fs l a)
  then show ?case
    using printf_directive [of m p fs l 111 "format_text ds" "a # args" n out]
    by (auto simp: printf_switch.simps conversions_spec flags_fit_def)
next
  case (prints_string ds args t a s fs l)
  then show ?case
    using printf_directive [of m p fs l 115 "format_text ds" "a # args" n out]
    by (auto simp: printf_switch.simps puts_def puts_text)
next
  case (prints_null ds args t fs l)
  then show ?case
    using printf_directive [of m p fs l 115 "format_text ds" "0 # args" n out]
    by (auto simp: printf_switch.simps bytes_of_def)
next
  case (prints_float ds args t c fs l a b)
  then show ?case
    using printf_directive [of m p fs l c "format_text ds" "a # b # args" n out]
    by (auto simp: printf_switch.simps bytes_of_def)
next
  case (prints_percent ds args t fs l)
  then show ?case
    using printf_directive [of m p fs l 37 "format_text ds" args n out]
    by (auto simp: printf_switch.simps)
qed

lemma printf_text:
  assumes "cstr m format (format_text ds)" "\<forall>d \<in> set ds. plain_flags d" "prints (cstr m) ds args t"
  shows "printf m format args = Some (length t, t)"
  using printf_loop_prints [OF assms(3,2,1)] by (simp add: printf_def)

text \<open>
  C31: \<open>printf\<close> writes what its format means (every directive the code knows, with flags,
  width and the ignored \<open>l\<close>), and returns the number of characters it wrote.
\<close>

theorem printf_prints:
  assumes "cstr m format (format_text ds)" "\<forall>d \<in> set ds. plain_flags d" "prints (cstr m) ds args t"
  shows "printf m format args = Some (length t, t)"
  using assms by (rule printf_text)

text \<open>
  C33: a zero flag with a width of 32 or more makes every number overrun
  \<open>buffer[32]\<close>: \<open>pad_zeros\<close> stores behind its end.
\<close>

theorem printf_width_overruns_buffer:
  assumes "cstr m format (format_of (Directive fs l c))" "plain_flags (Directive fs l c)"
    "zero_flag fs" "32 \<le> field_width fs" "c \<in> {100, 105, 117, 120, 88, 111}"
  shows "printf m format (a # args) = None"
proof -
  have u: "unat a < 2 ^ 32" by (rule unat_less_32)
  have s: "- (2 ^ 31) \<le> sint a" "sint a < 2 ^ 31" using sint_greater_eq [of a] sint_less [of a] by simp_all
  have "number_text itodec True (field_width fs) a = None"
    using signed_text_fits [OF s] assms(4)
    by (intro number_text_overrun [of _ _ "signed_text (sint a)"]) (simp_all add: itodec_def itodec_chars_digits)
  moreover have "number_text itoudec True (field_width fs) a = None"
    using u length_digit_text [of 10 "unat a" 9] digit_text_nonzero [of 10 "unat a"] assms(4)
    by (intro number_text_overrun [of _ _ "digit_text 10 (unat a)"]) (simp_all add: itoudec_def itoudec_chars_digits)
  moreover have "number_text itox True (field_width fs) a = None"
    using u length_digit_text [of 16 "unat a" 7] digit_text_nonzero [of 16 "unat a"] assms(4)
    by (intro number_text_overrun [of _ _ "digit_text 16 (unat a)"]) (simp_all add: itox_def itox_chars_digits)
  moreover have "number_text itooct True (field_width fs) a = None"
    using u length_digit_text [of 8 "unat a" 10] digit_text_nonzero [of 8 "unat a"] assms(4)
    by (intro number_text_overrun [of _ _ "digit_text 8 (unat a)"]) (simp_all add: itooct_def itooct_chars_digits)
  ultimately have "printf_switch m c (zero_flag fs) (field_width fs) (a # args) = None"
    using assms(3,5) by (auto simp: printf_switch.simps)
  then show ?thesis
    using printf_directive [of m format fs l c "[]" "a # args" 0 "[]"] assms(1,2) by (auto simp: printf_def)
qed

section \<open>\<open>sprintf\<close> writes the same text\<close>

lemma put_text_wr: "put_text m str t = (wr_bytes m str t, str + of_nat (length t))"
  by (induction t arbitrary: m str) (simp_all add: add.assoc)

lemma put_text_snoc: "put_text (wr_bytes m d o1) (d + of_nat (length o1)) t = (wr_bytes m d (o1 @ t), d + of_nat (length (o1 @ t)))"
  by (simp add: put_text_wr wr_bytes_append add.assoc)

text \<open>A source string that the output, at most \<open>n\<close> bytes from \<open>d\<close> on, does not touch.\<close>

definition source_apart :: "mem \<Rightarrow> u32 \<Rightarrow> nat \<Rightarrow> u32 \<Rightarrow> u8 list \<Rightarrow> bool" where
  "source_apart m d n a s \<longleftrightarrow> cstr m a s \<and> disjoint_blocks d n a (Suc (length s)) \<and> length s < 2 ^ 32"

lemma apart_tail:
  assumes "source_apart m d n a (c # s)" shows "source_apart m d n (a + 1) s"
proof -
  have "disjoint_blocks (a + of_nat 1) (Suc (length s)) d n"
    using assms disjoint_blocks_sym by (intro disjoint_blocks_part [where n = "Suc (length (c # s))"]) (auto simp: source_apart_def)
  with assms show ?thesis using disjoint_blocks_sym by (simp add: source_apart_def)
qed

lemma apart_append:
  "source_apart m d n a (xs @ s) \<Longrightarrow> source_apart m d n (a + of_nat (length xs)) s"
  by (induction xs arbitrary: a) (use apart_tail in \<open>fastforce simp: add.assoc\<close>)+

lemma apart_written:
  assumes "source_apart m d n a s" "length bs \<le> n" "n \<le> 2 ^ 32"
  shows "cstr (wr_bytes m d bs) a s"
proof -
  have "disjoint_blocks d (length bs) a (Suc (length s))"
    using assms(1,2) by (auto simp: source_apart_def disjoint_blocks_def)
  then show ?thesis using assms by (subst cstr_wr_bytes) (simp_all add: source_apart_def)
qed

lemma copy_text_wr:
  "source_apart m d n a s \<Longrightarrow> length (o1 @ s) \<le> n \<Longrightarrow> n \<le> 2 ^ 32 \<Longrightarrow>
    copy_text (wr_bytes m d o1) (d + of_nat (length o1)) a = Some (wr_bytes m d (o1 @ s), d + of_nat (length (o1 @ s)))"
proof (induction s arbitrary: o1 a)
  case Nil
  then have "cstr (wr_bytes m d o1) a []" by (intro apart_written) simp_all
  then show ?case by (subst copy_text.simps) simp
next
  case (Cons c s)
  have "cstr (wr_bytes m d o1) a (c # s)" using Cons.prems by (intro apart_written) simp_all
  then have c: "wr_bytes m d o1 a = c" "c \<noteq> 0" by simp_all
  have "copy_text (wr_bytes m d (o1 @ [c])) (d + of_nat (length (o1 @ [c]))) (a + 1)
      = Some (wr_bytes m d ((o1 @ [c]) @ s), d + of_nat (length ((o1 @ [c]) @ s)))"
    using Cons.prems apart_tail by (intro Cons.IH) auto
  then show ?case using c by (subst copy_text.simps) (simp add: wr_bytes_snoc add.commute add.left_commute)
qed

text \<open>
  For \<open>sprintf\<close> the \<open>l\<close> is no modifier but a letter like any other that it does not know: of such a directive
  the percent sign and the letter are stored, the flags are dropped and no argument is taken.  So \<open>%ld\<close> is
  the directive \<open>%l\<close> and a plain \<open>d\<close>.  Every format in which no percent sign is left without its letter is a
  list of \<open>letter_directive\<close>s.
\<close>

fun letter_directive :: "directive \<Rightarrow> bool" where
  "letter_directive (Lit c) \<longleftrightarrow> c \<noteq> 37"
| "letter_directive (Directive fs l c) \<longleftrightarrow> \<not> l \<and> (\<forall>d \<in> set fs. digit_byte d) \<and> \<not> digit_byte c"

definition conversion_letters :: "u8 list" where
  "conversion_letters = [99, 100, 105, 117, 102, 70, 115, 120, 88, 111, 37]"

inductive sprints :: "(u32 \<Rightarrow> u8 list \<Rightarrow> bool) \<Rightarrow> directive list \<Rightarrow> u32 list \<Rightarrow> u8 list \<Rightarrow> bool"
  for str_at where
  sprints_end: "sprints str_at [] args []"
| sprints_lit: "sprints str_at ds args out \<Longrightarrow> sprints str_at (Lit c # ds) args (c # out)"
| sprints_char: "sprints str_at ds args out \<Longrightarrow>
    sprints str_at (Directive fs False 99 # ds) (a # args) (ucast a # out)"
| sprints_signed: "sprints str_at ds args out \<Longrightarrow> flags_fit fs \<Longrightarrow> c = 100 \<or> c = 105 \<Longrightarrow>
    sprints str_at (Directive fs False c # ds) (a # args) (number_field fs (signed_text (sint a)) @ out)"
| sprints_unsigned: "sprints str_at ds args out \<Longrightarrow> flags_fit fs \<Longrightarrow>
    sprints str_at (Directive fs False 117 # ds) (a # args) (number_field fs (digit_text 10 (unat a)) @ out)"
| sprints_hex: "sprints str_at ds args out \<Longrightarrow> flags_fit fs \<Longrightarrow> c = 120 \<or> c = 88 \<Longrightarrow>
    sprints str_at (Directive fs False c # ds) (a # args) (number_field fs (digit_text 16 (unat a)) @ out)"
| sprints_octal: "sprints str_at ds args out \<Longrightarrow> flags_fit fs \<Longrightarrow>
    sprints str_at (Directive fs False 111 # ds) (a # args) (number_field fs (digit_text 8 (unat a)) @ out)"
| sprints_string: "sprints str_at ds args out \<Longrightarrow> a \<noteq> 0 \<Longrightarrow> str_at a s \<Longrightarrow>
    sprints str_at (Directive fs False 115 # ds) (a # args) (s @ out)"
| sprints_null: "sprints str_at ds args out \<Longrightarrow>
    sprints str_at (Directive fs False 115 # ds) (0 # args) (bytes_of ''(null)'' @ out)"
| sprints_float: "sprints str_at ds args out \<Longrightarrow> c = 102 \<or> c = 70 \<Longrightarrow>
    sprints str_at (Directive fs False c # ds) (a # b # args) (bytes_of ''[float]'' @ out)"
| sprints_percent: "sprints str_at ds args out \<Longrightarrow>
    sprints str_at (Directive fs False 37 # ds) args (37 # out)"
| sprints_other: "sprints str_at ds args out \<Longrightarrow> c \<notin> set conversion_letters \<Longrightarrow>
    sprints str_at (Directive fs False c # ds) args (37 # c # out)"

fun no_long :: "directive \<Rightarrow> bool" where
  "no_long (Lit c) \<longleftrightarrow> True"
| "no_long (Directive fs l c) \<longleftrightarrow> \<not> l"

text \<open>Without an \<open>l\<close> it is the text that \<open>printf\<close> writes.\<close>

lemma sprints_of_prints: "prints str_at ds args t \<Longrightarrow> \<forall>e \<in> set ds. no_long e \<Longrightarrow> sprints str_at ds args t"
  by (induction rule: prints.induct) (auto intro: sprints.intros)

lemma sprintf_directive:
  assumes "cstr m p (format_of (Directive fs False c) @ rest)" "letter_directive (Directive fs False c)"
  shows "sprintf_loop m str p args =
    Option.bind (sprintf_switch m str c (zero_flag fs) (field_width fs) args) (\<lambda>((m', str'), as).
      sprintf_loop m' str' (p + of_nat (length (format_of (Directive fs False c)))) as)"
proof -
  let ?q = "p + 1 + of_nat (length fs)"
  note f = cstr_format [OF assms(1)]
  have "\<not> digit_byte (m ?q)" using f(3) assms(2) by (auto simp: digit_byte_def)
  then have fl: "format_flags m (p + 1) False 0 = Some (?q, zero_flag fs, field_width fs)"
    using format_flags_scan [of m "p + 1" fs False 0] f(2) assms(2) by simp
  have e: "p + of_nat (length (format_of (Directive fs False c))) = ?q + 1" by (simp add: algebra_simps)
  show ?thesis
    unfolding e using f assms(2) by (subst sprintf_loop.simps) (auto simp: fl)
qed

lemma sprintf_step:
  assumes "source_apart m d n p (format_of (Directive fs False c) @ rest)" "letter_directive (Directive fs False c)"
    "length o1 \<le> n" "n \<le> 2 ^ 32"
    "sprintf_switch (wr_bytes m d o1) (d + of_nat (length o1)) c (zero_flag fs) (field_width fs) args
      = Some (put_text (wr_bytes m d o1) (d + of_nat (length o1)) new, args')"
    "\<And>q. source_apart m d n q rest \<Longrightarrow>
      sprintf_loop (wr_bytes m d (o1 @ new)) (d + of_nat (length (o1 @ new))) q args' = R"
  shows "sprintf_loop (wr_bytes m d o1) (d + of_nat (length o1)) p args = R"
proof -
  have "cstr (wr_bytes m d o1) p (format_of (Directive fs False c) @ rest)"
    using assms(1,3,4) by (rule apart_written)
  from sprintf_directive [OF this assms(2)] show ?thesis
    using assms(5) assms(6) [OF apart_append [OF assms(1)]] by (simp only: bind.bind_lunit prod.case put_text_snoc)
qed

lemma sprintf_loop_prints:
  assumes "sprints (\<lambda>a s. source_apart m d n a s) ds args t" "\<forall>e \<in> set ds. letter_directive e"
    "source_apart m d n p (format_text ds)" "length o1 + length t < n" "n \<le> 2 ^ 32"
  shows "sprintf_loop (wr_bytes m d o1) (d + of_nat (length o1)) p args
    = Some (wr_bytes m d (o1 @ t @ [0]), d + of_nat (length o1 + length t))"
  using assms
proof (induction arbitrary: p o1 rule: sprints.induct)
  case (sprints_end args)
  then have "cstr (wr_bytes m d o1) p []" by (intro apart_written) simp_all
  then show ?case by (subst sprintf_loop.simps) (simp add: wr_bytes_snoc)
next
  case (sprints_lit ds args t c)
  have "cstr (wr_bytes m d o1) p (c # format_text ds)" using sprints_lit.prems by (intro apart_written) simp_all
  moreover have "sprintf_loop (wr_bytes m d (o1 @ [c])) (d + of_nat (length (o1 @ [c]))) (p + 1) args
    = Some (wr_bytes m d ((o1 @ [c]) @ t @ [0]), d + of_nat (length (o1 @ [c]) + length t))"
    using sprints_lit.prems apart_tail by (intro sprints_lit.IH) auto
  ultimately show ?case
    using sprints_lit.prems by (subst sprintf_loop.simps) (simp add: wr_bytes_snoc add.commute add.left_commute)
next
  case (sprints_char ds args t fs a)
  let ?new = "[ucast a]"
  have nxt: "sprintf_loop (wr_bytes m d (o1 @ ?new)) (d + of_nat (length (o1 @ ?new))) q args
      = Some (wr_bytes m d (o1 @ (?new @ t) @ [0]), d + of_nat (length o1 + length (?new @ t)))"
    if "source_apart m d n q (format_text ds)" for q
    using sprints_char.IH [of q "o1 @ ?new"] sprints_char.prems that by (simp add: add.assoc)
  have ap: "source_apart m d n p (format_of (Directive fs False 99) @ format_text ds)"
    and pl: "letter_directive (Directive fs False 99)" and le: "length o1 \<le> n"
    using sprints_char.prems by auto
  have sw: "sprintf_switch (wr_bytes m d o1) (d + of_nat (length o1)) 99 (zero_flag fs) (field_width fs) (a # args)
      = Some (put_text (wr_bytes m d o1) (d + of_nat (length o1)) ?new, args)"
    using sprints_char.hyps sprints_char.prems by (auto simp: sprintf_switch.simps)
  have "sprintf_loop (wr_bytes m d o1) (d + of_nat (length o1)) p (a # args)
      = Some (wr_bytes m d (o1 @ (?new @ t) @ [0]), d + of_nat (length o1 + length (?new @ t)))"
    using ap pl le sprints_char.prems(4) sw nxt by (rule sprintf_step)
  then show ?case by simp
next
  case (sprints_signed ds args t fs c a)
  let ?new = "number_field fs (signed_text (sint a))"
  have nxt: "sprintf_loop (wr_bytes m d (o1 @ ?new)) (d + of_nat (length (o1 @ ?new))) q args
      = Some (wr_bytes m d (o1 @ (?new @ t) @ [0]), d + of_nat (length o1 + length (?new @ t)))"
    if "source_apart m d n q (format_text ds)" for q
    using sprints_signed.IH [of q "o1 @ ?new"] sprints_signed.prems that by (simp add: add.assoc)
  have ap: "source_apart m d n p (format_of (Directive fs False c) @ format_text ds)"
    and pl: "letter_directive (Directive fs False c)" and le: "length o1 \<le> n"
    using sprints_signed.prems by auto
  have sw: "sprintf_switch (wr_bytes m d o1) (d + of_nat (length o1)) c (zero_flag fs) (field_width fs) (a # args)
      = Some (put_text (wr_bytes m d o1) (d + of_nat (length o1)) ?new, args)"
    using sprints_signed.hyps sprints_signed.prems by (auto simp: sprintf_switch.simps conversions_spec flags_fit_def)
  have "sprintf_loop (wr_bytes m d o1) (d + of_nat (length o1)) p (a # args)
      = Some (wr_bytes m d (o1 @ (?new @ t) @ [0]), d + of_nat (length o1 + length (?new @ t)))"
    using ap pl le sprints_signed.prems(4) sw nxt by (rule sprintf_step)
  then show ?case by simp
next
  case (sprints_unsigned ds args t fs a)
  let ?new = "number_field fs (digit_text 10 (unat a))"
  have nxt: "sprintf_loop (wr_bytes m d (o1 @ ?new)) (d + of_nat (length (o1 @ ?new))) q args
      = Some (wr_bytes m d (o1 @ (?new @ t) @ [0]), d + of_nat (length o1 + length (?new @ t)))"
    if "source_apart m d n q (format_text ds)" for q
    using sprints_unsigned.IH [of q "o1 @ ?new"] sprints_unsigned.prems that by (simp add: add.assoc)
  have ap: "source_apart m d n p (format_of (Directive fs False 117) @ format_text ds)"
    and pl: "letter_directive (Directive fs False 117)" and le: "length o1 \<le> n"
    using sprints_unsigned.prems by auto
  have sw: "sprintf_switch (wr_bytes m d o1) (d + of_nat (length o1)) 117 (zero_flag fs) (field_width fs) (a # args)
      = Some (put_text (wr_bytes m d o1) (d + of_nat (length o1)) ?new, args)"
    using sprints_unsigned.hyps sprints_unsigned.prems by (auto simp: sprintf_switch.simps conversions_spec flags_fit_def)
  have "sprintf_loop (wr_bytes m d o1) (d + of_nat (length o1)) p (a # args)
      = Some (wr_bytes m d (o1 @ (?new @ t) @ [0]), d + of_nat (length o1 + length (?new @ t)))"
    using ap pl le sprints_unsigned.prems(4) sw nxt by (rule sprintf_step)
  then show ?case by simp
next
  case (sprints_hex ds args t fs c a)
  let ?new = "number_field fs (digit_text 16 (unat a))"
  have nxt: "sprintf_loop (wr_bytes m d (o1 @ ?new)) (d + of_nat (length (o1 @ ?new))) q args
      = Some (wr_bytes m d (o1 @ (?new @ t) @ [0]), d + of_nat (length o1 + length (?new @ t)))"
    if "source_apart m d n q (format_text ds)" for q
    using sprints_hex.IH [of q "o1 @ ?new"] sprints_hex.prems that by (simp add: add.assoc)
  have ap: "source_apart m d n p (format_of (Directive fs False c) @ format_text ds)"
    and pl: "letter_directive (Directive fs False c)" and le: "length o1 \<le> n"
    using sprints_hex.prems by auto
  have sw: "sprintf_switch (wr_bytes m d o1) (d + of_nat (length o1)) c (zero_flag fs) (field_width fs) (a # args)
      = Some (put_text (wr_bytes m d o1) (d + of_nat (length o1)) ?new, args)"
    using sprints_hex.hyps sprints_hex.prems by (auto simp: sprintf_switch.simps conversions_spec flags_fit_def)
  have "sprintf_loop (wr_bytes m d o1) (d + of_nat (length o1)) p (a # args)
      = Some (wr_bytes m d (o1 @ (?new @ t) @ [0]), d + of_nat (length o1 + length (?new @ t)))"
    using ap pl le sprints_hex.prems(4) sw nxt by (rule sprintf_step)
  then show ?case by simp
next
  case (sprints_octal ds args t fs a)
  let ?new = "number_field fs (digit_text 8 (unat a))"
  have nxt: "sprintf_loop (wr_bytes m d (o1 @ ?new)) (d + of_nat (length (o1 @ ?new))) q args
      = Some (wr_bytes m d (o1 @ (?new @ t) @ [0]), d + of_nat (length o1 + length (?new @ t)))"
    if "source_apart m d n q (format_text ds)" for q
    using sprints_octal.IH [of q "o1 @ ?new"] sprints_octal.prems that by (simp add: add.assoc)
  have ap: "source_apart m d n p (format_of (Directive fs False 111) @ format_text ds)"
    and pl: "letter_directive (Directive fs False 111)" and le: "length o1 \<le> n"
    using sprints_octal.prems by auto
  have sw: "sprintf_switch (wr_bytes m d o1) (d + of_nat (length o1)) 111 (zero_flag fs) (field_width fs) (a # args)
      = Some (put_text (wr_bytes m d o1) (d + of_nat (length o1)) ?new, args)"
    using sprints_octal.hyps sprints_octal.prems by (auto simp: sprintf_switch.simps conversions_spec flags_fit_def)
  have "sprintf_loop (wr_bytes m d o1) (d + of_nat (length o1)) p (a # args)
      = Some (wr_bytes m d (o1 @ (?new @ t) @ [0]), d + of_nat (length o1 + length (?new @ t)))"
    using ap pl le sprints_octal.prems(4) sw nxt by (rule sprintf_step)
  then show ?case by simp
next
  case (sprints_string ds args t a s fs)
  let ?new = "s"
  have nxt: "sprintf_loop (wr_bytes m d (o1 @ ?new)) (d + of_nat (length (o1 @ ?new))) q args
      = Some (wr_bytes m d (o1 @ (?new @ t) @ [0]), d + of_nat (length o1 + length (?new @ t)))"
    if "source_apart m d n q (format_text ds)" for q
    using sprints_string.IH [of q "o1 @ ?new"] sprints_string.prems that by (simp add: add.assoc)
  have ap: "source_apart m d n p (format_of (Directive fs False 115) @ format_text ds)"
    and pl: "letter_directive (Directive fs False 115)" and le: "length o1 \<le> n"
    using sprints_string.prems by auto
  have sw: "sprintf_switch (wr_bytes m d o1) (d + of_nat (length o1)) 115 (zero_flag fs) (field_width fs) (a # args)
      = Some (put_text (wr_bytes m d o1) (d + of_nat (length o1)) ?new, args)"
    using sprints_string.hyps sprints_string.prems by (auto simp: sprintf_switch.simps copy_text_wr put_text_snoc)
  have "sprintf_loop (wr_bytes m d o1) (d + of_nat (length o1)) p (a # args)
      = Some (wr_bytes m d (o1 @ (?new @ t) @ [0]), d + of_nat (length o1 + length (?new @ t)))"
    using ap pl le sprints_string.prems(4) sw nxt by (rule sprintf_step)
  then show ?case by simp
next
  case (sprints_null ds args t fs)
  let ?new = "bytes_of ''(null)''"
  have nxt: "sprintf_loop (wr_bytes m d (o1 @ ?new)) (d + of_nat (length (o1 @ ?new))) q args
      = Some (wr_bytes m d (o1 @ (?new @ t) @ [0]), d + of_nat (length o1 + length (?new @ t)))"
    if "source_apart m d n q (format_text ds)" for q
    using sprints_null.IH [of q "o1 @ ?new"] sprints_null.prems that by (simp add: add.assoc)
  have ap: "source_apart m d n p (format_of (Directive fs False 115) @ format_text ds)"
    and pl: "letter_directive (Directive fs False 115)" and le: "length o1 \<le> n"
    using sprints_null.prems by auto
  have sw: "sprintf_switch (wr_bytes m d o1) (d + of_nat (length o1)) 115 (zero_flag fs) (field_width fs) (0 # args)
      = Some (put_text (wr_bytes m d o1) (d + of_nat (length o1)) ?new, args)"
    using sprints_null.hyps sprints_null.prems by (auto simp: sprintf_switch.simps)
  have "sprintf_loop (wr_bytes m d o1) (d + of_nat (length o1)) p (0 # args)
      = Some (wr_bytes m d (o1 @ (?new @ t) @ [0]), d + of_nat (length o1 + length (?new @ t)))"
    using ap pl le sprints_null.prems(4) sw nxt by (rule sprintf_step)
  then show ?case by simp
next
  case (sprints_float ds args t c fs a b)
  let ?new = "bytes_of ''[float]''"
  have nxt: "sprintf_loop (wr_bytes m d (o1 @ ?new)) (d + of_nat (length (o1 @ ?new))) q args
      = Some (wr_bytes m d (o1 @ (?new @ t) @ [0]), d + of_nat (length o1 + length (?new @ t)))"
    if "source_apart m d n q (format_text ds)" for q
    using sprints_float.IH [of q "o1 @ ?new"] sprints_float.prems that by (simp add: add.assoc)
  have ap: "source_apart m d n p (format_of (Directive fs False c) @ format_text ds)"
    and pl: "letter_directive (Directive fs False c)" and le: "length o1 \<le> n"
    using sprints_float.prems by auto
  have sw: "sprintf_switch (wr_bytes m d o1) (d + of_nat (length o1)) c (zero_flag fs) (field_width fs) (a # b # args)
      = Some (put_text (wr_bytes m d o1) (d + of_nat (length o1)) ?new, args)"
    using sprints_float.hyps sprints_float.prems by (auto simp: sprintf_switch.simps)
  have "sprintf_loop (wr_bytes m d o1) (d + of_nat (length o1)) p (a # b # args)
      = Some (wr_bytes m d (o1 @ (?new @ t) @ [0]), d + of_nat (length o1 + length (?new @ t)))"
    using ap pl le sprints_float.prems(4) sw nxt by (rule sprintf_step)
  then show ?case by simp
next
  case (sprints_percent ds args t fs)
  let ?new = "[37]"
  have nxt: "sprintf_loop (wr_bytes m d (o1 @ ?new)) (d + of_nat (length (o1 @ ?new))) q args
      = Some (wr_bytes m d (o1 @ (?new @ t) @ [0]), d + of_nat (length o1 + length (?new @ t)))"
    if "source_apart m d n q (format_text ds)" for q
    using sprints_percent.IH [of q "o1 @ ?new"] sprints_percent.prems that by (simp add: add.assoc)
  have ap: "source_apart m d n p (format_of (Directive fs False 37) @ format_text ds)"
    and pl: "letter_directive (Directive fs False 37)" and le: "length o1 \<le> n"
    using sprints_percent.prems by auto
  have sw: "sprintf_switch (wr_bytes m d o1) (d + of_nat (length o1)) 37 (zero_flag fs) (field_width fs) args
      = Some (put_text (wr_bytes m d o1) (d + of_nat (length o1)) ?new, args)"
    using sprints_percent.hyps sprints_percent.prems by (auto simp: sprintf_switch.simps)
  have "sprintf_loop (wr_bytes m d o1) (d + of_nat (length o1)) p args
      = Some (wr_bytes m d (o1 @ (?new @ t) @ [0]), d + of_nat (length o1 + length (?new @ t)))"
    using ap pl le sprints_percent.prems(4) sw nxt by (rule sprintf_step)
  then show ?case by simp
next
  case (sprints_other ds args t c fs)
  let ?new = "[37, c]"
  have nxt: "sprintf_loop (wr_bytes m d (o1 @ ?new)) (d + of_nat (length (o1 @ ?new))) q args
      = Some (wr_bytes m d (o1 @ (?new @ t) @ [0]), d + of_nat (length o1 + length (?new @ t)))"
    if "source_apart m d n q (format_text ds)" for q
    using sprints_other.IH [of q "o1 @ ?new"] sprints_other.prems that by (simp add: add.assoc)
  have ap: "source_apart m d n p (format_of (Directive fs False c) @ format_text ds)"
    and pl: "letter_directive (Directive fs False c)" and le: "length o1 \<le> n"
    using sprints_other.prems by auto
  have sw: "sprintf_switch (wr_bytes m d o1) (d + of_nat (length o1)) c (zero_flag fs) (field_width fs) args
      = Some (put_text (wr_bytes m d o1) (d + of_nat (length o1)) ?new, args)"
    using sprints_other.hyps by (auto simp: sprintf_switch.simps conversion_letters_def)
  have "sprintf_loop (wr_bytes m d o1) (d + of_nat (length o1)) p args
      = Some (wr_bytes m d (o1 @ (?new @ t) @ [0]), d + of_nat (length o1 + length (?new @ t)))"
    using ap pl le sprints_other.prems(4) sw nxt by (rule sprintf_step)
  then show ?case by simp
qed

lemma sprintf_writes_text:
  assumes "sprints (source_apart m str n) ds args t" "\<forall>e \<in> set ds. letter_directive e"
    "source_apart m str n format (format_text ds)" "length t < n" "n \<le> 2 ^ 32"
  shows "sprintf m str format args = Some (of_nat (length t), wr_bytes m str (t @ [0]))"
  using sprintf_loop_prints [of m str n ds args t format "[]"] assms by (simp add: sprintf_def)

text \<open>
  C32: \<open>sprintf\<close> leaves the text its format means to it, and a zero, in the buffer, touches nothing
  else, and returns the length, when the buffer does not overlap the format or a string argument.  The text is
  the one \<open>printf\<close> writes if the format has no \<open>l\<close> (\<open>sprints_of_prints\<close>); \<open>l\<close> is no modifier here, and \<open>%ld\<close>
  comes out as it stands (\<open>sprintf_keeps_long\<close>).  As in \<open>printf_prints\<close>, the width of a number with a
  zero flag is below 32.
\<close>

theorem sprintf_writes:
  assumes "sprints (source_apart m str n) ds args t" "\<forall>e \<in> set ds. letter_directive e"
    "source_apart m str n format (format_text ds)" "length t < n" "n \<le> 2 ^ 32"
  shows "sprintf m str format args = Some (of_nat (length t), wr_bytes m str (t @ [0]))"
  using assms by (rule sprintf_writes_text)

subsection \<open>The theorems at work\<close>

definition demo_format :: "directive list" where
  "demo_format = [Lit 120, Directive [48, 52] False 100, Directive [] False 115]"

definition demo_texts :: mem where
  "demo_texts = wr_bytes (wr_bytes (\<lambda>_. 0) 0x100 (format_text demo_format)) 0x200 [104, 105]"

lemma demo_prints:
  assumes "str_at 0x200 [104, 105]"
  shows "prints str_at demo_format [- 7, 0x200] [120, 48, 48, 45, 55, 104, 105]"
proof -
  have n: "number_field [48, 52] (signed_text (sint (- 7 :: u32))) = [48, 48, 45, 55]" by code_simp
  have "prints str_at [Directive [] False 115] [0x200] ([104, 105] @ [])"
    using assms by (intro prints_string prints_end) simp_all
  then have "prints str_at [Directive [48, 52] False 100, Directive [] False 115] [- 7, 0x200]
      (number_field [48, 52] (signed_text (sint (- 7 :: u32))) @ [104, 105])"
    by (intro prints_signed) (simp_all add: flags_fit_def width_from_def)
  then show ?thesis unfolding demo_format_def n by (intro prints_lit) simp
qed

text \<open>\<open>sprintf\<close> does not skip the \<open>l\<close> as \<open>printf\<close> does.\<close>

lemma sprintf_keeps_long:
  assumes "source_apart m str n format (bytes_of ''%ld'')" "4 \<le> n" "n \<le> 2 ^ 32"
  shows "sprintf m str format args = Some (3, wr_bytes m str (bytes_of ''%ld'' @ [0]))"
    "cstr m' p (bytes_of ''%ld'') \<Longrightarrow> \<exists>k. printf m' p [a] = Some (k, signed_text (sint a))"
proof -
  have "sprints (source_apart m str n) [Directive [] False 108, Lit 100] args (37 # 108 # [100])"
    by (intro sprints_other sprints_lit sprints_end) (simp add: conversion_letters_def)
  moreover have "bytes_of ''%ld'' = format_text [Directive [] False 108, Lit 100]" "bytes_of ''%ld'' = 37 # 108 # [100]" by (simp_all add: bytes_of_def)
  moreover have "letter_directive (Directive [] False 108)" "letter_directive (Lit 100)" by (simp_all add: digit_byte_def)
  ultimately show "sprintf m str format args = Some (3, wr_bytes m str (bytes_of ''%ld'' @ [0]))"
    using sprintf_writes_text [of m str n "[Directive [] False 108, Lit 100]" args "37 # 108 # [100]" format] assms by simp
next
  assume c: "cstr m' p (bytes_of ''%ld'')"
  have f: "bytes_of ''%ld'' = format_text [Directive [] True 100]" by (simp add: bytes_of_def)
  have t: "number_field [] (signed_text (sint a)) @ [] = signed_text (sint a)" by (simp add: number_spec_def zero_flag_def)
  have "prints (cstr m') [Directive [] True 100] [a] (number_field [] (signed_text (sint a)) @ [])"
    by (intro prints_signed prints_end) (simp_all add: flags_fit_def zero_flag_def)
  moreover have "\<forall>e \<in> set [Directive [] True 100]. plain_flags e" by (simp add: digit_byte_def)
  ultimately show "\<exists>k. printf m' p [a] = Some (k, signed_text (sint a))"
    using printf_text [of m' p "[Directive [] True 100]" "[a]"] c unfolding f t by blast
qed

lemma demo_format_plain: "\<forall>e \<in> set demo_format. plain_flags e \<and> no_long e"
  by (simp add: demo_format_def digit_byte_def)

lemma demo_format_cstr: "cstr demo_texts 0x100 (format_text demo_format)" "cstr demo_texts 0x200 [104, 105]"
  by (simp_all add: demo_texts_def demo_format_def)

theorem printf_prints_witness: "printf demo_texts 0x100 [- 7, 0x200] = Some (7, [120, 48, 48, 45, 55, 104, 105])"
  using printf_prints [OF demo_format_cstr(1) _ demo_prints] demo_format_plain demo_format_cstr(2) by simp

theorem printf_width_overruns_buffer_witness:
  "printf (wr_bytes (\<lambda>_. 0) 0x100 [37, 48, 51, 50, 100]) 0x100 [1] = None"
  by (rule printf_width_overruns_buffer [where fs = "[48, 51, 50]" and l = False and c = 100])
    (simp_all add: digit_byte_def zero_flag_def width_from_def)

theorem sprintf_writes_witness:
  "map_option fst (sprintf demo_texts 0x300 0x100 [- 7, 0x200]) = Some 7"
proof -
  have a: "source_apart demo_texts 0x300 16 0x100 (format_text demo_format)" "source_apart demo_texts 0x300 16 0x200 [104, 105]"
    using demo_format_cstr by (simp_all add: source_apart_def disjoint_blocks_def demo_format_def)
  have l: "\<forall>e \<in> set demo_format. letter_directive e" "\<forall>e \<in> set demo_format. no_long e"
    by (simp_all add: demo_format_def digit_byte_def)
  show ?thesis
    using sprintf_writes [OF sprints_of_prints [OF demo_prints [where str_at = "source_apart demo_texts 0x300 16", OF a(2)] l(2)] l(1) a(1)]
    by simp
qed

end
