(* ===== verification/FileSyscall.thy ===== *)
theory FileSyscall
  imports ContextSwitch Printf
begin

text \<open>
  The file system calls: the wrappers of \<^verbatim>\<open>libfileio/src/fileio.c\<close> load the registers and
  execute \<^verbatim>\<open>trap #12\<close>; \<open>TrapCHandler\<close> (\<^verbatim>\<open>apps/bios/sys/vectors/vectors_asm.S\<close>) saves the
  registers and dispatches on D1 to a stub of \<^verbatim>\<open>apps/bios/sys/traps/trap12_asm.S\<close>, which builds
  an argument vector on the stack and calls a C function of \<^verbatim>\<open>apps/bios/sys/traps/trap12.c\<close>,
  which calls FatFs; \<open>do_open\<close> prints the name of the file first.  FatFs is third-party code and a parameter: a function from the call that
  is made, with its arguments, and the memory to a result and a memory.  Everything runs in
  supervisor mode, on one stack.  \<open>None\<close>: the \<open>printf\<close> of \<open>do_open\<close> does not return.
\<close>

section \<open>The calls of FatFs\<close>

datatype fatfs_call =
    F_open u32 u32 u8 | F_close u32 | F_read u32 u32 u32 u32 | F_write u32 u32 u32 u32
  | F_sync u32 | F_unlink u32 | F_lseek u32 u32 | F_tell u32 | F_size u32 | F_eof u32
  | F_rename u32 u32 | F_stat u32 u32 | F_opendir u32 u32 | F_readdir u32 u32 | F_closedir u32
  | F_mkdir u32 | F_mount u32 u32 u8 | F_findfirst u32 u32 u32 u32 | F_findnext u32 u32

type_synonym 'fs world = "mem \<times> 'fs"
type_synonym 'fs handler = "nat \<Rightarrow> u32 \<Rightarrow> 'fs world \<Rightarrow> (u32 option \<times> 'fs world) option"

text \<open>
  What the modelled code calls and does not contain: FatFs, the three functions of the BASIC
  interpreter behind the codes 19 to 21, and the console; and what the linker and the compiler
  decide: where the format of \<open>do_open\<close> lies, the return address of the \<open>jsr\<close> of each stub, what
  the C function pushes below it until it calls FatFs, and the content of D0 after a \<open>void\<close> function.
\<close>

record 'fs env =
  fat :: "fatfs_call \<Rightarrow> 'fs world \<Rightarrow> u32 \<times> 'fs world"
  do_ls :: "'fs handler"
  do_save_basic :: "'fs handler"
  do_load_basic :: "'fs handler"
  put_console :: "u8 list \<Rightarrow> 'fs \<Rightarrow> 'fs"
  open_format :: u32
  jsr_return :: "nat \<Rightarrow> u32"
  c_frame :: "nat \<Rightarrow> 'fs world \<Rightarrow> u8 list"
  void_d0 :: u32

section \<open>The C functions behind the trap\<close>

text \<open>A result \<open>None\<close>: the function is \<open>void\<close>.\<close>

definition arg :: "'fs world \<Rightarrow> u32 \<Rightarrow> nat \<Rightarrow> u32" where
  "arg w argv i = rd32 (fst w) (argv + 4 * of_nat i)"

definition void_call :: "'fs env \<Rightarrow> fatfs_call \<Rightarrow> 'fs world \<Rightarrow> (u32 option \<times> 'fs world) option" where
  "void_call e k w = Some (None, snd (fat e k w))"

definition value_call :: "'fs env \<Rightarrow> fatfs_call \<Rightarrow> 'fs world \<Rightarrow> (u32 option \<times> 'fs world) option" where
  "value_call e k w = Some (map_prod Some id (fat e k w))"

text \<open>\<open>printf("Filename[%s]\n",argv[1])\<close>, whose format lies at \<open>open_format\<close>.\<close>

definition do_open :: "'fs env \<Rightarrow> 'fs handler" where
  "do_open e argc argv w = Option.bind (printf (fst w) (open_format e) [arg w argv 1]) (\<lambda>(_, t).
     let w = (fst w, put_console e t (snd w))
     in void_call e (F_open (arg w argv 0) (arg w argv 1) (ucast (arg w argv 2))) w)"

definition do_close :: "'fs env \<Rightarrow> 'fs handler" where
  "do_close e argc argv w = void_call e (F_close (arg w argv 0)) w"

definition do_read :: "'fs env \<Rightarrow> 'fs handler" where
  "do_read e argc argv w = void_call e (F_read (arg w argv 0) (arg w argv 1) (arg w argv 2) (arg w argv 3)) w"

definition do_write :: "'fs env \<Rightarrow> 'fs handler" where
  "do_write e argc argv w = void_call e (F_write (arg w argv 0) (arg w argv 1) (arg w argv 2) (arg w argv 3)) w"

definition do_sync :: "'fs env \<Rightarrow> 'fs handler" where
  "do_sync e argc argv w = void_call e (F_sync (arg w argv 0)) w"

definition do_lseek :: "'fs env \<Rightarrow> 'fs handler" where
  "do_lseek e argc argv w = void_call e (F_lseek (arg w argv 0) (arg w argv 1)) w"

definition do_tell :: "'fs env \<Rightarrow> 'fs handler" where
  "do_tell e argc argv w = value_call e (F_tell (arg w argv 0)) w"

definition do_size :: "'fs env \<Rightarrow> 'fs handler" where
  "do_size e argc argv w = value_call e (F_size (arg w argv 0)) w"

definition do_eof :: "'fs env \<Rightarrow> 'fs handler" where
  "do_eof e argc argv w = value_call e (F_eof (arg w argv 0)) w"

definition do_unlink :: "'fs env \<Rightarrow> 'fs handler" where
  "do_unlink e argc argv w = void_call e (F_unlink (arg w argv 0)) w"

definition do_rename :: "'fs env \<Rightarrow> 'fs handler" where
  "do_rename e argc argv w = void_call e (F_rename (arg w argv 0) (arg w argv 1)) w"

definition do_stat :: "'fs env \<Rightarrow> 'fs handler" where
  "do_stat e argc argv w = void_call e (F_stat (arg w argv 0) (arg w argv 1)) w"

definition do_findfirst :: "'fs env \<Rightarrow> 'fs handler" where
  "do_findfirst e argc argv w =
     void_call e (F_findfirst (arg w argv 0) (arg w argv 1) (arg w argv 2) (arg w argv 3)) w"

definition do_findnext :: "'fs env \<Rightarrow> 'fs handler" where
  "do_findnext e argc argv w = void_call e (F_findnext (arg w argv 0) (arg w argv 1)) w"

definition do_opendir :: "'fs env \<Rightarrow> 'fs handler" where
  "do_opendir e argc argv w = void_call e (F_opendir (arg w argv 0) (arg w argv 1)) w"

definition do_readdir :: "'fs env \<Rightarrow> 'fs handler" where
  "do_readdir e argc argv w = void_call e (F_readdir (arg w argv 0) (arg w argv 1)) w"

definition do_closedir :: "'fs env \<Rightarrow> 'fs handler" where
  "do_closedir e argc argv w = void_call e (F_closedir (arg w argv 0)) w"

definition do_mkdir :: "'fs env \<Rightarrow> 'fs handler" where
  "do_mkdir e argc argv w = void_call e (F_mkdir (arg w argv 0)) w"

definition do_mount :: "'fs env \<Rightarrow> 'fs handler" where
  "do_mount e argc argv w = void_call e (F_mount (arg w argv 0) (arg w argv 1) (ucast (arg w argv 2))) w"

text \<open>\<open>argv[1]\<close> is read although the stub passes one argument only.\<close>

definition do_unmount :: "'fs env \<Rightarrow> 'fs handler" where
  "do_unmount e argc argv w = void_call e (F_mount 0 (arg w argv 0) (ucast (arg w argv 1))) w"

section \<open>The trap\<close>

text \<open>The registers by their place in \<open>movem.l D0-D7/A0-A6\<close>.\<close>

definition rD0 :: nat where "rD0 = 0"
definition rD1 :: nat where "rD1 = 1"
definition rD2 :: nat where "rD2 = 2"
definition rA0 :: nat where "rA0 = 8"
definition rA1 :: nat where "rA1 = 9"
definition rA2 :: nat where "rA2 = 10"

lemmas reg_defs = rD0_def rD1_def rD2_def rA0_def rA1_def rA2_def

text \<open>The exception frame and \<open>movem.l D1-D7/A0-A6,-(sp)\<close>.\<close>

definition trap_enter :: "cpu \<Rightarrow> mem \<Rightarrow> u32 \<times> mem" where
  "trap_enter c m =
     (c_a7 c - 62,
      wr_bytes (wr_bytes m (c_a7 c - 6) (be16 (c_sr c) @ be32 (c_pc c)))
        (c_a7 c - 62) (concat (map be32 (tl (c_regs c)))))"

text \<open>\<open>movem.l (sp)+,D1-D7/A0-A6; rte\<close>.\<close>

definition trapC_exit :: "mem \<Rightarrow> u32 \<Rightarrow> u32 \<Rightarrow> cpu" where
  "trapC_exit m sp d0 =
     \<lparr>c_regs = d0 # map (\<lambda>i. rd32 m (sp + 4 * of_nat i)) [0..<14],
      c_sr = rd16 m (sp + 56), c_pc = rd32 m (sp + 58), c_a7 = sp + 62\<rparr>"

text \<open>The dispatcher: the stub's arguments and the C function it calls.\<close>

definition file_stub :: "'fs env \<Rightarrow> u32 list \<Rightarrow> (u32 list \<times> 'fs handler) option" where
  "file_stub e r =
     (let n = unat (ucast (r ! rD1) :: u16);
          a0 = r ! rA0; a1 = r ! rA1; a2 = r ! rA2; d0 = r ! rD0; d2 = r ! rD2
      in if n = 1 then Some ([a0, a1, d0], do_open e)
         else if n = 2 then Some ([a0], do_close e)
         else if n = 3 then Some ([a0, a1, d0, a2], do_read e)
         else if n = 4 then Some ([a0, a1, d0, a2], do_write e)
         else if n = 5 then Some ([a0], do_sync e)
         else if n = 6 then Some ([a0], do_unlink e)
         else if n = 7 then Some ([a0, d0], do_lseek e)
         else if n = 8 then Some ([a0], do_tell e)
         else if n = 9 then Some ([a0], do_size e)
         else if n = 10 then Some ([a0], do_eof e)
         else if n = 11 then Some ([a0, a1], do_rename e)
         else if n = 12 then Some ([a0, a1], do_stat e)
         else if n = 13 then Some ([a0, a1], do_opendir e)
         else if n = 14 then Some ([a0, a1], do_readdir e)
         else if n = 15 then Some ([a0], do_closedir e)
         else if n = 16 then Some ([a0], do_mkdir e)
         else if n = 17 then Some ([a0, a1, d0], do_mount e)
         else if n = 18 then Some ([a0], do_unmount e)
         else if n = 19 then Some ([a0], do_ls e)
         else if n = 20 then Some ([a0, a1, d0, a2], do_save_basic e)
         else if n = 21 then Some ([a0, a1, d0, a2], do_load_basic e)
         else if n = 22 then Some ([a0, a1, d0, d2], do_findfirst e)
         else if n = 23 then Some ([a0, a1], do_findnext e)
         else None)"

text \<open>
  The argument vector, the pointer to it and the count are pushed; \<open>jsr\<close> pushes the return address and the C
  function its frame.
\<close>

definition push_args :: "u32 list \<Rightarrow> u32 \<times> mem \<Rightarrow> u32 \<times> mem" where
  "push_args args st = foldr (\<lambda>v st. push32 st v) args st"

definition run_stub :: "'fs env \<Rightarrow> nat \<Rightarrow> u32 list \<Rightarrow> 'fs handler \<Rightarrow> u32 \<Rightarrow> 'fs world \<Rightarrow> (u32 option \<times> 'fs world) option" where
  "run_stub e n args h sp w =
     (let st = push_args args (sp, fst w);
          st2 = push32 (push32 st (fst st)) (of_nat (length args));
          m = call_frame (jsr_return e n) (c_frame e n (snd st2, snd w)) (fst st2) (snd st2)
      in h (length args) (fst st) (m, snd w))"

definition TrapCHandler :: "'fs env \<Rightarrow> cpu \<Rightarrow> 'fs world \<Rightarrow> (cpu \<times> 'fs world) option" where
  "TrapCHandler e c w =
     (let (sp, m) = trap_enter c (fst w)
      in case file_stub e (c_regs c) of
           None \<Rightarrow> Some (trapC_exit m sp (c_regs c ! rD0), m, snd w)
         | Some (args, h) \<Rightarrow>
             map_option (\<lambda>(r, w2). (trapC_exit (fst w2) sp (case r of None \<Rightarrow> void_d0 e | Some v \<Rightarrow> v), w2))
               (run_stub e (unat (ucast (c_regs c ! rD1) :: u16)) args h sp (m, snd w)))"

section \<open>The wrappers of the library\<close>

definition SYS_FOPEN :: u32 where "SYS_FOPEN = 1"
definition SYS_FCLOSE :: u32 where "SYS_FCLOSE = 2"
definition SYS_FREAD :: u32 where "SYS_FREAD = 3"
definition SYS_FWRITE :: u32 where "SYS_FWRITE = 4"
definition SYS_FSYNC :: u32 where "SYS_FSYNC = 5"
definition SYS_FUNLINK :: u32 where "SYS_FUNLINK = 6"
definition SYS_FLSEEK :: u32 where "SYS_FLSEEK = 7"
definition SYS_FTELL :: u32 where "SYS_FTELL = 8"
definition SYS_FSIZE :: u32 where "SYS_FSIZE = 9"
definition SYS_FEOF :: u32 where "SYS_FEOF = 10"
definition SYS_FRENAME :: u32 where "SYS_FRENAME = 11"
definition SYS_FSTAT :: u32 where "SYS_FSTAT = 12"
definition SYS_FOPENDIR :: u32 where "SYS_FOPENDIR = 13"
definition SYS_FREADDIR :: u32 where "SYS_FREADDIR = 14"
definition SYS_FCLOSEDIR :: u32 where "SYS_FCLOSEDIR = 15"
definition SYS_FMKDIR :: u32 where "SYS_FMKDIR = 16"
definition SYS_FMOUNT :: u32 where "SYS_FMOUNT = 17"
definition SYS_FUNMOUNT :: u32 where "SYS_FUNMOUNT = 18"
definition SYS_FFINDFIRST :: u32 where "SYS_FFINDFIRST = 22"
definition SYS_FFINDNEXT :: u32 where "SYS_FFINDNEXT = 23"

lemmas sys_defs = SYS_FOPEN_def SYS_FCLOSE_def SYS_FREAD_def SYS_FWRITE_def SYS_FSYNC_def
  SYS_FUNLINK_def SYS_FLSEEK_def SYS_FTELL_def SYS_FSIZE_def SYS_FEOF_def SYS_FRENAME_def
  SYS_FSTAT_def SYS_FOPENDIR_def SYS_FREADDIR_def SYS_FCLOSEDIR_def SYS_FMKDIR_def
  SYS_FMOUNT_def SYS_FUNMOUNT_def SYS_FFINDFIRST_def SYS_FFINDNEXT_def

text \<open>The machine: registers and memory.  \<open>trap12\<close> loads the named registers and traps; the result is D0.\<close>

type_synonym 'fs machine = "cpu \<times> 'fs world"

definition load_regs :: "(nat \<times> u32) list \<Rightarrow> cpu \<Rightarrow> cpu" where
  "load_regs rs c = c\<lparr>c_regs := fold (\<lambda>(i, v) r. r[i := v]) rs (c_regs c)\<rparr>"

definition trap12 :: "'fs env \<Rightarrow> (nat \<times> u32) list \<Rightarrow> 'fs machine \<Rightarrow> (u32 \<times> 'fs machine) option" where
  "trap12 e rs s = map_option (\<lambda>s'. (c_regs (fst s') ! rD0, s')) (TrapCHandler e (load_regs rs (fst s)) (snd s))"

definition fopen :: "'fs env \<Rightarrow> u32 \<Rightarrow> u32 \<Rightarrow> u8 \<Rightarrow> 'fs machine \<Rightarrow> (u32 \<times> 'fs machine) option" where
  "fopen e fp path mode = trap12 e [(rD1, SYS_FOPEN), (rA0, fp), (rA1, path), (rD0, ucast mode)]"

definition fclose :: "'fs env \<Rightarrow> u32 \<Rightarrow> 'fs machine \<Rightarrow> (u32 \<times> 'fs machine) option" where
  "fclose e fp = trap12 e [(rD1, SYS_FCLOSE), (rA0, fp)]"

definition fread :: "'fs env \<Rightarrow> u32 \<Rightarrow> u32 \<Rightarrow> u32 \<Rightarrow> u32 \<Rightarrow> 'fs machine \<Rightarrow> (u32 \<times> 'fs machine) option" where
  "fread e fp buff btr br = trap12 e [(rD1, SYS_FREAD), (rA0, fp), (rA1, buff), (rD0, btr), (rA2, br)]"

definition fwrite :: "'fs env \<Rightarrow> u32 \<Rightarrow> u32 \<Rightarrow> u32 \<Rightarrow> u32 \<Rightarrow> 'fs machine \<Rightarrow> (u32 \<times> 'fs machine) option" where
  "fwrite e fp buff btw bw = trap12 e [(rD1, SYS_FWRITE), (rA0, fp), (rA1, buff), (rD0, btw), (rA2, bw)]"

definition fsync :: "'fs env \<Rightarrow> u32 \<Rightarrow> 'fs machine \<Rightarrow> (u32 \<times> 'fs machine) option" where
  "fsync e fp = trap12 e [(rD1, SYS_FSYNC), (rA0, fp)]"

definition funlink :: "'fs env \<Rightarrow> u32 \<Rightarrow> 'fs machine \<Rightarrow> (u32 \<times> 'fs machine) option" where
  "funlink e path = trap12 e [(rD1, SYS_FUNLINK), (rA0, path)]"

definition flseek :: "'fs env \<Rightarrow> u32 \<Rightarrow> u32 \<Rightarrow> 'fs machine \<Rightarrow> (u32 \<times> 'fs machine) option" where
  "flseek e fp offset = trap12 e [(rD1, SYS_FLSEEK), (rA0, fp), (rD0, offset)]"

definition ftell :: "'fs env \<Rightarrow> u32 \<Rightarrow> 'fs machine \<Rightarrow> (u32 \<times> 'fs machine) option" where
  "ftell e fp = trap12 e [(rD1, SYS_FTELL), (rA0, fp)]"

definition fsize :: "'fs env \<Rightarrow> u32 \<Rightarrow> 'fs machine \<Rightarrow> (u32 \<times> 'fs machine) option" where
  "fsize e fp = trap12 e [(rD1, SYS_FSIZE), (rA0, fp)]"

definition feof :: "'fs env \<Rightarrow> u32 \<Rightarrow> 'fs machine \<Rightarrow> (u32 \<times> 'fs machine) option" where
  "feof e fp = trap12 e [(rD1, SYS_FEOF), (rA0, fp)]"

definition frename :: "'fs env \<Rightarrow> u32 \<Rightarrow> u32 \<Rightarrow> 'fs machine \<Rightarrow> (u32 \<times> 'fs machine) option" where
  "frename e path_old path_new = trap12 e [(rD1, SYS_FRENAME), (rA0, path_old), (rA1, path_new)]"

definition fstat :: "'fs env \<Rightarrow> u32 \<Rightarrow> u32 \<Rightarrow> 'fs machine \<Rightarrow> (u32 \<times> 'fs machine) option" where
  "fstat e path fno = trap12 e [(rD1, SYS_FSTAT), (rA0, path), (rA1, fno)]"

definition fopendir :: "'fs env \<Rightarrow> u32 \<Rightarrow> u32 \<Rightarrow> 'fs machine \<Rightarrow> (u32 \<times> 'fs machine) option" where
  "fopendir e dp path = trap12 e [(rD1, SYS_FOPENDIR), (rA0, dp), (rA1, path)]"

definition freaddir :: "'fs env \<Rightarrow> u32 \<Rightarrow> u32 \<Rightarrow> 'fs machine \<Rightarrow> (u32 \<times> 'fs machine) option" where
  "freaddir e dp fno = trap12 e [(rD1, SYS_FREADDIR), (rA0, dp), (rA1, fno)]"

definition fclosedir :: "'fs env \<Rightarrow> u32 \<Rightarrow> 'fs machine \<Rightarrow> (u32 \<times> 'fs machine) option" where
  "fclosedir e dp = trap12 e [(rD1, SYS_FCLOSEDIR), (rA0, dp)]"

definition fmkdir :: "'fs env \<Rightarrow> u32 \<Rightarrow> 'fs machine \<Rightarrow> (u32 \<times> 'fs machine) option" where
  "fmkdir e path = trap12 e [(rD1, SYS_FMKDIR), (rA0, path)]"

definition fmount :: "'fs env \<Rightarrow> u32 \<Rightarrow> u32 \<Rightarrow> u8 \<Rightarrow> 'fs machine \<Rightarrow> (u32 \<times> 'fs machine) option" where
  "fmount e fs path opt = trap12 e [(rD1, SYS_FMOUNT), (rA0, fs), (rA1, path), (rD0, ucast opt)]"

definition funmount :: "'fs env \<Rightarrow> u32 \<Rightarrow> 'fs machine \<Rightarrow> (u32 \<times> 'fs machine) option" where
  "funmount e path = trap12 e [(rD1, SYS_FUNMOUNT), (rA0, path)]"

definition findfirst :: "'fs env \<Rightarrow> u32 \<Rightarrow> u32 \<Rightarrow> u32 \<Rightarrow> u32 \<Rightarrow> 'fs machine \<Rightarrow> (u32 \<times> 'fs machine) option" where
  "findfirst e dp fno path pattern =
     trap12 e [(rD1, SYS_FFINDFIRST), (rA0, dp), (rA1, fno), (rD0, path), (rD2, pattern)]"

definition findnext :: "'fs env \<Rightarrow> u32 \<Rightarrow> u32 \<Rightarrow> 'fs machine \<Rightarrow> (u32 \<times> 'fs machine) option" where
  "findnext e dp fno = trap12 e [(rD1, SYS_FFINDNEXT), (rA0, dp), (rA1, fno)]"

section \<open>What a call promises\<close>

text \<open>
  The calls of the library, by the FatFs call that each stands for; \<open>funmount\<close> is the one that gives no call
  its caller could name.
\<close>

datatype file_request = Lib fatfs_call | Unmount u32

fun file_call :: "'fs env \<Rightarrow> file_request \<Rightarrow> 'fs machine \<Rightarrow> (u32 \<times> 'fs machine) option" where
  "file_call e (Lib (F_open fp path mode)) = fopen e fp path mode"
| "file_call e (Lib (F_close fp)) = fclose e fp"
| "file_call e (Lib (F_read fp buff btr br)) = fread e fp buff btr br"
| "file_call e (Lib (F_write fp buff btw bw)) = fwrite e fp buff btw bw"
| "file_call e (Lib (F_sync fp)) = fsync e fp"
| "file_call e (Lib (F_unlink path)) = funlink e path"
| "file_call e (Lib (F_lseek fp offset)) = flseek e fp offset"
| "file_call e (Lib (F_tell fp)) = ftell e fp"
| "file_call e (Lib (F_size fp)) = fsize e fp"
| "file_call e (Lib (F_eof fp)) = feof e fp"
| "file_call e (Lib (F_rename a b)) = frename e a b"
| "file_call e (Lib (F_stat path fno)) = fstat e path fno"
| "file_call e (Lib (F_opendir dp path)) = fopendir e dp path"
| "file_call e (Lib (F_readdir dp fno)) = freaddir e dp fno"
| "file_call e (Lib (F_closedir dp)) = fclosedir e dp"
| "file_call e (Lib (F_mkdir path)) = fmkdir e path"
| "file_call e (Lib (F_mount fs path opt)) = fmount e fs path opt"
| "file_call e (Lib (F_findfirst dp fno path pattern)) = findfirst e dp fno path pattern"
| "file_call e (Lib (F_findnext dp fno)) = findnext e dp fno"
| "file_call e (Unmount path) = funmount e path"

text \<open>
  The FatFs call that is made.  \<open>do_unmount\<close> takes its option from where \<open>argv[1]\<close> would be, which is the
  saved D1: the number of the call.
\<close>

fun reaches :: "file_request \<Rightarrow> fatfs_call" where
  "reaches (Lib k) = k"
| "reaches (Unmount path) = F_mount 0 path 18"

fun returns_value :: "fatfs_call \<Rightarrow> bool" where
  "returns_value (F_tell fp) = True"
| "returns_value (F_size fp) = True"
| "returns_value (F_eof fp) = True"
| "returns_value k = False"


section \<open>The frame of a trap\<close>

definition saved_frame :: "cpu \<Rightarrow> u8 list" where
  "saved_frame c = concat (map be32 (tl (c_regs c))) @ be16 (c_sr c) @ be32 (c_pc c)"

lemma length_saved_frame: "length (c_regs c) = 15 \<Longrightarrow> length (saved_frame c) = 62"
  by (simp add: saved_frame_def)

lemma trap_enter_block:
  assumes "length (c_regs c) = 15"
  shows "trap_enter c m = (c_a7 c - 62, wr_bytes m (c_a7 c - 62) (saved_frame c))"
  using wr_bytes_below [of "concat (map be32 (tl (c_regs c)))" "be16 (c_sr c) @ be32 (c_pc c)" m "c_a7 c - 6"] assms
  by (simp add: trap_enter_def saved_frame_def)

text \<open>If the saved frame is still there at the end of the trap, every register but D0 is restored.\<close>

lemma trapC_exit_restores:
  assumes regs: "length (c_regs c) = 15"
    and keep: "\<And>x. in_block sp 62 x \<Longrightarrow> m x = wr_bytes m0 sp (saved_frame c) x"
    and sp: "sp = c_a7 c - 62"
  shows "trapC_exit m sp v = c\<lparr>c_regs := v # tl (c_regs c)\<rparr>"
proof -
  let ?m = "wr_bytes m0 sp (saved_frame c)"
  have l: "length (saved_frame c) \<le> 2 ^ 32" using length_saved_frame [OF regs] by simp
  have k: "in_block (sp + of_nat i) n x \<Longrightarrow> i + n \<le> 62 \<Longrightarrow> m x = ?m x" for i n x
    by (rule keep, rule in_block_part) auto
  have "rd32 m (sp + 4 * of_nat i) = tl (c_regs c) ! i" if i: "i < 14" for i
  proof -
    have "rd32 m (sp + 4 * of_nat i) = rd32 ?m (sp + 4 * of_nat i)"
      using i by (intro rd32_frame k [of "4 * i" 4]) (simp, linarith)
    also have "\<dots> = tl (c_regs c) ! i"
      using i regs l by (intro rd32_words [of _ _ _ "[]"]) (simp_all add: saved_frame_def)
    finally show ?thesis .
  qed
  then have "map (\<lambda>i. rd32 m (sp + 4 * of_nat i)) [0..<14] = map (\<lambda>i. tl (c_regs c) ! i) [0..<14]" by simp
  also have "\<dots> = tl (c_regs c)" using map_nth [of "tl (c_regs c)"] regs by simp
  finally have r: "map (\<lambda>i. rd32 m (sp + 4 * of_nat i)) [0..<14] = tl (c_regs c)" .
  have "rd16 m (sp + 56) = rd16 ?m (sp + 56)" by (rule rd16_frame, rule k [of 56 2]) simp_all
  also have "\<dots> = c_sr c"
    by (rule rd16_wr_part [OF _ l, of "concat (map be32 (tl (c_regs c)))" _ "be32 (c_pc c)"])
      (simp_all add: saved_frame_def regs)
  finally have s: "rd16 m (sp + 56) = c_sr c" .
  have "rd32 m (sp + 58) = rd32 ?m (sp + 58)" by (rule rd32_frame, rule k [of 58 4]) simp_all
  also have "\<dots> = c_pc c"
    by (rule rd32_wr_part [OF _ l, of "concat (map be32 (tl (c_regs c))) @ be16 (c_sr c)" _ "[]"])
      (simp_all add: saved_frame_def regs)
  finally have p: "rd32 m (sp + 58) = c_pc c" .
  show ?thesis using r s p by (simp add: trapC_exit_def sp)
qed

lemma pushed_args:
  assumes "pushed st0 bs st" "length bs + 4 * length args \<le> 2 ^ 32"
  shows "pushed st0 (concat (map be32 args) @ bs) (push_args args st)"
  using assms(2)
proof (induction args)
  case Nil
  then show ?case using assms(1) by (simp add: push_args_def)
next
  case (Cons v args)
  then have "pushed st0 (concat (map be32 args) @ bs) (push_args args st)" by simp
  from pushed_push32 [OF this, of v] Cons.prems show ?case by (simp add: push_args_def)
qed

text \<open>The stack when the C function is called, and what \<open>argv\<close> shows of it.\<close>

definition call_block :: "u32 list \<Rightarrow> u32 \<Rightarrow> cpu \<Rightarrow> u8 list" where
  "call_block args argv c =
     be32 (of_nat (length args)) @ be32 argv @ concat (map be32 args) @ saved_frame c"

lemma call_block_stack:
  assumes regs: "length (c_regs c) = 15" and n: "length args \<le> 4"
    and sp: "sp = c_a7 c - 62" and m: "m = wr_bytes m0 sp (saved_frame c)"
  defines "argv \<equiv> sp - of_nat (4 * length args)"
  defines "m1 \<equiv> wr_bytes m0 (argv - 8) (call_block args argv c)"
  shows "push_args args (sp, m) = (argv, snd (push_args args (sp, m)))"
    and "push32 (push32 (push_args args (sp, m)) argv) (of_nat (length args)) = (argv - 8, m1)"
    and "length (call_block args argv c) = 70 + 4 * length args"
    and "in_block sp 62 x \<Longrightarrow> m1 x = m x"
proof -
  let ?base = "(c_a7 c, m0)" and ?st = "push_args args (sp, m)"
  note l = length_saved_frame [OF regs]
  have "pushed ?base (saved_frame c) (sp, m)"
    using l by (simp add: pushed_def sp m)
  then have p1: "pushed ?base (concat (map be32 args) @ saved_frame c) ?st"
    using n l by (intro pushed_args) auto
  have a: "fst ?st = argv"
    using p1 l by (simp add: pushed_def argv_def sp algebra_simps)
  then show "?st = (argv, snd ?st)" by (simp add: prod_eq_iff)
  have p2: "pushed ?base (call_block args argv c) (push32 (push32 ?st argv) (of_nat (length args)))"
    unfolding call_block_def using n l by (intro pushed_push32 p1) auto
  show lb: "length (call_block args argv c) = 70 + 4 * length args" by (simp add: call_block_def l)
  have e: "c_a7 c - of_nat (length (call_block args argv c)) = argv - 8"
    unfolding lb by (simp add: argv_def sp algebra_simps)
  show "push32 (push32 ?st argv) (of_nat (length args)) = (argv - 8, m1)"
    using p2 e by (simp add: pushed_def m1_def prod_eq_iff)
  show "in_block sp 62 x \<Longrightarrow> m1 x = m x"
  proof -
    assume x: "in_block sp 62 x"
    have "m1 = wr_bytes m (argv - 8) (be32 (of_nat (length args)) @ be32 argv @ concat (map be32 args))"
      using wr_bytes_below [of "be32 (of_nat (length args)) @ be32 argv @ concat (map be32 args)" "saved_frame c" m0 sp] l n
      by (simp add: m1_def m call_block_def argv_def algebra_simps)
    moreover have "\<not> in_block (argv - 8) (8 + 4 * length args) x"
      using in_block_adjacent [OF x, of "8 + 4 * length args"] n by (simp add: argv_def algebra_simps)
    ultimately show ?thesis using n by (simp add: wr_bytes_frame)
  qed
qed

text \<open>
  The bytes below A7 that a call may change before it reaches FatFs: the saved frame, at most four arguments,
  the pointer and the count, the return address and the frame of \<open>n\<close> bytes.
\<close>

abbreviation stack_block :: "u32 \<Rightarrow> nat \<Rightarrow> u32 \<Rightarrow> bool" where
  "stack_block a7 n \<equiv> in_block (a7 - of_nat (90 + n)) (90 + n)"

lemma run_stub_block:
  fixes e :: "'fs env"
  assumes regs: "length (c_regs c) = 15" and n: "length args \<le> 4"
    and sp: "sp = c_a7 c - 62" and m: "m = wr_bytes m0 sp (saved_frame c)"
    and frame: "\<And>w. length (c_frame e k w) \<le> nf" "90 + nf \<le> 2 ^ 32"
  obtains argv m1 where "run_stub e k args h sp (m, fs) = h (length args) argv (m1, fs)"
    and "\<And>i (fs' :: 'fs). i < length args + 14 \<Longrightarrow> arg (m1, fs') argv i = (args @ tl (c_regs c)) ! i"
    and "\<And>x. in_block sp 62 x \<Longrightarrow> m1 x = m x"
    and "\<And>x. \<not> stack_block (c_a7 c) nf x \<Longrightarrow> m1 x = m0 x"
proof -
  define argv where "argv = sp - of_nat (4 * length args)"
  define m' where "m' = wr_bytes m0 (argv - 8) (call_block args argv c)"
  define fr where "fr = c_frame e k (m', fs)"
  define m1 where "m1 = call_frame (jsr_return e k) fr (argv - 8) m'"
  note b = call_block_stack [OF regs n sp m, folded argv_def, folded m'_def]
  have fr: "length fr \<le> nf" unfolding fr_def by (rule frame)
  have above: "in_block (argv - 8) (70 + 4 * length args) x \<Longrightarrow> m1 x = m' x" for x
    unfolding m1_def using fr frame(2) n by (intro call_frame_above [where n = "70 + 4 * length args"]) auto
  have run: "run_stub e k args h sp (m, fs) = h (length args) argv (m1, fs)"
  proof -
    obtain m2 where p: "push_args args (sp, m) = (argv, m2)" using b(1) by blast
    from b(2) have "push32 (push32 (argv, m2) argv) (of_nat (length args)) = (argv - 8, m')" unfolding p .
    then show ?thesis by (simp add: run_stub_def Let_def p m1_def fr_def)
  qed
  have lb': "length (call_block args argv c) \<le> 2 ^ 32" using b(3) n by simp
  have arg: "arg (m1, fs') argv i = (args @ tl (c_regs c)) ! i" if i: "i < length args + 14" for i and fs' :: 'fs
  proof -
    have "rd32 m1 (argv + 4 * of_nat i) = rd32 m' (argv + 4 * of_nat i)"
    proof (rule rd32_frame)
      fix x assume "in_block (argv + 4 * of_nat i) 4 x"
      then have "in_block ((argv - 8) + of_nat (8 + 4 * i)) 4 x" by (simp add: algebra_simps)
      from in_block_part [OF this, of "70 + 4 * length args"] i n show "m1 x = m' x" by (intro above) simp
    qed
    also have "\<dots> = (args @ tl (c_regs c)) ! i"
      unfolding m'_def using regs lb' i
      by (intro rd32_words [of _ _ _ "be32 (of_nat (length args)) @ be32 argv"])
        (simp_all add: call_block_def saved_frame_def)
    finally show ?thesis by (simp add: arg_def)
  qed
  have keep: "m1 x = m x" if x: "in_block sp 62 x" for x
  proof -
    have "in_block ((argv - 8) + of_nat (8 + 4 * length args)) 62 x" using x by (simp add: argv_def algebra_simps)
    from in_block_part [OF this, of "70 + 4 * length args"] n have "m1 x = m' x" by (intro above) simp
    with b(4) [OF x] show ?thesis by simp
  qed
  have out: "m1 x = m0 x" if x: "\<not> stack_block (c_a7 c) nf x" for x
  proof -
    have part: "\<not> in_block ((c_a7 c - of_nat (90 + nf)) + of_nat i) l x" if "i + l \<le> 90 + nf" for i l
      using x that frame(2) in_block_part [of "c_a7 c - of_nat (90 + nf)" i l x "90 + nf"] by blast
    have "\<not> in_block (argv - 8) (70 + 4 * length args) x"
    proof -
      have "argv - 8 = (c_a7 c - of_nat (90 + nf)) + of_nat (20 + nf - 4 * length args)"
        using n by (simp add: argv_def sp of_nat_diff algebra_simps)
      then show ?thesis by (simp only:) (rule part, use n in simp)
    qed
    then have "m' x = m0 x" using b(3) lb' by (simp add: m'_def wr_bytes_frame)
    moreover have "\<not> in_block (argv - 8 - 4 - of_nat (length fr)) (4 + length fr) x"
    proof -
      have "argv - 8 - 4 - of_nat (length fr) = (c_a7 c - of_nat (90 + nf)) + of_nat (16 + nf - 4 * length args - length fr)"
        using n fr by (simp add: argv_def sp of_nat_diff algebra_simps)
      then show ?thesis by (simp only:) (rule part, use n fr in simp)
    qed
    then have "m1 x = m' x" unfolding m1_def using fr frame(2) by (intro call_frame_outside) auto
    ultimately show ?thesis by simp
  qed
  show thesis by (rule that [OF run arg keep out])
qed

section \<open>Every call reaches FatFs with its arguments\<close>

fun call_regs :: "file_request \<Rightarrow> (nat \<times> u32) list" where
  "call_regs (Lib (F_open fp path mode)) = [(rD1, SYS_FOPEN), (rA0, fp), (rA1, path), (rD0, ucast mode)]"
| "call_regs (Lib (F_close fp)) = [(rD1, SYS_FCLOSE), (rA0, fp)]"
| "call_regs (Lib (F_read fp buff btr br)) = [(rD1, SYS_FREAD), (rA0, fp), (rA1, buff), (rD0, btr), (rA2, br)]"
| "call_regs (Lib (F_write fp buff btw bw)) = [(rD1, SYS_FWRITE), (rA0, fp), (rA1, buff), (rD0, btw), (rA2, bw)]"
| "call_regs (Lib (F_sync fp)) = [(rD1, SYS_FSYNC), (rA0, fp)]"
| "call_regs (Lib (F_unlink path)) = [(rD1, SYS_FUNLINK), (rA0, path)]"
| "call_regs (Lib (F_lseek fp offset)) = [(rD1, SYS_FLSEEK), (rA0, fp), (rD0, offset)]"
| "call_regs (Lib (F_tell fp)) = [(rD1, SYS_FTELL), (rA0, fp)]"
| "call_regs (Lib (F_size fp)) = [(rD1, SYS_FSIZE), (rA0, fp)]"
| "call_regs (Lib (F_eof fp)) = [(rD1, SYS_FEOF), (rA0, fp)]"
| "call_regs (Lib (F_rename a b)) = [(rD1, SYS_FRENAME), (rA0, a), (rA1, b)]"
| "call_regs (Lib (F_stat path fno)) = [(rD1, SYS_FSTAT), (rA0, path), (rA1, fno)]"
| "call_regs (Lib (F_opendir dp path)) = [(rD1, SYS_FOPENDIR), (rA0, dp), (rA1, path)]"
| "call_regs (Lib (F_readdir dp fno)) = [(rD1, SYS_FREADDIR), (rA0, dp), (rA1, fno)]"
| "call_regs (Lib (F_closedir dp)) = [(rD1, SYS_FCLOSEDIR), (rA0, dp)]"
| "call_regs (Lib (F_mkdir path)) = [(rD1, SYS_FMKDIR), (rA0, path)]"
| "call_regs (Lib (F_mount fs path opt)) = [(rD1, SYS_FMOUNT), (rA0, fs), (rA1, path), (rD0, ucast opt)]"
| "call_regs (Lib (F_findfirst dp fno path pattern)) =
     [(rD1, SYS_FFINDFIRST), (rA0, dp), (rA1, fno), (rD0, path), (rD2, pattern)]"
| "call_regs (Lib (F_findnext dp fno)) = [(rD1, SYS_FFINDNEXT), (rA0, dp), (rA1, fno)]"
| "call_regs (Unmount path) = [(rD1, SYS_FUNMOUNT), (rA0, path)]"

fun call_args :: "file_request \<Rightarrow> u32 list" where
  "call_args (Lib (F_open fp path mode)) = [fp, path, ucast mode]"
| "call_args (Lib (F_close fp)) = [fp]"
| "call_args (Lib (F_read fp buff btr br)) = [fp, buff, btr, br]"
| "call_args (Lib (F_write fp buff btw bw)) = [fp, buff, btw, bw]"
| "call_args (Lib (F_sync fp)) = [fp]"
| "call_args (Lib (F_unlink path)) = [path]"
| "call_args (Lib (F_lseek fp offset)) = [fp, offset]"
| "call_args (Lib (F_tell fp)) = [fp]"
| "call_args (Lib (F_size fp)) = [fp]"
| "call_args (Lib (F_eof fp)) = [fp]"
| "call_args (Lib (F_rename a b)) = [a, b]"
| "call_args (Lib (F_stat path fno)) = [path, fno]"
| "call_args (Lib (F_opendir dp path)) = [dp, path]"
| "call_args (Lib (F_readdir dp fno)) = [dp, fno]"
| "call_args (Lib (F_closedir dp)) = [dp]"
| "call_args (Lib (F_mkdir path)) = [path]"
| "call_args (Lib (F_mount fs path opt)) = [fs, path, ucast opt]"
| "call_args (Lib (F_findfirst dp fno path pattern)) = [dp, fno, path, pattern]"
| "call_args (Lib (F_findnext dp fno)) = [dp, fno]"
| "call_args (Unmount path) = [path]"

lemma length_call_args: "length (call_args k) \<le> 4"
  by (cases k rule: call_args.cases) auto

lemma file_call_trap: "file_call e k = trap12 e (call_regs k)"
  by (cases k rule: call_args.cases) (simp_all add: fopen_def fclose_def fread_def fwrite_def fsync_def funlink_def flseek_def ftell_def
    fsize_def feof_def frename_def fstat_def fopendir_def freaddir_def fclosedir_def fmkdir_def fmount_def
    findfirst_def findnext_def funmount_def)

lemma load_regs_keeps [simp]:
  "c_a7 (load_regs rs c) = c_a7 c" "c_sr (load_regs rs c) = c_sr c" "c_pc (load_regs rs c) = c_pc c"
  "length (c_regs (load_regs rs c)) = length (c_regs c)"
proof -
  have "length (fold (\<lambda>(i, v) r. r[i := v]) rs r) = length r" for r :: "u32 list"
    by (induction rs arbitrary: r) auto
  then show "length (c_regs (load_regs rs c)) = length (c_regs c)" by (simp add: load_regs_def)
qed (simp_all add: load_regs_def)

lemma ucast_byte [simp]: "(ucast (ucast (b :: u8) :: u32) :: u8) = b"
  by (rule bit_word_eqI) (auto simp: bit_simps)

lemmas do_defs = do_open_def do_close_def do_read_def do_write_def do_sync_def do_unlink_def do_lseek_def
  do_tell_def do_size_def do_eof_def do_rename_def do_stat_def do_opendir_def do_readdir_def do_closedir_def
  do_mkdir_def do_mount_def do_unmount_def do_findfirst_def do_findnext_def

text \<open>The text that a call prints, where the path leads to \<open>path\<close>; a null pointer prints as such.\<close>

fun call_prints :: "file_request \<Rightarrow> u8 list option \<Rightarrow> u8 list" where
  "call_prints (Lib (F_open fp p mode)) path =
     bytes_of ''Filename['' @ (case path of None \<Rightarrow> bytes_of ''(null)'' | Some s \<Rightarrow> s) @ bytes_of '']'' @ [10]"
| "call_prints r path = []"

text \<open>What the caller of \<open>fopen\<close> has in memory, clear of the stack: the format and the name of the file.\<close>

definition text_clear :: "mem \<Rightarrow> u32 \<Rightarrow> nat \<Rightarrow> u32 \<Rightarrow> u8 list \<Rightarrow> bool" where
  "text_clear m a7 n p s \<longleftrightarrow> cstr m p s \<and> length s < 2 ^ 32 \<and> disjoint_blocks (a7 - of_nat (90 + n)) (90 + n) p (Suc (length s))"

fun open_texts :: "'fs env \<Rightarrow> mem \<Rightarrow> u32 \<Rightarrow> nat \<Rightarrow> file_request \<Rightarrow> u8 list option \<Rightarrow> bool" where
  "open_texts e m a7 n (Lib (F_open fp p mode)) path \<longleftrightarrow>
     text_clear m a7 n (open_format e) (bytes_of ''Filename[%s]'' @ [10]) \<and>
     (case path of None \<Rightarrow> p = 0 | Some s \<Rightarrow> p \<noteq> 0 \<and> text_clear m a7 n p s)"
| "open_texts e m a7 n r path \<longleftrightarrow> True"

lemma text_clear_kept:
  assumes "text_clear m a7 n p s" "\<And>x. \<not> stack_block a7 n x \<Longrightarrow> m1 x = m x"
  shows "cstr m1 p s"
proof -
  have d: "disjoint_blocks (a7 - of_nat (90 + n)) (90 + n) p (Suc (length s))" and l: "length s < 2 ^ 32" and c: "cstr m p s"
    using assms(1) by (simp_all add: text_clear_def)
  have "m1 x = m x" if "in_block p (Suc (length s)) x" for x
    using disjoint_blocksD [OF d] that by (intro assms(2)) blast
  with c l show ?thesis using cstr_frame [of p s m1 m] by blast
qed

lemma open_prints:
  assumes "cstr m (open_format e) (bytes_of ''Filename[%s]'' @ [10])"
    and "case path of None \<Rightarrow> p = 0 | Some s \<Rightarrow> p \<noteq> 0 \<and> cstr m p s"
  shows "\<exists>n. printf m (open_format e) [p] = Some (n, call_prints (Lib (F_open fp p mode)) path)"
proof -
  define ds where "ds = map Lit (bytes_of ''Filename['') @ Directive [] False 115 # map Lit (bytes_of '']'' @ [10])"
  have f: "format_text ds = bytes_of ''Filename[%s]'' @ [10]" by (simp add: ds_def bytes_of_def)
  have pl: "\<forall>d \<in> set ds. plain_flags d" by (simp add: ds_def bytes_of_def digit_byte_def)
  have lits: "prints str_at (map Lit cs @ ds') args (cs @ out)" if "prints str_at ds' args out" for str_at cs ds' args out
    using that by (induction cs) (auto intro: prints_lit)
  have "prints (cstr m) (map Lit (bytes_of '']'' @ [10]) @ []) [] ((bytes_of '']'' @ [10]) @ [])"
    by (intro lits prints_end)
  then have tl: "prints (cstr m) (map Lit (bytes_of '']'' @ [10])) [] (bytes_of '']'' @ [10])" by simp
  have "prints (cstr m) (Directive [] False 115 # map Lit (bytes_of '']'' @ [10])) [p]
      ((case path of None \<Rightarrow> bytes_of ''(null)'' | Some s \<Rightarrow> s) @ bytes_of '']'' @ [10])"
    using assms(2) prints_null [OF tl] prints_string [OF tl] by (auto split: option.splits)
  from lits [OF this, of "bytes_of ''Filename[''"]
  have "prints (cstr m) ds [p] (call_prints (Lib (F_open fp p mode)) path)" by (simp add: ds_def)
  from printf_text [OF _ pl this] assms(1) show ?thesis unfolding f by blast
qed

text \<open>The C function behind a call, once its arguments are in place.\<close>

definition made :: "'fs env \<Rightarrow> file_request \<Rightarrow> mem \<times> 'fs \<Rightarrow> (u32 option \<times> 'fs world) option" where
  "made e r w = (if returns_value (reaches r) then value_call e (reaches r) w else void_call e (reaches r) w)"

definition after_print :: "'fs env \<Rightarrow> file_request \<Rightarrow> u8 list option \<Rightarrow> 'fs \<Rightarrow> 'fs" where
  "after_print e r path fs = (case r of Lib (F_open _ _ _) \<Rightarrow> put_console e (call_prints r path) fs | _ \<Rightarrow> fs)"

lemma file_stub_call:
  fixes e :: "'fs env"
  assumes "length (c_regs c) = 15"
  obtains h where "file_stub e (c_regs (load_regs (call_regs k) c)) = Some (call_args k, h)"
    and "\<And>argc argv m fs path. (\<And>i (fs' :: 'fs). i < length (call_args k) + 14 \<Longrightarrow>
        arg (m, fs') argv i = (call_args k @ tl (c_regs (load_regs (call_regs k) c))) ! i) \<Longrightarrow>
      (\<And>fp p mode. k = Lib (F_open fp p mode) \<Longrightarrow> \<exists>n. printf m (open_format e) [p] = Some (n, call_prints k path)) \<Longrightarrow>
      h argc argv (m, fs) = made e k (m, after_print e k path fs)"
proof (cases k rule: call_args.cases)
  case (1 fp path mode)
  have stub: "file_stub e (c_regs (load_regs (call_regs k) c)) = Some (call_args k, do_open e)"
    using assms by (simp add: 1 file_stub_def load_regs_def Let_def reg_defs sys_defs)
  have "do_open e argc argv (m, fs) = made e k (m, after_print e k pt fs)"
    if a: "\<And>i (fs' :: 'fs). i < length (call_args k) + 14 \<Longrightarrow> arg (m, fs') argv i = (call_args k @ tl (c_regs (load_regs (call_regs k) c))) ! i"
      and p: "\<And>fp p mode. k = Lib (F_open fp p mode) \<Longrightarrow> \<exists>n. printf m (open_format e) [p] = Some (n, call_prints k pt)"
    for argc argv m fs pt
  proof -
    obtain n where n: "printf m (open_format e) [path] = Some (n, call_prints k pt)" using p [OF 1] by blast
    have "arg (m, fs) argv 0 = fp" "arg (m, fs) argv 1 = path" "arg (m, fs) argv 2 = ucast mode" for fs :: 'fs
      using a [of 0 fs] a [of 1 fs] a [of 2 fs] by (simp_all add: 1 nth_append)
    then show ?thesis using n by (simp add: do_open_def made_def after_print_def 1)
  qed
  with stub show ?thesis by (rule that)
next
  case (20 path)
  have stub: "file_stub e (c_regs (load_regs (call_regs k) c)) = Some (call_args k, do_unmount e)"
    using assms by (simp add: 20 file_stub_def load_regs_def Let_def reg_defs sys_defs)
  have d1: "tl (c_regs (load_regs (call_regs k) c)) ! 0 = 18"
    using assms by (simp add: 20 load_regs_def reg_defs sys_defs nth_tl)
  have u: "do_unmount e argc argv (m, fs) = made e k (m, after_print e k pt fs)"
    if a: "\<And>i (fs' :: 'fs). i < length (call_args k) + 14 \<Longrightarrow> arg (m, fs') argv i = (call_args k @ tl (c_regs (load_regs (call_regs k) c))) ! i"
    for argc argv m fs pt
    using a [of 0 fs] a [of 1 fs] d1 by (simp add: do_unmount_def made_def after_print_def 20 del: load_regs_keeps)
  show ?thesis by (rule that [OF stub], rule u, blast)
qed (use assms in \<open>simp_all add: file_stub_def load_regs_def Let_def reg_defs sys_defs do_defs made_def after_print_def nth_append that\<close>)

text \<open>A trap that makes the call \<open>r\<close>.\<close>

lemma trap_runs:
  fixes e :: "'fs env"
  assumes regs: "length (c_regs c) = 15" and load: "c = load_regs (call_regs r) c0"
    and frame: "\<And>k w. length (c_frame e k w) \<le> n" "90 + n \<le> 2 ^ 32"
    and keep: "\<And>w x. in_block (c_a7 c - 62) 62 x \<Longrightarrow> fst (snd (fat e (reaches r) w)) x = fst w x"
    and texts: "open_texts e m (c_a7 c) n r path" and fs1: "fs1 = after_print e r path fs"
  shows "\<exists>m1. (\<forall>x. \<not> stack_block (c_a7 c) n x \<longrightarrow> m1 x = m x) \<and>
    TrapCHandler e c (m, fs) =
      Some (c\<lparr>c_regs := (if returns_value (reaches r) then fst (fat e (reaches r) (m1, fs1)) else void_d0 e) # tl (c_regs c)\<rparr>,
        snd (fat e (reaches r) (m1, fs1)))"
proof -
  let ?sp = "c_a7 c - 62" and ?m = "wr_bytes m (c_a7 c - 62) (saved_frame c)"
  have regs0: "length (c_regs c0) = 15" using regs load by simp
  obtain h where h: "file_stub e (c_regs c) = Some (call_args r, h)"
    "\<And>argc argv m fs path. (\<And>i (fs' :: 'fs). i < length (call_args r) + 14 \<Longrightarrow> arg (m, fs') argv i = (call_args r @ tl (c_regs c)) ! i) \<Longrightarrow>
      (\<And>fp p mode. r = Lib (F_open fp p mode) \<Longrightarrow> \<exists>n. printf m (open_format e) [p] = Some (n, call_prints r path)) \<Longrightarrow>
      h argc argv (m, fs) = made e r (m, after_print e r path fs)"
  proof (rule file_stub_call [OF regs0, of e r, folded load])
    fix h
    assume a: "file_stub e (c_regs c) = Some (call_args r, h)"
      and b: "\<And>argc argv m fs path. (\<And>i (fs' :: 'fs). i < length (call_args r) + 14 \<Longrightarrow>
          arg (m, fs') argv i = (call_args r @ tl (c_regs c)) ! i) \<Longrightarrow>
        (\<And>fp p mode. r = Lib (F_open fp p mode) \<Longrightarrow> \<exists>n. printf m (open_format e) [p] = Some (n, call_prints r path)) \<Longrightarrow>
        h argc argv (m, fs) = made e r (m, after_print e r path fs)"
    show thesis by (rule that [OF a b])
  qed
  let ?k = "unat (ucast (c_regs c ! rD1) :: u16)"
  obtain argv m1 where run: "run_stub e ?k (call_args r) h ?sp (?m, fs) = h (length (call_args r)) argv (m1, fs)"
    and args: "\<And>i (fs' :: 'fs). i < length (call_args r) + 14 \<Longrightarrow> arg (m1, fs') argv i = (call_args r @ tl (c_regs c)) ! i"
    and stack: "\<And>x. in_block ?sp 62 x \<Longrightarrow> m1 x = ?m x" and out: "\<And>x. \<not> stack_block (c_a7 c) n x \<Longrightarrow> m1 x = m x"
  proof (rule run_stub_block [OF regs length_call_args [of r] refl refl frame(1) [of ?k] frame(2), of h m fs])
    fix argv m1
    assume a: "run_stub e ?k (call_args r) h ?sp (?m, fs) = h (length (call_args r)) argv (m1, fs)"
      and b: "\<And>i (fs' :: 'fs). i < length (call_args r) + 14 \<Longrightarrow> arg (m1, fs') argv i = (call_args r @ tl (c_regs c)) ! i"
      and d: "\<And>x. in_block ?sp 62 x \<Longrightarrow> m1 x = ?m x" "\<And>x. \<not> stack_block (c_a7 c) n x \<Longrightarrow> m1 x = m x"
    show thesis by (rule that [OF a b d])
  qed
  have "\<exists>n. printf m1 (open_format e) [p] = Some (n, call_prints r path)" if r: "r = Lib (F_open fp p mode)" for fp p mode
    unfolding r using texts text_clear_kept [OF _ out]
    by (intro open_prints) (auto simp: r split: option.splits)
  from h(2) [OF args this] have made: "h (length (call_args r)) argv (m1, fs) = made e r (m1, fs1)" unfolding fs1 .
  let ?w2 = "snd (fat e (reaches r) (m1, fs1))"
  let ?v = "if returns_value (reaches r) then fst (fat e (reaches r) (m1, fs1)) else void_d0 e"
  have kept: "fst ?w2 x = ?m x" if "in_block ?sp 62 x" for x
    using keep [OF that, of "(m1, fs1)"] stack [OF that] by simp
  have "trapC_exit (fst ?w2) ?sp ?v = c\<lparr>c_regs := ?v # tl (c_regs c)\<rparr>"
    by (rule trapC_exit_restores [OF regs kept refl])
  then have "TrapCHandler e c (m, fs) = Some (c\<lparr>c_regs := ?v # tl (c_regs c)\<rparr>, ?w2)"
    using run made by (auto simp: TrapCHandler_def trap_enter_block [OF regs] h(1) made_def value_call_def void_call_def map_prod_def
        split: prod.splits)
  with out show ?thesis by blast
qed

section \<open>Properties\<close>

text \<open>
  C39: each of the twenty file calls of the library, \<open>funmount\<close> included, reaches FatFs as the function that
  \<open>reaches\<close> names, with its arguments, in a memory that differs from the caller's only in the \<open>90 + n\<close> bytes
  below the stack pointer, where \<open>n\<close> bounds the frame that the compiled C function makes before it calls
  FatFs; \<open>fopen\<close> prints the name of the file first.  The call returns, and the registers come back as the
  wrapper loaded them, D0 with the result if the C function behind the trap returns one.  \<open>funmount\<close> reaches
  FatFs with an option its caller never gave, the number of the call.  FatFs is assumed to leave the saved
  registers on the stack alone, and the texts that \<open>fopen\<close> prints not to lie in the part of the stack that
  the call uses.
\<close>

theorem file_call_reaches_fatfs:
  assumes regs: "length (c_regs c) = 15"
    and frame: "\<And>k w. length (c_frame e k w) \<le> n" "90 + n \<le> 2 ^ 32"
    and keep: "\<And>w x. in_block (c_a7 c - 62) 62 x \<Longrightarrow> fst (snd (fat e (reaches r) w)) x = fst w x"
    and texts: "open_texts e m (c_a7 c) n r path"
  shows "\<exists>m1. (\<forall>x. \<not> stack_block (c_a7 c) n x \<longrightarrow> m1 x = m x) \<and>
    (let fs1 = after_print e r path fs;
         d0 = if returns_value (reaches r) then fst (fat e (reaches r) (m1, fs1)) else void_d0 e;
         c1 = load_regs (call_regs r) c
     in file_call e r (c, m, fs) = Some (d0, c1\<lparr>c_regs := d0 # tl (c_regs c1)\<rparr>, snd (fat e (reaches r) (m1, fs1))))"
proof -
  let ?c = "load_regs (call_regs r) c"
  obtain m1 where m1: "\<forall>x. \<not> stack_block (c_a7 c) n x \<longrightarrow> m1 x = m x"
    "TrapCHandler e ?c (m, fs) =
      Some (?c\<lparr>c_regs := (if returns_value (reaches r) then fst (fat e (reaches r) (m1, after_print e r path fs)) else void_d0 e) # tl (c_regs ?c)\<rparr>,
        snd (fat e (reaches r) (m1, after_print e r path fs)))"
    using trap_runs [of ?c r c e n m path _ fs, OF _ refl frame _ _ refl] regs keep texts by auto
  then show ?thesis
    unfolding file_call_trap trap12_def Let_def fst_conv snd_conv m1(2) by (intro exI [of _ m1]) (simp add: rD0_def)
qed

text \<open>A FatFs that knows the size of every file and writes the count of bytes of a read; the console is a text.\<close>

definition demo_env :: "u8 list env" where
  "demo_env = \<lparr>fat = (\<lambda>k w. case k of
       F_size fp \<Rightarrow> (1234, w)
     | F_read fp buff btr br \<Rightarrow> (0, if br = 0x100 then (wr32 (fst w) br btr, snd w) else w)
     | _ \<Rightarrow> (0, w)),
   do_ls = (\<lambda>_ _ w. Some (None, w)), do_save_basic = (\<lambda>_ _ w. Some (None, w)), do_load_basic = (\<lambda>_ _ w. Some (None, w)),
   put_console = (\<lambda>t out. out @ t), open_format = 0x200, jsr_return = (\<lambda>k. 0xE00000 + 16 * of_nat k),
   c_frame = (\<lambda>k w. replicate 40 0xAA), void_d0 = 77\<rparr>"

definition demo_cpu :: cpu where
  "demo_cpu = \<lparr>c_regs = replicate 15 7, c_sr = 0x2000, c_pc = 0x1234, c_a7 = 0x5000\<rparr>"

definition demo_memory :: mem where
  "demo_memory = wr_bytes (wr_bytes (\<lambda>_. 0) 0x200 (bytes_of ''Filename[%s]'' @ [10])) 0x300 (bytes_of ''A.TXT'')"

lemma demo_call_frame: "length (c_frame demo_env k w) \<le> 40" "90 + 40 \<le> (2 ^ 32 :: nat)" "length (c_regs demo_cpu) = 15"
  by (simp_all add: demo_env_def demo_cpu_def)

lemma demo_open_texts: "open_texts demo_env demo_memory (c_a7 demo_cpu) 40 (Lib (F_open 1 0x300 1)) (Some (bytes_of ''A.TXT''))"
proof -
  have "bytes_of ''Filename[%s]'' @ [10] = [70, 105, 108, 101, 110, 97, 109, 101, 91, 37, 115, 93, 10]" "bytes_of ''A.TXT'' = [65, 46, 84, 88, 84]"
    by (simp_all add: bytes_of_def)
  then show ?thesis by (simp add: text_clear_def demo_memory_def demo_env_def demo_cpu_def disjoint_blocks_def)
qed

text \<open>An open: the name is on the console, D0 holds what the \<open>void\<close> function left.\<close>

theorem file_call_reaches_fatfs_witness:
  "\<exists>c' m'. file_call demo_env (Lib (F_open 1 0x300 1)) (demo_cpu, demo_memory, []) =
    Some (77, c', m', bytes_of ''Filename[A.TXT]'' @ [10])"
proof -
  have k: "fst (snd (fat demo_env (reaches (Lib (F_open 1 0x300 1))) w)) x = fst w x" for w x by (simp add: demo_env_def)
  have t: "after_print demo_env (Lib (F_open 1 0x300 1)) (Some (bytes_of ''A.TXT'')) [] = bytes_of ''Filename[A.TXT]'' @ [10]"
    by (simp add: after_print_def demo_env_def bytes_of_def)
  have f: "snd (snd (fat demo_env (reaches (Lib (F_open 1 0x300 1))) (m, fs))) = fs" for m fs by (simp add: demo_env_def)
  have v: "returns_value (reaches (Lib (F_open 1 0x300 1))) = False" "void_d0 demo_env = 77" by (simp_all add: demo_env_def)
  from file_call_reaches_fatfs [OF demo_call_frame(3) demo_call_frame(1,2) k demo_open_texts, of "[]"]
  show ?thesis unfolding Let_def t v if_False using f by (metis prod.collapse)
qed

end
