(* ===== verification/Malloc.thy ===== *)
theory Malloc
  imports Prelude
begin

text \<open>
  The heap of the C library (\<^verbatim>\<open>libc/src/string/malloc.c\<close>).  A \<open>Block *\<close> is the index of the
  block in the array behind the heap header, \<open>None\<close> is a null pointer.  The loops follow
  \<open>next\<close> pointers and are partial functions: \<open>None\<close> is a loop that does not end or a null
  pointer that is followed.
\<close>

section \<open>State\<close>

record block =
  b_addr :: u32
  b_next :: "nat option"
  b_size :: u32

record heap =
  h_free :: "nat option"
  h_used :: "nat option"
  h_fresh :: "nat option"
  h_top :: u32
  h_blk :: "nat \<Rightarrow> block"
  h_limit :: u32
  h_thresh :: u32
  h_align :: u32
  h_max :: u32

definition upd_blk :: "nat \<Rightarrow> (block \<Rightarrow> block) \<Rightarrow> heap \<Rightarrow> heap" where
  "upd_blk i f h = h\<lparr>h_blk := (h_blk h)(i := f (h_blk h i))\<rparr>"

abbreviation "addr_of h i \<equiv> b_addr (h_blk h i)"
abbreviation "size_of h i \<equiv> b_size (h_blk h i)"
abbreviation "next_blk h i \<equiv> b_next (h_blk h i)"

definition set_next :: "nat \<Rightarrow> nat option \<Rightarrow> heap \<Rightarrow> heap" where
  "set_next i p = upd_blk i (\<lambda>b. b\<lparr>b_next := p\<rparr>)"

definition set_size :: "nat \<Rightarrow> u32 \<Rightarrow> heap \<Rightarrow> heap" where
  "set_size i v = upd_blk i (\<lambda>b. b\<lparr>b_size := v\<rparr>)"

definition set_addr :: "nat \<Rightarrow> u32 \<Rightarrow> heap \<Rightarrow> heap" where
  "set_addr i v = upd_blk i (\<lambda>b. b\<lparr>b_addr := v\<rparr>)"

lemmas upd_defs = upd_blk_def set_next_def set_size_def set_addr_def

section \<open>The free list\<close>

text \<open>The place of an address in the sorted list: the last block before it and the first behind it.\<close>

partial_function (option) find_place :: "u32 \<Rightarrow> nat option \<Rightarrow> nat option \<Rightarrow> heap \<Rightarrow> (nat option \<times> nat option) option" where
  "find_place a prev ptr h =
     (case ptr of
        None \<Rightarrow> Some (prev, None)
      | Some p \<Rightarrow> if a \<le> addr_of h p then Some (prev, Some p) else find_place a (Some p) (next_blk h p) h)"

definition insert_block :: "nat \<Rightarrow> heap \<Rightarrow> heap option" where
  "insert_block b h =
     map_option (\<lambda>(prev, ptr).
       let h1 = (case prev of Some q \<Rightarrow> set_next q (Some b) h | None \<Rightarrow> h\<lparr>h_free := Some b\<rparr>)
       in set_next b ptr h1) (find_place (addr_of h b) None (h_free h) h)"

partial_function (option) release_blocks :: "nat option \<Rightarrow> nat option \<Rightarrow> heap \<Rightarrow> heap option" where
  "release_blocks scan to h =
     (if scan = to then Some h
      else case scan of
             None \<Rightarrow> None
           | Some s \<Rightarrow>
               let h1 = set_next s (h_fresh h) h;
                   h2 = set_size s 0 (set_addr s 0 (h1\<lparr>h_fresh := Some s\<rparr>))
               in release_blocks (next_blk h s) to h2)"

text \<open>The run of blocks of which each begins where the one before ends.\<close>

partial_function (option) scan_run :: "nat \<Rightarrow> nat option \<Rightarrow> heap \<Rightarrow> nat option" where
  "scan_run prev scan h =
     (case scan of
        None \<Rightarrow> Some prev
      | Some s \<Rightarrow> if addr_of h prev + size_of h prev = addr_of h s then scan_run s (next_blk h s) h else Some prev)"

partial_function (option) compact_loop :: "nat option \<Rightarrow> heap \<Rightarrow> heap option" where
  "compact_loop ptr h =
     (case ptr of
        None \<Rightarrow> Some h
      | Some p \<Rightarrow>
          Option.bind (scan_run p (next_blk h p) h) (\<lambda>prev.
          Option.bind (if prev \<noteq> p
             then (let h1 = set_size p (addr_of h prev - addr_of h p + size_of h prev) h;
                       nxt = next_blk h1 prev
                   in map_option (set_next p nxt) (release_blocks (next_blk h1 p) nxt h1))
             else Some h) (\<lambda>h2. compact_loop (next_blk h2 p) h2)))"

definition compact :: "heap \<Rightarrow> heap option" where
  "compact h = compact_loop (h_free h) h"

section \<open>The operations\<close>

text \<open>\<open>sizeof(Heap)\<close> is 16, \<open>sizeof(Block)\<close> is 12.\<close>

fun init_blocks :: "nat \<Rightarrow> nat \<Rightarrow> heap \<Rightarrow> heap" where
  "init_blocks 0 b h = set_next b None h"
| "init_blocks (Suc i) b h = init_blocks i (Suc b) (set_next b (Some (Suc b)) h)"

definition malloc_init :: "u32 \<Rightarrow> u32 \<Rightarrow> u32 \<Rightarrow> u32 \<Rightarrow> u32 \<Rightarrow> (nat \<Rightarrow> block) \<Rightarrow> heap" where
  "malloc_init base limit blocks thresh alignment garbage =
     init_blocks (unat (blocks - 1)) 0
       \<lparr>h_free = None, h_used = None, h_fresh = Some 0, h_top = base + 16 + 12 * blocks, h_blk = garbage,
        h_limit = limit, h_thresh = thresh, h_align = alignment, h_max = blocks\<rparr>"

text \<open>The block of an address in the list of used blocks, with its predecessor.\<close>

partial_function (option) find_used :: "u32 \<Rightarrow> nat option \<Rightarrow> nat option \<Rightarrow> heap \<Rightarrow> (nat option \<times> nat) option option" where
  "find_used a prev ptr h =
     (case ptr of
        None \<Rightarrow> Some None
      | Some b \<Rightarrow> if a = addr_of h b then Some (Some (prev, b)) else find_used a (Some b) (next_blk h b) h)"

definition free :: "u32 \<Rightarrow> heap \<Rightarrow> (bool \<times> heap) option" where
  "free a h =
     Option.bind (find_used a None (h_used h) h) (\<lambda>r.
       case r of
         None \<Rightarrow> Some (False, h)
       | Some (prev, b) \<Rightarrow>
           let h1 = (case prev of Some q \<Rightarrow> set_next q (next_blk h b) h | None \<Rightarrow> h\<lparr>h_used := next_blk h b\<rparr>)
           in map_option (Pair True) (Option.bind (insert_block b h1) compact))"

text \<open>The first block of the free list that fits, or that lies at the top and can grow.\<close>

definition is_top :: "u32 \<Rightarrow> nat \<Rightarrow> heap \<Rightarrow> bool" where
  "is_top num p h \<longleftrightarrow> addr_of h p + size_of h p \<ge> h_top h \<and> addr_of h p + num \<le> h_limit h"

partial_function (option) find_fit :: "u32 \<Rightarrow> nat option \<Rightarrow> nat option \<Rightarrow> heap \<Rightarrow> (nat option \<times> nat) option option" where
  "find_fit num prev ptr h =
     (case ptr of
        None \<Rightarrow> Some None
      | Some p \<Rightarrow> if is_top num p h \<or> num \<le> size_of h p then Some (Some (prev, p))
                  else find_fit num (Some p) (next_blk h p) h)"

definition take_block :: "u32 \<Rightarrow> nat option \<Rightarrow> nat \<Rightarrow> heap \<Rightarrow> heap option" where
  "take_block num prev p h =
     (let h1 = (case prev of Some q \<Rightarrow> set_next q (next_blk h p) h | None \<Rightarrow> h\<lparr>h_free := next_blk h p\<rparr>);
          h2 = (set_next p (h_used h1) h1)\<lparr>h_used := Some p\<rparr>
      in if is_top num p h then Some ((set_size p num h2)\<lparr>h_top := addr_of h p + num\<rparr>)
         else case h_fresh h2 of
                None \<Rightarrow> Some h2
              | Some f \<Rightarrow>
                  let excess = size_of h2 p - num
                  in if excess \<ge> h_thresh h2
                     then (let h3 = (set_size p num h2)\<lparr>h_fresh := next_blk h2 f\<rparr>;
                               h4 = set_size f excess (set_addr f (addr_of h p + num) h3)
                           in Option.bind (insert_block f h4) compact)
                     else Some h2)"

definition align_up :: "u32 \<Rightarrow> u32 \<Rightarrow> u32" where
  "align_up alignment num = (num + alignment - 1) AND - alignment"

definition alloc_block :: "u32 \<Rightarrow> heap \<Rightarrow> (nat option \<times> heap) option" where
  "alloc_block num0 h =
     (let num = align_up (h_align h) num0
      in Option.bind (find_fit num None (h_free h) h) (\<lambda>r.
           case r of
             Some (prev, p) \<Rightarrow> map_option (Pair (Some p)) (take_block num prev p h)
           | None \<Rightarrow>
               let new_top = h_top h + num
               in (case h_fresh h of
                     None \<Rightarrow> Some (None, h)
                   | Some f \<Rightarrow>
                       if new_top \<le> h_limit h
                       then Some (Some f, (upd_blk f (\<lambda>b. b\<lparr>b_addr := h_top h, b_next := h_used h, b_size := num\<rparr>) h)
                              \<lparr>h_fresh := next_blk h f, h_used := Some f, h_top := new_top\<rparr>)
                       else Some (None, h))))"

definition malloc :: "u32 \<Rightarrow> heap \<Rightarrow> (u32 \<times> heap) option" where
  "malloc num h = map_option (\<lambda>(p, h'). (case p of None \<Rightarrow> 0 | Some b \<Rightarrow> addr_of h' b, h')) (alloc_block num h)"

fun clear_words :: "nat \<Rightarrow> mem \<Rightarrow> u32 \<Rightarrow> mem \<times> u32" where
  "clear_words 0 m p = (m, p)"
| "clear_words (Suc n) m p = clear_words n (wr32 m p 0) (p + 4)"

fun clear_bytes :: "nat \<Rightarrow> mem \<Rightarrow> u32 \<Rightarrow> mem" where
  "clear_bytes 0 m p = m"
| "clear_bytes (Suc n) m p = clear_bytes n (m(p := 0)) (p + 1)"

definition memclear :: "mem \<Rightarrow> u32 \<Rightarrow> u32 \<Rightarrow> mem" where
  "memclear m p num =
     (let (m1, p1) = clear_words (unat ((num AND - 4) div 4)) m p in clear_bytes (unat (num AND 3)) m1 p1)"

definition calloc :: "u32 \<Rightarrow> u32 \<Rightarrow> heap \<times> mem \<Rightarrow> (u32 \<times> heap \<times> mem) option" where
  "calloc num sz s =
     map_option (\<lambda>(p, h'). case p of
         None \<Rightarrow> (0, h', snd s)
       | Some b \<Rightarrow> (addr_of h' b, h', memclear (snd s) (addr_of h' b) (num * sz)))
       (alloc_block (num * sz) (fst s))"

partial_function (option) count_blocks :: "nat option \<Rightarrow> u32 \<Rightarrow> heap \<Rightarrow> u32 option" where
  "count_blocks ptr num h =
     (case ptr of None \<Rightarrow> Some num | Some p \<Rightarrow> count_blocks (next_blk h p) (num + 1) h)"

definition malloc_num_free :: "heap \<Rightarrow> u32 option" where
  "malloc_num_free h = count_blocks (h_free h) 0 h"

definition malloc_num_used :: "heap \<Rightarrow> u32 option" where
  "malloc_num_used h = count_blocks (h_used h) 0 h"

definition malloc_num_fresh :: "heap \<Rightarrow> u32 option" where
  "malloc_num_fresh h = count_blocks (h_fresh h) 0 h"

definition malloc_check :: "heap \<Rightarrow> bool option" where
  "malloc_check h =
     (case (malloc_num_free h, malloc_num_used h, malloc_num_fresh h) of
        (Some a, Some b, Some c) \<Rightarrow> Some (h_max h = a + b + c)
      | _ \<Rightarrow> None)"


section \<open>Linked lists of blocks\<close>

text \<open>\<open>lseg f p xs q\<close>: following \<open>f\<close> from \<open>p\<close> passes \<open>xs\<close> and arrives at \<open>q\<close>.\<close>

fun lseg :: "(nat \<Rightarrow> nat option) \<Rightarrow> nat option \<Rightarrow> nat list \<Rightarrow> nat option \<Rightarrow> bool" where
  "lseg f p [] q \<longleftrightarrow> p = q"
| "lseg f p (x # xs) q \<longleftrightarrow> p = Some x \<and> lseg f (f x) xs q"

lemma lseg_append: "lseg f p (xs @ ys) q \<longleftrightarrow> (\<exists>r. lseg f p xs r \<and> lseg f r ys q)"
  by (induction xs arbitrary: p) auto

lemma lseg_cong: "(\<And>x. x \<in> set xs \<Longrightarrow> f x = g x) \<Longrightarrow> lseg f p xs q = lseg g p xs q"
  by (induction xs arbitrary: p) auto

lemma lseg_upd [simp]: "x \<notin> set xs \<Longrightarrow> lseg (f(x := v)) p xs q = lseg f p xs q"
  by (rule lseg_cong) auto

lemma lseg_None_Nil [simp]: "lseg f None xs None \<longleftrightarrow> xs = []"
  by (cases xs) auto

lemma lseg_Some:
  assumes "lseg f (Some x) xs None"
  obtains ys where "xs = x # ys" "lseg f (f x) ys None"
  using assms by (cases xs) auto

text \<open>Redirecting the end of a segment: the head pointer if it is empty, its last link otherwise.\<close>

lemma lseg_relink:
  assumes "lseg f p xs r" "distinct xs"
  shows "xs \<noteq> [] \<Longrightarrow> lseg (f(last xs := q)) p xs q"
  using assms
proof (induction xs arbitrary: p)
  case Nil
  then show ?case by simp
next
  case (Cons x xs)
  then show ?case by (cases "xs = []") auto
qed

definition last_opt :: "nat list \<Rightarrow> nat option" where
  "last_opt xs = (if xs = [] then None else Some (last xs))"

lemma last_opt_simps [simp]: "last_opt [] = None" "last_opt (xs @ [x]) = Some x"
  by (simp_all add: last_opt_def)

section \<open>The invariant\<close>

definition bytes :: "heap \<Rightarrow> nat \<Rightarrow> nat set" where
  "bytes h i = {unat (addr_of h i) ..< unat (addr_of h i) + unat (size_of h i)}"

definition chains :: "heap \<Rightarrow> nat list \<Rightarrow> nat list \<Rightarrow> nat list \<Rightarrow> bool" where
  "chains h fs us rs \<longleftrightarrow>
     lseg (next_blk h) (h_free h) fs None \<and> lseg (next_blk h) (h_used h) us None \<and>
     lseg (next_blk h) (h_fresh h) rs None \<and> distinct (fs @ us @ rs)"

definition blocks_ok :: "nat \<Rightarrow> heap \<Rightarrow> nat set \<Rightarrow> bool" where
  "blocks_ok lo h X \<longleftrightarrow>
     (\<forall>i \<in> X. size_of h i \<noteq> 0 \<and> bytes h i \<subseteq> {lo ..< unat (h_top h)}) \<and>
     (\<forall>i \<in> X. \<forall>j \<in> X. i \<noteq> j \<longrightarrow> bytes h i \<inter> bytes h j = {})"

definition by_addr :: "heap \<Rightarrow> nat list \<Rightarrow> bool" where
  "by_addr h fs \<longleftrightarrow> sorted_wrt (\<lambda>i j. addr_of h i < addr_of h j) fs"

definition heap_inv :: "nat \<Rightarrow> heap \<Rightarrow> nat list \<Rightarrow> nat list \<Rightarrow> nat list \<Rightarrow> bool" where
  "heap_inv lo h fs us rs \<longleftrightarrow>
     chains h fs us rs \<and> length (fs @ us @ rs) = unat (h_max h) \<and>
     by_addr h fs \<and> blocks_ok lo h (set fs \<union> set us) \<and>
     0 < lo \<and> lo \<le> unat (h_top h) \<and> h_top h \<le> h_limit h \<and> unat (h_limit h) \<le> 2 ^ 31 \<and>
     h_thresh h \<noteq> 0"

text \<open>What an operation on the free list leaves alone: the blocks of \<open>X\<close> and the globals.\<close>

definition same_on :: "nat set \<Rightarrow> heap \<Rightarrow> heap \<Rightarrow> bool" where
  "same_on X h h' \<longleftrightarrow> (\<forall>i \<in> X. h_blk h' i = h_blk h i) \<and> h_used h' = h_used h \<and> h_top h' = h_top h \<and>
     h_limit h' = h_limit h \<and> h_thresh h' = h_thresh h \<and> h_align h' = h_align h \<and> h_max h' = h_max h"

lemma same_on_refl: "same_on X h h"
  by (simp add: same_on_def)

lemma same_on_trans: "same_on X h h' \<Longrightarrow> same_on Y h' h'' \<Longrightarrow> same_on (X \<inter> Y) h h''"
  by (auto simp: same_on_def)

section \<open>Insertion\<close>

lemma find_place_split:
  assumes "lseg (next_blk h) ptr fs None"
  shows "find_place a prev ptr h =
    Some (case last_opt (takeWhile (\<lambda>i. addr_of h i < a) fs) of None \<Rightarrow> prev | Some q \<Rightarrow> Some q,
      case dropWhile (\<lambda>i. addr_of h i < a) fs of [] \<Rightarrow> None | x # _ \<Rightarrow> Some x)"
  using assms
proof (induction fs arbitrary: prev ptr)
  case Nil
  then show ?case by (subst find_place.simps) simp
next
  case (Cons x fs)
  then show ?case
    by (subst find_place.simps) (auto simp: last_opt_def not_less split: option.splits)
qed

definition ins :: "heap \<Rightarrow> nat \<Rightarrow> nat list \<Rightarrow> nat list" where
  "ins h b fs = takeWhile (\<lambda>i. addr_of h i < addr_of h b) fs @ b # dropWhile (\<lambda>i. addr_of h i < addr_of h b) fs"

lemma set_ins [simp]: "set (ins h b fs) = insert b (set fs)"
proof -
  have "set (takeWhile P fs) \<union> set (dropWhile P fs) = set fs" for P
    by (metis set_append takeWhile_dropWhile_id)
  then show ?thesis by (auto simp: ins_def)
qed

lemma length_ins [simp]: "length (ins h b fs) = Suc (length fs)"
proof -
  have "length (takeWhile P fs) + length (dropWhile P fs) = length fs" for P
    by (metis length_append takeWhile_dropWhile_id)
  then show ?thesis by (simp add: ins_def)
qed

lemma distinct_ins: "distinct fs \<Longrightarrow> b \<notin> set fs \<Longrightarrow> distinct (ins h b fs)"
proof -
  assume d: "distinct fs" "b \<notin> set fs"
  have "set (takeWhile P fs) \<inter> set (dropWhile P fs) = {}" for P
    by (metis d(1) distinct_append takeWhile_dropWhile_id)
  then show ?thesis using d unfolding ins_def by (auto dest: set_takeWhileD set_dropWhileD)
qed

lemma by_addr_ins:
  assumes "by_addr h fs" "\<And>i. i \<in> set fs \<Longrightarrow> addr_of h i \<noteq> addr_of h b"
  shows "by_addr h (ins h b fs)"
  using assms
proof (induction fs)
  case Nil
  then show ?case by (simp add: by_addr_def ins_def)
next
  case (Cons x fs)
  show ?case
  proof (cases "addr_of h x < addr_of h b")
    case True
    then have "ins h b (x # fs) = x # ins h b fs" by (simp add: ins_def)
    then show ?thesis using Cons True by (auto simp: by_addr_def)
  next
    case False
    then have "addr_of h b < addr_of h x" using Cons.prems(2) [of x] by auto
    with False show ?thesis using Cons.prems(1) by (auto simp: by_addr_def ins_def intro: less_trans)
  qed
qed

lemma insert_block_spec:
  assumes c: "lseg (next_blk h) (h_free h) fs None" "distinct fs" "b \<notin> set fs"
  shows "\<exists>h'. insert_block b h = Some h' \<and> lseg (next_blk h') (h_free h') (ins h b fs) None \<and>
    h_fresh h' = h_fresh h \<and> same_on (- insert b (set fs)) h h' \<and>
    (\<forall>i. addr_of h' i = addr_of h i \<and> size_of h' i = size_of h i)"
proof -
  define xs where "xs = takeWhile (\<lambda>i. addr_of h i < addr_of h b) fs"
  define ys where "ys = dropWhile (\<lambda>i. addr_of h i < addr_of h b) fs"
  define ptr where "ptr = (case ys of [] \<Rightarrow> None | x # _ \<Rightarrow> Some x)"
  have fs: "fs = xs @ ys" by (simp add: xs_def ys_def)
  have i: "ins h b fs = xs @ b # ys" by (simp add: ins_def xs_def ys_def)
  obtain r where r: "lseg (next_blk h) (h_free h) xs r" "lseg (next_blk h) r ys None"
    using c(1) by (auto simp: fs lseg_append)
  have ry: "r = ptr" using r(2) by (cases ys) (auto simp: ptr_def)
  have fp: "find_place (addr_of h b) None (h_free h) h = Some (last_opt xs, ptr)"
    using find_place_split [OF c(1)] by (auto simp: xs_def ys_def ptr_def split: option.splits)
  have d: "b \<notin> set xs" "b \<notin> set ys" "distinct xs" "set xs \<inter> set ys = {}" using c(2,3) by (auto simp: fs)
  show ?thesis
  proof (cases "xs = []")
    case True
    define h' where "h' = set_next b ptr (h\<lparr>h_free := Some b\<rparr>)"
    have e: "insert_block b h = Some h'" using fp True by (simp add: insert_block_def h'_def)
    have n: "next_blk h' = (next_blk h)(b := ptr)" by (auto simp: h'_def upd_defs)
    have "lseg (next_blk h') (h_free h') (ins h b fs) None"
      using r(2) d True unfolding i n by (simp add: h'_def upd_defs ry)
    then show ?thesis using e by (auto simp: h'_def upd_defs same_on_def)
  next
    case False
    define h' where "h' = set_next b ptr (set_next (last xs) (Some b) h)"
    have e: "insert_block b h = Some h'" using fp False by (simp add: insert_block_def h'_def last_opt_def)
    have l: "last xs \<in> set xs" using False by simp
    then have n: "next_blk h' = (next_blk h)(last xs := Some b, b := ptr)" by (auto simp: h'_def upd_defs)
    have "lseg ((next_blk h)(last xs := Some b)) (h_free h) xs (Some b)"
      using lseg_relink [OF r(1) d(3) False] .
    moreover have "last xs \<notin> set ys" using l d(4) by auto
    ultimately have "lseg (next_blk h') (h_free h') (ins h b fs) None"
      using r(2) d unfolding i n lseg_append by (intro exI [of _ "Some b"]) (simp add: h'_def upd_defs ry)
    then show ?thesis using e l by (auto simp: h'_def upd_defs same_on_def fs)
  qed
qed

section \<open>Compaction\<close>

definition tidy :: "heap \<Rightarrow> nat list \<Rightarrow> bool" where
  "tidy h fs \<longleftrightarrow> by_addr h fs \<and>
     (\<forall>i \<in> set fs. size_of h i \<noteq> 0 \<and> unat (addr_of h i) + unat (size_of h i) < 2 ^ 32) \<and>
     (\<forall>i \<in> set fs. \<forall>j \<in> set fs. i \<noteq> j \<longrightarrow> bytes h i \<inter> bytes h j = {})"

fun adjacent :: "heap \<Rightarrow> nat list \<Rightarrow> bool" where
  "adjacent h (x # y # ys) \<longleftrightarrow> addr_of h x + size_of h x = addr_of h y \<and> adjacent h (y # ys)"
| "adjacent h xs \<longleftrightarrow> True"

lemma scan_run_spec:
  assumes "lseg (next_blk h) q ys None"
  shows "\<exists>zs ws. ys = zs @ ws \<and> scan_run p q h = Some (last (p # zs)) \<and> adjacent h (p # zs)"
  using assms
proof (induction ys arbitrary: p q)
  case Nil
  then show ?case by (subst scan_run.simps) simp
next
  case (Cons y ys)
  then have q: "q = Some y" "lseg (next_blk h) (next_blk h y) ys None" by auto
  show ?case
  proof (cases "addr_of h p + size_of h p = addr_of h y")
    case True
    from Cons.IH [OF q(2), of y] obtain zs ws where
      "ys = zs @ ws" "scan_run y (next_blk h y) h = Some (last (y # zs))" "adjacent h (y # zs)" by blast
    then show ?thesis using True q(1)
      by (intro exI [of _ "y # zs"] exI [of _ ws]) (subst scan_run.simps, simp)
  next
    case False
    then show ?thesis using q(1) by (intro exI [of _ "[]"] exI [of _ "y # ys"]) (subst scan_run.simps, simp)
  qed
qed

lemma release_blocks_spec:
  assumes "lseg (next_blk h) p zs q" "\<And>x. x \<in> set zs \<Longrightarrow> q \<noteq> Some x" "distinct (zs @ rs)"
    "lseg (next_blk h) (h_fresh h) rs None"
  shows "\<exists>h'. release_blocks p q h = Some h' \<and> lseg (next_blk h') (h_fresh h') (rev zs @ rs) None \<and>
    same_on (- set zs) h h' \<and> h_free h' = h_free h"
  using assms
proof (induction zs arbitrary: p h rs)
  case Nil
  then show ?case by (subst release_blocks.simps) (auto simp: same_on_refl)
next
  case (Cons z zs)
  define h2 where "h2 = set_size z 0 (set_addr z 0 ((set_next z (h_fresh h) h)\<lparr>h_fresh := Some z\<rparr>))"
  have n: "next_blk h2 = (next_blk h)(z := h_fresh h)" by (auto simp: h2_def upd_defs)
  have p: "p = Some z" "lseg (next_blk h) (next_blk h z) zs q" using Cons.prems(1) by auto
  have d: "z \<notin> set zs" "z \<notin> set rs" using Cons.prems(3) by auto
  have step: "release_blocks p q h = release_blocks (next_blk h z) q h2"
    using Cons.prems(2) [of z] p(1) by (subst release_blocks.simps) (simp add: h2_def Let_def)
  have "lseg (next_blk h2) (next_blk h z) zs q" using p(2) d(1) by (simp add: n)
  moreover have "lseg (next_blk h2) (h_fresh h2) (z # rs) None"
    using Cons.prems(4) d(2) unfolding n by (simp add: h2_def upd_defs)
  moreover have "distinct (zs @ z # rs)" using Cons.prems(3) by simp
  ultimately obtain h' where h': "release_blocks (next_blk h z) q h2 = Some h'"
    "lseg (next_blk h') (h_fresh h') (rev zs @ z # rs) None" "same_on (- set zs) h2 h'" "h_free h' = h_free h2"
    using Cons.IH [of h2 "next_blk h z" "z # rs"] Cons.prems(2) by auto
  have "same_on (- {z}) h h2" by (auto simp: h2_def upd_defs same_on_def)
  from same_on_trans [OF this h'(3)] have "same_on (- set (z # zs)) h h'" by (auto simp: same_on_def)
  moreover have "h_free h2 = h_free h" by (simp add: h2_def upd_defs)
  ultimately show ?case using step h' by auto
qed

lemma unat_add_32:
  fixes a b :: u32
  assumes "unat a + unat b < 2 ^ 32"
  shows "unat (a + b) = unat a + unat b"
  using assms by (simp add: unat_word_ariths)

text \<open>A run of adjacent blocks covers one interval, whose size the code computes.\<close>

lemma adjacent_bytes:
  assumes "adjacent h (p # zs)"
    "\<And>i. i \<in> set (p # zs) \<Longrightarrow> size_of h i \<noteq> 0 \<and> unat (addr_of h i) + unat (size_of h i) < 2 ^ 32"
  shows "(\<Union>i \<in> set (p # zs). bytes h i) =
      {unat (addr_of h p) ..< unat (addr_of h (last (p # zs))) + unat (size_of h (last (p # zs)))} \<and>
    unat (addr_of h p) < unat (addr_of h (last (p # zs))) + unat (size_of h (last (p # zs)))"
  using assms
proof (induction zs arbitrary: p)
  case Nil
  then show ?case by (auto simp: bytes_def unat_gt_0)
next
  case (Cons z zs)
  have IH: "(\<Union>i \<in> set (z # zs). bytes h i) =
      {unat (addr_of h z) ..< unat (addr_of h (last (z # zs))) + unat (size_of h (last (z # zs)))} \<and>
    unat (addr_of h z) < unat (addr_of h (last (z # zs))) + unat (size_of h (last (z # zs)))"
    using Cons.prems by (intro Cons.IH) auto
  have "addr_of h p + size_of h p = addr_of h z" using Cons.prems(1) by simp
  moreover have "unat (addr_of h p) + unat (size_of h p) < 2 ^ 32" using Cons.prems(2) by auto
  ultimately have a: "unat (addr_of h z) = unat (addr_of h p) + unat (size_of h p)"
    using unat_add_32 by metis
  have "(\<Union>i \<in> set (p # z # zs). bytes h i) = bytes h p \<union> (\<Union>i \<in> set (z # zs). bytes h i)" by simp
  then show ?case using IH a by (auto simp: bytes_def)
qed

lemma merged_size:
  fixes a b s :: u32
  assumes "unat b + unat s < 2 ^ 32" "unat a < unat b + unat s"
  shows "unat a + unat (b - a + s) = unat b + unat s" "b - a + s \<noteq> 0"
proof -
  have e: "b - a + s = (b + s) - a" by simp
  have u: "unat (b + s) = unat b + unat s" using unat_add_32 [OF assms(1)] .
  have "a \<le> b + s" using assms u by (simp add: word_le_nat_alt)
  then have "unat (b - a + s) = unat b + unat s - unat a" unfolding e by (simp add: unat_sub u)
  then show "unat a + unat (b - a + s) = unat b + unat s" "b - a + s \<noteq> 0"
    using assms(2) by (auto simp flip: unat_eq_0)
qed

definition compacted :: "heap \<Rightarrow> nat list \<Rightarrow> nat list \<Rightarrow> heap \<Rightarrow> nat list \<Rightarrow> nat list \<Rightarrow> bool" where
  "compacted h fs rs h' fs' rs' \<longleftrightarrow>
     lseg (next_blk h') (h_fresh h') rs' None \<and> distinct (fs' @ rs') \<and>
     set fs' \<union> set rs' = set fs \<union> set rs \<and> set fs' \<subseteq> set fs \<and>
     (\<forall>j \<in> set fs'. addr_of h' j = addr_of h j \<and> size_of h' j \<noteq> 0) \<and>
     (\<Union>i \<in> set fs'. bytes h' i) = (\<Union>i \<in> set fs. bytes h i) \<and>
     (\<forall>i \<in> set fs'. \<forall>j \<in> set fs'. i \<noteq> j \<longrightarrow> bytes h' i \<inter> bytes h' j = {}) \<and>
     same_on (- set fs) h h' \<and> h_free h' = h_free h"

lemma tidy_append:
  "tidy h (xs @ ys) \<Longrightarrow> tidy h xs \<and> tidy h ys"
  by (auto simp: tidy_def by_addr_def sorted_wrt_append)

lemma tidy_cong:
  "(\<And>i. i \<in> set fs \<Longrightarrow> h_blk h' i = h_blk h i) \<Longrightarrow> tidy h' fs = tidy h fs"
proof -
  assume e: "\<And>i. i \<in> set fs \<Longrightarrow> h_blk h' i = h_blk h i"
  have "by_addr h' fs = by_addr h fs" unfolding by_addr_def
    using e by (intro iffI) (auto elim!: sorted_wrt_mono_rel [rotated])
  then show ?thesis using e by (auto simp: tidy_def bytes_def)
qed

text \<open>One round of the outer loop merges the run that starts at \<open>p\<close>.\<close>

lemma compact_round:
  assumes l: "lseg (next_blk h) (Some p) (p # zs @ ws) None" and r: "lseg (next_blk h) (h_fresh h) rs None"
    and d: "distinct ((p # zs @ ws) @ rs)" and t: "tidy h (p # zs @ ws)"
    and run: "adjacent h (p # zs)" and prev: "prev = last (p # zs)"
  shows "\<exists>h2. (if prev \<noteq> p
             then (let h1 = set_size p (addr_of h prev - addr_of h p + size_of h prev) h;
                       nxt = next_blk h1 prev
                   in map_option (set_next p nxt) (release_blocks (next_blk h1 p) nxt h1))
             else Some h) = Some h2 \<and>
    lseg (next_blk h2) (next_blk h2 p) ws None \<and> lseg (next_blk h2) (h_fresh h2) (rev zs @ rs) None \<and>
    same_on (- set (p # zs)) h h2 \<and> h_free h2 = h_free h \<and> addr_of h2 p = addr_of h p \<and> size_of h2 p \<noteq> 0 \<and>
    bytes h2 p = (\<Union>i \<in> set (p # zs). bytes h i)"
proof (cases "zs = []")
  case True
  then show ?thesis using l r t prev by (auto simp: same_on_refl tidy_def)
next
  case False
  have pz: "prev \<noteq> p" "prev \<in> set zs" using d prev False by auto
  define h1 where "h1 = set_size p (addr_of h prev - addr_of h p + size_of h prev) h"
  have n1: "next_blk h1 = next_blk h" and n1': "next_blk h1 x = next_blk h x" for x by (auto simp: h1_def upd_defs)
  obtain q where q: "lseg (next_blk h) (next_blk h p) zs q" "lseg (next_blk h) q ws None"
    using l by (auto simp: lseg_append)
  have lastq: "next_blk h (last xs) = q" if "lseg (next_blk h) a xs q" "xs \<noteq> []" for a xs
    using that by (induction xs arbitrary: a) auto
  have nq: "next_blk h prev = q" using lastq [OF q(1)] False prev by auto
  have qz: "q \<noteq> Some x" if "x \<in> set zs" for x
  proof
    assume "q = Some x"
    then have "x \<in> set ws" using q(2) by (cases ws) auto
    then show False using that d by auto
  qed
  have f1: "h_fresh h1 = h_fresh h" "h_free h1 = h_free h" by (simp_all add: h1_def upd_defs)
  obtain h' where h': "release_blocks (next_blk h1 p) q h1 = Some h'"
    "lseg (next_blk h') (h_fresh h') (rev zs @ rs) None" "same_on (- set zs) h1 h'" "h_free h' = h_free h1"
    using release_blocks_spec [of h1 "next_blk h1 p" zs q rs] q(1) qz d r by (auto simp: n1 n1' f1)
  define h2 where "h2 = set_next p q h'"
  have n2: "next_blk h2 = (next_blk h')(p := q)" and n2': "next_blk h2 x = (if x = p then q else next_blk h' x)" for x
    by (auto simp: h2_def upd_defs)
  have nw: "next_blk h' x = next_blk h x" if "x \<notin> set zs" for x
    using h'(3) that by (auto simp: same_on_def simp: n1')
  have wz: "x \<notin> set zs" if "x \<in> set ws" for x using d that by auto
  have "lseg (next_blk h2) q ws None = lseg (next_blk h) q ws None"
    by (intro lseg_cong) (use d in \<open>simp add: n2' nw wz; blast\<close>)
  then have w: "lseg (next_blk h2) (next_blk h2 p) ws None" using q(2) by (simp add: n2')
  have rr: "lseg (next_blk h2) (h_fresh h2) (rev zs @ rs) None"
    using h'(2) d unfolding n2 by (simp add: h2_def upd_defs)
  have p2: "addr_of h2 p = addr_of h p" "size_of h2 p = addr_of h prev - addr_of h p + size_of h prev"
    using h'(3) d by (auto simp: h2_def upd_defs h1_def same_on_def)
  have "\<And>i. i \<in> set (p # zs) \<Longrightarrow> size_of h i \<noteq> 0 \<and> unat (addr_of h i) + unat (size_of h i) < 2 ^ 32"
    using t by (auto simp: tidy_def)
  note ab = adjacent_bytes [OF run this, folded prev]
  have no: "unat (addr_of h prev) + unat (size_of h prev) < 2 ^ 32" using t pz(2) by (auto simp: tidy_def)
  note ms = merged_size [OF no conjunct2 [OF ab]]
  have b: "bytes h2 p = (\<Union>i \<in> set (p # zs). bytes h i)"
    using ab ms by (simp add: bytes_def p2)
  have same: "same_on (- set (p # zs)) h h2"
    using h'(3) by (auto simp: same_on_def h2_def h1_def upd_defs)
  have "(let h1 = set_size p (addr_of h prev - addr_of h p + size_of h prev) h;
                       nxt = next_blk h1 prev
                   in map_option (set_next p nxt) (release_blocks (next_blk h1 p) nxt h1)) = Some h2"
    using h'(1) unfolding h1_def [symmetric] Let_def by (simp add: n1' nq h2_def)
  then show ?thesis using pz(1) w rr same b p2 ms(2) f1 h'(4) by (auto simp: h2_def upd_defs)
qed

lemma compact_loop_spec:
  assumes "lseg (next_blk h) ptr fs None" "lseg (next_blk h) (h_fresh h) rs None" "distinct (fs @ rs)" "tidy h fs"
  shows "\<exists>h' fs' rs'. compact_loop ptr h = Some h' \<and> lseg (next_blk h') ptr fs' None \<and> compacted h fs rs h' fs' rs' \<and>
    by_addr h' fs'"
  using assms
proof (induction "length fs" arbitrary: ptr fs rs h rule: less_induct)
  case less
  show ?case
  proof (cases fs)
    case Nil
    then show ?thesis using less.prems
      by (intro exI [of _ h] exI [of _ "[]"] exI [of _ rs], subst compact_loop.simps)
        (auto simp: compacted_def same_on_refl by_addr_def)
  next
    case (Cons p ys)
    then have ptr: "ptr = Some p" "lseg (next_blk h) (next_blk h p) ys None" using less.prems(1) by auto
    obtain zs ws where zw: "ys = zs @ ws" "scan_run p (next_blk h p) h = Some (last (p # zs))" "adjacent h (p # zs)"
      using scan_run_spec [OF ptr(2)] by blast
    have fs: "fs = p # zs @ ws" by (simp add: Cons zw)
    have d: "distinct ((p # zs @ ws) @ rs)" and t: "tidy h (p # zs @ ws)"
      and lp: "lseg (next_blk h) (Some p) (p # zs @ ws) None"
      using less.prems by (simp_all add: fs ptr)
    obtain h2 where h2: "(if last (p # zs) \<noteq> p
             then (let h1 = set_size p (addr_of h (last (p # zs)) - addr_of h p + size_of h (last (p # zs))) h;
                       nxt = next_blk h1 (last (p # zs))
                   in map_option (set_next p nxt) (release_blocks (next_blk h1 p) nxt h1))
             else Some h) = Some h2"
      "lseg (next_blk h2) (next_blk h2 p) ws None" "lseg (next_blk h2) (h_fresh h2) (rev zs @ rs) None"
      "same_on (- set (p # zs)) h h2" "h_free h2 = h_free h" "addr_of h2 p = addr_of h p" "size_of h2 p \<noteq> 0"
      "bytes h2 p = (\<Union>i \<in> set (p # zs). bytes h i)"
      using compact_round [OF lp less.prems(2) d t zw(3) refl] by blast
    have step: "compact_loop ptr h = compact_loop (next_blk h2 p) h2"
      by (subst compact_loop.simps) (simp only: ptr(1) option.case zw(2) bind.bind_lunit h2(1))
    have sw: "h_blk h2 i = h_blk h i" if "i \<in> set ws" for i
      using h2(4) d that by (auto simp: same_on_def)
    have "tidy h ws" using tidy_append [of h "p # zs" ws] t by simp
    then have tw: "tidy h2 ws" using tidy_cong [of ws h2 h] sw by simp
    have "length ws < length fs" by (simp add: fs)
    have dw: "distinct (ws @ rev zs @ rs)" using d by (simp, blast)
    from less.hyps [OF \<open>length ws < length fs\<close> h2(2,3) dw tw] obtain h' ws' rs' where
      h': "compact_loop (next_blk h2 p) h2 = Some h'" "lseg (next_blk h') (next_blk h2 p) ws' None"
      "compacted h2 ws (rev zs @ rs) h' ws' rs'" "by_addr h' ws'" by blast
    have same: "same_on (- set ws) h2 h'" and sub: "set ws' \<subseteq> set ws" using h'(3) by (auto simp: compacted_def)
    have pp: "h_blk h' p = h_blk h2 p" using same d by (auto simp: same_on_def)
    have pw: "p \<notin> set ws'" using sub d by auto
    have l': "lseg (next_blk h') ptr (p # ws') None" using h'(2) by (simp add: ptr pp)
    have bp: "bytes h' p = (\<Union>i \<in> set (p # zs). bytes h i)" using h2(8) pp by (simp add: bytes_def)
    have bw: "(\<Union>i \<in> set ws'. bytes h' i) = (\<Union>i \<in> set ws. bytes h i)"
    proof -
      have "(\<Union>i \<in> set ws. bytes h2 i) = (\<Union>i \<in> set ws. bytes h i)" using sw by (simp add: bytes_def)
      then show ?thesis using h'(3) unfolding compacted_def by metis
    qed
    have aw: "addr_of h' j = addr_of h j" if "j \<in> set ws'" for j
      using h'(3) sw sub that by (auto simp: compacted_def)
    have zd: "bytes h i \<inter> bytes h j = {}" if "i \<in> set (p # zs)" "j \<in> set ws" for i j
      using t d that by (fastforce simp: tidy_def)
    have pd: "bytes h' p \<inter> bytes h' j = {}" if "j \<in> set ws'" for j
      using bp bw zd that by blast
    have "compacted h fs rs h' (p # ws') rs'"
    proof -
      have set': "set (p # ws') \<union> set rs' = set fs \<union> set rs" and dist: "distinct ((p # ws') @ rs')"
        using h'(3) d pw sub by (auto simp: compacted_def fs)
      have same': "same_on (- set fs) h h'"
        using same_on_trans [OF h2(4) same] by (auto simp: same_on_def fs)
      have un: "(\<Union>i \<in> set (p # ws'). bytes h' i) = (\<Union>i \<in> set fs. bytes h i)"
        using bp bw by (auto simp: fs)
      have dj: "\<forall>i \<in> set (p # ws'). \<forall>j \<in> set (p # ws'). i \<noteq> j \<longrightarrow> bytes h' i \<inter> bytes h' j = {}"
        using h'(3) pd by (auto simp: compacted_def)
      have at: "\<forall>j \<in> set (p # ws'). addr_of h' j = addr_of h j \<and> size_of h' j \<noteq> 0"
        using h'(3) aw h2(6,7) pp by (auto simp: compacted_def)
      show ?thesis
        unfolding compacted_def using h'(3) set' dist same' un dj at sub h2(5) by (auto simp: compacted_def fs)
    qed
    moreover have "by_addr h' (p # ws')"
      using h'(4) t aw h2(6) pp sub by (auto simp: by_addr_def tidy_def sorted_wrt_append)
    ultimately show ?thesis using step h'(1) l' by (intro exI [of _ h'] exI [of _ "p # ws'"] exI [of _ rs']) simp
  qed
qed

lemma same_onD: "same_on X h h' \<Longrightarrow> i \<in> X \<Longrightarrow> h_blk h' i = h_blk h i"
  by (simp add: same_on_def)

text \<open>Insertion and compaction together, as \<open>free\<close> and the split of \<open>malloc\<close> use them.\<close>

definition freed :: "heap \<Rightarrow> nat \<Rightarrow> nat list \<Rightarrow> nat list \<Rightarrow> heap \<Rightarrow> nat list \<Rightarrow> nat list \<Rightarrow> bool" where
  "freed h b fs rs h' fs' rs' \<longleftrightarrow>
    lseg (next_blk h') (h_free h') fs' None \<and> lseg (next_blk h') (h_fresh h') rs' None \<and> by_addr h' fs' \<and>
    distinct (fs' @ rs') \<and> set fs' \<union> set rs' = insert b (set fs \<union> set rs) \<and>
    length fs' + length rs' = Suc (length fs + length rs) \<and> set fs' \<subseteq> insert b (set fs) \<and>
    (\<forall>j \<in> set fs'. size_of h' j \<noteq> 0) \<and>
    (\<Union>i \<in> set fs'. bytes h' i) = bytes h b \<union> (\<Union>i \<in> set fs. bytes h i) \<and>
    (\<forall>i \<in> set fs'. \<forall>j \<in> set fs'. i \<noteq> j \<longrightarrow> bytes h' i \<inter> bytes h' j = {}) \<and>
    same_on (- insert b (set fs)) h h'"

lemma insert_compact:
  assumes f: "lseg (next_blk h) (h_free h) fs None" and r: "lseg (next_blk h) (h_fresh h) rs None"
    and d: "distinct (fs @ rs)" and b: "b \<notin> set fs" "b \<notin> set rs" and t: "tidy h (ins h b fs)"
  shows "\<exists>h' fs' rs'. Option.bind (insert_block b h) compact = Some h' \<and>
    freed h b fs rs h' fs' rs'"
proof -
  have df: "distinct fs" using d by simp
  obtain h1 where h1: "insert_block b h = Some h1" "lseg (next_blk h1) (h_free h1) (ins h b fs) None"
    "h_fresh h1 = h_fresh h" "same_on (- insert b (set fs)) h h1"
    "\<And>i. addr_of h1 i = addr_of h i" "\<And>i. size_of h1 i = size_of h i"
    using insert_block_spec [OF f df b(1)] by blast
  have "lseg (next_blk h1) (h_fresh h1) rs None = lseg (next_blk h) (h_fresh h) rs None"
    unfolding h1(3)
  proof (rule lseg_cong)
    fix x assume "x \<in> set rs"
    then have "x \<in> - insert b (set fs)" using d b by auto
    from same_onD [OF h1(4) this] show "next_blk h1 x = next_blk h x" by simp
  qed
  then have r1: "lseg (next_blk h1) (h_fresh h1) rs None" using r by simp
  have d1: "distinct (ins h b fs @ rs)" using d b distinct_ins [OF df b(1)] by auto
  have t1: "tidy h1 (ins h b fs)" using t by (simp add: tidy_def by_addr_def bytes_def h1)
  obtain h' fs' rs' where h': "compact_loop (h_free h1) h1 = Some h'" "lseg (next_blk h') (h_free h1) fs' None"
    "compacted h1 (ins h b fs) rs h' fs' rs'" "by_addr h' fs'"
    using compact_loop_spec [OF h1(2) r1 d1 t1] by blast
  have s: "set fs' \<union> set rs' = insert b (set fs \<union> set rs)" and dd: "distinct (fs' @ rs')"
    using h'(3) by (auto simp: compacted_def)
  have "length (fs' @ rs') = card (insert b (set fs \<union> set rs))"
    using distinct_card [OF dd] s by simp
  also have "\<dots> = length (ins h b fs @ rs)" using distinct_card [OF d1] by (simp add: Un_insert_left)
  finally have l: "length fs' + length rs' = Suc (length fs + length rs)" by simp
  have same: "same_on (- insert b (set fs)) h h'"
    using same_on_trans [OF h1(4), of "- set (ins h b fs)" h'] h'(3) by (simp add: compacted_def)
  have un: "(\<Union>i \<in> set fs'. bytes h' i) = bytes h b \<union> (\<Union>i \<in> set fs. bytes h i)"
  proof -
    have "(\<Union>i \<in> set fs'. bytes h' i) = (\<Union>i \<in> insert b (set fs). bytes h1 i)"
      using h'(3) by (simp add: compacted_def)
    then show ?thesis by (simp add: bytes_def h1)
  qed
  have "Option.bind (insert_block b h) compact = Some h'" using h1(1) h'(1) by (simp add: compact_def)
  moreover have "h_free h' = h_free h1" using h'(3) by (simp add: compacted_def)
  ultimately show ?thesis
    using h' s dd l same un by (intro exI [of _ h'] exI [of _ fs'] exI [of _ rs']) (simp add: compacted_def freed_def)
qed

section \<open>\<open>free\<close>\<close>

lemma unlink:
  assumes "lseg f p (xs @ b # ys) None" "distinct (xs @ b # ys)"
  shows "xs = [] \<Longrightarrow> lseg f (f b) ys None" "xs \<noteq> [] \<Longrightarrow> lseg (f(last xs := f b)) p (xs @ ys) None"
proof -
  show "xs = [] \<Longrightarrow> lseg f (f b) ys None" using assms by simp
  assume ne: "xs \<noteq> []"
  have "lseg f p xs (Some b)" "lseg f (f b) ys None" using assms(1) by (auto simp: lseg_append)
  moreover have "last xs \<notin> set ys" using assms(2) last_in_set [OF ne] by (auto simp: disjoint_iff)
  ultimately show "lseg (f(last xs := f b)) p (xs @ ys) None"
    using lseg_relink [of f p xs "Some b" "f b"] ne assms(2) by (auto simp: lseg_append)
qed

lemma find_used_spec:
  assumes "lseg (next_blk h) p (xs @ b # ys) None" "a = addr_of h b" "\<And>x. x \<in> set xs \<Longrightarrow> addr_of h x \<noteq> a"
  shows "find_used a prev p h = Some (Some (if xs = [] then prev else Some (last xs), b))"
  using assms
proof (induction xs arbitrary: p prev)
  case Nil
  then show ?case by (subst find_used.simps) simp
next
  case (Cons x xs)
  have p: "p = Some x" "lseg (next_blk h) (next_blk h x) (xs @ b # ys) None" using Cons.prems(1) by auto
  have "addr_of h x \<noteq> a" using Cons.prems(3) by simp
  moreover have "find_used a (Some x) (next_blk h x) h = Some (Some (if xs = [] then Some x else Some (last xs), b))"
    using Cons.IH [OF p(2) Cons.prems(2)] Cons.prems(3) by simp
  ultimately show ?case using p(1) by (subst find_used.simps) auto
qed

lemma find_used_none:
  assumes "lseg (next_blk h) p us None" "\<And>x. x \<in> set us \<Longrightarrow> addr_of h x \<noteq> a"
  shows "find_used a prev p h = Some None"
  using assms
proof (induction us arbitrary: p prev)
  case Nil
  then show ?case by (subst find_used.simps) simp
next
  case (Cons x us)
  then have "p = Some x" "lseg (next_blk h) (next_blk h x) us None" "a \<noteq> addr_of h x" by auto
  with Cons.IH [of "next_blk h x" "Some x"] Cons.prems(2) show ?case by (subst find_used.simps) auto
qed

lemma chainsD:
  assumes "chains h fs us rs"
  shows "lseg (next_blk h) (h_free h) fs None" "lseg (next_blk h) (h_used h) us None"
    "lseg (next_blk h) (h_fresh h) rs None" "distinct (fs @ us @ rs)"
  using assms by (auto simp: chains_def)

lemma addr_in_bytes: "size_of h i \<noteq> 0 \<Longrightarrow> unat (addr_of h i) \<in> bytes h i"
  by (simp add: bytes_def unat_gt_0)

lemma blocks_ok_disj: "blocks_ok lo h X \<Longrightarrow> i \<in> X \<Longrightarrow> j \<in> X \<Longrightarrow> i \<noteq> j \<Longrightarrow> bytes h i \<inter> bytes h j = {}"
  by (simp add: blocks_ok_def)

lemma blocks_ok_range: "blocks_ok lo h X \<Longrightarrow> i \<in> X \<Longrightarrow> bytes h i \<subseteq> {lo ..< unat (h_top h)}"
  by (simp add: blocks_ok_def)

lemma blocks_ok_addr:
  assumes "blocks_ok lo h X" "i \<in> X" "j \<in> X" "i \<noteq> j"
  shows "addr_of h i \<noteq> addr_of h j"
proof
  assume e: "addr_of h i = addr_of h j"
  have "unat (addr_of h i) \<in> bytes h i" "unat (addr_of h j) \<in> bytes h j"
    using assms by (auto simp: blocks_ok_def intro!: addr_in_bytes)
  moreover have "bytes h i \<inter> bytes h j = {}" using assms unfolding blocks_ok_def by blast
  ultimately show False using e by (auto simp: disjoint_iff)
qed

lemma blocks_ok_end:
  assumes "blocks_ok lo h X" "i \<in> X"
  shows "unat (addr_of h i) + unat (size_of h i) \<le> unat (h_top h)" "lo \<le> unat (addr_of h i)"
    "size_of h i \<noteq> 0"
proof -
  have s: "size_of h i \<noteq> 0" "bytes h i \<subseteq> {lo ..< unat (h_top h)}" using assms by (auto simp: blocks_ok_def)
  then have "0 < unat (size_of h i)" by (simp add: unat_gt_0)
  then have "unat (addr_of h i) + unat (size_of h i) - 1 \<in> bytes h i" "unat (addr_of h i) \<in> bytes h i"
    by (auto simp: bytes_def)
  with s(2) have "unat (addr_of h i) + unat (size_of h i) - 1 < unat (h_top h)" "lo \<le> unat (addr_of h i)" by auto
  then show "unat (addr_of h i) + unat (size_of h i) \<le> unat (h_top h)" "lo \<le> unat (addr_of h i)"
    "size_of h i \<noteq> 0" using s(1) by auto
qed

lemma tidy_blocks:
  assumes "blocks_ok lo h X" "set fs \<subseteq> X" "by_addr h fs"
  shows "tidy h fs"
proof -
  have "unat (addr_of h i) + unat (size_of h i) < 2 ^ 32" if "i \<in> set fs" for i
    using blocks_ok_end(1) [OF assms(1)] that assms(2) unat_less_32 [of "h_top h"] by (meson le_less_trans subsetD)
  moreover have "\<forall>i \<in> set fs. \<forall>j \<in> set fs. i \<noteq> j \<longrightarrow> bytes h i \<inter> bytes h j = {}"
    using assms(1,2) unfolding blocks_ok_def by blast
  ultimately show ?thesis using assms by (auto simp: tidy_def blocks_ok_def)
qed

text \<open>A free list that covers the same bytes can replace another.\<close>

lemma blocks_ok_replace:
  assumes ok: "blocks_ok lo h (F \<union> U)" and d: "F \<inter> U = {}"
    and u: "\<And>i. i \<in> U \<Longrightarrow> h_blk h' i = h_blk h i" and top: "h_top h' = h_top h"
    and sz: "\<And>i. i \<in> F' \<Longrightarrow> size_of h' i \<noteq> 0" and un: "(\<Union>i \<in> F'. bytes h' i) = (\<Union>i \<in> F. bytes h i)"
    and dj: "\<And>i j. i \<in> F' \<Longrightarrow> j \<in> F' \<Longrightarrow> i \<noteq> j \<Longrightarrow> bytes h' i \<inter> bytes h' j = {}"
  shows "blocks_ok lo h' (F' \<union> U)"
proof -
  have bu: "bytes h' i = bytes h i" if "i \<in> U" for i using u [OF that] by (simp add: bytes_def)
  have sub: "bytes h' i \<subseteq> (\<Union>i \<in> F. bytes h i)" if "i \<in> F'" for i using un that by blast
  have fu: "(\<Union>i \<in> F. bytes h i) \<inter> bytes h j = {}" if "j \<in> U" for j
  proof -
    have "bytes h i \<inter> bytes h j = {}" if "i \<in> F" for i
      using that \<open>j \<in> U\<close> d by (intro blocks_ok_disj [OF ok]) auto
    then show ?thesis by blast
  qed
  have rng: "(\<Union>i \<in> F. bytes h i) \<subseteq> {lo ..< unat (h_top h)}" using blocks_ok_range [OF ok] by blast
  have x: "bytes h' i \<inter> bytes h' j = {}" if "i \<in> F'" "j \<in> U" for i j
    using sub [OF that(1)] fu [OF that(2)] bu [OF that(2)] by blast
  show ?thesis unfolding blocks_ok_def top
  proof (intro conjI ballI impI)
    fix i assume i: "i \<in> F' \<union> U"
    then show "size_of h' i \<noteq> 0" using sz ok u by (auto simp: blocks_ok_def)
    from i show "bytes h' i \<subseteq> {lo ..< unat (h_top h)}"
    proof
      assume "i \<in> F'" then show ?thesis using sub rng by blast
    next
      assume "i \<in> U" then show ?thesis using ok bu by (auto simp: blocks_ok_def)
    qed
    fix j assume j: "j \<in> F' \<union> U" "i \<noteq> j"
    show "bytes h' i \<inter> bytes h' j = {}"
    proof (cases "i \<in> U \<and> j \<in> U")
      case True then show ?thesis using blocks_ok_disj [OF ok, of i j] j bu by simp
    next
      case False then show ?thesis using i j x [of i j] x [of j i] dj [of i j] by (auto simp: Int_commute)
    qed
  qed
qed

lemma free_spec:
  assumes inv: "heap_inv lo h fs (xs @ b # ys) rs"
  shows "\<exists>h' fs' rs'. free (addr_of h b) h = Some (True, h') \<and> heap_inv lo h' fs' (xs @ ys) rs' \<and>
    h_align h' = h_align h \<and> (\<forall>i \<in> set (xs @ ys). addr_of h' i = addr_of h i \<and> size_of h' i = size_of h i)"
proof -
  have ch: "chains h fs (xs @ b # ys) rs" and ok: "blocks_ok lo h (set fs \<union> set (xs @ b # ys))"
    and ba: "by_addr h fs" and len: "length (fs @ (xs @ b # ys) @ rs) = unat (h_max h)"
    using inv by (auto simp: heap_inv_def)
  note c = chainsD [OF ch]
  have d: "distinct (fs @ rs)" "b \<notin> set fs" "b \<notin> set rs" using c(4) by auto
  have dus: "distinct (xs @ b # ys)" using c(4) unfolding distinct_append by blast
  have fu: "find_used (addr_of h b) None (h_used h) h = Some (Some (last_opt xs, b))"
  proof -
    have "addr_of h x \<noteq> addr_of h b" if "x \<in> set xs" for x
      using that c(4) by (intro blocks_ok_addr [OF ok]) auto
    from find_used_spec [OF c(2) refl this, of None] show ?thesis by (auto simp: last_opt_def)
  qed
  define h1 where "h1 = (case last_opt xs of Some q \<Rightarrow> set_next q (next_blk h b) h | None \<Rightarrow> h\<lparr>h_used := next_blk h b\<rparr>)"
  have as: "addr_of h1 i = addr_of h i" "size_of h1 i = size_of h i" for i
    by (auto simp: h1_def upd_defs split: option.splits)
  have g1: "h_free h1 = h_free h" "h_fresh h1 = h_fresh h" "h_top h1 = h_top h" "h_limit h1 = h_limit h" "h_max h1 = h_max h"
    "h_thresh h1 = h_thresh h" "h_align h1 = h_align h"
    by (auto simp: h1_def upd_defs split: option.splits)
  have n1: "next_blk h1 i = (if xs \<noteq> [] \<and> i = last xs then next_blk h b else next_blk h i)" for i
    by (auto simp: h1_def upd_defs last_opt_def)
  have lx: "last xs \<notin> set fs \<and> last xs \<notin> set rs" if "xs \<noteq> []"
  proof -
    have "set xs \<inter> set fs = {}" "set xs \<inter> set rs = {}" using c(4) unfolding distinct_append set_append by blast+
    then show ?thesis using last_in_set [OF that] by blast
  qed
  have u1: "lseg (next_blk h1) (h_used h1) (xs @ ys) None"
  proof (cases "xs = []")
    case True
    then show ?thesis using unlink(1) [OF c(2) dus] by (simp add: h1_def upd_defs)
  next
    case False
    have "next_blk h1 = (next_blk h)(last xs := next_blk h b)" using False by (auto simp: n1)
    moreover have "h_used h1 = h_used h" using False by (simp add: h1_def upd_defs last_opt_def)
    ultimately show ?thesis using unlink(2) [OF c(2) dus] False by simp
  qed
  have f1: "lseg (next_blk h1) (h_free h1) fs None"
    using c(1) lx unfolding g1 by (subst lseg_cong [of _ _ "next_blk h"]) (auto simp: n1)
  have r1: "lseg (next_blk h1) (h_fresh h1) rs None"
    using c(3) lx unfolding g1 by (subst lseg_cong [of _ _ "next_blk h"]) (auto simp: n1)
  have ok1: "blocks_ok lo h1 (insert b (set fs) \<union> set (xs @ ys))"
    using ok by (simp add: blocks_ok_def bytes_def as g1)
  have "by_addr h1 fs" using ba by (simp add: by_addr_def as)
  then have ba1: "by_addr h1 (ins h1 b fs)"
    using d(2) blocks_ok_addr [OF ok1] by (intro by_addr_ins) auto
  have t1: "tidy h1 (ins h1 b fs)" by (rule tidy_blocks [OF ok1 _ ba1]) auto
  obtain h' fs' rs' where e: "Option.bind (insert_block b h1) compact = Some h'" and fd: "freed h1 b fs rs h' fs' rs'"
    using insert_compact [OF f1 r1 d t1] by blast
  note h' = fd [unfolded freed_def]
  have same: "same_on (- insert b (set fs)) h1 h'" using h' by simp
  have keep: "h_blk h' i = h_blk h1 i" if "i \<in> set (xs @ ys)" for i
  proof -
    have "set (xs @ ys) \<inter> insert b (set fs) = {}" using c(4) unfolding distinct_append set_append by auto
    then show ?thesis using same_onD [OF same, of i] that by blast
  qed
  have g: "h_used h' = h_used h1" "h_top h' = h_top h" "h_limit h' = h_limit h" "h_max h' = h_max h"
    "h_thresh h' = h_thresh h" "h_align h' = h_align h"
    using same g1 by (auto simp: same_on_def)
  have fr: "free (addr_of h b) h = Some (True, h')"
    using fu e by (simp add: free_def h1_def Let_def)
  have "lseg (next_blk h') (h_used h') (xs @ ys) None = lseg (next_blk h1) (h_used h1) (xs @ ys) None"
    unfolding g by (rule lseg_cong) (simp add: keep)
  then have u: "lseg (next_blk h') (h_used h') (xs @ ys) None" using u1 by simp
  have s6: "set fs' \<union> set rs' = insert b (set fs \<union> set rs)" and d6: "distinct (fs' @ rs')"
    and u6: "(\<Union>i \<in> set fs'. bytes h' i) = bytes h1 b \<union> (\<Union>i \<in> set fs. bytes h1 i)" using h' by simp_all
  have dj: "(insert b (set fs \<union> set rs)) \<inter> set (xs @ ys) = {}" "distinct (xs @ ys)"
    using c(4) unfolding distinct_append set_append by auto
  then have dd: "distinct (fs' @ (xs @ ys) @ rs')" using d6 s6 unfolding distinct_append set_append by blast
  have "blocks_ok lo h' (set fs' \<union> set (xs @ ys))"
  proof (rule blocks_ok_replace [OF ok1])
    show "insert b (set fs) \<inter> set (xs @ ys) = {}" using dj(1) by blast
    show "h_top h' = h_top h1" using g g1 by simp
    show "(\<Union>i \<in> set fs'. bytes h' i) = (\<Union>i \<in> insert b (set fs). bytes h1 i)" using u6 by simp
  qed (use keep h' in \<open>simp_all\<close>)
  then have "heap_inv lo h' fs' (xs @ ys) rs'"
    using inv u h' dd len by (simp add: heap_inv_def chains_def g)
  then show ?thesis using fr keep as g by auto
qed


section \<open>\<open>malloc\<close>\<close>

definition fits :: "u32 \<Rightarrow> heap \<Rightarrow> nat \<Rightarrow> bool" where
  "fits num h i \<longleftrightarrow> is_top num i h \<or> num \<le> size_of h i"

lemma find_fit_none:
  assumes "lseg (next_blk h) ptr fs None" "\<And>i. i \<in> set fs \<Longrightarrow> \<not> fits num h i"
  shows "find_fit num prev ptr h = Some None"
  using assms
proof (induction fs arbitrary: prev ptr)
  case Nil
  then show ?case by (subst find_fit.simps) simp
next
  case (Cons x fs)
  then have p: "ptr = Some x" "lseg (next_blk h) (next_blk h x) fs None" "\<not> fits num h x" by auto
  with Cons.IH [OF p(2)] Cons.prems(2) show ?case by (subst find_fit.simps) (auto simp: fits_def)
qed

lemma find_fit_some:
  assumes "lseg (next_blk h) ptr (xs @ p # ys) None" "\<And>i. i \<in> set xs \<Longrightarrow> \<not> fits num h i" "fits num h p"
  shows "find_fit num prev ptr h = Some (Some (if xs = [] then prev else last_opt xs, p))"
  using assms
proof (induction xs arbitrary: prev ptr)
  case Nil
  then show ?case by (subst find_fit.simps) (simp add: fits_def)
next
  case (Cons x xs)
  then have p: "ptr = Some x" "lseg (next_blk h) (next_blk h x) (xs @ p # ys) None" "\<not> fits num h x" by auto
  have "find_fit num (Some x) (next_blk h x) h = Some (Some (if xs = [] then Some x else last_opt xs, p))"
    using Cons.IH [OF p(2) _ Cons.prems(3)] Cons.prems(2) by simp
  then show ?case using p by (subst find_fit.simps) (auto simp: fits_def last_opt_def)
qed

text \<open>The chosen block moves from the free list to the head of the used list.\<close>

definition take_link :: "nat option \<Rightarrow> nat \<Rightarrow> heap \<Rightarrow> heap" where
  "take_link prev p h =
     (let h1 = (case prev of Some q \<Rightarrow> set_next q (next_blk h p) h | None \<Rightarrow> h\<lparr>h_free := next_blk h p\<rparr>)
      in (set_next p (h_used h1) h1)\<lparr>h_used := Some p\<rparr>)"

lemma take_link_same [simp]:
  "addr_of (take_link prev p h) i = addr_of h i" "size_of (take_link prev p h) i = size_of h i"
  "h_fresh (take_link prev p h) = h_fresh h" "h_top (take_link prev p h) = h_top h"
  "h_limit (take_link prev p h) = h_limit h" "h_thresh (take_link prev p h) = h_thresh h"
  "h_align (take_link prev p h) = h_align h" "h_max (take_link prev p h) = h_max h"
  "bytes (take_link prev p h) i = bytes h i"
  by (auto simp: take_link_def upd_defs Let_def bytes_def split: option.splits)

lemma take_link_chains:
  assumes "chains h (xs @ p # ys) us rs"
  shows "chains (take_link (last_opt xs) p h) (xs @ ys) (p # us) rs"
proof -
  note c = chainsD [OF assms]
  have d: "distinct (xs @ p # ys)" "p \<notin> set us" "p \<notin> set rs" "p \<notin> set xs" "p \<notin> set ys"
    using c(4) by auto
  have lx: "last xs \<notin> set us" "last xs \<notin> set rs" "last xs \<noteq> p" if "xs \<noteq> []"
  proof -
    have "set xs \<inter> set us = {}" "set xs \<inter> set rs = {}" using c(4) unfolding distinct_append set_append by blast+
    then show "last xs \<notin> set us" "last xs \<notin> set rs" "last xs \<noteq> p"
      using last_in_set [OF that] d(4) by blast+
  qed
  have n: "next_blk (take_link (last_opt xs) p h) i =
      (if i = p then h_used h else if xs \<noteq> [] \<and> i = last xs then next_blk h p else next_blk h i)" for i
    by (auto simp: take_link_def upd_defs last_opt_def Let_def)
  let ?h = "take_link (last_opt xs) p h"
  have "lseg (next_blk ?h) (h_free ?h) (xs @ ys) None"
  proof (cases "xs = []")
    case True
    have "lseg (next_blk h) (next_blk h p) ys None" using unlink(1) [OF c(1) d(1)] True by simp
    then show ?thesis using True d(5)
      by (subst lseg_cong [of _ _ "next_blk h"]) (auto simp: n take_link_def upd_defs)
  next
    case False
    have "lseg ((next_blk h)(last xs := next_blk h p)) (h_free h) (xs @ ys) None"
      using unlink(2) [OF c(1) d(1) False] .
    moreover have "h_free ?h = h_free h" using False by (simp add: take_link_def upd_defs last_opt_def)
    ultimately show ?thesis using False d(4,5)
      by (subst lseg_cong [of _ _ "(next_blk h)(last xs := next_blk h p)"]) (auto simp: n)
  qed
  moreover have "lseg (next_blk ?h) (h_used h) us None"
    using c(2) d lx by (subst lseg_cong [of _ _ "next_blk h"]) (auto simp: n)
  then have "lseg (next_blk ?h) (h_used ?h) (p # us) None" by (simp add: n) (simp add: take_link_def Let_def)
  moreover have "lseg (next_blk ?h) (h_fresh ?h) rs None"
    using c(3) d lx unfolding take_link_same by (subst lseg_cong [of _ _ "next_blk h"]) (auto simp: n)
  moreover have "distinct ((xs @ ys) @ (p # us) @ rs)" using c(4) by auto
  ultimately show ?thesis by (simp add: chains_def)
qed

lemma chains_cong:
  assumes "chains h fs us rs" "\<And>i. next_blk h' i = next_blk h i" "h_free h' = h_free h" "h_used h' = h_used h" "h_fresh h' = h_fresh h"
  shows "chains h' fs us rs"
  using assms by (simp add: chains_def)

text \<open>What a successful allocation leaves behind; \<open>us\<close> are the blocks that were in use.\<close>

definition served :: "nat \<Rightarrow> heap \<Rightarrow> nat list \<Rightarrow> u32 \<Rightarrow> nat \<Rightarrow> heap \<Rightarrow> bool" where
  "served lo h us num p h' \<longleftrightarrow> (\<exists>fs' rs'. heap_inv lo h' fs' (p # us) rs') \<and> num \<le> size_of h' p \<and>
     h_align h' = h_align h \<and> (\<forall>i \<in> set us. addr_of h' i = addr_of h i \<and> size_of h' i = size_of h i)"

lemma by_addr_remove: "by_addr h (xs @ p # ys) \<Longrightarrow> by_addr h (xs @ ys)"
  by (auto simp: by_addr_def sorted_wrt_append)

lemma take_top:
  assumes inv: "heap_inv lo h (xs @ p # ys) us rs" and top: "is_top num p h"
    and num: "num \<noteq> 0" "unat num < 2 ^ 31"
  shows "\<exists>h'. take_block num (last_opt xs) p h = Some h' \<and> served lo h us num p h'"
proof -
  let ?X = "set (xs @ p # ys) \<union> set us"
  have ch: "chains h (xs @ p # ys) us rs" and ok: "blocks_ok lo h ?X" and ba: "by_addr h (xs @ p # ys)"
    and lim: "h_top h \<le> h_limit h" "unat (h_limit h) \<le> 2 ^ 31" using inv by (auto simp: heap_inv_def)
  define h' where "h' = (set_size p num (take_link (last_opt xs) p h))\<lparr>h_top := addr_of h p + num\<rparr>"
  have e: "take_block num (last_opt xs) p h = Some h'"
    using top by (simp add: take_block_def take_link_def h'_def Let_def)
  have "chains h' (xs @ ys) (p # us) rs"
    by (rule chains_cong [OF take_link_chains [OF ch]]) (auto simp: h'_def upd_defs)
  have a: "addr_of h' i = addr_of h i" "size_of h' i = (if i = p then num else size_of h i)" for i
    by (auto simp: h'_def upd_defs)
  have g: "h_top h' = addr_of h p + num" "h_limit h' = h_limit h" "h_max h' = h_max h" "h_thresh h' = h_thresh h"
    "h_align h' = h_align h" by (auto simp: h'_def upd_defs)
  have p: "p \<in> ?X" by simp
  note pe = blocks_ok_end [OF ok p]
  have pt: "unat (addr_of h p) + unat (size_of h p) = unat (h_top h)"
  proof -
    have "unat (addr_of h p) + unat (size_of h p) < 2 ^ 32" using pe(1) unat_less_32 [of "h_top h"] by simp
    then have "unat (h_top h) \<le> unat (addr_of h p) + unat (size_of h p)"
      using top unat_add_32 by (simp add: is_top_def word_le_nat_alt)
    then show ?thesis using pe(1) by simp
  qed
  have al: "unat (addr_of h p) \<le> 2 ^ 31" using pe(1) lim by (simp add: word_le_nat_alt)
  then have nt: "unat (h_top h') = unat (addr_of h p) + unat num" using num(2) unat_add_32 g(1) by simp
  have "blocks_ok lo h' (set (xs @ ys) \<union> set (p # us))"
  proof -
    have X: "set (xs @ ys) \<union> set (p # us) = ?X" by auto
    have rest: "bytes h i \<subseteq> {lo ..< unat (addr_of h p)}" if "i \<in> ?X" "i \<noteq> p" for i
    proof
      fix x assume x: "x \<in> bytes h i"
      have "x \<notin> bytes h p" using blocks_ok_disj [OF ok that(1) p that(2)] x by blast
      moreover have "x \<in> {lo ..< unat (h_top h)}" using blocks_ok_range [OF ok that(1)] x by blast
      ultimately show "x \<in> {lo ..< unat (addr_of h p)}" using pt by (auto simp: bytes_def)
    qed
    have bi: "bytes h' i = (if i = p then {unat (addr_of h p) ..< unat (addr_of h p) + unat num} else bytes h i)" for i
      by (simp add: bytes_def a)
    have rg: "bytes h' i \<subseteq> {lo ..< unat (h_top h')}" if "i \<in> ?X" for i
      using rest [OF that] pe(2) by (cases "i = p") (auto simp: bi nt)
    have pj: "bytes h' p \<inter> bytes h' j = {}" if "j \<in> ?X" "j \<noteq> p" for j
    proof -
      have "bytes h j \<inter> {unat (addr_of h p) ..< unat (addr_of h p) + unat num} = {}"
        using rest [OF that] by fastforce
      then show ?thesis using that(2) by (simp add: bi Int_commute)
    qed
    have dj: "bytes h' i \<inter> bytes h' j = {}" if "i \<in> ?X" "j \<in> ?X" "i \<noteq> j" for i j
    proof (cases "i = p \<or> j = p")
      case True
      then show ?thesis using pj [of i] pj [of j] that by (metis Int_commute)
    next
      case False
      then show ?thesis using blocks_ok_disj [OF ok that] by (simp add: bi)
    qed
    have sz: "size_of h' i \<noteq> 0" if "i \<in> ?X" for i using blocks_ok_end(3) [OF ok that] num(1) by (simp add: a)
    show ?thesis unfolding X blocks_ok_def using rg dj sz by blast
  qed
  moreover have "by_addr h' (xs @ ys)" using by_addr_remove [OF ba] by (simp add: by_addr_def a)
  moreover have "lo \<le> unat (h_top h')" using pe(2) nt by simp
  moreover have "h_top h' \<le> h_limit h'" using top by (simp add: is_top_def g)
  ultimately have "heap_inv lo h' (xs @ ys) (p # us) rs"
    using inv \<open>chains h' (xs @ ys) (p # us) rs\<close> by (simp add: heap_inv_def g)
  moreover have "p \<notin> set us" using chainsD(4) [OF ch] by auto
  ultimately show ?thesis using e by (auto simp: served_def a g)
qed


lemma take_block_link:
  "take_block num prev p h =
     (if is_top num p h then Some ((set_size p num (take_link prev p h))\<lparr>h_top := addr_of h p + num\<rparr>)
      else case h_fresh h of
             None \<Rightarrow> Some (take_link prev p h)
           | Some f \<Rightarrow>
               if size_of h p - num \<ge> h_thresh h
               then Option.bind (insert_block f
                      (set_size f (size_of h p - num) (set_addr f (addr_of h p + num)
                        ((set_size p num (take_link prev p h))\<lparr>h_fresh := next_blk (take_link prev p h) f\<rparr>)))) compact
               else Some (take_link prev p h))"
proof -
  have "h_fresh (take_link prev p h) = h_fresh h" "size_of (take_link prev p h) p = size_of h p"
    "h_thresh (take_link prev p h) = h_thresh h" by simp_all
  then show ?thesis unfolding take_block_def take_link_def Let_def by (simp cong: option.case_cong if_cong)
qed

lemma take_fit:
  assumes inv: "heap_inv lo h (xs @ p # ys) us rs" and top: "\<not> is_top num p h" and fit: "num \<le> size_of h p"
    and num: "num \<noteq> 0"
  shows "\<exists>h'. take_block num (last_opt xs) p h = Some h' \<and> served lo h us num p h'"
proof -
  let ?h2 = "take_link (last_opt xs) p h"
  have ch: "chains h (xs @ p # ys) us rs" and ok: "blocks_ok lo h (set (xs @ p # ys) \<union> set us)"
    and ba: "by_addr h (xs @ p # ys)" using inv by (auto simp: heap_inv_def)
  have len: "length (xs @ ys) + length (p # us) + length rs = unat (h_max h)" using inv by (simp add: heap_inv_def)
  note ch2 = take_link_chains [OF ch]
  have pu: "p \<notin> set us" "p \<notin> set (xs @ ys)" using chainsD(4) [OF ch] by auto
  have ok2: "blocks_ok lo ?h2 (set (xs @ ys) \<union> set (p # us))"
    using ok by (simp add: blocks_ok_def insert_commute Un_ac)
  have ba2: "by_addr ?h2 (xs @ ys)" using by_addr_remove [OF ba] by (simp add: by_addr_def)
  have inv2: "heap_inv lo ?h2 (xs @ ys) (p # us) rs"
    using inv ch2 ok2 ba2 len by (simp add: heap_inv_def)
  have s2: "served lo h us num p ?h2" using inv2 fit by (auto simp: served_def)
  show ?thesis
  proof (cases rs)
    case Nil
    then have "h_fresh h = None" using chainsD(3) [OF ch] by simp
    then have "take_block num (last_opt xs) p h = Some ?h2"
      using top by (simp add: take_block_link)
    then show ?thesis using s2 by blast
  next
    case (Cons f rs')
    then have fr: "h_fresh h = Some f" using chainsD(3) [OF ch] by simp
    let ?e = "size_of h p - num"
    show ?thesis
    proof (cases "?e \<ge> h_thresh h")
      case False
      then have "take_block num (last_opt xs) p h = Some ?h2"
        using top fr by (simp add: take_block_link)
      then show ?thesis using s2 by blast
    next
      case True
      define h3 where "h3 = (set_size p num ?h2)\<lparr>h_fresh := next_blk ?h2 f\<rparr>"
      define h4 where "h4 = set_size f ?e (set_addr f (addr_of h p + num) h3)"
      have tb: "take_block num (last_opt xs) p h = Option.bind (insert_block f h4) compact"
        using top fr True by (simp add: take_block_link h3_def h4_def)
      have d2: "distinct ((xs @ ys) @ (p # us) @ f # rs')" using chainsD(4) [OF ch2] Cons by simp
      then have fn: "f \<noteq> p" "f \<notin> set (xs @ ys)" "f \<notin> set us" "f \<notin> set rs'" "distinct ((xs @ ys) @ rs')" by auto
      have n4: "next_blk h4 i = next_blk ?h2 i" for i by (auto simp: h4_def h3_def upd_defs)
      have n4': "next_blk h4 = next_blk ?h2" using n4 by auto
      have g4: "h_free h4 = h_free ?h2" "h_used h4 = h_used ?h2" "h_fresh h4 = next_blk ?h2 f" "h_top h4 = h_top h"
        "h_limit h4 = h_limit h" "h_max h4 = h_max h" "h_thresh h4 = h_thresh h" "h_align h4 = h_align h"
        by (simp_all add: h4_def h3_def upd_defs)
      have a4: "addr_of h4 i = (if i = f then addr_of h p + num else addr_of h i)"
        "size_of h4 i = (if i = f then ?e else if i = p then num else size_of h i)" for i
        using fn(1) by (auto simp: h4_def h3_def upd_defs)
      have f4: "lseg (next_blk h4) (h_free h4) (xs @ ys) None" "lseg (next_blk h4) (h_used h4) (p # us) None"
        using chainsD(1,2) [OF ch2] by (simp_all add: n4' g4)
      have r4: "lseg (next_blk h4) (h_fresh h4) rs' None"
        using chainsD(3) [OF ch2] Cons by (simp add: n4' g4)
      have px: "p \<in> set (xs @ p # ys) \<union> set us" by simp
      have ne: "unat ?e = unat (size_of h p) - unat num" using fit by (simp add: unat_sub word_le_nat_alt)
      have e0: "?e \<noteq> 0"
      proof
        assume "?e = 0"
        then have "h_thresh h = 0" using True by simp
        then show False using inv by (simp add: heap_inv_def)
      qed
      have an: "unat (addr_of h p + num) = unat (addr_of h p) + unat num"
        using blocks_ok_end(1) [OF ok px] fit unat_less_32 [of "h_top h"]
        by (intro unat_add_32) (simp add: word_le_nat_alt)
      have bp: "bytes h4 p \<union> bytes h4 f = bytes h p" "bytes h4 p \<inter> bytes h4 f = {}"
        using fit fn(1) by (auto simp: bytes_def a4 an ne word_le_nat_alt)
      have bi: "bytes h4 i = bytes h i" if "i \<noteq> p" "i \<noteq> f" for i using that by (simp add: bytes_def a4)
      have ok4: "blocks_ok lo h4 ({p, f} \<union> (set (xs @ ys) \<union> set us))"
      proof (rule blocks_ok_replace)
        show "blocks_ok lo ?h2 ({p} \<union> (set (xs @ ys) \<union> set us))" using ok2 by (simp add: insert_commute)
        show "{p} \<inter> (set (xs @ ys) \<union> set us) = {}" using pu by simp
        show "h_top h4 = h_top ?h2" by (simp add: g4)
        show "(\<Union>i \<in> {p, f}. bytes h4 i) = (\<Union>i \<in> {p}. bytes ?h2 i)" using bp(1) by simp
        show "h_blk h4 i = h_blk ?h2 i" if "i \<in> set (xs @ ys) \<union> set us" for i
          using that pu fn by (auto simp: h4_def h3_def upd_defs)
        show "size_of h4 i \<noteq> 0" if "i \<in> {p, f}" for i using that e0 num by (auto simp: a4)
        show "bytes h4 i \<inter> bytes h4 j = {}" if "i \<in> {p, f}" "j \<in> {p, f}" "i \<noteq> j" for i j
          using that bp(2) by (auto simp: Int_commute)
      qed
      then have ok4': "blocks_ok lo h4 (insert f (set (xs @ ys)) \<union> set (p # us))"
        by (simp add: insert_commute Un_ac)
      have "by_addr h4 (xs @ ys)"
      proof -
        have "f \<notin> set (xs @ ys)" using fn by simp
        then have "sorted_wrt (\<lambda>i j. addr_of h4 i < addr_of h4 j) (xs @ ys)"
          using by_addr_remove [OF ba] unfolding by_addr_def
          by (elim sorted_wrt_mono_rel [rotated]) (auto simp: a4)
        then show ?thesis by (simp add: by_addr_def)
      qed
      then have ba4: "by_addr h4 (ins h4 f (xs @ ys))"
        using fn(2) blocks_ok_addr [OF ok4'] by (intro by_addr_ins) auto
      have t4: "tidy h4 (ins h4 f (xs @ ys))" by (rule tidy_blocks [OF ok4' _ ba4]) auto
      obtain h' fs' rs'' where e: "Option.bind (insert_block f h4) compact = Some h'" and fd: "freed h4 f (xs @ ys) rs' h' fs' rs''"
        using insert_compact [OF f4(1) r4 fn(5) fn(2,4) t4] by blast
      note h' = fd [unfolded freed_def]
      have same: "same_on (- insert f (set (xs @ ys))) h4 h'" using h' by simp
      have keep: "h_blk h' i = h_blk h4 i" if "i \<in> set (p # us)" for i
      proof -
        have "i \<in> - insert f (set (xs @ ys))" using that d2 unfolding distinct_append set_append by auto
        then show ?thesis by (rule same_onD [OF same])
      qed
      have g: "h_used h' = h_used h4" "h_top h' = h_top h" "h_limit h' = h_limit h" "h_max h' = h_max h"
        "h_thresh h' = h_thresh h" "h_align h' = h_align h" using same g4 by (auto simp: same_on_def)
      have "lseg (next_blk h') (h_used h') (p # us) None = lseg (next_blk h4) (h_used h4) (p # us) None"
        unfolding g by (rule lseg_cong) (simp add: keep)
      then have u: "lseg (next_blk h') (h_used h') (p # us) None" using f4(2) by simp
      have s6: "set fs' \<union> set rs'' = insert f (set (xs @ ys) \<union> set rs')" and d6: "distinct (fs' @ rs'')"
        and u6: "(\<Union>i \<in> set fs'. bytes h' i) = bytes h4 f \<union> (\<Union>i \<in> set (xs @ ys). bytes h4 i)" using h' by simp_all
      have dj: "(insert f (set (xs @ ys) \<union> set rs')) \<inter> set (p # us) = {}" "distinct (p # us)"
        using d2 unfolding distinct_append set_append by auto
      then have dd: "distinct (fs' @ (p # us) @ rs'')" using d6 s6 unfolding distinct_append set_append by blast
      have okf: "blocks_ok lo h' (set fs' \<union> set (p # us))"
      proof (rule blocks_ok_replace [OF ok4'])
        show "insert f (set (xs @ ys)) \<inter> set (p # us) = {}" using dj(1) by blast
        show "h_top h' = h_top h4" using g g4 by simp
        show "(\<Union>i \<in> set fs'. bytes h' i) = (\<Union>i \<in> insert f (set (xs @ ys)). bytes h4 i)" using u6 by simp
      qed (use keep h' in \<open>simp_all\<close>)
      have "length fs' + length (p # us) + length rs'' = unat (h_max h)"
        using len h' Cons by simp
      then have "heap_inv lo h' fs' (p # us) rs''"
        using inv u h' dd okf by (simp add: heap_inv_def chains_def g)
      moreover have "size_of h' p = num" using keep [of p] fn(1) by (simp add: a4)
      moreover have "addr_of h' i = addr_of h i \<and> size_of h' i = size_of h i" if "i \<in> set us" for i
        using keep [of i] that pu fn by (auto simp: a4)
      ultimately show ?thesis using tb e by (auto simp: served_def g)
    qed
  qed
qed

text \<open>No free block fits: a fresh block at the top.\<close>

lemma take_fresh:
  assumes inv: "heap_inv lo h fs us (f # rs)" and lim: "h_top h + num \<le> h_limit h"
    and num: "num \<noteq> 0" "unat num < 2 ^ 31"
  defines "h' \<equiv> (upd_blk f (\<lambda>b. b\<lparr>b_addr := h_top h, b_next := h_used h, b_size := num\<rparr>) h)
      \<lparr>h_fresh := next_blk h f, h_used := Some f, h_top := h_top h + num\<rparr>"
  shows "served lo h us num f h' \<and> addr_of h' f = h_top h"
proof -
  have ch: "chains h fs us (f # rs)" and ok: "blocks_ok lo h (set fs \<union> set us)" and ba: "by_addr h fs"
    and lt: "h_top h \<le> h_limit h" "unat (h_limit h) \<le> 2 ^ 31" "0 < lo" "lo \<le> unat (h_top h)"
    using inv by (auto simp: heap_inv_def)
  note c = chainsD [OF ch]
  have d: "f \<notin> set fs" "f \<notin> set us" "f \<notin> set rs" using c(4) by auto
  have n: "next_blk h' i = (if i = f then h_used h else next_blk h i)" for i by (auto simp: h'_def upd_defs)
  have a: "addr_of h' i = (if i = f then h_top h else addr_of h i)" "size_of h' i = (if i = f then num else size_of h i)" for i
    by (auto simp: h'_def upd_defs)
  have g: "h_free h' = h_free h" "h_used h' = Some f" "h_fresh h' = next_blk h f" "h_top h' = h_top h + num"
    "h_limit h' = h_limit h" "h_max h' = h_max h" "h_thresh h' = h_thresh h" "h_align h' = h_align h"
    by (simp_all add: h'_def upd_defs)
  have tn: "unat (h_top h') = unat (h_top h) + unat num"
    unfolding g using num(2) lt(1,2) by (intro unat_add_32) (simp add: word_le_nat_alt)
  have f: "lseg (next_blk h') (h_free h') fs None"
    using c(1) d(1) unfolding g by (subst lseg_cong [of _ _ "next_blk h"]) (auto simp: n)
  have "lseg (next_blk h') (h_used h) us None"
    using c(2) d(2) by (subst lseg_cong [of _ _ "next_blk h"]) (auto simp: n)
  then have u: "lseg (next_blk h') (h_used h') (f # us) None" by (simp add: g n)
  have "lseg (next_blk h) (next_blk h f) rs None" using c(3) by simp
  then have r: "lseg (next_blk h') (h_fresh h') rs None"
    using d(3) unfolding g by (subst lseg_cong [of _ _ "next_blk h"]) (auto simp: n)
  have bf: "bytes h' f = {unat (h_top h) ..< unat (h_top h) + unat num}" by (simp add: bytes_def a)
  have bi: "bytes h' i = bytes h i" if "i \<noteq> f" for i using that by (simp add: bytes_def a)
  let ?R = "set fs \<union> set us"
  have nf: "i \<noteq> f" if "i \<in> ?R" for i using that d by auto
  have low: "bytes h' i \<subseteq> {lo ..< unat (h_top h)}" if "i \<in> ?R" for i
    using blocks_ok_range [OF ok that] bi [OF nf [OF that]] by simp
  have fj: "bytes h' f \<inter> bytes h' j = {}" if "j \<in> ?R" for j using low [OF that] bf by fastforce
  have "blocks_ok lo h' (insert f ?R)"
    unfolding blocks_ok_def
  proof (intro conjI ballI impI)
    fix i assume i: "i \<in> insert f ?R"
    show "size_of h' i \<noteq> 0" using i blocks_ok_end(3) [OF ok] num(1) by (auto simp: a)
    show "bytes h' i \<subseteq> {lo ..< unat (h_top h')}"
      using i low [of i] lt(4) by (cases "i = f") (fastforce simp: bf tn)+
    fix j assume j: "j \<in> insert f ?R" "i \<noteq> j"
    show "bytes h' i \<inter> bytes h' j = {}"
    proof (cases "i = f \<or> j = f")
      case True
      then show ?thesis using i j fj [of i] fj [of j] by (metis Int_commute insertE)
    next
      case False
      then show ?thesis using blocks_ok_disj [OF ok, of i j] i j bi by simp
    qed
  qed
  then have "blocks_ok lo h' (set fs \<union> set (f # us))" by (simp add: insert_commute)
  moreover have "by_addr h' fs"
  proof -
    have "sorted_wrt (\<lambda>i j. addr_of h' i < addr_of h' j) fs"
      using ba d(1) unfolding by_addr_def by (elim sorted_wrt_mono_rel [rotated]) (auto simp: a)
    then show ?thesis by (simp add: by_addr_def)
  qed
  moreover have "distinct (fs @ (f # us) @ rs)" using c(4) by auto
  ultimately have "heap_inv lo h' fs (f # us) rs"
    using inv f u r tn lim by (simp add: heap_inv_def chains_def g)
  moreover have "addr_of h' i = addr_of h i \<and> size_of h' i = size_of h i" if "i \<in> set us" for i
    using that d(2) by (auto simp: a)
  ultimately show ?thesis by (auto simp: served_def a g)
qed


section \<open>Sizes\<close>

lemma unat_exp:
  assumes "k < 32"
  shows "unat (2 ^ k :: u32) = 2 ^ k"
proof -
  have "(2 :: nat) ^ k < 2 ^ 32" by (rule power_strict_increasing [OF assms]) simp
  moreover have "(2 ^ k :: u32) = of_nat (2 ^ k)" by simp
  ultimately show ?thesis by (simp only: unsigned_of_nat take_bit_eq_mod) simp
qed

lemma unat_mask_off:
  fixes x :: u32
  assumes "k < 32"
  shows "unat (x AND - (2 ^ k)) = unat x div 2 ^ k * 2 ^ k"
proof -
  have "x AND - (2 ^ k) = push_bit k (drop_bit k x)"
    by (rule bit_word_eqI) (auto simp: minus_exp_eq_not_mask bit_simps)
  moreover have "unat (drop_bit k x) = unat x div 2 ^ k"
    using assms by (simp add: drop_bit_eq_div unat_div unat_exp)
  ultimately have "unat (x AND - (2 ^ k)) = take_bit 32 (push_bit k (unat x div 2 ^ k))"
    by (simp add: unsigned_push_bit_eq)
  also have "\<dots> = unat x div 2 ^ k * 2 ^ k"
  proof -
    have "unat x div 2 ^ k * 2 ^ k \<le> unat x" by (rule div_times_less_eq_dividend)
    then have "unat x div 2 ^ k * 2 ^ k < 2 ^ 32" using unat_less_32 [of x] by linarith
    then show ?thesis by (simp add: take_bit_eq_mod push_bit_eq_mult)
  qed
  finally show ?thesis .
qed

lemma align_up_bounds:
  assumes k: "k < 31" and n: "unat num + 2 ^ k \<le> 2 ^ 31"
  shows "num \<le> align_up (2 ^ k) num" "unat (align_up (2 ^ k) num) < 2 ^ 31"
    "num \<noteq> 0 \<Longrightarrow> align_up (2 ^ k) num \<noteq> 0" "2 ^ k dvd unat (align_up (2 ^ k) num)"
proof -
  have p: "unat (2 ^ k :: u32) = 2 ^ k" using k by (simp add: unat_exp)
  let ?s = "unat num + (2 ^ k - 1)"
  have e: "num + 2 ^ k - 1 = num + (2 ^ k - 1)" by simp
  have m: "unat (2 ^ k - 1 :: u32) = 2 ^ k - 1"
    by (metis p unat_minus_one unat_0 power_not_zero zero_neq_numeral)
  have s: "unat (num + 2 ^ k - 1) = ?s"
    unfolding e using n m by (subst unat_add_32) simp_all
  have u: "unat (align_up (2 ^ k) num) = ?s div 2 ^ k * 2 ^ k"
    unfolding align_up_def using k by (simp add: unat_mask_off s)
  have "?s mod 2 ^ k < 2 ^ k" by simp
  then have "unat num \<le> ?s div 2 ^ k * 2 ^ k"
    using div_mult_mod_eq [of ?s "2 ^ k"] by linarith
  then show le: "num \<le> align_up (2 ^ k) num" by (simp add: word_le_nat_alt u)
  have "?s div 2 ^ k * 2 ^ k \<le> ?s" by (rule div_times_less_eq_dividend)
  moreover have "(1::nat) \<le> 2 ^ k" by simp
  ultimately have "?s div 2 ^ k * 2 ^ k < 2 ^ 31" using n by linarith
  then show "unat (align_up (2 ^ k) num) < 2 ^ 31" by (simp add: u)
  show "num \<noteq> 0 \<Longrightarrow> align_up (2 ^ k) num \<noteq> 0" using le by auto
  show "2 ^ k dvd unat (align_up (2 ^ k) num)" by (simp add: u)
qed


definition size_ok :: "heap \<Rightarrow> u32 \<Rightarrow> bool" where
  "size_ok h num \<longleftrightarrow> num \<noteq> 0 \<and> (\<exists>k < 31. h_align h = 2 ^ k \<and> unat num + 2 ^ k \<le> 2 ^ 31)"

definition no_room :: "heap \<Rightarrow> nat list \<Rightarrow> nat list \<Rightarrow> u32 \<Rightarrow> bool" where
  "no_room h fs rs num \<longleftrightarrow>
     (\<forall>i \<in> set fs. size_of h i < align_up (h_align h) num) \<and>
     (rs = [] \<or> h_limit h < h_top h + align_up (h_align h) num)"

lemma served_le: "served lo h us num p h' \<Longrightarrow> num0 \<le> num \<Longrightarrow> served lo h us num0 p h'"
  by (auto simp: served_def)

lemma alloc_block_spec:
  assumes inv: "heap_inv lo h fs us rs" and num: "size_ok h num"
  shows "\<exists>r h'. alloc_block num h = Some (r, h') \<and>
    (case r of None \<Rightarrow> h' = h \<and> no_room h fs rs num | Some p \<Rightarrow> served lo h us num p h')"
proof -
  obtain k where k: "k < 31" "h_align h = 2 ^ k" "unat num + 2 ^ k \<le> 2 ^ 31" "num \<noteq> 0"
    using num by (auto simp: size_ok_def)
  define n where "n = align_up (h_align h) num"
  have n: "num \<le> n" "unat n < 2 ^ 31" "n \<noteq> 0" using align_up_bounds [OF k(1,3)] k(4) by (simp_all add: n_def k(2))
  have ch: "chains h fs us rs" using inv by (simp add: heap_inv_def)
  note c = chainsD [OF ch]
  show ?thesis
  proof (cases "\<exists>i \<in> set fs. fits n h i")
    case True
    then obtain xs p ys where fs: "fs = xs @ p # ys" "fits n h p" "\<forall>i \<in> set xs. \<not> fits n h i"
      using split_list_first_prop by metis
    have ff: "find_fit n None (h_free h) h = Some (Some (last_opt xs, p))"
      using find_fit_some [of h "h_free h" xs p ys n None] c(1) fs by (auto simp: last_opt_def)
    have "\<exists>h'. take_block n (last_opt xs) p h = Some h' \<and> served lo h us n p h'"
    proof (cases "is_top n p h")
      case True
      then show ?thesis using take_top [OF inv [unfolded fs(1)] True n(3,2)] by simp
    next
      case False
      then have "n \<le> size_of h p" using fs(2) by (simp add: fits_def)
      from take_fit [OF inv [unfolded fs(1)] False this n(3)] show ?thesis .
    qed
    then obtain h' where h': "take_block n (last_opt xs) p h = Some h'" "served lo h us n p h'" by blast
    then have "alloc_block num h = Some (Some p, h')" using ff by (simp add: alloc_block_def n_def [symmetric] Let_def)
    then show ?thesis using served_le [OF h'(2) n(1)] by auto
  next
    case False
    then have ff: "find_fit n None (h_free h) h = Some None" using find_fit_none [OF c(1)] by blast
    have nf: "\<forall>i \<in> set fs. size_of h i < align_up (h_align h) num" using False by (auto simp: fits_def n_def)
    show ?thesis
    proof (cases rs)
      case Nil
      then have "h_fresh h = None" using c(3) by simp
      then have "alloc_block num h = Some (None, h)" using ff by (simp add: alloc_block_def n_def [symmetric] Let_def)
      then show ?thesis using nf Nil by (auto simp: no_room_def)
    next
      case (Cons f rs')
      then have fr: "h_fresh h = Some f" using c(3) by simp
      show ?thesis
      proof (cases "h_top h + n \<le> h_limit h")
        case True
        from take_fresh [OF inv [unfolded Cons] True n(3,2)] show ?thesis
          using ff fr True served_le [OF _ n(1)] by (auto simp: alloc_block_def n_def [symmetric] Let_def)
      next
        case False
        then have "alloc_block num h = Some (None, h)" using ff fr by (simp add: alloc_block_def n_def [symmetric] Let_def)
        then show ?thesis using nf False by (auto simp: no_room_def n_def)
      qed
    qed
  qed
qed

lemma free_unknown:
  assumes inv: "heap_inv lo h fs us rs" and a: "\<And>i. i \<in> set us \<Longrightarrow> addr_of h i \<noteq> a"
  shows "free a h = Some (False, h)"
  using find_used_none [of h "h_used h" us a None] inv a by (simp add: heap_inv_def chains_def free_def)

section \<open>Initialisation\<close>

lemma init_blocks_next:
  "next_blk (init_blocks n b h) j =
     (if b \<le> j \<and> j < b + n then Some (Suc j) else if j = b + n then None else next_blk h j)"
  by (induction n arbitrary: b h) (auto simp: upd_defs)

lemma init_blocks_same:
  "h_free (init_blocks n b h) = h_free h" "h_used (init_blocks n b h) = h_used h" "h_fresh (init_blocks n b h) = h_fresh h"
  "h_top (init_blocks n b h) = h_top h" "h_limit (init_blocks n b h) = h_limit h" "h_thresh (init_blocks n b h) = h_thresh h"
  "h_align (init_blocks n b h) = h_align h" "h_max (init_blocks n b h) = h_max h"
  by (induction n arbitrary: b h) (auto simp: upd_defs)

lemma lseg_upto:
  "(\<And>j. b \<le> j \<Longrightarrow> j < b + n \<Longrightarrow> f j = Some (Suc j)) \<Longrightarrow> f (b + n) = None \<Longrightarrow> lseg f (Some b) [b ..< Suc (b + n)] None"
proof (induction n arbitrary: b)
  case 0
  then show ?case by simp
next
  case (Suc n)
  have "lseg f (Some (Suc b)) [Suc b ..< Suc (Suc b + n)] None"
    using Suc.prems by (intro Suc.IH) auto
  moreover have "f b = Some (Suc b)" using Suc.prems(1) [of b] by simp
  ultimately show ?case by (simp add: upt_conv_Cons del: upt_Suc)
qed

definition heap_start :: "u32 \<Rightarrow> u32 \<Rightarrow> u32" where
  "heap_start base blocks = base + 16 + 12 * blocks"

lemma malloc_init_inv:
  assumes "blocks \<noteq> 0" "thresh \<noteq> 0" "heap_start base blocks \<noteq> 0" "heap_start base blocks \<le> limit" "unat limit \<le> 2 ^ 31"
  shows "heap_inv (unat (heap_start base blocks)) (malloc_init base limit blocks thresh al g) [] [] [0 ..< unat blocks]"
proof -
  let ?h = "malloc_init base limit blocks thresh al g"
  have n: "unat blocks = Suc (0 + unat (blocks - 1))"
    using assms(1) by (simp add: unat_minus_one unat_gt_0 Suc_diff_1)
  have "lseg (next_blk ?h) (Some 0) [0 ..< unat blocks] None"
    unfolding n malloc_init_def by (rule lseg_upto) (simp_all add: init_blocks_next)
  then have "chains ?h [] [] [0 ..< unat blocks]"
    by (simp add: chains_def malloc_init_def init_blocks_same)
  then show ?thesis
    using assms by (simp add: heap_inv_def malloc_init_def init_blocks_same heap_start_def by_addr_def blocks_ok_def unat_gt_0)
qed

section \<open>Counting, clearing\<close>

lemma count_blocks_spec: "lseg (next_blk h) p xs None \<Longrightarrow> count_blocks p n h = Some (n + of_nat (length xs))"
proof (induction xs arbitrary: p n)
  case Nil
  then show ?case by (subst count_blocks.simps) simp
next
  case (Cons x xs)
  then show ?case by (subst count_blocks.simps) (auto simp: add.assoc)
qed

lemma clear_words_eq: "4 * n \<le> 2 ^ 32 \<Longrightarrow> clear_words n m p = (wr_bytes m p (replicate (4 * n) 0), p + of_nat (4 * n))"
proof (induction n arbitrary: m p)
  case 0
  then show ?case by simp
next
  case (Suc n)
  have "replicate (4 * Suc n) (0 :: u8) = be32 0 @ replicate (4 * n) 0"
    by (simp add: be32_zero numeral_eq_Suc)
  with Suc show ?case by (simp add: wr32_def wr_bytes_append del: replicate.simps)
qed

lemma clear_bytes_eq: "clear_bytes n m p = wr_bytes m p (replicate n 0)"
  by (induction n arbitrary: m p) auto

lemma memclear_eq: "memclear m p num = wr_bytes m p (replicate (unat num) 0)"
proof -
  have "num AND - 4 = num AND - (2 ^ 2)" by simp
  then have "unat (num AND - 4) = unat num div 4 * 4" using unat_mask_off [of 2 num] by simp
  then have w: "unat ((num AND - 4) div 4) = unat num div 4" by (simp add: unat_div)
  have "num AND 3 = take_bit 2 num" by (simp add: take_bit_eq_mask mask_eq_exp_minus_1)
  then have b: "unat (num AND 3) = unat num mod 4" by (simp add: unat_mod take_bit_eq_mod)
  have l: "4 * (unat num div 4) \<le> 2 ^ 32" using unat_less_32 [of num] by simp
  have "replicate (unat num) (0 :: u8) = replicate (4 * (unat num div 4)) 0 @ replicate (unat num mod 4) 0"
    by (simp flip: replicate_add)
  then show ?thesis
    by (simp add: memclear_def w b clear_words_eq [OF l] clear_bytes_eq wr_bytes_append)
qed

section \<open>Sequences of calls\<close>

datatype mcall = Malloc u32 | Free u32

fun m_step :: "mcall \<Rightarrow> heap \<Rightarrow> heap option" where
  "m_step (Malloc n) h = map_option snd (malloc n h)"
| "m_step (Free a) h = map_option snd (free a h)"

fun m_run :: "mcall list \<Rightarrow> heap \<Rightarrow> heap option" where
  "m_run [] h = Some h"
| "m_run (c # cs) h = Option.bind (m_step c h) (m_run cs)"

fun call_ok :: "u32 \<Rightarrow> mcall \<Rightarrow> bool" where
  "call_ok alignment (Malloc n) \<longleftrightarrow> n \<noteq> 0 \<and> unat n + unat alignment \<le> 2 ^ 31"
| "call_ok alignment (Free a) \<longleftrightarrow> True"

lemma m_step_inv:
  assumes inv: "heap_inv lo h fs us rs" and al: "h_align h = 2 ^ k" "k < 31" and c: "call_ok (2 ^ k) c"
  shows "\<exists>h' fs' us' rs'. m_step c h = Some h' \<and> heap_inv lo h' fs' us' rs' \<and> h_align h' = h_align h"
proof (cases c)
  case (Malloc n)
  have "size_ok h n" using c al Malloc by (auto simp: size_ok_def unat_exp)
  from alloc_block_spec [OF inv this] obtain r h' where r: "alloc_block n h = Some (r, h')"
    "case r of None \<Rightarrow> h' = h \<and> no_room h fs rs n | Some p \<Rightarrow> served lo h us n p h'" by blast
  then have "m_step c h = Some h'" by (simp add: Malloc malloc_def)
  then show ?thesis using r(2) inv by (cases r) (auto simp: served_def)
next
  case (Free a)
  show ?thesis
  proof (cases "\<exists>b \<in> set us. addr_of h b = a")
    case True
    then obtain b xs ys where us: "us = xs @ b # ys" "addr_of h b = a" by (metis split_list)
    from free_spec [OF inv [unfolded us(1)]] show ?thesis by (auto simp: Free us(2))
  next
    case False
    then have "free a h = Some (False, h)" using free_unknown [OF inv] by blast
    then show ?thesis using inv by (auto simp: Free)
  qed
qed

section \<open>Properties\<close>

text \<open>
  C4: from an initialised heap, every sequence of allocations (of sizes from 1 byte to
  2 GB) and frees (of any address) terminates, follows no null pointer and keeps the invariant:
  the three lists hold every block of the array once, the free list is sorted, and no two
  blocks that are free or in use share a byte of the heap.
\<close>

theorem malloc_run_keeps_heap:
  assumes "blocks \<noteq> 0" "thresh \<noteq> 0" "heap_start base blocks \<noteq> 0" "heap_start base blocks \<le> limit" "unat limit \<le> 2 ^ 31"
    and "k < 31" "\<And>c. c \<in> set cs \<Longrightarrow> call_ok (2 ^ k) c"
  shows "\<exists>h fs us rs. m_run cs (malloc_init base limit blocks thresh (2 ^ k) g) = Some h \<and>
    heap_inv (unat (heap_start base blocks)) h fs us rs"
proof -
  have "\<exists>h' fs' us' rs'. m_run cs h = Some h' \<and> heap_inv lo h' fs' us' rs'"
    if "heap_inv lo h fs us rs" "h_align h = 2 ^ k" "\<And>c. c \<in> set cs \<Longrightarrow> call_ok (2 ^ k) c" for lo h fs us rs
    using that
  proof (induction cs arbitrary: h fs us rs)
    case Nil
    then show ?case by auto
  next
    case (Cons c cs)
    from m_step_inv [OF Cons.prems(1,2) assms(6), of c] Cons.prems(3) obtain h1 fs1 us1 rs1 where
      "m_step c h = Some h1" "heap_inv lo h1 fs1 us1 rs1" "h_align h1 = h_align h" by auto
    with Cons.IH [of h1 fs1 us1 rs1] Cons.prems(2,3) show ?case by simp
  qed
  from this [OF malloc_init_inv [OF assms(1-5)] _ assms(7)] show ?thesis
    by (simp add: malloc_init_def init_blocks_same)
qed

text \<open>
  C5: for a size from 1 byte to 2 GB (\<open>size_ok\<close>), \<open>malloc\<close> hands out a block of at least that size that
  shares no byte with any block in use, keeps every block in use where it is, and gives up only when no
  free block is large enough and there is no unused block or no space at the top.  Outside that range it
  does not hold: \<open>malloc_zero_aliases\<close>, \<open>malloc_huge_succeeds\<close>.
\<close>

theorem malloc_serves:
  assumes "heap_inv lo h fs us rs" "size_ok h num"
  shows "\<exists>a h'. malloc num h = Some (a, h') \<and>
    (a = 0 \<and> h' = h \<and> no_room h fs rs num \<or> (\<exists>p. a \<noteq> 0 \<and> addr_of h' p = a \<and> served lo h us num p h'))"
proof -
  from alloc_block_spec [OF assms] obtain r h' where r: "alloc_block num h = Some (r, h')"
    "case r of None \<Rightarrow> h' = h \<and> no_room h fs rs num | Some p \<Rightarrow> served lo h us num p h'" by blast
  show ?thesis
  proof (cases r)
    case None
    then show ?thesis using r by (auto simp: malloc_def)
  next
    case (Some p)
    then have s: "served lo h us num p h'" using r by simp
    then obtain fs' rs' where i: "heap_inv lo h' fs' (p # us) rs'" by (auto simp: served_def)
    then have "lo \<le> unat (addr_of h' p)" "0 < lo"
      using blocks_ok_end(2) [of lo h' "set fs' \<union> set (p # us)" p] by (auto simp: heap_inv_def)
    then have "addr_of h' p \<noteq> 0" by auto
    then show ?thesis using r(1) s Some by (auto simp: malloc_def)
  qed
qed

text \<open>
  C6: \<open>free\<close> of the address of a block in use takes exactly this block out of use, moves
  no other block in use, and keeps the invariant.
\<close>

theorem free_releases:
  assumes "heap_inv lo h fs (xs @ b # ys) rs"
  shows "\<exists>h' fs' rs'. free (addr_of h b) h = Some (True, h') \<and> heap_inv lo h' fs' (xs @ ys) rs' \<and>
    (\<forall>i \<in> set (xs @ ys). addr_of h' i = addr_of h i \<and> size_of h' i = size_of h i)"
  using free_spec [OF assms] by auto

text \<open>
  \<open>malloc_check\<close>, which counts the three lists, never finds a block missing.
\<close>

theorem malloc_check_holds:
  assumes "heap_inv lo h fs us rs"
  shows "malloc_check h = Some True"
proof -
  note c = chainsD [of h fs us rs]
  have "chains h fs us rs" "length fs + length us + length rs = unat (h_max h)"
    using assms by (auto simp: heap_inv_def)
  then have "of_nat (length fs) + of_nat (length us) + of_nat (length rs) = (of_nat (unat (h_max h)) :: u32)"
    by (metis of_nat_add)
  then show ?thesis
    using c [OF \<open>chains h fs us rs\<close>]
    by (simp add: malloc_check_def malloc_num_free_def malloc_num_used_def malloc_num_fresh_def count_blocks_spec)
qed

text \<open>
  \<open>calloc\<close> clears the bytes it was asked for, and no others, if the product of its
  arguments does not overflow.
\<close>

theorem calloc_clears:
  assumes "heap_inv lo h fs us rs" "size_ok h (num * sz)" "unat num * unat sz < 2 ^ 32"
  shows "\<exists>a h' m'. calloc num sz (h, m) = Some (a, h', m') \<and>
    (a = 0 \<and> h' = h \<and> m' = m \<or> (\<exists>p. a \<noteq> 0 \<and> addr_of h' p = a \<and> served lo h us (num * sz) p h' \<and>
       m' = wr_bytes m a (replicate (unat num * unat sz) 0)))"
proof -
  have u: "unat (num * sz) = unat num * unat sz" using assms(3) by (simp add: unat_word_ariths)
  from alloc_block_spec [OF assms(1,2)] obtain r h' where r: "alloc_block (num * sz) h = Some (r, h')"
    "case r of None \<Rightarrow> h' = h \<and> no_room h fs rs (num * sz) | Some p \<Rightarrow> served lo h us (num * sz) p h'" by blast
  show ?thesis
  proof (cases r)
    case None
    then show ?thesis using r by (auto simp: calloc_def)
  next
    case (Some p)
    then have s: "served lo h us (num * sz) p h'" using r by simp
    then obtain fs' rs' where i: "heap_inv lo h' fs' (p # us) rs'" by (auto simp: served_def)
    then have "lo \<le> unat (addr_of h' p)" "0 < lo"
      using blocks_ok_end(2) [of lo h' "set fs' \<union> set (p # us)" p] by (auto simp: heap_inv_def)
    then have "addr_of h' p \<noteq> 0" by auto
    then show ?thesis using r(1) s Some by (auto simp: calloc_def memclear_eq u)
  qed
qed

text \<open>
  A request of 0 bytes that finds the free list empty takes a block without moving
  the top of the heap, so the next allocation returns the same address.
\<close>

theorem malloc_zero_aliases:
  assumes inv: "heap_inv lo h [] us (f # g # rs)" and al: "h_align h = 2 ^ k" "k < 31"
    and n: "size_ok h n" "h_top h + align_up (h_align h) n \<le> h_limit h"
  shows "\<exists>h1 h2. malloc 0 h = Some (h_top h, h1) \<and> malloc n h1 = Some (h_top h, h2)"
proof -
  have ch: "chains h [] us (f # g # rs)" and lim: "h_top h \<le> h_limit h" using inv by (auto simp: heap_inv_def)
  note c = chainsD [OF ch]
  have fr: "h_free h = None" "h_fresh h = Some f" "next_blk h f = Some g" using c by auto
  have z: "align_up (h_align h) 0 = 0"
  proof -
    have "(2 ^ k - 1 :: u32) = mask k" by (simp add: mask_eq_exp_minus_1)
    then show ?thesis using al by (simp add: align_up_def minus_exp_eq_not_mask bit_eq_iff bit_simps)
  qed
  define h1 where "h1 = (upd_blk f (\<lambda>b. b\<lparr>b_addr := h_top h, b_next := h_used h, b_size := 0\<rparr>) h)
      \<lparr>h_fresh := Some g, h_used := Some f, h_top := h_top h\<rparr>"
  have 1: "malloc 0 h = Some (h_top h, h1)"
    using lim by (simp add: malloc_def alloc_block_def fr z find_fit.simps h1_def upd_defs Let_def)
  have g: "h_free h1 = None" "h_fresh h1 = Some g" "h_top h1 = h_top h" "h_limit h1 = h_limit h" "h_align h1 = h_align h"
    by (simp_all add: h1_def upd_defs fr)
  have "\<exists>h2. malloc n h1 = Some (h_top h, h2)"
    using n(2) by (simp add: malloc_def alloc_block_def g find_fit.simps upd_defs Let_def)
  with 1 show ?thesis by blast
qed

text \<open>
  A request close to 4 GB overflows when it is rounded up and is served with a
  block of no bytes.
\<close>

theorem malloc_huge_succeeds:
  assumes "heap_inv lo h [] us (f # rs)" "h_align h = 4"
  shows "\<exists>h'. malloc 0xFFFFFFFF h = Some (h_top h, h') \<and> h_top h \<noteq> 0 \<and> size_of h' f = 0"
proof -
  have ch: "chains h [] us (f # rs)" and lim: "h_top h \<le> h_limit h" "0 < lo" "lo \<le> unat (h_top h)"
    using assms(1) by (auto simp: heap_inv_def)
  have fr: "h_free h = None" "h_fresh h = Some f" using chainsD [OF ch] by auto
  have "align_up 4 0xFFFFFFFF = 0" by (simp add: align_up_def)
  then show ?thesis
    using lim by (auto simp: malloc_def alloc_block_def assms(2) fr find_fit.simps upd_defs Let_def)
qed

text \<open>The heap as the shell initialises it: 64 blocks, threshold 16, alignment 4.\<close>

definition demo_heap :: heap where
  "demo_heap = malloc_init 0x94000 0xB4000 64 16 4 (\<lambda>_. \<lparr>b_addr = 0, b_next = None, b_size = 0\<rparr>)"

lemma demo_heap_inv: "heap_inv 606992 demo_heap [] [] (0 # 1 # [2 ..< 64])"
proof -
  have "[0 ..< 64] = 0 # 1 # [2 ..< 64]" by (simp add: upt_conv_Cons)
  then show ?thesis
    using malloc_init_inv [of 64 16 "0x94000" "0xB4000" 4 "\<lambda>_. \<lparr>b_addr = 0, b_next = None, b_size = 0\<rparr>"]
    by (simp add: demo_heap_def heap_start_def)
qed

lemma demo_heap_fields: "h_align demo_heap = 4" "h_top demo_heap = 0x94310" "h_limit demo_heap = 0xB4000"
  by (simp_all add: demo_heap_def malloc_init_def init_blocks_same)

lemma demo_size: "size_ok demo_heap 100"
  unfolding size_ok_def by (intro conjI exI [of _ 2]) (simp_all add: demo_heap_fields)

theorem malloc_run_keeps_heap_witness:
  "\<exists>h fs us rs. m_run [Malloc 100, Malloc 20, Free 0x94310, Malloc 50] demo_heap = Some h \<and> heap_inv 606992 h fs us rs"
proof -
  have "call_ok (2 ^ 2) c" if "c \<in> set [Malloc 100, Malloc 20, Free 0x94310, Malloc 50]" for c
    using that by auto
  then have "\<exists>h fs us rs. m_run [Malloc 100, Malloc 20, Free 0x94310, Malloc 50] (malloc_init 0x94000 0xB4000 64 16 (2 ^ 2)
      (\<lambda>_. \<lparr>b_addr = 0, b_next = None, b_size = 0\<rparr>)) = Some h \<and> heap_inv (unat (heap_start 0x94000 64)) h fs us rs"
    by (intro malloc_run_keeps_heap) (simp_all add: heap_start_def)
  then show ?thesis by (simp add: demo_heap_def heap_start_def del: m_run.simps)
qed

theorem malloc_serves_witness:
  "\<exists>a h'. malloc 100 demo_heap = Some (a, h') \<and> a \<noteq> 0"
proof -
  have "\<not> no_room demo_heap [] (0 # 1 # [2 ..< 64]) 100"
    by (simp add: no_room_def demo_heap_fields align_up_def)
  with malloc_serves [OF demo_heap_inv demo_size] show ?thesis by blast
qed

theorem malloc_check_holds_witness: "malloc_check demo_heap = Some True"
  by (rule malloc_check_holds [OF demo_heap_inv])

theorem calloc_clears_witness:
  "\<exists>r. calloc 25 4 (demo_heap, \<lambda>_. 7) = Some r"
  using calloc_clears [OF demo_heap_inv, of 25 4 "\<lambda>_. 7"] demo_size by auto

theorem malloc_zero_aliases_witness:
  "\<exists>h1 h2. malloc 0 demo_heap = Some (0x94310, h1) \<and> malloc 100 h1 = Some (0x94310, h2)"
  using malloc_zero_aliases [OF demo_heap_inv, of 2 100] demo_size
  by (simp add: demo_heap_fields align_up_def)

theorem malloc_huge_succeeds_witness:
  "\<exists>h'. malloc 0xFFFFFFFF demo_heap = Some (0x94310, h')"
  using malloc_huge_succeeds [OF demo_heap_inv] by (auto simp: demo_heap_fields)

theorem free_releases_witness:
  "\<exists>a h1 h2. malloc 100 demo_heap = Some (a, h1) \<and> free a h1 = Some (True, h2)"
proof -
  obtain r h1 where r: "alloc_block 100 demo_heap = Some (r, h1)"
    "case r of None \<Rightarrow> h1 = demo_heap \<and> no_room demo_heap [] (0 # 1 # [2 ..< 64]) 100 | Some p \<Rightarrow> served 606992 demo_heap [] 100 p h1"
    using alloc_block_spec [OF demo_heap_inv demo_size] by blast
  have "\<not> no_room demo_heap [] (0 # 1 # [2 ..< 64]) 100"
    by (simp add: no_room_def demo_heap_fields align_up_def)
  then obtain p where p: "r = Some p" "served 606992 demo_heap [] 100 p h1" using r(2) by (cases r) auto
  then obtain fs rs where i: "heap_inv 606992 h1 fs ([] @ p # []) rs" by (auto simp: served_def)
  from free_releases [OF i] r(1) p(1) show ?thesis by (auto simp: malloc_def)
qed

end
