(* ===== verification/Shell.thy ===== *)
theory Shell
  imports Vfs PicLoader Printf "HOL-Library.Monad_Syntax"
begin

text \<open>
  The command interpreter (\<^verbatim>\<open>apps/shell/shell.c\<close>): reading a line, taking it apart, redirecting,
  the table of commands, the boot script and the main loop.  The state is that of the virtual
  file system, with the memory, and the table of program slots.  The addresses of string
  literals and of the buffers on the stack are given by the environment, as are the directory
  functions of the file library, whose results are whatever the trap leaves in D0, and the program
  the loader starts.  The static pointer of \<open>strtok\<close> is local to \<open>execute_line\<close>, which always
  sets it before it uses it.
\<close>

section \<open>Environment\<close>

record 'fs shell_env =
  env_fat :: "'fs fatfs"
  env_lit :: "u8 list \<Rightarrow> u32"
  env_copy :: u32  \<comment> \<open>\<open>line_copy[256]\<close> of \<open>execute_line\<close>\<close>
  env_buf :: u32   \<comment> \<open>\<open>buf[16]\<close> of \<open>execute_line\<close>\<close>
  env_data :: u32  \<comment> \<open>\<open>buffer[128]\<close> of \<open>cmd_cat\<close> and \<open>cmd_meminfo\<close>\<close>
  env_line :: u32  \<comment> \<open>\<open>line[256]\<close> of \<open>shell_loop\<close>\<close>
  env_boot :: u32  \<comment> \<open>\<open>line[256]\<close> of \<open>run_boot_script\<close>\<close>
  env_char :: u32  \<comment> \<open>\<open>c\<close> of \<open>run_boot_script\<close>\<close>
  env_fname :: u32 \<comment> \<open>\<open>fno.fname\<close>\<close>
  env_opendir :: "u8 list \<Rightarrow> 'fs \<Rightarrow> u8 \<times> 'fs"
  env_readdir :: "'fs \<Rightarrow> u8 \<times> u8 list \<times> u8 \<times> 'fs"
  env_closedir :: "'fs \<Rightarrow> 'fs"
  env_mkdir :: "u8 list \<Rightarrow> 'fs \<Rightarrow> u8 \<times> 'fs"
  env_findfirst :: "u8 list \<Rightarrow> u8 list \<Rightarrow> 'fs \<Rightarrow> u8 \<times> u8 list \<times> u32 \<times> u8 \<times> 'fs"
  env_elf :: "u8 list \<Rightarrow> 'fs \<Rightarrow> efile option"
  env_run :: "u32 \<Rightarrow> u32 \<Rightarrow> mem \<Rightarrow> (int \<times> mem) option"

type_synonym 'fs shell = "'fs vfs \<times> slots"

definition AM_DIR :: u8 where "AM_DIR = 0x10"
definition CMD_EXIT_SHELL :: int where "CMD_EXIT_SHELL = 99"

definition set_byte :: "u32 \<Rightarrow> u8 \<Rightarrow> 'fs vfs \<Rightarrow> 'fs vfs" where
  "set_byte a c st = st\<lparr>v_mem := (v_mem st)(a := c)\<rparr>"

text \<open>\<open>vfs_write(1, "...", n)\<close> of a literal, and \<open>vfs_write(1, s, strlen(s))\<close>.\<close>

definition say :: "'fs shell_env \<Rightarrow> u8 list \<Rightarrow> u32 \<Rightarrow> 'fs vfs \<Rightarrow> 'fs vfs option" where
  "say env t n st = map_option snd (vfs_write (env_fat env) 1 (env_lit env t) n st)"

definition say_str :: "'fs shell_env \<Rightarrow> u32 \<Rightarrow> 'fs vfs \<Rightarrow> 'fs vfs option" where
  "say_str env s st = do { n \<leftarrow> strlen (v_mem st) s; map_option snd (vfs_write (env_fat env) 1 s n st) }"

text \<open>\<open>printf\<close> writes to the console, whatever descriptor 1 is.\<close>

definition say_printf :: "'fs shell_env \<Rightarrow> u8 list \<Rightarrow> u32 list \<Rightarrow> 'fs vfs \<Rightarrow> 'fs vfs option" where
  "say_printf env t args st = map_option (\<lambda>(n, out). v_print out st) (printf (v_mem st) (env_lit env t) args)"

definition open_at :: "'fs shell_env \<Rightarrow> u32 \<Rightarrow> u32 \<Rightarrow> 'fs vfs \<Rightarrow> (int \<times> 'fs vfs) option" where
  "open_at env p flags st = do { path \<leftarrow> text_at (v_mem st) p; vfs_open (env_fat env) path flags st }"

section \<open>\<open>gets_line\<close>\<close>

definition v_getchar :: "'fs vfs \<Rightarrow> (u8 \<times> 'fs vfs) option" where
  "v_getchar st = (case v_in st of [] \<Rightarrow> None | c # cs \<Rightarrow> Some (c, st\<lparr>v_in := cs\<rparr>))"

partial_function (option) gets_line_loop :: "u32 \<Rightarrow> int \<Rightarrow> int \<Rightarrow> 'fs vfs \<Rightarrow> 'fs vfs option" where
  "gets_line_loop buffer sz i st =
     (if i < sz - 1 then do {
        (c, st1) \<leftarrow> v_getchar st;
        if c = 13 \<or> c = 10 then Some (v_putchar 10 (set_byte (buffer + of_int i) 0 st1))
        else if c = 8 \<or> c = 0x7F then
          (if i > 0 then gets_line_loop buffer sz (i - 1) (v_print [8, 32, 8] st1)
           else gets_line_loop buffer sz i st1)
        else if schar c \<ge> 0x20 \<and> schar c < 0x7F then
          gets_line_loop buffer sz (i + 1) (v_putchar c (set_byte (buffer + of_int i) c st1))
        else gets_line_loop buffer sz i st1 }
      else Some (set_byte (buffer + of_int i) 0 st))"

definition gets_line :: "u32 \<Rightarrow> int \<Rightarrow> 'fs vfs \<Rightarrow> 'fs vfs option" where
  "gets_line buffer sz st = gets_line_loop buffer sz 0 st"

section \<open>The commands\<close>

datatype command_fn = fn_help | fn_echo | fn_cat | fn_ls | fn_cd | fn_mkdir | fn_reboot
  | fn_shutdown | fn_meminfo | fn_clear | fn_exit

definition commands :: "(u8 list \<times> command_fn) list" where
  "commands = [(bytes_of ''help'', fn_help), (bytes_of ''echo'', fn_echo), (bytes_of ''cat'', fn_cat),
     (bytes_of ''ls'', fn_ls), (bytes_of ''cd'', fn_cd), (bytes_of ''mkdir'', fn_mkdir),
     (bytes_of ''reboot'', fn_reboot), (bytes_of ''shutdown'', fn_shutdown),
     (bytes_of ''meminfo'', fn_meminfo), (bytes_of ''clear'', fn_clear), (bytes_of ''exit'', fn_exit)]"

fun help_loop :: "'fs shell_env \<Rightarrow> (u8 list \<times> command_fn) list \<Rightarrow> 'fs vfs \<Rightarrow> 'fs vfs option" where
  "help_loop env [] st = Some st"
| "help_loop env ((name, f) # cs) st = do {
     st1 \<leftarrow> say env (bytes_of ''  '') 2 st;
     st2 \<leftarrow> say_str env (env_lit env name) st1;
     st3 \<leftarrow> say env [10] 1 st2;
     help_loop env cs st3 }"

definition cmd_help :: "'fs shell_env \<Rightarrow> 'fs vfs \<Rightarrow> (int \<times> 'fs vfs) option" where
  "cmd_help env st = do {
     st1 \<leftarrow> say env (bytes_of ''Comandos disponiveis:'' @ [10]) 23 st;
     st2 \<leftarrow> help_loop env commands st1;
     Some (0, st2) }"

text \<open>The loop of \<open>cmd_echo\<close> at \<open>argv[i]\<close>, with the arguments from there on.\<close>

fun echo_loop :: "'fs shell_env \<Rightarrow> nat \<Rightarrow> u32 list \<Rightarrow> 'fs vfs \<Rightarrow> 'fs vfs option" where
  "echo_loop env i [] st = Some st"
| "echo_loop env i (a # as) st = do {
     st1 \<leftarrow> say_printf env (bytes_of ''cmd_echo: argv[%d]='' @ 39 # bytes_of ''%s'' @ [39, 10]) [of_nat i, a] st;
     st2 \<leftarrow> say_str env a st1;
     st3 \<leftarrow> (if as \<noteq> [] then say env (bytes_of '' '') 1 st2 else Some st2);
     echo_loop env (Suc i) as st3 }"

definition cmd_echo :: "'fs shell_env \<Rightarrow> u32 list \<Rightarrow> 'fs vfs \<Rightarrow> (int \<times> 'fs vfs) option" where
  "cmd_echo env argv st = do {
     st1 \<leftarrow> echo_loop env 1 (drop 1 argv) st;
     st2 \<leftarrow> say env [10] 1 st1;
     Some (0, st2) }"

text \<open>\<open>while ((bytes = vfs_read(fd, buffer, sizeof(buffer))) > 0) vfs_write(1, buffer, bytes);\<close>\<close>

partial_function (option) cat_loop :: "'fs shell_env \<Rightarrow> int \<Rightarrow> 'fs vfs \<Rightarrow> 'fs vfs option" where
  "cat_loop env fd st = do {
     (n, st1) \<leftarrow> vfs_read (env_fat env) fd (env_data env) 128 st;
     if n > 0 then do {
       (k, st2) \<leftarrow> vfs_write (env_fat env) 1 (env_data env) (of_int n) st1;
       cat_loop env fd st2 }
     else Some st1 }"

definition cmd_cat :: "'fs shell_env \<Rightarrow> u32 list \<Rightarrow> 'fs vfs \<Rightarrow> (int \<times> 'fs vfs) option" where
  "cmd_cat env argv st =
     (if length argv < 2 then do { st1 \<leftarrow> say env (bytes_of ''Uso: cat <arquivo>'' @ [10]) 20 st; Some (- 1, st1) }
      else do {
        (fd, st1) \<leftarrow> open_at env (argv ! 1) O_RDONLY st;
        if fd < 0 then do {
          st2 \<leftarrow> say env (bytes_of ''Erro: nao foi possivel abrir '') 29 st1;
          st3 \<leftarrow> say_str env (argv ! 1) st2;
          st4 \<leftarrow> say env [10] 1 st3;
          Some (- 1, st4) }
        else do {
          st2 \<leftarrow> cat_loop env fd st1;
          (r, st3) \<leftarrow> vfs_close (env_fat env) fd st2;
          Some (0, st3) } })"

partial_function (option) ls_loop :: "'fs shell_env \<Rightarrow> 'fs vfs \<Rightarrow> 'fs vfs option" where
  "ls_loop env st =
     (let (r, name, attrib, fs) = env_readdir env (v_fs st);
          st1 = st\<lparr>v_fs := fs, v_mem := wr_bytes (v_mem st) (env_fname env) (name @ [0])\<rparr>
      in if r = FR_OK \<and> v_mem st1 (env_fname env) \<noteq> 0 then do {
           st2 \<leftarrow> say_str env (env_fname env) st1;
           st3 \<leftarrow> (if attrib AND AM_DIR \<noteq> 0 then say env (bytes_of ''/'') 1 st2 else Some st2);
           st4 \<leftarrow> say env (bytes_of ''  '') 2 st3;
           ls_loop env st4 }
         else Some st1)"

definition cmd_ls :: "'fs shell_env \<Rightarrow> u32 list \<Rightarrow> 'fs vfs \<Rightarrow> (int \<times> 'fs vfs) option" where
  "cmd_ls env argv st = do {
     let p = (if length argv > 1 then argv ! 1 else env_lit env (bytes_of ''/''));
     path \<leftarrow> text_at (v_mem st) p;
     let (r, fs) = env_opendir env path (v_fs st);
     let st1 = st\<lparr>v_fs := fs\<rparr>;
     if r \<noteq> FR_OK then do {
       st2 \<leftarrow> say env (bytes_of ''Erro: nao foi possivel listar '') 30 st1;
       st3 \<leftarrow> say_str env p st2;
       st4 \<leftarrow> say env [10] 1 st3;
       Some (- 1, st4) }
     else do {
       st2 \<leftarrow> ls_loop env st1;
       st3 \<leftarrow> say env [10] 1 st2;
       Some (0, st3\<lparr>v_fs := env_closedir env (v_fs st3)\<rparr>) } }"

definition cmd_cd :: "'fs shell_env \<Rightarrow> u32 list \<Rightarrow> 'fs vfs \<Rightarrow> (int \<times> 'fs vfs) option" where
  "cmd_cd env argv st =
     (if length argv < 2 then do { st1 \<leftarrow> say env (bytes_of ''cd: falta diretorio'' @ [10]) 21 st; Some (- 1, st1) }
      else do {
        st1 \<leftarrow> say env (bytes_of ''cd: mudando para '') 18 st;
        st2 \<leftarrow> say_str env (argv ! 1) st1;
        st3 \<leftarrow> say env [10] 1 st2;
        Some (0, st3) })"

definition cmd_mkdir :: "'fs shell_env \<Rightarrow> u32 list \<Rightarrow> 'fs vfs \<Rightarrow> (int \<times> 'fs vfs) option" where
  "cmd_mkdir env argv st =
     (if length argv < 2 then do { st1 \<leftarrow> say env (bytes_of ''mkdir: falta diretorio'' @ [10]) 24 st; Some (- 1, st1) }
      else do {
        path \<leftarrow> text_at (v_mem st) (argv ! 1);
        let (r, fs) = env_mkdir env path (v_fs st);
        let st1 = st\<lparr>v_fs := fs\<rparr>;
        if r \<noteq> FR_OK then do { st2 \<leftarrow> say env (bytes_of ''Erro ao criar diretorio'' @ [10]) 25 st1; Some (- 1, st2) }
        else do {
          st2 \<leftarrow> say env (bytes_of ''mkdir: criado '') 15 st1;
          st3 \<leftarrow> say_str env (argv ! 1) st2;
          st4 \<leftarrow> say env [10] 1 st3;
          Some (0, st4) } })"

definition cmd_reboot :: "'fs shell_env \<Rightarrow> 'fs vfs \<Rightarrow> (int \<times> 'fs vfs) option" where
  "cmd_reboot env st = do { st1 \<leftarrow> say env (bytes_of ''Reiniciando sistema...'' @ [10]) 24 st; Some (0, st1) }"

definition cmd_shutdown :: "'fs shell_env \<Rightarrow> 'fs vfs \<Rightarrow> (int \<times> 'fs vfs) option" where
  "cmd_shutdown env st = do { st1 \<leftarrow> say env (bytes_of ''Desligando sistema...'' @ [10]) 23 st; Some (0, st1) }"

definition cmd_meminfo :: "'fs shell_env \<Rightarrow> 'fs vfs \<Rightarrow> (int \<times> 'fs vfs) option" where
  "cmd_meminfo env st = do {
     (fd, st1) \<leftarrow> vfs_open (env_fat env) (bytes_of ''/proc/meminfo'') O_RDONLY st;
     if fd < 0 then do {
       st2 \<leftarrow> say env (bytes_of ''Erro: /proc/meminfo nao disponivel'' @ [10]) 36 st1;
       Some (- 1, st2) }
     else do {
       st2 \<leftarrow> cat_loop env fd st1;
       (r, st3) \<leftarrow> vfs_close (env_fat env) fd st2;
       Some (0, st3) } }"

definition cmd_clear :: "'fs shell_env \<Rightarrow> 'fs vfs \<Rightarrow> (int \<times> 'fs vfs) option" where
  "cmd_clear env st = do {
     (fd, st1) \<leftarrow> vfs_open (env_fat env) (bytes_of ''/dev/tty'') O_RDWR st;
     if fd \<ge> 0 then do {
       (r, st2) \<leftarrow> vfs_ioctl fd TIOC_CLEAR 0 st1;
       (r, st3) \<leftarrow> vfs_close (env_fat env) fd st2;
       Some (0, st3) }
     else Some (0, st1) }"

definition cmd_exit :: "'fs shell_env \<Rightarrow> 'fs vfs \<Rightarrow> (int \<times> 'fs vfs) option" where
  "cmd_exit env st = do { st1 \<leftarrow> say env (bytes_of ''Saindo do shell...'' @ [10]) 20 st; Some (CMD_EXIT_SHELL, st1) }"

text \<open>\<open>commands[i].func(argc, argv)\<close>.\<close>

fun call_command :: "'fs shell_env \<Rightarrow> command_fn \<Rightarrow> u32 list \<Rightarrow> 'fs vfs \<Rightarrow> (int \<times> 'fs vfs) option" where
  "call_command env fn_help argv = cmd_help env"
| "call_command env fn_echo argv = cmd_echo env argv"
| "call_command env fn_cat argv = cmd_cat env argv"
| "call_command env fn_ls argv = cmd_ls env argv"
| "call_command env fn_cd argv = cmd_cd env argv"
| "call_command env fn_mkdir argv = cmd_mkdir env argv"
| "call_command env fn_reboot argv = cmd_reboot env"
| "call_command env fn_shutdown argv = cmd_shutdown env"
| "call_command env fn_meminfo argv = cmd_meminfo env"
| "call_command env fn_clear argv = cmd_clear env"
| "call_command env fn_exit argv = cmd_exit env"

section \<open>Taking a line apart\<close>

partial_function (option) skip_spaces :: "mem \<Rightarrow> u32 \<Rightarrow> u32 option" where
  "skip_spaces m p = (if m p = 32 then skip_spaces m (p + 1) else Some p)"

text \<open>\<open>while (p > f && *p == ' ') *p-- = '\0';\<close>\<close>

function trim_tail :: "mem \<Rightarrow> u32 \<Rightarrow> u32 \<Rightarrow> mem" where
  "trim_tail m f p = (if p > f \<and> m p = 32 then trim_tail (m(p := 0)) f (p - 1) else m)"
  by pat_completeness auto
termination
proof (relation "measure (\<lambda>(m, f, p). unat p)")
  fix m :: mem and f p :: u32
  assume "f < p \<and> m p = 32"
  then have "p \<noteq> 0" by auto
  then show "((m(p := 0), f, p - 1), m, f, p) \<in> measure (\<lambda>(m, f, p). unat p)"
    by (simp add: unat_minus_one_step unat_gt_0)
qed simp

declare trim_tail.simps [simp del]

text \<open>The name behind a redirection sign, without the spaces around it.\<close>

definition redirect_name :: "mem \<Rightarrow> u32 \<Rightarrow> (u32 \<times> mem) option" where
  "redirect_name m p = do {
     f \<leftarrow> skip_spaces m p;
     n \<leftarrow> strlen m f;
     Some (f, trim_tail m f (f + n - 1)) }"

text \<open>\<open>>>\<close> and \<open>>\<close>: the mode, the name and the memory with the line cut.\<close>

definition output_redirect :: "'fs shell_env \<Rightarrow> mem \<Rightarrow> (nat \<times> u32 \<times> mem) option" where
  "output_redirect env m = do {
     append_pos \<leftarrow> strstr m (env_copy env) (env_lit env (bytes_of ''>>''));
     (mode, file, m1) \<leftarrow>
       (if append_pos \<noteq> 0 then
          map_option (\<lambda>(f, m'). (2, f, m')) (redirect_name (m(append_pos := 0)) (append_pos + 2))
        else Some (0, 0, m));
     output_pos \<leftarrow> strstr m1 (env_copy env) (env_lit env (bytes_of ''>''));
     if output_pos \<noteq> 0 \<and> mode = 0 \<and> m1 (output_pos + 1) \<noteq> 62 then
       map_option (\<lambda>(f, m'). (1, f, m')) (redirect_name (m1(output_pos := 0)) (output_pos + 1))
     else Some (mode, file, m1) }"

text \<open>\<open><\<close>: the descriptor, -1 if there is none, or \<open>None\<close> inside if the file cannot be opened.\<close>

definition input_redirect :: "'fs shell_env \<Rightarrow> 'fs vfs \<Rightarrow> (int option \<times> 'fs vfs) option" where
  "input_redirect env st = do {
     input_pos \<leftarrow> strstr (v_mem st) (env_copy env) (env_lit env (bytes_of ''<''));
     if input_pos \<noteq> 0 \<and> v_mem st (input_pos + 1) \<noteq> 60 then do {
       (f, m) \<leftarrow> redirect_name (v_mem st) (input_pos + 1);
       (fd, st1) \<leftarrow> open_at env f O_RDONLY (st\<lparr>v_mem := m\<rparr>);
       if fd < 0 then do {
         st2 \<leftarrow> say env (bytes_of ''Erro: nao foi possivel abrir entrada: '') 39 st1;
         st3 \<leftarrow> say_str env f st2;
         st4 \<leftarrow> say env [10] 1 st3;
         Some (None, st4) }
       else Some (Some fd, set_byte input_pos 0 st1) }
     else Some (Some (- 1), st) }"

text \<open>The loop over \<open>strtok\<close>, with room for \<open>n\<close> more arguments.\<close>

fun collect_args :: "nat \<Rightarrow> u32 \<Rightarrow> u32 \<Rightarrow> u32 \<Rightarrow> mem \<Rightarrow> (u32 list \<times> mem) option" where
  "collect_args 0 delim p token m = Some ([], m)"
| "collect_args (Suc n) delim p token m =
     (if token = 0 then Some ([], m)
      else do {
        (token', m1, p') \<leftarrow> strtok m p 0 delim;
        (as, m2) \<leftarrow> collect_args n delim p' token' m1;
        Some (token # as, m2) })"

definition split_words :: "u32 \<Rightarrow> u32 \<Rightarrow> mem \<Rightarrow> (u32 list \<times> mem) option" where
  "split_words delim cmd m = do {
     (token, m1, p) \<leftarrow> strtok m 0 cmd delim;
     collect_args 16 delim p token m1 }"

section \<open>Running a command\<close>

text \<open>The search of the table: the result of the command, -1 if there is none.\<close>

fun find_command :: "'fs shell_env \<Rightarrow> (u8 list \<times> command_fn) list \<Rightarrow> u32 list \<Rightarrow> 'fs vfs \<Rightarrow> (int \<times> 'fs vfs) option" where
  "find_command env [] argv st = Some (- 1, st)"
| "find_command env ((name, f) # cs) argv st = do {
     r \<leftarrow> strcmp (v_mem st) (env_lit env name) (argv ! 0);
     if r = 0 then call_command env f argv st else find_command env cs argv st }"

text \<open>\<open>findfirst\<close> fills \<open>fno\<close>, of which the name is kept in memory.\<close>

definition file_exists :: "'fs shell_env \<Rightarrow> u32 \<Rightarrow> 'fs vfs \<Rightarrow> (bool \<times> 'fs vfs) option" where
  "file_exists env pattern st = do {
     st1 \<leftarrow> say_printf env (bytes_of ''procurando por [/%s]'' @ [10]) [pattern] st;
     pat \<leftarrow> text_at (v_mem st1) pattern;
     let (fr, name, fsize, attrib, fs) = env_findfirst env (bytes_of ''/'') pat (v_fs st1);
     let st2 = st1\<lparr>v_fs := fs, v_mem := wr_bytes (v_mem st1) (env_fname env) (name @ [0])\<rparr>;
     let closed = (\<lambda>st. st\<lparr>v_fs := env_closedir env (v_fs st)\<rparr>);
     if fr = FR_OK then
       (if v_mem st2 (env_fname env) \<noteq> 0 then do {
          st3 \<leftarrow> say_printf env (bytes_of ''Arquivo encontrado: %s'' @ [10]) [env_fname env] st2;
          st4 \<leftarrow> say_printf env (bytes_of ''Tamanho: %lu bytes'' @ [10]) [fsize] st3;
          if attrib AND AM_DIR \<noteq> 0 then do {
            st5 \<leftarrow> say env ([0xC3, 0x89] @ bytes_of '' um diret'' @ [0xC3, 0xB3] @ bytes_of ''rio!'' @ [10]) 16 st4;
            Some (False, closed st5) }
          else Some (True, closed st4) }
        else do {
          st3 \<leftarrow> say_printf env (bytes_of ''File not found [%s]'' @ [10]) [env_fname env] st2;
          st4 \<leftarrow> say env (bytes_of ''File not found.'' @ [10]) 16 st3;
          Some (False, closed st4) })
     else Some (False, closed st2) }"

text \<open>A command that is not in the table, or that failed: a program of that name is looked for.\<close>

definition run_program :: "'fs shell_env \<Rightarrow> u32 list \<Rightarrow> 'fs shell \<Rightarrow> 'fs shell option" where
  "run_program env argv sh = do {
     let (st, sl) = sh;
     (n, m1) \<leftarrow> sprintf (v_mem st) (env_buf env) (env_lit env (bytes_of ''%s*'')) [argv ! 0];
     (found, st1) \<leftarrow> file_exists env (env_buf env) (st\<lparr>v_mem := m1\<rparr>);
     if found then do {
       st2 \<leftarrow> say env (bytes_of ''execute_line: Arquivo encontrado!'' @ [10]) 34 st1;
       st3 \<leftarrow> say_printf env (bytes_of ''args_copy[0][%s]'' @ [10]) [argv ! 0] st2;
       st4 \<leftarrow> say_printf env (bytes_of ''args_copy[1][%s]'' @ [10]) [argv ! 0] st3;
       (r, sl1, m2) \<leftarrow> loader_pic (env_run env)
         (\<lambda>p. Option.bind (text_at (v_mem st4) p) (\<lambda>path. env_elf env path (v_fs st4)))
         (env_lit env (bytes_of ''.elf'')) (argv ! 0) (argv ! 0) sl (v_mem st4);
       Some (st4\<lparr>v_mem := m2\<rparr>, sl1) }
     else do {
       st2 \<leftarrow> say env (bytes_of ''Comando desconhecido: '') 22 st1;
       st3 \<leftarrow> say_str env (argv ! 0) st2;
       st4 \<leftarrow> say env [10] 1 st3;
       Some (st4, sl) } }"

text \<open>\<open>fd_table[target] = get_file_from_fd(fd)\<close> when there is such a file.\<close>

definition redirect_to :: "int \<Rightarrow> int \<Rightarrow> 'fs vfs \<Rightarrow> 'fs vfs" where
  "redirect_to target fd st =
     (case get_file_from_fd fd st of
        None \<Rightarrow> st
      | Some f \<Rightarrow> st\<lparr>fd_table := (fd_table st)(target := Some f)\<rparr>)"

text \<open>Step 5: the file is closed and the console is opened in its place.\<close>

definition restore_fd :: "'fs shell_env \<Rightarrow> int \<Rightarrow> int \<Rightarrow> 'fs vfs \<Rightarrow> 'fs vfs option" where
  "restore_fd env target fd st =
     (if fd \<ge> 0 then do {
        (r, st1) \<leftarrow> vfs_close (env_fat env) fd st;
        (tty_fd, st2) \<leftarrow> vfs_open (env_fat env) (bytes_of ''/dev/tty'') O_RDWR st1;
        Some (if tty_fd \<ge> 0 then st2\<lparr>fd_table := (fd_table st2)(target := get_file_from_fd tty_fd st2)\<rparr> else st2) }
      else Some st)"

definition output_flags :: "nat \<Rightarrow> u32" where
  "output_flags mode = O_WRONLY OR (if mode = 1 then O_TRUNC else 0) OR (if mode = 2 then O_APPEND else 0)"

text \<open>Steps 3 to 5, from the words of the line on.\<close>

definition run_redirected :: "'fs shell_env \<Rightarrow> nat \<Rightarrow> u32 \<Rightarrow> int \<Rightarrow> u32 list \<Rightarrow> 'fs shell \<Rightarrow> (int \<times> 'fs shell) option" where
  "run_redirected env mode file input_fd argv sh = do {
     let (st, sl) = sh;
     let st1 = (if input_fd \<ge> 0 then redirect_to 0 input_fd st else st);
     (output_fd, st2) \<leftarrow> (if mode > 0 \<and> file \<noteq> 0 then open_at env file (output_flags mode) st1 else Some (- 1, st1));
     if mode > 0 \<and> file \<noteq> 0 \<and> output_fd < 0 then do {
       st3 \<leftarrow> say env (bytes_of ''Erro: nao foi possivel criar saida: '') 37 st2;
       st4 \<leftarrow> say_str env file st3;
       st5 \<leftarrow> say env [10] 1 st4;
       st6 \<leftarrow> (if input_fd \<ge> 0 then map_option snd (vfs_close (env_fat env) input_fd st5) else Some st5);
       Some (- 1, st6, sl) }
     else do {
       let st3 = (if mode > 0 \<and> file \<noteq> 0 then redirect_to 1 output_fd st2 else st2);
       (result, st4) \<leftarrow> find_command env commands argv st3;
       (st5, sl1) \<leftarrow> (if result \<noteq> 0 \<and> result \<noteq> CMD_EXIT_SHELL then run_program env argv (st4, sl) else Some (st4, sl));
       st6 \<leftarrow> restore_fd env 1 output_fd st5;
       st7 \<leftarrow> restore_fd env 0 input_fd st6;
       Some (result, st7, sl1) } }"

definition execute_line :: "'fs shell_env \<Rightarrow> u32 \<Rightarrow> 'fs shell \<Rightarrow> (int \<times> 'fs shell) option" where
  "execute_line env line0 sh = do {
     let (st, sl) = sh;
     line \<leftarrow> skip_spaces (v_mem st) line0;
     n \<leftarrow> strcspn (v_mem st) line (env_lit env [10]);
     let st1 = set_byte (line + n) 0 st;
     r \<leftarrow> strcspn (v_mem st1) line (env_lit env [13]);
     let st2 = set_byte (line + r) 0 st1;
     if v_mem st2 line = 0 \<or> v_mem st2 line = 35 then Some (0, st2, sl)
     else do {
       (d, m3) \<leftarrow> strcpy (v_mem st2) (env_copy env) line;
       heredoc_pos \<leftarrow> strstr m3 (env_copy env) (env_lit env (bytes_of ''<<''));
       if heredoc_pos \<noteq> 0 then do {
         st4 \<leftarrow> say env (bytes_of ''Heredoc nao implementado'' @ [10]) 26 (st2\<lparr>v_mem := m3\<rparr>);
         Some (- 1, st4, sl) }
       else do {
         (mode, file, m4) \<leftarrow> output_redirect env m3;
         (input, st5) \<leftarrow> input_redirect env (st2\<lparr>v_mem := m4\<rparr>);
         case input of
           None \<Rightarrow> Some (- 1, st5, sl)
         | Some input_fd \<Rightarrow> do {
             cmd \<leftarrow> skip_spaces (v_mem st5) (env_copy env);
             (argv, m6) \<leftarrow> split_words (env_lit env (bytes_of '' '')) cmd (v_mem st5);
             let st6 = st5\<lparr>v_mem := m6\<rparr>;
             if argv = [] then do {
               st7 \<leftarrow> (if input_fd \<ge> 0 then map_option snd (vfs_close (env_fat env) input_fd st6) else Some st6);
               Some (0, st7, sl) }
             else run_redirected env mode file input_fd argv (st6, sl) } } } }"

section \<open>The boot script and the main loop\<close>

definition boot_line :: "'fs shell_env \<Rightarrow> int \<Rightarrow> 'fs shell \<Rightarrow> 'fs shell option" where
  "boot_line env pos sh = do {
     let (st, sl) = sh;
     let st1 = set_byte (env_boot env + of_int pos) 0 st;
     if v_mem st1 (env_boot env) \<noteq> 35 then do {
       st2 \<leftarrow> say env (bytes_of ''[boot] '') 7 st1;
       st3 \<leftarrow> say_str env (env_boot env) st2;
       st4 \<leftarrow> say env [10] 1 st3;
       (r, sh5) \<leftarrow> execute_line env (env_boot env) (st4, sl);
       Some sh5 }
     else Some (st1, sl) }"

partial_function (option) boot_loop :: "'fs shell_env \<Rightarrow> int \<Rightarrow> int \<Rightarrow> 'fs shell \<Rightarrow> (int \<times> 'fs shell) option" where
  "boot_loop env fd pos sh = do {
     (n, st1) \<leftarrow> vfs_read (env_fat env) fd (env_char env) 1 (fst sh);
     if n > 0 then
       (let c = v_mem st1 (env_char env)
        in if c = 10 \<or> c = 13 then
             (if pos > 0 then do { sh2 \<leftarrow> boot_line env pos (st1, snd sh); boot_loop env fd 0 sh2 }
              else boot_loop env fd pos (st1, snd sh))
           else if pos < 255 then boot_loop env fd (pos + 1) (set_byte (env_boot env + of_int pos) c st1, snd sh)
           else boot_loop env fd pos (st1, snd sh))
     else Some (pos, st1, snd sh) }"

definition run_boot_script :: "'fs shell_env \<Rightarrow> 'fs shell \<Rightarrow> 'fs shell option" where
  "run_boot_script env sh = do {
     (fd, st1) \<leftarrow> vfs_open (env_fat env) (bytes_of ''/boot.bat'') O_RDONLY (fst sh);
     if fd < 0 then do {
       st2 \<leftarrow> say env (bytes_of ''Nenhum script de boot encontrado'' @ [10]) 34 st1;
       Some (st2, snd sh) }
     else do {
       st2 \<leftarrow> say env (10 # bytes_of ''=== Executando /boot.bat ==='' @ [10]) 31 st1;
       (pos, sh3) \<leftarrow> boot_loop env fd 0 (st2, snd sh);
       (st4, sl4) \<leftarrow> (if pos > 0 then boot_line env pos sh3 else Some sh3);
       (r, st5) \<leftarrow> vfs_close (env_fat env) fd st4;
       st6 \<leftarrow> say env (bytes_of ''=== Script de boot finalizado ==='' @ [10, 10]) 36 st5;
       Some (st6, sl4) } }"

text \<open>\<open>while (1)\<close>: the loop ends when a line gives \<open>CMD_EXIT_SHELL\<close>.\<close>

partial_function (option) prompt_loop :: "'fs shell_env \<Rightarrow> 'fs shell \<Rightarrow> 'fs shell option" where
  "prompt_loop env sh = do {
     st1 \<leftarrow> say env (bytes_of ''> '') 2 (fst sh);
     st2 \<leftarrow> gets_line (env_line env) 256 st1;
     (result, sh3) \<leftarrow> execute_line env (env_line env) (st2, snd sh);
     if result = CMD_EXIT_SHELL then Some sh3 else prompt_loop env sh3 }"

definition shell_loop :: "'fs shell_env \<Rightarrow> 'fs shell \<Rightarrow> 'fs shell option" where
  "shell_loop env sh = do {
     (st1, sl1) \<leftarrow> run_boot_script env sh;
     st2 \<leftarrow> say env (bytes_of ''--- Shell do Orion68DOS ---'' @ [10]) 29 st1;
     st3 \<leftarrow> say env (bytes_of ''Digite '' @ 39 # bytes_of ''help'' @ 39 # bytes_of '' para comandos'' @ [10, 10]) 30 st2;
     (st4, sl4) \<leftarrow> prompt_loop env (st3, sl1);
     st5 \<leftarrow> say env (bytes_of ''Shell finalizado.'' @ [10]) 19 st4;
     Some (st5, sl4) }"

text \<open>\<open>main\<close>, once the heap is initialised.\<close>

definition shell_main :: "'fs shell_env \<Rightarrow> 'fs shell \<Rightarrow> (int \<times> 'fs shell) option" where
  "shell_main env sh = do {
     st1 \<leftarrow> vfs_init (env_fat env) (fst sh);
     (st2, sl2) \<leftarrow> shell_loop env (st1, snd sh);
     st3 \<leftarrow> say env (bytes_of ''Retornando ao kernel...'' @ [10]) 25 st2;
     Some (0, st3, sl2) }"

end
