(* ===== verification/ShellLines.thy ===== *)
theory ShellLines
  imports Shell
begin

text \<open>
  How the shell takes a plain line apart: a line of words without redirections runs the command its
  first word names, with the words as its arguments.
\<close>

section \<open>Words\<close>

definition plain_word :: "u8 list \<Rightarrow> bool" where
  "plain_word w \<longleftrightarrow> w \<noteq> [] \<and> set w \<inter> {32, 10, 13, 60, 62} = {}"

fun join_words :: "u8 list list \<Rightarrow> u8 list" where
  "join_words [] = []"
| "join_words [w] = w"
| "join_words (w # ws) = w @ 32 # join_words ws"

lemma set_join_words: "set (join_words ws) \<subseteq> insert 32 (\<Union>w \<in> set ws. set w)"
  by (induction ws rule: join_words.induct) auto

lemma strstr_absent: "cstr m p s \<Longrightarrow> cstr m q (c # t) \<Longrightarrow> c \<notin> set s \<Longrightarrow> strstr m p q = Some 0"
proof (induction s arbitrary: p)
  case Nil
  then show ?case by (subst strstr.simps) simp
next
  case (Cons a s)
  have "strstr_compare m p q = Some False" using Cons.prems by (subst strstr_compare.simps) auto
  with Cons show ?case by (subst strstr.simps) auto
qed

lemma first_pos_none: "\<forall>c \<in> set s. \<not> P c \<Longrightarrow> first_pos P s = length s"
  using first_pos_less_iff [of P s] first_pos_le [of P s] by auto

lemma first_pos_blank: "32 \<notin> set w \<Longrightarrow> first_pos (\<lambda>c. c \<in> set [32]) (w @ 32 # s) = length w"
  by (induction w) auto

lemma in_block_mono: "in_block a n x \<Longrightarrow> n \<le> k \<Longrightarrow> in_block a k x"
  by (simp add: in_block_def)

text \<open>The word that ends at a blank, and the rest, after \<open>strtok\<close> has cut the string.\<close>

lemma cut_word:
  assumes c: "cstr m p (w @ 32 # s)" and len: "length (w @ 32 # s) < 2 ^ 32"
  shows "cstr (m(p + of_nat (length w) := 0)) p w"
    "cstr (m(p + of_nat (length w) := 0)) (p + of_nat (Suc (length w))) s"
proof -
  let ?q = "p + of_nat (length w)"
  have w: "0 \<notin> set w" "rd_bytes m p (length w) = w" "cstr m ?q (32 # s)"
    using c by (simp_all add: cstr_append)
  have "rd_bytes (m(?q := 0)) p (length w) = rd_bytes m p (length w)"
  proof (rule rd_bytes_cong)
    fix x assume x: "in_block p (length w) x"
    have "\<not> in_block (?q - of_nat (length w)) (length w) ?q"
      using len by (intro in_block_adjacent [of _ 1]) (simp_all add: in_block_self)
    with x show "(m(?q := 0)) x = m x" by auto
  qed (use len in simp)
  then show "cstr (m(?q := 0)) p w" using w cstr_append [of "m(?q := 0)" p w "[]"] by simp
  have "\<not> in_block (?q + 1) (Suc (length s)) ?q" using len by (intro not_in_next_block) simp
  then show "cstr (m(?q := 0)) (p + of_nat (Suc (length w))) s"
    using w(3) len by (simp add: cstr_upd add.assoc add.commute [of 1])
qed

lemma nonzero_step: "p \<noteq> 0 \<Longrightarrow> unat p + k < 2 ^ 32 \<Longrightarrow> p + of_nat k \<noteq> (0 :: u32)"
  using unat_add_of_nat [of p k] by (metis add_is_0 unat_0 unat_eq_zero)

text \<open>\<open>strtok\<close> called for one word after the other gives all words.\<close>

lemma words_collected:
  assumes "ws \<noteq> []" "\<forall>w \<in> set ws. w \<noteq> [] \<and> 32 \<notin> set w" "length ws \<le> n"
    "cstr m p (join_words ws)" "(if str \<noteq> 0 then str else p0) = p" "p \<noteq> 0"
    "unat p + length (join_words ws) < 2 ^ 32" "cstr m r [32]"
    "\<And>x. in_block p (Suc (length (join_words ws))) x \<Longrightarrow> \<not> in_block r 2 x"
  shows "\<exists>as m'. Option.bind (strtok m p0 str r) (\<lambda>(token, m1, q). collect_args n r q token m1) = Some (as, m') \<and>
    list_all2 (cstr m') as ws \<and> (\<forall>x. \<not> in_block p (length (join_words ws)) x \<longrightarrow> m' x = m x)"
  using assms
proof (induction ws arbitrary: n m p str p0 rule: join_words.induct)
  case 1
  then show ?case by simp
next
  case (2 w)
  obtain n' where n: "n = Suc n'" using "2.prems"(3) by (cases n) auto
  have c: "cstr m p w" using "2.prems"(4) by simp
  have "first_pos (\<lambda>c. c \<in> set [32]) w = length w" using "2.prems"(2) by (intro first_pos_none) auto
  with strtok_scan_cstr [OF c "2.prems"(8)] have "strtok_scan m r p = Some (False, p + of_nat (length w))" by simp
  moreover have ne: "p \<noteq> p + of_nat (length w)"
  proof
    assume "p = p + of_nat (length w)"
    then have "unat (of_nat (length w) :: u32) = 0" by simp
    then show False using "2.prems"(2,7) by (simp add: unat_of_nat)
  qed
  ultimately have t: "strtok m p0 str r = Some (p, m, p + of_nat (length w))"
    using "2.prems"(5,6) by (simp add: strtok_def Let_def)
  have z: "m (p + of_nat (length w)) = 0" using c cstr_append [of m p w "[]"] by simp
  have q: "p + of_nat (length w) \<noteq> 0" using "2.prems"(6,7) by (intro nonzero_step) simp_all
  have "strtok m (p + of_nat (length w)) 0 r = Some (0, m, p + of_nat (length w))"
    using q z by (simp add: strtok_def strtok_scan.simps)
  moreover have "collect_args n' r (p + of_nat (length w)) 0 m = Some ([], m)" by (cases n') simp_all
  ultimately show ?case
    using t c "2.prems"(6) by (intro exI [of _ "[p]"] exI [of _ m]) (simp add: n)
next
  case (3 w w' ws)
  let ?j = "join_words (w' # ws)" and ?e = "p + of_nat (length w)" and ?q = "p + of_nat (Suc (length w))"
  obtain n' where n: "n = Suc n'" using "3.prems"(3) by (cases n) auto
  have c: "cstr m p (w @ 32 # ?j)" using "3.prems"(4) by simp
  have len: "unat p + length (w @ 32 # ?j) < 2 ^ 32" using "3.prems"(7) by simp
  then have len': "length (w @ 32 # ?j) < 2 ^ 32" by simp
  let ?m1 = "m(?e := 0)"
  have "first_pos (\<lambda>c. c \<in> set [32]) (w @ 32 # ?j) = length w"
    using "3.prems"(2) by (intro first_pos_blank) simp
  with strtok_scan_cstr [OF c "3.prems"(8)] have "strtok_scan m r p = Some (True, ?e)" by simp
  then have t: "strtok m p0 str r = Some (p, ?m1, ?q)"
    using "3.prems"(5,6) by (simp add: strtok_def Let_def add.commute add.left_commute)
  note cut = cut_word [OF c len']
  have uq: "unat ?q = unat p + Suc (length w)" using len by (intro unat_add_of_nat) simp
  have q0: "?q \<noteq> 0" using "3.prems"(6) len by (intro nonzero_step) simp_all
  have in_e: "in_block p (Suc (length (w @ 32 # ?j))) ?e"
    using len by (simp add: in_block_def unat_of_nat)
  have r1: "cstr ?m1 r [32]"
  proof -
    have two: "Suc (length [32 :: u8]) = 2" by simp
    have "\<not> in_block r 2 ?e" using "3.prems"(9) [of ?e] in_e by simp
    then have "\<not> in_block r (Suc (length [32 :: u8])) ?e" by (simp only: two not_False_eq_True)
    then show ?thesis using "3.prems"(8) cstr_upd [of r "[32]" ?e m 0] by simp
  qed
  have sub: "in_block p (length (w @ 32 # ?j)) x" if "in_block ?q (length ?j) x" for x
    using in_block_part [of p "Suc (length w)" "length ?j" x "length (w @ 32 # ?j)"] that len' by simp
  have sub': "in_block p (Suc (length (w @ 32 # ?j))) x" if "in_block ?q (Suc (length ?j)) x" for x
    using in_block_part [of p "Suc (length w)" "Suc (length ?j)" x "Suc (length (w @ 32 # ?j))"] that len' by simp
  have ap: "\<not> in_block r 2 x" if "in_block ?q (Suc (length ?j)) x" for x
    using "3.prems"(9) [of x] sub' [OF that] by simp
  have p1: "\<forall>v \<in> set (w' # ws). v \<noteq> [] \<and> 32 \<notin> set v" "length (w' # ws) \<le> n'" "unat ?q + length ?j < 2 ^ 32"
    using "3.prems"(2,3) n uq len by simp_all
  obtain as m' where ih: "Option.bind (strtok ?m1 ?q 0 r) (\<lambda>(token, m1, q). collect_args n' r q token m1) = Some (as, m')"
    "list_all2 (cstr m') as (w' # ws)" "\<forall>x. \<not> in_block ?q (length ?j) x \<longrightarrow> m' x = ?m1 x"
  proof -
    have "(if (0 :: u32) \<noteq> 0 then 0 else ?q) = ?q" by simp
    from "3.IH" [OF list.simps(3) p1(1,2) cut(2) this q0 p1(3) r1] ap that show thesis by blast
  qed
  have w: "cstr m' p w"
  proof -
    have "?m1 x = m' x" if "in_block p (Suc (length w)) x" for x
    proof -
      have "\<not> in_block ?q (length ?j) x"
        using in_block_adjacent [of ?q "length ?j" x "Suc (length w)"] that len by auto
      then show ?thesis using ih(3) by simp
    qed
    then show ?thesis using cut(1) cstr_frame [of p w ?m1 m'] len' by simp
  qed
  have fr: "m' x = m x" if "\<not> in_block p (length (w @ 32 # ?j)) x" for x
  proof -
    have "\<not> in_block ?q (length ?j) x" using sub that by blast
    moreover have "x \<noteq> ?e" using that len by (auto simp: in_block_def unat_of_nat)
    ultimately show ?thesis using ih(3) by simp
  qed
  have "Option.bind (strtok m p0 str r) (\<lambda>(token, m1, q). collect_args n r q token m1) = Some (p # as, m')"
    using t ih(1) "3.prems"(6) by (auto simp: n Option.bind_eq_Some_conv split: prod.splits)
  with ih(2) w fr show ?case by (intro exI [of _ "p # as"] exI [of _ m']) simp
qed

section \<open>A line without redirections\<close>

text \<open>
  The literals \<open>execute_line\<close> uses are in place and out of reach of the copy of the line, which
  lies neither at the end of the address space nor over the line itself.
\<close>

definition line_literals :: "u8 list list" where
  "line_literals = [[10], [13], bytes_of ''<<'', bytes_of ''>>'', bytes_of ''>'', bytes_of ''<'', bytes_of '' '']
     @ List.map fst commands"

definition line_env :: "'fs shell_env \<Rightarrow> mem \<Rightarrow> u32 \<Rightarrow> bool" where
  "line_env env m line \<longleftrightarrow> env_copy env \<noteq> 0 \<and> unat (env_copy env) + 256 \<le> 2 ^ 32 \<and>
     disjoint_blocks (env_copy env) 256 line 256 \<and>
     (\<forall>t \<in> set line_literals. cstr m (env_lit env t) t \<and>
        disjoint_blocks (env_copy env) 256 (env_lit env t) (Suc (length t)))"

lemma in_literals:
  "[10] \<in> set line_literals" "[13] \<in> set line_literals" "[60, 60] \<in> set line_literals"
  "[62, 62] \<in> set line_literals" "[62] \<in> set line_literals" "[60] \<in> set line_literals" "[32] \<in> set line_literals"
  by (simp_all add: line_literals_def bytes_of_def)

lemma signs: "bytes_of ''<<'' = [60, 60]" "bytes_of ''>>'' = [62, 62]" "bytes_of ''>'' = [62]" "bytes_of ''<'' = [60]"
  "bytes_of '' '' = [32]"
  by (simp_all add: bytes_of_def)

lemma disjoint_blocks_mono:
  "disjoint_blocks a n b k \<Longrightarrow> n' \<le> n \<Longrightarrow> k' \<le> k \<Longrightarrow> disjoint_blocks a n' b k'"
  by (auto simp: disjoint_blocks_def)

lemma literal_kept:
  assumes "line_env env m line" "t \<in> set line_literals" "\<And>x. \<not> in_block (env_copy env) 256 x \<Longrightarrow> m' x = m x"
  shows "cstr m' (env_lit env t) t"
proof -
  have d: "cstr m (env_lit env t) t" "disjoint_blocks (env_copy env) 256 (env_lit env t) (Suc (length t))"
    using assms(1,2) by (auto simp: line_env_def)
  have "m' x = m x" if "in_block (env_lit env t) (Suc (length t)) x" for x
    using disjoint_blocksD [OF d(2), of x] that assms(3) [of x] by blast
  moreover have "length t < 2 ^ 32"
    using assms(2) by (auto simp: line_literals_def commands_def bytes_of_def)
  ultimately show ?thesis using d(1) cstr_frame [of "env_lit env t" t m' m] by simp
qed

lemma find_command_table:
  assumes "\<forall>t \<in> set (List.map fst cs). cstr (v_mem st) (env_lit env t) t" "cstr (v_mem st) (argv ! 0) w" "(w, f) \<in> set cs"
    "distinct (List.map fst cs)"
  shows "find_command env cs argv st = call_command env f argv st"
  using assms
proof (induction cs)
  case (Cons c cs)
  obtain name g where c: "c = (name, g)" by (cases c)
  have n: "cstr (v_mem st) (env_lit env name) name" using Cons.prems(1) c by simp
  have r: "strcmp (v_mem st) (env_lit env name) (argv ! 0) = Some (cmp_bytes name w)"
    using n Cons.prems(2) by (rule strcmp_cstr)
  have z: "cmp_bytes name w = 0 \<longleftrightarrow> name = w"
    using cstr_nonzero [OF n] cstr_nonzero [OF Cons.prems(2)] by (rule cmp_bytes_0)
  show ?case
  proof (cases "name = w")
    case True
    then have "g = f" using Cons.prems(3,4) c by (auto simp: image_iff)
    with True z r c show ?thesis by simp
  next
    case False
    then have "find_command env cs argv st = call_command env f argv st"
      using Cons c by auto
    with False z r c show ?thesis by simp
  qed
qed simp

lemma bind_tagged: "Option.bind x (\<lambda>(a, b). Some (r, a, b)) = map_option (\<lambda>sh. (r, sh)) x"
  by (cases x) auto

lemma join_words_starts:
  assumes "ws \<noteq> []" "\<forall>w \<in> set ws. plain_word w"
  obtains c s where "join_words ws = c # s" "c = hd (hd ws)" "c \<noteq> 32"
proof (cases ws)
  case (Cons w vs)
  then obtain c s where w: "w = c # s" "c \<noteq> 32" using assms(2) by (cases w) (auto simp: plain_word_def)
  then show thesis using that Cons by (cases vs) auto
qed (use assms in simp)

lemma plain_line:
  assumes "\<forall>w \<in> set ws. plain_word w"
  shows "set (join_words ws) \<inter> {10, 13, 60, 62} = {}"
  using assms set_join_words [of ws] by (fastforce simp: plain_word_def)

lemma cstr_zero_update: "cstr m p s \<Longrightarrow> m(p + of_nat (length s) := 0) = m"
  using cstr_append [of m p s "[]"] by (simp add: fun_upd_idem)

text \<open>
  C13: \<open>execute_line\<close> on a line of at most sixteen words, the first the name of a command and none
  with a redirection sign, calls that command with pointers to the words, in memory that is
  changed in the copy of the line only; a result other than 0 and 99 sends the line on to the search
  for a program.
\<close>

theorem execute_line_runs_command:
  assumes env: "line_env env (v_mem st) line" and line: "cstr (v_mem st) line (join_words ws)"
    and len: "length (join_words ws) < 256" and ws: "ws \<noteq> []" "length ws \<le> 16" "\<forall>w \<in> set ws. plain_word w"
    and comment: "hd (hd ws) \<noteq> 35" and f: "(hd ws, f) \<in> set commands"
  shows "\<exists>argv m'. list_all2 (cstr m') argv ws \<and> (\<forall>x. \<not> in_block (env_copy env) 256 x \<longrightarrow> m' x = v_mem st x) \<and>
    execute_line env line (st, sl) = Option.bind (call_command env f argv (st\<lparr>v_mem := m'\<rparr>)) (\<lambda>(r, st1).
      if r \<noteq> 0 \<and> r \<noteq> CMD_EXIT_SHELL then map_option (\<lambda>sh. (r, sh)) (run_program env argv (st1, sl))
      else Some (r, st1, sl))"
proof -
  let ?L = "join_words ws" and ?m = "v_mem st" and ?c = "env_copy env"
  obtain c s where L: "?L = c # s" "c = hd (hd ws)" "c \<noteq> 32" using join_words_starts [OF ws(1,3)] .
  have c0: "c \<noteq> 0" "?m line = c" using line L(1) by auto
  have plain: "10 \<notin> set ?L" "13 \<notin> set ?L" "60 \<notin> set ?L" "62 \<notin> set ?L" using plain_line [OF ws(3)] by auto
  have nl: "cstr ?m (env_lit env [10]) [10]" "cstr ?m (env_lit env [13]) [13]"
    using literal_kept [OF env in_literals(1), of ?m] literal_kept [OF env in_literals(2), of ?m] by simp_all
  have cut: "strcspn ?m line (env_lit env [d]) = Some (of_nat (length ?L))"
    if "cstr ?m (env_lit env [d]) [d]" "d \<notin> set ?L" for d
  proof -
    have "first_pos (\<lambda>c. c \<in> set [d]) ?L = length ?L" using that(2) by (intro first_pos_none) auto
    with strcspn_cstr [OF line that(1)] show ?thesis by simp
  qed
  have same: "set_byte (line + of_nat (length ?L)) 0 st = st"
    using cstr_zero_update [OF line] by (simp add: set_byte_def)
  define m3 where "m3 = wr_bytes ?m ?c (?L @ [0])"
  have dis: "disjoint_blocks ?c 256 line 256" and cz: "?c \<noteq> 0" "unat ?c + 256 \<le> 2 ^ 32"
    using env by (auto simp: line_env_def)
  have cp: "strcpy ?m ?c line = Some (?c, m3)"
    using strcpy_loop_cstr [OF line disjoint_blocks_mono [OF dis]] len by (simp add: strcpy_def m3_def)
  have c3: "cstr m3 ?c ?L"
    using cstr_nonzero [OF line] len unfolding m3_def by (intro cstr_wr_bytes_new) simp_all
  have fr3: "m3 x = ?m x" if "\<not> in_block ?c 256 x" for x
    using that len in_block_mono [of ?c "length (?L @ [0])" x 256] unfolding m3_def by (intro wr_bytes_frame) auto
  have lit3: "cstr m3 (env_lit env t) t" if "t \<in> set line_literals" for t
    using literal_kept [OF env that fr3] .
  have absent: "strstr m3 ?c (env_lit env t) = Some 0" if "t \<in> set line_literals" "t = d # ds" "d \<notin> set ?L" for t d ds
    using strstr_absent [of m3 ?c ?L "env_lit env t" d ds] c3 lit3 [OF that(1)] that(2,3) by simp
  have no: "strstr m3 ?c (env_lit env (bytes_of ''<<'')) = Some 0" "strstr m3 ?c (env_lit env (bytes_of ''>>'')) = Some 0"
    "strstr m3 ?c (env_lit env (bytes_of ''>'')) = Some 0" "strstr m3 ?c (env_lit env (bytes_of ''<'')) = Some 0"
    unfolding signs using absent [OF in_literals(3) refl] absent [OF in_literals(4) refl]
      absent [OF in_literals(5) refl] absent [OF in_literals(6) refl] plain by blast+
  have out: "output_redirect env m3 = Some (0, 0, m3)" using no by (simp add: output_redirect_def)
  have inp: "input_redirect env (st\<lparr>v_mem := m3\<rparr>) = Some (Some (- 1), st\<lparr>v_mem := m3\<rparr>)"
    using no by (simp add: input_redirect_def)
  have sk: "skip_spaces ?m line = Some line" "skip_spaces m3 ?c = Some ?c"
    using c0 L c3 by (subst skip_spaces.simps; simp)+
  obtain as m' where w: "split_words (env_lit env (bytes_of '' '')) ?c m3 = Some (as, m')" "list_all2 (cstr m') as ws"
    "\<forall>x. \<not> in_block ?c (length ?L) x \<longrightarrow> m' x = m3 x"
  proof -
    have "disjoint_blocks ?c 256 (env_lit env [32]) (Suc (length [32 :: u8]))"
      using env in_literals(7) by (auto simp: line_env_def)
    moreover have "Suc (length [32 :: u8]) = 2" by simp
    ultimately have d: "disjoint_blocks ?c 256 (env_lit env [32]) 2" by (simp only:)
    have "\<not> in_block (env_lit env [32]) 2 x" if "in_block ?c (Suc (length ?L)) x" for x
      using disjoint_blocksD [OF d in_block_mono [OF that]] len by simp
    moreover have "\<forall>w \<in> set ws. w \<noteq> [] \<and> 32 \<notin> set w" using ws(3) by (auto simp: plain_word_def)
    moreover have "unat ?c + length ?L < 2 ^ 32" using cz len by simp
    ultimately show thesis
      using words_collected [of ws 16 m3 ?c ?c 0 "env_lit env [32]"] ws c3 cz lit3 [OF in_literals(7)] that
      unfolding split_words_def signs by fastforce
  qed
  have ne: "as \<noteq> []" using w(2) ws(1) by auto
  have fr: "m' x = ?m x" if "\<not> in_block ?c 256 x" for x
  proof -
    have "\<not> in_block ?c (length ?L) x" using that in_block_mono [of ?c "length ?L" x 256] len by auto
    with w(3) fr3 [OF that] show ?thesis by metis
  qed
  have a0: "cstr m' (as ! 0) (hd ws)" using w(2) ne ws(1) by (cases as; cases ws) auto
  have find: "find_command env commands as (st\<lparr>v_mem := m'\<rparr>) = call_command env f as (st\<lparr>v_mem := m'\<rparr>)"
  proof (rule find_command_table [OF _ _ f])
    show "\<forall>t \<in> set (List.map fst commands). cstr (v_mem (st\<lparr>v_mem := m'\<rparr>)) (env_lit env t) t"
      using literal_kept [OF env _ fr] by (auto simp: line_literals_def)
    show "distinct (List.map fst commands)" by (simp add: commands_def bytes_of_def)
  qed (use a0 in simp)
  have run: "run_redirected env 0 0 (- 1) as (st\<lparr>v_mem := m'\<rparr>, sl) =
      Option.bind (call_command env f as (st\<lparr>v_mem := m'\<rparr>)) (\<lambda>(r, st1).
        if r \<noteq> 0 \<and> r \<noteq> CMD_EXIT_SHELL then map_option (\<lambda>sh. (r, sh)) (run_program env as (st1, sl)) else Some (r, st1, sl))"
    by (cases "call_command env f as (st\<lparr>v_mem := m'\<rparr>)")
      (auto simp: run_redirected_def find restore_fd_def bind_tagged split: prod.splits)
  have "execute_line env line (st, sl) = run_redirected env 0 0 (- 1) as (st\<lparr>v_mem := m'\<rparr>, sl)"
    using sk cut [OF nl(1) plain(1)] cut [OF nl(2) plain(2)] same c0 comment L(2) cp no(1) out inp w(1) ne
    by (simp add: execute_line_def)
  with run w(2) fr show ?thesis by (intro exI [of _ as] exI [of _ m']) simp
qed

section \<open>The theorem at work\<close>

definition demo_lit :: "u8 list \<Rightarrow> u32" where
  "demo_lit t = 0x1000 + 16 * of_nat (length (takeWhile (\<lambda>u. u \<noteq> t) line_literals))"

definition demo_line_mem :: mem where
  "demo_line_mem x =
     (if x - 0x1000 < 288 then
        (let t = line_literals ! unat ((x - 0x1000) div 16); j = unat ((x - 0x1000) mod 16) in if j < length t then t ! j else 0)
      else if x - 0x100 < 4 then bytes_of ''exit'' ! unat (x - 0x100) else 0)"

definition demo_shell :: "unit shell_env" where
  "demo_shell = \<lparr>env_fat = demo_fat, env_lit = demo_lit, env_copy = 0x200, env_buf = 0x300, env_data = 0x400,
     env_line = 0x100, env_boot = 0x500, env_char = 0x600, env_fname = 0x610,
     env_opendir = (\<lambda>p fs. (0, fs)), env_readdir = (\<lambda>fs. (0, [], 0, fs)), env_closedir = (\<lambda>fs. fs),
     env_mkdir = (\<lambda>p fs. (0, fs)), env_findfirst = (\<lambda>d p fs. (4, [], 0, 0, fs)),
     env_elf = (\<lambda>p fs. None), env_run = (\<lambda>a b m. None)\<rparr>"

lemma demo_line_env: "line_env demo_shell demo_line_mem 0x100"
  by (simp add: line_env_def disjoint_blocks_def demo_shell_def demo_lit_def line_literals_def commands_def bytes_of_def
      demo_line_mem_def)

theorem execute_line_runs_command_witness:
  "\<exists>argv m'. list_all2 (cstr m') argv [bytes_of ''exit''] \<and>
    execute_line demo_shell 0x100 (demo_vfs\<lparr>v_mem := demo_line_mem\<rparr>, \<lambda>_. 0) =
      Option.bind (call_command demo_shell fn_exit argv (demo_vfs\<lparr>v_mem := m'\<rparr>)) (\<lambda>(r, st1).
        if r \<noteq> 0 \<and> r \<noteq> CMD_EXIT_SHELL then map_option (\<lambda>sh. (r, sh)) (run_program demo_shell argv (st1, \<lambda>_. 0))
        else Some (r, st1, \<lambda>_. 0))"
proof -
  let ?st = "demo_vfs\<lparr>v_mem := demo_line_mem\<rparr>" and ?w = "bytes_of ''exit''"
  have "cstr demo_line_mem 0x100 ?w" by code_simp
  moreover have "plain_word ?w" "hd ?w \<noteq> 35" by (simp_all add: plain_word_def bytes_of_def)
  moreover have "(?w, fn_exit) \<in> set commands" "length ?w = 4" by (simp_all add: commands_def bytes_of_def)
  ultimately show ?thesis
    using execute_line_runs_command [of demo_shell ?st "0x100" "[?w]" fn_exit "\<lambda>_. 0"] demo_line_env by auto
qed

end
