(* ===== verification/ShellCommands.thy ===== *)
theory ShellCommands
  imports ShellLines
begin

text \<open>
  What the commands of the shell do: the line editor, the output that reaches the console, the
  copying of a file to the console, and what a redirection leaves behind.
\<close>

section \<open>Reading a line\<close>

definition printable :: "u8 \<Rightarrow> bool" where
  "printable c \<longleftrightarrow> schar c \<ge> 0x20 \<and> schar c < 0x7F"

definition erasing :: "u8 \<Rightarrow> bool" where
  "erasing c \<longleftrightarrow> c = 8 \<or> c = 0x7F"

definition key_line :: "u8 list \<Rightarrow> u8 \<Rightarrow> u8 list" where
  "key_line line c = (if erasing c then butlast line else if printable c then line @ [c] else line)"

definition key_echo :: "u8 list \<Rightarrow> u8 \<Rightarrow> u8 list" where
  "key_echo line c = (if erasing c then (if line \<noteq> [] then [8, 32, 8] else []) else if printable c then [c] else [])"

text \<open>
  The specification: the line that keys make of a line, what is echoed and which keys are left.
  A line of \<open>n\<close> characters is complete without a return key.
\<close>

fun read_line :: "nat \<Rightarrow> u8 list \<Rightarrow> u8 list \<Rightarrow> (u8 list \<times> u8 list \<times> u8 list) option" where
  "read_line n line [] = (if length line < n then None else Some (line, [], []))"
| "read_line n line (c # cs) =
     (if length line \<ge> n then Some (line, [], c # cs)
      else if c = 13 \<or> c = 10 then Some (line, [10], cs)
      else map_option (\<lambda>(l, e, r). (l, key_echo line c @ e, r)) (read_line n (key_line line c) cs))"

lemma wr_bytes_store:
  assumes "length (xs @ ys) < 2 ^ 32"
  shows "(wr_bytes m a (xs @ ys))(a + of_nat (length xs) := c) = wr_bytes m a (xs @ c # drop 1 ys)"
proof (cases ys)
  case Nil
  then show ?thesis by (simp add: wr_bytes_snoc)
next
  case (Cons y zs)
  then show ?thesis
    using assms wr_bytes_update [of "length xs" "xs @ ys" m a c] by (simp add: list_update_append)
qed

lemma printable_nonzero: "printable c \<Longrightarrow> c \<noteq> 0"
  by (auto simp: printable_def)

lemma key_line_nonzero: "0 \<notin> set line \<Longrightarrow> 0 \<notin> set (key_line line c)"
  using printable_nonzero [of c] by (auto simp: key_line_def dest: in_set_butlastD)

lemma gets_line_loop_spec:
  assumes "n < 2 ^ 31" "length (line @ junk) \<le> n" "v_mem st = wr_bytes m b (line @ junk)" "0 \<notin> set line"
  shows "case read_line n line (v_in st) of
      None \<Rightarrow> gets_line_loop b (int (Suc n)) (int (length line)) st = None
    | Some (l, e, r) \<Rightarrow> \<exists>junk'. length (l @ junk') \<le> n \<and> 0 \<notin> set l \<and>
        gets_line_loop b (int (Suc n)) (int (length line)) st =
        Some (st\<lparr>v_in := r, v_out := v_out st @ e, v_mem := wr_bytes m b (l @ 0 # junk')\<rparr>)"
  using assms
proof (induction "v_in st" arbitrary: st line junk)
  case Nil
  show ?case
  proof (cases "length line < n")
    case True
    with Nil(1) [symmetric] show ?thesis by (subst gets_line_loop.simps) (simp add: v_getchar_def)
  next
    case False
    with Nil.prems(2) have "length line = n \<and> length junk = 0" unfolding length_append by linarith
    then have e: "length line = n" "junk = []" by simp_all
    have "gets_line_loop b (int (Suc n)) (int (length line)) st
        = Some (st\<lparr>v_mem := wr_bytes m b (line @ [0])\<rparr>)"
      using e Nil.prems(3) by (subst gets_line_loop.simps) (simp add: set_byte_def wr_bytes_snoc)
    with e Nil.prems Nil(1) [symmetric] show ?thesis by (auto intro!: exI [of _ "[]"])
  qed
next
  case (Cons c cs)
  let ?i = "int (length line)" and ?N = "int (Suc n)"
  note inp = Cons.hyps(2) [symmetric]
  have get: "v_getchar st = Some (c, st\<lparr>v_in := cs\<rparr>)" using inp by (simp add: v_getchar_def)
  have store: "(v_mem st)(b + of_nat (length line) := d) = wr_bytes m b (line @ d # drop 1 junk)" for d
    using Cons.prems(1,2,3) wr_bytes_store [of line junk m b d] by simp
  show ?case
  proof (cases "length line < n")
    case False
    with Cons.prems(2) have "length line = n \<and> length junk = 0" unfolding length_append by linarith
    then have e: "junk = []" "length line = n" by simp_all
    have "gets_line_loop b ?N ?i st = Some (st\<lparr>v_mem := wr_bytes m b (line @ [0])\<rparr>)"
      using e Cons.prems(3) by (subst gets_line_loop.simps) (simp add: set_byte_def wr_bytes_snoc)
    with e Cons.prems inp show ?thesis by (auto intro!: exI [of _ "[]"])
  next
    case room: True
    then have i: "?i < ?N - 1" by simp
    have step: "gets_line_loop b ?N ?i st = gets_line_loop b ?N (int (length line')) st' \<Longrightarrow>
        length (line' @ junk') \<le> n \<Longrightarrow> v_mem st' = wr_bytes m b (line' @ junk') \<Longrightarrow> v_in st' = cs \<Longrightarrow>
        v_out st' = v_out st @ key_echo line c \<Longrightarrow> line' = key_line line c \<Longrightarrow>
        st' = st\<lparr>v_in := v_in st', v_out := v_out st', v_mem := v_mem st'\<rparr> \<Longrightarrow> c \<noteq> 13 \<Longrightarrow> c \<noteq> 10 \<Longrightarrow> ?thesis"
      for line' junk' st'
    proof -
      assume A: "gets_line_loop b ?N ?i st = gets_line_loop b ?N (int (length line')) st'"
        "length (line' @ junk') \<le> n" "v_mem st' = wr_bytes m b (line' @ junk')" "v_in st' = cs"
        "v_out st' = v_out st @ key_echo line c" "line' = key_line line c"
        "st' = st\<lparr>v_in := v_in st', v_out := v_out st', v_mem := v_mem st'\<rparr>" "c \<noteq> 13" "c \<noteq> 10"
      have nz: "0 \<notin> set line'" using A(6) Cons.prems(4) by (simp add: key_line_nonzero)
      have R: "read_line n line (v_in st) = map_option (\<lambda>(l, e, r). (l, key_echo line c @ e, r)) (read_line n line' cs)"
        using room inp A(6,8,9) by simp
      note IH = Cons.hyps(1) [OF A(4) [symmetric] Cons.prems(1) A(2,3) nz]
      show ?thesis
      proof (cases "read_line n line' cs")
        case None
        with IH A(1,4) R show ?thesis by simp
      next
        case (Some a)
        obtain l e r where a: "a = (l, e, r)" by (cases a)
        obtain junk'' where j: "length (l @ junk'') \<le> n" "0 \<notin> set l"
          "gets_line_loop b ?N (int (length line')) st' =
            Some (st'\<lparr>v_in := r, v_out := v_out st' @ e, v_mem := wr_bytes m b (l @ 0 # junk'')\<rparr>)"
          using IH A(4) Some a by auto
        have "st'\<lparr>v_in := r, v_out := v_out st' @ e, v_mem := wr_bytes m b (l @ 0 # junk'')\<rparr>
            = st\<lparr>v_in := r, v_out := v_out st @ key_echo line c @ e, v_mem := wr_bytes m b (l @ 0 # junk'')\<rparr>"
          by (subst A(7)) (simp add: A(5))
        with j A(1) R Some a show ?thesis by auto
      qed
    qed
    consider (enter) "c = 13 \<or> c = 10" | (erase) "erasing c" | (print) "printable c" "\<not> erasing c" "c \<noteq> 13" "c \<noteq> 10"
      | (skip) "\<not> printable c" "\<not> erasing c" "c \<noteq> 13" "c \<noteq> 10" by blast
    then show ?thesis
    proof cases
      case enter
      have "gets_line_loop b ?N ?i st
          = Some (st\<lparr>v_in := cs, v_out := v_out st @ [10], v_mem := wr_bytes m b (line @ 0 # drop 1 junk)\<rparr>)"
        using enter i get store [of 0] by (subst gets_line_loop.simps) (simp add: set_byte_def v_putchar_def)
      moreover have "length (line @ drop 1 junk) \<le> n" using Cons.prems(2) by simp
      ultimately show ?thesis using enter room inp Cons.prems(4) by (auto intro!: exI [of _ "drop (Suc 0) junk"])
    next
      case erase
      then have ne: "c \<noteq> 13" "c \<noteq> 10" by (auto simp: erasing_def)
      show ?thesis
      proof (cases line rule: rev_cases)
        case Nil
        have "gets_line_loop b ?N ?i st = gets_line_loop b ?N (int (length ([] :: u8 list))) (st\<lparr>v_in := cs\<rparr>)"
          using erase ne i get Nil by (subst gets_line_loop.simps) (simp add: erasing_def)
        then show ?thesis
          by (rule step [where junk' = junk]) (use Cons.prems erase ne Nil in \<open>auto simp: key_line_def key_echo_def\<close>)
      next
        case (snoc l d)
        have "gets_line_loop b ?N ?i st = gets_line_loop b ?N (int (length l)) (v_print [8, 32, 8] (st\<lparr>v_in := cs\<rparr>))"
          using erase ne i get snoc by (subst gets_line_loop.simps) (simp add: erasing_def)
        then show ?thesis
          by (rule step [where junk' = "d # junk"])
            (use Cons.prems erase ne snoc in \<open>auto simp: key_line_def key_echo_def v_print_def\<close>)
      qed
    next
      case print
      then have k: "schar c \<ge> 0x20 \<and> schar c < 0x7F" "c \<noteq> 8" "c \<noteq> 0x7F" by (auto simp: printable_def erasing_def)
      have "gets_line_loop b ?N ?i st = gets_line_loop b ?N (int (length (line @ [c])))
          (v_putchar c (set_byte (b + of_int ?i) c (st\<lparr>v_in := cs\<rparr>)))"
        using print k i get by (subst gets_line_loop.simps) (simp add: add.commute)
      then show ?thesis
        by (rule step [where junk' = "drop 1 junk"])
          (use Cons.prems print room store [of c] in
            \<open>auto simp: key_line_def key_echo_def v_putchar_def set_byte_def simp del: fun_upd_apply\<close>)
    next
      case skip
      then have k: "\<not> (schar c \<ge> 0x20 \<and> schar c < 0x7F)" "c \<noteq> 8" "c \<noteq> 0x7F" by (auto simp: printable_def erasing_def)
      have "gets_line_loop b ?N ?i st = gets_line_loop b ?N (int (length line)) (st\<lparr>v_in := cs\<rparr>)"
        using skip k i get by (subst gets_line_loop.simps) auto
      then show ?thesis
        by (rule step [where junk' = junk]) (use Cons.prems skip in \<open>auto simp: key_line_def key_echo_def\<close>)
    qed
  qed
qed


text \<open>
  C15: \<open>gets_line\<close> reads the line its specification makes of the keys, echoes it, leaves it
  with a zero in the buffer, and writes nothing outside the buffer; it waits forever exactly if the
  keys do not complete a line.
\<close>

theorem gets_line_reads:
  assumes "n < 2 ^ 31"
  shows "case read_line n [] (v_in st) of
      None \<Rightarrow> gets_line b (int (Suc n)) st = None
    | Some (l, e, r) \<Rightarrow> \<exists>m. gets_line b (int (Suc n)) st = Some (st\<lparr>v_in := r, v_out := v_out st @ e, v_mem := m\<rparr>) \<and>
        length l \<le> n \<and> cstr m b l \<and> (\<forall>x. \<not> in_block b (Suc n) x \<longrightarrow> m x = v_mem st x)"
proof -
  have frame: "wr_bytes (v_mem st) b bs x = v_mem st x" if "\<not> in_block b (Suc n) x" "length bs \<le> Suc n" for bs x
    using that assms by (intro wr_bytes_frame) (auto simp: in_block_def)
  have str: "cstr (wr_bytes (v_mem st) b (l @ 0 # junk)) b l" if "0 \<notin> set l" "length (l @ junk) \<le> n" for l junk
    using that assms by (intro cstr_wr_prefix) simp_all
  show ?thesis
    using gets_line_loop_spec [of n "[]" "[]" st "v_mem st" b] assms frame str
    by (fastforce simp: gets_line_def split: option.splits prod.splits)
qed

section \<open>Output to the console\<close>

text \<open>The console driver sends a carriage return in front of every line feed.\<close>

definition tty_bytes :: "u8 list \<Rightarrow> u8 list" where
  "tty_bytes bs = concat (List.map (\<lambda>c. if c = 10 then [13, 10] else [c]) bs)"

lemma tty_bytes_simps [simp]:
  "tty_bytes [] = []" "tty_bytes (c # cs) = (if c = 10 then [13, 10] else [c]) @ tty_bytes cs"
  "tty_bytes (xs @ ys) = tty_bytes xs @ tty_bytes ys"
  by (simp_all add: tty_bytes_def)

lemma tty_write_loop_out:
  "tty_write_loop n data i st = v_print (tty_bytes (rd_bytes (v_mem st) (data + i) n)) st"
proof (induction n arbitrary: i st)
  case 0
  then show ?case by (simp add: v_print_def)
next
  case (Suc n)
  then show ?case by (simp add: Let_def v_print_def v_putchar_def add.assoc)
qed

text \<open>Descriptor 1 leads to the console.\<close>

definition console_out :: "'fs vfs \<Rightarrow> bool" where
  "console_out st \<longleftrightarrow> (\<exists>g y. fd_table st 1 = Some g \<and> v_files st g = Some y \<and> f_write y = Some tty_write_fn)"

lemma vfs_write_console:
  "console_out st \<Longrightarrow> vfs_write fat 1 a n st = Some (sint n, v_print (tty_bytes (rd_bytes (v_mem st) a (unat n))) st)"
  by (auto simp: console_out_def vfs_write_def get_file_from_fd_def tty_write_def tty_write_loop_out)

lemma console_out_cong:
  "console_out st \<Longrightarrow> fd_table st' 1 = fd_table st 1 \<Longrightarrow> (\<And>g. fd_table st 1 = Some g \<Longrightarrow> v_files st' g = v_files st g) \<Longrightarrow>
    console_out st'"
  by (auto simp: console_out_def)

section \<open>Copying a file of the proc file system to the console\<close>

lemma proc_read_frame:
  assumes "proc_read f buf n st = Some (r, st')" "v_files st f = Some x"
  shows "\<exists>x' m. st' = st\<lparr>v_files := (v_files st)(f := Some x'), v_mem := m\<rparr> \<and>
    f_read x' = f_read x \<and> f_name x' = f_name x \<and> f_close x' = f_close x"
proof (cases "st' = st")
  case True
  have "(v_files st)(f := Some x) = v_files st" using assms(2) by (rule fun_upd_idem)
  then show ?thesis using True by (intro exI [of _ x] exI [of _ "v_mem st"]) simp
next
  case False
  then have "\<exists>p q m. st' = set_file f (x\<lparr>f_private := p, f_position := q\<rparr>) (st\<lparr>v_mem := m\<rparr>)"
    using assms by (auto simp: proc_read_def Let_def split: private_data.splits if_splits)
  then obtain p q m where "st' = set_file f (x\<lparr>f_private := p, f_position := q\<rparr>) (st\<lparr>v_mem := m\<rparr>)" by blast
  then show ?thesis
    by (intro exI [of _ "x\<lparr>f_private := p, f_position := q\<rparr>"] exI [of _ m]) (simp add: set_file_def)
qed

lemma cat_loop_proc:
  assumes "fd_table st fd = Some f" "0 \<le> fd" "fd < 256" "v_files st f = Some x" "f_read x = Some proc_read_fn"
    "proc_file f st" "console_out st" "fd_table st 1 \<noteq> Some f"
  shows "\<exists>x' m. cat_loop env fd st = Some (st\<lparr>v_files := (v_files st)(f := Some x'), v_mem := m,
      v_out := v_out st @ tty_bytes (drop (unat (pd_position (proc_of f st))) (proc_content f st))\<rparr>) \<and>
    f_name x' = f_name x \<and> f_close x' = f_close x \<and> (\<exists>d s. f_private x' = ProcPrivate d \<and> pd_data d = Some s)"
  using assms
proof (induction "length (proc_content f st) - unat (pd_position (proc_of f st))" arbitrary: st x rule: less_induct)
  case less
  let ?rest = "drop (unat (pd_position (proc_of f st))) (proc_content f st)"
  obtain k st1 where r: "proc_read f (env_data env) 128 st = Some (int k, st1)"
    "k = min 128 (length ?rest)" "rd_bytes (v_mem st1) (env_data env) k = take k ?rest"
    "proc_file f st1" "proc_content f st1 = proc_content f st"
    "unat (pd_position (proc_of f st1)) = unat (pd_position (proc_of f st)) + k"
    using proc_readE [OF less.prems(6), of "env_data env" 128] by auto
  obtain x1 m1 where st1: "st1 = st\<lparr>v_files := (v_files st)(f := Some x1), v_mem := m1\<rparr>"
    "f_read x1 = f_read x" "f_name x1 = f_name x" "f_close x1 = f_close x"
    using proc_read_frame [OF r(1) less.prems(4)] by blast
  have rd: "vfs_read (env_fat env) fd (env_data env) 128 st = Some (int k, st1)"
    using less.prems(1-5) r(1) by (simp add: vfs_read_def get_file_from_fd_def)
  have out1: "console_out st1"
    using less.prems(7) by (rule console_out_cong) (use st1 less.prems(8) in auto)
  show ?case
  proof (cases "k = 0")
    case True
    then have "?rest = []" using r(2) by auto
    moreover have "cat_loop env fd st = Some st1" using rd True by (subst cat_loop.simps) simp
    moreover have "\<exists>d s. f_private x1 = ProcPrivate d \<and> pd_data d = Some s"
      using r(4) st1(1) by (auto simp: proc_file_def)
    ultimately show ?thesis using st1 by (intro exI [of _ x1] exI [of _ m1]) simp
  next
    case False
    let ?st2 = "v_print (tty_bytes (take k ?rest)) st1"
    have "unat (of_int (int k) :: u32) = k" using r(2) by (simp add: unat_of_nat)
    then have wr: "vfs_write (env_fat env) 1 (env_data env) (of_int (int k)) st1 = Some (sint (of_int (int k) :: u32), ?st2)"
      using vfs_write_console [OF out1] r(3) by simp
    have same: "proc_of f ?st2 = proc_of f st1" "proc_content f ?st2 = proc_content f st1" "proc_file f ?st2"
      using r(4) by (simp_all add: proc_of_def proc_content_def proc_file_def v_print_def)
    have rest: "drop (unat (pd_position (proc_of f ?st2))) (proc_content f ?st2) = drop k ?rest"
      unfolding same r(5,6) by (simp add: add.commute)
    have lt: "length (proc_content f ?st2) - unat (pd_position (proc_of f ?st2))
        < length (proc_content f st) - unat (pd_position (proc_of f st))"
      using False r(2) unfolding same r(5,6) by simp
    have "console_out ?st2" using out1 by (rule console_out_cong) (simp_all add: v_print_def)
    then obtain x' m where ih: "cat_loop env fd ?st2 = Some (?st2\<lparr>v_files := (v_files ?st2)(f := Some x'), v_mem := m,
        v_out := v_out ?st2 @ tty_bytes (drop k ?rest)\<rparr>)"
      "f_name x' = f_name x1" "f_close x' = f_close x1" "\<exists>d s. f_private x' = ProcPrivate d \<and> pd_data d = Some s"
      using less.hyps [OF lt, of x1] less.prems st1 same(3) unfolding rest by (auto simp: v_print_def)
    have "cat_loop env fd st = cat_loop env fd ?st2"
      using rd wr False by (subst cat_loop.simps) simp
    moreover have "tty_bytes (take k ?rest) @ tty_bytes (drop k ?rest) = tty_bytes ?rest"
      by (metis append_take_drop_id tty_bytes_simps(3))
    ultimately show ?thesis using ih st1 by (intro exI [of _ x'] exI [of _ m]) (simp add: v_print_def)
  qed
qed

text \<open>FatFs turns the name down; without \<open>O_APPEND\<close> the driver does so silently.\<close>

lemma fat_open_rejected_quiet:
  assumes "fat_rejects fat path" "flags AND O_APPEND = 0" "v_avail st = Suc n"
  shows "\<exists>k fs. fat_open fat file path flags st = Some (- 1, st\<lparr>v_fresh := k, v_fs := fs\<rparr>) \<and> v_fresh st \<le> k"
proof -
  let ?st1 = "st\<lparr>v_fresh := Suc (v_fresh st), v_avail := n\<rparr>"
  obtain r fs where o: "ff_open fat (v_fresh st) path (fat_open_mode flags) (v_fs st) = (r, fs)" by fastforce
  have "r \<noteq> FR_OK" using assms(1) o unfolding fat_rejects_def by (metis fst_conv)
  then have "fat_open fat file path flags st = Some (- 1, v_free (?st1\<lparr>v_fs := fs\<rparr>))"
    using assms(2,3) o by (simp add: fat_open_def v_malloc_def Let_def)
  then show ?thesis
    using assms(3) by (intro exI [of _ "Suc (v_fresh st)"] exI [of _ fs]) (simp add: v_free_def)
qed

definition meminfo_file :: vfile where
  "meminfo_file = init_file proc_read_fn None proc_close_fn None proc_lseek_fn
     (ProcPrivate \<lparr>pd_data = Some proc_meminfo_text, pd_size = of_nat (length proc_meminfo_text), pd_position = 0\<rparr>)
     (zero_file\<lparr>f_name := Some (bytes_of ''/proc/meminfo'')\<rparr>)"

lemma vfs_open_meminfo:
  assumes "fat_rejects fat (bytes_of ''/proc/meminfo'')" "4 \<le> v_avail st" "find_fd (fd_table st) 253 3 = Some i"
  shows "\<exists>k fs. vfs_open fat (bytes_of ''/proc/meminfo'') O_RDONLY st =
    Some (i, st\<lparr>v_files := (v_files st)(v_fresh st := Some meminfo_file), v_fresh := k, v_avail := v_avail st - 4,
      fd_table := (fd_table st)(i := Some (v_fresh st)), fd_count := fd_count st + 1, v_fs := fs\<rparr>)"
proof -
  let ?p = "bytes_of ''/proc/meminfo''" and ?f = "v_fresh st"
  obtain n where n: "v_avail st = n + 4" using assms(2) by (metis add.commute le_Suc_ex)
  let ?x = "zero_file\<lparr>f_name := Some ?p\<rparr>"
  let ?st3 = "set_file ?f ?x (st\<lparr>v_fresh := Suc (Suc ?f), v_avail := n + 2\<rparr>)"
  have av: "v_avail ?st3 = Suc (Suc n)" by (simp add: set_file_def)
  obtain k fs where fo: "fat_open fat ?f ?p O_RDONLY ?st3 = Some (- 1, ?st3\<lparr>v_fresh := k, v_fs := fs\<rparr>)"
    using fat_open_rejected_quiet [OF assms(1) _ av, of O_RDONLY ?f] by (auto simp: O_RDONLY_def O_APPEND_def)
  define st4 where "st4 = ?st3\<lparr>v_fresh := k, v_fs := fs\<rparr>"
  define st5 where "st5 = st4\<lparr>v_fresh := Suc (Suc k), v_avail := n, v_files := (v_files st)(?f := Some meminfo_file)\<rparr>"
  define st6 where "st6 = st5\<lparr>fd_table := (fd_table st)(i := Some ?f), fd_count := fd_count st + 1\<rparr>"
  have op: "proc_meminfo_open ?f ?p O_RDONLY st4 = Some (0, st5)"
    by (simp add: st5_def st4_def proc_meminfo_open_def proc_fill_def v_strdup_def v_malloc_def set_file_def meminfo_file_def init_file_def)
  have al: "allocate_fd ?f st5 = (i, st6)"
    using assms(3) by (simp add: allocate_fd_def set_file_def st6_def st5_def st4_def)
  have i3: "0 \<le> i" using find_fd_Some [OF assms(3)] by simp
  have neq: "?p \<noteq> bytes_of ''/dev/tty''" "?p \<noteq> bytes_of ''/dev/null''" "?p \<noteq> bytes_of ''/dev/zero''" "?p \<noteq> bytes_of ''/dev/serial0''"
    by (simp_all add: bytes_of_def)
  have "try_drivers drivers ?f ?p O_RDONLY st4 = Some (i, st6)"
    using i3 neq by (simp add: drivers_def op al)
  moreover have "v_strdup ?p (st\<lparr>v_fresh := Suc ?f, v_avail := 3 + n\<rparr>) = (Some ?p, st\<lparr>v_fresh := Suc (Suc ?f), v_avail := n + 2\<rparr>)"
    by (simp add: v_strdup_def v_malloc_def)
  ultimately have "vfs_open fat ?p O_RDONLY st = Some (i, st6)"
    using n fo unfolding st4_def [symmetric] by (simp add: vfs_open_def v_malloc_def)
  moreover have "st6 = st\<lparr>v_files := (v_files st)(?f := Some meminfo_file), v_fresh := Suc (Suc k), v_avail := v_avail st - 4,
      fd_table := (fd_table st)(i := Some ?f), fd_count := fd_count st + 1, v_fs := fs\<rparr>"
    using n by (simp add: set_file_def st6_def st5_def st4_def)
  ultimately show ?thesis by (intro exI [of _ "Suc (Suc k)"] exI [of _ fs]) simp
qed

lemma vfs_close_proc:
  assumes "fd_table st fd = Some f" "0 \<le> fd" "fd < 256" "v_files st f = Some x" "f_close x = Some proc_close_fn"
    "f_private x = ProcPrivate d" "pd_data d = Some s" "f_name x = Some nm"
  shows "vfs_close fat fd st = Some (0, st\<lparr>v_files := (v_files st)(f := None), v_avail := v_avail st + 4,
    fd_table := (fd_table st)(fd := None), fd_count := fd_count st - 1\<rparr>)"
  using assms
  by (simp add: vfs_close_def get_file_from_fd_def proc_close_def discard_file_def set_file_def v_free_def free_fd_def)

lemma proc_meminfo_length: "length proc_meminfo_text < 1000"
  by code_simp

text \<open>
  C14: \<open>cmd_meminfo\<close> opens the file, copies it in pieces and closes it again: it always
  returns, the console shows exactly the memory information, and descriptors, files and free
  memory are as before.
\<close>

theorem cmd_meminfo_shows_text:
  assumes ok: "vfs_ok st" and rej: "fat_rejects (env_fat env) (bytes_of ''/proc/meminfo'')" and mem: "4 \<le> v_avail st"
    and free: "\<exists>i. 3 \<le> i \<and> i < 256 \<and> fd_table st i = None" and con: "console_out st"
  shows "\<exists>st'. cmd_meminfo env st = Some (0, st') \<and> v_out st' = v_out st @ tty_bytes proc_meminfo_text \<and>
    fd_table st' = fd_table st \<and> fd_count st' = fd_count st \<and> v_files st' = v_files st \<and> v_avail st' = v_avail st"
proof -
  let ?f = "v_fresh st"
  obtain i where i: "find_fd (fd_table st) 253 3 = Some i"
  proof (cases "find_fd (fd_table st) 253 3")
    case None
    from free obtain j where j: "3 \<le> j" "j < 256" "fd_table st j = None" by blast
    with find_fd_None [OF None, of j] show thesis by simp
  next
    case (Some k)
    then show thesis by (rule that)
  qed
  note i' = find_fd_Some [OF i]
  obtain k fs where o: "vfs_open (env_fat env) (bytes_of ''/proc/meminfo'') O_RDONLY st =
      Some (i, st\<lparr>v_files := (v_files st)(?f := Some meminfo_file), v_fresh := k, v_avail := v_avail st - 4,
        fd_table := (fd_table st)(i := Some ?f), fd_count := fd_count st + 1, v_fs := fs\<rparr>)"
    using vfs_open_meminfo [OF rej mem i] by blast
  define st1 where "st1 = st\<lparr>v_files := (v_files st)(?f := Some meminfo_file), v_fresh := k, v_avail := v_avail st - 4,
        fd_table := (fd_table st)(i := Some ?f), fd_count := fd_count st + 1, v_fs := fs\<rparr>"
  have old: "fd_table st j \<noteq> Some ?f" for j using vfs_okD(4) [OF ok, of j ?f] by blast
  have none: "v_files st ?f = None" using ok unfolding vfs_ok_def by blast
  have x: "f_read meminfo_file = Some proc_read_fn" "f_close meminfo_file = Some proc_close_fn"
    "f_name meminfo_file = Some (bytes_of ''/proc/meminfo'')" by (simp_all add: meminfo_file_def init_file_def)
  have po: "proc_of ?f st1 = \<lparr>pd_data = Some proc_meminfo_text, pd_size = of_nat (length proc_meminfo_text), pd_position = 0\<rparr>"
    by (simp add: proc_of_def st1_def meminfo_file_def init_file_def)
  have pc: "proc_content ?f st1 = proc_meminfo_text" by (simp add: proc_content_def po)
  have pf: "proc_file ?f st1"
    using proc_meminfo_length by (simp add: proc_file_def st1_def meminfo_file_def init_file_def)
  have con1: "console_out st1"
    using con by (rule console_out_cong) (use i' old in \<open>auto simp: st1_def\<close>)
  have t1: "fd_table st1 1 \<noteq> Some ?f" using i' old by (simp add: st1_def)
  obtain x' m where c: "cat_loop env i st1 = Some (st1\<lparr>v_files := (v_files st1)(?f := Some x'), v_mem := m,
      v_out := v_out st1 @ tty_bytes proc_meminfo_text\<rparr>)"
    "f_name x' = f_name meminfo_file" "f_close x' = f_close meminfo_file"
    "\<exists>d s. f_private x' = ProcPrivate d \<and> pd_data d = Some s"
    using cat_loop_proc [of st1 i ?f meminfo_file env] i' x pf con1 t1 po pc by (auto simp: st1_def)
  define st2 where "st2 = st1\<lparr>v_files := (v_files st1)(?f := Some x'), v_mem := m,
      v_out := v_out st1 @ tty_bytes proc_meminfo_text\<rparr>"
  obtain d s where d: "f_private x' = ProcPrivate d" "pd_data d = Some s" using c(4) by blast
  have cl: "vfs_close (env_fat env) i st2 = Some (0, st2\<lparr>v_files := (v_files st2)(?f := None), v_avail := v_avail st2 + 4,
      fd_table := (fd_table st2)(i := None), fd_count := fd_count st2 - 1\<rparr>)"
    by (rule vfs_close_proc) (use i' c x d in \<open>auto simp: st2_def st1_def\<close>)
  have "cmd_meminfo env st = Some (0, st2\<lparr>v_files := (v_files st2)(?f := None), v_avail := v_avail st2 + 4,
      fd_table := (fd_table st2)(i := None), fd_count := fd_count st2 - 1\<rparr>)"
    using o c(1) cl i' unfolding st1_def [symmetric] st2_def [symmetric] by (simp add: cmd_meminfo_def)
  moreover have "(v_files st)(?f := None) = v_files st" "(fd_table st)(i := None) = fd_table st"
    using none i' by (auto simp: fun_eq_iff)
  ultimately show ?thesis using mem by (simp add: st2_def st1_def)
qed

section \<open>A command that is not in the table\<close>

text \<open>
  The pattern of a command that is not in the table is built in \<open>buf[16]\<close>: a name of
  15 characters or more is written behind its end.
\<close>

theorem command_name_overruns_buffer:
  assumes "source_apart (v_mem st) (env_buf env) n name s"
    "source_apart (v_mem st) (env_buf env) n (env_lit env (bytes_of ''%s*'')) (bytes_of ''%s*'')"
    "name \<noteq> 0" "length s + 1 < n" "n \<le> 2 ^ 32" "15 \<le> length s"
  shows "sprintf (v_mem st) (env_buf env) (env_lit env (bytes_of ''%s*'')) [name] =
      Some (of_nat (length s + 1), wr_bytes (v_mem st) (env_buf env) (s @ [42, 0])) \<and>
    wr_bytes (v_mem st) (env_buf env) (s @ [42, 0]) (env_buf env + 16) = (s @ [42, 0]) ! 16"
proof -
  let ?ds = "[Directive [] False 115, Lit 42]" and ?m = "v_mem st" and ?b = "env_buf env"
  have "sprints (source_apart ?m ?b n) ([Lit 42]) [] [42]" by (intro sprints_lit sprints_end)
  then have pr: "sprints (source_apart ?m ?b n) ?ds [name] (s @ [42])"
    using assms(1,3) by (intro sprints_string) simp_all
  have f: "bytes_of ''%s*'' = format_text ?ds" by (simp add: bytes_of_def)
  have "sprintf ?m ?b (env_lit env (bytes_of ''%s*'')) [name] =
      Some (of_nat (length (s @ [42])), wr_bytes ?m ?b ((s @ [42]) @ [0]))"
  proof (rule sprintf_writes_text [OF pr])
    show "source_apart ?m ?b n (env_lit env (bytes_of ''%s*'')) (format_text ?ds)"
      using assms(2) by (simp only: f [symmetric])
  qed (use assms(4,5) in \<open>auto simp: digit_byte_def\<close>)
  moreover have "wr_bytes ?m ?b ((s @ [42]) @ [0]) (?b + of_nat 16) = ((s @ [42]) @ [0]) ! 16"
    using assms(4,5,6) by (intro wr_bytes_nth) simp_all
  ultimately show ?thesis by simp
qed

section \<open>What a redirection leaves behind\<close>

text \<open>
  After a command whose output went to a file, the file is closed and a console is opened,
  but under a new descriptor, which stays in use beside descriptor 1: both lead to one \<open>File\<close>, so
  the table is no longer well formed, and the console that descriptor 1 led to before is still
  allocated while no descriptor leads to it.
\<close>

theorem redirection_leaks_descriptor:
  assumes ok: "vfs_ok st" and fd: "fd_table st fd = Some f" "3 \<le> fd" and out: "fd_table st 1 = Some g0"
    and rej: "fat_rejects (env_fat env) (bytes_of ''/dev/tty'')" and mem: "2 \<le> v_avail st"
  shows "\<exists>st' k g. restore_fd env 1 fd (redirect_to 1 fd st) = Some st' \<and> 3 \<le> k \<and> k < 256 \<and>
    fd_table st' 1 = Some g \<and> fd_table st' k = Some g \<and> \<not> vfs_ok st' \<and> fd_count st' = fd_count st \<and>
    v_files st' g0 = v_files st g0 \<and> (\<forall>i. fd_table st' i \<noteq> Some g0)"
proof -
  obtain x where x: "v_files st f = Some x" "file_wf x" using vfs_okD(3) [OF ok fd(1)] by blast
  have f256: "fd < 256" using vfs_okD(2) [OF ok fd(1)] .
  have inj: "i = j" if "fd_table st i = Some h" "fd_table st j = Some h" for i j h
    using ok that unfolding vfs_ok_def by blast
  have g0f: "g0 \<noteq> f" using inj [of 1 g0 fd] fd out by auto
  have g0: "g0 < v_fresh st" using vfs_okD(4) [OF ok out] .
  let ?st1 = "st\<lparr>fd_table := (fd_table st)(1 := Some f)\<rparr>"
  have red: "redirect_to 1 fd st = ?st1" using fd f256 by (simp add: redirect_to_def get_file_from_fd_def)
  obtain r st2 where c: "vfs_close (env_fat env) fd ?st1 = Some (r, st2)" "fd_table st2 = (fd_table ?st1)(fd := None)"
    "fd_count st2 = fd_count ?st1 - 1" "v_files st2 = (v_files ?st1)(f := None)" "v_fresh st2 = v_fresh ?st1"
    "v_avail ?st1 \<le> v_avail st2"
    using vfs_close_file [of ?st1 fd f x "env_fat env"] fd f256 x by auto
  have "fd_table st2 fd = None" using c(2) by simp
  then obtain k where k: "find_fd (fd_table st2) 253 3 = Some k"
    using find_fd_None [of "fd_table st2" 253 3 fd] fd(2) f256 by (cases "find_fd (fd_table st2) 253 3") auto
  note k' = find_fd_Some [OF k]
  have "2 \<le> v_avail st2" using c(6) mem by simp
  from vfs_open_tty [OF rej this k, of O_RDWR] obtain st3 where o:
    "vfs_open (env_fat env) (bytes_of ''/dev/tty'') O_RDWR st2 = Some (k, st3)"
    "fd_table st3 = (fd_table st2)(k := Some (v_fresh st2))" "fd_count st3 = fd_count st2 + 1"
    "\<forall>g. g \<noteq> v_fresh st2 \<longrightarrow> v_files st3 g = v_files st2 g" by blast
  let ?st = "st3\<lparr>fd_table := (fd_table st3)(1 := Some (v_fresh st2))\<rparr>"
  have "restore_fd env 1 fd (redirect_to 1 fd st) = Some ?st"
    using fd(2) c(1) o k' red by (simp add: restore_fd_def get_file_from_fd_def)
  moreover have t: "fd_table ?st 1 = Some (v_fresh st2)" "fd_table ?st k = Some (v_fresh st2)"
    using o(2) by simp_all
  moreover have "\<not> vfs_ok ?st"
  proof
    assume "vfs_ok ?st"
    then have "(1 :: int) = k" using t unfolding vfs_ok_def by blast
    then show False using k' by simp
  qed
  moreover have "fd_count ?st = fd_count st" using o(3) c(3) by simp
  moreover have "v_files ?st g0 = v_files st g0" using o(4) c(4,5) g0 g0f by simp
  moreover have "fd_table ?st i \<noteq> Some g0" for i
    using o(2) c(2,5) g0 g0f inj [of i g0 1] out by auto
  moreover have "3 \<le> k" "k < 256" using k' by simp_all
  ultimately show ?thesis by blast
qed

section \<open>The theorems at work\<close>

text \<open>Descriptor 1 leads to a console, descriptor 3 to another file.\<close>

definition console_file :: vfile where
  "console_file = init_file tty_read_fn (Some tty_write_fn) tty_close_fn (Some tty_ioctl_fn) tty_lseek_fn NoPrivate zero_file"

definition demo_console :: "unit vfs" where
  "demo_console = demo_vfs\<lparr>v_files := (\<lambda>_. None)(0 := Some console_file, 1 := Some console_file), v_fresh := 2,
     fd_table := (\<lambda>_. None)(1 := Some 0, 3 := Some 1), v_in := [97, 8, 98, 13, 120]\<rparr>"

lemma demo_console_ok: "vfs_ok demo_console" "console_out demo_console"
  by (auto simp: vfs_ok_def demo_console_def console_out_def console_file_def init_file_def file_wf_def zero_file_def
      split: if_splits)

lemma demo_fat_rejects: "path \<noteq> bytes_of ''A.TXT'' \<Longrightarrow> fat_rejects (env_fat demo_shell) path"
  by (simp add: fat_rejects_def demo_shell_def demo_fat_def FR_OK_def)

theorem gets_line_reads_witness:
  "\<exists>m. gets_line 0x100 256 demo_console = Some (demo_console\<lparr>v_in := [120], v_out := [97, 8, 32, 8, 98, 10], v_mem := m\<rparr>) \<and>
    cstr m 0x100 [98]"
proof -
  have i: "v_in demo_console = [97, 8, 98, 13, 120]" "v_out demo_console = []" by (simp_all add: demo_console_def demo_vfs_def)
  have "read_line 255 [] [97, 8, 98, 13, 120] = Some ([98], [97, 8, 32, 8, 98, 10], [120])" by code_simp
  then show ?thesis using gets_line_reads [of 255 "0x100" demo_console] i by auto
qed

theorem cmd_meminfo_shows_text_witness:
  "\<exists>st'. cmd_meminfo demo_shell demo_console = Some (0, st') \<and> v_out st' = tty_bytes proc_meminfo_text"
proof -
  have "fat_rejects (env_fat demo_shell) (bytes_of ''/proc/meminfo'')" by (rule demo_fat_rejects) (simp add: bytes_of_def)
  moreover have "4 \<le> v_avail demo_console" "v_out demo_console = []" by (simp_all add: demo_console_def demo_vfs_def)
  moreover have "\<exists>i. 3 \<le> i \<and> i < 256 \<and> fd_table demo_console i = None"
    by (intro exI [of _ 4]) (simp add: demo_console_def)
  ultimately show ?thesis
    using cmd_meminfo_shows_text [OF demo_console_ok(1), of demo_shell] demo_console_ok(2) by auto
qed

theorem redirection_leaks_descriptor_witness:
  "\<exists>st' k g. restore_fd demo_shell 1 3 (redirect_to 1 3 demo_console) = Some st' \<and> 3 \<le> k \<and>
    fd_table st' 1 = Some g \<and> fd_table st' k = Some g \<and> \<not> vfs_ok st'"
proof -
  have "fat_rejects (env_fat demo_shell) (bytes_of ''/dev/tty'')" by (rule demo_fat_rejects) (simp add: bytes_of_def)
  moreover have "fd_table demo_console 3 = Some 1" "fd_table demo_console 1 = Some 0" "2 \<le> v_avail demo_console"
    by (simp_all add: demo_console_def demo_vfs_def)
  ultimately show ?thesis using redirection_leaks_descriptor [OF demo_console_ok(1), of 3 1 0 demo_shell] by auto
qed

end
