(* ===== verification/Arith68k.thy ===== *)
theory Arith68k
  imports Prelude
begin

text \<open>
  The multiplication and division of 32-bit numbers for a processor that has them for 16 bits only:
  the inline assembler of \<^verbatim>\<open>libc/src/stdlib/__mulsi3.c\<close>, \<^verbatim>\<open>__umulsi3.c\<close>, \<^verbatim>\<open>__divsi3.c\<close>, \<^verbatim>\<open>__udivsi3.c\<close>,
  \<^verbatim>\<open>__modsi3.c\<close> and \<^verbatim>\<open>__umodsi3.c\<close>, instruction by instruction on the four data registers.
\<close>

section \<open>The instructions\<close>

record dregs =
  d0 :: u32
  d1 :: u32
  d2 :: u32
  d3 :: u32

text \<open>\<open>move.w\<close> into a register, \<open>clr.w\<close> and \<open>swap\<close>.\<close>

definition low_word :: "u32 \<Rightarrow> u16" where
  "low_word x = ucast x"

definition move_w :: "u16 \<Rightarrow> u32 \<Rightarrow> u32" where
  "move_w w x = push_bit 16 (drop_bit 16 x) OR ucast w"

definition clr_w :: "u32 \<Rightarrow> u32" where
  "clr_w x = move_w 0 x"

definition swap :: "u32 \<Rightarrow> u32" where
  "swap x = push_bit 16 x OR drop_bit 16 x"

definition mulu :: "u16 \<Rightarrow> u32 \<Rightarrow> u32" where
  "mulu w x = ucast w * ucast (low_word x)"

text \<open>
  \<open>divu\<close>: quotient in the low word, remainder in the high word; nothing changes when the quotient
  does not fit, and a division by 0 is a trap (\<open>None\<close>).
\<close>

definition divu :: "u16 \<Rightarrow> u32 \<Rightarrow> u32 option" where
  "divu w x =
     (if w = 0 then None
      else if x div ucast w > 0xFFFF then Some x
      else Some (push_bit 16 (x mod ucast w) OR x div ucast w))"

section \<open>The routines\<close>

text \<open>The product; \<open>r\<close> holds whatever the registers held before.\<close>

definition mulsi3 :: "u32 \<Rightarrow> u32 \<Rightarrow> dregs \<Rightarrow> u32" where
  "mulsi3 a b r0 =
     (let r1 = r0\<lparr>d0 := a\<rparr>;
          r2 = r1\<lparr>d1 := d0 r1\<rparr>;
          r3 = r2\<lparr>d1 := swap (d1 r2)\<rparr>;
          r4 = r3\<lparr>d2 := b\<rparr>;
          r5 = r4\<lparr>d3 := d2 r4\<rparr>;
          r6 = r5\<lparr>d3 := swap (d3 r5)\<rparr>;
          r7 = r6\<lparr>d0 := mulu (low_word (d2 r6)) (d0 r6)\<rparr>;
          r8 = r7\<lparr>d2 := mulu (low_word (d1 r7)) (d2 r7)\<rparr>;
          r9 = r8\<lparr>d1 := move_w (low_word a) (d1 r8)\<rparr>;
          r10 = r9\<lparr>d1 := mulu (low_word (d3 r9)) (d1 r9)\<rparr>;
          r11 = r10\<lparr>d1 := clr_w (swap (d1 r10))\<rparr>;
          r12 = r11\<lparr>d2 := clr_w (swap (d2 r11))\<rparr>;
          r13 = r12\<lparr>d0 := d0 r12 + d2 r12\<rparr>;
          r14 = r13\<lparr>d0 := d0 r13 + d1 r13\<rparr>
      in d0 r14)"

text \<open>The part that all divisions begin with: the words of the operands, and the upper division.\<close>

definition div_upper :: "u32 \<Rightarrow> u32 \<Rightarrow> dregs \<Rightarrow> dregs option" where
  "div_upper a b r0 =
     (let r1 = r0\<lparr>d0 := 0\<rparr>;
          r2 = r1\<lparr>d1 := 0\<rparr>;
          r3 = r2\<lparr>d0 := move_w (low_word a) (d0 r2)\<rparr>;
          r4 = r3\<lparr>d1 := move_w (low_word b) (d1 r3)\<rparr>;
          r5 = r4\<lparr>d2 := swap (clr_w a)\<rparr>
      in map_option (\<lambda>q. r5\<lparr>d2 := q\<rparr>) (divu (low_word (d1 r5)) (d2 r5)))"

definition udivsi3 :: "u32 \<Rightarrow> u32 \<Rightarrow> dregs \<Rightarrow> u32 option" where
  "udivsi3 a b r0 =
     Option.bind (div_upper a b r0) (\<lambda>r6.
       let r7 = r6\<lparr>d3 := move_w (low_word (d2 r6)) (d3 r6)\<rparr>;
           r8 = r7\<lparr>d3 := clr_w (swap (d3 r7))\<rparr>;
           r9 = r8\<lparr>d2 := clr_w (d2 r8)\<rparr>;
           r10 = r9\<lparr>d0 := d0 r9 + d2 r9\<rparr>
       in Option.bind (divu (low_word (d1 r10)) (d0 r10)) (\<lambda>q.
            let r11 = r10\<lparr>d0 := q\<rparr>;
                r12 = r11\<lparr>d0 := swap (clr_w (swap (d0 r11)))\<rparr>;
                r13 = r12\<lparr>d0 := d0 r12 + d3 r12\<rparr>
            in Some (d0 r13)))"

text \<open>
  The remainder is moved as a word into the register of the result, whose upper half stays as it was
  (\<open>out\<close>).
\<close>

definition umodsi3 :: "u32 \<Rightarrow> u32 \<Rightarrow> dregs \<Rightarrow> u32 \<Rightarrow> u32 option" where
  "umodsi3 a b r0 out =
     Option.bind (div_upper a b r0) (\<lambda>r6.
       let r7 = r6\<lparr>d2 := clr_w (d2 r6)\<rparr>;
           r8 = r7\<lparr>d0 := d0 r7 + d2 r7\<rparr>
       in Option.bind (divu (low_word (d1 r8)) (d0 r8)) (\<lambda>q.
            let r9 = r8\<lparr>d0 := q\<rparr>;
                r10 = r9\<lparr>d0 := swap (clr_w (d0 r9))\<rparr>
            in Some (move_w (low_word (d0 r10)) out)))"

text \<open>The unsigned product and the signed divisions have the same instructions.\<close>

definition umulsi3 :: "u32 \<Rightarrow> u32 \<Rightarrow> dregs \<Rightarrow> u32" where
  "umulsi3 a b r0 = mulsi3 a b r0"

definition divsi3 :: "u32 \<Rightarrow> u32 \<Rightarrow> dregs \<Rightarrow> u32 option" where
  "divsi3 a b r0 = udivsi3 a b r0"

definition modsi3 :: "u32 \<Rightarrow> u32 \<Rightarrow> dregs \<Rightarrow> u32 \<Rightarrow> u32 option" where
  "modsi3 a b r0 out = umodsi3 a b r0 out"

section \<open>What the instructions compute\<close>

lemma unat_low_word: "unat (low_word x) = unat x mod 65536"
  by (simp add: low_word_def unsigned_ucast_eq take_bit_eq_mod)

lemma unat_ucast_word [simp]: "unat (ucast (w :: u16) :: u32) = unat w"
proof -
  have "unat w < 2 ^ 16" using unsigned_less [of w] by simp
  then show ?thesis by (simp add: unsigned_ucast_eq take_bit_eq_mod)
qed

lemma halves: "x = push_bit 16 (drop_bit 16 x) + ucast (low_word (x :: u32))"
proof -
  have "push_bit 16 (drop_bit 16 x) OR ucast (low_word x) = x"
    by (rule bit_word_eqI) (auto simp: low_word_def bit_simps)
  moreover have "push_bit 16 (drop_bit 16 x) AND ucast (low_word x) = 0"
    by (rule bit_word_eqI) (auto simp: low_word_def bit_simps)
  ultimately show ?thesis by (metis word_plus_and_or add_0)
qed

lemma clr_w_eq: "clr_w x = push_bit 16 (drop_bit 16 x)"
  by (simp add: clr_w_def move_w_def)

lemma move_w_0: "move_w w 0 = ucast w"
  by (simp add: move_w_def)

lemma low_word_move [simp]: "low_word (move_w w x) = w"
  by (rule bit_word_eqI) (auto simp: low_word_def move_w_def bit_simps)

lemma swap_clr: "swap (clr_w x) = drop_bit 16 x"
  by (rule bit_word_eqI) (auto simp: clr_w_eq swap_def bit_simps dest: bit_imp_le_length)

lemma clr_swap: "clr_w (swap x) = push_bit 16 x"
  by (rule bit_word_eqI) (auto simp: clr_w_eq swap_def bit_simps)

lemma low_word_ucast: "low_word (ucast w) = w"
  by (rule bit_word_eqI) (auto simp: low_word_def bit_simps)

lemma low_word_drop: "ucast (low_word (drop_bit 16 x)) = drop_bit 16 x"
  by (rule bit_word_eqI) (auto simp: low_word_def bit_simps dest: bit_imp_le_length)

lemma swap_push: "swap (push_bit 16 x) = ucast (low_word x)"
  by (rule bit_word_eqI) (auto simp: low_word_def swap_def bit_simps dest: bit_imp_le_length)

lemma move_push: "push_bit 16 (move_w w x) = push_bit 16 (ucast w)"
  by (rule bit_word_eqI) (auto simp: move_w_def bit_simps)

lemma low_word_swap: "ucast (low_word (swap x)) = drop_bit 16 x"
  by (rule bit_word_eqI) (auto simp: low_word_def swap_def bit_simps dest: bit_imp_le_length)

lemma small_bits: "y < 65536 \<Longrightarrow> take_bit 16 y = (y :: u32)"
  by (simp add: word_unat_eq_iff take_bit_eq_mod unat_mod word_less_nat_alt)

lemma packed_words:
  assumes "q < (65536 :: u32)" "r < (65536 :: u32)"
  shows "ucast (low_word (push_bit 16 r OR q)) = q" "drop_bit 16 (push_bit 16 r OR q) = r"
proof -
  have "ucast (low_word (push_bit 16 r OR q)) = take_bit 16 q"
    by (rule bit_word_eqI) (auto simp: low_word_def bit_simps)
  then show "ucast (low_word (push_bit 16 r OR q)) = q" using small_bits [OF assms(1)] by simp
  have "drop_bit 16 (push_bit 16 r OR take_bit 16 q) = take_bit 16 r"
    by (rule bit_word_eqI) (auto simp: bit_simps dest: bit_imp_le_length)
  then show "drop_bit 16 (push_bit 16 r OR q) = r" using small_bits [OF assms(1)] small_bits [OF assms(2)] by simp
qed

lemma divu_words:
  assumes w: "w \<noteq> 0" and fits: "x div ucast w < 65536"
  shows "\<exists>y. divu w x = Some y \<and> ucast (low_word y) = x div (ucast w :: u32) \<and> drop_bit 16 y = x mod ucast w"
proof -
  let ?w = "ucast w :: u32"
  have "0 < unat w" using w by (simp add: unat_gt_0)
  then have "unat x mod unat w < unat w" by simp
  moreover have "unat w < 65536" using unsigned_less [of w] by simp
  ultimately have "x mod ?w < 65536" by (simp add: word_less_nat_alt unat_mod)
  moreover have "divu w x = Some (push_bit 16 (x mod ?w) OR x div ?w)"
    using w fits by (simp add: divu_def word_less_nat_alt)
  ultimately show ?thesis using packed_words [OF fits] by blast
qed

lemma half_products:
  assumes "c * c = (0 :: u32)"
  shows "(ah * c + al) * (bh * c + bl) = bl * al + ah * bl * c + bh * al * c"
proof -
  have "(ah * c + al) * (bh * c + bl) = ah * bh * (c * c) + (bl * al + ah * bl * c + bh * al * c)"
    by (simp add: algebra_simps)
  with assms show ?thesis by simp
qed

lemma mulsi3_product: "mulsi3 a b r0 = a * b"
proof -
  let ?ah = "drop_bit 16 a" and ?bh = "drop_bit 16 b" and ?al = "ucast (low_word a) :: u32" and ?bl = "ucast (low_word b) :: u32"
  have "mulsi3 a b r0 = ?bl * ?al + push_bit 16 (?ah * ?bl) + push_bit 16 (?bh * ?al)"
    by (simp add: mulsi3_def Let_def mulu_def clr_swap low_word_swap)
  also have "\<dots> = ?bl * ?al + ?ah * ?bl * 65536 + ?bh * ?al * 65536" by (simp add: push_bit_eq_mult)
  also have "\<dots> = (?ah * 65536 + ?al) * (?bh * 65536 + ?bl)"
  proof -
    have "(65536 :: u32) * 65536 = 0" by code_simp
    from half_products [OF this] show ?thesis by simp
  qed
  also have "?ah * 65536 + ?al = a" using halves [of a] by (simp add: push_bit_eq_mult)
  also have "?bh * 65536 + ?bl = b" using halves [of b] by (simp add: push_bit_eq_mult)
  finally show ?thesis .
qed

text \<open>Dividing in two steps.\<close>

lemma div_halves:
  fixes h l w :: nat
  assumes "0 < w" "l < 65536"
  shows "(h * 65536 + l) div w = h div w * 65536 + (h mod w * 65536 + l) div w"
    "(h * 65536 + l) mod w = (h mod w * 65536 + l) mod w"
    "(h mod w * 65536 + l) div w < 65536"
proof -
  obtain q r where qr: "h div w = q" "h mod w = r" "h = q * w + r" by (metis div_mult_mod_eq)
  have e: "h * 65536 + l = (r * 65536 + l) + q * 65536 * w" unfolding qr(3) by (simp add: algebra_simps)
  show "(h * 65536 + l) div w = h div w * 65536 + (h mod w * 65536 + l) div w"
    unfolding e qr(1,2) using assms(1) by simp
  show "(h * 65536 + l) mod w = (h mod w * 65536 + l) mod w"
    unfolding e qr(1,2) by simp
  have "h mod w < w" using assms(1) by simp
  then have "Suc (h mod w) * 65536 \<le> w * 65536" by (intro mult_le_mono1) simp
  then have "h mod w * 65536 + l < 65536 * w" using assms(2) by simp
  then show "(h mod w * 65536 + l) div w < 65536" by (simp add: div_less_iff_less_mult [OF assms(1)])
qed

lemma unat_halves:
  shows "unat (drop_bit 16 a :: u32) < 65536" "unat (low_word a) < 65536"
    "unat a = unat (drop_bit 16 a) * 65536 + unat (low_word a)"
proof -
  have "unat a < 65536 * 65536" using unsigned_less [of a] by simp
  then show "unat (drop_bit 16 a) < 65536" by (simp add: drop_bit_eq_div unat_div div_less_iff_less_mult)
  show "unat (low_word a) < 65536" using unsigned_less [of "low_word a"] by simp
  show "unat a = unat (drop_bit 16 a) * 65536 + unat (low_word a)"
    by (simp add: unat_low_word drop_bit_eq_div unat_div)
qed

text \<open>What the upper division leaves: the quotient and the remainder of the upper word.\<close>

lemma div_upper_words:
  assumes w: "low_word b \<noteq> 0"
  shows "\<exists>r. div_upper a b r0 = Some r \<and> d0 r = ucast (low_word a) \<and> low_word (d1 r) = low_word b \<and>
    unat (low_word (d2 r)) = unat (drop_bit 16 a) div unat (low_word b) \<and>
    unat (drop_bit 16 (d2 r)) = unat (drop_bit 16 a) mod unat (low_word b)"
proof -
  let ?w = "low_word b" and ?h = "drop_bit 16 a"
  have "unat ?h div unat ?w < 65536" using unat_halves(1) [of a] div_le_dividend [of "unat ?h" "unat ?w"] by linarith
  then have "?h div ucast ?w < 65536" by (simp add: word_less_nat_alt unat_div)
  from divu_words [OF w this] obtain y where y: "divu ?w ?h = Some y" "ucast (low_word y) = ?h div (ucast ?w :: u32)"
    "drop_bit 16 y = ?h mod ucast ?w" by blast
  have "unat (low_word y) = unat (?h div (ucast ?w :: u32))" by (metis y(2) unat_ucast_word)
  then have q: "unat (low_word y) = unat ?h div unat ?w" by (simp add: unat_div)
  have "div_upper a b r0 = Some (r0\<lparr>d0 := ucast (low_word a), d1 := ucast ?w, d2 := y\<rparr>)"
    using y(1) by (simp add: div_upper_def Let_def move_w_0 swap_clr low_word_ucast)
  then show ?thesis using y(3) q by (simp add: unat_mod low_word_ucast)
qed

lemma div_upper_zero: "low_word b = 0 \<Longrightarrow> div_upper a b r0 = None"
  by (simp add: div_upper_def Let_def divu_def)

text \<open>The second division, on the remainder of the first and the lower word.\<close>

lemma lower_division:
  assumes w: "low_word b \<noteq> 0" and r: "unat (drop_bit 16 y) = unat (drop_bit 16 a) mod unat (low_word b)"
  shows "\<exists>z. divu (low_word b) (ucast (low_word a) + clr_w y) = Some z \<and>
    unat (low_word z) = (unat (drop_bit 16 a) mod unat (low_word b) * 65536 + unat (low_word a)) div unat (low_word b) \<and>
    unat (drop_bit 16 z) = unat a mod unat (low_word b)"
proof -
  let ?w = "low_word b" and ?x = "ucast (low_word a) + clr_w y"
  have w0: "0 < unat ?w" using w by (simp add: unat_gt_0)
  have rw: "unat (drop_bit 16 y) < unat ?w" unfolding r using w0 by simp
  have "unat (clr_w y) = unat (drop_bit 16 y) * 65536"
    using unat_halves(1) [of y] by (simp add: clr_w_eq push_bit_eq_mult unat_mult_lem [THEN iffD1])
  moreover have "unat (low_word a) + unat (drop_bit 16 y) * 65536 < 2 ^ 32"
    using unat_halves(1) [of y] unat_halves(2) [of a] by simp
  ultimately have x: "unat ?x = unat (drop_bit 16 a) mod unat ?w * 65536 + unat (low_word a)"
    unfolding r [symmetric] by (simp add: unat_add_lem [THEN iffD1])
  note dh = div_halves [OF w0 unat_halves(2) [of a], of "unat (drop_bit 16 a)"]
  have "unat ?x div unat ?w < 65536" unfolding x by (rule dh(3))
  then have "?x div ucast ?w < 65536" by (simp add: word_less_nat_alt unat_div)
  from divu_words [OF w this] obtain z where z: "divu ?w ?x = Some z" "ucast (low_word z) = ?x div (ucast ?w :: u32)"
    "drop_bit 16 z = ?x mod ucast ?w" by blast
  have "unat (low_word z) = unat (?x div (ucast ?w :: u32))" by (metis z(2) unat_ucast_word)
  moreover have "unat (drop_bit 16 z) = unat a mod unat ?w"
    unfolding unat_halves(3) [of a] dh(2) by (simp add: z(3) unat_mod x)
  ultimately show ?thesis using z(1) by (simp add: unat_div x)
qed

lemma udivsi3_quotient:
  "udivsi3 a b r0 = (if low_word b = 0 then None else Some (a div ucast (low_word b)))"
proof (cases "low_word b = 0")
  case True
  then show ?thesis by (simp add: udivsi3_def div_upper_zero)
next
  case False
  let ?w = "low_word b"
  have w0: "0 < unat ?w" using False by (simp add: unat_gt_0)
  from div_upper_words [OF False, of a r0] obtain r where r: "div_upper a b r0 = Some r" "d0 r = ucast (low_word a)"
    "low_word (d1 r) = ?w" "unat (low_word (d2 r)) = unat (drop_bit 16 a) div unat ?w"
    "unat (drop_bit 16 (d2 r)) = unat (drop_bit 16 a) mod unat ?w" by blast
  from lower_division [OF False r(5)] obtain z where z: "divu ?w (ucast (low_word a) + clr_w (d2 r)) = Some z"
    "unat (low_word z) = (unat (drop_bit 16 a) mod unat ?w * 65536 + unat (low_word a)) div unat ?w" by blast
  have res: "udivsi3 a b r0 = Some (ucast (low_word z) + push_bit 16 (ucast (low_word (d2 r))))"
    using z(1) by (simp add: udivsi3_def r Let_def clr_swap swap_push move_push)
  note dh = div_halves [OF w0 unat_halves(2) [of a], of "unat (drop_bit 16 a)"]
  have "unat (ucast (low_word z) + push_bit 16 (ucast (low_word (d2 r))) :: u32) = unat a div unat ?w"
  proof -
    have "unat (push_bit 16 (ucast (low_word (d2 r))) :: u32) = unat (low_word (d2 r)) * 65536"
      using unat_halves(2) [of "d2 r"] by (simp add: push_bit_eq_mult unat_mult_lem [THEN iffD1])
    moreover have "unat (low_word z) + unat (low_word (d2 r)) * 65536 < 2 ^ 32"
      using unat_halves(2) [of z] unat_halves(2) [of "d2 r"] by simp
    ultimately have "unat (ucast (low_word z) + push_bit 16 (ucast (low_word (d2 r))) :: u32)
      = unat (low_word z) + unat (low_word (d2 r)) * 65536" by (simp add: unat_add_lem [THEN iffD1])
    then show ?thesis unfolding unat_halves(3) [of a] dh(1) z(2) r(4) by simp
  qed
  then show ?thesis using False res by (simp add: word_unat_eq_iff unat_div)
qed

lemma umodsi3_remainder:
  "umodsi3 a b r0 out = (if low_word b = 0 then None
     else Some (push_bit 16 (drop_bit 16 out) OR a mod ucast (low_word b)))"
proof (cases "low_word b = 0")
  case True
  then show ?thesis by (simp add: umodsi3_def div_upper_zero)
next
  case False
  let ?w = "low_word b"
  from div_upper_words [OF False, of a r0] obtain r where r: "div_upper a b r0 = Some r" "d0 r = ucast (low_word a)"
    "low_word (d1 r) = ?w" "unat (drop_bit 16 (d2 r)) = unat (drop_bit 16 a) mod unat ?w" by blast
  from lower_division [OF False r(4)] obtain z where z: "divu ?w (ucast (low_word a) + clr_w (d2 r)) = Some z"
    "unat (drop_bit 16 z) = unat a mod unat ?w" by blast
  have "drop_bit 16 z = a mod ucast ?w" using z(2) by (simp add: word_unat_eq_iff unat_mod)
  then have "ucast (low_word (drop_bit 16 z)) = a mod ucast ?w" by (metis low_word_drop)
  then show ?thesis
    using z(1) False by (simp add: umodsi3_def r Let_def swap_clr move_w_def)
qed

section \<open>Properties\<close>

text \<open>C34: The product of any two numbers is their product modulo 2 to the 32, signed or not.\<close>

theorem multiplication_exact: "mulsi3 a b r0 = a * b"
  by (rule mulsi3_product)

text \<open>
  C35: Division and remainder use the low word of the divisor only: they trap if it is 0, are exact for a
  divisor below 65536, and for a larger divisor divide by something else.  The remainder comes in
  the low word of its register, whose upper half is what it was.
\<close>

theorem division_by_low_word:
  "udivsi3 a b r0 = (if low_word b = 0 then None else Some (a div ucast (low_word b))) \<and>
   (case umodsi3 a b r0 out of None \<Rightarrow> low_word b = 0
    | Some r \<Rightarrow> low_word b \<noteq> 0 \<and> low_word r = low_word (a mod ucast (low_word b)) \<and> drop_bit 16 r = drop_bit 16 out)"
proof -
  have "low_word (push_bit 16 (drop_bit 16 out) OR x) = low_word x" for x
    by (rule bit_word_eqI) (auto simp: low_word_def bit_simps)
  moreover have "drop_bit 16 (push_bit 16 (drop_bit 16 out) OR a mod ucast (low_word b)) = drop_bit 16 out"
    if "low_word b \<noteq> 0"
  proof -
    have "a mod (ucast (low_word b)) < (65536 :: u32)"
    proof -
      have "0 < unat (low_word b)" using that by (simp add: unat_gt_0)
      then have "unat a mod unat (low_word b) < unat (low_word b)" by simp
      then show ?thesis using unat_halves(2) [of b] by (simp add: word_less_nat_alt unat_mod)
    qed
    moreover have "drop_bit 16 out < (65536 :: u32)" using unat_halves(1) [of out] by (simp add: word_less_nat_alt)
    ultimately show ?thesis by (rule packed_words(2))
  qed
  ultimately show ?thesis by (simp add: udivsi3_quotient umodsi3_remainder)
qed

text \<open>The routines are wrong for a divisor that needs more than 16 bits.\<close>

lemma division_wrong_divisor: "udivsi3 100 0x10001 r0 = Some 100" "udivsi3 100 0x10000 r0 = None"
proof -
  have l: "low_word 0x10001 = 1" "low_word 0x10000 = 0" by code_simp+
  have "(ucast (1 :: u16) :: u32) = 1" by code_simp
  then show "udivsi3 100 0x10001 r0 = Some 100" by (simp add: udivsi3_quotient l)
  show "udivsi3 100 0x10000 r0 = None" by (simp add: udivsi3_quotient l)
qed

end
