(* ===== verification/CmdRepeat.thy ===== *)
theory CmdRepeat
  imports RingBuffer
begin

text \<open>
  The command recall of the BIOS (\<^verbatim>\<open>apps/bios/shell/cmd_repeat.c\<close>): commands lie one behind the other
  in a buffer of 256 bytes whose index wraps, sixteen slots say where each begins and how long it is,
  and the arrow keys walk through them.  What the terminal shall show goes to the ring buffer.
  \<open>None\<close>: an array of 64 bytes is overrun, or one is used that nothing was written to.
\<close>

section \<open>State\<close>

definition HIST_MAX_CMDS :: nat where "HIST_MAX_CMDS = 16"

record recall =
  hist_buf :: "u8 \<Rightarrow> u8"
  hist_head :: u8
  hist_start :: "nat \<Rightarrow> u8"
  hist_len :: "nat \<Rightarrow> u8"
  hist_count :: u8
  hist_newest :: u8
  hist_cursor :: int
  saved_line :: "u8 list"
  saved_len :: u8
  line_buf :: "u8 list"
  line_len :: u8

section \<open>Operations\<close>

fun hist_store :: "(u8 \<Rightarrow> u8) \<Rightarrow> u8 \<Rightarrow> (nat \<Rightarrow> u8) \<Rightarrow> nat \<Rightarrow> u8 \<Rightarrow> u8" where
  "hist_store buf head cmd 0 = buf"
| "hist_store buf head cmd (Suc n) = (hist_store buf head cmd n)(head + of_nat n := cmd n)"

definition hist_add :: "(nat \<Rightarrow> u8) \<Rightarrow> u8 \<Rightarrow> recall \<Rightarrow> recall" where
  "hist_add cmd len h =
     (if len = 0 then h
      else
        let slot = (hist_newest h + 1) mod of_nat HIST_MAX_CMDS
        in h\<lparr>hist_buf := (hist_store (hist_buf h) (hist_head h) cmd (unat len))(hist_head h + len := 0x0D),
             hist_newest := slot,
             hist_start := (hist_start h)(unat slot := hist_head h),
             hist_len := (hist_len h)(unat slot := len),
             hist_head := hist_head h + len + 1,
             hist_count := (if unat (hist_count h) < HIST_MAX_CMDS then hist_count h + 1 else hist_count h),
             hist_cursor := - 1\<rparr>)"

text \<open>Copying \<open>n\<close> bytes into an array.\<close>

definition copy_array :: "nat \<Rightarrow> u8 list \<Rightarrow> u8 list \<Rightarrow> u8 list option" where
  "copy_array n src dst = (if n \<le> length src \<and> n \<le> length dst then Some (take n src @ drop n dst) else None)"

text \<open>\<open>Some None\<close>: there is no command of that age.\<close>

definition hist_get :: "int \<Rightarrow> u8 list \<Rightarrow> recall \<Rightarrow> (u8 list \<times> u8) option option" where
  "hist_get age out h =
     (if age < 0 \<or> age \<ge> uint (hist_count h) then Some None
      else
        let slot = nat ((uint (hist_newest h) - age + int HIST_MAX_CMDS) mod int HIST_MAX_CMDS);
            start = hist_start h slot;
            len = hist_len h slot
        in map_option (\<lambda>o'. Some (o', len))
             (copy_array (unat len) (map (\<lambda>i. hist_buf h (start + of_nat i)) [0..<unat len]) out))"

fun erase_loop :: "nat \<Rightarrow> ringbuffer \<Rightarrow> ringbuffer" where
  "erase_loop 0 rb = rb"
| "erase_loop (Suc n) rb = erase_loop n (ring_buf_put 8 (ring_buf_put 32 (ring_buf_put 8 rb)))"

definition erase_line :: "recall \<times> ringbuffer \<Rightarrow> recall \<times> ringbuffer" where
  "erase_line = (\<lambda>(h, rb). (h\<lparr>line_len := 0\<rparr>, erase_loop (unat (line_len h)) rb))"

definition echo_line :: "u8 list \<Rightarrow> u8 \<Rightarrow> ringbuffer \<Rightarrow> ringbuffer" where
  "echo_line s len rb = fold ring_buf_put (take (unat len) s) rb"

definition fkey_up :: "recall \<times> ringbuffer \<Rightarrow> (recall \<times> ringbuffer) option" where
  "fkey_up = (\<lambda>(h, rb).
     Option.bind
       (if hist_cursor h = - 1 then
          map_option (\<lambda>s. h\<lparr>saved_len := line_len h, saved_line := s\<rparr>)
            (copy_array (unat (line_len h)) (line_buf h) (saved_line h))
        else Some h)
       (\<lambda>h1. Option.bind (hist_get (hist_cursor h1 + 1) (replicate 64 0) h1) (\<lambda>found.
          case found of
            None \<Rightarrow> Some (h1, rb)
          | Some (tmp, tmplen) \<Rightarrow>
              let (h2, rb2) = erase_line (h1\<lparr>hist_cursor := hist_cursor h1 + 1\<rparr>, rb);
                  rb3 = echo_line tmp tmplen rb2
              in map_option (\<lambda>l. (h2\<lparr>line_len := tmplen, line_buf := l\<rparr>, rb3))
                   (copy_array (unat tmplen) tmp (line_buf h2)))))"

definition fkey_down :: "recall \<times> ringbuffer \<Rightarrow> (recall \<times> ringbuffer) option" where
  "fkey_down = (\<lambda>(h, rb).
     if hist_cursor h = - 1 then Some (h, rb)
     else if hist_cursor h = 0 then
       (let (h1, rb1) = erase_line (h, rb);
            rb2 = echo_line (saved_line h1) (saved_len h1) rb1
        in map_option (\<lambda>l. (h1\<lparr>line_buf := l, line_len := saved_len h1, hist_cursor := - 1\<rparr>, rb2))
             (copy_array (unat (saved_len h1)) (saved_line h1) (line_buf h1)))
     else
       (let h1 = h\<lparr>hist_cursor := hist_cursor h - 1\<rparr>
        in Option.bind (hist_get (hist_cursor h1) (replicate 64 0) h1) (\<lambda>found.
             case found of
               None \<Rightarrow> None
             | Some (tmp, tmplen) \<Rightarrow>
                 let (h2, rb2) = erase_line (h1, rb);
                     rb3 = echo_line tmp tmplen rb2
                 in map_option (\<lambda>l. (h2\<lparr>line_buf := l, line_len := tmplen\<rparr>, rb3))
                      (copy_array (unat tmplen) tmp (line_buf h2)))))"

text \<open>The branches for return and backspace begin with a \<open>break\<close>.\<close>

definition keyboard_handler :: "u8 \<Rightarrow> recall \<times> ringbuffer \<Rightarrow> (u8 \<times> recall \<times> ringbuffer) option" where
  "keyboard_handler scancode s =
     (if scancode = 11 then map_option (\<lambda>s'. (1, s')) (fkey_up s)
      else if scancode = 12 then map_option (\<lambda>s'. (1, s')) (fkey_down s)
      else if scancode = 0x0D then Some (0, s)
      else if scancode = 0x08 then Some (0, s)
      else Some (0, s))"

section \<open>What the buffer holds\<close>

text \<open>The bytes that the newest \<open>k\<close> commands take, each with its return character.\<close>

definition span :: "nat \<Rightarrow> u8 list list \<Rightarrow> nat" where
  "span k cmds = sum_list (map (\<lambda>c. Suc (length c)) (take k cmds))"

definition slot_of :: "recall \<Rightarrow> nat \<Rightarrow> nat" where
  "slot_of h k = (unat (hist_newest h) + 16 - k) mod 16"

definition recalls :: "recall \<Rightarrow> nat \<Rightarrow> u8 list list \<Rightarrow> bool" where
  "recalls h k cmds \<longleftrightarrow> 0 < length (cmds ! k) \<and> length (cmds ! k) \<le> 255 \<and>
     hist_len h (slot_of h k) = of_nat (length (cmds ! k)) \<and>
     hist_start h (slot_of h k) = hist_head h - of_nat (span (Suc k) cmds) \<and>
     (span (Suc k) cmds \<le> 256 \<longrightarrow>
       (\<forall>i < length (cmds ! k). hist_buf h (hist_head h - of_nat (span (Suc k) cmds) + of_nat i) = cmds ! k ! i))"

definition holds :: "recall \<Rightarrow> u8 list list \<Rightarrow> bool" where
  "holds h cmds \<longleftrightarrow> unat (hist_count h) = min 16 (length cmds) \<and> unat (hist_newest h) < 16 \<and>
     (\<forall>k < min 16 (length cmds). recalls h k cmds)"

lemma span_Cons: "span (Suc k) (c # cmds) = Suc (length c) + span k cmds"
  by (simp add: span_def)

lemma span_Suc: "k < length cmds \<Longrightarrow> span (Suc k) cmds = span k cmds + Suc (length (cmds ! k))"
  by (simp add: span_def take_Suc_conv_app_nth)

lemma word_256: "(256 :: u8) = 0"
  by code_simp

lemma hist_store_apply:
  "n \<le> 256 \<Longrightarrow> hist_store buf head cmd n x = (if unat (x - head) < n then cmd (unat (x - head)) else buf x)"
proof (induction n)
  case (Suc n)
  have "unat (of_nat n :: u8) = n" using Suc.prems by (simp add: unat_of_nat)
  moreover have "x = head + of_nat n \<longleftrightarrow> x - head = of_nat n" by (auto simp: algebra_simps)
  ultimately have "x = head + of_nat n \<longleftrightarrow> unat (x - head) = n" by (metis word_unat_eq_iff)
  with Suc show ?case by auto
qed simp

lemma unat_next: "unat (x :: u8) < 255 \<Longrightarrow> unat (x + 1) = unat x + 1"
  by (simp add: unat_word_ariths)

lemma back_offset:
  assumes "i < S" "S \<le> 256"
  shows "unat (head - of_nat S + of_nat i - head :: u8) = 256 + i - S"
proof -
  have e: "head - of_nat S + of_nat i - head = (of_nat (256 + i - S) :: u8)"
  proof -
    have "(of_nat (256 + i - S) :: u8) = of_nat (256 + i) - of_nat S" using assms by (simp add: of_nat_diff)
    then show ?thesis by (simp add: algebra_simps word_256)
  qed
  show ?thesis unfolding e unat_of_nat using assms by simp
qed

text \<open>Adding a command: the older ones move up by one.\<close>

lemma slot_of_new:
  assumes "unat (hist_newest h) < 16" "hist_newest h' = (hist_newest h + 1) mod 16"
  shows "unat (hist_newest h') = (unat (hist_newest h) + 1) mod 16" "unat (hist_newest h') < 16"
    "slot_of h' 0 = unat (hist_newest h')" "k < 15 \<Longrightarrow> slot_of h' (Suc k) = slot_of h k"
    "k < 15 \<Longrightarrow> slot_of h k \<noteq> unat (hist_newest h')"
proof -
  let ?n = "unat (hist_newest h)"
  have "unat (hist_newest h + 1) = ?n + 1"
    using assms(1) by (simp add: unat_next)
  then show n: "unat (hist_newest h') = (?n + 1) mod 16" by (simp add: assms(2) unat_mod)
  then show lt: "unat (hist_newest h') < 16" by simp
  show "slot_of h' 0 = unat (hist_newest h')" using lt by (simp add: slot_of_def)
  assume k: "k < 15"
  show "slot_of h' (Suc k) = slot_of h k"
  proof (cases "?n = 15")
    case True
    have "(31 - k) mod 16 = 15 - k" using k by (simp add: mod_if)
    with True show ?thesis using n k by (simp add: slot_of_def)
  next
    case False
    then have "unat (hist_newest h') = ?n + 1" using n assms(1) by simp
    then show ?thesis using k by (simp add: slot_of_def add.commute)
  qed
  show "slot_of h k \<noteq> unat (hist_newest h')"
  proof (cases "?n = 15")
    case True
    have "(31 - k) mod 16 = 15 - k" using k by (simp add: mod_if)
    with True show ?thesis using n k by (simp add: slot_of_def)
  next
    case False
    then have e: "unat (hist_newest h') = ?n + 1" using n assms(1) by simp
    show ?thesis
    proof (cases "k \<le> ?n")
      case True
      then have "(?n + 16 - k) mod 16 = ?n - k" using assms(1) by (simp add: mod_if)
      then show ?thesis using e by (simp add: slot_of_def)
    next
      case F: False
      then show ?thesis using e k by (simp add: slot_of_def)
    qed
  qed
qed

lemma hist_add_holds:
  assumes h: "holds h cmds" and c: "0 < length c" "length c \<le> 255"
  shows "holds (hist_add (\<lambda>i. c ! i) (of_nat (length c)) h) (c # cmds)"
proof -
  let ?len = "of_nat (length c) :: u8"
  define h' where "h' = hist_add (\<lambda>i. c ! i) ?len h"
  have ul: "unat ?len = length c" using c(2) by (simp add: unat_of_nat)
  then have nz: "?len \<noteq> 0" using c(1) by auto
  have f: "hist_newest h' = (hist_newest h + 1) mod 16" "hist_head h' = hist_head h + ?len + 1"
    "hist_start h' = (hist_start h)(unat (hist_newest h') := hist_head h)"
    "hist_len h' = (hist_len h)(unat (hist_newest h') := ?len)"
    "hist_count h' = (if unat (hist_count h) < 16 then hist_count h + 1 else hist_count h)"
    "hist_buf h' = (hist_store (hist_buf h) (hist_head h) (\<lambda>i. c ! i) (length c))(hist_head h + ?len := 13)"
    using nz ul by (simp_all add: h'_def hist_add_def Let_def HIST_MAX_CMDS_def)
  have n16: "unat (hist_newest h) < 16" and cnt: "unat (hist_count h) = min 16 (length cmds)"
    and rec: "k < min 16 (length cmds) \<Longrightarrow> recalls h k cmds" for k
    using h by (auto simp: holds_def)
  note slot = slot_of_new [OF n16 f(1)]
  have buf: "hist_buf h' x = (if unat (x - hist_head h) < length c then c ! unat (x - hist_head h)
      else if unat (x - hist_head h) = length c then 13 else hist_buf h x)" for x
  proof -
    have "x = hist_head h + ?len \<longleftrightarrow> x - hist_head h = ?len" by (auto simp: algebra_simps)
    then have "x = hist_head h + ?len \<longleftrightarrow> unat (x - hist_head h) = length c" using ul by (metis word_unat_eq_iff)
    then show ?thesis using c(2) by (simp add: f(6) hist_store_apply)
  qed
  have "unat (hist_count h') = min 16 (length (c # cmds))"
  proof (cases "unat (hist_count h) < 16")
    case True
    then have "unat (hist_count h + 1) = unat (hist_count h) + 1"
      by (simp add: unat_next)
    then show ?thesis using True cnt by (simp add: f(5))
  qed (use cnt f(5) in simp)
  moreover have "recalls h' k (c # cmds)" if k: "k < min 16 (length (c # cmds))" for k
  proof (cases k)
    case 0
    have s1: "span (Suc 0) (c # cmds) = Suc (length c)" by (simp add: span_def)
    have st: "hist_head h' - of_nat (Suc (length c)) = hist_head h" by (simp add: f(2) algebra_simps)
    have "hist_buf h' (hist_head h + of_nat i) = c ! i" if "i < length c" for i
      using that c(2) by (simp add: buf unat_of_nat)
    then show ?thesis
      unfolding "0" recalls_def s1 st using c by (simp add: slot(3) f(3,4) del: of_nat_Suc)
  next
    case (Suc j)
    then have j: "j < 15" "j < min 16 (length cmds)" using k by auto
    note r = rec [OF j(2), unfolded recalls_def]
    let ?S = "span (Suc j) cmds"
    have sp: "span (Suc k) (c # cmds) = Suc (length c) + ?S" unfolding Suc by (rule span_Cons)
    have st: "hist_head h' - of_nat (Suc (length c) + ?S) = hist_head h - of_nat ?S"
      by (simp add: f(2) algebra_simps)
    have "hist_buf h' (hist_head h - of_nat ?S + of_nat i) = cmds ! j ! i"
      if le: "Suc (length c) + ?S \<le> 256" and i: "i < length (cmds ! j)" for i
    proof -
      have iS: "i < ?S" using i j(2) by (simp add: span_Suc)
      have "unat (hist_head h - of_nat ?S + of_nat i - hist_head h) = 256 + i - ?S"
        using iS le by (intro back_offset) simp_all
      moreover have "length c < 256 + i - ?S" using le by linarith
      ultimately have "hist_buf h' (hist_head h - of_nat ?S + of_nat i) = hist_buf h (hist_head h - of_nat ?S + of_nat i)"
        by (simp add: buf)
      also have "\<dots> = cmds ! j ! i" using r le i by simp
      finally show ?thesis .
    qed
    then show ?thesis
      unfolding recalls_def sp st unfolding Suc slot(4) [OF j(1)]
      using r slot(5) [OF j(1)] by (simp add: f(3,4))
  qed
  ultimately show ?thesis using slot(2) unfolding h'_def holds_def by blast
qed

text \<open>What \<open>hist_get\<close> gives back.\<close>

lemma holds_count:
  assumes "holds h cmds" shows "uint (hist_count h) = int (min 16 (length cmds))"
proof -
  have "unat (hist_count h) = min 16 (length cmds)" using assms unfolding holds_def by blast
  then show ?thesis by (metis uint_nat)
qed

lemma hist_get_beyond:
  assumes "holds h cmds" "min 16 (length cmds) \<le> k"
  shows "hist_get (int k) out h = Some None"
proof -
  have "int (min 16 (length cmds)) \<le> int k" using assms(2) by (simp only: of_nat_le_iff)
  then show ?thesis unfolding hist_get_def holds_count [OF assms(1)] by simp
qed

lemma slot_index:
  assumes "k < min 16 n"
  shows "nat ((uint (hist_newest h) - int k + 16) mod 16) = slot_of h k"
proof -
  have "uint (hist_newest h) - int k + 16 = int (unat (hist_newest h) + 16 - k)"
    using assms by (simp add: of_nat_diff)
  then show ?thesis by (simp add: slot_of_def nat_mod_distrib zmod_int)
qed

lemma hist_get_recalls:
  assumes h: "holds h cmds" and k: "k < min 16 (length cmds)" and sp: "span (Suc k) cmds \<le> 256"
    and out: "length (cmds ! k) \<le> length out"
  shows "hist_get (int k) out h = Some (Some (cmds ! k @ drop (length (cmds ! k)) out, of_nat (length (cmds ! k))))"
proof -
  have n16: "unat (hist_newest h) < 16" using h by (simp add: holds_def)
  note cnt = holds_count [OF h]
  have r: "recalls h k cmds" using h k by (simp add: holds_def)
  let ?c = "cmds ! k"
  note slot = slot_index [OF k]
  have l: "unat (hist_len h (slot_of h k)) = length ?c" "hist_len h (slot_of h k) = of_nat (length ?c)"
    using r by (simp_all add: recalls_def unat_of_nat)
  have b: "hist_buf h (hist_start h (slot_of h k) + of_nat i) = ?c ! i" if "i < length ?c" for i
    using r sp that by (simp add: recalls_def)
  have "map (\<lambda>i. hist_buf h (hist_start h (slot_of h k) + of_nat i)) [0..<length ?c] = ?c"
    using b by (intro nth_equalityI) simp_all
  then have ca: "copy_array (unat (hist_len h (slot_of h k)))
      (map (\<lambda>i. hist_buf h (hist_start h (slot_of h k) + of_nat i)) [0..<unat (hist_len h (slot_of h k))]) out
    = Some (?c @ drop (length ?c) out)"
    using out by (simp add: l(1) copy_array_def)
  have "\<not> (int k < 0 \<or> int k \<ge> uint (hist_count h))" using k unfolding cnt by (simp add: not_le)
  then show ?thesis
    unfolding hist_get_def HIST_MAX_CMDS_def Let_def of_nat_numeral slot ca by (simp add: l(2))
qed

lemma hist_get_overruns:
  assumes h: "holds h cmds" and k: "k < min 16 (length cmds)" and out: "length out < length (cmds ! k)"
  shows "hist_get (int k) out h = None"
proof -
  have r: "recalls h k cmds" using h k by (simp add: holds_def)
  note slot = slot_index [OF k]
  have len: "unat (hist_len h (slot_of h k)) = length (cmds ! k)"
    using r by (simp add: recalls_def unat_of_nat)
  have "\<not> (int k < 0 \<or> int k \<ge> uint (hist_count h))" using k unfolding holds_count [OF h] by (simp add: not_le)
  then show ?thesis
    using out unfolding hist_get_def HIST_MAX_CMDS_def Let_def of_nat_numeral slot len by (simp add: copy_array_def)
qed

section \<open>Walking through the commands\<close>

text \<open>The position, the line that was being typed, the line that is shown.\<close>

type_synonym walk = "int \<times> u8 list \<times> u8 list"

definition walk_of :: "recall \<Rightarrow> walk" where
  "walk_of h = (hist_cursor h, take (unat (saved_len h)) (saved_line h), take (unat (line_len h)) (line_buf h))"

text \<open>The specification on the \<open>n\<close> newest commands.\<close>

fun walk_up :: "u8 list list \<Rightarrow> nat \<Rightarrow> walk \<Rightarrow> walk" where
  "walk_up cmds n (cur, typed, shown) =
     (let typed' = (if cur = - 1 then shown else typed)
      in if cur + 1 < int n then (cur + 1, typed', cmds ! nat (cur + 1)) else (cur, typed', shown))"

fun walk_down :: "u8 list list \<Rightarrow> walk \<Rightarrow> walk" where
  "walk_down cmds (cur, typed, shown) =
     (if cur = - 1 then (cur, typed, shown)
      else if cur = 0 then (- 1, typed, typed)
      else (cur - 1, typed, cmds ! nat (cur - 1)))"

text \<open>The state is in order: arrays of 64 bytes that the lengths respect, a position that exists.\<close>

definition editing :: "recall \<Rightarrow> nat \<Rightarrow> bool" where
  "editing h n \<longleftrightarrow> length (line_buf h) = 64 \<and> length (saved_line h) = 64 \<and> unat (line_len h) \<le> 64 \<and>
     unat (saved_len h) \<le> 64 \<and> - 1 \<le> hist_cursor h \<and> hist_cursor h < int n"

text \<open>All commands that can be reached fit a line and are still complete in the buffer.\<close>

definition complete :: "u8 list list \<Rightarrow> bool" where
  "complete cmds \<longleftrightarrow> (\<forall>k < min 16 (length cmds). span (Suc k) cmds \<le> 256 \<and> length (cmds ! k) \<le> 64)"

text \<open>What the terminal shows: the shown line is erased, the new one written.\<close>

definition redraw :: "u8 list \<Rightarrow> u8 list \<Rightarrow> u8 list" where
  "redraw old new = concat (replicate (length old) [8, 32, 8]) @ new"

lemma erase_loop_puts: "erase_loop n rb = fold ring_buf_put (concat (replicate n [8, 32, 8])) rb"
  by (induction n arbitrary: rb) simp_all

lemma fkey_up_walks:
  assumes h: "holds h cmds" and ok: "editing h (min 16 (length cmds))" and full: "complete cmds"
  shows "\<exists>h' rb'. fkey_up (h, rb) = Some (h', rb') \<and> holds h' cmds \<and> editing h' (min 16 (length cmds)) \<and>
    walk_of h' = walk_up cmds (min 16 (length cmds)) (walk_of h) \<and>
    rb' = (if hist_cursor h' = hist_cursor h then rb
           else fold ring_buf_put (redraw (snd (snd (walk_of h))) (snd (snd (walk_of h')))) rb)"
proof -
  let ?n = "min 16 (length cmds)"
  define h1 where "h1 = (if hist_cursor h = - 1
      then h\<lparr>saved_len := line_len h, saved_line := take (unat (line_len h)) (line_buf h) @ drop (unat (line_len h)) (saved_line h)\<rparr>
      else h)"
  have s1: "(if hist_cursor h = - 1 then map_option (\<lambda>s. h\<lparr>saved_len := line_len h, saved_line := s\<rparr>)
      (copy_array (unat (line_len h)) (line_buf h) (saved_line h)) else Some h) = Some h1"
    using ok by (simp add: h1_def copy_array_def editing_def)
  have k1: "holds h1 cmds" "hist_cursor h1 = hist_cursor h" "line_buf h1 = line_buf h" "line_len h1 = line_len h"
    "length (saved_line h1) = 64" "unat (saved_len h1) \<le> 64"
    using h ok by (auto simp: h1_def holds_def recalls_def slot_of_def editing_def)
  have w1: "take (unat (saved_len h1)) (saved_line h1) =
      (if hist_cursor h = - 1 then take (unat (line_len h)) (line_buf h) else take (unat (saved_len h)) (saved_line h))"
    using ok by (auto simp: h1_def editing_def)
  obtain k where k: "hist_cursor h + 1 = int k" using ok by (metis add.commute add_increasing2 diff_ge_0_iff_ge editing_def minus_le_iff zero_le_imp_eq_int diff_minus_eq_add)
  show ?thesis
  proof (cases "k < ?n")
    case False
    then have "hist_get (hist_cursor h1 + 1) (replicate 64 0) h1 = Some None"
      using hist_get_beyond [OF k1(1), of k "replicate 64 0"] k k1(2) by (simp only: not_less)
    then have "fkey_up (h, rb) = Some (h1, rb)" using s1 by (simp add: fkey_up_def)
    moreover have "editing h1 ?n" using ok k1 by (simp add: editing_def)
    moreover have "walk_of h1 = walk_up cmds ?n (walk_of h)"
      using False k k1 w1 by (simp add: walk_of_def Let_def)
    ultimately show ?thesis using k1 by auto
  next
    case True
    let ?c = "cmds ! k"
    have c: "length ?c \<le> 64" "span (Suc k) cmds \<le> 256" using full True by (auto simp: complete_def)
    have g: "hist_get (hist_cursor h1 + 1) (replicate 64 0) h1 = Some (Some (?c @ replicate (64 - length ?c) 0, of_nat (length ?c)))"
      using hist_get_recalls [OF k1(1) True c(2), of "replicate 64 0"] c(1) k k1(2) by simp
    have ul: "unat (of_nat (length ?c) :: u8) = length ?c" using c(1) by (simp add: unat_of_nat)
    define h' where "h' = h1\<lparr>hist_cursor := int k, line_len := of_nat (length ?c),
        line_buf := ?c @ drop (length ?c) (line_buf h)\<rparr>"
    have ca: "copy_array (length ?c) (?c @ replicate (64 - length ?c) 0) (line_buf h) = Some (?c @ drop (length ?c) (line_buf h))"
      using ok c(1) by (simp add: copy_array_def editing_def)
    have lt: "length (take (unat (line_len h)) (line_buf h)) = unat (line_len h)" using ok by (simp add: editing_def)
    have "fkey_up (h, rb) = Some (h', fold ring_buf_put (redraw (take (unat (line_len h)) (line_buf h)) ?c) rb)"
      unfolding fkey_up_def prod.case s1 bind.bind_lunit g
      by (simp add: ca ul k k1 erase_line_def echo_line_def erase_loop_puts redraw_def h'_def lt del: length_take)
    moreover have "holds h' cmds" using k1(1) by (simp add: h'_def holds_def recalls_def slot_of_def)
    moreover have "editing h' ?n" using ok k1 c(1) True ul by (simp add: editing_def h'_def)
    moreover have "walk_of h' = walk_up cmds ?n (walk_of h)"
      using True k k1 w1 ul c(1) by (simp add: walk_of_def Let_def h'_def)
    moreover have "hist_cursor h' \<noteq> hist_cursor h" using k by (simp add: h'_def)
    moreover have "snd (snd (walk_of h')) = ?c" using ul by (simp add: walk_of_def h'_def)
    ultimately show ?thesis by (intro exI [of _ h']) (simp add: walk_of_def)
  qed
qed

lemma fkey_down_walks:
  assumes h: "holds h cmds" and ok: "editing h (min 16 (length cmds))" and full: "complete cmds"
  shows "\<exists>h' rb'. fkey_down (h, rb) = Some (h', rb') \<and> holds h' cmds \<and> editing h' (min 16 (length cmds)) \<and>
    walk_of h' = walk_down cmds (walk_of h) \<and>
    rb' = (if hist_cursor h' = hist_cursor h then rb
           else fold ring_buf_put (redraw (snd (snd (walk_of h))) (snd (snd (walk_of h')))) rb)"
proof -
  let ?n = "min 16 (length cmds)"
  have lt: "length (take (unat (line_len h)) (line_buf h)) = unat (line_len h)" using ok by (simp add: editing_def)
  consider "hist_cursor h = - 1" | "hist_cursor h = 0" | "0 < hist_cursor h" using ok by (force simp: editing_def)
  then show ?thesis
  proof cases
    case 1
    then show ?thesis using h ok by (simp add: fkey_down_def walk_of_def)
  next
    case 2
    define h' where "h' = h\<lparr>hist_cursor := - 1, line_len := saved_len h,
        line_buf := take (unat (saved_len h)) (saved_line h) @ drop (unat (saved_len h)) (line_buf h)\<rparr>"
    have ca: "copy_array (unat (saved_len h)) (saved_line h) (line_buf h) =
        Some (take (unat (saved_len h)) (saved_line h) @ drop (unat (saved_len h)) (line_buf h))"
      using ok by (simp add: copy_array_def editing_def)
    have ls: "unat (saved_len h) \<le> length (saved_line h)" using ok by (simp add: editing_def)
    have "fkey_down (h, rb) = Some (h', fold ring_buf_put (redraw (take (unat (line_len h)) (line_buf h))
        (take (unat (saved_len h)) (saved_line h))) rb)"
      unfolding fkey_down_def prod.case
      by (simp add: 2 ca erase_line_def echo_line_def erase_loop_puts redraw_def h'_def lt del: length_take)
    moreover have "holds h' cmds" using h by (simp add: h'_def holds_def recalls_def slot_of_def)
    moreover have "editing h' ?n" using ok by (simp add: editing_def h'_def)
    moreover have "walk_of h' = walk_down cmds (walk_of h)"
      using 2 ls by (simp add: walk_of_def h'_def)
    moreover have "hist_cursor h' \<noteq> hist_cursor h" using 2 by (simp add: h'_def)
    moreover have "snd (snd (walk_of h')) = take (unat (saved_len h)) (saved_line h)"
      using ls by (simp add: walk_of_def h'_def)
    ultimately show ?thesis by (intro exI [of _ h']) (simp add: walk_of_def)
  next
    case 3
    define k where "k = nat (hist_cursor h - 1)"
    have k: "hist_cursor h - 1 = int k" using 3 by (simp add: k_def)
    then have "int k < int ?n" using ok unfolding editing_def by linarith
    then have kn: "k < ?n" by (simp only: of_nat_less_iff)
    let ?c = "cmds ! k"
    define h1 where "h1 = h\<lparr>hist_cursor := int k\<rparr>"
    have h1: "holds h1 cmds" using h by (simp add: h1_def holds_def recalls_def slot_of_def)
    have c: "length ?c \<le> 64" "span (Suc k) cmds \<le> 256" using full kn by (auto simp: complete_def)
    have g: "hist_get (int k) (replicate 64 0) h1 = Some (Some (?c @ replicate (64 - length ?c) 0, of_nat (length ?c)))"
      using hist_get_recalls [OF h1 kn c(2), of "replicate 64 0"] c(1) by simp
    have ul: "unat (of_nat (length ?c) :: u8) = length ?c" using c(1) by (simp add: unat_of_nat)
    define h' where "h' = h1\<lparr>line_len := of_nat (length ?c), line_buf := ?c @ drop (length ?c) (line_buf h)\<rparr>"
    have ca: "copy_array (length ?c) (?c @ replicate (64 - length ?c) 0) (line_buf h) = Some (?c @ drop (length ?c) (line_buf h))"
      using ok c(1) by (simp add: copy_array_def editing_def)
    have hc: "hist_cursor h1 = int k" by (simp add: h1_def)
    have "fkey_down (h, rb) = Some (h', fold ring_buf_put (redraw (take (unat (line_len h)) (line_buf h)) ?c) rb)"
      using 3 unfolding fkey_down_def prod.case k h1_def [symmetric] Let_def hc g bind.bind_lunit
      by (simp add: ca ul erase_line_def echo_line_def erase_loop_puts redraw_def h'_def h1_def lt del: length_take)
    moreover have "holds h' cmds" using h1 by (simp add: h'_def holds_def recalls_def slot_of_def)
    moreover have "editing h' ?n" using ok c(1) kn ul by (simp add: editing_def h'_def h1_def)
    moreover have "walk_of h' = walk_down cmds (walk_of h)"
    proof -
      have "hist_cursor h \<noteq> - 1" "hist_cursor h \<noteq> 0" using 3 by auto
      then show ?thesis using k ul by (simp add: walk_of_def h'_def h1_def)
    qed
    moreover have "hist_cursor h' \<noteq> hist_cursor h" using k by (simp add: h'_def h1_def)
    moreover have "snd (snd (walk_of h')) = ?c" using ul by (simp add: walk_of_def h'_def)
    ultimately show ?thesis by (intro exI [of _ h']) (simp add: walk_of_def)
  qed
qed

text \<open>A sequence of keys, and the same walk in the specification.\<close>

fun press :: "u8 list \<Rightarrow> recall \<times> ringbuffer \<Rightarrow> (recall \<times> ringbuffer) option" where
  "press [] s = Some s"
| "press (k # ks) s = Option.bind (keyboard_handler k s) (\<lambda>(r, s'). press ks s')"

definition walk_key :: "u8 list list \<Rightarrow> u8 \<Rightarrow> walk \<Rightarrow> walk" where
  "walk_key cmds k w = (if k = 11 then walk_up cmds (min 16 (length cmds)) w else if k = 12 then walk_down cmds w else w)"

text \<open>The walk of a sequence of keys, and what it puts on the terminal.\<close>

fun walk_keys :: "u8 list list \<Rightarrow> u8 list \<Rightarrow> walk \<Rightarrow> walk \<times> u8 list" where
  "walk_keys cmds [] w = (w, [])"
| "walk_keys cmds (k # ks) w =
     (let w' = walk_key cmds k w; (w'', out) = walk_keys cmds ks w'
      in (w'', (if fst w' = fst w then [] else redraw (snd (snd w)) (snd (snd w'))) @ out))"

lemma keyboard_handler_walks:
  assumes "holds h cmds" "editing h (min 16 (length cmds))" "complete cmds"
  shows "\<exists>r h' rb'. keyboard_handler k (h, rb) = Some (r, h', rb') \<and> holds h' cmds \<and> editing h' (min 16 (length cmds)) \<and>
    walk_of h' = walk_key cmds k (walk_of h) \<and>
    rb' = fold ring_buf_put (if fst (walk_of h') = fst (walk_of h) then []
      else redraw (snd (snd (walk_of h))) (snd (snd (walk_of h')))) rb"
proof -
  have c: "fst (walk_of x) = hist_cursor x" for x by (simp add: walk_of_def)
  consider "k = 11" | "k = 12" | "k \<noteq> 11" "k \<noteq> 12" by blast
  then show ?thesis
  proof cases
    case 1
    from fkey_up_walks [OF assms, of rb] obtain h' rb' where "fkey_up (h, rb) = Some (h', rb')" "holds h' cmds"
      "editing h' (min 16 (length cmds))" "walk_of h' = walk_up cmds (min 16 (length cmds)) (walk_of h)"
      "rb' = (if hist_cursor h' = hist_cursor h then rb
           else fold ring_buf_put (redraw (snd (snd (walk_of h))) (snd (snd (walk_of h')))) rb)" by blast
    then show ?thesis using 1 unfolding c by (simp add: keyboard_handler_def walk_key_def)
  next
    case 2
    from fkey_down_walks [OF assms, of rb] obtain h' rb' where "fkey_down (h, rb) = Some (h', rb')" "holds h' cmds"
      "editing h' (min 16 (length cmds))" "walk_of h' = walk_down cmds (walk_of h)"
      "rb' = (if hist_cursor h' = hist_cursor h then rb
           else fold ring_buf_put (redraw (snd (snd (walk_of h))) (snd (snd (walk_of h')))) rb)" by blast
    then show ?thesis using 2 unfolding c by (simp add: keyboard_handler_def walk_key_def)
  next
    case 3
    then show ?thesis using assms by (simp add: keyboard_handler_def walk_key_def)
  qed
qed

lemma press_walks:
  assumes "holds h cmds" "editing h (min 16 (length cmds))" "complete cmds"
  shows "\<exists>h'. press ks (h, rb) = Some (h', fold ring_buf_put (snd (walk_keys cmds ks (walk_of h))) rb) \<and> holds h' cmds \<and>
    editing h' (min 16 (length cmds)) \<and> walk_of h' = fst (walk_keys cmds ks (walk_of h))"
  using assms(1,2)
proof (induction ks arbitrary: h rb)
  case (Cons k ks)
  from keyboard_handler_walks [OF Cons.prems assms(3), of k rb] obtain r h1 where
    1: "keyboard_handler k (h, rb) = Some (r, h1, fold ring_buf_put (if fst (walk_of h1) = fst (walk_of h) then []
      else redraw (snd (snd (walk_of h))) (snd (snd (walk_of h1)))) rb)" "holds h1 cmds"
    "editing h1 (min 16 (length cmds))" "walk_of h1 = walk_key cmds k (walk_of h)" by blast
  show ?case using Cons.IH [OF 1(2,3)] 1(1) unfolding 1(4) by (simp add: case_prod_beta Let_def)
qed simp

text \<open>
  Adding commands from an empty history makes the history that holds them; after that any
  sequence of keys shows what the walk through the list of commands shows.
\<close>

fun hist_add_all :: "u8 list list \<Rightarrow> recall \<Rightarrow> recall" where
  "hist_add_all [] h = h"
| "hist_add_all (c # cmds) h = hist_add (\<lambda>i. c ! i) (of_nat (length c)) (hist_add_all cmds h)"

definition hist_init :: recall where
  "hist_init = \<lparr>hist_buf = (\<lambda>_. 0), hist_head = 0, hist_start = (\<lambda>_. 0), hist_len = (\<lambda>_. 0), hist_count = 0,
     hist_newest = 0, hist_cursor = - 1, saved_line = replicate 64 0, saved_len = 0, line_buf = replicate 64 0, line_len = 0\<rparr>"

definition at_rest :: "recall \<Rightarrow> bool" where
  "at_rest h \<longleftrightarrow> hist_cursor h = - 1 \<and> length (line_buf h) = 64 \<and> length (saved_line h) = 64 \<and>
     line_len h = 0 \<and> saved_len h = 0"

lemma hist_add_all_holds:
  "\<forall>c \<in> set cmds. 0 < length c \<and> length c \<le> 255 \<Longrightarrow>
   holds (hist_add_all cmds hist_init) cmds \<and> at_rest (hist_add_all cmds hist_init)"
proof (induction cmds)
  case Nil
  show ?case by (simp add: holds_def hist_init_def at_rest_def)
next
  case (Cons c cmds)
  then have "holds (hist_add (\<lambda>i. c ! i) (of_nat (length c)) (hist_add_all cmds hist_init)) (c # cmds)"
    by (intro hist_add_holds) auto
  with Cons show ?case by (auto simp: hist_add_def Let_def at_rest_def)
qed

text \<open>
  After any commands were added, \<open>hist_get\<close> finds the \<open>k\<close>-th newest as it was added, as long as it and
  the newer ones fit the 256 bytes; older than the sixteenth there is none.
\<close>

theorem hist_get_finds_added:
  assumes "\<forall>c \<in> set cmds. 0 < length c \<and> length c \<le> 255" "k < length cmds" "k < 16 \<longrightarrow> span (Suc k) cmds \<le> 256"
    "length (cmds ! k) \<le> length out"
  shows "hist_get (int k) out (hist_add_all cmds hist_init) =
    Some (if k < 16 then Some (cmds ! k @ drop (length (cmds ! k)) out, of_nat (length (cmds ! k))) else None)"
proof -
  have h: "holds (hist_add_all cmds hist_init) cmds" using hist_add_all_holds [OF assms(1)] by blast
  show ?thesis
    using hist_get_recalls [OF h, of k out] hist_get_beyond [OF h, of k out] assms(2-4) by simp
qed

theorem hist_get_finds_added_witness:
  "hist_get 1 [0, 0, 0] (hist_add_all [[7], [5, 6], [8]] hist_init) = Some (Some ([5, 6, 0], 2))"
  using hist_get_finds_added [of "[[7], [5, 6], [8]]" 1 "[0, 0, 0]"] by (simp add: span_def)

text \<open>
  From a history of commands that fit a line and the buffer, any sequence of keys shows what the walk
  through the list of commands shows: the arrays are never overrun, the line is the command of the
  position or the line typed before, and the terminal gets one redrawn line for each change of position.
\<close>

theorem keys_walk_through_commands:
  assumes "\<forall>c \<in> set cmds. 0 < length c \<and> length c \<le> 64" "complete cmds"
  shows "\<exists>h. press ks (hist_add_all cmds hist_init, rb) =
      Some (h, fold ring_buf_put (snd (walk_keys cmds ks (- 1, [], []))) rb) \<and>
    editing h (min 16 (length cmds)) \<and> walk_of h = fst (walk_keys cmds ks (- 1, [], []))"
proof -
  let ?h = "hist_add_all cmds hist_init"
  have "\<forall>c \<in> set cmds. 0 < length c \<and> length c \<le> 255" using assms(1) by force
  from hist_add_all_holds [OF this] have h: "holds ?h cmds" and r: "at_rest ?h" by blast+
  have "editing ?h (min 16 (length cmds))" "walk_of ?h = (- 1, [], [])"
    using r by (simp_all add: at_rest_def editing_def walk_of_def)
  with press_walks [OF h _ assms(2), of ks rb] show ?thesis by force
qed

definition demo_ring :: ringbuffer where
  "demo_ring = \<lparr>rb_buffer = (\<lambda>_. 0), rb_head = 0, rb_tail = 0\<rparr>"

theorem keys_walk_through_commands_witness:
  "\<exists>h. press [11, 11, 11, 12] (hist_add_all [[7], [5, 6]] hist_init, demo_ring) =
      Some (h, fold ring_buf_put [7, 8, 32, 8, 5, 6, 8, 32, 8, 8, 32, 8, 7] demo_ring) \<and>
    editing h 2 \<and> walk_of h = (0, [], [7])"
proof -
  have "complete [[7], [5, 6]]"
    unfolding complete_def by (auto simp: span_def less_Suc_eq numeral_2_eq_2)
  with keys_walk_through_commands [of "[[7], [5, 6]]" "[11, 11, 11, 12]" demo_ring]
  show ?thesis by (simp add: walk_key_def redraw_def numeral_2_eq_2)
qed

end
