(* ===== verification/BiosCommand.thy ===== *)
theory BiosCommand
  imports PicLoader Printf VfsDrivers "HOL-Library.Monad_Syntax"
begin

text \<open>
  The command interpreter of the BIOS (\<^verbatim>\<open>apps/bios/shell/decodecmd.c\<close>): reading a line, taking it apart,
  the table of commands with their numbers of arguments, and the loading and starting of an ELF
  program from the disk.  The environment gives the addresses of literals and of local buffers, FatFs,
  the commands themselves (\<^verbatim>\<open>commands.c\<close>) and the program that is started.  \<open>None\<close>: the console stays
  silent, a string has no end, or a command or program does not return.
\<close>

section \<open>State and environment\<close>

record 'fs bios =
  b_mem :: mem
  b_in :: "u8 list"
  b_out :: "u8 list"
  b_count :: int  \<comment> \<open>\<open>count\<close> of \<open>getline\<close>\<close>
  b_fs :: 'fs

datatype bios_fn = fn_do_cat | fn_do_cd | fn_do_copyfile | fn_do_dump | fn_do_exit | fn_do_help | fn_do_ideinit
  | fn_do_idemode | fn_do_loadmem | fn_do_ls | fn_do_mkdir_shel | fn_do_rename_shel | fn_do_delete | fn_do_rmdir
  | fn_do_run | fn_do_save | fn_do_save2 | fn_do_shst | fn_do_time | fn_do_uptime | fn_do_writemem | fn_do_writemem1

record cmd_entry =
  ce_name :: "u8 list"
  ce_min_args :: int
  ce_max_args :: int
  ce_function :: bios_fn

record 'fs bios_env =
  be_fat :: "'fs fatfs"
  be_lit :: "u8 list \<Rightarrow> u32"
  be_fileext :: u32  \<comment> \<open>\<open>fileext[255]\<close> of \<open>open_executable_file\<close>\<close>
  be_chdrive :: "u8 list \<Rightarrow> 'fs \<Rightarrow> u8 \<times> 'fs"
  be_command :: "bios_fn \<Rightarrow> u32 list \<Rightarrow> 'fs bios \<Rightarrow> 'fs bios option"
  be_run :: "u32 \<Rightarrow> u32 list \<Rightarrow> 'fs bios \<Rightarrow> (int \<times> 'fs bios) option"

definition b_putchar :: "u8 \<Rightarrow> 'fs bios \<Rightarrow> 'fs bios" where
  "b_putchar c st = st\<lparr>b_out := b_out st @ [c]\<rparr>"

definition b_printf :: "'fs bios_env \<Rightarrow> u8 list \<Rightarrow> u32 list \<Rightarrow> 'fs bios \<Rightarrow> 'fs bios option" where
  "b_printf env fmt args st =
     map_option (\<lambda>(n, t). st\<lparr>b_out := b_out st @ t\<rparr>) (printf (b_mem st) (be_lit env fmt) args)"

section \<open>Reading a line\<close>

definition PS2_BACKSPACE :: u8 where "PS2_BACKSPACE = 0x08"
definition PS2_TAB :: u8 where "PS2_TAB = 0x09"
definition PS2_ENTER :: u8 where "PS2_ENTER = 0x0D"
definition PS2_ESC :: u8 where "PS2_ESC = 0x1B"
definition PS2_INSERT :: u8 where "PS2_INSERT = 0x00"
definition PS2_HOME :: u8 where "PS2_HOME = 0x80"
definition PS2_SCROLL :: u8 where "PS2_SCROLL = 0x94"

text \<open>
  One key; -1 until a line is complete.  The codes from \<open>PS2_HOME\<close> to \<open>PS2_SCROLL\<close> are the cases with
  nothing but \<open>break\<close>.
\<close>

definition getline :: "u32 \<Rightarrow> int \<Rightarrow> 'fs bios \<Rightarrow> (int \<times> 'fs bios) option" where
  "getline line linesize st =
     (let finish = (\<lambda>st. (b_count st, st\<lparr>b_mem := (b_mem st)(line + of_int (b_count st) := 0), b_count := 0\<rparr>))
      in if b_count st < linesize - 1 then
           (case b_in st of
              [] \<Rightarrow> None
            | ch # cs \<Rightarrow>
                let st1 = st\<lparr>b_in := cs\<rparr>;
                    st2 = (if ch = PS2_BACKSPACE then (b_putchar 8 st1)\<lparr>b_count := b_count st1 - 1\<rparr>
                           else if ch = PS2_TAB then st1
                           else if ch = PS2_ENTER then b_putchar 10 st1
                           else if ch = PS2_ESC \<or> ch = PS2_INSERT \<or> (PS2_HOME \<le> ch \<and> ch \<le> PS2_SCROLL) then st1
                           else if ch \<ge> 32 then
                             b_putchar ch (st1\<lparr>b_mem := (b_mem st1)(line + of_int (b_count st1) := ch),
                                               b_count := b_count st1 + 1\<rparr>)
                           else st1)
                in if ch = PS2_ENTER then Some (finish st2) else Some (- 1, st2))
         else Some (finish st))"

section \<open>The table of commands\<close>

definition g_cmd_table :: "cmd_entry list" where
  "g_cmd_table =
    [\<lparr>ce_name = bytes_of ''cat'', ce_min_args = 1, ce_max_args = 1, ce_function = fn_do_cat\<rparr>,
     \<lparr>ce_name = bytes_of ''cd'', ce_min_args = 1, ce_max_args = 1, ce_function = fn_do_cd\<rparr>,
     \<lparr>ce_name = bytes_of ''cp'', ce_min_args = 2, ce_max_args = 2, ce_function = fn_do_copyfile\<rparr>,
     \<lparr>ce_name = bytes_of ''dump'', ce_min_args = 2, ce_max_args = 2, ce_function = fn_do_dump\<rparr>,
     \<lparr>ce_name = bytes_of ''exit'', ce_min_args = 0, ce_max_args = 0, ce_function = fn_do_exit\<rparr>,
     \<lparr>ce_name = bytes_of ''help'', ce_min_args = 0, ce_max_args = 0, ce_function = fn_do_help\<rparr>,
     \<lparr>ce_name = bytes_of ''ideinit'', ce_min_args = 0, ce_max_args = 0, ce_function = fn_do_ideinit\<rparr>,
     \<lparr>ce_name = bytes_of ''idemode'', ce_min_args = 1, ce_max_args = 0, ce_function = fn_do_idemode\<rparr>,
     \<lparr>ce_name = bytes_of ''loadmem'', ce_min_args = 1, ce_max_args = 2, ce_function = fn_do_loadmem\<rparr>,
     \<lparr>ce_name = bytes_of ''ls'', ce_min_args = 0, ce_max_args = 1, ce_function = fn_do_ls\<rparr>,
     \<lparr>ce_name = bytes_of ''mkdir'', ce_min_args = 1, ce_max_args = 1, ce_function = fn_do_mkdir_shel\<rparr>,
     \<lparr>ce_name = bytes_of ''mv'', ce_min_args = 2, ce_max_args = 2, ce_function = fn_do_rename_shel\<rparr>,
     \<lparr>ce_name = bytes_of ''rm'', ce_min_args = 1, ce_max_args = 1, ce_function = fn_do_delete\<rparr>,
     \<lparr>ce_name = bytes_of ''rmdir'', ce_min_args = 1, ce_max_args = 1, ce_function = fn_do_rmdir\<rparr>,
     \<lparr>ce_name = bytes_of ''run'', ce_min_args = 1, ce_max_args = 1, ce_function = fn_do_run\<rparr>,
     \<lparr>ce_name = bytes_of ''save'', ce_min_args = 2, ce_max_args = 2, ce_function = fn_do_save\<rparr>,
     \<lparr>ce_name = bytes_of ''asave'', ce_min_args = 2, ce_max_args = 2, ce_function = fn_do_save2\<rparr>,
     \<lparr>ce_name = bytes_of ''shst'', ce_min_args = 0, ce_max_args = 0, ce_function = fn_do_shst\<rparr>,
     \<lparr>ce_name = bytes_of ''time'', ce_min_args = 0, ce_max_args = 6, ce_function = fn_do_time\<rparr>,
     \<lparr>ce_name = bytes_of ''uptime'', ce_min_args = 0, ce_max_args = 0, ce_function = fn_do_uptime\<rparr>,
     \<lparr>ce_name = bytes_of ''writemem'', ce_min_args = 2, ce_max_args = 0, ce_function = fn_do_writemem\<rparr>,
     \<lparr>ce_name = bytes_of ''writemem1'', ce_min_args = 2, ce_max_args = 0, ce_function = fn_do_writemem1\<rparr>]"

definition g_fatfs_errmsg :: "u8 list list" where
  "g_fatfs_errmsg = List.map bytes_of
    [''Succeeded'', ''A hard error occurred in the low level disk I/O layer'', ''Assertion failed'',
     ''The physical drive is not operational'', ''Could not find the file'', ''Could not find the path'',
     ''The path name format is invalid'', ''Access denied due to prohibited access or directory full'',
     ''Access denied due to prohibited access'', ''The file/directory object is invalid'',
     ''The physical drive is write protected'', ''The logical drive number is invalid'',
     ''The volume has no work area'', ''There is no valid FAT volume'',
     ''The f_mkfs() aborted due to any parameter error'',
     ''Could not get a grant to access the volume within defined period'',
     ''The operation is rejected according to the file sharing policy'', ''LFN working buffer could not be allocated'',
     ''Number of open files > _FS_LOCK'', ''Given parameter is invalid'']"

definition printerro :: "'fs bios_env \<Rightarrow> int \<Rightarrow> 'fs bios \<Rightarrow> 'fs bios option" where
  "printerro env eno st =
     (if eno \<le> 19 then
        (if eno < 0 then None else b_printf env (bytes_of ''%s'' @ [10]) [be_lit env (g_fatfs_errmsg ! nat eno)] st)
      else b_printf env (bytes_of ''Unknown error %d'' @ [10]) [of_int eno] st)"

text \<open>A command that was found: it is called if the number of its arguments is right.\<close>

definition call_entry :: "'fs bios_env \<Rightarrow> cmd_entry \<Rightarrow> u32 list \<Rightarrow> 'fs bios \<Rightarrow> 'fs bios option" where
  "call_entry env e argv st =
     (let n = int (length argv) - 1
      in if n \<ge> ce_min_args e \<and> (ce_max_args e = 0 \<or> n \<le> ce_max_args e)
         then be_command env (ce_function e) (tl argv) st
         else if ce_min_args e = ce_max_args e
         then b_printf env (bytes_of ''%s: requires %d argument%s'' @ [10])
                [argv ! 0, of_int (ce_min_args e), be_lit env (bytes_of (if ce_min_args e = 1 then '''' else ''s''))] st
         else b_printf env (bytes_of ''%s: requires %d to %d arguments'' @ [10])
                [argv ! 0, of_int (ce_min_args e), of_int (ce_max_args e)] st)"

text \<open>The loop over the table; \<open>argv\<close> is not empty.\<close>

fun find_builtin :: "'fs bios_env \<Rightarrow> cmd_entry list \<Rightarrow> u32 list \<Rightarrow> 'fs bios \<Rightarrow> (bool \<times> 'fs bios) option" where
  "find_builtin env [] argv st = Some (False, st)"
| "find_builtin env (e # es) argv st = do {
     r \<leftarrow> strcasecmp (b_mem st) (argv ! 0) (be_lit env (ce_name e));
     if r = 0 then map_option (\<lambda>st1. (True, st1)) (call_entry env e argv st)
     else find_builtin env es argv st }"

definition process_command_builtin :: "'fs bios_env \<Rightarrow> u32 list \<Rightarrow> 'fs bios \<Rightarrow> (bool \<times> 'fs bios) option" where
  "process_command_builtin env argv st =
     (if length argv = 1 \<and> b_mem st (argv ! 0 + 1) = 58 then do {
        path \<leftarrow> text_at (b_mem st) (argv ! 0);
        let (fr, fs) = be_chdrive env path (b_fs st);
        let st1 = st\<lparr>b_fs := fs\<rparr>;
        st2 \<leftarrow> (if fr \<noteq> 0 then do {
                  st3 \<leftarrow> printerro env (uint fr) st1;
                  b_printf env (bytes_of ''Drive %s not found'' @ [10]) [argv ! 0] st3 }
                else Some st1);
        Some (True, st2) }
      else find_builtin env g_cmd_table argv st)"

section \<open>Loading an ELF program\<close>

text \<open>\<open>f_lseek\<close> whose result nobody looks at, and \<open>f_read\<close>: the result and the bytes.\<close>

definition b_lseek :: "'fs bios_env \<Rightarrow> nat \<Rightarrow> u32 \<Rightarrow> 'fs bios \<Rightarrow> 'fs bios" where
  "b_lseek env fd off st = st\<lparr>b_fs := snd (ff_lseek (be_fat env) fd off (b_fs st))\<rparr>"

definition b_read :: "'fs bios_env \<Rightarrow> nat \<Rightarrow> u32 \<Rightarrow> 'fs bios \<Rightarrow> u8 \<times> u8 list \<times> 'fs bios" where
  "b_read env fd n st = (let (r, bs, fs) = ff_read (be_fat env) fd n (b_fs st) in (r, bs, st\<lparr>b_fs := fs\<rparr>))"

text \<open>The checks of the header, each with its message.\<close>

definition header_error :: "u8 list \<Rightarrow> string option" where
  "header_error h =
     (if h ! 0 \<noteq> 0x7F \<or> h ! 1 \<noteq> 69 \<or> h ! 2 \<noteq> 76 \<or> h ! 3 \<noteq> 70 \<or> h ! 6 \<noteq> 1 then Some ''Bad ELF header''
      else if h ! 4 \<noteq> 1 \<or> h ! 5 \<noteq> 2 \<or> h ! 7 \<noteq> 0 \<or> h ! 8 \<noteq> 0 then Some ''Not a 32-bit ELF file.''
      else if get16 h 0x10 \<noteq> 2 then Some ''ELF file is not an executable.''
      else if get16 h 0x12 \<noteq> 4 then Some ''ELF file is not for 68000 processor.''
      else None)"

text \<open>Printing a message and returning -1.\<close>

definition fail_with :: "'fs bios_env \<Rightarrow> string \<Rightarrow> 'fs bios \<Rightarrow> ((int + 'a) \<times> 'fs bios) option" where
  "fail_with env msg st = map_option (\<lambda>st'. (Inl (- 1), st')) (b_printf env (bytes_of msg @ [10]) [] st)"

text \<open>One segment of type \<open>PT_LOAD\<close>.\<close>

definition load_bios_segment :: "'fs bios_env \<Rightarrow> nat \<Rightarrow> program_header \<Rightarrow> 'fs bios \<Rightarrow> ((int + unit) \<times> 'fs bios) option" where
  "load_bios_segment env fd ph st =
     (let (r, bs, st1) = b_read env fd (ph_filesz ph) (b_lseek env fd (ph_offset ph) st);
          st2 = st1\<lparr>b_mem := wr_bytes (b_mem st1) (ph_paddr ph) bs\<rparr>
      in if r \<noteq> FR_OK \<or> length bs \<noteq> unat (ph_filesz ph) then fail_with env ''Unable to read segment from ELF file.'' st2
         else if ph_memsz ph > ph_filesz ph then do {
           st3 \<leftarrow> b_printf env (bytes_of ''Clearing %d bytes BSS at 0x%x'' @ [10, 13])
                    [ph_memsz ph - ph_filesz ph, ph_paddr ph + ph_filesz ph] st2;
           Some (Inr (), st3\<lparr>b_mem := memset (b_mem st3) (ph_paddr ph + ph_filesz ph) 0 (ph_memsz ph - ph_filesz ph)\<rparr>) }
         else Some (Inr (), st2))"

text \<open>The loop over the program headers with the indices \<open>is\<close>; the bounds of the memory it also computes are not used.\<close>

fun load_headers :: "'fs bios_env \<Rightarrow> nat \<Rightarrow> u8 list \<Rightarrow> nat list \<Rightarrow> 'fs bios \<Rightarrow> ((int + unit) \<times> 'fs bios) option" where
  "load_headers env fd h [] st = Some (Inr (), st)"
| "load_headers env fd h (i # is) st =
     (let (r, bs, st1) = b_read env fd 32 (b_lseek env fd (of_nat i * ucast (get16 h 0x2A) + get32 h 0x1C) st);
          ph = program_header_of bs
      in if r \<noteq> FR_OK \<or> length bs \<noteq> 32 then fail_with env ''Cannot read ELF program header.'' st1
         else if ph_type ph = 5 \<or> ph_type ph = 2 then fail_with env ''ELF executable is dynamically linked.'' st1
         else if ph_type ph = 1 then
           Option.bind (load_bios_segment env fd ph st1) (\<lambda>(res, st2).
             case res of Inl e \<Rightarrow> Some (Inl e, st2) | Inr _ \<Rightarrow> load_headers env fd h is st2)
         else if ph_type ph = 3 then fail_with env ''ELF executable requires an interpreter.'' st1
         else load_headers env fd h is st1)"

definition load_elf_executable :: "'fs bios_env \<Rightarrow> u32 list \<Rightarrow> nat \<Rightarrow> 'fs bios \<Rightarrow> (int \<times> 'fs bios) option" where
  "load_elf_executable env argv fd st =
     (let (r, h, st1) = b_read env fd 52 (b_lseek env fd 0 st)
      in Option.bind
           (if r \<noteq> FR_OK \<or> length h \<noteq> 52 then fail_with env ''Cannot read ELF file header'' st1
            else (case header_error h of
                    Some msg \<Rightarrow> fail_with env msg st1
                  | None \<Rightarrow> load_headers env fd h [0..<unat (get16 h 0x2C)] st1))
           (\<lambda>(res, st2). case res of
              Inl e \<Rightarrow> Some (e, st2)
            | Inr _ \<Rightarrow> be_run env (get32 h 0x18) argv st2))"

section \<open>Finding the program\<close>

definition FF_MAX_LFN :: u32 where "FF_MAX_LFN = 255"

definition orion_extensions :: "u8 list list" where
  "orion_extensions = [bytes_of ''.elf'', bytes_of ''.bat'']"

fun try_extensions :: "'fs bios_env \<Rightarrow> nat \<Rightarrow> u32 \<Rightarrow> u8 list list \<Rightarrow> 'fs bios \<Rightarrow> (bool \<times> 'fs bios) option" where
  "try_extensions env file filename [] st = Some (False, st)"
| "try_extensions env file filename (e # es) st = do {
     n \<leftarrow> strlen (b_mem st) filename;
     k \<leftarrow> strlen (b_mem st) (be_lit env e);
     if n + k < FF_MAX_LFN then do {
       (d1, m1) \<leftarrow> strcpy (b_mem st) (be_fileext env) filename;
       (d2, m2) \<leftarrow> strcat m1 (be_fileext env) (be_lit env e);
       (d3, m3) \<leftarrow> strcat m2 (be_fileext env) (be_lit env [10]);
       path \<leftarrow> text_at m3 (be_fileext env);
       let (fr, fs) = ff_open (be_fat env) file path FA_READ (b_fs st);
       let st1 = st\<lparr>b_mem := m3, b_fs := fs\<rparr>;
       if fr = FR_OK then Some (True, st1) else try_extensions env file filename es st1 }
     else try_extensions env file filename es st }"

text \<open>Whether a file was opened.\<close>

definition open_executable_file :: "'fs bios_env \<Rightarrow> nat \<Rightarrow> u32 \<Rightarrow> 'fs bios \<Rightarrow> (bool \<times> 'fs bios) option" where
  "open_executable_file env file filename st = do {
     let st1 = st\<lparr>b_mem := memset (b_mem st) (be_fileext env) 0 FF_MAX_LFN\<rparr>;
     path \<leftarrow> text_at (b_mem st1) filename;
     let (fr, fs) = ff_open (be_fat env) file path FA_READ (b_fs st1);
     let st2 = st1\<lparr>b_fs := fs\<rparr>;
     if fr = FR_OK then Some (True, st2) else try_extensions env file filename orion_extensions st2 }"

definition process_command_executable :: "'fs bios_env \<Rightarrow> u32 list \<Rightarrow> 'fs bios \<Rightarrow> (bool \<times> 'fs bios) option" where
  "process_command_executable env argv st = do {
     let file = 0;
     (found, st1) \<leftarrow> open_executable_file env file (argv ! 0) st;
     if \<not> found then Some (False, st1)
     else do {
       let (fr, bs, st2) = b_read env file 4 st1;
       let buffer = bs @ replicate (4 - length bs) 0;
       let st3 = b_lseek env file 0 st2;
       st4 \<leftarrow> (if fr = FR_OK then
                 (if buffer = [0x7F, 0x45, 0x4C, 0x46] then map_option snd (load_elf_executable env argv file st3)
                  else do {
                    st5 \<leftarrow> b_printf env (bytes_of ''unknown format.'' @ [10, 10]) [] st3;
                    b_printf env (bytes_of ''%s: is not an executable file'' @ [10]) [argv ! 0] st5 })
               else do {
                 st5 \<leftarrow> b_printf env (bytes_of ''%s: Cannot read: '') [argv ! 0] st3;
                 printerro env (uint fr) st5 });
       Some (True, st4\<lparr>b_fs := snd (ff_close (be_fat env) file (b_fs st4))\<rparr>) } }"

section \<open>Executing a line\<close>

definition process_command :: "'fs bios_env \<Rightarrow> u32 list \<Rightarrow> 'fs bios \<Rightarrow> 'fs bios option" where
  "process_command env argv st =
     (if argv = [] then Some st
      else do {
        (done, st1) \<leftarrow> process_command_builtin env argv st;
        if done then Some st1
        else do {
          (done', st2) \<leftarrow> process_command_executable env argv st1;
          if done' then Some st2
          else b_printf env (bytes_of ''%s: Unknown command.  Try '' @ 39 # bytes_of ''help'' @ [39, 46, 10]) [argv ! 0] st2 } })"

text \<open>The three inner loops of \<open>execute_cmd\<close>.\<close>

partial_function (option) skip_blanks :: "mem \<Rightarrow> u32 \<Rightarrow> u32 option" where
  "skip_blanks m p = (if isspace (m p) \<noteq> 0 then skip_blanks m (p + 1) else Some p)"

partial_function (option) skip_word :: "mem \<Rightarrow> u32 \<Rightarrow> u32 option" where
  "skip_word m p = (if m p \<noteq> 0 \<and> isspace (m p) = 0 then skip_word m (p + 1) else Some p)"

partial_function (option) clear_blanks :: "mem \<Rightarrow> u32 \<Rightarrow> (mem \<times> u32) option" where
  "clear_blanks m p = (if isspace (m p) \<noteq> 0 then clear_blanks (m(p := 0)) (p + 1) else Some (m, p))"

definition MAXARGS :: nat where "MAXARGS = 40"

partial_function (option) split_args :: "'fs bios_env \<Rightarrow> u32 \<Rightarrow> u32 list \<Rightarrow> 'fs bios \<Rightarrow> (u32 list \<times> 'fs bios) option" where
  "split_args env p args st =
     Option.bind
       (if length args = MAXARGS then
          map_option (\<lambda>st'. st'\<lparr>b_mem := (b_mem st')(p := 0)\<rparr>)
            (b_printf env (bytes_of ''Limiting to %d arguments.'' @ [10]) [of_nat (length args)] st)
        else Some st)
       (\<lambda>st1.
          if b_mem st1 p = 0 then Some (args, st1)
          else Option.bind (skip_blanks (b_mem st1) p) (\<lambda>p1.
            if isspace (b_mem st1 p1) = 0 then
              Option.bind (skip_word (b_mem st1) p1) (\<lambda>p2.
                if b_mem st1 p2 = 0 then split_args env p2 (args @ [p1]) st1
                else Option.bind (clear_blanks (b_mem st1) p2) (\<lambda>(m, p3).
                  split_args env p3 (args @ [p1]) (st1\<lparr>b_mem := m\<rparr>)))
            else split_args env p1 args st1))"

definition execute_cmd :: "'fs bios_env \<Rightarrow> u32 \<Rightarrow> 'fs bios \<Rightarrow> 'fs bios option" where
  "execute_cmd env linebuffer st = do {
     (args, st1) \<leftarrow> split_args env linebuffer [] st;
     process_command env args st1 }"

end
