(* ===== verification/BiosLines.thy ===== *)
theory BiosLines
  imports BiosCommand
begin

text \<open>
  What the command interpreter of the BIOS does with a line: the words it is taken apart into, the
  command it calls, and what the loading of an ELF program leaves in memory.
\<close>

section \<open>Words\<close>

text \<open>A line: words, each followed by one or more blanks (the last by none or more).\<close>

fun spaced :: "(u8 list \<times> nat) list \<Rightarrow> u8 list" where
  "spaced [] = []"
| "spaced ((w, k) # ws) = w @ replicate k 32 @ spaced ws"

fun spaced_ok :: "(u8 list \<times> nat) list \<Rightarrow> bool" where
  "spaced_ok [] \<longleftrightarrow> True"
| "spaced_ok ((w, k) # ws) \<longleftrightarrow> w \<noteq> [] \<and> 32 \<notin> set w \<and> (ws \<noteq> [] \<longrightarrow> 0 < k) \<and> spaced_ok ws"

lemma isspace_iff: "isspace c \<noteq> 0 \<longleftrightarrow> c = 32"
  by (simp add: isspace_def)

lemma skip_blanks_stop: "m p \<noteq> 32 \<Longrightarrow> skip_blanks m p = Some p"
  by (subst skip_blanks.simps) (simp add: isspace_iff)

lemma skip_blanks_cstr: "cstr m p (replicate k 32 @ c # s) \<Longrightarrow> c \<noteq> 32 \<Longrightarrow> skip_blanks m p = Some (p + of_nat k)"
proof (induction k arbitrary: p)
  case 0
  then show ?case using skip_blanks_stop [of m p] by simp
next
  case (Suc k)
  then show ?case by (subst skip_blanks.simps) (simp add: isspace_iff add.assoc)
qed

lemma skip_word_cstr:
  "cstr m p (w @ s) \<Longrightarrow> 32 \<notin> set w \<Longrightarrow> s = [] \<or> hd s = 32 \<Longrightarrow> skip_word m p = Some (p + of_nat (length w))"
proof (induction w arbitrary: p)
  case Nil
  then have "m p = 0 \<or> m p = 32" by (cases s) auto
  then show ?case by (subst skip_word.simps) (auto simp: isspace_def)
next
  case (Cons c w)
  then have "skip_word m (p + 1) = Some (p + 1 + of_nat (length w))" by simp
  with Cons.prems show ?case by (subst skip_word.simps) (simp add: isspace_def add.assoc)
qed

text \<open>Clearing blanks stores zeros there and nowhere else.\<close>

lemma clear_blanks_cstr:
  assumes "cstr m p (replicate k 32 @ s)" "s = [] \<or> hd s \<noteq> 32" "k + length s < 2 ^ 32"
  shows "clear_blanks m p = Some (wr_bytes m p (replicate k 0), p + of_nat k)"
  using assms
proof (induction k arbitrary: m p)
  case 0
  then have "m p \<noteq> 32" by (cases s) auto
  then show ?case by (subst clear_blanks.simps) (simp add: isspace_def)
next
  case (Suc k)
  have "\<not> in_block (p + 1) (Suc (length (replicate k (32 :: u8) @ s))) p"
    using Suc.prems(3) by (intro not_in_next_block) simp
  then have c1: "cstr (m(p := 0)) (p + 1) (replicate k 32 @ s)" using Suc.prems(1,3) by (simp add: cstr_upd)
  have "clear_blanks (m(p := 0)) (p + 1) = Some (wr_bytes (m(p := 0)) (p + 1) (replicate k 0), p + 1 + of_nat k)"
    by (rule Suc.IH [OF c1 Suc.prems(2)]) (use Suc.prems(3) in simp)
  moreover have "clear_blanks m p = clear_blanks (m(p := 0)) (p + 1)"
    using Suc.prems(1) by (subst clear_blanks.simps) (simp add: isspace_def)
  ultimately show ?case by (simp add: add.assoc del: fun_upd_apply)
qed

lemma next_block_apart: "in_block (p + of_nat n) k x \<Longrightarrow> n + k \<le> 2 ^ 32 \<Longrightarrow> \<not> in_block p n x"
  using in_block_adjacent [of "p + of_nat n" k x n] by (simp add: add.commute)

text \<open>After the blanks behind a word are cleared the word and the rest of the line are strings.\<close>

lemma blanks_cleared:
  assumes c: "cstr m p (w @ replicate k 32 @ s)" and k: "0 < k" and len: "length (w @ replicate k (32 :: u8) @ s) < 2 ^ 32"
  defines "m1 \<equiv> wr_bytes m (p + of_nat (length w)) (replicate k 0)"
  shows "cstr m1 p w" "cstr m1 (p + of_nat (length w) + of_nat k) s"
    "\<not> in_block (p + of_nat (length w)) k x \<Longrightarrow> m1 x = m x"
proof -
  let ?q = "p + of_nat (length w)"
  have fr: "m1 x = m x" if "\<not> in_block ?q k x" for x
    unfolding m1_def using that len by (intro wr_bytes_frame) simp_all
  then show "\<not> in_block ?q k x \<Longrightarrow> m1 x = m x" .
  have w: "0 \<notin> set w" "rd_bytes m p (length w) = w" "cstr m ?q (replicate k 32 @ s)"
    using c by (simp_all add: cstr_append)
  have "rd_bytes m1 p (length w) = rd_bytes m p (length w)"
  proof (rule rd_bytes_cong)
    fix x assume x: "in_block p (length w) x"
    with next_block_apart [of p "length w" k x] len have "\<not> in_block ?q k x" by auto
    then show "m1 x = m x" by (rule fr)
  qed (use len in simp)
  moreover have "m1 ?q = 0"
    unfolding m1_def using wr_bytes_nth [of 0 "replicate k 0" m ?q] k len by simp
  ultimately show "cstr m1 p w" using w cstr_append [of m1 p w "[]"] by simp
  have s: "cstr m (?q + of_nat k) s" using w(3) cstr_append [of m ?q "replicate k 32" s] by simp
  have "m1 x = m x" if "in_block (?q + of_nat k) (Suc (length s)) x" for x
    using that next_block_apart [of ?q k "Suc (length s)" x] len by (intro fr) auto
  then show "cstr m1 (?q + of_nat k) s" using s cstr_frame [of "?q + of_nat k" s m1 m] len by simp
qed

lemma spaced_start: "spaced_ok ws \<Longrightarrow> spaced ws = [] \<or> hd (spaced ws) \<noteq> 32"
proof (cases ws)
  case (Cons a ws')
  moreover obtain w k where "a = (w, k)" by (cases a)
  moreover assume "spaced_ok ws"
  ultimately show ?thesis by (cases w) auto
qed simp

lemma split_args_end: "length args < 40 \<Longrightarrow> b_mem st p = 0 \<Longrightarrow> split_args env p args st = Some (args, st)"
  by (subst split_args.simps) (simp add: MAXARGS_def)

text \<open>A line of fewer than forty words gives pointers to its words, each ended by a zero.\<close>

lemma split_args_words:
  assumes "spaced_ok ws" "length args + length ws < 40" "cstr (b_mem st) p (spaced ws)" "length (spaced ws) < 2 ^ 32"
  shows "\<exists>as m'. split_args env p args st = Some (args @ as, st\<lparr>b_mem := m'\<rparr>) \<and> list_all2 (cstr m') as (List.map fst ws) \<and>
    (\<forall>x. \<not> in_block p (length (spaced ws)) x \<longrightarrow> m' x = b_mem st x)"
  using assms
proof (induction ws arbitrary: p args st)
  case Nil
  then have "split_args env p args st = Some (args, st)" by (intro split_args_end) simp_all
  then show ?case by (intro exI [of _ "[]"] exI [of _ "b_mem st"]) simp
next
  case (Cons a ws)
  obtain w k where a: "a = (w, k)" by (cases a)
  let ?m = "b_mem st" and ?q = "p + of_nat (length w)"
  have ok: "w \<noteq> []" "32 \<notin> set w" "ws \<noteq> [] \<longrightarrow> 0 < k" "spaced_ok ws" using Cons.prems(1) a by simp_all
  have c: "cstr ?m p (w @ replicate k 32 @ spaced ws)" using Cons.prems(3) a by simp
  have len: "length (w @ replicate k (32 :: u8) @ spaced ws) < 2 ^ 32" using Cons.prems(4) a by simp
  have args: "length args \<noteq> 40" using Cons.prems(2) by simp
  obtain b v where wb: "w = b # v" using ok(1) by (cases w) auto
  have p0: "?m p \<noteq> 0" "?m p \<noteq> 32" using c ok(2) by (simp_all add: wb)
  have sb: "skip_blanks ?m p = Some p" using p0(2) by (rule skip_blanks_stop)
  have sw: "skip_word ?m p = Some ?q"
    using c ok(2) by (rule skip_word_cstr) (use ok(3) in \<open>cases k; auto\<close>)
  have cw: "cstr ?m ?q (replicate k 32 @ spaced ws)" using c by (simp add: cstr_append)
  show ?case
  proof (cases k)
    case 0
    then have ws: "ws = []" using ok(3) by simp
    have z: "?m ?q = 0" using cw 0 ws by simp
    have "split_args env ?q (args @ [p]) st = Some (args @ [p], st)"
      using Cons.prems(2) z ws by (intro split_args_end) simp_all
    then have "split_args env p args st = Some (args @ [p], st)"
      using args p0 sb sw z by (subst split_args.simps) (simp add: MAXARGS_def isspace_def)
    then show ?thesis using c 0 ws a by (intro exI [of _ "[p]"] exI [of _ ?m]) simp
  next
    case (Suc j)
    define m1 where "m1 = wr_bytes ?m ?q (replicate k 0)"
    have k: "0 < k" using Suc by simp
    note cl = blanks_cleared [OF c k len, folded m1_def]
    have cb: "clear_blanks ?m ?q = Some (m1, ?q + of_nat k)"
      unfolding m1_def by (rule clear_blanks_cstr [OF cw spaced_start [OF ok(4)]]) (use len in simp)
    have "?m ?q = 32" using cw Suc by simp
    then have step: "split_args env p args st = split_args env (?q + of_nat k) (args @ [p]) (st\<lparr>b_mem := m1\<rparr>)"
      using args p0 sb sw cb by (subst split_args.simps) (simp add: MAXARGS_def isspace_def)
    have pre: "length (args @ [p]) + length ws < 40" "cstr (b_mem (st\<lparr>b_mem := m1\<rparr>)) (?q + of_nat k) (spaced ws)"
      "length (spaced ws) < 2 ^ 32"
      using Cons.prems(2) cl(2) len by simp_all
    from Cons.IH [OF ok(4) pre] obtain as m' where
      ih: "split_args env (?q + of_nat k) (args @ [p]) (st\<lparr>b_mem := m1\<rparr>) = Some ((args @ [p]) @ as, st\<lparr>b_mem := m1, b_mem := m'\<rparr>)"
      "list_all2 (cstr m') as (List.map fst ws)"
      "\<forall>x. \<not> in_block (?q + of_nat k) (length (spaced ws)) x \<longrightarrow> m' x = m1 x" by auto
    have le: "length w + k + length (spaced ws) \<le> 2 ^ 32" using len by simp
    have qk: "?q + of_nat k = p + of_nat (length w + k)" by simp
    have "m1 x = m' x" if "in_block p (Suc (length w)) x" for x
    proof -
      have "\<not> in_block (?q + of_nat k) (length (spaced ws)) x"
      proof
        assume "in_block (?q + of_nat k) (length (spaced ws)) x"
        then have "\<not> in_block p (length w + k) x" unfolding qk using le by (rule next_block_apart)
        then show False using that k by (simp add: in_block_def)
      qed
      then show ?thesis using ih(3) by simp
    qed
    then have w: "cstr m' p w" using cl(1) cstr_frame [of p w m1 m'] len by simp
    have "m' x = ?m x" if "\<not> in_block p (length (spaced (a # ws))) x" for x
    proof -
      have "\<not> in_block (?q + of_nat k) (length (spaced ws)) x"
        using that in_block_part [of p "length w + k" "length (spaced ws)" x "length (spaced (a # ws))"] len a
        by (auto simp: qk)
      moreover have "\<not> in_block ?q k x"
        using that in_block_part [of p "length w" k x "length (spaced (a # ws))"] len a by auto
      ultimately show ?thesis using ih(3) cl(3) by simp
    qed
    with ih(1,2) w step a show ?thesis by (intro exI [of _ "p # as"] exI [of _ m']) simp
  qed
qed

section \<open>Commands\<close>

text \<open>The names in the table are literals in memory, apart from the line.\<close>

definition names_in_place :: "'fs bios_env \<Rightarrow> mem \<Rightarrow> u32 \<Rightarrow> nat \<Rightarrow> bool" where
  "names_in_place env m p n \<longleftrightarrow>
     (\<forall>e \<in> set g_cmd_table. cstr m (be_lit env (ce_name e)) (ce_name e) \<and>
        disjoint_blocks p n (be_lit env (ce_name e)) (Suc (length (ce_name e))))"

lemma g_cmd_table_names:
  "distinct (List.map ce_name g_cmd_table)"
  "e \<in> set g_cmd_table \<Longrightarrow> List.map fold_case (ce_name e) = ce_name e"
  "e \<in> set g_cmd_table \<Longrightarrow> \<exists>c d s. ce_name e = c # d # s \<and> d \<noteq> 58"
  "e \<in> set g_cmd_table \<Longrightarrow> length (ce_name e) < 10"
proof -
  show "distinct (List.map ce_name g_cmd_table)" by code_simp
  have 1: "\<forall>e \<in> set g_cmd_table. List.map fold_case (ce_name e) = ce_name e" by code_simp
  have 2: "\<forall>e \<in> set g_cmd_table. case ce_name e of c # d # s \<Rightarrow> d \<noteq> 58 | _ \<Rightarrow> False" by code_simp
  have 3: "\<forall>e \<in> set g_cmd_table. length (ce_name e) < 10" by code_simp
  show "List.map fold_case (ce_name e) = ce_name e" if "e \<in> set g_cmd_table" using 1 that by blast
  show "\<exists>c d s. ce_name e = c # d # s \<and> d \<noteq> 58" if "e \<in> set g_cmd_table"
    using bspec [OF 2 that] by (auto split: list.splits)
  show "length (ce_name e) < 10" if "e \<in> set g_cmd_table" using 3 that by blast
qed

lemma names_kept:
  assumes lit: "names_in_place env m p n" and same: "\<forall>x. \<not> in_block p n x \<longrightarrow> m' x = m x" and d: "d \<in> set g_cmd_table"
  shows "cstr m' (be_lit env (ce_name d)) (ce_name d)"
proof -
  have l: "cstr m (be_lit env (ce_name d)) (ce_name d)" "disjoint_blocks p n (be_lit env (ce_name d)) (Suc (length (ce_name d)))"
    using lit d by (auto simp: names_in_place_def)
  have "m' x = m x" if "in_block (be_lit env (ce_name d)) (Suc (length (ce_name d))) x" for x
    using disjoint_blocksD [OF l(2), of x] that same by blast
  then show ?thesis
    using l(1) g_cmd_table_names(4) [OF d] cstr_frame [of "be_lit env (ce_name d)" "ce_name d" m' m] by simp
qed

lemma find_builtin_entry:
  assumes "\<forall>e \<in> set es. cstr (b_mem st) (be_lit env (ce_name e)) (ce_name e) \<and> List.map fold_case (ce_name e) = ce_name e"
    "cstr (b_mem st) (argv ! 0) w" "e \<in> set es" "List.map fold_case w = ce_name e" "distinct (List.map ce_name es)"
  shows "find_builtin env es argv st = map_option (\<lambda>st1. (True, st1)) (call_entry env e argv st)"
  using assms
proof (induction es)
  case (Cons d es)
  have d: "cstr (b_mem st) (be_lit env (ce_name d)) (ce_name d)" "List.map fold_case (ce_name d) = ce_name d"
    using Cons.prems(1) by simp_all
  from strcasecmp_cstr_0 [OF Cons.prems(2) d(1)] obtain r where
    r: "strcasecmp (b_mem st) (argv ! 0) (be_lit env (ce_name d)) = Some r" "r = 0 \<longleftrightarrow> ce_name e = ce_name d"
    using d(2) Cons.prems(4) by auto
  show ?case
  proof (cases "ce_name e = ce_name d")
    case True
    then have "e = d" using Cons.prems(3,5) by (auto simp: image_iff)
    then show ?thesis using r by simp
  next
    case False
    then have "e \<in> set es" using Cons.prems(3) by auto
    with Cons False r show ?thesis by simp
  qed
qed simp

lemma fold_case_colon: "fold_case c = d \<Longrightarrow> d \<noteq> 58 \<Longrightarrow> c \<noteq> 58"
  by (auto simp: fold_case_def)

lemma execute_cmd_reaches_entry:
  assumes ws: "spaced_ok ws" "ws \<noteq> []" "length ws < 40" and line: "cstr (b_mem st) p (spaced ws)"
    and len: "length (spaced ws) < 2 ^ 32" and lit: "names_in_place env (b_mem st) p (length (spaced ws))"
    and e: "e \<in> set g_cmd_table" "List.map fold_case (fst (hd ws)) = ce_name e"
  shows "\<exists>as m'. execute_cmd env p st = call_entry env e as (st\<lparr>b_mem := m'\<rparr>) \<and>
    list_all2 (cstr m') as (List.map fst ws) \<and> (\<forall>x. \<not> in_block p (length (spaced ws)) x \<longrightarrow> m' x = b_mem st x)"
proof -
  have "length ([] :: u32 list) + length ws < 40" using ws(3) by simp
  from split_args_words [OF ws(1) this line len, of env] obtain as m' where
    sp: "split_args env p [] st = Some (as, st\<lparr>b_mem := m'\<rparr>)" "list_all2 (cstr m') as (List.map fst ws)"
    "\<forall>x. \<not> in_block p (length (spaced ws)) x \<longrightarrow> m' x = b_mem st x" by auto
  obtain a as' where as: "as = a # as'" using sp(2) ws(2) by (cases as; cases ws) auto
  have a: "cstr m' a (fst (hd ws))" using sp(2) ws(2) as by (cases ws) auto
  have names: "\<forall>d \<in> set g_cmd_table. cstr (b_mem (st\<lparr>b_mem := m'\<rparr>)) (be_lit env (ce_name d)) (ce_name d) \<and>
      List.map fold_case (ce_name d) = ce_name d"
    using lit sp(3) by (auto simp: names_kept g_cmd_table_names(2))
  have colon: "m' (a + 1) \<noteq> 58"
  proof -
    from g_cmd_table_names(3) [OF e(1)] obtain c d s where "ce_name e = c # d # s" "d \<noteq> 58" by blast
    moreover from this e(2) obtain c' d' s' where "fst (hd ws) = c' # d' # s'" "fold_case d' = d" by (auto simp: map_eq_Cons_conv)
    ultimately show ?thesis using a fold_case_colon by auto
  qed
  have "find_builtin env g_cmd_table as (st\<lparr>b_mem := m'\<rparr>) = map_option (\<lambda>st1. (True, st1)) (call_entry env e as (st\<lparr>b_mem := m'\<rparr>))"
    by (rule find_builtin_entry [OF names _ e(1,2) g_cmd_table_names(1)]) (simp add: as a)
  then have "process_command_builtin env as (st\<lparr>b_mem := m'\<rparr>) = map_option (\<lambda>st1. (True, st1)) (call_entry env e as (st\<lparr>b_mem := m'\<rparr>))"
    using colon by (simp add: process_command_builtin_def as)
  then have "execute_cmd env p st = call_entry env e as (st\<lparr>b_mem := m'\<rparr>)"
    using sp(1) as by (cases "call_entry env e as (st\<lparr>b_mem := m'\<rparr>)") (simp_all add: execute_cmd_def process_command_def)
  with sp show ?thesis by blast
qed

text \<open>
  A line of fewer than forty words whose first is the name of a command, in upper or lower case, and
  whose other words are as many as the table allows calls that command with pointers to these words; the
  line is the only part of memory that has changed by then.
\<close>

theorem execute_cmd_calls_command:
  assumes ws: "spaced_ok ws" "ws \<noteq> []" "length ws < 40" and line: "cstr (b_mem st) p (spaced ws)"
    and len: "length (spaced ws) < 2 ^ 32" and lit: "names_in_place env (b_mem st) p (length (spaced ws))"
    and e: "e \<in> set g_cmd_table" "List.map fold_case (fst (hd ws)) = ce_name e"
    and args: "ce_min_args e \<le> int (length ws) - 1" "ce_max_args e = 0 \<or> int (length ws) - 1 \<le> ce_max_args e"
  shows "\<exists>as m'. execute_cmd env p st = be_command env (ce_function e) as (st\<lparr>b_mem := m'\<rparr>) \<and>
    list_all2 (cstr m') as (List.map fst (tl ws)) \<and> (\<forall>x. \<not> in_block p (length (spaced ws)) x \<longrightarrow> m' x = b_mem st x)"
proof -
  from execute_cmd_reaches_entry [OF ws line len lit e] obtain as m' where
    r: "execute_cmd env p st = call_entry env e as (st\<lparr>b_mem := m'\<rparr>)" "list_all2 (cstr m') as (List.map fst ws)"
    "\<forall>x. \<not> in_block p (length (spaced ws)) x \<longrightarrow> m' x = b_mem st x" by blast
  have "length as = length ws" using r(2) by (auto dest: list_all2_lengthD)
  then have "execute_cmd env p st = be_command env (ce_function e) (tl as) (st\<lparr>b_mem := m'\<rparr>)"
    using r(1) args by (simp add: call_entry_def)
  moreover have "list_all2 (cstr m') (tl as) (List.map fst (tl ws))" using r(2) ws(2) by (cases ws; cases as) auto
  ultimately show ?thesis using r(3) by blast
qed

section \<open>Lines that go wrong\<close>

text \<open>A line of blanks is one word, the empty one.\<close>

lemma blank_line_is_a_word:
  assumes "cstr (b_mem st) p (replicate k 32)" "0 < k"
  shows "split_args env p [] st = Some ([p + of_nat k], st)" "b_mem st (p + of_nat k) = 0"
proof -
  have z: "b_mem st (p + of_nat k) = 0" using assms(1) cstr_append [of "b_mem st" p "replicate k 32" "[]"] by simp
  then show "b_mem st (p + of_nat k) = 0" .
  have "skip_blanks (b_mem st) p = Some (p + of_nat k)"
    using assms(1) z
  proof (induction k arbitrary: p)
    case 0
    then show ?case using skip_blanks_stop [of "b_mem st" p] by simp
  next
    case (Suc k)
    then show ?case by (subst skip_blanks.simps) (simp add: isspace_iff add.assoc)
  qed
  moreover have "skip_word (b_mem st) (p + of_nat k) = Some (p + of_nat k)" using z by (subst skip_word.simps) simp
  moreover have "b_mem st p \<noteq> 0" using assms by (cases k) auto
  moreover have "split_args env (p + of_nat k) [p + of_nat k] st = Some ([p + of_nat k], st)"
    using z by (intro split_args_end) simp_all
  ultimately show "split_args env p [] st = Some ([p + of_nat k], st)"
    using z by (subst split_args.simps) (simp add: MAXARGS_def isspace_def)
qed

text \<open>A backspace on an empty line makes the next character be stored before the line.\<close>

lemma getline_writes_before_line:
  assumes "b_in st = 8 # c # cs" "b_count st = 0" "1 < n" "32 \<le> c" "c < 0x80"
  shows "\<exists>st1 st2. getline line n st = Some (- 1, st1) \<and> b_count st1 = - 1 \<and>
    getline line n st1 = Some (- 1, st2) \<and> b_mem st2 (line - 1) = c"
proof -
  have "c \<noteq> 8" "c \<noteq> 9" "c \<noteq> 13" "c \<noteq> 27" "c \<noteq> 0" "\<not> 0x80 \<le> c" using assms(4,5) by (auto simp: not_le)
  then show ?thesis
    using assms by (simp add: getline_def b_putchar_def PS2_BACKSPACE_def PS2_TAB_def PS2_ENTER_def PS2_ESC_def PS2_INSERT_def
        PS2_HOME_def Let_def)
qed

section \<open>The theorem at work\<close>

definition demo_names :: "u8 list list" where
  "demo_names = List.map ce_name g_cmd_table"

definition demo_name_at :: "u8 list \<Rightarrow> u32" where
  "demo_name_at t = 0x1000 + 16 * of_nat (length (takeWhile (\<lambda>u. u \<noteq> t) demo_names))"

text \<open>The line is \<open>RM  x\<close>.\<close>

definition demo_bios_mem :: mem where
  "demo_bios_mem x =
     (if x - 0x1000 < 352 then
        (let t = demo_names ! unat ((x - 0x1000) div 16); j = unat ((x - 0x1000) mod 16) in if j < length t then t ! j else 0)
      else if x - 0x100 < 5 then bytes_of ''RM  x'' ! unat (x - 0x100) else 0)"

definition demo_line_bios :: "unit bios" where
  "demo_line_bios = \<lparr>b_mem = demo_bios_mem, b_in = [], b_out = [], b_count = 0, b_fs = ()\<rparr>"

definition demo_cmd_env :: "unit bios_env" where
  "demo_cmd_env = \<lparr>be_fat = \<lparr>ff_open = (\<lambda>fil path mode fs. (4, fs)), ff_close = (\<lambda>fil fs. (0, fs)),
       ff_read = (\<lambda>fil n fs. (0, [], fs)), ff_write = (\<lambda>fil bs fs. (0, 0, fs)), ff_lseek = (\<lambda>fil p fs. (0, fs)),
       ff_tell = (\<lambda>fil fs. 0), ff_size = (\<lambda>fil fs. 0)\<rparr>,
     be_lit = demo_name_at, be_fileext = 0x2000, be_chdrive = (\<lambda>path fs. (0, fs)),
     be_command = (\<lambda>fn argv st. if fn = fn_do_delete then Some (b_putchar (b_mem st (argv ! 0)) st) else None),
     be_run = (\<lambda>entry argv st. None)\<rparr>"

lemma demo_names_in_place: "names_in_place demo_cmd_env demo_bios_mem 0x100 5"
  by (simp add: names_in_place_def disjoint_blocks_def demo_cmd_env_def demo_name_at_def demo_names_def g_cmd_table_def
      bytes_of_def demo_bios_mem_def)

theorem execute_cmd_calls_command_witness:
  "\<exists>m'. execute_cmd demo_cmd_env 0x100 demo_line_bios = Some (demo_line_bios\<lparr>b_mem := m', b_out := bytes_of ''x''\<rparr>)"
proof -
  let ?e = "\<lparr>ce_name = bytes_of ''rm'', ce_min_args = 1, ce_max_args = 1, ce_function = fn_do_delete\<rparr>"
  let ?ws = "[(bytes_of ''RM'', 2), (bytes_of ''x'', 0)]"
  have s: "spaced ?ws = bytes_of ''RM  x''" "length (bytes_of ''RM  x'') = 5" by code_simp+
  have c: "cstr (b_mem demo_line_bios) 0x100 (spaced ?ws)" by code_simp
  have o: "spaced_ok ?ws" "List.map fold_case (bytes_of ''RM'') = bytes_of ''rm''" "bytes_of ''x'' = [120]" by code_simp+
  have e: "?e \<in> set g_cmd_table" by (simp add: g_cmd_table_def)
  have n: "names_in_place demo_cmd_env (b_mem demo_line_bios) 0x100 (length (spaced ?ws))"
    using demo_names_in_place unfolding s by (simp add: demo_line_bios_def)
  have l: "length (spaced ?ws) < 2 ^ 32" unfolding s by simp
  have "\<exists>as m'. execute_cmd demo_cmd_env 0x100 demo_line_bios = be_command demo_cmd_env fn_do_delete as (demo_line_bios\<lparr>b_mem := m'\<rparr>) \<and>
      list_all2 (cstr m') as [bytes_of ''x'']"
    using execute_cmd_calls_command [OF o(1) _ _ c l n e] o(2) by auto
  then obtain a m' where
    r: "execute_cmd demo_cmd_env 0x100 demo_line_bios = be_command demo_cmd_env fn_do_delete [a] (demo_line_bios\<lparr>b_mem := m'\<rparr>)"
    "cstr m' a (bytes_of ''x'')" by (auto simp: list_all2_Cons2)
  show ?thesis
    using r(2) unfolding r(1) o(3) by (simp add: demo_cmd_env_def b_putchar_def demo_line_bios_def)
qed

end
