(* ===== verification/BiosElf.thy ===== *)
theory BiosElf
  imports BiosCommand
begin

text \<open>
  What the loading of an ELF program by the BIOS leaves in memory: for a proper file every segment lies
  at its address, the bytes of the file and then zeros, and the program is entered at the entry point
  of the header.
\<close>

section \<open>The image\<close>

text \<open>Reading a file after a seek, as FatFs documents it for an open file of the contents \<open>F\<close>.\<close>

definition file_reads :: "'fs fatfs \<Rightarrow> nat \<Rightarrow> u8 list \<Rightarrow> ('fs \<Rightarrow> bool) \<Rightarrow> bool" where
  "file_reads fat fd F good \<longleftrightarrow> (\<forall>fs off n. good fs \<longrightarrow>
     (\<exists>fs'. ff_read fat fd n (snd (ff_lseek fat fd off fs)) = (FR_OK, take (unat n) (drop (unat off) F), fs') \<and> good fs'))"

definition header_at :: "u8 list \<Rightarrow> nat \<Rightarrow> program_header" where
  "header_at F i = program_header_of (take 32 (drop (unat (of_nat i * ucast (get16 (take 52 F) 0x2A) + get32 (take 52 F) 0x1C :: u32)) F))"

definition headers :: "u8 list \<Rightarrow> program_header list" where
  "headers F = List.map (header_at F) [0..<unat (get16 (take 52 F) 0x2C)]"

definition segment_image :: "u8 list \<Rightarrow> program_header \<Rightarrow> u8 list" where
  "segment_image F ph = take (unat (ph_filesz ph)) (drop (unat (ph_offset ph)) F) @
     replicate (unat (ph_memsz ph) - unat (ph_filesz ph)) 0"

fun place_segments :: "u8 list \<Rightarrow> program_header list \<Rightarrow> mem \<Rightarrow> mem" where
  "place_segments F [] m = m"
| "place_segments F (ph # phs) m =
     place_segments F phs (if ph_type ph = 1 then wr_bytes m (ph_paddr ph) (segment_image F ph) else m)"

text \<open>The message of the loader.\<close>

definition clearing :: "directive list" where
  "clearing = List.map Lit (bytes_of ''Clearing '') @ Directive [] False 100 # List.map Lit (bytes_of '' bytes BSS at 0x'') @
     [Directive [] False 120, Lit 10, Lit 13]"

definition clearing_text :: "u8 list" where
  "clearing_text = bytes_of ''Clearing %d bytes BSS at 0x%x'' @ [10, 13]"

text \<open>
  A proper file: the header passes the checks, every program header lies in the file, none asks for a
  dynamic linker or an interpreter, and every segment that is loaded lies in the file and apart from
  the text of the loader's message.
\<close>

definition proper_header :: "'fs bios_env \<Rightarrow> u8 list \<Rightarrow> program_header \<Rightarrow> bool" where
  "proper_header env F ph \<longleftrightarrow> ph_type ph \<notin> {2, 3, 5} \<and>
     (ph_type ph = 1 \<longrightarrow> unat (ph_offset ph) + unat (ph_filesz ph) \<le> length F \<and>
        disjoint_blocks (ph_paddr ph) (length (segment_image F ph)) (be_lit env clearing_text) (Suc (length clearing_text)))"

definition proper_elf :: "'fs bios_env \<Rightarrow> u8 list \<Rightarrow> bool" where
  "proper_elf env F \<longleftrightarrow> 52 \<le> length F \<and> header_error (take 52 F) = None \<and>
     (\<forall>i < unat (get16 (take 52 F) 0x2C).
        unat (of_nat i * ucast (get16 (take 52 F) 0x2A) + get32 (take 52 F) 0x1C :: u32) + 32 \<le> length F) \<and>
     (\<forall>ph \<in> set (headers F). proper_header env F ph)"

lemma prints_lits: "prints f ds args out \<Longrightarrow> prints f (List.map Lit cs @ ds) args (cs @ out)"
  by (induction cs) (auto intro: prints_lit)

lemma clearing_printed:
  assumes "cstr (b_mem st) (be_lit env clearing_text) clearing_text"
  shows "\<exists>t. b_printf env clearing_text [a, b] st = Some (st\<lparr>b_out := b_out st @ t\<rparr>)"
proof -
  have f: "format_text clearing = clearing_text" by code_simp
  have p: "\<forall>d \<in> set clearing. plain_flags d" by code_simp
  have fit: "flags_fit []" by code_simp
  have "prints (cstr (b_mem st)) clearing [a, b]
      (bytes_of ''Clearing '' @ number_field [] (signed_text (sint a)) @ bytes_of '' bytes BSS at 0x'' @
       number_field [] (digit_text 16 (unat b)) @ [10, 13])"
    unfolding clearing_def
    by (intro prints_lits prints_signed prints_hex prints_lit prints_end) (simp_all add: fit)
  with printf_text [of "b_mem st" "be_lit env clearing_text" clearing "[a, b]"] assms p show ?thesis
    unfolding f b_printf_def by auto
qed

lemma segment_zeros:
  fixes ph :: program_header
  assumes "length bs = unat (ph_filesz ph)"
  shows "(if ph_memsz ph > ph_filesz ph
      then memset (wr_bytes m (ph_paddr ph) bs) (ph_paddr ph + ph_filesz ph) 0 (ph_memsz ph - ph_filesz ph)
      else wr_bytes m (ph_paddr ph) bs) =
    wr_bytes m (ph_paddr ph) (bs @ replicate (unat (ph_memsz ph) - unat (ph_filesz ph)) 0)"
proof -
  have "load_segment (\<lambda>_ _. (0, bs)) 0 ph m = (True, if ph_memsz ph > ph_filesz ph
      then memset (wr_bytes m (ph_paddr ph) bs) (ph_paddr ph + ph_filesz ph) 0 (ph_memsz ph - ph_filesz ph)
      else wr_bytes m (ph_paddr ph) bs)"
    using assms by (simp add: load_segment_def Let_def)
  from load_segment_bytes [OF this] show ?thesis by auto
qed

lemma b_read_after_seek:
  assumes "file_reads (be_fat env) fd F good" "good (b_fs st)"
  shows "\<exists>fs'. b_read env fd n (b_lseek env fd off st) = (FR_OK, take (unat n) (drop (unat off) F), st\<lparr>b_fs := fs'\<rparr>) \<and> good fs'"
proof -
  obtain fs' where "ff_read (be_fat env) fd n (snd (ff_lseek (be_fat env) fd off (b_fs st))) =
      (FR_OK, take (unat n) (drop (unat off) F), fs')" "good fs'"
    using assms unfolding file_reads_def by blast
  then show ?thesis by (intro exI [of _ fs']) (simp add: b_read_def b_lseek_def)
qed

lemma load_bios_segment_image:
  assumes f: "file_reads (be_fat env) fd F good" "good (b_fs st)" and ph: "proper_header env F ph" "ph_type ph = 1"
    and lit: "cstr (b_mem st) (be_lit env clearing_text) clearing_text"
  shows "\<exists>st'. load_bios_segment env fd ph st = Some (Inr (), st') \<and> good (b_fs st') \<and>
    b_mem st' = wr_bytes (b_mem st) (ph_paddr ph) (segment_image F ph) \<and>
    cstr (b_mem st') (be_lit env clearing_text) clearing_text \<and> b_in st' = b_in st \<and> b_count st' = b_count st"
proof -
  let ?bs = "take (unat (ph_filesz ph)) (drop (unat (ph_offset ph)) F)"
  have len: "length ?bs = unat (ph_filesz ph)" and
    d: "disjoint_blocks (ph_paddr ph) (length (segment_image F ph)) (be_lit env clearing_text) (Suc (length clearing_text))"
    using ph by (auto simp: proper_header_def)
  have l32: "length (segment_image F ph) \<le> 2 ^ 32"
    using len unat_less_32 [of "ph_filesz ph"] unat_less_32 [of "ph_memsz ph"] by (simp add: segment_image_def)
  have tl: "length clearing_text < 2 ^ 32" by (simp add: clearing_text_def bytes_of_def)
  have kept: "cstr (wr_bytes (b_mem st) (ph_paddr ph) (segment_image F ph)) (be_lit env clearing_text) clearing_text"
    using lit cstr_wr_bytes [OF d l32 tl] by simp
  from b_read_after_seek [OF f, of "ph_filesz ph" "ph_offset ph"] obtain fs' where
    r: "b_read env fd (ph_filesz ph) (b_lseek env fd (ph_offset ph) st) = (FR_OK, ?bs, st\<lparr>b_fs := fs'\<rparr>)" "good fs'" by blast
  note z = segment_zeros [of ?bs ph "b_mem st", OF len, folded segment_image_def]
  show ?thesis
  proof (cases "ph_memsz ph > ph_filesz ph")
    case False
    then show ?thesis using r len z kept
      by (intro exI [of _ "st\<lparr>b_fs := fs', b_mem := wr_bytes (b_mem st) (ph_paddr ph) ?bs\<rparr>"])
        (simp add: load_bios_segment_def Let_def)
  next
    case True
    define st2 where "st2 = st\<lparr>b_fs := fs', b_mem := wr_bytes (b_mem st) (ph_paddr ph) ?bs\<rparr>"
    have d2: "disjoint_blocks (ph_paddr ph) (length ?bs) (be_lit env clearing_text) (Suc (length clearing_text))"
      using d unfolding disjoint_blocks_def by (simp add: segment_image_def)
    have "length ?bs \<le> 2 ^ 32" using len unat_less_32 [of "ph_filesz ph"] by simp
    then have "cstr (b_mem st2) (be_lit env clearing_text) clearing_text"
      using lit cstr_wr_bytes [OF d2 _ tl] by (simp add: st2_def)
    from clearing_printed [OF this] obtain t where
      t: "b_printf env clearing_text [ph_memsz ph - ph_filesz ph, ph_paddr ph + ph_filesz ph] st2 = Some (st2\<lparr>b_out := b_out st2 @ t\<rparr>)"
      by blast
    show ?thesis using True r len z kept t
      by (intro exI [of _ "st2\<lparr>b_out := b_out st2 @ t, b_mem := memset (b_mem st2) (ph_paddr ph + ph_filesz ph) 0 (ph_memsz ph - ph_filesz ph)\<rparr>"])
        (simp add: load_bios_segment_def Let_def st2_def clearing_text_def)
  qed
qed

lemma load_headers_image:
  assumes f: "file_reads (be_fat env) fd F good" and h: "h = take 52 F"
    and inf: "\<forall>i \<in> set is. unat (of_nat i * ucast (get16 h 0x2A) + get32 h 0x1C :: u32) + 32 \<le> length F \<and> proper_header env F (header_at F i)"
    and st: "good (b_fs st)" "cstr (b_mem st) (be_lit env clearing_text) clearing_text"
  shows "\<exists>st'. load_headers env fd h is st = Some (Inr (), st') \<and> good (b_fs st') \<and>
    b_mem st' = place_segments F (List.map (header_at F) is) (b_mem st) \<and> b_in st' = b_in st \<and> b_count st' = b_count st"
  using inf st
proof (induction "is" arbitrary: st)
  case Nil
  then show ?case by simp
next
  case (Cons i "is")
  let ?off = "of_nat i * ucast (get16 h 0x2A) + get32 h 0x1C :: u32"
  let ?ph = "header_at F i" and ?bs = "take 32 (drop (unat (of_nat i * ucast (get16 h 0x2A) + get32 h 0x1C :: u32)) F)"
  have "unat ?off + 32 \<le> length F" and ok: "proper_header env F ?ph" using Cons.prems(1) by simp_all
  then have "32 \<le> length F - unat ?off" by linarith
  then have len: "length ?bs = 32" by (simp only: length_take length_drop min_absorb2)
  have ph: "program_header_of ?bs = ?ph" by (simp add: header_at_def h)
  from b_read_after_seek [OF f Cons.prems(2), of 32 ?off] obtain fs' where
    r: "b_read env fd 32 (b_lseek env fd ?off st) = (FR_OK, ?bs, st\<lparr>b_fs := fs'\<rparr>)" "good fs'" by auto
  have ty: "ph_type ?ph \<noteq> 5" "ph_type ?ph \<noteq> 2" "ph_type ?ph \<noteq> 3" using ok by (auto simp: proper_header_def)
  have rest: "\<forall>i \<in> set is. unat (of_nat i * ucast (get16 h 0x2A) + get32 h 0x1C :: u32) + 32 \<le> length F \<and> proper_header env F (header_at F i)"
    using Cons.prems(1) by simp
  show ?case
  proof (cases "ph_type ?ph = 1")
    case True
    let ?st1 = "st\<lparr>b_fs := fs'\<rparr>"
    from load_bios_segment_image [OF f _ ok True, of ?st1] r(2) Cons.prems(3) obtain st2 where
      s: "load_bios_segment env fd ?ph ?st1 = Some (Inr (), st2)" "good (b_fs st2)"
      "b_mem st2 = wr_bytes (b_mem st) (ph_paddr ?ph) (segment_image F ?ph)"
      "cstr (b_mem st2) (be_lit env clearing_text) clearing_text" "b_in st2 = b_in st" "b_count st2 = b_count st" by auto
    from Cons.IH [OF rest s(2,4)] show ?thesis using r len ph ty True s by (simp add: Let_def)
  next
    case False
    from Cons.IH [OF rest, of "st\<lparr>b_fs := fs'\<rparr>"] show ?thesis
      using r len ph ty False Cons.prems(3) by (simp add: Let_def)
  qed
qed

text \<open>
  C18: Loading a proper ELF file enters the program at the entry point of its header, with the arguments,
  in a memory in which every segment to be loaded has been placed, in the order of the headers: the
  bytes of the file, then zeros.
\<close>

theorem load_elf_places_segments:
  assumes f: "file_reads (be_fat env) fd F good" "good (b_fs st)" and elf: "proper_elf env F"
    and lit: "cstr (b_mem st) (be_lit env clearing_text) clearing_text"
  shows "\<exists>st'. load_elf_executable env argv fd st = be_run env (get32 F 0x18) argv st' \<and> good (b_fs st') \<and>
    b_mem st' = place_segments F (headers F) (b_mem st)"
proof -
  let ?h = "take 52 F"
  have F: "length ?h = 52" "header_error ?h = None" using elf by (auto simp: proper_elf_def)
  have e: "get32 ?h 0x18 = get32 F 0x18" using elf by (simp add: get32_def proper_elf_def)
  from b_read_after_seek [OF f, of 52 0] obtain fs' where
    r: "b_read env fd 52 (b_lseek env fd 0 st) = (FR_OK, ?h, st\<lparr>b_fs := fs'\<rparr>)" "good fs'" by auto
  have "\<forall>i \<in> set [0..<unat (get16 ?h 0x2C)].
      unat (of_nat i * ucast (get16 ?h 0x2A) + get32 ?h 0x1C :: u32) + 32 \<le> length F \<and> proper_header env F (header_at F i)"
    using elf by (simp add: proper_elf_def headers_def)
  from load_headers_image [OF f(1) refl this, of "st\<lparr>b_fs := fs'\<rparr>"] r(2) lit obtain st' where
    l: "load_headers env fd ?h [0..<unat (get16 ?h 0x2C)] (st\<lparr>b_fs := fs'\<rparr>) = Some (Inr (), st')" "good (b_fs st')"
    "b_mem st' = place_segments F (headers F) (b_mem st)" by (auto simp: headers_def)
  have "load_elf_executable env argv fd st = be_run env (get32 F 0x18) argv st'"
    using r F l(1) e by (simp add: load_elf_executable_def Let_def)
  with l show ?thesis by blast
qed

text \<open>A file with one segment of two bytes and a zero behind them, on a volume that has only this file.\<close>

definition demo_elf :: "u8 list" where
  "demo_elf = [0x7F, 0x45, 0x4C, 0x46, 1, 2, 1, 0, 0, 0, 0, 0, 0, 0, 0, 0,
     0, 2, 0, 4, 0, 0, 0, 1, 0, 0, 0x90, 0, 0, 0, 0, 0x34, 0, 0, 0, 0, 0, 0, 0, 0, 0, 0x34, 0, 0x20, 0, 1, 0, 0, 0, 0, 0, 0,
     0, 0, 0, 1, 0, 0, 0, 0x54, 0, 0, 0, 0, 0, 0, 0x90, 0, 0, 0, 0, 2, 0, 0, 0, 3, 0, 0, 0, 0, 0, 0, 0, 0,
     0x4E, 0x75]"

definition demo_volume :: "u32 fatfs" where
  "demo_volume = \<lparr>ff_open = (\<lambda>fil path mode fs. (0, 0)), ff_close = (\<lambda>fil fs. (0, fs)),
     ff_read = (\<lambda>fil n fs. (0, take (unat n) (drop (unat fs) demo_elf), fs)), ff_write = (\<lambda>fil bs fs. (0, 0, fs)),
     ff_lseek = (\<lambda>fil p fs. (0, p)), ff_tell = (\<lambda>fil fs. fs), ff_size = (\<lambda>fil fs. 86)\<rparr>"

definition demo_bios_env :: "u32 bios_env" where
  "demo_bios_env = \<lparr>be_fat = demo_volume, be_lit = (\<lambda>_. 0x1000), be_fileext = 0x2000, be_chdrive = (\<lambda>path fs. (0, fs)),
     be_command = (\<lambda>fn argv st. Some st), be_run = (\<lambda>entry argv st. Some (uint (b_mem st (entry + 1)), st))\<rparr>"

definition demo_bios :: "u32 bios" where
  "demo_bios = \<lparr>b_mem = wr_bytes (\<lambda>_. 0) 0x1000 (clearing_text @ [0]), b_in = [], b_out = [], b_count = 0, b_fs = 0\<rparr>"

theorem load_elf_places_segments_witness:
  "\<exists>st'. load_elf_executable demo_bios_env [] 0 demo_bios = Some (uint (b_mem st' 0x9001), st') \<and>
    b_mem st' = wr_bytes (b_mem demo_bios) 0x9000 [0x4E, 0x75, 0]"
proof -
  have f: "file_reads (be_fat demo_bios_env) 0 demo_elf (\<lambda>_. True)"
    by (simp add: file_reads_def demo_bios_env_def demo_volume_def FR_OK_def)
  have h: "headers demo_elf = [\<lparr>ph_type = 1, ph_offset = 0x54, ph_paddr = 0x9000, ph_filesz = 2, ph_memsz = 3\<rparr>]"
    by code_simp
  have i: "segment_image demo_elf \<lparr>ph_type = 1, ph_offset = 0x54, ph_paddr = 0x9000, ph_filesz = 2, ph_memsz = 3\<rparr> = [0x4E, 0x75, 0]"
    by code_simp
  have n: "length demo_elf = 86" "length clearing_text = 31" by code_simp+
  have e: "header_error (take 52 demo_elf) = None" "get16 (take 52 demo_elf) 0x2C = 1" "get16 (take 52 demo_elf) 0x2A = 0x20"
    "get32 (take 52 demo_elf) 0x1C = 0x34" "get32 demo_elf 0x18 = 0x9000" by code_simp+
  have d: "disjoint_blocks 0x9000 3 (0x1000 :: u32) 32" by (simp add: disjoint_blocks_def)
  have "proper_header demo_bios_env demo_elf \<lparr>ph_type = 1, ph_offset = 0x54, ph_paddr = 0x9000, ph_filesz = 2, ph_memsz = 3\<rparr>"
    unfolding proper_header_def i n using d by (simp add: demo_bios_env_def n numeral_3_eq_3)
  then have p: "proper_elf demo_bios_env demo_elf"
    unfolding proper_elf_def h e n by simp
  have "0 \<notin> set clearing_text" by code_simp
  then have l: "cstr (b_mem demo_bios) (be_lit demo_bios_env clearing_text) clearing_text"
    unfolding demo_bios_def demo_bios_env_def by (simp add: cstr_wr_bytes_new n)
  from load_elf_places_segments [OF f _ p l, of "[]"] show ?thesis
    unfolding h e by (auto simp: demo_bios_env_def i)
qed

end
