(* ===== verification/VfsCalls.thy ===== *)
theory VfsCalls
  imports Vfs
begin

text \<open>
  Sequences of calls of the virtual file system (\<^verbatim>\<open>apps/shell/vfs.c\<close>): whatever is opened, closed,
  read, written, moved or asked, every descriptor goes on leading to a live file whose functions fit
  its private data, and no call follows a freed or null pointer.
\<close>

section \<open>Calls and runs of calls\<close>

datatype vfs_call = Open "u8 list" u32 | Close int | Read int u32 u32 | Write int u32 u32
  | Ioctl int int u32 | Lseek int u32 int

text \<open>The state after a call.\<close>

fun do_call :: "'fs fatfs \<Rightarrow> vfs_call \<Rightarrow> 'fs vfs \<Rightarrow> 'fs vfs option" where
  "do_call fat (Open path flags) st = map_option snd (vfs_open fat path flags st)"
| "do_call fat (Close fd) st = map_option snd (vfs_close fat fd st)"
| "do_call fat (Read fd buffer n) st = map_option snd (vfs_read fat fd buffer n st)"
| "do_call fat (Write fd buffer n) st = map_option snd (vfs_write fat fd buffer n st)"
| "do_call fat (Ioctl fd cmd arg) st = map_option snd (vfs_ioctl fd cmd arg st)"
| "do_call fat (Lseek fd offset whence) st = map_option snd (vfs_lseek fat fd offset whence st)"

fun vfs_run :: "'fs fatfs \<Rightarrow> vfs_call list \<Rightarrow> 'fs vfs \<Rightarrow> 'fs vfs option" where
  "vfs_run fat [] st = Some st"
| "vfs_run fat (c # cs) st = Option.bind (do_call fat c st) (vfs_run fat cs)"

text \<open>The calls that wait for a device: reading the console or the serial line, writing the serial line.\<close>

definition has_file :: "'fs vfs \<Rightarrow> int \<Rightarrow> (vfile \<Rightarrow> bool) \<Rightarrow> bool" where
  "has_file st fd P \<longleftrightarrow> (case get_file_from_fd fd st of None \<Rightarrow> False
     | Some f \<Rightarrow> (case v_files st f of None \<Rightarrow> False | Some x \<Rightarrow> P x))"

fun waits_for_device :: "vfs_call \<Rightarrow> 'fs vfs \<Rightarrow> bool" where
  "waits_for_device (Read fd _ _) st = has_file st fd (\<lambda>x. f_read x \<in> {Some tty_read_fn, Some serial_read_fn})"
| "waits_for_device (Write fd _ _) st = has_file st fd (\<lambda>x. f_write x = Some serial_write_fn)"
| "waits_for_device _ st = False"

section \<open>Every call keeps the files in order\<close>

text \<open>A call changes no file but \<open>f\<close>, and leaves that one well formed.\<close>

definition kept :: "nat \<Rightarrow> 'fs vfs \<Rightarrow> 'fs vfs \<Rightarrow> bool" where
  "kept f st st' \<longleftrightarrow> fd_table st' = fd_table st \<and> v_fresh st' = v_fresh st \<and>
     (\<exists>x'. v_files st' = (v_files st)(f := Some x') \<and> file_wf x')"

lemma keptI [intro]:
  assumes "v_files st f = Some x" "file_wf x" "fd_table st' = fd_table st" "v_fresh st' = v_fresh st"
    "v_files st' = v_files st"
  shows "kept f st st'"
  using assms unfolding kept_def by (metis fun_upd_triv)

lemma vfs_ok_kept:
  assumes ok: "vfs_ok st" and f: "v_files st f \<noteq> None" and k: "kept f st st'"
  shows "vfs_ok st'"
proof -
  from k obtain x' where t: "fd_table st' = fd_table st" "v_fresh st' = v_fresh st"
    "v_files st' = (v_files st)(f := Some x')" "file_wf x'" by (auto simp: kept_def)
  have "\<exists>x. v_files st' g = Some x \<and> file_wf x" if "fd_table st i = Some g" for i g
    using vfs_okD(3) [OF ok that] t by auto
  moreover have "g < v_fresh st" if "v_files st' g \<noteq> None" for g
    using that f ok t(3) unfolding vfs_ok_def by (cases "g = f") auto
  ultimately show ?thesis using ok unfolding vfs_ok_def t(1,2) by blast
qed

definition same_table :: "'fs vfs \<Rightarrow> 'fs vfs \<Rightarrow> bool" where
  "same_table st st' \<longleftrightarrow> fd_table st' = fd_table st \<and> v_fresh st' = v_fresh st \<and> v_files st' = v_files st"

lemma same_table_kept: "same_table st st' \<Longrightarrow> v_files st f = Some x \<Longrightarrow> file_wf x \<Longrightarrow> kept f st st'"
  unfolding same_table_def by blast

lemma tty_read_loop_table: "tty_read_loop n buf i st = Some (j, st') \<Longrightarrow> same_table st st'"
  by (induction n arbitrary: i st)
    (auto simp: same_table_def v_putchar_def Let_def split: list.splits if_splits)

lemma tty_write_loop_table: "same_table st (tty_write_loop n data i st)"
  by (induction n arbitrary: i st) (auto simp: same_table_def v_putchar_def Let_def)

lemma read_lsr_table: "read_lsr st = Some (v, st') \<Longrightarrow> same_table st st'"
  by (auto simp: read_lsr_def same_table_def split: list.splits)

lemma serial_putc_table: "serial_putc c st = Some st' \<Longrightarrow> same_table st st'"
proof (induction "s_lsr st" arbitrary: st)
  case Nil
  then show ?case by (subst (asm) serial_putc.simps) (simp add: serial_tx_ready_def read_lsr_def)
next
  case (Cons v vs)
  have r: "serial_tx_ready st = Some (v AND LSR_THRE \<noteq> 0, st\<lparr>s_lsr := vs\<rparr>)"
    using Cons.hyps(2) [symmetric] by (simp add: serial_tx_ready_def read_lsr_def)
  show ?case
  proof (cases "v AND LSR_THRE \<noteq> 0")
    case True
    with Cons.prems r show ?thesis by (subst (asm) serial_putc.simps) (auto simp: same_table_def)
  next
    case False
    with Cons.prems r have "serial_putc c (st\<lparr>s_lsr := vs\<rparr>) = Some st'" by (subst (asm) serial_putc.simps) simp
    from Cons.hyps(1) [OF _ this] show ?thesis by (simp add: same_table_def)
  qed
qed

lemma serial_write_loop_table: "serial_write_loop n data i st = Some st' \<Longrightarrow> same_table st st'"
proof (induction n arbitrary: i st)
  case (Suc n)
  from Suc.prems obtain st1 where
    st1: "serial_putc (v_mem st (data + i)) st = Some st1" "serial_write_loop n data (i + 1) st1 = Some st'"
    by (auto split: option.splits)
  from serial_putc_table [OF st1(1)] Suc.IH [OF st1(2)] show ?case by (simp add: same_table_def)
qed (simp add: same_table_def)

lemma serial_getc_table:
  assumes "serial_getc st = Some (c, st')"
  shows "same_table st st'"
proof (cases "read_lsr st")
  case None
  with assms show ?thesis by (simp add: serial_getc_def serial_rx_ready_def)
next
  case (Some r)
  obtain v st1 where "r = (v, st1)" by fastforce
  with Some have r: "serial_rx_ready st = Some (v AND LSR_DR \<noteq> 0, st1)" and t: "same_table st st1"
    using read_lsr_table by (simp_all add: serial_rx_ready_def)
  have "\<exists>bs. st' = st1 \<or> st' = st1\<lparr>s_rx := bs\<rparr>"
    using assms unfolding serial_getc_def r by (cases "s_rx st1"; cases "v AND LSR_DR \<noteq> 0") auto
  with t show ?thesis by (auto simp: same_table_def)
qed

lemma serial_read_loop_table: "serial_read_loop n buf i st = Some (j, st') \<Longrightarrow> same_table st st'"
proof (induction n arbitrary: i st)
  case (Suc n)
  from Suc.prems obtain c st1 where g: "serial_getc st = Some (c, st1)" by (auto split: option.splits)
  have "same_table st1 st'"
  proof (cases "c < 0")
    case True
    with Suc.prems g show ?thesis by (simp add: same_table_def)
  next
    case False
    with Suc.prems g Suc.IH show ?thesis by (fastforce simp: same_table_def)
  qed
  with serial_getc_table [OF g] show ?case by (simp add: same_table_def)
qed (simp add: same_table_def)

text \<open>What a call through a function pointer of a file may do: wait, if \<open>w\<close>, or keep the files in order.\<close>

definition orderly :: "bool \<Rightarrow> nat \<Rightarrow> 'fs vfs \<Rightarrow> ('r \<times> 'fs vfs) option \<Rightarrow> bool" where
  "orderly w f st r \<longleftrightarrow> (case r of None \<Rightarrow> w | Some (_, st') \<Rightarrow> kept f st st')"

lemma kept_set_file: "same_table st st1 \<Longrightarrow> file_wf x' \<Longrightarrow> kept f st (set_file f x' st1)"
  by (auto simp: kept_def same_table_def set_file_def)

lemma file_wf_position [simp]: "file_wf (x\<lparr>f_position := p\<rparr>) = file_wf x"
  by (simp add: file_wf_def split: private_data.splits)

lemma file_wf_private:
  "f_private x = ProcPrivate d \<Longrightarrow> file_wf x \<Longrightarrow> file_wf (x\<lparr>f_private := ProcPrivate d'\<rparr>)"
  "f_private x = FatPrivate e \<Longrightarrow> file_wf x \<Longrightarrow> file_wf (x\<lparr>f_position := p, f_private := FatPrivate e'\<rparr>)"
  by (simp_all add: file_wf_def)

lemma file_wf_fn:
  assumes "file_wf x"
  shows "f_read x = Some proc_read_fn \<or> f_lseek x = Some proc_lseek_fn \<Longrightarrow> \<exists>d. f_private x = ProcPrivate d"
    "f_read x = Some fat_read_fn \<or> f_write x = Some fat_write_fn \<or> f_lseek x = Some fat_lseek_fn \<Longrightarrow> \<exists>e. f_private x = FatPrivate e"
  using assms by (auto simp: file_wf_def split: private_data.splits)

lemma call_read_orderly:
  assumes x: "v_files st f = Some x" and wf: "file_wf x" and fn: "f_read x = Some fn"
  shows "orderly (fn \<in> {tty_read_fn, serial_read_fn}) f st (call_read fat fn f buffer n st)"
proof (cases fn)
  case null_read_fn
  then show ?thesis using x wf by (auto simp: orderly_def null_read_def)
next
  case zero_read_fn
  then show ?thesis using x wf by (simp add: orderly_def zero_read_def kept_set_file same_table_def)
next
  case tty_read_fn
  then show ?thesis using x wf
    by (auto simp: orderly_def tty_read_def intro!: same_table_kept tty_read_loop_table split: option.splits)
next
  case serial_read_fn
  then show ?thesis using x wf
    by (auto simp: orderly_def serial_read_def intro!: same_table_kept serial_read_loop_table split: option.splits)
next
  case proc_read_fn
  with file_wf_fn(1) [OF wf] fn obtain d where d: "f_private x = ProcPrivate d" by auto
  then show ?thesis using x proc_read_fn keptI [OF x wf]
    by (simp add: orderly_def proc_read_def Let_def kept_set_file same_table_def file_wf_private(1) [OF d wf])
next
  case fat_read_fn
  with file_wf_fn(2) [OF wf] fn obtain e where e: "f_private x = FatPrivate e" by auto
  then show ?thesis using x wf fat_read_fn keptI [OF x wf]
    by (simp add: orderly_def fat_read_def Let_def kept_set_file same_table_def split: prod.split)
qed

lemma call_write_orderly:
  assumes x: "v_files st f = Some x" and wf: "file_wf x" and fn: "f_write x = Some fn"
  shows "orderly (fn = serial_write_fn) f st (call_write fat fn f buffer n st)"
proof (cases fn)
  case tty_write_fn
  then show ?thesis using x wf tty_write_loop_table
    by (auto simp: orderly_def tty_write_def intro!: same_table_kept)
next
  case serial_write_fn
  then show ?thesis using x wf
    by (auto simp: orderly_def serial_write_def intro!: same_table_kept serial_write_loop_table split: option.splits)
next
  case fat_write_fn
  with file_wf_fn(2) [OF wf] fn obtain e where e: "f_private x = FatPrivate e" by auto
  then show ?thesis using x wf fat_write_fn keptI [OF x wf]
    by (simp add: orderly_def fat_write_def Let_def kept_set_file same_table_def v_print_def file_wf_private(2) [OF e wf]
        split: prod.split)
qed (use x wf in \<open>auto simp: orderly_def null_write_def zero_write_def\<close>)

lemma call_lseek_orderly:
  assumes x: "v_files st f = Some x" and wf: "file_wf x" and fn: "f_lseek x = Some fn"
  shows "orderly False f st (call_lseek fat fn f offset whence st)"
proof (cases fn)
  case zero_lseek_fn
  then show ?thesis using x wf keptI [OF x wf]
    by (simp add: orderly_def zero_lseek_def kept_set_file same_table_def)
next
  case proc_lseek_fn
  with file_wf_fn(1) [OF wf] fn obtain d where d: "f_private x = ProcPrivate d" by auto
  then show ?thesis using x proc_lseek_fn keptI [OF x wf]
    by (simp add: orderly_def proc_lseek_def Let_def kept_set_file same_table_def file_wf_private(1) [OF d wf])
next
  case fat_lseek_fn
  with file_wf_fn(2) [OF wf] fn obtain e where e: "f_private x = FatPrivate e" by auto
  then show ?thesis using x wf fat_lseek_fn keptI [OF x wf]
    by (simp add: orderly_def fat_lseek_def Let_def kept_set_file same_table_def split: prod.split)
qed (use x wf in \<open>auto simp: orderly_def null_lseek_def tty_lseek_def serial_lseek_def\<close>)

text \<open>Dispatching through the descriptor table.\<close>

lemma has_file_cases:
  assumes "vfs_ok st" "get_file_from_fd fd st = Some f"
  obtains x where "v_files st f = Some x" "file_wf x" "\<And>P. has_file st fd P = P x"
proof -
  have "fd_table st fd = Some f" using assms(2) by (simp add: get_file_from_fd_def split: if_splits)
  from vfs_okD(3) [OF assms(1) this] obtain x where "v_files st f = Some x" "file_wf x" by blast
  then show ?thesis using assms(2) by (intro that [of x]) (simp_all add: has_file_def)
qed

lemma orderly_ok:
  assumes ok: "vfs_ok st" and x: "v_files st f = Some x" and o: "orderly w f st r"
  shows "case map_option snd r of None \<Rightarrow> w | Some st' \<Rightarrow> vfs_ok st'"
  using o vfs_ok_kept [OF ok, of f] x by (auto simp: orderly_def split: option.splits)

text \<open>The outcome of a call: in order, or a wait for a device.\<close>

definition call_in_order :: "'fs fatfs \<Rightarrow> vfs_call \<Rightarrow> 'fs vfs \<Rightarrow> bool" where
  "call_in_order fat c st \<longleftrightarrow> (case do_call fat c st of None \<Rightarrow> waits_for_device c st | Some st' \<Rightarrow> vfs_ok st')"

lemma read_in_order:
  assumes ok: "vfs_ok st" shows "call_in_order fat (Read fd buffer n) st"
proof (cases "get_file_from_fd fd st")
  case None
  then show ?thesis using ok by (simp add: call_in_order_def vfs_read_def)
next
  case (Some f)
  from has_file_cases [OF ok Some] obtain x where x: "v_files st f = Some x" "file_wf x" "\<And>P. has_file st fd P = P x" by blast
  show ?thesis
  proof (cases "f_read x")
    case None
    then show ?thesis using ok x Some by (simp add: call_in_order_def vfs_read_def)
  next
    case fn: (Some fn)
    have "vfs_read fat fd buffer n st = call_read fat fn f buffer n st" using x fn Some by (simp add: vfs_read_def)
    with orderly_ok [OF ok x(1) call_read_orderly [OF x(1,2) fn, of fat buffer n]] show ?thesis
      using fn by (auto simp: call_in_order_def x(3) split: option.splits)
  qed
qed

lemma write_in_order:
  assumes ok: "vfs_ok st" shows "call_in_order fat (Write fd buffer n) st"
proof (cases "get_file_from_fd fd st")
  case None
  then show ?thesis using ok by (simp add: call_in_order_def vfs_write_def)
next
  case (Some f)
  from has_file_cases [OF ok Some] obtain x where x: "v_files st f = Some x" "file_wf x" "\<And>P. has_file st fd P = P x" by blast
  show ?thesis
  proof (cases "f_write x")
    case None
    then show ?thesis using ok x Some by (simp add: call_in_order_def vfs_write_def)
  next
    case fn: (Some fn)
    have "vfs_write fat fd buffer n st = call_write fat fn f buffer n st" using x fn Some by (simp add: vfs_write_def)
    with orderly_ok [OF ok x(1) call_write_orderly [OF x(1,2) fn, of fat buffer n]] show ?thesis
      using fn by (auto simp: call_in_order_def x(3) split: option.splits)
  qed
qed

lemma lseek_in_order:
  assumes ok: "vfs_ok st" shows "call_in_order fat (Lseek fd offset whence) st"
proof (cases "get_file_from_fd fd st")
  case None
  then show ?thesis using ok by (simp add: call_in_order_def vfs_lseek_def)
next
  case (Some f)
  from has_file_cases [OF ok Some] obtain x where x: "v_files st f = Some x" "file_wf x" by blast
  have "orderly False f st (vfs_lseek fat fd offset whence st)"
  proof (cases "f_lseek x")
    case None
    then show ?thesis using x Some keptI [OF x]
      by (simp add: vfs_lseek_def orderly_def kept_set_file same_table_def)
  next
    case (Some fn)
    then show ?thesis using x \<open>get_file_from_fd fd st = Some f\<close> call_lseek_orderly [OF x Some]
      by (simp add: vfs_lseek_def)
  qed
  from orderly_ok [OF ok x(1) this] show ?thesis by (auto simp: call_in_order_def split: option.splits)
qed

lemma ioctl_in_order:
  assumes ok: "vfs_ok st" shows "call_in_order fat (Ioctl fd cmd arg) st"
proof (cases "get_file_from_fd fd st")
  case None
  then show ?thesis using ok by (simp add: call_in_order_def vfs_ioctl_def)
next
  case (Some f)
  from has_file_cases [OF ok Some] obtain x where x: "v_files st f = Some x" "file_wf x" by blast
  have "orderly False f st (vfs_ioctl fd cmd arg st)"
    using x Some keptI [OF x]
    by (auto simp: vfs_ioctl_def orderly_def tty_ioctl_def v_print_def split: option.split ioctl_fn.split)
  from orderly_ok [OF ok x(1) this] show ?thesis by (auto simp: call_in_order_def split: option.splits)
qed

lemma open_in_order:
  assumes ok: "vfs_ok st" shows "call_in_order fat (Open path flags) st"
proof -
  obtain fd st' where o: "vfs_open fat path flags st = Some (fd, st')"
    "if v_avail st = 0 then fd = - 1 \<and> st' = st
     else fd_result (v_fresh st) st fd st' \<and> v_fresh st < v_fresh st' \<and>
       (fd \<noteq> - 1 \<longrightarrow> balanced (v_fresh st) (v_avail st - 1) st')"
    using vfs_open_result [of fat path flags st] by blast
  then have "vfs_ok st'" using ok vfs_ok_open [OF ok] by (auto split: if_splits)
  with o(1) show ?thesis by (simp add: call_in_order_def)
qed

lemma close_in_order:
  assumes ok: "vfs_ok st" shows "call_in_order fat (Close fd) st"
proof (cases "get_file_from_fd fd st")
  case None
  then show ?thesis using ok by (simp add: call_in_order_def vfs_close_def)
next
  case (Some f)
  then have fd: "fd_table st fd = Some f" by (simp add: get_file_from_fd_def split: if_splits)
  from has_file_cases [OF ok Some] obtain x where "v_files st f = Some x" by blast
  from vfs_close_result [OF ok fd this, of fat] obtain r st' where c: "vfs_close fat fd st = Some (r, st')"
    "fd_table st' = (fd_table st)(fd := None)" "v_files st' = (v_files st)(f := None)" "v_fresh st' = v_fresh st" by blast
  from vfs_ok_close [OF ok fd c(2-4)] c(1) show ?thesis by (simp add: call_in_order_def)
qed

lemma every_call_in_order: "vfs_ok st \<Longrightarrow> call_in_order fat c st"
  by (cases c) (simp_all add: open_in_order close_in_order read_in_order write_in_order ioctl_in_order lseek_in_order)

lemma vfs_run_append: "vfs_run fat (cs @ ds) st = Option.bind (vfs_run fat cs st) (vfs_run fat ds)"
  by (induction cs arbitrary: st) (auto split: bind_splits)

text \<open>
  C16: Any sequence of calls keeps every descriptor leading to a live file of its own whose functions fit
  its private data; a sequence that does not come to its end stands in a call that waits for a
  device: no call follows a freed or null pointer.
\<close>

theorem vfs_calls_well_typed:
  assumes "vfs_ok st"
  shows "case vfs_run fat cs st of Some st' \<Rightarrow> vfs_ok st'
    | None \<Rightarrow> \<exists>ds c es st1. cs = ds @ c # es \<and> vfs_run fat ds st = Some st1 \<and> vfs_ok st1 \<and> waits_for_device c st1"
  using assms
proof (induction cs arbitrary: st)
  case (Cons c cs)
  note o = every_call_in_order [OF Cons.prems, of fat c]
  show ?case
  proof (cases "do_call fat c st")
    case None
    with o have "waits_for_device c st" by (simp add: call_in_order_def)
    with None Cons.prems show ?thesis by (auto intro!: exI [of _ "[]"])
  next
    case (Some st1)
    with o have ok: "vfs_ok st1" by (simp add: call_in_order_def)
    from Cons.IH [OF ok] show ?thesis
    proof (cases "vfs_run fat cs st1")
      case None
      with Cons.IH [OF ok] obtain ds d es st2 where d: "cs = ds @ d # es" "vfs_run fat ds st1 = Some st2" "vfs_ok st2"
        "waits_for_device d st2" by auto
      then have "vfs_run fat (c # ds) st = Some st2" using Some by simp
      with d None Some show ?thesis by (fastforce intro: exI [of _ "c # ds"])
    qed (use Some in auto)
  qed
qed simp

theorem vfs_calls_well_typed_witness:
  "case vfs_run demo_fat [Open (bytes_of ''A.TXT'') O_RDWR, Write 4 0 10, Close 3, Lseek 4 0 1, Close 4] demo_vfs of
     Some st' \<Rightarrow> vfs_ok st'
   | None \<Rightarrow> \<exists>ds c es st1. [Open (bytes_of ''A.TXT'') O_RDWR, Write 4 0 10, Close 3, Lseek 4 0 1, Close 4] = ds @ c # es \<and>
       vfs_run demo_fat ds demo_vfs = Some st1 \<and> vfs_ok st1 \<and> waits_for_device c st1"
  using vfs_calls_well_typed [OF demo_vfs_ok] by blast

end
