(* ===== verification/I2cRtc.thy ===== *)
theory I2cRtc
  imports Prelude
begin

text \<open>
  The clock and the EEPROM of the board (\<^verbatim>\<open>apps/bios/rtc/i2cbb.c\<close>): an I2C bus driven bit by bit through
  the output port of the MC68681 DUART, and the DS3231 and AT24C32 drivers on top of it.  The port is the
  environment: two write-only registers that pull the lines low (\<open>SOPR\<close>) or release them (\<open>ROPR\<close>) and an
  input register that can be read.  \<open>i2c_delay\<close> has no effect on the state.  The time goes through the
  caller's \<open>rtc_time_t\<close>, six bytes of memory.
\<close>

section \<open>The port\<close>

record 'w duart =
  du_sopr :: "u8 \<Rightarrow> 'w \<Rightarrow> 'w"
  du_ropr :: "u8 \<Rightarrow> 'w \<Rightarrow> 'w"
  du_ipr :: "'w \<Rightarrow> u8 \<times> 'w"

definition SCL_BIT :: u8 where "SCL_BIT = 0x20"
definition SDA_OUT_BIT :: u8 where "SDA_OUT_BIT = 0x80"
definition SDA_IN_BIT :: u8 where "SDA_IN_BIT = 0x01"
definition DS3231_ADDR :: u8 where "DS3231_ADDR = 0x68"
definition EEPROM_ADDR :: u8 where "EEPROM_ADDR = 0x50"

definition scl_high :: "'w duart \<Rightarrow> 'w \<Rightarrow> 'w" where "scl_high d = du_ropr d SCL_BIT"
definition scl_low :: "'w duart \<Rightarrow> 'w \<Rightarrow> 'w" where "scl_low d = du_sopr d SCL_BIT"
definition sda_high :: "'w duart \<Rightarrow> 'w \<Rightarrow> 'w" where "sda_high d = du_ropr d SDA_OUT_BIT"
definition sda_low :: "'w duart \<Rightarrow> 'w \<Rightarrow> 'w" where "sda_low d = du_sopr d SDA_OUT_BIT"

definition sda_read :: "'w duart \<Rightarrow> 'w \<Rightarrow> u8 \<times> 'w" where
  "sda_read d w = (let (v, w) = du_ipr d w in (if v AND SDA_IN_BIT \<noteq> 0 then 1 else 0, w))"

section \<open>The bus\<close>

definition i2c_start :: "'w duart \<Rightarrow> 'w \<Rightarrow> 'w" where
  "i2c_start d w =
     (let w = sda_high d w; w = scl_high d w; w = sda_low d w; w = scl_low d w in w)"

definition i2c_stop :: "'w duart \<Rightarrow> 'w \<Rightarrow> 'w" where
  "i2c_stop d w = (let w = sda_low d w; w = scl_high d w; w = sda_high d w in w)"

text \<open>The loops over the eight bits; the argument counts the bits that are left.\<close>

fun write_bits :: "'w duart \<Rightarrow> nat \<Rightarrow> u8 \<Rightarrow> 'w \<Rightarrow> 'w" where
  "write_bits d 0 data w = w"
| "write_bits d (Suc n) data w =
     (let w = (if data AND 0x80 \<noteq> 0 then sda_high d w else sda_low d w);
          w = scl_high d w;
          w = scl_low d w
      in write_bits d n (push_bit 1 data) w)"

definition i2c_write_byte :: "'w duart \<Rightarrow> u8 \<Rightarrow> 'w \<Rightarrow> u8 \<times> 'w" where
  "i2c_write_byte d data w =
     (let w = write_bits d 8 data w;
          w = sda_high d w;
          w = scl_high d w;
          (ack, w) = sda_read d w;
          w = scl_low d w
      in (ack, w))"

fun read_bits :: "'w duart \<Rightarrow> nat \<Rightarrow> u8 \<Rightarrow> 'w \<Rightarrow> u8 \<times> 'w" where
  "read_bits d 0 data w = (data, w)"
| "read_bits d (Suc n) data w =
     (let data = push_bit 1 data;
          w = scl_high d w;
          (v, w) = sda_read d w;
          data = (if v \<noteq> 0 then data OR 1 else data);
          w = scl_low d w
      in read_bits d n data w)"

definition i2c_read_byte :: "'w duart \<Rightarrow> u8 \<Rightarrow> 'w \<Rightarrow> u8 \<times> 'w" where
  "i2c_read_byte d ack w =
     (let w = sda_high d w;
          (data, w) = read_bits d 8 0 w;
          w = (if ack \<noteq> 0 then sda_low d w else sda_high d w);
          w = scl_high d w;
          w = scl_low d w;
          w = sda_high d w
      in (data, w))"

section \<open>The clock\<close>

definition bcd2bin :: "u8 \<Rightarrow> u8" where
  "bcd2bin val = drop_bit 4 val * 10 + (val AND 0x0F)"

definition bin2bcd :: "u8 \<Rightarrow> u8" where
  "bin2bcd val = push_bit 4 (val div 10) OR (val mod 10)"

text \<open>\<open>rtc_time_t\<close>, a packed structure of bytes.\<close>

record rtc_time =
  rt_sec :: u8
  rt_min :: u8
  rt_hour :: u8
  rt_mday :: u8
  rt_mon :: u8
  rt_year :: u8

definition rtc_at :: "mem \<Rightarrow> u32 \<Rightarrow> rtc_time" where
  "rtc_at m t = \<lparr>rt_sec = m t, rt_min = m (t + 1), rt_hour = m (t + 2), rt_mday = m (t + 3), rt_mon = m (t + 4),
     rt_year = m (t + 5)\<rparr>"

definition ds3231_read_time :: "'w duart \<Rightarrow> u32 \<Rightarrow> mem \<times> 'w \<Rightarrow> u8 \<times> mem \<times> 'w" where
  "ds3231_read_time d t st =
     (let (m, w) = st
      in if t = 0 then (1, st) else
         let w = i2c_start d w;
             (nack, w) = i2c_write_byte d (push_bit 1 DS3231_ADDR OR 0) w
         in if nack \<noteq> 0 then (1, m, i2c_stop d w)
            else
              let (_, w) = i2c_write_byte d 0x00 w;
                  w = i2c_start d w;
                  (_, w) = i2c_write_byte d (push_bit 1 DS3231_ADDR OR 1) w;
                  (b, w) = i2c_read_byte d 1 w; m = m(t := bcd2bin (b AND 0x7F));
                  (b, w) = i2c_read_byte d 1 w; m = m(t + 1 := bcd2bin b);
                  (b, w) = i2c_read_byte d 1 w; m = m(t + 2 := bcd2bin (b AND 0x3F));
                  (_, w) = i2c_read_byte d 1 w;
                  (b, w) = i2c_read_byte d 1 w; m = m(t + 3 := bcd2bin b);
                  (b, w) = i2c_read_byte d 1 w; m = m(t + 4 := bcd2bin (b AND 0x1F));
                  (b, w) = i2c_read_byte d 0 w; m = m(t + 5 := bcd2bin b)
              in (0, m, i2c_stop d w))"

definition ds3231_set_time :: "'w duart \<Rightarrow> u32 \<Rightarrow> mem \<times> 'w \<Rightarrow> mem \<times> 'w" where
  "ds3231_set_time d t st =
     (let (m, w) = st
      in if t = 0 then st else
         let w = i2c_start d w;
             (nack, w) = i2c_write_byte d (push_bit 1 DS3231_ADDR OR 0) w
         in if nack \<noteq> 0 then (m, i2c_stop d w)
            else
              let (_, w) = i2c_write_byte d 0x00 w;
                  (_, w) = i2c_write_byte d (bin2bcd (m t)) w;
                  (_, w) = i2c_write_byte d (bin2bcd (m (t + 1))) w;
                  (_, w) = i2c_write_byte d (bin2bcd (m (t + 2))) w;
                  (_, w) = i2c_write_byte d 0x01 w;
                  (_, w) = i2c_write_byte d (bin2bcd (m (t + 3))) w;
                  (_, w) = i2c_write_byte d (bin2bcd (m (t + 4))) w;
                  (_, w) = i2c_write_byte d (bin2bcd (m (t + 5))) w
              in (m, i2c_stop d w))"

section \<open>The EEPROM\<close>

definition eeprom_write_byte :: "'w duart \<Rightarrow> u16 \<Rightarrow> u8 \<Rightarrow> 'w \<Rightarrow> 'w" where
  "eeprom_write_byte d addr data w =
     (let w = i2c_start d w;
          (nack, w) = i2c_write_byte d (push_bit 1 EEPROM_ADDR OR 0) w
      in if nack \<noteq> 0 then i2c_stop d w
         else
           let (_, w) = i2c_write_byte d (ucast (drop_bit 8 addr)) w;
               (_, w) = i2c_write_byte d (ucast (addr AND 0xFF)) w;
               (_, w) = i2c_write_byte d data w
           in i2c_stop d w)"

definition eeprom_read_byte :: "'w duart \<Rightarrow> u16 \<Rightarrow> 'w \<Rightarrow> u8 \<times> 'w" where
  "eeprom_read_byte d addr w =
     (let w = i2c_start d w;
          (nack, w) = i2c_write_byte d (push_bit 1 EEPROM_ADDR OR 0) w
      in if nack \<noteq> 0 then (0xFF, i2c_stop d w)
         else
           let (_, w) = i2c_write_byte d (ucast (drop_bit 8 addr)) w;
               (_, w) = i2c_write_byte d (ucast (addr AND 0xFF)) w;
               w = i2c_start d w;
               (_, w) = i2c_write_byte d (push_bit 1 EEPROM_ADDR OR 1) w;
               (val, w) = i2c_read_byte d 0 w
           in (val, i2c_stop d w))"

section \<open>Detection\<close>

definition ds3231_probe :: "'w duart \<Rightarrow> 'w \<Rightarrow> u8 \<times> 'w" where
  "ds3231_probe d w =
     (let w = i2c_start d w;
          (ack, w) = i2c_write_byte d (push_bit 1 DS3231_ADDR OR 0) w;
          w = i2c_stop d w
      in (if ack = 0 then 1 else 0, w))"

definition rtc_init :: "'w duart \<Rightarrow> 'w \<Rightarrow> u8 \<times> 'w" where
  "rtc_init d w =
     (let w = scl_high d w;
          w = sda_high d w;
          (found, w) = ds3231_probe d w
      in if found = 0 then (0, w)
         else
           let w = i2c_start d w;
               (nack, w) = i2c_write_byte d (push_bit 1 DS3231_ADDR OR 0) w;
               w = (if nack = 0 then
                      (let (_, w) = i2c_write_byte d 0x0E w; (_, w) = i2c_write_byte d 0x00 w in w)
                    else w)
           in (1, i2c_stop d w))"

section \<open>The time stamp of FatFs\<close>

text \<open>\<open>RTC_Time\<close> of \<open>get_fattime.c\<close>; \<open>rtc_read\<close> is the environment's.\<close>

record fat_clock =
  fc_year :: u16
  fc_month :: u8
  fc_day :: u8
  fc_hour :: u8
  fc_min :: u8
  fc_sec :: u8

definition get_fattime :: "fat_clock \<Rightarrow> u32" where
  "get_fattime t =
     push_bit 25 (of_int (uint (fc_year t) - 1980)) OR push_bit 21 (ucast (fc_month t)) OR
     push_bit 16 (ucast (fc_day t)) OR push_bit 11 (ucast (fc_hour t)) OR push_bit 5 (ucast (fc_min t)) OR
     ucast (fc_sec t div 2)"

end
