(* ===== verification/I2cBus.thy ===== *)
theory I2cBus
  imports I2cRtc
begin

text \<open>
  What the I2C driver does on the wire.  A line model plays the part of the bus and of a device on it, as the I2C
  specification has them: it watches the clock and the data line, collects bits into bytes, acknowledges and gives
  bytes bit by bit.  The lemmas show that the bit-banging of \<^verbatim>\<open>i2cbb.c\<close> moves whole bytes over that line; the
  theorems, that the clock returns the time it was set to and the EEPROM the byte it was given, for any device
  that keeps the promises of its data sheet.
\<close>

section \<open>The bus as its devices see it\<close>

text \<open>
  A device is addressed (does it answer?), takes a byte (does it acknowledge?), gives a byte, and is told
  that the transfer is over.
\<close>

record 'd i2c_device =
  dv_address :: "u8 \<Rightarrow> 'd \<Rightarrow> bool \<times> 'd"
  dv_take :: "u8 \<Rightarrow> 'd \<Rightarrow> bool \<times> 'd"
  dv_give :: "'d \<Rightarrow> u8 \<times> 'd"
  dv_stop :: "'d \<Rightarrow> 'd"

datatype after_ack = To_rest | To_take | To_give

datatype i2c_phase = Resting | Taking bool "bool list" | Acking bool after_ack | Giving "bool list" | Hearing bool

record 'd i2c_line =
  ln_scl :: bool
  ln_sda :: bool
  ln_phase :: i2c_phase
  ln_dev :: 'd

definition bits_of :: "u8 \<Rightarrow> bool list" where
  "bits_of b = rev (List.map (bit b) [0..<8])"

definition of_bits :: "bool list \<Rightarrow> u8" where
  "of_bits bs = horner_sum of_bool 2 (rev bs)"

text \<open>The device pulls the data line down to acknowledge and for a bit that is 0.\<close>

fun pulled :: "i2c_phase \<Rightarrow> bool" where
  "pulled (Acking ok nxt) \<longleftrightarrow> ok"
| "pulled (Giving (b # bs)) \<longleftrightarrow> \<not> b"
| "pulled _ \<longleftrightarrow> False"

definition next_byte :: "'d i2c_device \<Rightarrow> 'd \<Rightarrow> i2c_phase \<times> 'd" where
  "next_byte dev d = (let (b, d) = dv_give dev d in (Giving (bits_of b), d))"

fun clock_rises :: "bool \<Rightarrow> i2c_phase \<Rightarrow> i2c_phase" where
  "clock_rises sda (Taking a bs) = (if length bs < 8 then Taking a (bs @ [sda]) else Taking a bs)"
| "clock_rises sda (Hearing h) = Hearing (\<not> sda)"
| "clock_rises sda ph = ph"

fun clock_falls :: "'d i2c_device \<Rightarrow> i2c_phase \<Rightarrow> 'd \<Rightarrow> i2c_phase \<times> 'd" where
  "clock_falls dev (Taking a bs) d =
     (if length bs < 8 then (Taking a bs, d)
      else let (ok, d) = (if a then dv_address dev (of_bits bs) d else dv_take dev (of_bits bs) d)
           in (Acking ok (if \<not> ok then To_rest else if a \<and> last bs then To_give else To_take), d))"
| "clock_falls dev (Acking ok nxt) d =
     (case nxt of To_rest \<Rightarrow> (Resting, d) | To_take \<Rightarrow> (Taking False [], d) | To_give \<Rightarrow> next_byte dev d)"
| "clock_falls dev (Giving bs) d = (if length bs \<le> 1 then (Hearing False, d) else (Giving (tl bs), d))"
| "clock_falls dev (Hearing h) d = (if h then next_byte dev d else (Resting, d))"
| "clock_falls dev Resting d = (Resting, d)"

definition set_scl :: "'d i2c_device \<Rightarrow> bool \<Rightarrow> 'd i2c_line \<Rightarrow> 'd i2c_line" where
  "set_scl dev v w =
     (if v = ln_scl w then w
      else if v then w\<lparr>ln_scl := True, ln_phase := clock_rises (ln_sda w) (ln_phase w)\<rparr>
      else let (ph, d) = clock_falls dev (ln_phase w) (ln_dev w) in w\<lparr>ln_scl := False, ln_phase := ph, ln_dev := d\<rparr>)"

text \<open>A change of the data line while the clock is high starts or stops a transfer.\<close>

definition set_sda :: "'d i2c_device \<Rightarrow> bool \<Rightarrow> 'd i2c_line \<Rightarrow> 'd i2c_line" where
  "set_sda dev v w =
     (if v = ln_sda w then w
      else if \<not> ln_scl w \<or> pulled (ln_phase w) then w\<lparr>ln_sda := v\<rparr>
      else if v then w\<lparr>ln_sda := v, ln_phase := Resting, ln_dev := dv_stop dev (ln_dev w)\<rparr>
      else w\<lparr>ln_sda := v, ln_phase := Taking True []\<rparr>)"

text \<open>The lines on the port; \<open>others\<close> are the input pins that do not belong to the bus.\<close>

definition i2c_port :: "u8 \<Rightarrow> 'd i2c_device \<Rightarrow> 'd i2c_line duart" where
  "i2c_port others dev =
     \<lparr>du_sopr = (\<lambda>v w. let w = (if bit v 5 then set_scl dev False w else w) in if bit v 7 then set_sda dev False w else w),
      du_ropr = (\<lambda>v w. let w = (if bit v 5 then set_scl dev True w else w) in if bit v 7 then set_sda dev True w else w),
      du_ipr = (\<lambda>w. (push_bit 1 (drop_bit 1 others) OR of_bool (ln_sda w \<and> \<not> pulled (ln_phase w)), w))\<rparr>"

section \<open>Bytes as bits\<close>

lemma length_bits_of [simp]: "length (bits_of b) = 8"
  by (simp add: bits_of_def)

lemma of_bits_of [simp]: "of_bits (bits_of b) = b"
proof -
  have "of_bits (bits_of b) = horner_sum of_bool 2 (List.map (bit b) [0..<8])"
    by (simp only: of_bits_def bits_of_def rev_rev_ident)
  also have "\<dots> = take_bit 8 b" by (rule horner_sum_bit_eq_take_bit)
  also have "\<dots> = b" by (rule bit_word_eqI) (simp add: bit_take_bit_iff)
  finally show ?thesis .
qed

lemma bits_of_unfold: "bits_of b = [bit b 7, bit b 6, bit b 5, bit b 4, bit b 3, bit b 2, bit b 1, bit b 0]"
  by (simp add: bits_of_def upt_rec numeral_eq_Suc)

lemma last_bits_of [simp]: "last (bits_of b) = odd b"
  by (simp add: bits_of_unfold bit_0)

lemma top_bit: "(b :: u8) AND 0x80 \<noteq> 0 \<longleftrightarrow> bit b 7"
  using and_exp_eq_0_iff_not_bit [of b 7] by simp

section \<open>The port of the bus\<close>

lemma port_lines [simp]:
  "scl_high (i2c_port others dev) = set_scl dev True" "scl_low (i2c_port others dev) = set_scl dev False"
  "sda_high (i2c_port others dev) = set_sda dev True" "sda_low (i2c_port others dev) = set_sda dev False"
proof -
  have b: "bit (0x20 :: u8) 5" "\<not> bit (0x20 :: u8) 7" "bit (0x80 :: u8) 7" "\<not> bit (0x80 :: u8) 5" by code_simp+
  show "scl_high (i2c_port others dev) = set_scl dev True" "scl_low (i2c_port others dev) = set_scl dev False"
    "sda_high (i2c_port others dev) = set_sda dev True" "sda_low (i2c_port others dev) = set_sda dev False"
    using b by (simp_all add: scl_high_def scl_low_def sda_high_def sda_low_def i2c_port_def SCL_BIT_def SDA_OUT_BIT_def
      Let_def fun_eq_iff)
qed

lemma port_read [simp]:
  "sda_read (i2c_port others dev) w = (of_bool (ln_sda w \<and> \<not> pulled (ln_phase w)), w)"
proof -
  have "(push_bit 1 (drop_bit 1 others) OR of_bool x) AND 1 = (of_bool x :: u8)" for x
    by (cases x) (simp_all add: and_one_eq mod_2_eq_odd even_or_iff)
  then show ?thesis by (simp add: sda_read_def i2c_port_def SDA_IN_BIT_def Let_def)
qed

section \<open>Bits\<close>

definition put_bit :: "'d i2c_device \<Rightarrow> bool \<Rightarrow> 'd i2c_line \<Rightarrow> 'd i2c_line" where
  "put_bit dev v w = set_scl dev False (set_scl dev True (set_sda dev v w))"

lemma write_bits_fold:
  "write_bits (i2c_port others dev) n data w = fold (put_bit dev) (List.map (\<lambda>k. bit (push_bit k data) 7) [0..<n]) w"
proof (induction n arbitrary: data w)
  case 0
  then show ?case by simp
next
  case (Suc n)
  have "[0..<Suc n] = 0 # List.map Suc [0..<n]" by (simp only: upt_conv_Cons map_Suc_upt zero_less_Suc)
  moreover have "push_bit k (push_bit 1 data) = push_bit (Suc k) data" for k by simp
  ultimately show ?case
    by (simp add: Suc.IH put_bit_def top_bit o_def Let_def del: push_bit_push_bit push_bit_Suc)
qed

lemma write_bits_byte:
  "write_bits (i2c_port others dev) 8 data w = fold (put_bit dev) (bits_of data) w"
proof -
  have "List.map (\<lambda>k. bit (push_bit k data) 7) [0..<8] = bits_of data"
    by (simp add: bits_of_unfold upt_rec bit_push_bit_iff)
  then show ?thesis by (simp only: write_bits_fold)
qed

text \<open>With the clock low a bit is put on the line and taken by whoever listens.\<close>

lemma put_bit_taken:
  assumes "\<not> ln_scl w" "ln_phase w = Taking a bs" "length bs < 7"
  shows "put_bit dev v w = w\<lparr>ln_sda := v, ln_phase := Taking a (bs @ [v])\<rparr>"
  using assms by (cases w) (auto simp: put_bit_def set_scl_def set_sda_def)

lemma put_last_bit:
  assumes "\<not> ln_scl w" "ln_phase w = Taking a bs" "length bs = 7"
    and "(if a then dv_address dev (of_bits (bs @ [v])) (ln_dev w) else dv_take dev (of_bits (bs @ [v])) (ln_dev w)) = (ok, d)"
  shows "put_bit dev v w = w\<lparr>ln_sda := v,
     ln_phase := Acking ok (if \<not> ok then To_rest else if a \<and> v then To_give else To_take), ln_dev := d\<rparr>"
proof -
  have "set_scl dev True (set_sda dev v w) = w\<lparr>ln_sda := v, ln_scl := True, ln_phase := Taking a (bs @ [v])\<rparr>"
    using assms(1-3) by (simp add: set_scl_def set_sda_def)
  then show ?thesis
    using assms by (simp add: put_bit_def set_scl_def)
qed

lemma put_bits_taken:
  assumes "\<not> ln_scl w" "ln_phase w = Taking a bs" "length bs + length vs < 8"
  shows "fold (put_bit dev) vs w = w\<lparr>ln_sda := last (ln_sda w # vs), ln_phase := Taking a (bs @ vs)\<rparr>"
  using assms
proof (induction vs arbitrary: w bs)
  case Nil
  then show ?case by simp
next
  case (Cons v vs)
  then show ?case by (simp add: put_bit_taken)
qed

lemma put_bit_resting:
  assumes "\<not> ln_scl w" "ln_phase w = Resting"
  shows "put_bit dev v w = w\<lparr>ln_sda := v\<rparr>"
  using assms by (cases w) (auto simp: put_bit_def set_scl_def set_sda_def)

lemma put_bits_resting:
  assumes "\<not> ln_scl w" "ln_phase w = Resting"
  shows "fold (put_bit dev) vs w = w\<lparr>ln_sda := last (ln_sda w # vs)\<rparr>"
  using assms by (induction vs arbitrary: w) (auto simp: put_bit_resting)

section \<open>Bytes\<close>

text \<open>What becomes of a byte: nobody listens, or the device is addressed, or it takes the byte.\<close>

fun byte_sent :: "'d i2c_device \<Rightarrow> u8 \<Rightarrow> i2c_phase \<Rightarrow> 'd \<Rightarrow> bool \<times> i2c_phase \<times> 'd" where
  "byte_sent dev b (Taking a bs) d =
     (let (ok, d) = (if a then dv_address dev b d else dv_take dev b d)
      in if \<not> ok then (False, Resting, d)
         else if a \<and> odd b then (True, next_byte dev d)
         else (True, Taking False [], d))"
| "byte_sent dev b ph d = (False, ph, d)"

fun between_bytes :: "i2c_phase \<Rightarrow> bool" where
  "between_bytes (Taking a bs) \<longleftrightarrow> bs = []"
| "between_bytes ph \<longleftrightarrow> ph = Resting"

lemma i2c_write_byte_sent:
  assumes "\<not> ln_scl w" "between_bytes (ln_phase w)" "byte_sent dev b (ln_phase w) (ln_dev w) = (ok, ph, d)"
  shows "i2c_write_byte (i2c_port others dev) b w = (of_bool (\<not> ok), w\<lparr>ln_sda := True, ln_phase := ph, ln_dev := d\<rparr>)"
proof (cases "ln_phase w")
  case (Taking a bs)
  have l: "bits_of b = butlast (bits_of b) @ [odd b]"
    by (simp add: bits_of_unfold bit_0)
  have q: "of_bits (butlast (bits_of b) @ [odd b]) = b" unfolding l [symmetric] by (rule of_bits_of)
  obtain ok' d' where t: "(if a then dv_address dev b (ln_dev w) else dv_take dev b (ln_dev w)) = (ok', d')" by fastforce
  let ?w = "w\<lparr>ln_sda := last (ln_sda w # butlast (bits_of b)), ln_phase := Taking a (butlast (bits_of b))\<rparr>"
  have "fold (put_bit dev) (bits_of b) w = put_bit dev (odd b) ?w"
    using assms Taking by (subst l) (simp add: put_bits_taken)
  also have "\<dots> = w\<lparr>ln_sda := odd b,
     ln_phase := Acking ok' (if \<not> ok' then To_rest else if a \<and> odd b then To_give else To_take), ln_dev := d'\<rparr>"
    using assms t q by (subst put_last_bit [where ok = ok' and d = d']) auto
  finally have p: "fold (put_bit dev) (bits_of b) w = w\<lparr>ln_sda := odd b,
     ln_phase := Acking ok' (if \<not> ok' then To_rest else if a \<and> odd b then To_give else To_take), ln_dev := d'\<rparr>" .
  have r: "i2c_write_byte (i2c_port others dev) b w =
      (of_bool (\<not> ok'), set_scl dev False (w\<lparr>ln_sda := True, ln_scl := True,
        ln_phase := Acking ok' (if \<not> ok' then To_rest else if a \<and> odd b then To_give else To_take), ln_dev := d'\<rparr>))"
    using assms(1) by (simp add: i2c_write_byte_def Let_def write_bits_byte p set_scl_def set_sda_def)
  show ?thesis
    using assms(1,3) Taking t unfolding r
    by (auto simp: set_scl_def split: prod.splits if_splits)
qed (use assms in \<open>auto simp: i2c_write_byte_def Let_def write_bits_byte put_bits_resting set_scl_def set_sda_def\<close>)

lemma i2c_start_line:
  assumes "ln_phase w = Resting \<or> ln_phase w = Taking a bs" "ln_scl w \<Longrightarrow> ln_sda w"
  shows "i2c_start (i2c_port others dev) w = w\<lparr>ln_scl := False, ln_sda := False, ln_phase := Taking True []\<rparr>"
  using assms by (cases w) (auto simp: i2c_start_def Let_def set_scl_def set_sda_def)

lemma i2c_stop_line:
  assumes "\<not> ln_scl w" "between_bytes (ln_phase w)"
  shows "i2c_stop (i2c_port others dev) w =
    w\<lparr>ln_scl := True, ln_sda := True, ln_phase := Resting, ln_dev := dv_stop dev (ln_dev w)\<rparr>"
  using assms by (cases w; cases "ln_phase w") (auto simp: i2c_stop_def Let_def set_scl_def set_sda_def)

lemma of_bits_foldl: "foldl (\<lambda>v x. push_bit 1 v OR of_bool x) 0 bs = of_bits bs"
proof (induction bs rule: rev_induct)
  case Nil
  then show ?case by (simp add: of_bits_def)
next
  case (snoc x bs)
  have "push_bit 1 v OR of_bool x = of_bool x + push_bit 1 v" for v :: u8
    by (cases x) (simp_all add: or_one_eq)
  then show ?case using snoc by (simp add: of_bits_def)
qed

lemma read_bits_given:
  assumes "bs \<noteq> []" "\<not> ln_scl w" "ln_sda w" "ln_phase w = Giving bs"
  shows "read_bits (i2c_port others dev) (length bs) data w =
    (foldl (\<lambda>v x. push_bit 1 v OR of_bool x) data bs, w\<lparr>ln_phase := Hearing False\<rparr>)"
  using assms
proof (induction bs arbitrary: data w)
  case Nil
  then show ?case by simp
next
  case (Cons b bs)
  show ?case
  proof (cases "bs = []")
    case True
    with Cons.prems show ?thesis by (cases w) (auto simp: Let_def set_scl_def)
  next
    case False
    with Cons.prems Cons.IH [of "w\<lparr>ln_phase := Giving bs\<rparr>"] show ?thesis
      by (cases w; cases bs) (auto simp: Let_def set_scl_def)
  qed
qed

lemma i2c_read_byte_given:
  assumes "\<not> ln_scl w" "ln_phase w = Giving (bits_of b)"
    and "(if ack \<noteq> 0 then next_byte dev (ln_dev w) else (Resting, ln_dev w)) = (ph, d)"
  shows "i2c_read_byte (i2c_port others dev) ack w = (b, w\<lparr>ln_sda := True, ln_phase := ph, ln_dev := d\<rparr>)"
proof -
  have l: "bits_of b \<noteq> []" "length (bits_of b) = 8" by (simp_all add: bits_of_unfold)
  have r: "read_bits (i2c_port others dev) 8 0 w' = (b, w'\<lparr>ln_phase := Hearing False\<rparr>)"
    if "\<not> ln_scl w'" "ln_sda w'" "ln_phase w' = Giving (bits_of b)" for w'
    using read_bits_given [OF l(1) that, of others dev 0] of_bits_foldl [of "bits_of b"] by (simp only: l of_bits_of)
  have h: "set_scl dev True (set_sda dev v (w\<lparr>ln_sda := True, ln_phase := Hearing False\<rparr>)) =
      w\<lparr>ln_scl := True, ln_sda := v, ln_phase := Hearing (\<not> v)\<rparr>" for v
    using assms(1) by (cases v) (simp_all add: set_scl_def set_sda_def)
  have f: "set_scl dev False (w\<lparr>ln_scl := True, ln_sda := v, ln_phase := Hearing (\<not> v)\<rparr>) =
      w\<lparr>ln_sda := v, ln_phase := fst (if \<not> v then next_byte dev (ln_dev w) else (Resting, ln_dev w)),
        ln_dev := snd (if \<not> v then next_byte dev (ln_dev w) else (Resting, ln_dev w))\<rparr>" for v
    using assms(1) by (cases v) (simp_all add: set_scl_def split: prod.splits)
  have u: "set_sda dev True w = w\<lparr>ln_sda := True\<rparr>"
    using assms(1) by (simp add: set_sda_def)
  show ?thesis
  proof (cases "ack = 0")
    case True
    then show ?thesis
      using assms h [of True] f [of True] r [of "w\<lparr>ln_sda := True\<rparr>"]
      by (simp add: i2c_read_byte_def Let_def u) (simp add: set_sda_def)
  next
    case False
    then show ?thesis
      using assms h [of False] f [of False] r [of "w\<lparr>ln_sda := True\<rparr>"]
      by (simp add: i2c_read_byte_def Let_def u) (simp add: set_sda_def)
  qed
qed

section \<open>The clock on the bus\<close>

text \<open>
  What the data sheet of the DS3231 promises of a device at address \<open>addr\<close>: it answers its address; after
  the address for writing, the first byte chooses a register and the others are stored in one register
  after the other; after the address for reading it gives the registers in turn.  \<open>regs\<close>, \<open>ptr\<close> and \<open>sel\<close>
  (a register number is expected) are observations of its state; no second passes in between.
\<close>

definition register_chip :: "'d i2c_device \<Rightarrow> u8 \<Rightarrow> ('d \<Rightarrow> u8 \<Rightarrow> u8) \<Rightarrow> ('d \<Rightarrow> u8) \<Rightarrow> ('d \<Rightarrow> bool) \<Rightarrow> bool" where
  "register_chip dev addr regs ptr sel \<longleftrightarrow>
     (\<forall>d. \<exists>d'. dv_address dev (push_bit 1 addr) d = (True, d') \<and> regs d' = regs d \<and> sel d') \<and>
     (\<forall>d. \<exists>d'. dv_address dev (push_bit 1 addr OR 1) d = (True, d') \<and> regs d' = regs d \<and> ptr d' = ptr d) \<and>
     (\<forall>d b. sel d \<longrightarrow> (\<exists>d'. dv_take dev b d = (True, d') \<and> regs d' = regs d \<and> ptr d' = b \<and> \<not> sel d')) \<and>
     (\<forall>d b. \<not> sel d \<longrightarrow> (\<exists>d'. dv_take dev b d = (True, d') \<and> regs d' = (regs d)(ptr d := b) \<and> ptr d' = ptr d + 1 \<and> \<not> sel d')) \<and>
     (\<forall>d. \<exists>d'. dv_give dev d = (regs d (ptr d), d') \<and> regs d' = regs d \<and> ptr d' = ptr d + 1) \<and>
     (\<forall>d. regs (dv_stop dev d) = regs d)"

text \<open>The line between two transfers, and a device on it that waits for its next byte.\<close>

definition line_idle :: "'d i2c_line \<Rightarrow> bool" where
  "line_idle w \<longleftrightarrow> ln_scl w \<and> ln_sda w \<and> ln_phase w = Resting"

definition at_take :: "bool \<Rightarrow> 'd i2c_line \<Rightarrow> bool" where
  "at_take a w \<longleftrightarrow> \<not> ln_scl w \<and> ln_phase w = Taking a []"

definition at_give :: "('d \<Rightarrow> u8 \<Rightarrow> u8) \<Rightarrow> ('d \<Rightarrow> u8) \<Rightarrow> u8 \<Rightarrow> 'd i2c_line \<Rightarrow> bool" where
  "at_give regs ptr p w \<longleftrightarrow> \<not> ln_scl w \<and> ln_phase w = Giving (bits_of (regs (ln_dev w) p)) \<and> ptr (ln_dev w) = p + 1"

lemma start_idle:
  assumes "line_idle w"
  shows "\<exists>w'. i2c_start (i2c_port others dev) w = w' \<and> at_take True w' \<and> ln_dev w' = ln_dev w"
  using assms i2c_start_line [of w] by (auto simp: line_idle_def at_take_def)

lemma start_again:
  assumes "at_take False w"
  shows "\<exists>w'. i2c_start (i2c_port others dev) w = w' \<and> at_take True w' \<and> ln_dev w' = ln_dev w"
  using assms i2c_start_line [of w] by (auto simp: at_take_def)

lemma stop_line:
  assumes "at_take a w \<or> \<not> ln_scl w \<and> ln_phase w = Resting"
  shows "\<exists>w'. i2c_stop (i2c_port others dev) w = w' \<and> line_idle w' \<and> ln_dev w' = dv_stop dev (ln_dev w)"
  using assms i2c_stop_line [of w] by (auto simp: line_idle_def at_take_def)

lemma write_addressed:
  assumes "at_take True w" "dv_address dev b (ln_dev w) = (True, d)" "even b"
  shows "\<exists>w'. i2c_write_byte (i2c_port others dev) b w = (0, w') \<and> at_take False w' \<and> ln_dev w' = d"
  using assms i2c_write_byte_sent [of w dev b True "Taking False []" d others] by (simp add: at_take_def)

lemma write_taken:
  assumes "at_take False w" "dv_take dev b (ln_dev w) = (True, d)"
  shows "\<exists>w'. i2c_write_byte (i2c_port others dev) b w = (0, w') \<and> at_take False w' \<and> ln_dev w' = d"
  using assms i2c_write_byte_sent [of w dev b True "Taking False []" d others] by (simp add: at_take_def)

lemma write_addressed_read:
  assumes "at_take True w" "dv_address dev b (ln_dev w) = (True, d)" "odd b" "dv_give dev d = (c, d')"
  shows "\<exists>w'. i2c_write_byte (i2c_port others dev) b w = (0, w') \<and> \<not> ln_scl w' \<and> ln_phase w' = Giving (bits_of c) \<and> ln_dev w' = d'"
  using assms i2c_write_byte_sent [of w dev b True "Giving (bits_of c)" d' others] by (simp add: at_take_def next_byte_def)

lemma read_last:
  assumes "\<not> ln_scl w" "ln_phase w = Giving (bits_of c)"
  shows "\<exists>w'. i2c_read_byte (i2c_port others dev) 0 w = (c, w') \<and> (\<not> ln_scl w' \<and> ln_phase w' = Resting) \<and> ln_dev w' = ln_dev w"
  using i2c_read_byte_given [of w c 0 dev Resting "ln_dev w" others] assms by simp

lemma address_parity: "even (push_bit 1 addr OR 0 :: u8)" "odd (push_bit 1 addr OR 1 :: u8)"
  by (simp_all add: even_or_iff)

lemma chip_select:
  assumes "register_chip dev addr regs ptr sel" "at_take True w"
  shows "\<exists>w'. i2c_write_byte (i2c_port others dev) (push_bit 1 addr OR 0) w = (0, w') \<and> at_take False w' \<and>
    regs (ln_dev w') = regs (ln_dev w) \<and> sel (ln_dev w')"
proof -
  from assms(1) obtain d where d: "dv_address dev (push_bit 1 addr OR 0) (ln_dev w) = (True, d)" "regs d = regs (ln_dev w)" "sel d"
    unfolding register_chip_def or.right_neutral by meson
  from write_addressed [OF assms(2) d(1) address_parity(1)] d(2,3) show ?thesis by metis
qed

lemma chip_select_read:
  assumes "register_chip dev addr regs ptr sel" "at_take True w" "ptr (ln_dev w) = p"
  shows "\<exists>w'. i2c_write_byte (i2c_port others dev) (push_bit 1 addr OR 1) w = (0, w') \<and> at_give regs ptr p w' \<and>
    regs (ln_dev w') = regs (ln_dev w)"
proof -
  from assms(1) obtain d where d: "dv_address dev (push_bit 1 addr OR 1) (ln_dev w) = (True, d)" "regs d = regs (ln_dev w)"
    "ptr d = ptr (ln_dev w)" unfolding register_chip_def by meson
  from assms(1) obtain d' where g: "dv_give dev d = (regs d (ptr d), d')" "regs d' = regs d" "ptr d' = ptr d + 1"
    unfolding register_chip_def by meson
  from write_addressed_read [OF assms(2) d(1) address_parity(2) g(1), of others] assms(3) d(2,3) g(2,3)
  show ?thesis unfolding at_give_def by auto
qed

lemma chip_pointer:
  assumes "register_chip dev addr regs ptr sel" "at_take False w" "sel (ln_dev w)"
  shows "\<exists>w'. i2c_write_byte (i2c_port others dev) b w = (0, w') \<and> at_take False w' \<and>
    regs (ln_dev w') = regs (ln_dev w) \<and> ptr (ln_dev w') = b \<and> \<not> sel (ln_dev w')"
proof -
  from assms(1,3) obtain d where d: "dv_take dev b (ln_dev w) = (True, d)" "regs d = regs (ln_dev w)" "ptr d = b" "\<not> sel d"
    unfolding register_chip_def by meson
  from write_taken [OF assms(2) d(1), of others] d(2-4) show ?thesis by auto
qed

lemma chip_store:
  assumes "register_chip dev addr regs ptr sel" "at_take False w" "\<not> sel (ln_dev w)" "ptr (ln_dev w) = p"
  shows "\<exists>w'. i2c_write_byte (i2c_port others dev) b w = (0, w') \<and> at_take False w' \<and>
    regs (ln_dev w') = (regs (ln_dev w))(p := b) \<and> ptr (ln_dev w') = p + 1 \<and> \<not> sel (ln_dev w')"
proof -
  from assms(1,3) obtain d where d: "dv_take dev b (ln_dev w) = (True, d)" "regs d = (regs (ln_dev w))(ptr (ln_dev w) := b)"
    "ptr d = ptr (ln_dev w) + 1" "\<not> sel d" unfolding register_chip_def by meson
  from write_taken [OF assms(2) d(1), of others] assms(4) d(2-4) show ?thesis by auto
qed

lemma chip_read_on:
  assumes "register_chip dev addr regs ptr sel" "at_give regs ptr p w"
  shows "\<exists>w'. i2c_read_byte (i2c_port others dev) 1 w = (regs (ln_dev w) p, w') \<and> at_give regs ptr (p + 1) w' \<and>
    regs (ln_dev w') = regs (ln_dev w)"
proof -
  from assms(1) obtain d where d: "dv_give dev (ln_dev w) = (regs (ln_dev w) (ptr (ln_dev w)), d)" "regs d = regs (ln_dev w)"
    "ptr d = ptr (ln_dev w) + 1" unfolding register_chip_def by meson
  with assms(2) have "(if (1 :: u8) \<noteq> 0 then next_byte dev (ln_dev w) else (Resting, ln_dev w)) = (Giving (bits_of (regs (ln_dev w) (p + 1))), d)"
    by (simp add: next_byte_def at_give_def)
  from i2c_read_byte_given [OF _ _ this] assms(2) d show ?thesis by (simp add: at_give_def)
qed

text \<open>Setting the clock stores the fields in BCD; reading it delivers what the registers hold.\<close>

lemma set_time_registers:
  assumes chip: "register_chip dev DS3231_ADDR regs ptr sel" and "line_idle w" "t \<noteq> 0"
  shows "\<exists>w'. ds3231_set_time (i2c_port others dev) t (m, w) = (m, w') \<and> line_idle w' \<and>
    regs (ln_dev w') = (regs (ln_dev w))(0 := bin2bcd (m t), 1 := bin2bcd (m (t + 1)), 2 := bin2bcd (m (t + 2)), 3 := 1,
      4 := bin2bcd (m (t + 3)), 5 := bin2bcd (m (t + 4)), 6 := bin2bcd (m (t + 5)))"
proof -
  let ?p = "i2c_port others dev"
  obtain w0 where w0: "i2c_start ?p w = w0" "at_take True w0" "ln_dev w0 = ln_dev w"
    using start_idle [OF assms(2)] by blast
  obtain w1 where w1: "i2c_write_byte ?p (push_bit 1 DS3231_ADDR OR 0) w0 = (0, w1)" "at_take False w1"
    "regs (ln_dev w1) = regs (ln_dev w)" "sel (ln_dev w1)" using chip_select [OF chip w0(2)] w0(3) by metis
  obtain w2 where w2: "i2c_write_byte ?p 0 w1 = (0, w2)" "at_take False w2" "regs (ln_dev w2) = regs (ln_dev w)"
    "ptr (ln_dev w2) = 0" "\<not> sel (ln_dev w2)" using chip_pointer [OF chip w1(2,4)] w1(3) by metis
  note store = chip_store [OF chip, where others = others]
  obtain w3 where w3: "i2c_write_byte ?p (bin2bcd (m t)) w2 = (0, w3)" "at_take False w3" "\<not> sel (ln_dev w3)"
    "ptr (ln_dev w3) = 1" "regs (ln_dev w3) = (regs (ln_dev w2))(0 := bin2bcd (m t))" using store [OF w2(2,5,4)] by force
  obtain w4 where w4: "i2c_write_byte ?p (bin2bcd (m (t + 1))) w3 = (0, w4)" "at_take False w4" "\<not> sel (ln_dev w4)"
    "ptr (ln_dev w4) = 2" "regs (ln_dev w4) = (regs (ln_dev w3))(1 := bin2bcd (m (t + 1)))" using store [OF w3(2-4)] by force
  obtain w5 where w5: "i2c_write_byte ?p (bin2bcd (m (t + 2))) w4 = (0, w5)" "at_take False w5" "\<not> sel (ln_dev w5)"
    "ptr (ln_dev w5) = 3" "regs (ln_dev w5) = (regs (ln_dev w4))(2 := bin2bcd (m (t + 2)))" using store [OF w4(2-4)] by force
  obtain w6 where w6: "i2c_write_byte ?p 1 w5 = (0, w6)" "at_take False w6" "\<not> sel (ln_dev w6)"
    "ptr (ln_dev w6) = 4" "regs (ln_dev w6) = (regs (ln_dev w5))(3 := 1)" using store [OF w5(2-4)] by force
  obtain w7 where w7: "i2c_write_byte ?p (bin2bcd (m (t + 3))) w6 = (0, w7)" "at_take False w7" "\<not> sel (ln_dev w7)"
    "ptr (ln_dev w7) = 5" "regs (ln_dev w7) = (regs (ln_dev w6))(4 := bin2bcd (m (t + 3)))" using store [OF w6(2-4)] by force
  obtain w8 where w8: "i2c_write_byte ?p (bin2bcd (m (t + 4))) w7 = (0, w8)" "at_take False w8" "\<not> sel (ln_dev w8)"
    "ptr (ln_dev w8) = 6" "regs (ln_dev w8) = (regs (ln_dev w7))(5 := bin2bcd (m (t + 4)))" using store [OF w7(2-4)] by force
  obtain w9 where w9: "i2c_write_byte ?p (bin2bcd (m (t + 5))) w8 = (0, w9)" "at_take False w9"
    "regs (ln_dev w9) = (regs (ln_dev w8))(6 := bin2bcd (m (t + 5)))" using store [OF w8(2-4)] by force
  obtain w' where w': "i2c_stop ?p w9 = w'" "line_idle w'" "ln_dev w' = dv_stop dev (ln_dev w9)" using stop_line w9(2) by blast
  have "regs (ln_dev w') = regs (ln_dev w9)" using chip w'(3) by (simp add: register_chip_def)
  moreover have "ds3231_set_time ?p t (m, w) = (m, w')"
    using assms(3) by (simp add: ds3231_set_time_def w0(1) w1(1) [simplified] w2(1) w3(1) w4(1) w5(1) w6(1) w7(1) w8(1) w9(1) w'(1))
  ultimately show ?thesis using w'(2) by (simp add: w2 w3 w4 w5 w6 w7 w8 w9)
qed

lemma read_time_registers:
  assumes chip: "register_chip dev DS3231_ADDR regs ptr sel" and "line_idle w" "t \<noteq> 0"
  shows "\<exists>w'. ds3231_read_time (i2c_port others dev) t (m, w) =
    (0, m(t := bcd2bin (regs (ln_dev w) 0 AND 0x7F), t + 1 := bcd2bin (regs (ln_dev w) 1), t + 2 := bcd2bin (regs (ln_dev w) 2 AND 0x3F),
      t + 3 := bcd2bin (regs (ln_dev w) 4), t + 4 := bcd2bin (regs (ln_dev w) 5 AND 0x1F), t + 5 := bcd2bin (regs (ln_dev w) 6)), w') \<and>
    line_idle w' \<and> regs (ln_dev w') = regs (ln_dev w)"
proof -
  let ?p = "i2c_port others dev" and ?r = "regs (ln_dev w)"
  obtain w0 where w0: "i2c_start ?p w = w0" "at_take True w0" "ln_dev w0 = ln_dev w"
    using start_idle [OF assms(2)] by blast
  obtain w1 where w1: "i2c_write_byte ?p (push_bit 1 DS3231_ADDR OR 0) w0 = (0, w1)" "at_take False w1"
    "regs (ln_dev w1) = ?r" "sel (ln_dev w1)" using chip_select [OF chip w0(2)] w0(3) by metis
  obtain w2 where w2: "i2c_write_byte ?p 0 w1 = (0, w2)" "at_take False w2" "regs (ln_dev w2) = ?r"
    "ptr (ln_dev w2) = 0" using chip_pointer [OF chip w1(2,4)] w1(3) by metis
  obtain w3 where w3: "i2c_start ?p w2 = w3" "at_take True w3" "ln_dev w3 = ln_dev w2" using start_again [OF w2(2)] by blast
  have p: "ptr (ln_dev w3) = 0" "regs (ln_dev w3) = ?r" using w3(3) w2(3,4) by simp_all
  obtain w4 where w4: "i2c_write_byte ?p (push_bit 1 DS3231_ADDR OR 1) w3 = (0, w4)" "at_give regs ptr 0 w4"
    "regs (ln_dev w4) = ?r" using chip_select_read [OF chip w3(2) p(1)] p(2) by metis
  note read = chip_read_on [OF chip, where others = others]
  obtain w5 where w5: "i2c_read_byte ?p 1 w4 = (?r 0, w5)" "at_give regs ptr 1 w5" "regs (ln_dev w5) = ?r"
    using read [OF w4(2)] w4(3) by force
  obtain w6 where w6: "i2c_read_byte ?p 1 w5 = (?r 1, w6)" "at_give regs ptr 2 w6" "regs (ln_dev w6) = ?r"
    using read [OF w5(2)] w5(3) by force
  obtain w7 where w7: "i2c_read_byte ?p 1 w6 = (?r 2, w7)" "at_give regs ptr 3 w7" "regs (ln_dev w7) = ?r"
    using read [OF w6(2)] w6(3) by force
  obtain w8 where w8: "i2c_read_byte ?p 1 w7 = (?r 3, w8)" "at_give regs ptr 4 w8" "regs (ln_dev w8) = ?r"
    using read [OF w7(2)] w7(3) by force
  obtain w9 where w9: "i2c_read_byte ?p 1 w8 = (?r 4, w9)" "at_give regs ptr 5 w9" "regs (ln_dev w9) = ?r"
    using read [OF w8(2)] w8(3) by force
  obtain wa where wa: "i2c_read_byte ?p 1 w9 = (?r 5, wa)" "at_give regs ptr 6 wa" "regs (ln_dev wa) = ?r"
    using read [OF w9(2)] w9(3) by force
  obtain wb where wb: "i2c_read_byte ?p 0 wa = (?r 6, wb)" "\<not> ln_scl wb \<and> ln_phase wb = Resting" "ln_dev wb = ln_dev wa"
    using read_last [of wa "?r 6" others dev] wa(2,3) unfolding at_give_def by auto
  obtain w' where w': "i2c_stop ?p wb = w'" "line_idle w'" "ln_dev w' = dv_stop dev (ln_dev wa)"
    using stop_line [of False wb others dev] wb(2,3) by auto
  have "regs (ln_dev w') = ?r" using chip w'(3) wa(3) by (simp add: register_chip_def)
  moreover have "ds3231_read_time ?p t (m, w) =
    (0, m(t := bcd2bin (?r 0 AND 0x7F), t + 1 := bcd2bin (?r 1), t + 2 := bcd2bin (?r 2 AND 0x3F),
      t + 3 := bcd2bin (?r 4), t + 4 := bcd2bin (?r 5 AND 0x1F), t + 5 := bcd2bin (?r 6)), w')"
    using assms(3)
    by (simp add: ds3231_read_time_def w0(1) w1(1) [simplified] w2(1) w3(1) w4(1) [simplified] w5(1) w6(1) w7(1) w8(1) w9(1) wa(1) wb(1) w'(1))
  ultimately show ?thesis using w'(2) by blast
qed

lemma all_small_bytes:
  assumes "list_all P (List.map of_nat [0..<k])" "unat (x :: u8) < k"
  shows "P x"
proof -
  have "x \<in> set (List.map of_nat [0..<k])" using assms(2) by (auto intro!: image_eqI [where x = "unat x"])
  with assms(1) show ?thesis by (simp only: list_all_iff)
qed

lemma bcd_round:
  "x < 100 \<Longrightarrow> bcd2bin (bin2bcd x) = x"
  "x < 60 \<Longrightarrow> bcd2bin (bin2bcd x AND 0x7F) = x"
  "x < 40 \<Longrightarrow> bcd2bin (bin2bcd x AND 0x3F) = x"
  "x < 20 \<Longrightarrow> bcd2bin (bin2bcd x AND 0x1F) = x"
proof -
  have t: "list_all (\<lambda>x. bcd2bin (bin2bcd x) = x) (List.map of_nat [0..<100])"
    "list_all (\<lambda>x. bcd2bin (bin2bcd x AND 0x7F) = x) (List.map of_nat [0..<60])"
    "list_all (\<lambda>x. bcd2bin (bin2bcd x AND 0x3F) = x) (List.map of_nat [0..<40])"
    "list_all (\<lambda>x. bcd2bin (bin2bcd x AND 0x1F) = x) (List.map of_nat [0..<20])" by code_simp+
  show "x < 100 \<Longrightarrow> bcd2bin (bin2bcd x) = x" "x < 60 \<Longrightarrow> bcd2bin (bin2bcd x AND 0x7F) = x"
    "x < 40 \<Longrightarrow> bcd2bin (bin2bcd x AND 0x3F) = x" "x < 20 \<Longrightarrow> bcd2bin (bin2bcd x AND 0x1F) = x"
    using all_small_bytes [OF t(1), of x] all_small_bytes [OF t(2), of x] all_small_bytes [OF t(3), of x]
      all_small_bytes [OF t(4), of x] by (simp_all add: word_less_nat_alt)
qed

definition clock_time :: "rtc_time \<Rightarrow> bool" where
  "clock_time r \<longleftrightarrow> rt_sec r < 60 \<and> rt_min r < 60 \<and> rt_hour r < 24 \<and> rt_mday r < 32 \<and> rt_mon r < 13 \<and> rt_year r < 100"

text \<open>
  C22: The time that is set is the time that is read: bit by bit over the two lines, six fields of a valid
  time go to the registers of the clock and come back into the six bytes of the reader, and the lines
  are free again.
\<close>

theorem clock_keeps_time:
  assumes chip: "register_chip dev DS3231_ADDR regs ptr sel" and idle: "line_idle w" and null: "t \<noteq> 0" "t' \<noteq> 0"
    and time: "clock_time (rtc_at m t)"
  shows "\<exists>w1 w2 m2. ds3231_set_time (i2c_port others dev) t (m, w) = (m, w1) \<and>
    ds3231_read_time (i2c_port others dev) t' (m', w1) = (0, m2, w2) \<and>
    m2 = wr_bytes m' t' (rd_bytes m t 6) \<and> rtc_at m2 t' = rtc_at m t \<and> line_idle w2"
proof -
  obtain w1 where w1: "ds3231_set_time (i2c_port others dev) t (m, w) = (m, w1)" "line_idle w1"
    "regs (ln_dev w1) = (regs (ln_dev w))(0 := bin2bcd (m t), 1 := bin2bcd (m (t + 1)), 2 := bin2bcd (m (t + 2)), 3 := 1,
      4 := bin2bcd (m (t + 3)), 5 := bin2bcd (m (t + 4)), 6 := bin2bcd (m (t + 5)))"
    using set_time_registers [OF chip idle null(1)] by blast
  have e: "rd_bytes m t 6 = [m t, m (t + 1), m (t + 2), m (t + 3), m (t + 4), m (t + 5)]"
    by (simp add: numeral_eq_Suc add.assoc)
  have "m (t + 2) < 40" "m (t + 3) < 100" "m (t + 4) < 20" "m (t + 1) < 100"
    using time by (auto simp: clock_time_def rtc_at_def word_less_nat_alt)
  with time w1(3) read_time_registers [OF chip w1(2) null(2), of others m']
  obtain w2 where "ds3231_read_time (i2c_port others dev) t' (m', w1) = (0, wr_bytes m' t' (rd_bytes m t 6), w2)" "line_idle w2"
    unfolding e by (auto simp: bcd_round clock_time_def rtc_at_def add.assoc)
  moreover have "rtc_at (wr_bytes m' t' (rd_bytes m t 6)) t' = rtc_at m t"
    unfolding e by (simp add: rtc_at_def add.assoc)
  ultimately show ?thesis using w1(1) by blast
qed

section \<open>The EEPROM on the bus\<close>

text \<open>
  What the data sheet of the AT24C32 promises: unless a write is under way (\<open>\<not> ready\<close>) it answers its
  address; after the address for writing it takes the two bytes of the cell's address and then a byte for
  the cell; after the address for reading it gives the byte of the cell chosen last.  It has 4096 cells.
\<close>

definition memory_chip :: "'d i2c_device \<Rightarrow> u8 \<Rightarrow> ('d \<Rightarrow> u16 \<Rightarrow> u8) \<Rightarrow> ('d \<Rightarrow> u16) \<Rightarrow> ('d \<Rightarrow> nat) \<Rightarrow> ('d \<Rightarrow> bool) \<Rightarrow> bool" where
  "memory_chip dev addr cells at want ready \<longleftrightarrow>
     (\<forall>d. ready d \<longrightarrow> (\<exists>d'. dv_address dev (push_bit 1 addr) d = (True, d') \<and> cells d' = cells d \<and> want d' = 2 \<and> ready d')) \<and>
     (\<forall>d. ready d \<longrightarrow> (\<exists>d'. dv_address dev (push_bit 1 addr OR 1) d = (True, d') \<and> cells d' = cells d \<and> at d' = at d)) \<and>
     (\<forall>d b. want d = 2 \<longrightarrow> (\<exists>d'. dv_take dev b d = (True, d') \<and> cells d' = cells d \<and> at d' = push_bit 8 (ucast b) \<and> want d' = 1 \<and>
        ready d' = ready d)) \<and>
     (\<forall>d b. want d = 1 \<longrightarrow> (\<exists>d'. dv_take dev b d = (True, d') \<and> cells d' = cells d \<and> at d' = at d OR ucast b \<and> want d' = 0 \<and>
        ready d' = ready d)) \<and>
     (\<forall>d b. want d = 0 \<longrightarrow> (\<exists>d'. dv_take dev b d = (True, d') \<and> cells d' = (cells d)(at d AND 0xFFF := b))) \<and>
     (\<forall>d. \<exists>d'. dv_give dev d = (cells d (at d AND 0xFFF), d') \<and> cells d' = cells d) \<and>
     (\<forall>d. cells (dv_stop dev d) = cells d)"

lemma word_from_halves: "push_bit 8 (ucast (ucast (drop_bit 8 a) :: u8)) OR ucast (ucast (a AND 0xFF) :: u8) = (a :: u16)"
proof -
  have m: "(0xFF :: u16) = mask 8" by (simp add: mask_eq_exp_minus_1)
  show ?thesis unfolding m by (rule bit_word_eqI) (auto simp: bit_simps)
qed

lemma cell_selected:
  assumes chip: "memory_chip dev addr cells at want ready" and "line_idle w" "ready (ln_dev w)"
  shows "\<exists>w0 w1 w2 w3. i2c_start (i2c_port others dev) w = w0 \<and>
    i2c_write_byte (i2c_port others dev) (push_bit 1 addr OR 0) w0 = (0, w1) \<and>
    i2c_write_byte (i2c_port others dev) (ucast (drop_bit 8 a)) w1 = (0, w2) \<and>
    i2c_write_byte (i2c_port others dev) (ucast (a AND 0xFF)) w2 = (0, w3) \<and> at_take False w3 \<and>
    cells (ln_dev w3) = cells (ln_dev w) \<and> at (ln_dev w3) = a \<and> want (ln_dev w3) = 0 \<and> ready (ln_dev w3)"
proof -
  obtain w0 where w0: "i2c_start (i2c_port others dev) w = w0" "at_take True w0" "ln_dev w0 = ln_dev w"
    using start_idle [OF assms(2)] by blast
  from chip assms(3) obtain d1 where d1: "dv_address dev (push_bit 1 addr OR 0) (ln_dev w0) = (True, d1)"
    "cells d1 = cells (ln_dev w)" "want d1 = 2" "ready d1" unfolding memory_chip_def or.right_neutral w0(3) by meson
  obtain w1 where w1: "i2c_write_byte (i2c_port others dev) (push_bit 1 addr OR 0) w0 = (0, w1)" "at_take False w1" "ln_dev w1 = d1"
    using write_addressed [OF w0(2) d1(1) address_parity(1)] by blast
  from chip d1(3) obtain d2 where d2: "dv_take dev (ucast (drop_bit 8 a)) (ln_dev w1) = (True, d2)" "cells d2 = cells d1"
    "at d2 = push_bit 8 (ucast (ucast (drop_bit 8 a) :: u8))" "want d2 = 1" "ready d2 = ready d1" unfolding memory_chip_def w1(3) by meson
  obtain w2 where w2: "i2c_write_byte (i2c_port others dev) (ucast (drop_bit 8 a)) w1 = (0, w2)" "at_take False w2" "ln_dev w2 = d2"
    using write_taken [OF w1(2) d2(1)] by blast
  from chip d2(4) obtain d3 where d3: "dv_take dev (ucast (a AND 0xFF)) (ln_dev w2) = (True, d3)" "cells d3 = cells d2"
    "at d3 = at d2 OR ucast (ucast (a AND 0xFF) :: u8)" "want d3 = 0" "ready d3 = ready d2" unfolding memory_chip_def w2(3) by meson
  obtain w3 where w3: "i2c_write_byte (i2c_port others dev) (ucast (a AND 0xFF)) w2 = (0, w3)" "at_take False w3" "ln_dev w3 = d3"
    using write_taken [OF w2(2) d3(1)] by blast
  have "at d3 = a" unfolding d3(3) d2(3) by (rule word_from_halves)
  with w0(1) w1(1) w2(1) w3 d1 d2 d3 show ?thesis by metis
qed

lemma eeprom_write_stores:
  assumes chip: "memory_chip dev EEPROM_ADDR cells at want ready" and idle: "line_idle w" and ready: "ready (ln_dev w)"
  shows "\<exists>w1. eeprom_write_byte (i2c_port others dev) a b w = w1 \<and> line_idle w1 \<and>
    cells (ln_dev w1) = (cells (ln_dev w))(a AND 0xFFF := b)"
proof -
  let ?p = "i2c_port others dev"
  from cell_selected [OF chip idle ready] obtain w0 w1 w2 w3 where s: "i2c_start ?p w = w0"
    "i2c_write_byte ?p (push_bit 1 EEPROM_ADDR OR 0) w0 = (0, w1)" "i2c_write_byte ?p (ucast (drop_bit 8 a)) w1 = (0, w2)"
    "i2c_write_byte ?p (ucast (a AND 0xFF)) w2 = (0, w3)" "at_take False w3" "cells (ln_dev w3) = cells (ln_dev w)"
    "at (ln_dev w3) = a" "want (ln_dev w3) = 0" by metis
  from chip s(8) obtain d where d: "dv_take dev b (ln_dev w3) = (True, d)" "cells d = (cells (ln_dev w3))(at (ln_dev w3) AND 0xFFF := b)"
    unfolding memory_chip_def by meson
  obtain w4 where w4: "i2c_write_byte ?p b w3 = (0, w4)" "at_take False w4" "ln_dev w4 = d" using write_taken [OF s(5) d(1)] by blast
  obtain w5 where w5: "i2c_stop ?p w4 = w5" "line_idle w5" "ln_dev w5 = dv_stop dev d" using stop_line w4(2,3) by metis
  have "eeprom_write_byte ?p a b w = w5"
    by (simp add: eeprom_write_byte_def s(1) s(2) [simplified] s(3,4) w4(1) w5(1))
  moreover have "cells (ln_dev w5) = (cells (ln_dev w))(a AND 0xFFF := b)"
    using chip d(2) s(6,7) w5(3) by (simp add: memory_chip_def)
  ultimately show ?thesis using w5(2) by blast
qed

lemma eeprom_read_cell:
  assumes chip: "memory_chip dev EEPROM_ADDR cells at want ready" and that: "line_idle w2" "ready (ln_dev w2)"
  shows "\<exists>w3. eeprom_read_byte (i2c_port others dev) a w2 = (cells (ln_dev w2) (a AND 0xFFF), w3) \<and> line_idle w3 \<and>
    cells (ln_dev w3) = cells (ln_dev w2)"
proof -
  let ?p = "i2c_port others dev"
  from cell_selected [OF chip that] obtain u0 u1 u2 u3 where s: "i2c_start ?p w2 = u0"
    "i2c_write_byte ?p (push_bit 1 EEPROM_ADDR OR 0) u0 = (0, u1)" "i2c_write_byte ?p (ucast (drop_bit 8 a)) u1 = (0, u2)"
    "i2c_write_byte ?p (ucast (a AND 0xFF)) u2 = (0, u3)" "at_take False u3" "cells (ln_dev u3) = cells (ln_dev w2)"
    "at (ln_dev u3) = a" "ready (ln_dev u3)" by metis
  obtain u4 where u4: "i2c_start ?p u3 = u4" "at_take True u4" "ln_dev u4 = ln_dev u3" using start_again [OF s(5)] by blast
  from chip s(8) obtain d where d: "dv_address dev (push_bit 1 EEPROM_ADDR OR 1) (ln_dev u4) = (True, d)" "cells d = cells (ln_dev u3)"
    "at d = at (ln_dev u3)" unfolding memory_chip_def u4(3) by meson
  from chip obtain d' where g: "dv_give dev d = (cells d (at d AND 0xFFF), d')" "cells d' = cells d" unfolding memory_chip_def by meson
  obtain u5 where u5: "i2c_write_byte ?p (push_bit 1 EEPROM_ADDR OR 1) u4 = (0, u5)" "\<not> ln_scl u5"
    "ln_phase u5 = Giving (bits_of (cells d (at d AND 0xFFF)))" "ln_dev u5 = d'"
    using write_addressed_read [OF u4(2) d(1) address_parity(2) g(1)] by blast
  obtain u6 where u6: "i2c_read_byte ?p 0 u5 = (cells d (at d AND 0xFFF), u6)" "\<not> ln_scl u6 \<and> ln_phase u6 = Resting"
    "ln_dev u6 = d'" using read_last [OF u5(2,3)] u5(4) by metis
  obtain u7 where u7: "i2c_stop ?p u6 = u7" "line_idle u7" "ln_dev u7 = dv_stop dev d'" using stop_line [of False u6] u6(2,3) by metis
  have "eeprom_read_byte ?p a w2 = (cells d (at d AND 0xFFF), u7)"
    by (simp add: eeprom_read_byte_def s(1) s(2) [simplified] s(3,4) u4(1) u5(1) [simplified] u6(1) u7(1))
  moreover have "cells (ln_dev u7) = cells (ln_dev w2)" using chip u7(3) g(2) d(2) s(6) by (simp add: memory_chip_def)
  ultimately show ?thesis using u7(2) d s(6,7) by metis
qed

text \<open>
  A byte written to the EEPROM is read back from the same address once the chip answers again, every
  other cell keeps its value, and addresses that differ by a multiple of 4096 name the same cell.
\<close>

theorem eeprom_returns_byte:
  assumes chip: "memory_chip dev EEPROM_ADDR cells at want ready" and idle: "line_idle w" and ready: "ready (ln_dev w)"
  shows "\<exists>w1. eeprom_write_byte (i2c_port others dev) a b w = w1 \<and> line_idle w1 \<and>
    cells (ln_dev w1) = (cells (ln_dev w))(a AND 0xFFF := b) \<and>
    (\<forall>w2. line_idle w2 \<and> ready (ln_dev w2) \<and> cells (ln_dev w2) = cells (ln_dev w1) \<longrightarrow>
      (\<exists>w3. eeprom_read_byte (i2c_port others dev) a w2 = (b, w3) \<and> line_idle w3 \<and> cells (ln_dev w3) = cells (ln_dev w1)))"
proof -
  obtain w1 where w1: "eeprom_write_byte (i2c_port others dev) a b w = w1" "line_idle w1"
    "cells (ln_dev w1) = (cells (ln_dev w))(a AND 0xFFF := b)" using eeprom_write_stores [OF chip idle ready] by blast
  have "(cells (ln_dev w1)) (a AND 0xFFF) = b" using w1(3) by simp
  with eeprom_read_cell [OF chip] w1 show ?thesis by metis
qed

section \<open>A clock that is not there\<close>

lemma clock_absent:
  assumes "\<And>b d. dv_address dev b d = (False, d)" "line_idle w" "t \<noteq> 0"
  shows "\<exists>w'. ds3231_read_time (i2c_port others dev) t (m, w) = (1, m, w') \<and> line_idle w'"
    "fst (rtc_init (i2c_port others dev) w) = 0"
proof -
  let ?p = "i2c_port others dev"
  obtain w0 where w0: "i2c_start ?p w = w0" "at_take True w0" using start_idle [OF assms(2)] by blast
  have "byte_sent dev (push_bit 1 DS3231_ADDR OR 0) (ln_phase w0) (ln_dev w0) = (False, Resting, ln_dev w0)"
    using w0(2) assms(1) by (simp add: at_take_def)
  from i2c_write_byte_sent [OF _ _ this, of others] w0(2) obtain w1 where
    w1: "i2c_write_byte ?p (push_bit 1 DS3231_ADDR OR 0) w0 = (1, w1)" "\<not> ln_scl w1 \<and> ln_phase w1 = Resting"
    by (simp add: at_take_def)
  obtain w2 where w2: "i2c_stop ?p w1 = w2" "line_idle w2" using stop_line [of False w1] w1(2) by metis
  show "\<exists>w'. ds3231_read_time ?p t (m, w) = (1, m, w') \<and> line_idle w'"
    using assms(3) w2(2) by (simp add: ds3231_read_time_def w0(1) w1(1) [simplified] w2(1))
  have "set_sda dev True (set_scl dev True w) = w" using assms(2) by (simp add: line_idle_def set_scl_def set_sda_def)
  then show "fst (rtc_init ?p w) = 0"
    by (simp add: rtc_init_def ds3231_probe_def w0(1) w1(1) [simplified] w2(1))
qed

section \<open>The theorems at work\<close>

definition demo_clock_chip :: "((u8 \<Rightarrow> u8) \<times> u8 \<times> bool) i2c_device" where
  "demo_clock_chip = \<lparr>
     dv_address = (\<lambda>b (r, p, s). if b = 0xD0 then (True, r, p, True) else if b = 0xD1 then (True, r, p, s) else (False, r, p, s)),
     dv_take = (\<lambda>b (r, p, s). (True, if s then (r, b, False) else (r(p := b), p + 1, False))),
     dv_give = (\<lambda>(r, p, s). (r p, r, p + 1, s)),
     dv_stop = (\<lambda>d. d)\<rparr>"

definition demo_memory_chip :: "((u16 \<Rightarrow> u8) \<times> u16 \<times> nat) i2c_device" where
  "demo_memory_chip = \<lparr>
     dv_address = (\<lambda>b (c, a, n). if b = 0xA0 then (True, c, a, 2) else if b = 0xA1 then (True, c, a, n) else (False, c, a, n)),
     dv_take = (\<lambda>b (c, a, n). (True, if n = 2 then (c, push_bit 8 (ucast b), 1)
       else if n = 1 then (c, a OR ucast b, 0) else (c(a AND 0xFFF := b), a, 0))),
     dv_give = (\<lambda>(c, a, n). (c (a AND 0xFFF), c, a, n)),
     dv_stop = (\<lambda>d. d)\<rparr>"

definition idle_with :: "'d \<Rightarrow> 'd i2c_line" where
  "idle_with d = \<lparr>ln_scl = True, ln_sda = True, ln_phase = Resting, ln_dev = d\<rparr>"

lemma line_idle_with: "line_idle (idle_with d)" "ln_dev (idle_with d) = d"
  by (simp_all add: line_idle_def idle_with_def)

theorem clock_keeps_time_witness:
  "\<exists>w1 w2 m2. ds3231_set_time (i2c_port 0 demo_clock_chip) 0x100 (wr_bytes (\<lambda>_. 0) 0x100 [59, 30, 23, 31, 12, 26], idle_with (\<lambda>_. 0, 0, False)) =
      (wr_bytes (\<lambda>_. 0) 0x100 [59, 30, 23, 31, 12, 26], w1) \<and>
    ds3231_read_time (i2c_port 0 demo_clock_chip) 0x200 (\<lambda>_. 0, w1) = (0, m2, w2) \<and>
    rtc_at m2 0x200 = \<lparr>rt_sec = 59, rt_min = 30, rt_hour = 23, rt_mday = 31, rt_mon = 12, rt_year = 26\<rparr>"
proof -
  have c: "register_chip demo_clock_chip DS3231_ADDR fst (\<lambda>d. fst (snd d)) (\<lambda>d. snd (snd d))"
    by (auto simp: register_chip_def demo_clock_chip_def DS3231_ADDR_def)
  have r: "rtc_at (wr_bytes (\<lambda>_. 0) 0x100 [59, 30, 23, 31, 12, 26]) 0x100 =
      \<lparr>rt_sec = 59, rt_min = 30, rt_hour = 23, rt_mday = 31, rt_mon = 12, rt_year = 26\<rparr>" by (simp add: rtc_at_def)
  then have t: "clock_time (rtc_at (wr_bytes (\<lambda>_. 0) 0x100 [59, 30, 23, 31, 12, 26]) 0x100)" by (simp add: clock_time_def)
  from clock_keeps_time [OF c line_idle_with(1) [of "(\<lambda>_. 0, 0, False)"] _ _ t, where others = 0 and t' = "0x200" and m' = "\<lambda>_. 0"]
  show ?thesis unfolding r by auto
qed

theorem eeprom_returns_byte_witness:
  "\<exists>w1 w3. eeprom_write_byte (i2c_port 0 demo_memory_chip) 0x1234 0x5A (idle_with (\<lambda>_. 0, 0, 0)) = w1 \<and>
    eeprom_read_byte (i2c_port 0 demo_memory_chip) 0x1234 w1 = (0x5A, w3) \<and> fst (ln_dev w3) 0x234 = 0x5A"
proof -
  have c: "memory_chip demo_memory_chip EEPROM_ADDR fst (\<lambda>d. fst (snd d)) (\<lambda>d. snd (snd d)) (\<lambda>_. True)"
    by (simp add: memory_chip_def demo_memory_chip_def EEPROM_ADDR_def)
  have "(0x1234 :: u16) AND 0xFFF = 0x234" by simp
  with eeprom_returns_byte [OF c line_idle_with(1) [of "(\<lambda>_. 0, 0, 0)"] TrueI, where others = 0 and a = "0x1234" and b = "0x5A"]
  show ?thesis by fastforce
qed

end
