(* ===== verification/DhcpClient.thy ===== *)
theory DhcpClient
  imports Prelude "HOL-Library.Monad_Syntax"
begin

text \<open>
  The DHCP client of the BIOS on the W5100 chip (\<^verbatim>\<open>apps/bios/sys/ethernet/dhcp_client.c\<close>): access to the
  chip's registers, its command register with a time limit, the transmit and receive rings of socket 0,
  the packet builder, the option parser and the DISCOVER/OFFER/REQUEST/ACK exchange.  The chip and the
  tick counter, which an interrupt advances, are the environment; \<open>dh_calls\<close> records the calls of \<open>printf\<close>.
  \<open>None\<close>: a loop that waits for the chip does not end, or a packet is built or read past its buffer.
\<close>

section \<open>State and environment\<close>

record 'w w5100 =
  wz_read :: "u32 \<Rightarrow> 'w \<Rightarrow> u8 \<times> 'w"
  wz_write :: "u32 \<Rightarrow> u8 \<Rightarrow> 'w \<Rightarrow> 'w"
  wz_systick :: "'w \<Rightarrow> u32 \<times> 'w"

record 'w dhcp =
  dh_chip :: 'w
  dh_counter :: u32  \<comment> \<open>\<open>counter\<close> of \<open>next_xid\<close>\<close>
  dh_calls :: "(string \<times> u32 list) list"

definition W5100_BASE :: u32 where "W5100_BASE = 0xFE0000"

definition W5100_REG :: "u32 \<Rightarrow> u32" where
  "W5100_REG offset = W5100_BASE + offset * 2 + 1"

definition W5100_SHAR :: u16 where "W5100_SHAR = 0x0009"
definition W5100_SIPR :: u16 where "W5100_SIPR = 0x000F"
definition S0_MR :: u16 where "S0_MR = 0x0400"
definition S0_CR :: u16 where "S0_CR = 0x0401"
definition S0_SR :: u16 where "S0_SR = 0x0403"
definition S0_PORT :: u16 where "S0_PORT = 0x0404"
definition S0_DIPR :: u16 where "S0_DIPR = 0x040C"
definition S0_DPORT :: u16 where "S0_DPORT = 0x0410"
definition S0_TX_RD :: u16 where "S0_TX_RD = 0x0422"
definition S0_TX_WR :: u16 where "S0_TX_WR = 0x0424"
definition S0_RX_RSR :: u16 where "S0_RX_RSR = 0x0426"
definition S0_RX_RD :: u16 where "S0_RX_RD = 0x0428"
definition W5100_PHYSTATUS :: u16 where "W5100_PHYSTATUS = 0x003C"

definition CR_OPEN :: u8 where "CR_OPEN = 0x01"
definition CR_SEND :: u8 where "CR_SEND = 0x20"
definition CR_RECV :: u8 where "CR_RECV = 0x40"
definition CR_CLOSE :: u8 where "CR_CLOSE = 0x10"

definition S0_TX_BASE :: u16 where "S0_TX_BASE = 0x4000"
definition S0_RX_BASE :: u16 where "S0_RX_BASE = 0x6000"
definition S0_MASK :: u16 where "S0_MASK = 0x07FF"

definition DHCP_DISCOVER :: u8 where "DHCP_DISCOVER = 1"
definition DHCP_OFFER :: u8 where "DHCP_OFFER = 2"
definition DHCP_REQUEST :: u8 where "DHCP_REQUEST = 3"
definition DHCP_ACK :: u8 where "DHCP_ACK = 5"
definition DHCP_NAK :: u8 where "DHCP_NAK = 6"

definition OFF_XID :: nat where "OFF_XID = 4"
definition OFF_FLAGS :: nat where "OFF_FLAGS = 10"
definition OFF_YIADDR :: nat where "OFF_YIADDR = 16"
definition OFF_SIADDR :: nat where "OFF_SIADDR = 20"
definition OFF_CHADDR :: nat where "OFF_CHADDR = 28"
definition OFF_MAGIC :: nat where "OFF_MAGIC = 236"
definition OFF_OPTIONS :: nat where "OFF_OPTIONS = 240"

definition DHCP_PKT_MIN_SIZE :: nat where "DHCP_PKT_MIN_SIZE = 300"
definition DHCP_PKT_BUF_SIZE :: nat where "DHCP_PKT_BUF_SIZE = 320"
definition DHCP_WAIT_TIMEOUT_MS :: u32 where "DHCP_WAIT_TIMEOUT_MS = 30000"

section \<open>Registers\<close>

definition reg_read :: "'w w5100 \<Rightarrow> u32 \<Rightarrow> 'w dhcp \<Rightarrow> u8 \<times> 'w dhcp" where
  "reg_read e offset st = (let (v, w) = wz_read e (W5100_REG offset) (dh_chip st) in (v, st\<lparr>dh_chip := w\<rparr>))"

definition reg_write :: "'w w5100 \<Rightarrow> u32 \<Rightarrow> u8 \<Rightarrow> 'w dhcp \<Rightarrow> 'w dhcp" where
  "reg_write e offset v st = st\<lparr>dh_chip := wz_write e (W5100_REG offset) v (dh_chip st)\<rparr>"

definition w5100_write16 :: "'w w5100 \<Rightarrow> u16 \<Rightarrow> u16 \<Rightarrow> 'w dhcp \<Rightarrow> 'w dhcp" where
  "w5100_write16 e reg val st =
     (let st = reg_write e (ucast reg) (ucast (drop_bit 8 val)) st
      in reg_write e (ucast reg + 1) (ucast val) st)"

definition w5100_read16 :: "'w w5100 \<Rightarrow> u16 \<Rightarrow> 'w dhcp \<Rightarrow> u16 \<times> 'w dhcp" where
  "w5100_read16 e reg st =
     (let (hi, st) = reg_read e (ucast reg) st;
          (lo, st) = reg_read e (ucast reg + 1) st
      in (push_bit 8 (ucast hi) OR ucast lo, st))"

definition w5100_write :: "'w w5100 \<Rightarrow> u16 \<Rightarrow> u8 \<Rightarrow> 'w dhcp \<Rightarrow> 'w dhcp" where
  "w5100_write e reg val st = reg_write e (ucast reg) val st"

definition w5100_read :: "'w w5100 \<Rightarrow> u16 \<Rightarrow> 'w dhcp \<Rightarrow> u8 \<times> 'w dhcp" where
  "w5100_read e reg st = reg_read e (ucast reg) st"

text \<open>The loops that write a few bytes to registers that follow each other.\<close>

fun write_regs :: "'w w5100 \<Rightarrow> u16 \<Rightarrow> u8 list \<Rightarrow> 'w dhcp \<Rightarrow> 'w dhcp" where
  "write_regs e reg [] st = st"
| "write_regs e reg (v # vs) st = write_regs e (reg + 1) vs (w5100_write e reg v st)"

definition w5100_set_mac :: "'w w5100 \<Rightarrow> u8 list \<Rightarrow> 'w dhcp \<Rightarrow> 'w dhcp" where
  "w5100_set_mac e mac st = write_regs e W5100_SHAR (take 6 mac) st"

definition dh_printf :: "string \<Rightarrow> u32 list \<Rightarrow> 'w dhcp \<Rightarrow> 'w dhcp" where
  "dh_printf fmt args st = st\<lparr>dh_calls := dh_calls st @ [(fmt, args)]\<rparr>"

definition get_tick_ms :: "'w w5100 \<Rightarrow> 'w dhcp \<Rightarrow> u32 \<times> 'w dhcp" where
  "get_tick_ms e st = (let (t, w) = wz_systick e (dh_chip st) in (t * 10, st\<lparr>dh_chip := w\<rparr>))"

section \<open>Commands\<close>

partial_function (option) cmd_wait :: "'w w5100 \<Rightarrow> u8 \<Rightarrow> u32 \<Rightarrow> 'w dhcp \<Rightarrow> (int \<times> 'w dhcp) option" where
  "cmd_wait e cmd start st =
     (let (v, st) = reg_read e (ucast S0_CR) st
      in if v = 0 then Some (1, st)
         else let (now, st) = get_tick_ms e st
              in if now - start > 500 then
                   (let (sr, st) = w5100_read e S0_SR st
                    in Some (0, dh_printf (''w5100_cmd(0x%02x) travou! SR=%02x'' @ [CHR 0x0A]) [ucast cmd, ucast sr] st))
                 else cmd_wait e cmd start st)"

definition w5100_cmd :: "'w w5100 \<Rightarrow> u8 \<Rightarrow> 'w dhcp \<Rightarrow> (int \<times> 'w dhcp) option" where
  "w5100_cmd e cmd st =
     (let (start, st) = get_tick_ms e st;
          st = reg_write e (ucast S0_CR) cmd st
      in cmd_wait e cmd start st)"

section \<open>Receiving\<close>

text \<open>The loop over the receive ring: the next \<open>n\<close> bytes from index \<open>i\<close> on.\<close>

fun recv_loop :: "'w w5100 \<Rightarrow> u16 \<Rightarrow> u16 \<Rightarrow> nat \<Rightarrow> 'w dhcp \<Rightarrow> u8 list \<times> 'w dhcp" where
  "recv_loop e ptr i 0 st = ([], st)"
| "recv_loop e ptr i (Suc n) st =
     (let addr = S0_RX_BASE + ((ptr + i) AND S0_MASK);
          (b, st) = reg_read e (ucast addr) st;
          (bs, st) = recv_loop e ptr (i + 1) n st
      in (b # bs, st))"

definition w5100_recv_bytes :: "'w w5100 \<Rightarrow> u16 \<Rightarrow> 'w dhcp \<Rightarrow> (u8 list \<times> 'w dhcp) option" where
  "w5100_recv_bytes e len st =
     (let (ptr, st) = w5100_read16 e S0_RX_RD st;
          (bs, st) = recv_loop e ptr 0 (unat len) st;
          st = w5100_write16 e S0_RX_RD (ptr + len) st
      in do { (_, st) \<leftarrow> w5100_cmd e CR_RECV st; Some (bs, st) })"

partial_function (option) recv_rest :: "'w w5100 \<Rightarrow> u16 \<Rightarrow> 'w dhcp \<Rightarrow> 'w dhcp option" where
  "recv_rest e remaining st =
     (if remaining > 0 then do {
        let chunk = (if remaining < 32 then remaining else 32);
        (_, st) \<leftarrow> w5100_recv_bytes e chunk st;
        recv_rest e (remaining - chunk) st }
      else Some st)"

text \<open>The length that the chip reports, and the buffer.\<close>

definition w5100_recv_udp_packet :: "'w w5100 \<Rightarrow> u8 list \<Rightarrow> 'w dhcp \<Rightarrow> (u16 \<times> u8 list \<times> 'w dhcp) option" where
  "w5100_recv_udp_packet e buf st = do {
     (udp_header, st) \<leftarrow> w5100_recv_bytes e 8 st;
     let data_len = push_bit 8 (ucast (udp_header ! 6)) OR ucast (udp_header ! 7);
     let buf_cap = of_nat (length buf);
     let to_copy = (if data_len < buf_cap then data_len else buf_cap);
     (buf, st) \<leftarrow> (if to_copy > 0 then do {
         (bs, st) \<leftarrow> w5100_recv_bytes e to_copy st;
         Some (bs @ drop (length bs) buf, st) }
       else Some (buf, st));
     st \<leftarrow> recv_rest e (data_len - to_copy) st;
     Some (data_len, buf, st) }"

partial_function (option) w5100_get_rx_size :: "'w w5100 \<Rightarrow> 'w dhcp \<Rightarrow> (u16 \<times> 'w dhcp) option" where
  "w5100_get_rx_size e st =
     (let (val1, st) = w5100_read16 e S0_RX_RSR st;
          (val2, st) = (if val1 \<noteq> 0 then w5100_read16 e S0_RX_RSR st else (0, st))
      in if val1 \<noteq> val2 then w5100_get_rx_size e st else Some (val1, st))"

partial_function (option) wait_rx_loop :: "'w w5100 \<Rightarrow> u16 \<Rightarrow> u32 \<Rightarrow> u32 \<Rightarrow> 'w dhcp \<Rightarrow> (int \<times> 'w dhcp) option" where
  "wait_rx_loop e min_bytes timeout_ms start st = do {
     (size, st) \<leftarrow> w5100_get_rx_size e st;
     if size < min_bytes then
       (let (now, st) = get_tick_ms e st
        in if now - start \<ge> timeout_ms then Some (0, st) else wait_rx_loop e min_bytes timeout_ms start st)
     else Some (1, st) }"

definition wait_rx_at_least :: "'w w5100 \<Rightarrow> u16 \<Rightarrow> u32 \<Rightarrow> 'w dhcp \<Rightarrow> (int \<times> 'w dhcp) option" where
  "wait_rx_at_least e min_bytes timeout_ms st =
     (let (start, st) = get_tick_ms e st in wait_rx_loop e min_bytes timeout_ms start st)"

section \<open>Sending\<close>

fun send_loop :: "'w w5100 \<Rightarrow> u16 \<Rightarrow> u16 \<Rightarrow> u8 list \<Rightarrow> 'w dhcp \<Rightarrow> 'w dhcp" where
  "send_loop e ptr i [] st = st"
| "send_loop e ptr i (b # bs) st =
     (let addr = S0_TX_BASE + ((ptr + i) AND S0_MASK)
      in send_loop e ptr (i + 1) bs (reg_write e (ucast addr) b st))"

definition w5100_send_bytes :: "'w w5100 \<Rightarrow> u8 list \<Rightarrow> 'w dhcp \<Rightarrow> 'w dhcp option" where
  "w5100_send_bytes e buf st =
     (let (tx_rd, st) = w5100_read16 e S0_TX_RD st;
          (ptr, st) = w5100_read16 e S0_TX_WR st;
          st = send_loop e ptr 0 buf st;
          st = w5100_write16 e S0_TX_WR (ptr + of_nat (length buf)) st
      in do {
        (ok, st) \<leftarrow> w5100_cmd e CR_SEND st;
        if ok = 0 then
          (let (sr, st) = w5100_read e S0_SR st in Some (dh_printf (''SEND nao confirmado! SR=%02x'' @ [CHR 0x0A]) [ucast sr] st))
        else Some st })"

text \<open>The older version, which nothing calls any more: it starts at the read pointer and sends twice.\<close>

definition w5100_send_bytes121 :: "'w w5100 \<Rightarrow> u8 list \<Rightarrow> 'w dhcp \<Rightarrow> 'w dhcp option" where
  "w5100_send_bytes121 e buf st =
     (let (tx_rd, st) = w5100_read16 e S0_TX_RD st;
          st = w5100_write16 e S0_TX_WR tx_rd st;
          st = send_loop e tx_rd 0 buf st;
          st = w5100_write16 e S0_TX_WR (tx_rd + of_nat (length buf)) st
      in do {
        (ok, st) \<leftarrow> w5100_cmd e CR_SEND st;
        let st = (if ok = 0 then
                    (let (sr, st) = w5100_read e S0_SR st in dh_printf (''SEND nao confirmado! SR=%02x'' @ [CHR 0x0A]) [ucast sr] st)
                  else st);
        (_, st) \<leftarrow> w5100_cmd e CR_SEND st;
        Some st })"

definition next_xid :: "'w dhcp \<Rightarrow> u32 \<times> 'w dhcp" where
  "next_xid st =
     (let counter = dh_counter st + 1
      in (0x39000000 OR (counter AND 0x00FFFFFF), st\<lparr>dh_counter := counter\<rparr>))"

section \<open>The packet\<close>

text \<open>\<open>store i bs p\<close>: the bytes \<open>bs\<close> at index \<open>i\<close> of the packet; nothing if they do not fit.\<close>

definition store :: "nat \<Rightarrow> u8 list \<Rightarrow> u8 list \<Rightarrow> u8 list option" where
  "store i bs p = (if i + length bs \<le> length p then Some (take i p @ bs @ drop (i + length bs) p) else None)"

definition put_u32_be :: "u32 \<Rightarrow> u8 list" where
  "put_u32_be v = [ucast (drop_bit 24 v), ucast (drop_bit 16 v), ucast (drop_bit 8 v), ucast v]"

text \<open>
  \<open>opt\<close> is the index where the next option goes.  The static array \<open>pkt\<close> is cleared first and used nowhere
  else, so it is local here.  \<open>strlen(hostname)\<close> is cut to 8 bits.
\<close>

definition enviar_pacote_dhcp ::
  "'w w5100 \<Rightarrow> u8 \<Rightarrow> u32 \<Rightarrow> u8 list \<Rightarrow> u8 list \<Rightarrow> u8 list option \<Rightarrow> u8 list option \<Rightarrow> 'w dhcp \<Rightarrow> 'w dhcp option" where
  "enviar_pacote_dhcp e msg_type xid mac hostname req_ip server_ip st = do {
     let pkt = replicate DHCP_PKT_BUF_SIZE 0;
     pkt \<leftarrow> store 0 [1, 1, 6, 0] pkt;
     pkt \<leftarrow> store OFF_XID (put_u32_be xid) pkt;
     pkt \<leftarrow> store OFF_FLAGS [0x80, 0x00] pkt;
     pkt \<leftarrow> store OFF_CHADDR (take 6 mac) pkt;
     pkt \<leftarrow> store OFF_MAGIC (put_u32_be 0x63825363) pkt;
     let opt = OFF_OPTIONS;
     pkt \<leftarrow> store opt [53, 1, msg_type] pkt;
     let opt = opt + 3;
     (pkt, opt) \<leftarrow> (case (req_ip, server_ip) of
         (Some ip, Some srv) \<Rightarrow>
           if msg_type = DHCP_REQUEST then do {
             pkt \<leftarrow> store opt ([50, 4] @ take 4 ip) pkt;
             pkt \<leftarrow> store (opt + 6) ([54, 4] @ take 4 srv) pkt;
             Some (pkt, opt + 12) }
           else Some (pkt, opt)
       | _ \<Rightarrow> Some (pkt, opt));
     let len = (of_nat (length hostname) :: u8);
     pkt \<leftarrow> store opt ([12, len] @ take (unat len) hostname) pkt;
     let opt = opt + 2 + unat len;
     pkt \<leftarrow> store opt [55, 3, 1, 3, 6] pkt;
     let opt = opt + 5;
     pkt \<leftarrow> store opt [0xFF] pkt;
     let total_len = opt + 1;
     let total_len = (if total_len < DHCP_PKT_MIN_SIZE then DHCP_PKT_MIN_SIZE else total_len);
     w5100_send_bytes e (take total_len pkt) st }"

section \<open>The options\<close>

text \<open>
  The type of the message and the server; \<open>Inl\<close> if a byte behind the array \<open>raw\<close> is read.  The index is of
  16 bits; \<open>None\<close> if it runs around for ever.
\<close>

partial_function (option) parse_loop ::
  "u8 list \<Rightarrow> u16 \<Rightarrow> u16 \<Rightarrow> u8 \<Rightarrow> u8 list option \<Rightarrow> (unit + u8 \<times> u8 list option) option" where
  "parse_loop raw raw_len i msg_type out =
     (let k = unat i in
      if \<not> i < raw_len then Some (Inr (msg_type, out))
      else if length raw \<le> k then Some (Inl ())
      else if raw ! k = 0xFF then Some (Inr (msg_type, out))
      else if raw ! k = 0 then parse_loop raw raw_len (i + 1) msg_type out
      else if length raw \<le> k + 1 then Some (Inl ())
      else let code = raw ! k; opt_len = raw ! (k + 1)
           in if code = 53 \<and> opt_len = 1 then
                (if length raw \<le> k + 2 then Some (Inl ())
                 else parse_loop raw raw_len (i + 2 + ucast opt_len) (raw ! (k + 2)) out)
              else if code = 54 \<and> opt_len = 4 \<and> out \<noteq> None then
                (if length raw < k + 6 then Some (Inl ())
                 else parse_loop raw raw_len (i + 2 + ucast opt_len) msg_type (Some (take 4 (drop (k + 2) raw))))
              else parse_loop raw raw_len (i + 2 + ucast opt_len) msg_type out)"

definition parse_dhcp_options :: "u8 list \<Rightarrow> u16 \<Rightarrow> u8 list option \<Rightarrow> (unit + u8 \<times> u8 list option) option" where
  "parse_dhcp_options raw raw_len out = parse_loop raw raw_len (of_nat OFF_OPTIONS) 0 out"

definition w5100_link_up :: "'w w5100 \<Rightarrow> 'w dhcp \<Rightarrow> u8 \<times> 'w dhcp" where
  "w5100_link_up e st = (let (v, st) = w5100_read e W5100_PHYSTATUS st in (v AND 0x01, st))"

section \<open>The exchange\<close>

text \<open>The lines that prepare the chip; the code has them twice.\<close>

definition prepare_socket :: "'w w5100 \<Rightarrow> u8 list \<Rightarrow> u8 list \<Rightarrow> 'w dhcp \<Rightarrow> 'w dhcp option" where
  "prepare_socket e mac ip st =
     (let st = w5100_set_mac e mac st;
          st = write_regs e W5100_SIPR ip st;
          st = reg_write e (ucast S0_MR) 0x02 st;
          st = w5100_write16 e S0_PORT 68 st
      in do {
        (_, st) \<leftarrow> w5100_cmd e CR_OPEN st;
        let st = write_regs e S0_DIPR [255, 255, 255, 255] st;
        Some (w5100_write16 e S0_DPORT 67 st) })"

definition close_socket :: "'w w5100 \<Rightarrow> int \<Rightarrow> 'w dhcp \<Rightarrow> (int \<times> 'w dhcp) option" where
  "close_socket e r st = do { (_, st) \<leftarrow> w5100_cmd e CR_CLOSE st; Some (r, st) }"

text \<open>What the options of a received packet are; reading past the buffer has no meaning.\<close>

definition parsed_options :: "u8 list \<Rightarrow> u8 list \<Rightarrow> (u8 \<times> u8 list) option" where
  "parsed_options rx_buf out =
     (case parse_dhcp_options rx_buf (of_nat (length rx_buf)) (Some out) of
        Some (Inr (msg_type, Some srv)) \<Rightarrow> Some (msg_type, srv) | _ \<Rightarrow> None)"

text \<open>\<open>rx_buf\<close> is what lies on the stack: the array is not initialised.\<close>

definition w5100_dhcp_request :: "'w w5100 \<Rightarrow> u8 list \<Rightarrow> u8 list \<Rightarrow> 'w dhcp \<Rightarrow> (int \<times> 'w dhcp) option" where
  "w5100_dhcp_request e hostname rx_buf st = do {
     let mac = [0x00, 0x23, 0x69, 0x44, 0x52, 0x5C];
     let ip = [192, 168, 1, 48];
     st \<leftarrow> prepare_socket e mac ip st;
     let (xid, st) = next_xid st;
     st \<leftarrow> enviar_pacote_dhcp e DHCP_DISCOVER xid mac hostname None None st;
     (there, st) \<leftarrow> wait_rx_at_least e (of_nat OFF_OPTIONS) DHCP_WAIT_TIMEOUT_MS st;
     if there = 0 then close_socket e 0 (dh_printf (''Timeout esperando OFFER'' @ [CHR 0x0A]) [] st)
     else do {
       (_, rx_buf, st) \<leftarrow> w5100_recv_udp_packet e rx_buf st;
       let offered_ip = take 4 (drop OFF_YIADDR rx_buf);
       (msg_type, server_ip) \<leftarrow> parsed_options rx_buf [0, 0, 0, 0];
       if msg_type \<noteq> DHCP_OFFER then close_socket e 0 st
       else do {
         let server_ip = (if server_ip = [0, 0, 0, 0] then take 4 (drop OFF_SIADDR rx_buf) else server_ip);
         st \<leftarrow> prepare_socket e mac ip st;
         st \<leftarrow> enviar_pacote_dhcp e DHCP_REQUEST xid mac hostname (Some offered_ip) (Some server_ip) st;
         (there, st) \<leftarrow> wait_rx_at_least e (of_nat OFF_OPTIONS) 50000 st;
         if there = 0 then close_socket e 0 (dh_printf (''Timeout esperando ACK'' @ [CHR 0x0A]) [] st)
         else do {
           (_, rx_buf, st) \<leftarrow> w5100_recv_udp_packet e rx_buf st;
           (msg_type, server_ip2) \<leftarrow> parsed_options rx_buf [0, 0, 0, 0];
           if msg_type = DHCP_NAK then close_socket e 0 (dh_printf (''Servidor recusou (NAK). Tente novamente.'' @ [CHR 0x0A]) [] st)
           else if msg_type \<noteq> DHCP_ACK then
             close_socket e 0 (dh_printf (''Pacote recebido nao e um ACK (tipo=%d)'' @ [CHR 0x0A]) [ucast msg_type] st)
           else close_socket e 1 (write_regs e W5100_SIPR (take 4 (drop OFF_YIADDR rx_buf)) st) } } } }"

definition w5100_print_ip :: "'w w5100 \<Rightarrow> 'w dhcp \<Rightarrow> 'w dhcp" where
  "w5100_print_ip e st =
     (let (a, st) = w5100_read e W5100_SIPR st;
          (b, st) = w5100_read e (W5100_SIPR + 1) st;
          (c, st) = w5100_read e (W5100_SIPR + 2) st;
          (d, st) = w5100_read e (W5100_SIPR + 3) st
      in dh_printf (''IP obtido: %d.%d.%d.%d'' @ [CHR 0x0A]) [ucast a, ucast b, ucast c, ucast d] st)"

definition dhcp_client :: "'w w5100 \<Rightarrow> u8 list \<Rightarrow> 'w dhcp \<Rightarrow> (int \<times> 'w dhcp) option" where
  "dhcp_client e rx_buf st = do {
     (ok, st) \<leftarrow> w5100_dhcp_request e [111, 114, 105, 111, 110, 54, 56, 107] rx_buf st;
     if ok \<noteq> 0 then Some (1, w5100_print_ip e st)
     else Some (0, dh_printf ''No dhcp offer... '' [] st) }"

end
