(* ===== verification/DhcpPacket.thy ===== *)
theory DhcpPacket
  imports DhcpClient
begin

text \<open>
  The packets of the DHCP client as lists of options: the parser computes the effect of the options on
  any buffer that holds them, and the packet that the builder sends is a header, its options and zeros, so
  that the parser finds in it what was asked for.
\<close>

section \<open>Options\<close>

datatype dhcp_option = Pad | Opt u8 "u8 list"

fun encode_option :: "dhcp_option \<Rightarrow> u8 list" where
  "encode_option Pad = [0]"
| "encode_option (Opt c bs) = c # of_nat (length bs) # bs"

definition encode_options :: "dhcp_option list \<Rightarrow> u8 list" where
  "encode_options opts = concat (List.map encode_option opts)"

fun option_ok :: "dhcp_option \<Rightarrow> bool" where
  "option_ok Pad \<longleftrightarrow> True"
| "option_ok (Opt c bs) \<longleftrightarrow> c \<noteq> 0 \<and> c \<noteq> 0xFF \<and> length bs < 256"

fun option_effect :: "dhcp_option \<Rightarrow> u8 \<times> u8 list option \<Rightarrow> u8 \<times> u8 list option" where
  "option_effect Pad r = r"
| "option_effect (Opt c bs) (t, out) =
     (if c = 53 \<and> length bs = 1 then (hd bs, out)
      else if c = 54 \<and> length bs = 4 \<and> out \<noteq> None then (t, Some bs) else (t, out))"

lemma encode_options_simps [simp]:
  "encode_options [] = []" "encode_options (x # xs) = encode_option x @ encode_options xs"
  by (simp_all add: encode_options_def)

lemma unat_small_index: "n < 2 ^ 16 \<Longrightarrow> unat (of_nat n :: u16) = n"
  by (simp add: unat_of_nat take_bit_nat_eq_self)

lemma parse_loop_options:
  assumes "\<forall>x \<in> set opts. option_ok x" "length pre + length (encode_options opts) < 2 ^ 16"
    and "length pre + length (encode_options opts) \<le> unat raw_len"
  shows "parse_loop (pre @ encode_options opts @ 0xFF # rest) raw_len (of_nat (length pre)) t out =
    Some (Inr (fold option_effect opts (t, out)))"
  using assms
proof (induction opts arbitrary: pre t out)
  case Nil
  then show ?case by (subst parse_loop.simps) (simp add: unat_small_index Let_def)
next
  case (Cons x opts)
  let ?raw = "pre @ encode_options (x # opts) @ 0xFF # rest"
  have k: "unat (of_nat (length pre) :: u16) = length pre" using Cons.prems(2) by (intro unat_small_index) simp
  have lt: "(of_nat (length pre) :: u16) < raw_len"
    using Cons.prems(3) k by (cases x) (simp_all add: word_less_nat_alt)
  show ?case
  proof (cases x)
    case Pad
    have "parse_loop ?raw raw_len (of_nat (length (pre @ [0]))) t out = Some (Inr (fold option_effect opts (t, out)))"
      using Cons.IH [of "pre @ [0]" t out] Cons.prems Pad by simp
    moreover have "((0 :: u8) = 0xFF) = False" by code_simp
    ultimately show ?thesis
      using lt Pad by (subst parse_loop.simps) (simp add: k Let_def add.commute)
  next
    case (Opt c bs)
    have ok: "c \<noteq> 0" "c \<noteq> 0xFF" "length bs < 256" using Cons.prems(1) Opt by auto
    have l: "(of_nat (length bs) :: u8) = 1 \<longleftrightarrow> length bs = 1" "(of_nat (length bs) :: u8) = 4 \<longleftrightarrow> length bs = 4"
      using ok(3) by (auto simp: word_unat_eq_iff unat_of_nat take_bit_nat_eq_self)
    have u: "(ucast (of_nat (length bs) :: u8) :: u16) = of_nat (length bs)"
      using ok(3) by (simp add: unsigned_of_nat take_bit_nat_eq_self)
    have i: "(of_nat (length pre) + 2 + of_nat (length bs) :: u16) = of_nat (length (pre @ encode_option x))"
      by (simp add: Opt)
    have "parse_loop ?raw raw_len (of_nat (length (pre @ encode_option x))) t' out' =
        Some (Inr (fold option_effect opts (t', out')))" for t' out'
      using Cons.IH [of "pre @ encode_option x" t' out'] Cons.prems by simp
    then have r: "parse_loop ?raw raw_len (of_nat (length pre) + 2 + of_nat (length bs)) t' out' =
        Some (Inr (fold option_effect opts (t', out')))" for t' out'
      by (simp only: i)
    have n: "?raw ! length pre = c" "?raw ! (length pre + 1) = of_nat (length bs)"
      by (simp_all add: Opt nth_append)
    have "length bs = 1 \<Longrightarrow> ?raw ! (length pre + 2) = hd bs" "length bs = 4 \<Longrightarrow> take 4 (drop (length pre + 2) ?raw) = bs"
      by (cases bs; simp add: Opt nth_append)+
    with r n lt show ?thesis
      by (subst parse_loop.simps) (simp only: k u l ok Let_def, auto simp: Opt)
  qed
qed

lemma options_parsed:
  assumes "length hdr = 240" "\<forall>x \<in> set opts. option_ok x"
    and "length (hdr @ encode_options opts @ 0xFF # rest) < 2 ^ 16"
    and "raw = hdr @ encode_options opts @ 0xFF # rest"
  shows "parse_dhcp_options raw (of_nat (length raw)) out = Some (Inr (fold option_effect opts (0, out)))"
proof -
  have "unat (of_nat (length raw) :: u16) = length raw" using assms by (intro unat_small_index) simp
  with parse_loop_options [OF assms(2), of hdr "of_nat (length raw)" rest 0 out] assms(1,3,4)
  show ?thesis by (simp add: parse_dhcp_options_def OFF_OPTIONS_def)
qed

text \<open>
  The parser on any message of at most 65535 bytes: the options up to the first end mark take effect in
  their order, and what lies behind the end mark does not matter.
\<close>

theorem dhcp_options_take_effect:
  assumes "length hdr = 240" "\<forall>x \<in> set opts. option_ok x"
    and "length (hdr @ encode_options opts @ 0xFF # rest) < 2 ^ 16"
    and "raw = hdr @ encode_options opts @ 0xFF # rest"
  shows "parse_dhcp_options raw (of_nat (length raw)) out = Some (Inr (fold option_effect opts (0, out)))"
  using assms by (rule options_parsed)

section \<open>The packet that is sent\<close>

definition dhcp_header :: "u32 \<Rightarrow> u8 list \<Rightarrow> u8 list" where
  "dhcp_header xid mac =
     [1, 1, 6, 0] @ put_u32_be xid @ [0, 0, 0x80, 0] @ replicate 16 0 @ mac @ replicate 202 0 @ [0x63, 0x82, 0x53, 0x63]"

definition request_options :: "u8 \<Rightarrow> u8 list \<Rightarrow> (u8 list \<times> u8 list) option \<Rightarrow> dhcp_option list" where
  "request_options msg_type hostname ask =
     [Opt 53 [msg_type]] @ (case ask of None \<Rightarrow> [] | Some (ip, srv) \<Rightarrow> [Opt 50 ip, Opt 54 srv]) @
     [Opt 12 hostname, Opt 55 [1, 3, 6]]"

definition dhcp_packet :: "u8 \<Rightarrow> u32 \<Rightarrow> u8 list \<Rightarrow> u8 list \<Rightarrow> (u8 list \<times> u8 list) option \<Rightarrow> u8 list" where
  "dhcp_packet msg_type xid mac hostname ask =
     (let msg = dhcp_header xid mac @ encode_options (request_options msg_type hostname ask) @ [0xFF]
      in msg @ replicate (300 - length msg) 0)"

lemma store_at:
  assumes "i = length a + k" "k + length bs \<le> n"
  shows "store i bs (a @ replicate n 0) = Some ((a @ replicate k 0 @ bs) @ replicate (n - k - length bs) 0)"
  using assms by (simp add: store_def)

lemma take_padded:
  assumes "length xs \<le> k" "k \<le> length xs + n" "j = k - length xs"
  shows "take k (xs @ replicate n 0) = xs @ replicate j 0"
  using assms by (simp add: min_absorb1)

lemma length_put_u32_be [simp]: "length (put_u32_be v) = 4"
  by (simp add: put_u32_be_def)

lemma header_stored:
  assumes "length mac = 6"
  shows "do { pkt \<leftarrow> store 0 [1, 1, 6, 0] (replicate DHCP_PKT_BUF_SIZE 0); pkt \<leftarrow> store OFF_XID (put_u32_be xid) pkt;
    pkt \<leftarrow> store OFF_FLAGS [0x80, 0x00] pkt; pkt \<leftarrow> store OFF_CHADDR (take 6 mac) pkt;
    pkt \<leftarrow> store OFF_MAGIC (put_u32_be 0x63825363) pkt; f pkt } = f (dhcp_header xid mac @ replicate 80 0)"
proof -
  let ?a = "[1, 1, 6, 0] :: u8 list"
  let ?b = "?a @ put_u32_be xid"
  let ?c = "?b @ [0, 0, 0x80, 0]"
  let ?d = "?c @ replicate 16 0 @ mac"
  have "store 0 ?a (replicate DHCP_PKT_BUF_SIZE 0) = Some (?a @ replicate 316 0)"
    using store_at [of 0 "[]" 0 ?a 320] by (simp add: DHCP_PKT_BUF_SIZE_def)
  moreover have "store OFF_XID (put_u32_be xid) (?a @ replicate 316 0) = Some (?b @ replicate 312 0)"
    using store_at [of OFF_XID ?a 0 "put_u32_be xid" 316] by (simp add: OFF_XID_def)
  moreover have "store OFF_FLAGS [0x80, 0x00] (?b @ replicate 312 0) = Some (?c @ replicate 308 0)"
    using store_at [of OFF_FLAGS ?b 2 "[0x80, 0x00]" 312] by (simp add: OFF_FLAGS_def numeral_2_eq_2)
  moreover have "store OFF_CHADDR (take 6 mac) (?c @ replicate 308 0) = Some (?d @ replicate 286 0)"
    using store_at [of OFF_CHADDR ?c 16 mac 308] assms by (simp add: OFF_CHADDR_def)
  moreover have "store OFF_MAGIC (put_u32_be 0x63825363) (?d @ replicate 286 0) =
      Some ((?d @ replicate 202 0 @ put_u32_be 0x63825363) @ replicate 80 0)"
    using store_at [of OFF_MAGIC ?d 202 "put_u32_be 0x63825363" 286] assms by (simp add: OFF_MAGIC_def)
  moreover have "put_u32_be 0x63825363 = [0x63, 0x82, 0x53, 0x63]" by code_simp
  then have "dhcp_header xid mac = ?d @ replicate 202 0 @ put_u32_be 0x63825363" by (simp add: dhcp_header_def)
  ultimately show ?thesis by (simp only: Option.bind.bind_lunit)
qed

lemma length_dhcp_header: "length mac = 6 \<Longrightarrow> length (dhcp_header xid mac) = 240"
  by (simp add: dhcp_header_def)

text \<open>The last three options and the length of the packet, behind what has been stored already.\<close>

lemma options_finished:
  assumes "length hostname \<le> 57" "length a \<le> 255" "length hostname + 8 \<le> n"
    "length a + n = 320"
  shows "do { let len = (of_nat (length hostname) :: u8);
    pkt \<leftarrow> store (length a) ([12, len] @ take (unat len) hostname) (a @ replicate n 0);
    let opt = length a + 2 + unat len;
    pkt \<leftarrow> store opt [55, 3, 1, 3, 6] pkt;
    let opt = opt + 5;
    pkt \<leftarrow> store opt [0xFF] pkt;
    let total_len = opt + 1;
    let total_len = (if total_len < DHCP_PKT_MIN_SIZE then DHCP_PKT_MIN_SIZE else total_len);
    f (take total_len pkt) } =
    f (let msg = a @ encode_options [Opt 12 hostname, Opt 55 [1, 3, 6]] @ [0xFF] in msg @ replicate (300 - length msg) 0)"
proof -
  let ?b = "a @ [12, of_nat (length hostname)] @ hostname"
  let ?c = "?b @ [55, 3, 1, 3, 6]"
  let ?k = "length hostname"
  have u: "unat (of_nat ?k :: u8) = ?k" using assms(1) by (simp add: unat_of_nat take_bit_nat_eq_self)
  have s1: "store (length a) ([12, of_nat ?k] @ hostname) (a @ replicate n 0) = Some (?b @ replicate (n - 2 - ?k) 0)"
    using store_at [of "length a" a 0 "[12, of_nat ?k] @ hostname" n] assms by simp
  have s2: "store (length a + 2 + ?k) [55, 3, 1, 3, 6] (?b @ replicate (n - 2 - ?k) 0) = Some (?c @ replicate (n - 7 - ?k) 0)"
    using store_at [of "length a + 2 + ?k" ?b 0 "[55, 3, 1, 3, 6]" "n - 2 - ?k"] assms by simp
  have s3: "store (length a + 2 + ?k + 5) [0xFF] (?c @ replicate (n - 7 - ?k) 0) = Some ((?c @ [0xFF]) @ replicate (n - 8 - ?k) 0)"
    using store_at [of "length a + 2 + ?k + 5" ?c 0 "[0xFF]" "n - 7 - ?k"] assms by simp
  have m: "a @ encode_options [Opt 12 hostname, Opt 55 [1, 3, 6]] @ [0xFF] = ?c @ [0xFF]" by simp
  have t: "take (if length a + 2 + ?k + 5 + 1 < DHCP_PKT_MIN_SIZE then DHCP_PKT_MIN_SIZE else length a + 2 + ?k + 5 + 1)
      ((?c @ [0xFF]) @ replicate (n - 8 - ?k) 0) = (?c @ [0xFF]) @ replicate (300 - length (?c @ [0xFF])) 0"
    by (rule take_padded) (use assms in \<open>simp_all add: DHCP_PKT_MIN_SIZE_def\<close>)
  show ?thesis
    unfolding Let_def u m take_all [OF order_refl] s1 Option.bind.bind_lunit s2 s3 t ..
qed

lemma enviar_pacote_dhcp_sends:
  assumes "length mac = 6" "length hostname \<le> 57"
    and "\<forall>ip srv. ask = Some (ip, srv) \<longrightarrow> length ip = 4 \<and> length srv = 4 \<and> msg_type = DHCP_REQUEST"
  shows "enviar_pacote_dhcp e msg_type xid mac hostname (map_option fst ask) (map_option snd ask) st =
    w5100_send_bytes e (dhcp_packet msg_type xid mac hostname ask) st"
proof -
  let ?h = "dhcp_header xid mac"
  let ?a = "?h @ [53, 1, msg_type]"
  have h: "length ?h = 240" using assms(1) by (rule length_dhcp_header)
  have s: "store OFF_OPTIONS [53, 1, msg_type] (?h @ replicate 80 0) = Some (?a @ replicate 77 0)"
    using store_at [of OFF_OPTIONS ?h 0 "[53, 1, msg_type]" 80] h by (simp add: OFF_OPTIONS_def)
  have o: "OFF_OPTIONS + 3 = length ?a" using h by (simp add: OFF_OPTIONS_def)
  show ?thesis
  proof (cases ask)
    case None
    then show ?thesis
      unfolding enviar_pacote_dhcp_def Let_def [of "replicate DHCP_PKT_BUF_SIZE 0"] header_stored [OF assms(1)] Let_def [of OFF_OPTIONS] s
        Option.bind.bind_lunit o Let_def [of "length ?a"]
      using options_finished [OF assms(2), of ?a 77 "\<lambda>p. w5100_send_bytes e p st"] h assms(2)
      by (simp add: dhcp_packet_def request_options_def)
  next
    case (Some q)
    then obtain ip srv where q: "ask = Some (ip, srv)" "length ip = 4" "length srv = 4" "msg_type = DHCP_REQUEST"
      using assms(3) by (cases q) auto
    let ?b = "?a @ [50, 4] @ ip" and ?c = "?a @ ([50, 4] @ ip) @ [54, 4] @ srv"
    have t: "store (length ?a) ([50, 4] @ take 4 ip) (?a @ replicate 77 0) = Some (?b @ replicate 71 0)"
      "store (length ?a + 6) ([54, 4] @ take 4 srv) (?b @ replicate 71 0) = Some (?c @ replicate 65 0)"
      using store_at [of "length ?a" ?a 0 "[50, 4] @ ip" 77] store_at [of "length ?a + 6" ?b 0 "[54, 4] @ srv" 71] q(2,3) by simp_all
    have l: "length ?a + 12 = length ?c" using q by simp
    show ?thesis
      unfolding enviar_pacote_dhcp_def Let_def [of "replicate DHCP_PKT_BUF_SIZE 0"] header_stored [OF assms(1)] Let_def [of OFF_OPTIONS] s
        Option.bind.bind_lunit o Let_def [of "length ?a"] q(1) option.map prod.case option.case fst_conv snd_conv eqTrueI [OF q(4)] if_True t l
      using options_finished [OF assms(2), of ?c 65 "\<lambda>p. w5100_send_bytes e p st"] h assms(2) q
      by (simp add: dhcp_packet_def request_options_def)
  qed
qed

lemma request_options_ok:
  assumes "length hostname \<le> 57" "length ip = 4" "length srv = 4"
  shows "\<forall>x \<in> set (request_options msg_type hostname (Some (ip, srv))). option_ok x"
    "length (encode_options (request_options msg_type hostname (Some (ip, srv)))) = 22 + length hostname"
    "fold option_effect (request_options msg_type hostname (Some (ip, srv))) (0, Some out) = (msg_type, Some srv)"
  using assms by (auto simp: request_options_def)

text \<open>
  C21: The REQUEST that is sent fits the buffer of 320 bytes for every host name of up to 57 characters, and
  the parser reads the type and the server back from it.
\<close>

theorem dhcp_request_parsed_back:
  assumes "length mac = 6" "length hostname \<le> 57" "length ip = 4" "length srv = 4"
  shows "\<exists>pkt. enviar_pacote_dhcp e DHCP_REQUEST xid mac hostname (Some ip) (Some srv) st = w5100_send_bytes e pkt st \<and>
    300 \<le> length pkt \<and> length pkt \<le> DHCP_PKT_BUF_SIZE \<and> take 4 (drop OFF_XID pkt) = put_u32_be xid \<and>
    parse_dhcp_options pkt (of_nat (length pkt)) (Some out) = Some (Inr (DHCP_REQUEST, Some srv))"
proof -
  let ?o = "request_options DHCP_REQUEST hostname (Some (ip, srv))"
  let ?m = "dhcp_header xid mac @ encode_options ?o @ [0xFF]"
  let ?p = "?m @ replicate (300 - length ?m) 0"
  note opts = request_options_ok [OF assms(2-4), of DHCP_REQUEST]
  have h: "length (dhcp_header xid mac) = 240" using assms(1) by (rule length_dhcp_header)
  have p: "?p = dhcp_header xid mac @ encode_options ?o @ 0xFF # replicate (300 - length ?m) 0" by simp
  have "parse_dhcp_options ?p (of_nat (length ?p)) (Some out) = Some (Inr (DHCP_REQUEST, Some srv))"
    unfolding opts(3) [of out, symmetric]
    by (rule options_parsed [OF h opts(1) _ p]) (use h opts(2) assms(2) in simp)
  moreover have "enviar_pacote_dhcp e DHCP_REQUEST xid mac hostname (Some ip) (Some srv) st = w5100_send_bytes e ?p st"
    using enviar_pacote_dhcp_sends [OF assms(1,2), of "Some (ip, srv)" DHCP_REQUEST e xid st] assms(3,4)
    by (simp add: dhcp_packet_def Let_def)
  moreover have "take 4 (drop OFF_XID ?p) = put_u32_be xid" by (simp add: dhcp_header_def OFF_XID_def)
  moreover have "300 \<le> length ?p" "length ?p \<le> DHCP_PKT_BUF_SIZE" using h opts(2) assms(2) by (auto simp: DHCP_PKT_BUF_SIZE_def)
  ultimately show ?thesis by blast
qed

section \<open>Where it goes wrong\<close>

text \<open>A host name that is too long is copied past the end of the packet.\<close>

lemma long_hostname_overruns:
  assumes "length mac = 6" "69 < length hostname" "length hostname < 256"
  shows "enviar_pacote_dhcp e DHCP_DISCOVER xid mac hostname None None st = None"
proof -
  let ?h = "dhcp_header xid mac"
  have h: "length ?h = 240" using assms(1) by (rule length_dhcp_header)
  have s: "store OFF_OPTIONS [53, 1, DHCP_DISCOVER] (?h @ replicate 80 0) = Some ((?h @ [53, 1, DHCP_DISCOVER]) @ replicate 77 0)"
    using store_at [of OFF_OPTIONS ?h 0 "[53, 1, DHCP_DISCOVER]" 80] h by (simp add: OFF_OPTIONS_def)
  have u: "unat (of_nat (length hostname) :: u8) = length hostname" using assms(3) by (simp add: unat_of_nat take_bit_nat_eq_self)
  have d: "DHCP_DISCOVER \<noteq> DHCP_REQUEST" by code_simp
  show ?thesis
    unfolding enviar_pacote_dhcp_def Let_def [of "replicate DHCP_PKT_BUF_SIZE 0"] header_stored [OF assms(1)] Let_def [of OFF_OPTIONS] s
      Option.bind.bind_lunit Let_def [of "OFF_OPTIONS + 3"] prod.case option.case
    using assms(2) h u by (cases "length hostname \<le> 75") (auto simp: Let_def OFF_OPTIONS_def store_def)
qed

text \<open>An option code in the last byte of the buffer makes the parser read the byte behind it.\<close>

lemma parser_reads_past_buffer:
  assumes "length hdr = 240" "c \<noteq> 0" "c \<noteq> 0xFF"
  shows "parse_dhcp_options (hdr @ replicate 79 0 @ [c]) 320 out = Some (Inl ())"
proof -
  have "parse_loop (hdr @ replicate 79 0 @ [c]) 320 (of_nat (240 + k)) t out = Some (Inl ())" if "k \<le> 79" for k t
    using that
  proof (induction "79 - k" arbitrary: k)
    case 0
    then have "k = 79" by simp
    then show ?case using assms by (subst parse_loop.simps) (simp add: nth_append)
  next
    case (Suc d)
    have u: "unat (of_nat (240 + k) :: u16) = 240 + k" using Suc.prems by (intro unat_small_index) simp
    have "k < 79" using Suc.hyps(2) by simp
    then have "(hdr @ replicate 79 0 @ [c]) ! (240 + k) = 0" using assms(1) by (simp add: nth_append)
    moreover have "parse_loop (hdr @ replicate 79 0 @ [c]) 320 (of_nat (240 + k) + 1) t out = Some (Inl ())"
      using Suc.hyps(1) [of "Suc k"] Suc.hyps(2) Suc.prems by (simp add: add.commute add.left_commute)
    moreover have "(of_nat (240 + k) :: u16) < 320" using Suc u by (simp add: word_less_nat_alt)
    moreover have "((0 :: u8) = 0xFF) = False" by code_simp
    ultimately show ?case
      using assms(1) Suc.prems by (subst parse_loop.simps) (simp add: Let_def u del: of_nat_add of_nat_Suc)
  qed
  from this [of 0 0] show ?thesis by (simp add: parse_dhcp_options_def OFF_OPTIONS_def)
qed

text \<open>On a buffer of the size that is used the parser always comes to an end.\<close>

lemma parse_loop_ends:
  assumes "unat raw_len + 257 < 2 ^ 16"
  shows "parse_loop raw raw_len i t out \<noteq> None"
proof (induction "unat raw_len - unat i" arbitrary: i t out rule: less_induct)
  case less
  show ?case
  proof (cases "i < raw_len")
    case False
    then show ?thesis by (subst parse_loop.simps) (simp add: Let_def)
  next
    case True
    then have lt: "unat i < unat raw_len" by (simp add: word_less_nat_alt)
    have step: "parse_loop raw raw_len (i + of_nat n) t' out' \<noteq> None" if "0 < n" "n \<le> 257" for n t' out'
    proof -
      have "unat (i + of_nat n) = unat i + n"
        using assms lt that(2) by (simp add: unat_word_ariths unat_of_nat take_bit_nat_eq_self)
      then show ?thesis using less [of "i + of_nat n" t' out'] that(1) lt by simp
    qed
    have o: "i + 1 = i + of_nat 1" "i + 2 + ucast (b :: u8) = i + of_nat (2 + unat b)" for b
      by (simp_all add: add.assoc of_nat_unat)
    have "2 + unat (b :: u8) \<le> 257" for b using unsigned_less [of b, where ?'a = nat] by simp
    then have s: "parse_loop raw raw_len (i + 1) t' out' \<noteq> None" "parse_loop raw raw_len (i + 2 + ucast (b :: u8)) t' out' \<noteq> None"
      for t' out' b unfolding o by (intro step; simp)+
    show ?thesis by (subst parse_loop.simps) (simp only: Let_def s option.simps split: if_split, blast)
  qed
qed

section \<open>The theorems at work\<close>

theorem dhcp_options_take_effect_witness:
  "parse_dhcp_options (replicate 240 9 @ [53, 1, 2, 0, 54, 4, 10, 0, 0, 1, 255, 53, 1]) 253 (Some [0, 0, 0, 0]) =
    Some (Inr (2, Some [10, 0, 0, 1]))"
proof -
  have "\<forall>x \<in> set [Opt 53 [2], Pad, Opt 54 [10, 0, 0, 1]]. option_ok x" by simp
  from dhcp_options_take_effect [OF _ this _ refl, of "replicate 240 9" "[53, 1]" "Some [0, 0, 0, 0]"] show ?thesis by simp
qed

theorem dhcp_request_parsed_back_witness:
  "\<forall>(e :: unit w5100) st. \<exists>pkt. enviar_pacote_dhcp e DHCP_REQUEST 0x39000001 [0, 0x23, 0x69, 0x44, 0x52, 0x5C] [111, 54, 56]
      (Some [192, 168, 1, 77]) (Some [192, 168, 1, 1]) st = w5100_send_bytes e pkt st \<and>
    300 \<le> length pkt \<and> length pkt \<le> DHCP_PKT_BUF_SIZE \<and> take 4 (drop OFF_XID pkt) = [0x39, 0, 0, 1] \<and>
    parse_dhcp_options pkt (of_nat (length pkt)) (Some [0, 0, 0, 0]) = Some (Inr (DHCP_REQUEST, Some [192, 168, 1, 1]))"
proof -
  have x: "put_u32_be 0x39000001 = [0x39, 0, 0, 1]" by code_simp
  have l: "length [0, 0x23, 0x69, 0x44, 0x52, 0x5C :: u8] = 6" "length [111, 54, 56 :: u8] \<le> 57" "length [192, 168, 1, 77 :: u8] = 4"
    "length [192, 168, 1, 1 :: u8] = 4" by simp_all
  show ?thesis using dhcp_request_parsed_back [OF l, where xid = "0x39000001" and out = "[0, 0, 0, 0]"] unfolding x by blast
qed

end
