(* ===== verification/DhcpChip.thy ===== *)
theory DhcpChip
  imports DhcpPacket
begin

text \<open>
  The DHCP client on the network.  \<open>dhcp_net\<close> states what the data sheet of the W5100 promises of its
  registers, its rings and its commands, and lets a server answer each packet that is sent.  With it:
  a datagram is received whole and the read pointer keeps in step, a packet that is sent is the one that
  was built, and the exchange ends with the address of the acknowledgement exactly if there is one.
\<close>

section \<open>The chip\<close>

type_synonym chip_view = "u16 \<Rightarrow> u8"

definition word_at :: "chip_view \<Rightarrow> u16 \<Rightarrow> u16" where
  "word_at u r = push_bit 8 (ucast (u r)) OR ucast (u (r + 1))"

definition ring_bytes :: "chip_view \<Rightarrow> u16 \<Rightarrow> u16 \<Rightarrow> nat \<Rightarrow> u8 list" where
  "ring_bytes u base p n = List.map (\<lambda>k. u (base + ((p + of_nat k) AND S0_MASK))) [0..<n]"

definition address_regs :: "chip_view \<Rightarrow> u8 list" where
  "address_regs u = [u W5100_SIPR, u (W5100_SIPR + 1), u (W5100_SIPR + 2), u (W5100_SIPR + 3)]"

text \<open>
  The socket's pointers.  \<open>S0_RX_WR\<close> is the chip's own write pointer of the receive ring; the code never
  touches it, but the size of what waits, \<open>S0_RX_RSR\<close>, is always its distance from the read pointer.
  \<open>chip_regs\<close> are the registers that the chip sets itself.
\<close>

definition S0_RX_WR :: u16 where "S0_RX_WR = 0x042A"

definition chip_regs :: "u16 list" where
  "chip_regs = [S0_CR, S0_SR, S0_TX_RD, S0_TX_RD + 1, S0_RX_RSR, S0_RX_RSR + 1, S0_RX_WR, S0_RX_WR + 1]"

definition tx_empty :: "chip_view \<Rightarrow> bool" where
  "tx_empty u \<longleftrightarrow> word_at u S0_TX_RD = word_at u S0_TX_WR"

definition rx_empty :: "chip_view \<Rightarrow> bool" where
  "rx_empty u \<longleftrightarrow> word_at u S0_RX_RD = word_at u S0_RX_WR"

definition pointers_kept :: "chip_view \<Rightarrow> chip_view \<Rightarrow> bool" where
  "pointers_kept u u' \<longleftrightarrow> word_at u' S0_TX_RD = word_at u S0_TX_RD \<and> word_at u' S0_TX_WR = word_at u S0_TX_WR \<and>
     word_at u' S0_RX_RD = word_at u S0_RX_RD \<and> word_at u' S0_RX_WR = word_at u S0_RX_WR"

definition ring_kept :: "chip_view \<Rightarrow> chip_view \<Rightarrow> bool" where
  "ring_kept u u' \<longleftrightarrow> (\<forall>k. u' (S0_RX_BASE + (k AND S0_MASK)) = u (S0_RX_BASE + (k AND S0_MASK)))"

text \<open>
  A datagram \<open>r\<close> comes in: six bytes of its sender, its length and its data go to the write pointer, which
  moves behind them, and what has not been read yet stays; without room for it the datagram is lost.
\<close>

definition rx_unread :: "chip_view \<Rightarrow> nat" where
  "rx_unread u = unat (word_at u S0_RX_WR - word_at u S0_RX_RD)"

definition comes_in :: "u8 list \<Rightarrow> chip_view \<Rightarrow> chip_view \<Rightarrow> bool" where
  "comes_in r u u' \<longleftrightarrow>
     (if rx_unread u + 8 + length r \<le> 2048
      then word_at u' S0_RX_WR = word_at u S0_RX_WR + of_nat (8 + length r) \<and>
        (\<exists>h. length h = 6 \<and> ring_bytes u' S0_RX_BASE (word_at u S0_RX_WR) (8 + length r) =
           h @ [of_nat (length r div 256), of_nat (length r)] @ r) \<and>
        ring_bytes u' S0_RX_BASE (word_at u S0_RX_RD) (rx_unread u) = ring_bytes u S0_RX_BASE (word_at u S0_RX_RD) (rx_unread u)
      else word_at u' S0_RX_WR = word_at u S0_RX_WR \<and> ring_kept u u')"

text \<open>
  The effect of a command on the chip.  Every command is taken, which the command register shows, and
  leaves the address alone, and \<open>S0_RX_RSR\<close> is the distance of the receive pointers.  \<open>OPEN\<close> empties the rings
  of a closed socket; a socket that is open already may start anew or take no notice.  \<open>SEND\<close> sends the
  bytes between the two pointers of the transmit ring, and the server's answer, if it has one, comes in;
  no other datagram does.  \<open>RECV\<close> leaves the ring and all pointers alone.
\<close>

definition cmd_effect :: "(u8 list \<Rightarrow> u8 list option) \<Rightarrow> u8 \<Rightarrow> chip_view \<Rightarrow> chip_view \<Rightarrow> bool" where
  "cmd_effect reply c u u' \<longleftrightarrow>
     u' S0_CR = 0 \<and> address_regs u' = address_regs u \<and>
     word_at u' S0_RX_RSR = word_at u' S0_RX_WR - word_at u' S0_RX_RD \<and>
     (c = CR_OPEN \<longrightarrow> tx_empty u' \<and> rx_empty u' \<or> u S0_SR \<noteq> 0 \<and> pointers_kept u u') \<and>
     (c = CR_CLOSE \<longrightarrow> u' S0_SR = 0) \<and>
     (c = CR_RECV \<longrightarrow> pointers_kept u u' \<and> ring_kept u u') \<and>
     (c = CR_SEND \<longrightarrow> tx_empty u' \<and> word_at u' S0_TX_WR = word_at u S0_TX_WR \<and> word_at u' S0_RX_RD = word_at u S0_RX_RD \<and>
        (case reply (ring_bytes u S0_TX_BASE (word_at u S0_TX_RD) (unat (word_at u S0_TX_WR - word_at u S0_TX_RD))) of
           None \<Rightarrow> word_at u' S0_RX_WR = word_at u S0_RX_WR \<and> ring_kept u u'
         | Some r \<Rightarrow> comes_in r u u'))"

definition dhcp_net :: "'w w5100 \<Rightarrow> ('w \<Rightarrow> chip_view) \<Rightarrow> (u8 list \<Rightarrow> u8 list option) \<Rightarrow> bool" where
  "dhcp_net e view reply \<longleftrightarrow>
     (\<forall>r w. wz_read e (W5100_REG (ucast r)) w = (view w r, w)) \<and>
     (\<forall>r v w. r \<notin> set chip_regs \<longrightarrow> view (wz_write e (W5100_REG (ucast r)) v w) = (view w)(r := v)) \<and>
     (\<forall>w. \<exists>t w'. wz_systick e w = (t, w') \<and> view w' = view w) \<and>
     (\<forall>c w. cmd_effect reply c (view w) (view (wz_write e (W5100_REG (ucast S0_CR)) c w)))"

section \<open>Registers\<close>

text \<open>The pairs of registers that make a word.\<close>

definition word_regs :: "u16 list" where
  "word_regs = [S0_PORT, S0_DPORT, S0_TX_RD, S0_TX_WR, S0_RX_RSR, S0_RX_RD]"

text \<open>Those of them that the code writes.\<close>

definition code_word_regs :: "u16 list" where
  "code_word_regs = [S0_PORT, S0_DPORT, S0_TX_WR, S0_RX_RD]"

lemma word_regs: "r \<in> set word_regs \<Longrightarrow> (ucast r :: u32) + 1 = ucast (r + 1)"
proof -
  assume r: "r \<in> set word_regs"
  have "list_all (\<lambda>r. (ucast r :: u32) + 1 = ucast (r + 1)) word_regs" by code_simp
  with r show ?thesis by (auto simp: list_all_iff)
qed

lemma code_word_regs:
  assumes "r \<in> set code_word_regs"
  shows "(ucast r :: u32) + 1 = ucast (r + 1)" "r \<notin> set chip_regs" "r + 1 \<notin> set chip_regs"
proof -
  have "list_all (\<lambda>r. (ucast r :: u32) + 1 = ucast (r + 1) \<and> r \<notin> set chip_regs \<and> r + 1 \<notin> set chip_regs) code_word_regs" by code_simp
  with assms show "(ucast r :: u32) + 1 = ucast (r + 1)" "r \<notin> set chip_regs" "r + 1 \<notin> set chip_regs" by (auto simp: list_all_iff)
qed

lemma word_regs_mem [simp]:
  "S0_TX_RD \<in> set word_regs" "S0_TX_WR \<in> set word_regs" "S0_RX_RSR \<in> set word_regs" "S0_RX_RD \<in> set word_regs"
  "S0_PORT \<in> set code_word_regs" "S0_DPORT \<in> set code_word_regs" "S0_TX_WR \<in> set code_word_regs" "S0_RX_RD \<in> set code_word_regs"
  by (simp_all add: word_regs_def code_word_regs_def)

lemma word_at_halves:
  "push_bit 8 (ucast (ucast (drop_bit 8 v) :: u8)) OR ucast (ucast (v :: u16) :: u8) = v"
  by (rule bit_word_eqI) (auto simp: bit_simps)

lemma word_at_upd: "word_at (u(r := ucast (drop_bit 8 v), r + 1 := ucast v)) r = v"
  by (simp add: word_at_def word_at_halves)

lemma read_reg:
  assumes "dhcp_net e view reply"
  shows "reg_read e (ucast r) st = (view (dh_chip st) r, st)"
  using assms by (simp add: reg_read_def dhcp_net_def)

lemma read_word:
  assumes "dhcp_net e view reply" "r \<in> set word_regs"
  shows "w5100_read16 e r st = (word_at (view (dh_chip st)) r, st)"
  using assms by (simp add: w5100_read16_def read_reg word_regs word_at_def)

lemma write_reg:
  assumes "dhcp_net e view reply" "r \<notin> set chip_regs"
  shows "\<exists>w. reg_write e (ucast r) v st = st\<lparr>dh_chip := w\<rparr> \<and> view w = (view (dh_chip st))(r := v)"
  using assms by (auto simp: reg_write_def dhcp_net_def)

lemma write_word:
  assumes "dhcp_net e view reply" "r \<in> set code_word_regs"
  shows "\<exists>w. w5100_write16 e r v st = st\<lparr>dh_chip := w\<rparr> \<and>
    view w = (view (dh_chip st))(r := ucast (drop_bit 8 v), r + 1 := ucast v)"
proof -
  obtain w1 where w1: "reg_write e (ucast r) (ucast (drop_bit 8 v)) st = st\<lparr>dh_chip := w1\<rparr>"
    "view w1 = (view (dh_chip st))(r := ucast (drop_bit 8 v))" using write_reg [OF assms(1) code_word_regs(2) [OF assms(2)]] by blast
  obtain w2 where w2: "reg_write e (ucast (r + 1)) (ucast v) (st\<lparr>dh_chip := w1\<rparr>) = st\<lparr>dh_chip := w1\<rparr>\<lparr>dh_chip := w2\<rparr>"
    "view w2 = (view w1)(r + 1 := ucast v)" using write_reg [OF assms(1) code_word_regs(3) [OF assms(2)], of _ "st\<lparr>dh_chip := w1\<rparr>"] by auto
  show ?thesis using w1 w2 by (auto simp: w5100_write16_def code_word_regs(1) [OF assms(2)])
qed

text \<open>Registers that follow each other, below the sockets' or clear of the command register.\<close>

fun regs_upd :: "chip_view \<Rightarrow> u16 \<Rightarrow> u8 list \<Rightarrow> chip_view" where
  "regs_upd u r [] = u"
| "regs_upd u r (v # vs) = regs_upd (u(r := v)) (r + 1) vs"

lemma write_regs_view:
  assumes "dhcp_net e view reply" "\<forall>k < length vs. r + of_nat k \<notin> set chip_regs"
  shows "\<exists>w. write_regs e r vs st = st\<lparr>dh_chip := w\<rparr> \<and> view w = regs_upd (view (dh_chip st)) r vs"
  using assms(2)
proof (induction vs arbitrary: r st)
  case Nil
  then show ?case by (intro exI [of _ "dh_chip st"]) simp
next
  case (Cons v vs)
  have "r \<notin> set chip_regs" using Cons.prems [rule_format, of 0] by simp
  from write_reg [OF assms(1) this] obtain w where w: "w5100_write e r v st = st\<lparr>dh_chip := w\<rparr>" "view w = (view (dh_chip st))(r := v)"
    unfolding w5100_write_def by blast
  have "r + 1 + of_nat k \<notin> set chip_regs" if "k < length vs" for k
    using Cons.prems [rule_format, of "Suc k"] that by (simp add: add.assoc)
  then have "\<forall>k < length vs. r + 1 + of_nat k \<notin> set chip_regs" by blast
  from Cons.IH [OF this, of "st\<lparr>dh_chip := w\<rparr>"] obtain w' where
    "write_regs e (r + 1) vs (st\<lparr>dh_chip := w\<rparr>) = st\<lparr>dh_chip := w'\<rparr>" "view w' = regs_upd ((view (dh_chip st))(r := v)) (r + 1) vs"
    unfolding w(2) [symmetric] by auto
  with w(1) show ?case by (intro exI [of _ w']) simp
qed

lemma command_taken:
  assumes "dhcp_net e view reply"
  shows "\<exists>w. w5100_cmd e c st = Some (1, st\<lparr>dh_chip := w\<rparr>) \<and> cmd_effect reply c (view (dh_chip st)) (view w)"
proof -
  from assms obtain t w0 where t: "wz_systick e (dh_chip st) = (t, w0)" "view w0 = view (dh_chip st)"
    unfolding dhcp_net_def by meson
  let ?w = "wz_write e (W5100_REG (ucast S0_CR)) c w0"
  have c: "cmd_effect reply c (view (dh_chip st)) (view ?w)" using assms t(2) unfolding dhcp_net_def by metis
  then have z: "view ?w S0_CR = 0" by (simp add: cmd_effect_def)
  have "cmd_wait e c (t * 10) (st\<lparr>dh_chip := ?w\<rparr>) = Some (1, st\<lparr>dh_chip := ?w\<rparr>)"
    by (subst cmd_wait.simps) (simp add: read_reg [OF assms] z)
  then have "w5100_cmd e c st = Some (1, st\<lparr>dh_chip := ?w\<rparr>)" by (simp add: w5100_cmd_def get_tick_ms_def t(1) reg_write_def)
  with c show ?thesis by blast
qed

section \<open>Receiving\<close>

lemma recv_loop_ring:
  assumes "dhcp_net e view reply"
  shows "recv_loop e p (of_nat i) n st = (List.map (\<lambda>k. view (dh_chip st) (S0_RX_BASE + ((p + of_nat k) AND S0_MASK))) [i..<i + n], st)"
proof (induction n arbitrary: i)
  case 0
  then show ?case by simp
next
  case (Suc n)
  have "[i..<i + Suc n] = i # [Suc i..<Suc i + n]" by (simp add: upt_conv_Cons)
  with Suc.IH [of "Suc i"] show ?case by (simp add: read_reg [OF assms] add.commute)
qed

text \<open>The receive ring of a view, from the read pointer on.\<close>

definition rx_waiting :: "chip_view \<Rightarrow> nat \<Rightarrow> u8 list" where
  "rx_waiting u n = ring_bytes u S0_RX_BASE (word_at u S0_RX_RD) n"

lemma length_rx_waiting [simp]: "length (rx_waiting u n) = n"
  by (simp add: rx_waiting_def ring_bytes_def)

definition rx_moved :: "u16 \<Rightarrow> chip_view \<Rightarrow> chip_view \<Rightarrow> bool" where
  "rx_moved n u u' \<longleftrightarrow> word_at u' S0_RX_RD = word_at u S0_RX_RD + n \<and> address_regs u' = address_regs u \<and>
     word_at u' S0_RX_WR = word_at u S0_RX_WR \<and> (tx_empty u \<longrightarrow> tx_empty u') \<and> ring_kept u u'"

lemma rx_moved_0 [simp]: "rx_moved 0 u u"
  by (simp add: rx_moved_def ring_kept_def)

lemma rx_moved_trans: "rx_moved a u v \<Longrightarrow> rx_moved b v w \<Longrightarrow> rx_moved (a + b) u w"
  by (simp add: rx_moved_def ring_kept_def add.assoc)

lemma rx_moved_waiting: "rx_moved (of_nat k) u u' \<Longrightarrow> rx_waiting u' n = drop k (rx_waiting u (k + n))"
proof -
  assume "rx_moved (of_nat k) u u'"
  then have "rx_waiting u' n = List.map (\<lambda>i. u (S0_RX_BASE + ((word_at u S0_RX_RD + of_nat (k + i)) AND S0_MASK))) [0..<n]"
    by (simp add: rx_waiting_def ring_bytes_def rx_moved_def ring_kept_def add.assoc)
  also have "\<dots> = drop k (rx_waiting u (k + n))"
    by (rule nth_equalityI) (simp_all add: rx_waiting_def ring_bytes_def)
  finally show ?thesis .
qed

lemma ring_address: "S0_RX_BASE + (k AND S0_MASK) \<noteq> S0_RX_RD" "S0_RX_BASE + (k AND S0_MASK) \<noteq> S0_RX_RD + 1"
  "S0_RX_BASE + (k AND S0_MASK) \<noteq> S0_CR"
proof -
  have "k AND S0_MASK \<le> S0_MASK" by (rule word_and_le1)
  then have "unat (k AND S0_MASK) \<le> 0x7FF" by (simp add: word_le_nat_alt S0_MASK_def)
  then have "unat (S0_RX_BASE + (k AND S0_MASK)) \<ge> 0x6000"
    by (simp add: S0_RX_BASE_def unat_word_ariths)
  then show "S0_RX_BASE + (k AND S0_MASK) \<noteq> S0_RX_RD" "S0_RX_BASE + (k AND S0_MASK) \<noteq> S0_RX_RD + 1"
    "S0_RX_BASE + (k AND S0_MASK) \<noteq> S0_CR" by (auto simp: S0_RX_RD_def S0_CR_def)
qed

lemma recv_bytes_ring:
  assumes net: "dhcp_net e view reply"
  shows "\<exists>w. w5100_recv_bytes e n st = Some (rx_waiting (view (dh_chip st)) (unat n), st\<lparr>dh_chip := w\<rparr>) \<and>
    rx_moved n (view (dh_chip st)) (view w)"
proof -
  let ?u = "view (dh_chip st)"
  obtain w1 where w1: "w5100_write16 e S0_RX_RD (word_at ?u S0_RX_RD + n) st = st\<lparr>dh_chip := w1\<rparr>"
    "view w1 = ?u(S0_RX_RD := ucast (drop_bit 8 (word_at ?u S0_RX_RD + n)), S0_RX_RD + 1 := ucast (word_at ?u S0_RX_RD + n))"
    using write_word [OF net, of S0_RX_RD] by fastforce
  obtain w2 where w2: "w5100_cmd e CR_RECV (st\<lparr>dh_chip := w1\<rparr>) = Some (1, st\<lparr>dh_chip := w2\<rparr>)" "cmd_effect reply CR_RECV (view w1) (view w2)"
    using command_taken [OF net, of CR_RECV "st\<lparr>dh_chip := w1\<rparr>"] by auto
  have a: "address_regs (view w1) = address_regs ?u"
    by (simp add: w1(2) address_regs_def W5100_SIPR_def S0_RX_RD_def)
  have p: "word_at (view w1) r = word_at ?u r" if "r \<in> {S0_TX_RD, S0_TX_WR, S0_RX_WR}" for r
    using that by (auto simp: w1(2) word_at_def S0_RX_RD_def S0_TX_RD_def S0_TX_WR_def S0_RX_WR_def)
  have "rx_moved n ?u (view w1)"
    unfolding rx_moved_def a tx_empty_def ring_kept_def by (simp add: p) (simp add: w1(2) word_at_upd ring_address)
  moreover have "rx_moved 0 (view w1) (view w2)" using w2(2) by (auto simp: rx_moved_def cmd_effect_def pointers_kept_def tx_empty_def)
  ultimately have "rx_moved n ?u (view w2)" using rx_moved_trans by fastforce
  then show ?thesis
    using w1(1) w2(1) recv_loop_ring [OF net, of "word_at ?u S0_RX_RD" 0 "unat n" st]
    by (auto simp: w5100_recv_bytes_def read_word [OF net] rx_waiting_def ring_bytes_def)
qed

lemma recv_rest_moves:
  assumes net: "dhcp_net e view reply"
  shows "\<exists>w. recv_rest e n st = Some (st\<lparr>dh_chip := w\<rparr>) \<and> rx_moved n (view (dh_chip st)) (view w)"
proof (induction "unat n" arbitrary: n st rule: less_induct)
  case less
  show ?case
  proof (cases "n = 0")
    case True
    then show ?thesis by (subst recv_rest.simps) (auto intro: exI [of _ "dh_chip st"])
  next
    case False
    let ?c = "if n < 32 then n else 32"
    from recv_bytes_ring [OF net, of ?c st] obtain w where
      w: "w5100_recv_bytes e ?c st = Some (rx_waiting (view (dh_chip st)) (unat ?c), st\<lparr>dh_chip := w\<rparr>)"
      "rx_moved ?c (view (dh_chip st)) (view w)" by blast
    have le: "?c \<le> n" and nz: "0 < ?c" using False by (auto simp: word_neq_0_conv)
    then have "unat (n - ?c) < unat n"
      unfolding unat_sub [OF le] by (simp only: word_less_nat_alt word_le_nat_alt unat_0)
    from less [OF this, of "st\<lparr>dh_chip := w\<rparr>"] obtain w' where
      w': "recv_rest e (n - ?c) (st\<lparr>dh_chip := w\<rparr>) = Some (st\<lparr>dh_chip := w'\<rparr>)" "rx_moved (n - ?c) (view w) (view w')" by auto
    have "recv_rest e n st = Some (st\<lparr>dh_chip := w'\<rparr>)"
      using False by (subst recv_rest.simps) (simp only: Let_def w(1) w'(1) word_neq_0_conv Option.bind.bind_lunit prod.case if_True)
    moreover have "rx_moved n (view (dh_chip st)) (view w')" using rx_moved_trans [OF w(2) w'(2)] unfolding add_diff_eq add_diff_cancel_left' .
    ultimately show ?thesis by blast
  qed
qed

text \<open>A datagram in the ring: six bytes of sender, the length and the data.\<close>

definition datagram_waits :: "chip_view \<Rightarrow> u8 list \<Rightarrow> bool" where
  "datagram_waits u r \<longleftrightarrow> length r \<le> 2040 \<and>
     (\<exists>h. length h = 6 \<and> rx_waiting u (8 + length r) = h @ [of_nat (length r div 256), of_nat (length r)] @ r)"

lemma length_from_bytes:
  assumes "n < 2 ^ 16"
  shows "push_bit 8 (ucast (of_nat (n div 256) :: u8)) OR ucast (of_nat n :: u8) = (of_nat n :: u16)"
proof -
  have "(of_nat (n div 256) :: u16) = drop_bit 8 (of_nat n)"
    using assms by (simp add: word_unat_eq_iff unat_of_nat drop_bit_eq_div unat_div take_bit_nat_eq_self)
  then have d: "(ucast (of_nat (n div 256) :: u16) :: u8) = ucast (drop_bit 8 (of_nat n :: u16))" by (rule arg_cong)
  have "(of_nat k :: u8) = ucast (of_nat k :: u16)" for k
    by (rule bit_word_eqI) (auto simp: bit_simps)
  then show ?thesis by (simp only: d word_at_halves)
qed

lemma udp_packet_received:
  assumes net: "dhcp_net e view reply" and waits: "datagram_waits (view (dh_chip st)) r" and buf: "length buf < 2 ^ 16"
  shows "\<exists>w. w5100_recv_udp_packet e buf st = Some (of_nat (length r), take (length buf) r @ drop (length r) buf, st\<lparr>dh_chip := w\<rparr>) \<and>
    rx_moved (of_nat (8 + length r)) (view (dh_chip st)) (view w)"
proof -
  let ?u = "view (dh_chip st)" and ?n = "length r" and ?m = "min (length r) (length buf)"
  obtain h where h: "length h = 6" "rx_waiting ?u (8 + ?n) = h @ [of_nat (?n div 256), of_nat ?n] @ r" and small: "?n \<le> 2040"
    using waits by (auto simp: datagram_waits_def)
  have part: "rx_waiting ?u k = take k (rx_waiting ?u j)" if "k \<le> j" for k j
    using that by (simp add: rx_waiting_def ring_bytes_def take_map take_upt)
  obtain w1 where w1: "w5100_recv_bytes e 8 st = Some (rx_waiting ?u 8, st\<lparr>dh_chip := w1\<rparr>)" "rx_moved 8 ?u (view w1)"
    using recv_bytes_ring [OF net, of 8 st] by auto
  have hdr: "rx_waiting ?u 8 = h @ [of_nat (?n div 256), of_nat ?n]" using part [of 8 "8 + ?n"] h by simp
  then have len: "push_bit 8 (ucast (rx_waiting ?u 8 ! 6)) OR ucast (rx_waiting ?u 8 ! 7) = (of_nat ?n :: u16)"
    using h(1) length_from_bytes [of ?n] small by (simp add: nth_append)
  have copy: "(if (of_nat ?n :: u16) < of_nat (length buf) then of_nat ?n else of_nat (length buf)) = (of_nat ?m :: u16)"
    using small buf by (simp add: word_less_nat_alt unat_small_index min_def)
  have um: "unat (of_nat ?m :: u16) = ?m" using small by (intro unat_small_index) simp
  have data: "rx_waiting (view w1) ?m = take ?m r"
    using rx_moved_waiting [of 8 ?u "view w1" ?m] w1(2) part [of "8 + ?m" "8 + ?n"] h by (simp add: hdr)
  have get: "\<exists>w2. (if (of_nat ?m :: u16) > 0 then do { (bs, st) \<leftarrow> w5100_recv_bytes e (of_nat ?m) (st\<lparr>dh_chip := w1\<rparr>);
        Some (bs @ drop (length bs) buf, st) } else Some (buf, st\<lparr>dh_chip := w1\<rparr>)) =
      Some (take (length buf) r @ drop ?n buf, st\<lparr>dh_chip := w2\<rparr>) \<and> rx_moved (of_nat ?m) (view w1) (view w2)"
  proof (cases "?m = 0")
    case True
    then show ?thesis by (intro exI [of _ w1]) (auto simp: min_def split: if_splits)
  next
    case False
    then have "(of_nat ?m :: u16) > 0" using um by (simp only: word_less_nat_alt unat_0)
    moreover have "take ?m r @ drop ?m buf = take (length buf) r @ drop ?n buf" by (auto simp: min_def)
    ultimately show ?thesis
      using recv_bytes_ring [OF net, of "of_nat ?m" "st\<lparr>dh_chip := w1\<rparr>"] data um by (auto simp del: of_nat_min)
  qed
  then obtain w2 where w2: "(if (of_nat ?m :: u16) > 0 then do { (bs, st) \<leftarrow> w5100_recv_bytes e (of_nat ?m) (st\<lparr>dh_chip := w1\<rparr>);
        Some (bs @ drop (length bs) buf, st) } else Some (buf, st\<lparr>dh_chip := w1\<rparr>)) =
      Some (take (length buf) r @ drop ?n buf, st\<lparr>dh_chip := w2\<rparr>)" "rx_moved (of_nat ?m) (view w1) (view w2)" by blast
  obtain w3 where w3: "recv_rest e (of_nat ?n - of_nat ?m) (st\<lparr>dh_chip := w2\<rparr>) = Some (st\<lparr>dh_chip := w3\<rparr>)"
    "rx_moved (of_nat ?n - of_nat ?m) (view w2) (view w3)" using recv_rest_moves [OF net, of "of_nat ?n - of_nat ?m" "st\<lparr>dh_chip := w2\<rparr>"] by auto
  have "rx_moved (8 + of_nat ?n) ?u (view w3)"
    using rx_moved_trans [OF rx_moved_trans [OF w1(2) w2(2)] w3(2)] by simp
  moreover have "w5100_recv_udp_packet e buf st = Some (of_nat ?n, take (length buf) r @ drop ?n buf, st\<lparr>dh_chip := w3\<rparr>)"
    unfolding w5100_recv_udp_packet_def w1(1) Option.bind.bind_lunit prod.case Let_def len copy w2(1) w3(1) ..
  ultimately show ?thesis by auto
qed

text \<open>
  A datagram is received as it was sent: its first bytes, as many as the buffer takes, are in the buffer,
  its true length is returned, and the read pointer of the chip has moved past all of it, whether it
  fitted the buffer or not.
\<close>

theorem datagram_received_in_step:
  assumes net: "dhcp_net e view reply" and waits: "datagram_waits (view (dh_chip st)) r" and buf: "length buf < 2 ^ 16"
  shows "\<exists>w. w5100_recv_udp_packet e buf st = Some (of_nat (length r), take (length buf) r @ drop (length r) buf, st\<lparr>dh_chip := w\<rparr>) \<and>
    word_at (view w) S0_RX_RD = word_at (view (dh_chip st)) S0_RX_RD + of_nat (8 + length r) \<and>
    address_regs (view w) = address_regs (view (dh_chip st))"
  using udp_packet_received [OF assms] by (auto simp: rx_moved_def)

section \<open>Sending\<close>

lemma ring_slots_differ:
  assumes "i < 2048" "j < 2048" "i \<noteq> j"
  shows "(p + of_nat i) AND S0_MASK \<noteq> (p + of_nat j) AND S0_MASK"
proof
  have m: "S0_MASK = mask 11" by (simp add: S0_MASK_def mask_eq_exp_minus_1)
  assume "(p + of_nat i) AND S0_MASK = (p + of_nat j) AND S0_MASK"
  then have "take_bit 11 (p + of_nat i) = take_bit 11 (p + of_nat j)" by (simp only: m take_bit_eq_mask)
  moreover have "unat (take_bit 11 (p + of_nat k)) = (unat p + k) mod 2048" if "k < 2048" for k
  proof -
    have "unat (of_nat k :: u16) = k" using that by (intro unat_small_index) simp
    then have "unat (p + of_nat k) = (unat p + k) mod 2 ^ 16" by (simp only: unat_word_ariths) simp
    then have "unat (take_bit 11 (p + of_nat k)) = (unat p + k) mod 2 ^ 16 mod 2 ^ 11" by (simp only: unsigned_take_bit_eq take_bit_nat_def)
    also have "\<dots> = (unat p + k) mod 2048" using mod_mod_cancel [of "2048 :: nat" 65536 "unat p + k"] by simp
    finally show ?thesis .
  qed
  ultimately have "(unat p + i) mod 2048 = (unat p + j) mod 2048" using assms(1,2) by metis
  then obtain a b where "unat p + i + 2048 * a = unat p + j + 2048 * b" by (auto simp: nat_mod_eq_iff)
  then have "i + 2048 * a = j + 2048 * b" by simp
  then have "(i + 2048 * a) mod 2048 = (j + 2048 * b) mod 2048" by (rule arg_cong)
  with assms show False unfolding mod_mult_self2 by simp
qed

lemma tx_address: "S0_TX_BASE + (k AND S0_MASK) \<notin> set chip_regs" "\<exists>n \<ge> 0x4000. S0_TX_BASE + (k AND S0_MASK) = of_nat n \<and> n < 0x4800"
proof -
  have "k AND S0_MASK \<le> S0_MASK" by (rule word_and_le1)
  then have l: "unat (k AND S0_MASK) \<le> 0x7FF" by (simp add: word_le_nat_alt S0_MASK_def)
  have "S0_TX_BASE + (k AND S0_MASK) = of_nat (0x4000 + unat (k AND S0_MASK))" by (simp add: S0_TX_BASE_def)
  with l show "\<exists>n \<ge> 0x4000. S0_TX_BASE + (k AND S0_MASK) = of_nat n \<and> n < 0x4800"
    by (intro exI [of _ "0x4000 + unat (k AND S0_MASK)"]) simp
  have "unat (S0_TX_BASE + (k AND S0_MASK)) \<ge> 0x4000" using l by (simp add: S0_TX_BASE_def unat_word_ariths)
  then show "S0_TX_BASE + (k AND S0_MASK) \<notin> set chip_regs"
    by (auto simp: chip_regs_def S0_CR_def S0_SR_def S0_TX_RD_def S0_RX_RSR_def S0_RX_WR_def)
qed

text \<open>Addresses below the rings.\<close>

lemma tx_below: "unat a < 0x4000 \<Longrightarrow> a \<noteq> S0_TX_BASE + (k AND S0_MASK)"
  using tx_address(2) [of k] by (auto simp: unat_of_nat take_bit_nat_eq_self)

lemma send_loop_stores:
  assumes net: "dhcp_net e view reply"
  shows "i + length bs \<le> 2048 \<Longrightarrow> \<exists>w. send_loop e p (of_nat i) bs st = st\<lparr>dh_chip := w\<rparr> \<and>
    (\<forall>j < length bs. view w (S0_TX_BASE + ((p + of_nat (i + j)) AND S0_MASK)) = bs ! j) \<and>
    (\<forall>a. (\<forall>j. i \<le> j \<longrightarrow> j < i + length bs \<longrightarrow> a \<noteq> S0_TX_BASE + ((p + of_nat j) AND S0_MASK)) \<longrightarrow> view w a = view (dh_chip st) a)"
proof (induction bs arbitrary: i st)
  case Nil
  then show ?case by (intro exI [of _ "dh_chip st"]) simp
next
  case (Cons b bs)
  let ?a = "S0_TX_BASE + ((p + of_nat i) AND S0_MASK)"
  obtain w where w: "reg_write e (ucast ?a) b st = st\<lparr>dh_chip := w\<rparr>" "view w = (view (dh_chip st))(?a := b)"
    using write_reg [OF net tx_address(1)] by blast
  from Cons.IH [of "Suc i" "st\<lparr>dh_chip := w\<rparr>"] Cons.prems obtain w' where
    w': "send_loop e p (of_nat (Suc i)) bs (st\<lparr>dh_chip := w\<rparr>) = st\<lparr>dh_chip := w'\<rparr>"
    "\<forall>j < length bs. view w' (S0_TX_BASE + ((p + of_nat (Suc i + j)) AND S0_MASK)) = bs ! j"
    "\<forall>a. (\<forall>j. Suc i \<le> j \<longrightarrow> j < Suc i + length bs \<longrightarrow> a \<noteq> S0_TX_BASE + ((p + of_nat j) AND S0_MASK)) \<longrightarrow> view w' a = view w a"
    by fastforce
  have "view w' ?a = b"
  proof -
    have "?a \<noteq> S0_TX_BASE + ((p + of_nat j) AND S0_MASK)" if "Suc i \<le> j" "j < Suc i + length bs" for j
      using ring_slots_differ [of i j p] that Cons.prems by auto
    with w'(3) have "view w' ?a = view w ?a" by blast
    then show ?thesis by (simp add: w(2))
  qed
  then have "\<forall>j < length (b # bs). view w' (S0_TX_BASE + ((p + of_nat (i + j)) AND S0_MASK)) = (b # bs) ! j"
    using w'(2) by (auto simp: less_Suc_eq_0_disj simp del: of_nat_add of_nat_Suc)
  moreover have "send_loop e p (of_nat i) (b # bs) st = st\<lparr>dh_chip := w'\<rparr>" using w(1) w'(1) by (simp add: add.commute)
  moreover have "view w' a = view (dh_chip st) a"
    if "\<forall>j. i \<le> j \<longrightarrow> j < i + length (b # bs) \<longrightarrow> a \<noteq> S0_TX_BASE + ((p + of_nat j) AND S0_MASK)" for a
    using that w'(3) w(2) by simp
  ultimately show ?case by blast
qed

text \<open>What the server answers lies in the receive ring, and nothing else does.\<close>

definition answered :: "chip_view \<Rightarrow> u8 list \<Rightarrow> bool" where
  "answered u r \<longleftrightarrow> datagram_waits u r \<and> word_at u S0_RX_RSR = of_nat (8 + length r) \<and>
     word_at u S0_RX_WR = word_at u S0_RX_RD + of_nat (8 + length r)"

lemma packet_sent:
  assumes net: "dhcp_net e view reply" and empty: "tx_empty (view (dh_chip st))" "rx_empty (view (dh_chip st))"
    and len: "length buf \<le> 2048"
  shows "\<exists>w. w5100_send_bytes e buf st = Some (st\<lparr>dh_chip := w\<rparr>) \<and> address_regs (view w) = address_regs (view (dh_chip st)) \<and>
    tx_empty (view w) \<and> (\<forall>r. reply buf = Some r \<longrightarrow> length r \<le> 2040 \<longrightarrow> answered (view w) r)"
proof -
  let ?u = "view (dh_chip st)" and ?p = "word_at (view (dh_chip st)) S0_TX_WR"
  obtain w1 where w1: "send_loop e ?p 0 buf st = st\<lparr>dh_chip := w1\<rparr>"
    "\<forall>j < length buf. view w1 (S0_TX_BASE + ((?p + of_nat j) AND S0_MASK)) = buf ! j"
    "\<forall>a. (\<forall>j. j < length buf \<longrightarrow> a \<noteq> S0_TX_BASE + ((?p + of_nat j) AND S0_MASK)) \<longrightarrow> view w1 a = ?u a"
    using send_loop_stores [OF net, of 0 buf ?p st] len by auto
  have low: "view w1 a = ?u a" if "unat a < 0x4000" for a using w1(3) tx_below [OF that] by blast
  obtain w2 where w2: "w5100_write16 e S0_TX_WR (?p + of_nat (length buf)) (st\<lparr>dh_chip := w1\<rparr>) = st\<lparr>dh_chip := w2\<rparr>"
    "view w2 = (view w1)(S0_TX_WR := ucast (drop_bit 8 (?p + of_nat (length buf))), S0_TX_WR + 1 := ucast (?p + of_nat (length buf)))"
    using write_word [OF net, of S0_TX_WR _ "st\<lparr>dh_chip := w1\<rparr>"] by auto
  obtain w3 where w3: "w5100_cmd e CR_SEND (st\<lparr>dh_chip := w2\<rparr>) = Some (1, st\<lparr>dh_chip := w3\<rparr>)" "cmd_effect reply CR_SEND (view w2) (view w3)"
    using command_taken [OF net, of CR_SEND "st\<lparr>dh_chip := w2\<rparr>"] by auto
  have p: "word_at (view w2) S0_TX_WR = ?p + of_nat (length buf)" "word_at (view w2) S0_TX_RD = ?p"
    using empty(1) by (auto simp: w2(2) word_at_upd tx_empty_def) (simp add: word_at_def low S0_TX_RD_def S0_TX_WR_def)
  have ring: "ring_bytes (view w2) S0_TX_BASE ?p (length buf) = buf"
  proof (rule nth_equalityI)
    fix j assume "j < length (ring_bytes (view w2) S0_TX_BASE ?p (length buf))"
    moreover have "S0_TX_BASE + ((?p + of_nat j) AND S0_MASK) \<noteq> S0_TX_WR" "S0_TX_BASE + ((?p + of_nat j) AND S0_MASK) \<noteq> S0_TX_WR + 1"
      using tx_below [of S0_TX_WR "?p + of_nat j"] tx_below [of "S0_TX_WR + 1" "?p + of_nat j"] by (auto simp: S0_TX_WR_def)
    ultimately show "ring_bytes (view w2) S0_TX_BASE ?p (length buf) ! j = buf ! j"
      using w1(2) by (simp add: ring_bytes_def w2(2))
  qed (simp add: ring_bytes_def)
  have l: "unat (of_nat (length buf) :: u16) = length buf" using len by (intro unat_small_index) simp
  have addr: "address_regs (view w2) = address_regs ?u"
    by (simp add: w2(2) address_regs_def low W5100_SIPR_def S0_TX_WR_def)
  have rx: "word_at (view w2) S0_RX_RD = word_at ?u S0_RX_RD" "word_at (view w2) S0_RX_WR = word_at ?u S0_RX_RD"
    using empty(2) unfolding rx_empty_def
    by (simp_all add: w2(2)) (simp_all add: word_at_def low S0_RX_RD_def S0_RX_WR_def S0_TX_WR_def)
  have sent: "ring_bytes (view w2) S0_TX_BASE (word_at (view w2) S0_TX_RD)
      (unat (word_at (view w2) S0_TX_WR - word_at (view w2) S0_TX_RD)) = buf"
    unfolding p using ring l by simp
  have w3': "tx_empty (view w3)" "word_at (view w3) S0_RX_RD = word_at (view w2) S0_RX_RD"
    "word_at (view w3) S0_RX_RSR = word_at (view w3) S0_RX_WR - word_at (view w3) S0_RX_RD"
    "\<And>r. reply buf = Some r \<Longrightarrow> comes_in r (view w2) (view w3)"
    using w3(2) unfolding cmd_effect_def sent by auto
  have "answered (view w3) r" if rep: "reply buf = Some r" and small: "length r \<le> 2040" for r
  proof -
    have z: "rx_unread (view w2) = 0" by (simp add: rx_unread_def rx)
    then have "rx_unread (view w2) + 8 + length r \<le> 2048" using small by simp
    with w3'(4) [OF rep] have c: "word_at (view w3) S0_RX_WR = word_at ?u S0_RX_RD + of_nat (8 + length r)"
      "\<exists>h. length h = 6 \<and> ring_bytes (view w3) S0_RX_BASE (word_at ?u S0_RX_RD) (8 + length r) =
         h @ [of_nat (length r div 256), of_nat (length r)] @ r"
      unfolding comes_in_def rx by (simp_all only: if_True)
    show ?thesis
      unfolding answered_def datagram_waits_def rx_waiting_def w3'(3) w3'(2) rx(1) using c small by simp
  qed
  moreover have "address_regs (view w3) = address_regs ?u" using w3(2) addr by (simp add: cmd_effect_def)
  moreover have "w5100_send_bytes e buf st = Some (st\<lparr>dh_chip := w3\<rparr>)"
    by (simp add: w5100_send_bytes_def read_word [OF net] w1(1) w2(1) w3(1))
  ultimately show ?thesis using w3'(1) by blast
qed

section \<open>The exchange\<close>

lemma regs_upd_at: "regs_upd u r [a, b, c, d] = u(r := a, r + 1 := b, r + 2 := c, r + 3 := d)"
  by (simp add: add.assoc)

lemma socket_prepared:
  assumes net: "dhcp_net e view reply" and mac: "length mac = 6" and ip: "ip = [a, b, c, d]"
    and idle: "view (dh_chip st) S0_SR = 0 \<or> tx_empty (view (dh_chip st)) \<and> rx_empty (view (dh_chip st))"
  shows "\<exists>w. prepare_socket e mac ip st = Some (st\<lparr>dh_chip := w\<rparr>) \<and> tx_empty (view w) \<and> rx_empty (view w) \<and> address_regs (view w) = ip"
proof -
  have clear: "list_all (\<lambda>r. r \<notin> set chip_regs) (List.map (\<lambda>k. W5100_SHAR + of_nat k) [0..<6] @ List.map (\<lambda>k. W5100_SIPR + of_nat k) [0..<4] @
      List.map (\<lambda>k. S0_DIPR + of_nat k) [0..<4])" by code_simp
  then have shar: "\<forall>k < length (take 6 mac). W5100_SHAR + of_nat k \<notin> set chip_regs" and sipr: "\<forall>k < length ip. W5100_SIPR + of_nat k \<notin> set chip_regs"
    and dipr: "\<forall>k < length [255, 255, 255, 255 :: u8]. S0_DIPR + of_nat k \<notin> set chip_regs"
    using mac ip by (simp_all add: list_all_iff del: upt_Suc)
  obtain w1 where w1: "w5100_set_mac e mac st = st\<lparr>dh_chip := w1\<rparr>"
    "view w1 = regs_upd (view (dh_chip st)) W5100_SHAR (take 6 mac)"
    using write_regs_view [OF net shar, of st] unfolding w5100_set_mac_def by blast
  obtain w2 where w2: "write_regs e W5100_SIPR ip (st\<lparr>dh_chip := w1\<rparr>) = st\<lparr>dh_chip := w2\<rparr>" "view w2 = regs_upd (view w1) W5100_SIPR ip"
    using write_regs_view [OF net sipr, of "st\<lparr>dh_chip := w1\<rparr>"] by auto
  have a2: "address_regs (view w2) = ip"
    unfolding w2(2) ip regs_upd_at by (simp add: address_regs_def W5100_SIPR_def)
  have mr: "S0_MR \<notin> set chip_regs" by code_simp
  obtain w3 where w3: "reg_write e (ucast S0_MR) 0x02 (st\<lparr>dh_chip := w2\<rparr>) = st\<lparr>dh_chip := w3\<rparr>" "view w3 = (view w2)(S0_MR := 0x02)"
    using write_reg [OF net mr, of 2 "st\<lparr>dh_chip := w2\<rparr>"] by auto
  obtain w4 where w4: "w5100_write16 e S0_PORT 68 (st\<lparr>dh_chip := w3\<rparr>) = st\<lparr>dh_chip := w4\<rparr>"
    "view w4 = (view w3)(S0_PORT := ucast (drop_bit 8 (68 :: u16)), S0_PORT + 1 := ucast (68 :: u16))"
    using write_word [OF net, of S0_PORT 68 "st\<lparr>dh_chip := w3\<rparr>"] by auto
  have a4: "address_regs (view w4) = ip"
    unfolding a2 [symmetric] by (simp add: w3(2) w4(2) address_regs_def W5100_SIPR_def S0_MR_def S0_PORT_def)
  obtain w5 where w5: "w5100_cmd e CR_OPEN (st\<lparr>dh_chip := w4\<rparr>) = Some (1, st\<lparr>dh_chip := w5\<rparr>)" "cmd_effect reply CR_OPEN (view w4) (view w5)"
    using command_taken [OF net, of CR_OPEN "st\<lparr>dh_chip := w4\<rparr>"] by auto
  obtain m1 m2 m3 m4 m5 m6 where m: "take 6 mac = [m1, m2, m3, m4, m5, m6]"
    using mac by (auto simp: length_Suc_conv numeral_eq_Suc)
  have same: "view w4 r = view (dh_chip st) r"
    if "r \<in> set (S0_SR # concat (List.map (\<lambda>r. [r, r + 1]) [S0_TX_RD, S0_TX_WR, S0_RX_RD, S0_RX_WR]))" for r
    using that unfolding w4(2) w3(2) w2(2) w1(2) m ip
    by (auto simp: S0_SR_def S0_TX_RD_def S0_TX_WR_def S0_RX_RD_def S0_RX_WR_def S0_PORT_def S0_MR_def W5100_SIPR_def W5100_SHAR_def)
  have "tx_empty (view w5) \<and> rx_empty (view w5)"
    using w5(2) idle by (auto simp: cmd_effect_def pointers_kept_def tx_empty_def rx_empty_def word_at_def same)
  with w5(2) a4 have a5: "address_regs (view w5) = ip" "tx_empty (view w5)" "rx_empty (view w5)"
    by (simp_all add: cmd_effect_def)
  obtain w6 where w6: "write_regs e S0_DIPR [255, 255, 255, 255] (st\<lparr>dh_chip := w5\<rparr>) = st\<lparr>dh_chip := w6\<rparr>"
    "view w6 = regs_upd (view w5) S0_DIPR [255, 255, 255, 255]"
    using write_regs_view [OF net dipr, of "st\<lparr>dh_chip := w5\<rparr>"] by auto
  obtain w7 where w7: "w5100_write16 e S0_DPORT 67 (st\<lparr>dh_chip := w6\<rparr>) = st\<lparr>dh_chip := w7\<rparr>"
    "view w7 = (view w6)(S0_DPORT := ucast (drop_bit 8 (67 :: u16)), S0_DPORT + 1 := ucast (67 :: u16))"
    using write_word [OF net, of S0_DPORT 67 "st\<lparr>dh_chip := w6\<rparr>"] by auto
  have "address_regs (view w7) = ip" "tx_empty (view w7)" "rx_empty (view w7)"
    using a5 unfolding w7(2) w6(2) regs_upd_at
    by (simp_all add: address_regs_def tx_empty_def word_at_def W5100_SIPR_def S0_DIPR_def S0_DPORT_def S0_TX_RD_def S0_TX_WR_def
        rx_empty_def S0_RX_RD_def S0_RX_WR_def)
  moreover have "prepare_socket e mac ip st = Some (st\<lparr>dh_chip := w7\<rparr>)"
    unfolding prepare_socket_def w1(1) Let_def w2(1) w3(1) w4(1) w5(1) Option.bind.bind_lunit prod.case w6(1) w7(1) ..
  ultimately show ?thesis by blast
qed

lemma answer_awaited:
  assumes net: "dhcp_net e view reply" and there: "n \<le> word_at (view (dh_chip st)) S0_RX_RSR"
  shows "\<exists>w. wait_rx_at_least e n t st = Some (1, st\<lparr>dh_chip := w\<rparr>) \<and> view w = view (dh_chip st)"
proof -
  from net obtain now w where w: "wz_systick e (dh_chip st) = (now, w)" "view w = view (dh_chip st)" unfolding dhcp_net_def by meson
  have "w5100_get_rx_size e (st\<lparr>dh_chip := w\<rparr>) = Some (word_at (view (dh_chip st)) S0_RX_RSR, st\<lparr>dh_chip := w\<rparr>)"
    by (subst w5100_get_rx_size.simps) (simp add: read_word [OF net] w(2))
  then have "wait_rx_loop e n t (now * 10) (st\<lparr>dh_chip := w\<rparr>) = Some (1, st\<lparr>dh_chip := w\<rparr>)"
    using leD [OF there] by (subst wait_rx_loop.simps) simp
  then show ?thesis using w by (intro exI [of _ w]) (simp add: wait_rx_at_least_def get_tick_ms_def)
qed

lemma socket_closed:
  assumes net: "dhcp_net e view reply"
  shows "\<exists>w. close_socket e r st = Some (r, st\<lparr>dh_chip := w\<rparr>) \<and> address_regs (view w) = address_regs (view (dh_chip st)) \<and> view w S0_SR = 0"
  using command_taken [OF net, of CR_CLOSE st] by (auto simp: close_socket_def cmd_effect_def)

text \<open>
  A message of a server: its options with their end mark lie within the buffer.  \<open>message_says\<close>: the type
  and the server that the options name.
\<close>

definition message_says :: "u8 list \<Rightarrow> u8 \<Rightarrow> u8 list \<Rightarrow> bool" where
  "message_says r t srv \<longleftrightarrow> length r \<le> DHCP_PKT_BUF_SIZE \<and>
     (\<exists>hdr opts rest. r = hdr @ encode_options opts @ 0xFF # rest \<and> length hdr = 240 \<and> (\<forall>x \<in> set opts. option_ok x) \<and>
        fold option_effect opts (0, Some [0, 0, 0, 0]) = (t, Some srv))"

lemma message_parsed:
  assumes "message_says r t srv" "length buf = DHCP_PKT_BUF_SIZE"
  shows "parsed_options (take DHCP_PKT_BUF_SIZE r @ drop (length r) buf) [0, 0, 0, 0] = Some (t, srv)"
proof -
  obtain hdr opts rest where m: "r = hdr @ encode_options opts @ 0xFF # rest" "length hdr = 240" "\<forall>x \<in> set opts. option_ok x"
    "fold option_effect opts (0, Some [0, 0, 0, 0]) = (t, Some srv)" and l: "length r \<le> DHCP_PKT_BUF_SIZE"
    using assms(1) unfolding message_says_def by blast
  let ?raw = "take DHCP_PKT_BUF_SIZE r @ drop (length r) buf"
  have raw: "?raw = hdr @ encode_options opts @ 0xFF # (rest @ drop (length r) buf)" using l m(1) by simp
  have "length (hdr @ encode_options opts @ 0xFF # (rest @ drop (length r) buf)) < 2 ^ 16"
    unfolding raw [symmetric] using l assms(2) by (simp add: DHCP_PKT_BUF_SIZE_def)
  from options_parsed [OF m(2,3) this raw, of "Some [0, 0, 0, 0]"] show ?thesis
    unfolding m(4) by (simp only: parsed_options_def option.case sum.case prod.case)
qed

lemma message_fields:
  assumes "message_says r t srv" "k + 4 \<le> 240"
  shows "take 4 (drop k (take DHCP_PKT_BUF_SIZE r @ drop (length r) buf)) = take 4 (drop k r)" "length (take 4 (drop k r)) = 4"
    "240 \<le> length r" "length r \<le> 320"
  using assms by (auto simp: message_says_def DHCP_PKT_BUF_SIZE_def)

lemma address_written:
  assumes net: "dhcp_net e view reply" and ip: "length ip = 4"
  shows "\<exists>w. write_regs e W5100_SIPR ip st = st\<lparr>dh_chip := w\<rparr> \<and> address_regs (view w) = ip"
proof -
  obtain a b c d where "ip = [a, b, c, d]" using ip by (auto simp: length_Suc_conv numeral_eq_Suc)
  moreover have "list_all (\<lambda>k. W5100_SIPR + of_nat k \<notin> set chip_regs) [0..<4]" by code_simp
  then have "\<forall>k < length ip. W5100_SIPR + of_nat k \<notin> set chip_regs" using ip by (simp add: list_all_iff del: upt_Suc)
  from write_regs_view [OF net this, of st] obtain w where
    "write_regs e W5100_SIPR ip st = st\<lparr>dh_chip := w\<rparr>" "view w = regs_upd (view (dh_chip st)) W5100_SIPR ip" by blast
  ultimately show ?thesis
    by (intro exI [of _ w]) (simp add: address_regs_def W5100_SIPR_def)
qed

text \<open>A packet is sent, its answer is there and is received.\<close>

lemma packet_answered:
  assumes net: "dhcp_net e view reply" and empty: "tx_empty (view (dh_chip st))" "rx_empty (view (dh_chip st))"
    and mac: "length mac = 6" and host: "length hostname \<le> 57"
    and ask: "\<forall>ip srv. ask = Some (ip, srv) \<longrightarrow> length ip = 4 \<and> length srv = 4 \<and> msg_type = DHCP_REQUEST"
    and answer: "reply (dhcp_packet msg_type xid mac hostname ask) = Some r" and says: "message_says r t srv'"
    and buf: "length buf = DHCP_PKT_BUF_SIZE"
  shows "\<exists>w1 w2 w3. enviar_pacote_dhcp e msg_type xid mac hostname (map_option fst ask) (map_option snd ask) st = Some (st\<lparr>dh_chip := w1\<rparr>) \<and>
    wait_rx_at_least e (of_nat OFF_OPTIONS) ms (st\<lparr>dh_chip := w1\<rparr>) = Some (1, st\<lparr>dh_chip := w2\<rparr>) \<and>
    w5100_recv_udp_packet e buf (st\<lparr>dh_chip := w2\<rparr>) =
      Some (of_nat (length r), take DHCP_PKT_BUF_SIZE r @ drop (length r) buf, st\<lparr>dh_chip := w3\<rparr>) \<and>
    address_regs (view w3) = address_regs (view (dh_chip st)) \<and> tx_empty (view w3) \<and> rx_empty (view w3)"
proof -
  let ?p = "dhcp_packet msg_type xid mac hostname ask"
  note l = message_fields(3,4) [OF says, of 0]
  have "length (encode_options (request_options msg_type hostname ask)) \<le> 22 + length hostname"
    using ask by (auto simp: request_options_def split: option.splits)
  then have "length ?p \<le> 2048" using length_dhcp_header [OF mac] host by (simp add: dhcp_packet_def Let_def)
  from packet_sent [OF net empty this] answer obtain w1 where
    w1: "w5100_send_bytes e ?p st = Some (st\<lparr>dh_chip := w1\<rparr>)" "address_regs (view w1) = address_regs (view (dh_chip st))"
    "answered (view w1) r" "tx_empty (view w1)" using l by auto
  have "word_at (view w1) S0_RX_RSR \<ge> of_nat OFF_OPTIONS"
    using w1(3) l by (simp add: answered_def OFF_OPTIONS_def word_le_nat_alt unat_small_index del: of_nat_add)
  with answer_awaited [OF net, of "of_nat OFF_OPTIONS" "st\<lparr>dh_chip := w1\<rparr>" ms] obtain w2 where
    w2: "wait_rx_at_least e (of_nat OFF_OPTIONS) ms (st\<lparr>dh_chip := w1\<rparr>) = Some (1, st\<lparr>dh_chip := w2\<rparr>)" "view w2 = view w1" by auto
  have "datagram_waits (view (dh_chip (st\<lparr>dh_chip := w2\<rparr>))) r" using w1(3) w2(2) by (simp add: answered_def)
  from udp_packet_received [OF net this, of buf] buf obtain w3 where
    "w5100_recv_udp_packet e buf (st\<lparr>dh_chip := w2\<rparr>) = Some (of_nat (length r), take (length buf) r @ drop (length r) buf, st\<lparr>dh_chip := w3\<rparr>)"
    "rx_moved (of_nat (8 + length r)) (view w2) (view w3)" by (auto simp: DHCP_PKT_BUF_SIZE_def)
  moreover from this(2) have "address_regs (view w3) = address_regs (view w2)" "tx_empty (view w3)" "rx_empty (view w3)"
    using w1(3,4) w2(2) by (auto simp: rx_moved_def rx_empty_def answered_def)
  ultimately show ?thesis using w1 w2 unfolding enviar_pacote_dhcp_sends [OF mac host ask] buf by metis
qed

definition board_mac :: "u8 list" where "board_mac = [0x00, 0x23, 0x69, 0x44, 0x52, 0x5C]"

definition first_address :: "u8 list" where "first_address = [192, 168, 1, 48]"

text \<open>
  C20: The exchange with a server that answers the DISCOVER with an offer and the REQUEST for it with a second
  message, the socket being closed at the start: it always returns, and it returns 1 with the address of that message in the chip exactly if the
  message is an acknowledgement; otherwise the chip has the address that the client gives it for the
  exchange.  The socket is closed again.  The second message is found only because the first was read to
  its end: the chip puts it at its write pointer, and what waits is counted from there
  (\<open>comes_in\<close>, \<open>cmd_effect\<close>), whether or not the second OPEN of the socket, which is open already, starts anew.
\<close>

theorem lease_taken_iff_acknowledged:
  assumes net: "dhcp_net e view reply" and host: "length hostname \<le> 57" and buf: "length rx_buf = DHCP_PKT_BUF_SIZE"
    and closed: "view (dh_chip st) S0_SR = 0"
    and offer: "reply (dhcp_packet DHCP_DISCOVER (fst (next_xid st)) board_mac hostname None) = Some r1" "message_says r1 DHCP_OFFER s"
    and srv: "srv = (if s = [0, 0, 0, 0] then take 4 (drop OFF_SIADDR r1) else s)" "length s = 4"
    and answer: "reply (dhcp_packet DHCP_REQUEST (fst (next_xid st)) board_mac hostname (Some (take 4 (drop OFF_YIADDR r1), srv))) = Some r2"
      "message_says r2 t s2"
  shows "\<exists>st'. w5100_dhcp_request e hostname rx_buf st = Some (if t = DHCP_ACK then 1 else 0, st') \<and>
    address_regs (view (dh_chip st')) = (if t = DHCP_ACK then take 4 (drop OFF_YIADDR r2) else first_address) \<and>
    view (dh_chip st') S0_SR = 0"
proof -
  let ?xid = "fst (next_xid st)" and ?st = "\<lambda>w. (snd (next_xid st))\<lparr>dh_chip := w\<rparr>"
  have mac: "length board_mac = 6" by (simp add: board_mac_def)
  have nx: "next_xid (st\<lparr>dh_chip := w\<rparr>) = (?xid, ?st w)" for w by (simp add: next_xid_def Let_def)
  let ?b1 = "take DHCP_PKT_BUF_SIZE r1 @ drop (length r1) rx_buf" and ?b2 = "take DHCP_PKT_BUF_SIZE r2 @ drop (length r2) (take DHCP_PKT_BUF_SIZE r1 @ drop (length r1) rx_buf)"
  have b1: "length ?b1 = DHCP_PKT_BUF_SIZE" using message_fields(4) [OF offer(2), of 0] buf by (simp add: DHCP_PKT_BUF_SIZE_def)
  have yi: "OFF_YIADDR + 4 \<le> 240" "OFF_SIADDR + 4 \<le> 240" by (simp_all add: OFF_YIADDR_def OFF_SIADDR_def)
  note f1 = message_fields(1,2) [OF offer(2) yi(1)] message_fields(1,2) [OF offer(2) yi(2)] and f2 = message_fields(1,2) [OF answer(2) yi(1)]
  have srv4: "length srv = 4" using srv f1(4) by simp
  obtain w0 where w0: "prepare_socket e board_mac first_address st = Some (st\<lparr>dh_chip := w0\<rparr>)" "tx_empty (view w0)" "rx_empty (view w0)"
    using socket_prepared [OF net mac first_address_def disjI1 [OF closed]] by blast
  have "tx_empty (view (dh_chip (?st w0)))" "rx_empty (view (dh_chip (?st w0)))" using w0(2,3) by simp_all
  from packet_answered [OF net this mac host _ offer buf, of DHCP_WAIT_TIMEOUT_MS] obtain w1 w2 w3 where
    p1: "enviar_pacote_dhcp e DHCP_DISCOVER ?xid board_mac hostname None None (?st w0) = Some (?st w1)"
    "wait_rx_at_least e (of_nat OFF_OPTIONS) DHCP_WAIT_TIMEOUT_MS (?st w1) = Some (1, ?st w2)"
    "w5100_recv_udp_packet e rx_buf (?st w2) = Some (of_nat (length r1), ?b1, ?st w3)" "tx_empty (view w3)" "rx_empty (view w3)"
    by auto
  obtain w4 where w4: "prepare_socket e board_mac first_address (?st w3) = Some (?st w4)" "tx_empty (view w4)"
    "address_regs (view w4) = first_address" "rx_empty (view w4)"
    using socket_prepared [OF net mac first_address_def, of "?st w3"] p1(4,5) by (auto simp: first_address_def)
  have "tx_empty (view (dh_chip (?st w4)))" "rx_empty (view (dh_chip (?st w4)))" using w4(2,4) by simp_all
  from packet_answered [OF net this mac host _ answer b1, of 50000] f1(2) srv4 obtain w5 w6 w7 where
    p2: "enviar_pacote_dhcp e DHCP_REQUEST ?xid board_mac hostname (Some (take 4 (drop OFF_YIADDR r1))) (Some srv) (?st w4) = Some (?st w5)"
    "wait_rx_at_least e (of_nat OFF_OPTIONS) 50000 (?st w5) = Some (1, ?st w6)"
    "w5100_recv_udp_packet e ?b1 (?st w6) = Some (of_nat (length r2), ?b2, ?st w7)" "address_regs (view w7) = first_address"
    using w4(3) by auto
  note parsed = message_parsed [OF offer(2) buf] message_parsed [OF answer(2) b1]
  define rest where "rest = (if t = DHCP_NAK then close_socket e 0 (dh_printf (''Servidor recusou (NAK). Tente novamente.'' @ [CHR 0x0A]) [] (?st w7))
      else if t \<noteq> DHCP_ACK then close_socket e 0 (dh_printf (''Pacote recebido nao e um ACK (tipo=%d)'' @ [CHR 0x0A]) [ucast t] (?st w7))
      else close_socket e 1 (write_regs e W5100_SIPR (take 4 (drop OFF_YIADDR r2)) (?st w7)))"
  have "w5100_dhcp_request e hostname rx_buf st = rest"
    unfolding w5100_dhcp_request_def Let_def board_mac_def [symmetric] first_address_def [symmetric] w0(1) Option.bind.bind_lunit nx prod.case p1(1-3) one_neq_zero
      if_False parsed(1) not_not simp_thms f1(1,3) srv(1) [symmetric] w4(1) p2(1-3) parsed(2) f2(1) rest_def
    by simp
  moreover have "\<exists>st'. rest = Some (if t = DHCP_ACK then 1 else 0, st') \<and>
      address_regs (view (dh_chip st')) = (if t = DHCP_ACK then take 4 (drop OFF_YIADDR r2) else first_address) \<and>
      view (dh_chip st') S0_SR = 0"
  proof (cases "t = DHCP_ACK")
    case True
    obtain w8 where w8: "write_regs e W5100_SIPR (take 4 (drop OFF_YIADDR r2)) (?st w7) = ?st w8"
      "address_regs (view w8) = take 4 (drop OFF_YIADDR r2)" using address_written [OF net f2(2), of "?st w7"] by auto
    moreover have "DHCP_ACK \<noteq> DHCP_NAK" by code_simp
    ultimately show ?thesis using socket_closed [OF net, of 1 "?st w8"] True by (auto simp: rest_def)
  next
    case False
    then show ?thesis
      using socket_closed [OF net, of 0 "dh_printf (''Servidor recusou (NAK). Tente novamente.'' @ [CHR 0x0A]) [] (?st w7)"]
        socket_closed [OF net, of 0 "dh_printf (''Pacote recebido nao e um ACK (tipo=%d)'' @ [CHR 0x0A]) [ucast t] (?st w7)"] p2(4)
      unfolding rest_def by (cases "t = DHCP_NAK") (auto simp: dh_printf_def)
  qed
  ultimately show ?thesis by simp
qed

text \<open>
  The whole buffer is parsed, not the datagram: when a message ends before the options of the message
  before it, those take effect again.
\<close>

lemma stale_options_parsed:
  assumes "length r = 240" "length hdr = 240" "\<forall>x \<in> set opts. option_ok x"
    and "length (hdr @ encode_options opts @ 0xFF # rest) = DHCP_PKT_BUF_SIZE"
    and "fold option_effect opts (0, Some [0, 0, 0, 0]) = (t, Some srv)"
  shows "parsed_options (take DHCP_PKT_BUF_SIZE r @ drop (length r) (hdr @ encode_options opts @ 0xFF # rest)) [0, 0, 0, 0] = Some (t, srv)"
proof -
  have raw: "take DHCP_PKT_BUF_SIZE r @ drop (length r) (hdr @ encode_options opts @ 0xFF # rest) = r @ encode_options opts @ 0xFF # rest"
    using assms(1,2) by (simp add: DHCP_PKT_BUF_SIZE_def)
  have "length (r @ encode_options opts @ 0xFF # rest) < 2 ^ 16" using assms(1,2,4) by (simp add: DHCP_PKT_BUF_SIZE_def)
  from options_parsed [OF assms(1,3) this refl, of "Some [0, 0, 0, 0]"] show ?thesis
    unfolding raw assms(5) by (simp only: parsed_options_def option.case sum.case prod.case)
qed

section \<open>The theorems at work\<close>

text \<open>A chip whose state is its registers and rings, with any server.\<close>

definition chip_offset :: "u32 \<Rightarrow> u16" where
  "chip_offset a = ucast (drop_bit 1 (a - W5100_BASE - 1))"

definition ring_filled :: "chip_view \<Rightarrow> u16 \<Rightarrow> u8 list \<Rightarrow> chip_view" where
  "ring_filled u p bs a =
     (let j = unat ((a - S0_RX_BASE - p) AND S0_MASK)
      in if S0_RX_BASE \<le> a \<and> a \<le> S0_RX_BASE + S0_MASK \<and> j < length bs then bs ! j else u a)"

definition rsr_set :: "chip_view \<Rightarrow> chip_view" where
  "rsr_set u = (let n = word_at u S0_RX_WR - word_at u S0_RX_RD
     in u(S0_RX_RSR := ucast (drop_bit 8 n), S0_RX_RSR + 1 := ucast n))"

definition model_send :: "(u8 list \<Rightarrow> u8 list option) \<Rightarrow> chip_view \<Rightarrow> chip_view" where
  "model_send reply u =
     (let u1 = u(S0_TX_RD := u S0_TX_WR, S0_TX_RD + 1 := u (S0_TX_WR + 1))
      in case reply (ring_bytes u S0_TX_BASE (word_at u S0_TX_RD) (unat (word_at u S0_TX_WR - word_at u S0_TX_RD))) of
           None \<Rightarrow> u1
         | Some r \<Rightarrow>
             if rx_unread u + 8 + length r \<le> 2048
             then let n = word_at u S0_RX_WR + of_nat (8 + length r)
               in ring_filled (u1(S0_RX_WR := ucast (drop_bit 8 n), S0_RX_WR + 1 := ucast n)) (word_at u S0_RX_WR)
                    ([192, 168, 1, 1, 0, 67] @ [of_nat (length r div 256), of_nat (length r)] @ r)
             else u1)"

text \<open>This chip takes no notice of an \<open>OPEN\<close> when its socket is open.\<close>

definition model_command :: "(u8 list \<Rightarrow> u8 list option) \<Rightarrow> u8 \<Rightarrow> chip_view \<Rightarrow> chip_view" where
  "model_command reply c u =
     (rsr_set (if c = CR_OPEN \<and> u S0_SR = 0 then u(S0_SR := 0x22, S0_TX_WR := u S0_TX_RD, S0_TX_WR + 1 := u (S0_TX_RD + 1),
          S0_RX_RD := u S0_RX_WR, S0_RX_RD + 1 := u (S0_RX_WR + 1))
       else if c = CR_SEND then model_send reply u
       else if c = CR_CLOSE then u(S0_SR := 0) else u))(S0_CR := 0)"

definition model_chip :: "(u8 list \<Rightarrow> u8 list option) \<Rightarrow> chip_view w5100" where
  "model_chip reply = \<lparr>
     wz_read = (\<lambda>a u. (u (chip_offset a), u)),
     wz_write = (\<lambda>a v u. if chip_offset a = S0_CR then model_command reply v u else u(chip_offset a := v)),
     wz_systick = (\<lambda>u. (0, u))\<rparr>"

lemma chip_offset_reg: "chip_offset (W5100_REG (ucast r)) = r"
proof -
  have n: "unat r < 2 ^ 16" using unsigned_less [of r, where ?'a = nat] by simp
  have c: "(ucast r :: u32) = of_nat (unat r)" by (simp add: word_unat_eq_iff unat_of_nat take_bit_nat_eq_self unsigned_ucast_eq)
  have "drop_bit 1 (of_nat k * 2 :: u32) = of_nat k" if "k < 2 ^ 16" for k
  proof -
    have u: "unat (of_nat k :: u32) = k" using that by (simp add: unat_of_nat take_bit_nat_eq_self)
    then have "unat (of_nat k * 2 :: u32) = k * 2" using that by (simp add: unat_word_ariths)
    then show ?thesis using u by (simp add: word_unat_eq_iff drop_bit_eq_div unat_div)
  qed
  from this [OF n] have "drop_bit 1 (of_nat (unat r) * 2 :: u32) = of_nat (unat r)" .
  then have "drop_bit 1 (ucast r * 2 :: u32) = ucast r" unfolding c .
  moreover have "ucast (ucast r :: u32) = r" by (rule bit_word_eqI) (auto simp: bit_simps dest: bit_imp_le_length)
  ultimately show ?thesis by (simp add: chip_offset_def W5100_REG_def)
qed

lemma ring_filled_below: "unat a < 0x6000 \<Longrightarrow> ring_filled u p bs a = u a"
  by (simp add: ring_filled_def S0_RX_BASE_def word_le_nat_alt)

lemma ring_index_from:
  "unat ((S0_RX_BASE + ((q + x) AND S0_MASK) - S0_RX_BASE - p) AND S0_MASK) = nat ((uint q + uint x - uint p) mod 2048)"
proof -
  have m: "S0_MASK = mask 11" by (simp add: S0_MASK_def mask_eq_exp_minus_1)
  have "uint ((S0_RX_BASE + ((q + x) AND S0_MASK) - S0_RX_BASE - p) AND S0_MASK) =
      ((uint q + uint x) mod 65536 mod 2048 - uint p) mod 65536 mod 2048"
    by (simp add: m take_bit_eq_mask [symmetric] unsigned_take_bit_eq uint_word_ariths take_bit_int_def)
  also have "\<dots> = (uint q + uint x - uint p) mod 2048" by (simp add: mod_mod_cancel mod_diff_left_eq)
  finally show ?thesis by (simp add: unat_eq_nat_uint)
qed

lemma ring_index:
  assumes "k < 2048"
  shows "unat ((S0_RX_BASE + ((p + of_nat k) AND S0_MASK) - S0_RX_BASE - p) AND S0_MASK) = k"
proof -
  have "uint (of_nat k :: u16) = int k" using unat_small_index [of k] assms by (simp add: uint_nat)
  with assms show ?thesis unfolding ring_index_from by simp
qed

text \<open>The \<open>n\<close> bytes in front of \<open>p\<close>.\<close>

lemma ring_index_before:
  assumes "k < n" "n \<le> 2048" "p = q + of_nat n"
  shows "unat ((S0_RX_BASE + ((q + of_nat k) AND S0_MASK) - S0_RX_BASE - p) AND S0_MASK) = 2048 + k - n"
proof -
  have u: "uint (of_nat k :: u16) = int k" "uint (of_nat n :: u16) = int n"
    using unat_small_index [of k] unat_small_index [of n] assms by (simp_all add: uint_nat)
  have "(uint q + int k - uint p) mod 2048 = (uint q + int k - (uint q + int n) mod 65536 mod 2048) mod 2048"
    unfolding assms(3) by (simp add: uint_word_ariths u mod_diff_right_eq)
  also have "\<dots> = (uint q + int k - (uint q + int n)) mod 2048" by (simp add: mod_mod_cancel mod_diff_right_eq)
  also have "\<dots> = (2048 + int k - int n) mod 2048"
    using mod_add_self1 [of "2048 :: int" "int k - int n"] by (simp add: algebra_simps)
  also have "\<dots> = 2048 + int k - int n" using assms(1,2) by (intro mod_pos_pos_trivial) auto
  finally show ?thesis unfolding ring_index_from u by (simp add: nat_diff_distrib')
qed

lemma ring_filled_bytes:
  assumes "length bs \<le> 2048"
  shows "ring_bytes (ring_filled u p bs) S0_RX_BASE p (length bs) = bs"
proof (rule nth_equalityI)
  fix k assume "k < length (ring_bytes (ring_filled u p bs) S0_RX_BASE p (length bs))"
  then have k: "k < length bs" by (simp add: ring_bytes_def)
  have "(p + of_nat k) AND S0_MASK \<le> S0_MASK" by (rule word_and_le1)
  then have "S0_RX_BASE \<le> S0_RX_BASE + ((p + of_nat k) AND S0_MASK)" "S0_RX_BASE + ((p + of_nat k) AND S0_MASK) \<le> S0_RX_BASE + S0_MASK"
    by (simp_all add: word_le_nat_alt S0_RX_BASE_def S0_MASK_def unat_word_ariths)
  then show "ring_bytes (ring_filled u p bs) S0_RX_BASE p (length bs) ! k = bs ! k"
    using k assms ring_index [of k p] by (simp add: ring_bytes_def ring_filled_def Let_def)
qed (simp add: ring_bytes_def)

lemma ring_filled_before:
  assumes "n + length bs \<le> 2048" "p = q + of_nat n"
  shows "ring_bytes (ring_filled u p bs) S0_RX_BASE q n = ring_bytes u S0_RX_BASE q n"
proof (rule nth_equalityI)
  fix k assume "k < length (ring_bytes (ring_filled u p bs) S0_RX_BASE q n)"
  then have k: "k < n" by (simp add: ring_bytes_def)
  have "unat ((S0_RX_BASE + ((q + of_nat k) AND S0_MASK) - S0_RX_BASE - p) AND S0_MASK) = 2048 + k - n"
    by (rule ring_index_before) (use k assms in simp_all)
  moreover have "\<not> 2048 + k - n < length bs" using k assms(1) by simp
  ultimately show "ring_bytes (ring_filled u p bs) S0_RX_BASE q n ! k = ring_bytes u S0_RX_BASE q n ! k"
    using k by (simp add: ring_bytes_def ring_filled_def Let_def del: add_diff_cancel_left')
qed (simp add: ring_bytes_def)

lemmas socket_reg_defs = W5100_SIPR_def S0_CR_def S0_SR_def S0_TX_RD_def S0_TX_WR_def S0_RX_RSR_def S0_RX_RD_def S0_RX_WR_def

lemma ring_bytes_cong:
  "(\<And>k. u' (S0_RX_BASE + (k AND S0_MASK)) = u (S0_RX_BASE + (k AND S0_MASK))) \<Longrightarrow>
    ring_bytes u' S0_RX_BASE p n = ring_bytes u S0_RX_BASE p n"
  by (simp add: ring_bytes_def)

lemma socket_reg_address:
  "a \<in> set (chip_regs @ [S0_TX_WR, S0_TX_WR + 1, S0_RX_RD, S0_RX_RD + 1]) \<Longrightarrow> S0_RX_BASE + (k AND S0_MASK) \<noteq> a"
proof
  assume a: "a \<in> set (chip_regs @ [S0_TX_WR, S0_TX_WR + 1, S0_RX_RD, S0_RX_RD + 1])" and e: "S0_RX_BASE + (k AND S0_MASK) = a"
  have "list_all (\<lambda>a. a < 0x430) (chip_regs @ [S0_TX_WR, S0_TX_WR + 1, S0_RX_RD, S0_RX_RD + 1])" by code_simp
  with a have "a < 0x430" by (auto simp: list_all_iff)
  moreover have "k AND S0_MASK \<le> S0_MASK" by (rule word_and_le1)
  then have "unat (S0_RX_BASE + (k AND S0_MASK)) \<ge> 0x6000"
    by (simp add: S0_RX_BASE_def unat_word_ariths word_le_nat_alt S0_MASK_def)
  ultimately show False unfolding e by (simp add: word_less_nat_alt)
qed

text \<open>The last step of every command: the size and the command register.\<close>

definition finished :: "chip_view \<Rightarrow> chip_view" where
  "finished u = (rsr_set u)(S0_CR := 0)"

lemma finished:
  "finished u S0_CR = 0" "finished u S0_SR = u S0_SR" "address_regs (finished u) = address_regs u" "pointers_kept u (finished u)" "ring_kept u (finished u)"
  "word_at (finished u) S0_RX_RSR = word_at (finished u) S0_RX_WR - word_at (finished u) S0_RX_RD"
proof -
  have [simp]: "word_at (finished u) S0_TX_RD = word_at u S0_TX_RD" "word_at (finished u) S0_TX_WR = word_at u S0_TX_WR"
    "word_at (finished u) S0_RX_RD = word_at u S0_RX_RD" "word_at (finished u) S0_RX_WR = word_at u S0_RX_WR"
    by (simp_all add: finished_def rsr_set_def Let_def word_at_def socket_reg_defs)
  show "finished u S0_CR = 0" "finished u S0_SR = u S0_SR" "address_regs (finished u) = address_regs u" "pointers_kept u (finished u)"
    by (simp_all add: pointers_kept_def) (simp_all add: finished_def rsr_set_def Let_def address_regs_def socket_reg_defs)
  have "word_at (finished u) S0_RX_RSR = word_at (rsr_set u) S0_RX_RSR"
    by (simp add: finished_def word_at_def socket_reg_defs)
  also have "\<dots> = word_at u S0_RX_WR - word_at u S0_RX_RD" unfolding rsr_set_def Let_def by (rule word_at_upd)
  finally show "word_at (finished u) S0_RX_RSR = word_at (finished u) S0_RX_WR - word_at (finished u) S0_RX_RD" by simp
  show "ring_kept u (finished u)"
    using socket_reg_address [of S0_CR] socket_reg_address [of S0_RX_RSR] socket_reg_address [of "S0_RX_RSR + 1"]
    by (simp add: ring_kept_def finished_def rsr_set_def Let_def chip_regs_def)
qed

lemma model_send_effect:
  shows "address_regs (model_send reply u) = address_regs u" "word_at (model_send reply u) S0_TX_RD = word_at u S0_TX_WR"
    "word_at (model_send reply u) S0_TX_WR = word_at u S0_TX_WR" "word_at (model_send reply u) S0_RX_RD = word_at u S0_RX_RD"
    "case reply (ring_bytes u S0_TX_BASE (word_at u S0_TX_RD) (unat (word_at u S0_TX_WR - word_at u S0_TX_RD))) of
       None \<Rightarrow> word_at (model_send reply u) S0_RX_WR = word_at u S0_RX_WR \<and> ring_kept u (model_send reply u)
     | Some r \<Rightarrow> comes_in r u (model_send reply u)"
proof -
  let ?u1 = "u(S0_TX_RD := u S0_TX_WR, S0_TX_RD + 1 := u (S0_TX_WR + 1))"
  let ?rep = "reply (ring_bytes u S0_TX_BASE (word_at u S0_TX_RD) (unat (word_at u S0_TX_WR - word_at u S0_TX_RD)))"
  have k1: "ring_kept u ?u1"
    using socket_reg_address [of S0_TX_RD] socket_reg_address [of "S0_TX_RD + 1"] by (simp add: ring_kept_def chip_regs_def)
  have w1: "word_at ?u1 S0_RX_WR = word_at u S0_RX_WR" by (simp add: word_at_def socket_reg_defs)
  let ?goal = "address_regs (model_send reply u) = address_regs u \<and> word_at (model_send reply u) S0_TX_RD = word_at u S0_TX_WR \<and>
    word_at (model_send reply u) S0_TX_WR = word_at u S0_TX_WR \<and> word_at (model_send reply u) S0_RX_RD = word_at u S0_RX_RD \<and>
    (case ?rep of None \<Rightarrow> word_at (model_send reply u) S0_RX_WR = word_at u S0_RX_WR \<and> ring_kept u (model_send reply u)
     | Some r \<Rightarrow> comes_in r u (model_send reply u))"
  have low: ?goal if m: "model_send reply u = ?u1" and r: "\<And>r. ?rep = Some r \<Longrightarrow> \<not> rx_unread u + 8 + length r \<le> 2048"
    unfolding m using k1 w1 r by (auto simp: comes_in_def split: option.split) (simp_all add: address_regs_def word_at_def socket_reg_defs)
  have ?goal
  proof (cases "\<exists>r. ?rep = Some r \<and> rx_unread u + 8 + length r \<le> 2048")
    case False
    then have "model_send reply u = ?u1" by (auto simp: model_send_def Let_def split: option.split)
    with False low show ?thesis by blast
  next
    case True
    then obtain r where r: "?rep = Some r" "rx_unread u + 8 + length r \<le> 2048" by blast
    let ?n = "word_at u S0_RX_WR + of_nat (8 + length r)"
    let ?h = "[192, 168, 1, 1, 0, 67] :: u8 list"
    let ?bs = "?h @ [of_nat (length r div 256), of_nat (length r)] @ r"
    define u2 where "u2 = ?u1(S0_RX_WR := ucast (drop_bit 8 ?n), S0_RX_WR + 1 := ucast ?n)"
    define F where "F = ring_filled u2 (word_at u S0_RX_WR) ?bs"
    have m: "model_send reply u = F" using r by (simp add: model_send_def F_def u2_def Let_def)
    have lb: "length ?bs = 8 + length r" by simp
    have low: "F a = u2 a" if "unat a < 0x6000" for a unfolding F_def using that by (rule ring_filled_below)
    have words: "address_regs F = address_regs u" "word_at F S0_TX_RD = word_at u S0_TX_WR" "word_at F S0_TX_WR = word_at u S0_TX_WR"
      "word_at F S0_RX_RD = word_at u S0_RX_RD"
      by (simp_all add: word_at_def address_regs_def low socket_reg_defs) (simp_all add: u2_def socket_reg_defs)
    have "word_at F S0_RX_WR = word_at u2 S0_RX_WR" by (simp add: word_at_def low S0_RX_WR_def)
    then have wr: "word_at F S0_RX_WR = ?n" unfolding u2_def by (simp only: word_at_upd)
    have new: "ring_bytes F S0_RX_BASE (word_at u S0_RX_WR) (8 + length r) = ?bs"
      using ring_filled_bytes [of ?bs u2 "word_at u S0_RX_WR"] r(2) unfolding F_def lb by simp
    have wr_end: "word_at u S0_RX_WR = word_at u S0_RX_RD + of_nat (rx_unread u)" by (simp add: rx_unread_def)
    have "ring_bytes F S0_RX_BASE (word_at u S0_RX_RD) (rx_unread u) = ring_bytes u2 S0_RX_BASE (word_at u S0_RX_RD) (rx_unread u)"
      unfolding F_def by (rule ring_filled_before [OF _ wr_end]) (use r(2) in simp)
    also have "\<dots> = ring_bytes u S0_RX_BASE (word_at u S0_RX_RD) (rx_unread u)"
      using k1 socket_reg_address [of S0_RX_WR] socket_reg_address [of "S0_RX_WR + 1"]
      by (intro ring_bytes_cong) (simp add: u2_def ring_kept_def chip_regs_def)
    finally have old: "ring_bytes F S0_RX_BASE (word_at u S0_RX_RD) (rx_unread u) = ring_bytes u S0_RX_BASE (word_at u S0_RX_RD) (rx_unread u)" .
    have "comes_in r u F"
      unfolding comes_in_def using r(2) wr new old by (auto intro!: exI [of _ ?h])
    with words r(1) show ?thesis unfolding m by simp
  qed
  then show "address_regs (model_send reply u) = address_regs u" "word_at (model_send reply u) S0_TX_RD = word_at u S0_TX_WR"
    "word_at (model_send reply u) S0_TX_WR = word_at u S0_TX_WR" "word_at (model_send reply u) S0_RX_RD = word_at u S0_RX_RD"
    "case ?rep of None \<Rightarrow> word_at (model_send reply u) S0_RX_WR = word_at u S0_RX_WR \<and> ring_kept u (model_send reply u)
     | Some r \<Rightarrow> comes_in r u (model_send reply u)" by blast+
qed

lemma comes_in_finished: "comes_in r u v \<Longrightarrow> comes_in r u (finished v)"
proof -
  assume c: "comes_in r u v"
  have w: "word_at (finished v) S0_RX_WR = word_at v S0_RX_WR" using finished(4) [of v] by (simp add: pointers_kept_def)
  have k: "\<And>k. finished v (S0_RX_BASE + (k AND S0_MASK)) = v (S0_RX_BASE + (k AND S0_MASK))"
    using finished(5) [of v] by (simp add: ring_kept_def)
  have "ring_bytes (finished v) S0_RX_BASE p n = ring_bytes v S0_RX_BASE p n" for p n by (rule ring_bytes_cong) (rule k)
  with c show ?thesis by (simp only: comes_in_def w ring_kept_def k)
qed

lemma model_command_effect: "cmd_effect reply c u (model_command reply c u)"
proof -
  have cs: "CR_OPEN \<noteq> CR_SEND" "CR_RECV \<noteq> CR_SEND" "CR_RECV \<noteq> CR_OPEN" "CR_CLOSE \<noteq> CR_OPEN" "CR_CLOSE \<noteq> CR_SEND"
    "CR_CLOSE \<noteq> CR_RECV" by code_simp+
  note pk = finished(4) [unfolded pointers_kept_def] and f = finished(1-3,5-6)
  consider "c = CR_OPEN" "u S0_SR = 0" | "c = CR_SEND" | "c = CR_CLOSE" | "c = CR_OPEN" "u S0_SR \<noteq> 0" | "c \<notin> {CR_OPEN, CR_SEND, CR_CLOSE}"
    by blast
  then show ?thesis
  proof cases
    case 1
    let ?v = "u(S0_SR := 0x22, S0_TX_WR := u S0_TX_RD, S0_TX_WR + 1 := u (S0_TX_RD + 1), S0_RX_RD := u S0_RX_WR, S0_RX_RD + 1 := u (S0_RX_WR + 1))"
    have m: "model_command reply c u = finished ?v" using 1 by (simp add: model_command_def finished_def)
    have v: "address_regs ?v = address_regs u" "tx_empty ?v" "rx_empty ?v"
      by (simp_all add: address_regs_def tx_empty_def rx_empty_def word_at_def socket_reg_defs)
    have "tx_empty (finished ?v)" "rx_empty (finished ?v)"
      using v(2,3) pk [of ?v] unfolding tx_empty_def rx_empty_def by auto
    then show ?thesis unfolding m cmd_effect_def using f [of ?v] v(1) 1 cs by simp
  next
    case 2
    have m: "model_command reply c u = finished (model_send reply u)" using 2 cs by (simp add: model_command_def finished_def)
    note snd = model_send_effect [of reply u]
    have rk: "ring_kept u (model_send reply u) \<Longrightarrow> ring_kept u (finished (model_send reply u))"
      using f(4) [of "model_send reply u"] by (simp add: ring_kept_def)
    show ?thesis
      unfolding m cmd_effect_def
      using f [of "model_send reply u"] pk [of "model_send reply u"] snd rk comes_in_finished 2 cs
      by (auto simp: tx_empty_def split: option.splits)
  next
    case 3
    have m: "model_command reply c u = finished (u(S0_SR := 0))" using 3 cs by (simp add: model_command_def finished_def)
    have "address_regs (u(S0_SR := 0)) = address_regs u" by (simp add: address_regs_def socket_reg_defs)
    then show ?thesis unfolding m cmd_effect_def using f [of "u(S0_SR := 0)"] 3 cs by auto
  next
    case 4
    have m: "model_command reply c u = finished u" using 4 cs by (simp add: model_command_def finished_def)
    show ?thesis unfolding m cmd_effect_def using f [of u] finished(4) [of u] 4 cs by auto
  next
    case 5
    have m: "model_command reply c u = finished u" using 5 by (simp add: model_command_def finished_def)
    show ?thesis unfolding m cmd_effect_def using f [of u] finished(4) [of u] 5 cs by auto
  qed
qed

lemma model_chip_net: "dhcp_net (model_chip reply) (\<lambda>u. u) reply"
  using model_command_effect [of reply] by (auto simp: dhcp_net_def model_chip_def chip_offset_reg chip_regs_def)

text \<open>A server that offers 192.168.1.77 and acknowledges it.\<close>

definition demo_message :: "u8 \<Rightarrow> u8 list" where
  "demo_message t = (replicate 16 0 @ [192, 168, 1, 77] @ replicate 220 0) @ encode_options [Opt 53 [t], Pad, Opt 54 [192, 168, 1, 1]] @ 0xFF # []"

definition demo_server :: "u8 list \<Rightarrow> u8 list option" where
  "demo_server p = (if p ! 242 = DHCP_DISCOVER then Some (demo_message DHCP_OFFER)
     else if p ! 242 = DHCP_REQUEST then Some (demo_message DHCP_ACK) else None)"

definition demo_dhcp :: "chip_view dhcp" where
  "demo_dhcp = \<lparr>dh_chip = (\<lambda>_. 0), dh_counter = 0, dh_calls = []\<rparr>"

lemma demo_message_says: "message_says (demo_message t) t [192, 168, 1, 1]"
proof -
  have "fold option_effect [Opt 53 [t], Pad, Opt 54 [192, 168, 1, 1]] (0, Some [0, 0, 0, 0]) = (t, Some [192, 168, 1, 1])" by simp
  moreover have "\<forall>x \<in> set [Opt 53 [t], Pad, Opt 54 [192, 168, 1, 1]]. option_ok x" by simp
  moreover have "length (replicate 16 0 @ [192, 168, 1, 77] @ replicate 220 (0 :: u8)) = 240" by simp
  moreover have "length (demo_message t) \<le> DHCP_PKT_BUF_SIZE" by (simp add: demo_message_def DHCP_PKT_BUF_SIZE_def)
  ultimately show ?thesis unfolding message_says_def using demo_message_def by blast
qed

lemma packet_type: "length mac = 6 \<Longrightarrow> dhcp_packet t xid mac host ask ! 242 = t"
  by (simp add: dhcp_packet_def Let_def request_options_def nth_append length_dhcp_header)

theorem lease_taken_iff_acknowledged_witness:
  "\<exists>st'. w5100_dhcp_request (model_chip demo_server) [111, 114, 105, 111, 110] (replicate 320 0xAA) demo_dhcp = Some (1, st') \<and>
    address_regs (dh_chip st') = [192, 168, 1, 77] \<and> dh_chip st' S0_SR = 0"
proof -
  note net = model_chip_net [of demo_server]
  have mac: "length board_mac = 6" by (simp add: board_mac_def)
  have ne: "DHCP_DISCOVER \<noteq> DHCP_REQUEST" "DHCP_REQUEST \<noteq> DHCP_DISCOVER" by code_simp+
  have a1: "demo_server (dhcp_packet DHCP_DISCOVER x board_mac h a) = Some (demo_message DHCP_OFFER)" for x h a
    by (simp add: demo_server_def packet_type mac)
  have a2: "demo_server (dhcp_packet DHCP_REQUEST x board_mac h a) = Some (demo_message DHCP_ACK)" for x h a
    using ne by (simp add: demo_server_def packet_type mac)
  have y: "take 4 (drop OFF_YIADDR (demo_message t)) = [192, 168, 1, 77]" for t by (simp add: demo_message_def OFF_YIADDR_def)
  have h: "length [111, 114, 105, 111, 110 :: u8] \<le> 57" and b: "length (replicate 320 (0xAA :: u8)) = DHCP_PKT_BUF_SIZE"
    by (simp_all add: DHCP_PKT_BUF_SIZE_def)
  have s: "[192, 168, 1, 1] = (if [192, 168, 1, 1] = [0, 0, 0, 0 :: u8] then take 4 (drop OFF_SIADDR (demo_message DHCP_OFFER)) else [192, 168, 1, 1])"
    "length [192, 168, 1, 1 :: u8] = 4" by simp_all
  have cl: "dh_chip demo_dhcp S0_SR = 0" by (simp add: demo_dhcp_def)
  show ?thesis
    using lease_taken_iff_acknowledged [where view = "\<lambda>u. u" and st = demo_dhcp, OF net h b cl a1 demo_message_says s a2 demo_message_says] unfolding y by simp
qed

theorem datagram_received_in_step_witness:
  "\<exists>w. w5100_recv_udp_packet (model_chip demo_server) [0, 0] (demo_dhcp\<lparr>dh_chip := ring_filled (\<lambda>_. 0) 0 [1, 2, 3, 4, 5, 6, 0, 3, 7, 8, 9]\<rparr>) =
    Some (3, [7, 8], demo_dhcp\<lparr>dh_chip := w\<rparr>) \<and> word_at w S0_RX_RD = 11"
proof -
  note net = model_chip_net [of demo_server]
  let ?u = "ring_filled (\<lambda>_. 0) 0 [1, 2, 3, 4, 5, 6, 0, 3, 7, 8, 9]"
  have rd: "word_at ?u S0_RX_RD = 0" by (simp add: word_at_def ring_filled_below S0_RX_RD_def)
  have l: "length [1, 2, 3, 4, 5, 6, 0, 3, 7, 8, 9 :: u8] = 11" by simp
  have "rx_waiting ?u 11 = [1, 2, 3, 4, 5, 6, 0, 3, 7, 8, 9]"
    using ring_filled_bytes [of "[1, 2, 3, 4, 5, 6, 0, 3, 7, 8, 9]" "\<lambda>_. 0" 0] unfolding rx_waiting_def rd l by simp
  then have "datagram_waits (dh_chip (demo_dhcp\<lparr>dh_chip := ?u\<rparr>)) [7, 8, 9]"
    unfolding datagram_waits_def by (auto intro!: exI [of _ "[1, 2, 3, 4, 5, 6]"])
  from datagram_received_in_step [where view = "\<lambda>u. u", OF net this, of "[0, 0]"] show ?thesis by (auto simp: rd)
qed

end
