(* ===== verification/BiosDisk.thy ===== *)
theory BiosDisk
  imports BiosElf Shell Malloc "HOL-Library.Signed_Division"
begin

text \<open>
  The commands of the BIOS shell (\<^verbatim>\<open>apps/bios/shell/commands.c\<close>, \<^verbatim>\<open>apps/bios/dump/mem_dump.c\<close>): files and
  directories through FatFs, loading and writing memory, the clock.  A command gets the words behind its
  name; \<open>do_copyfile\<close> and \<open>do_loadmem\<close> also work on the heap of the C library.  The environment adds to
  that of the interpreter the calls of FatFs for directories, the addresses of the local arrays, the tick
  counter and the printing of the registers.  \<open>None\<close>: an argument is no text, or a loop does not end.
\<close>

section \<open>Environment\<close>

record fat_entry =
  fe_name :: "u8 list"
  fe_attrib :: u8
  fe_date :: u16
  fe_time :: u16
  fe_size :: u32

record 'fs disk_env =
  de_bios :: "'fs bios_env"
  de_chdir :: "u8 list \<Rightarrow> 'fs \<Rightarrow> u8 \<times> 'fs"
  de_unlink :: "u8 list \<Rightarrow> 'fs \<Rightarrow> u8 \<times> 'fs"
  de_mkdir :: "u8 list \<Rightarrow> 'fs \<Rightarrow> u8 \<times> 'fs"
  de_rmdir :: "u8 list \<Rightarrow> 'fs \<Rightarrow> u8 \<times> 'fs"
  de_rename :: "u8 list \<Rightarrow> u8 list \<Rightarrow> 'fs \<Rightarrow> u8 \<times> 'fs"
  de_mount :: "bool \<Rightarrow> u8 list \<Rightarrow> 'fs \<Rightarrow> u8 \<times> 'fs"  \<comment> \<open>whether a volume is given, its path\<close>
  de_opendir :: "u8 list \<Rightarrow> 'fs \<Rightarrow> u8 \<times> 'fs"
  de_readdir :: "'fs \<Rightarrow> u8 \<times> fat_entry \<times> 'fs"
  de_closedir :: "'fs \<Rightarrow> 'fs"
  de_ide_mode :: "u8 \<Rightarrow> 'fs \<Rightarrow> 'fs"
  de_key_waits :: "'fs bios \<Rightarrow> bool"
  de_tick :: "'fs bios \<Rightarrow> u32"
  de_registers :: "'fs bios \<Rightarrow> 'fs bios"
  de_syspath :: u32
  de_path :: u32  \<comment> \<open>\<open>path[128]\<close>\<close>
  de_arquivo :: u32  \<comment> \<open>\<open>arquivo[16]\<close>\<close>
  de_buffer :: u32  \<comment> \<open>\<open>buffer_leitura[512]\<close>\<close>
  de_text :: u32  \<comment> \<open>\<open>text[64]\<close>\<close>
  de_fname :: u32  \<comment> \<open>\<open>Fno.fname\<close>\<close>

definition d_printf :: "'fs disk_env \<Rightarrow> string \<Rightarrow> u32 list \<Rightarrow> 'fs bios \<Rightarrow> 'fs bios option" where
  "d_printf env fmt args st = b_printf (de_bios env) (bytes_of fmt) args st"

text \<open>The same with a line feed behind the text.\<close>

definition d_print_line :: "'fs disk_env \<Rightarrow> string \<Rightarrow> u32 list \<Rightarrow> 'fs bios \<Rightarrow> 'fs bios option" where
  "d_print_line env fmt args st = b_printf (de_bios env) (bytes_of fmt @ [10]) args st"

abbreviation "d_fat env \<equiv> be_fat (de_bios env)"

definition FA_CREATE_NEW :: u8 where "FA_CREATE_NEW = 0x04"

definition d_open :: "'fs disk_env \<Rightarrow> nat \<Rightarrow> u32 \<Rightarrow> u8 \<Rightarrow> 'fs bios \<Rightarrow> (u8 \<times> 'fs bios) option" where
  "d_open env fil name mode st = do {
     path \<leftarrow> text_at (b_mem st) name;
     let (fr, fs) = ff_open (d_fat env) fil path mode (b_fs st);
     Some (fr, st\<lparr>b_fs := fs\<rparr>) }"

definition d_close :: "'fs disk_env \<Rightarrow> nat \<Rightarrow> 'fs bios \<Rightarrow> u8 \<times> 'fs bios" where
  "d_close env fil st = (let (fr, fs) = ff_close (d_fat env) fil (b_fs st) in (fr, st\<lparr>b_fs := fs\<rparr>))"

text \<open>\<open>f_read\<close> into memory, \<open>f_write\<close> from memory: the result and the number of bytes.\<close>

definition d_read :: "'fs disk_env \<Rightarrow> nat \<Rightarrow> u32 \<Rightarrow> u32 \<Rightarrow> 'fs bios \<Rightarrow> u8 \<times> u32 \<times> 'fs bios" where
  "d_read env fil buffer len st =
     (let (fr, bs, fs) = ff_read (d_fat env) fil len (b_fs st)
      in (fr, of_nat (length bs), st\<lparr>b_fs := fs, b_mem := wr_bytes (b_mem st) buffer bs\<rparr>))"

definition d_write :: "'fs disk_env \<Rightarrow> nat \<Rightarrow> u32 \<Rightarrow> u32 \<Rightarrow> 'fs bios \<Rightarrow> u8 \<times> u32 \<times> 'fs bios" where
  "d_write env fil buffer len st =
     (let (fr, n, fs) = ff_write (d_fat env) fil (rd_bytes (b_mem st) buffer (unat len)) (b_fs st)
      in (fr, n, st\<lparr>b_fs := fs\<rparr>))"

section \<open>Help\<close>

definition helpme :: "(string \<times> string) list" where
  "helpme =
    [(''cat'', ''Display contents of <file>''), (''cd'', ''Change directory <dir>''), (''cp'', ''Copy file <src> <dest>''),
     (''dump'', ''Dump memory <from> <count>''), (''exit'', ''Exit system in a clean way..''),
     (''help'', ''Show available commands''), (''ideinit'', ''Mount ide fatfs..''),
     (''idemode'', ''Sets ide mode 0=8bits 1=16bits..''),
     (''loadmem'', ''Load a file to the specified memory location <file> <mem>''), (''ls'', ''List directory contents''),
     (''mkdir'', ''Create the specified folder <dir>''), (''mv'', ''Rename file <src> to <dest>''), (''rm'', ''Delete file <file>''),
     (''rmdir'', ''Delete the specified folder <dir>''), (''run'', ''Run code at address <addr>''),
     (''save'', ''Saves file from 82000 to disk save <filename> <filesize>''),
     (''asave'', ''Saves file from 82000 to disk from data in memory''), (''shst'', ''Show systemtick''),
     (''time'', ''Display or set the current time and date (time ? for help)''),
     (''uptime'', ''Display the time the system has been running''), (''writemem'', ''Write memory <addr> [byte ...]''),
     (''writemem1'', ''Write a memory location'')]"

fun help_lines :: "'fs disk_env \<Rightarrow> (string \<times> string) list \<Rightarrow> 'fs bios \<Rightarrow> 'fs bios option" where
  "help_lines env [] st = Some st"
| "help_lines env ((name, help) # es) st = do {
     st \<leftarrow> d_print_line env ''%12s - %s'' [be_lit (de_bios env) (bytes_of name), be_lit (de_bios env) (bytes_of help)] st;
     help_lines env es st }"

definition do_help :: "'fs disk_env \<Rightarrow> u32 list \<Rightarrow> 'fs bios \<Rightarrow> 'fs bios option" where
  "do_help env argv st = do {
     st \<leftarrow> b_printf (de_bios env) ([10] @ bytes_of ''Available commands:'' @ [10]) [] st;
     help_lines env helpme st }"

section \<open>Files\<close>

definition do_copyfile :: "'fs disk_env \<Rightarrow> u32 list \<Rightarrow> heap \<times> 'fs bios \<Rightarrow> (heap \<times> 'fs bios) option" where
  "do_copyfile env argv s = do {
     let (h, st) = s;
     let srcname = argv ! 0;
     let destname = argv ! 1;
     (fr, st) \<leftarrow> d_open env 0 srcname FA_READ st;
     if fr = FR_OK then do {
       let len = ff_size (d_fat env) 0 (b_fs st);
       (buffer, h) \<leftarrow> malloc len h;
       if buffer = 0 then do {
         st \<leftarrow> d_print_line env ''Unable to allocate %d for file.'' [len] st;
         Some (h, snd (d_close env 0 st)) }
       else do {
         let (fr, bytes_read, st) = d_read env 0 buffer len st;
         if fr \<noteq> FR_OK then do {
           st \<leftarrow> d_print_line env ''Unable to load source file.'' [] st;
           Some (h, snd (d_close env 0 st)) }
         else do {
           (fr, st) \<leftarrow> d_open env 1 destname (FA_WRITE OR FA_CREATE_NEW) st;
           if fr \<noteq> FR_OK then do {
             st \<leftarrow> d_print_line env ''Unable to open destination file %s'' [destname] st;
             let st = snd (d_close env 0 st);
             (_, h) \<leftarrow> free buffer h;
             Some (h, st) }
           else do {
             let (fr, bytes_written, st) = d_write env 1 buffer len st;
             st \<leftarrow> (if fr \<noteq> FR_OK then b_printf (de_bios env) (bytes_of ''Unable to create destination file %s'' @ [10, 9]) [destname] st
                   else d_print_line env ''Copied %d bytes from %s to %s'' [bytes_written, srcname, destname] st);
             (_, h) \<leftarrow> free buffer h;
             Some (h, snd (d_close env 1 (snd (d_close env 0 st)))) } } } }
     else do {
       st \<leftarrow> d_print_line env ''Unable to open source file %s'' [srcname] st;
       Some (h, st) } }"

text \<open>The blocks of a file on the screen.\<close>

partial_function (option) cat_blocks :: "'fs disk_env \<Rightarrow> 'fs bios \<Rightarrow> 'fs bios option" where
  "cat_blocks env st =
     (let (res, n, st) = d_read env 0 (de_buffer env) 511 st
      in if res \<noteq> FR_OK then
           b_printf (de_bios env) ([10] @ bytes_of ''[Erro durante a leitura do arquivo: %d]'' @ [10]) [ucast res] st
         else if n > 0 then
           Option.bind (d_printf env ''%s'' [de_buffer env] (st\<lparr>b_mem := (b_mem st)(de_buffer env + n := 0)\<rparr>)) (\<lambda>st. cat_blocks env st)
         else Some st)"

definition dashes :: string where
  "dashes = ''--------------------------------------------------''"

definition do_cat :: "'fs disk_env \<Rightarrow> u32 list \<Rightarrow> 'fs bios \<Rightarrow> 'fs bios option" where
  "do_cat env argv st = do {
     (_, m) \<leftarrow> sprintf (b_mem st) (de_arquivo env) (be_lit (de_bios env) (bytes_of ''%s'')) [argv ! 0];
     (res, st) \<leftarrow> d_open env 0 (de_arquivo env) FA_READ (st\<lparr>b_mem := m\<rparr>);
     if res \<noteq> FR_OK then d_print_line env ''Erro ao abrir %s Codigo: %d'' [argv ! 0, ucast res] st
     else do {
       st \<leftarrow> d_print_line env ''Conteudo: %s'' [argv ! 0] st;
       st \<leftarrow> d_print_line env dashes [] st;
       st \<leftarrow> cat_blocks env (b_lseek (de_bios env) 0 0 st);
       st \<leftarrow> b_printf (de_bios env) ([10] @ bytes_of dashes @ [10]) [] st;
       Some (snd (d_close env 0 st)) } }"

text \<open>A call with one path whose error is printed.\<close>

definition path_call :: "'fs disk_env \<Rightarrow> (u8 list \<Rightarrow> 'fs \<Rightarrow> u8 \<times> 'fs) \<Rightarrow> u32 \<Rightarrow> 'fs bios \<Rightarrow> (u8 \<times> 'fs bios) option" where
  "path_call env f name st = do {
     path \<leftarrow> text_at (b_mem st) name;
     let (fr, fs) = f path (b_fs st);
     Some (fr, st\<lparr>b_fs := fs\<rparr>) }"

definition do_cd :: "'fs disk_env \<Rightarrow> u32 list \<Rightarrow> 'fs bios \<Rightarrow> 'fs bios option" where
  "do_cd env argv st = do {
     (fr, st) \<leftarrow> path_call env (de_chdir env) (argv ! 0) st;
     if fr \<noteq> FR_OK then printerro (de_bios env) (uint fr) st else Some st }"

definition do_delete :: "'fs disk_env \<Rightarrow> u32 list \<Rightarrow> 'fs bios \<Rightarrow> 'fs bios option" where
  "do_delete env argv st = do {
     (fr, st) \<leftarrow> path_call env (de_unlink env) (argv ! 0) st;
     if fr \<noteq> FR_OK then printerro (de_bios env) (uint fr) st else Some st }"

definition do_exit :: "'fs disk_env \<Rightarrow> u32 list \<Rightarrow> 'fs bios \<Rightarrow> 'fs bios option" where
  "do_exit env argv st =
     d_print_line env ''YOU CAN TURN OFF THE SYSTEM.'' [] (st\<lparr>b_fs := snd (de_mount env False (bytes_of ''0:'') (b_fs st))\<rparr>)"

definition do_ideinit :: "'fs disk_env \<Rightarrow> u32 list \<Rightarrow> 'fs bios \<Rightarrow> 'fs bios option" where
  "do_ideinit env argv st =
     (let (fr, fs) = de_mount env True [] (b_fs st); st = st\<lparr>b_fs := fs\<rparr>
      in if fr \<noteq> FR_OK then d_print_line env ''PANIC: Erro ao montar FAT: %d'' [ucast fr] st
         else d_print_line env '': FAT success mounted!'' [] st)"

definition do_idemode :: "'fs disk_env \<Rightarrow> u32 list \<Rightarrow> 'fs bios \<Rightarrow> 'fs bios option" where
  "do_idemode env argv st =
     (if length argv = 1 then do {
        v \<leftarrow> atoi (b_mem st) (argv ! 0);
        let mode = (ucast v :: u8);
        st \<leftarrow> d_print_line env ''Setting ide mode to %d'' [scast mode] st;
        Some (st\<lparr>b_fs := de_ide_mode env mode (b_fs st)\<rparr>) }
      else Some st)"

section \<open>Directories\<close>

text \<open>The loop at the end of a page waits for a key while \<open>res\<close> is 1.\<close>

partial_function (option) ls_wait :: "'fs disk_env \<Rightarrow> u8 \<Rightarrow> 'fs bios \<Rightarrow> 'fs bios option" where
  "ls_wait env res st = (if res = 1 then ls_wait env (if de_key_waits env st then 0 else 1) st else Some st)"

definition ls_entry :: "'fs disk_env \<Rightarrow> fat_entry \<Rightarrow> 'fs bios \<Rightarrow> 'fs bios option" where
  "ls_entry env fno st =
     (let date = ucast (fe_date fno) :: u32; time = ucast (fe_time fno) :: u32;
          stamp = [1980 + (drop_bit 9 date AND 0x7F), drop_bit 5 date AND 0xF, date AND 0x1F, drop_bit 11 time,
                   drop_bit 5 time AND 0x3F]
      in if fe_attrib fno AND AM_DIR \<noteq> 0
         then b_printf (de_bios env) (bytes_of ''%04d/%02d/%02d %02d:%02d    <DIR> '' @ [9] @ bytes_of ''%s'' @ [10])
                (stamp @ [de_fname env]) st
         else b_printf (de_bios env) (bytes_of ''%04d/%02d/%02d %02d:%02d %8ld '' @ [9] @ bytes_of ''%12s'' @ [10])
                (stamp @ [fe_size fno, de_fname env]) st)"

partial_function (option) dir_loop :: "'fs disk_env \<Rightarrow> nat \<Rightarrow> 'fs bios \<Rightarrow> 'fs bios option" where
  "dir_loop env i st =
     (let (res, fno, fs) = de_readdir env (b_fs st);
          st = st\<lparr>b_fs := fs, b_mem := wr_bytes (b_mem st) (de_fname env) (fe_name fno @ [0])\<rparr>
      in if res \<noteq> FR_OK \<or> b_mem st (de_fname env) = 0 then Some st
         else Option.bind (ls_entry env fno st) (\<lambda>st.
           if i + 1 \<ge> 30 then
             Option.bind (d_printf env ''Press to continue: '' [] st) (\<lambda>st.
             Option.bind (ls_wait env res st) (\<lambda>st. dir_loop env 0 st))
           else dir_loop env (i + 1) st))"

definition do_ls :: "'fs disk_env \<Rightarrow> u32 list \<Rightarrow> 'fs bios \<Rightarrow> 'fs bios option" where
  "do_ls env argv st = do {
     (_, m) \<leftarrow> strcpy (b_mem st) (de_path env) (de_syspath env);
     let m = (if 65 \<le> m (de_path env) \<and> m (de_path env) \<le> 72 then m(de_path env := 65 - 0x41) else m);
     (res, st) \<leftarrow> path_call env (de_opendir env) (de_path env) (st\<lparr>b_mem := m\<rparr>);
     if res \<noteq> FR_OK then d_print_line env ''Erro ao abrir diretorio: %d'' [ucast res] st
     else do {
       st \<leftarrow> dir_loop env 0 st;
       d_print_line env ''-----------------------------------'' [] (st\<lparr>b_fs := de_closedir env (b_fs st)\<rparr>) } }"

text \<open>The path of a new or old folder: the working directory, a slash, the name; the drive letter becomes a digit.\<close>

definition folder_path :: "'fs disk_env \<Rightarrow> u32 \<Rightarrow> mem \<Rightarrow> mem option" where
  "folder_path env name m = do {
     let path = de_path env;
     let m = memset m path 0 128;
     size \<leftarrow> strlen m (de_syspath env);
     (_, m) \<leftarrow> strcpy m path (de_syspath env);
     m \<leftarrow> (if m (path + (size - 1)) \<noteq> 47 then map_option (\<lambda>n. m(path + n := 47)) (strlen m path) else Some m);
     (_, m) \<leftarrow> strcat m path name;
     Some (if 65 \<le> m path \<and> m path \<le> 73 then m(path := m path - 0x11) else m) }"

definition do_mkdir_shel :: "'fs disk_env \<Rightarrow> u32 list \<Rightarrow> 'fs bios \<Rightarrow> 'fs bios option" where
  "do_mkdir_shel env argv st = do {
     m \<leftarrow> folder_path env (argv ! 0) (b_mem st);
     st \<leftarrow> d_print_line env ''path to mkdir %s'' [de_path env] (st\<lparr>b_mem := m\<rparr>);
     (fr, st) \<leftarrow> path_call env (de_mkdir env) (de_path env) st;
     if fr \<noteq> FR_OK then do {
       st \<leftarrow> d_printf env ''do_mkdir: Error creating folder %s: '' [de_path env] st;
       printerro (de_bios env) (uint fr) st }
     else Some st }"

definition do_rmdir :: "'fs disk_env \<Rightarrow> u32 list \<Rightarrow> 'fs bios \<Rightarrow> 'fs bios option" where
  "do_rmdir env argv st = do {
     m \<leftarrow> folder_path env (argv ! 0) (b_mem st);
     (res, st) \<leftarrow> path_call env (de_rmdir env) (de_path env) (st\<lparr>b_mem := m\<rparr>);
     if res = FR_OK then d_print_line env ''Directory remove succeded!'' [] st
     else if res = 5 \<or> res = 4 then d_print_line env ''Erro: Directory not found.'' [] st
     else if res = 7 then d_print_line env ''Erro: Empty directory or protected directory .'' [] st
     else d_print_line env ''Remove error: %d'' [ucast res] st }"

definition do_rename_shel :: "'fs disk_env \<Rightarrow> u32 list \<Rightarrow> 'fs bios \<Rightarrow> 'fs bios option" where
  "do_rename_shel env argv st = do {
     src \<leftarrow> text_at (b_mem st) (argv ! 0);
     dest \<leftarrow> text_at (b_mem st) (argv ! 1);
     let (fr, fs) = de_rename env src dest (b_fs st);
     let st = st\<lparr>b_fs := fs\<rparr>;
     if fr \<noteq> FR_OK then do {
       st \<leftarrow> d_printf env ''Error renaming file %s to %s: '' [argv ! 0, argv ! 1] st;
       printerro (de_bios env) (uint fr) st }
     else Some st }"

section \<open>Memory\<close>

text \<open>\<open>location\<close> is not initialised unless there are two arguments; it is used only then.\<close>

definition do_loadmem :: "'fs disk_env \<Rightarrow> u32 list \<Rightarrow> heap \<times> 'fs bios \<Rightarrow> (heap \<times> 'fs bios) option" where
  "do_loadmem env argv s = do {
     let (h, st) = s;
     location \<leftarrow> (if length argv = 2 then map_option fst (strtoul (b_mem st) (argv ! 1) 0 16) else Some 0);
     (fr, st) \<leftarrow> d_open env 0 (argv ! 0) FA_READ st;
     if fr = FR_OK then do {
       let len = ff_size (d_fat env) 0 (b_fs st);
       (buffer, h) \<leftarrow> (if length argv = 2 then Some (location, h) else malloc len h);
       if length argv \<noteq> 2 \<and> buffer = 0 then do {
         st \<leftarrow> d_print_line env ''Unable to allocate %d for file.'' [len] st;
         Some (h, snd (d_close env 0 st)) }
       else do {
         let (fr, bytes_read, st) = d_read env 0 buffer len st;
         if fr \<noteq> FR_OK then do {
           st \<leftarrow> d_print_line env ''Unable to load file.'' [] st;
           Some (h, snd (d_close env 0 st)) }
         else do {
           st \<leftarrow> d_print_line env ''Loaded %d bytes from file %s to location %lX'' [bytes_read, argv ! 0, buffer] st;
           h \<leftarrow> (if length argv = 1 then map_option snd (free buffer h) else Some h);
           Some (h, snd (d_close env 0 st)) } } }
     else do {
       st \<leftarrow> d_print_line env ''Unable to open file %s'' [argv ! 0] st;
       h \<leftarrow> (if length argv = 1 then map_option snd (free 0 h) else Some h);
       Some (h, snd (d_close env 0 st)) } }"

definition do_run :: "'fs disk_env \<Rightarrow> u32 list \<Rightarrow> 'fs bios \<Rightarrow> 'fs bios option" where
  "do_run env argv st = do {
     (start, _) \<leftarrow> strtoul (b_mem st) (argv ! 0) 0 16;
     map_option snd (be_run (de_bios env) start [] st) }"

definition do_save :: "'fs disk_env \<Rightarrow> u32 list \<Rightarrow> 'fs bios \<Rightarrow> 'fs bios option" where
  "do_save env argv st =
     (let origem = 0x82015; nome = argv ! 0
      in if length argv < 2 then d_print_line env ''uso: save <nome_arquivo> <tamanho_hex>'' [] st
         else do {
           (tamanho, _) \<leftarrow> strtoul (b_mem st) (argv ! 1) 0 16;
           st \<leftarrow> d_print_line env ''Save file [%s] size of %d'' [nome, tamanho] st;
           if nome = 0 \<or> tamanho = 0 then d_print_line env ''dump_memoria_para_arquivo: parametros invalidos'' [] st
           else do {
             (fr, st) \<leftarrow> d_open env 0 nome (FA_WRITE OR FA_CREATE_ALWAYS) st;
             if fr \<noteq> FR_OK then
               d_print_line env (''dump_memoria_para_arquivo: falha ao abrir '' @ [CHR 39] @ ''%s'' @ [CHR 39] @ '' (erro %d)'') [nome, ucast fr] st
             else do {
               let (fr, n, st) = d_write env 0 origem tamanho st;
               if fr \<noteq> FR_OK \<or> n \<noteq> tamanho then do {
                 st \<leftarrow> d_print_line env (''dump_memoria_para_arquivo: falha ao escrever '' @ [CHR 39] @ ''%s'' @ [CHR 39] @
                        '' (erro %d, escrito %u de %u bytes)'') [nome, ucast fr, n, tamanho] st;
                 Some (snd (d_close env 0 st)) }
               else do {
                 let (fr, st) = d_close env 0 st;
                 if fr \<noteq> FR_OK then
                   d_print_line env (''dump_memoria_para_arquivo: falha ao fechar '' @ [CHR 39] @ ''%s'' @ [CHR 39] @ '' (erro %d)'') [nome, ucast fr] st
                 else
                   d_print_line env (''dump_memoria_para_arquivo: '' @ [CHR 39] @ ''%s'' @ [CHR 39] @ '' gravado com sucesso (%u bytes)'')
                     [nome, tamanho] st } } } })"

definition fromhex :: "u8 \<Rightarrow> int" where
  "fromhex c =
     (if 48 \<le> schar c \<and> schar c \<le> 57 then schar c - 48
      else if 97 \<le> schar c \<and> schar c \<le> 102 then 10 + schar c - 97
      else if 65 \<le> schar c \<and> schar c \<le> 70 then 10 + schar c - 65
      else - 1)"

text \<open>The first loop: the index of the first character that is not a digit.\<close>

fun bad_hex :: "mem \<Rightarrow> u32 \<Rightarrow> nat \<Rightarrow> u32 option" where
  "bad_hex m p 0 = None"
| "bad_hex m p (Suc n) = (if fromhex (m p) < 0 then Some p else bad_hex m (p + 1) n)"

text \<open>Whether all arguments are accepted.\<close>

fun writemem_check :: "'fs disk_env \<Rightarrow> u32 list \<Rightarrow> 'fs bios \<Rightarrow> (bool \<times> 'fs bios) option" where
  "writemem_check env [] st = Some (True, st)"
| "writemem_check env (a # as) st = do {
     l \<leftarrow> strlen (b_mem st) a;
     if l \<noteq> 1 \<and> odd l then do {
       st \<leftarrow> b_printf (de_bios env) (bytes_of ''Ambiguous value: '' @ [34] @ bytes_of ''%s'' @ [34] @ bytes_of '' (odd length).'' @ [10]) [a] st;
       Some (False, st) }
     else (case bad_hex (b_mem st) a (unat l) of
       Some p \<Rightarrow> do {
         st \<leftarrow> b_printf (de_bios env) (bytes_of ''Bad hex character '' @ [34] @ bytes_of ''%c'' @ [34] @ bytes_of '' in value '' @ [34] @
                bytes_of ''%s'' @ [34] @ bytes_of ''.'' @ [10]) [scast (b_mem st p), a] st;
         Some (False, st) }
     | None \<Rightarrow> writemem_check env as st) }"

text \<open>The pairs of digits of a longer argument; the memory may change under the argument.\<close>

fun writemem_pairs :: "nat \<Rightarrow> u32 \<Rightarrow> mem \<times> u32 \<Rightarrow> mem \<times> u32" where
  "writemem_pairs 0 a s = s"
| "writemem_pairs (Suc n) a s =
     (let (m, ptr) = s;
          value = push_bit 4 (of_int (fromhex (m a)) :: u32) OR of_int (fromhex (m (a + 1)))
      in writemem_pairs n (a + 2) (m(ptr := ucast value), ptr + 1))"

fun writemem_write :: "u32 list \<Rightarrow> mem \<times> u32 \<Rightarrow> (mem \<times> u32) option" where
  "writemem_write [] s = Some s"
| "writemem_write (a # as) s = do {
     let (m, ptr) = s;
     l \<leftarrow> strlen m a;
     if sint l \<le> 2 then do {
       (v, _) \<leftarrow> strtoul m a 0 16;
       writemem_write as (m(ptr := ucast v), ptr + 1) }
     else writemem_write as (writemem_pairs ((unat l + 1) div 2) a (m, ptr)) }"

definition do_writemem :: "'fs disk_env \<Rightarrow> u32 list \<Rightarrow> 'fs bios \<Rightarrow> 'fs bios option" where
  "do_writemem env argv st = do {
     (ptr, _) \<leftarrow> strtoul (b_mem st) (argv ! 0) 0 16;
     (ok, st) \<leftarrow> writemem_check env (tl argv) st;
     if ok then map_option (\<lambda>(m, _). st\<lparr>b_mem := m\<rparr>) (writemem_write (tl argv) (b_mem st, ptr))
     else Some st }"

partial_function (option) writemem1_loop :: "'fs disk_env \<Rightarrow> u32 \<Rightarrow> u32 \<Rightarrow> mem \<Rightarrow> mem option" where
  "writemem1_loop env addr i m = do {
     n \<leftarrow> strlen m (de_text env);
     if i < n then writemem1_loop env addr (i + 1) (m(addr + i := m (de_text env + i))) else Some m }"

definition do_writemem1 :: "'fs disk_env \<Rightarrow> u32 list \<Rightarrow> 'fs bios \<Rightarrow> 'fs bios option" where
  "do_writemem1 env argv st = do {
     st \<leftarrow> d_print_line env ''argv[0]%s argv[1]%s'' [argv ! 0, argv ! 1] st;
     if length argv < 2 then d_print_line env ''Usage: <address> <data>'' [] st
     else do {
       n \<leftarrow> strlen (b_mem st) (argv ! 0);
       let m = snd (memcpy (b_mem st) (de_text env) (argv ! 0) n);
       n \<leftarrow> strlen m (argv ! 0);
       let m = m(de_text env + n := 0);
       textsize \<leftarrow> strlen m (de_text env);
       (addr, _) \<leftarrow> strtoul m (argv ! 1) 0 16;
       st \<leftarrow> d_print_line env ''Writing [%s] to address[%x] %d bytes'' [de_text env, addr, textsize] (st\<lparr>b_mem := m\<rparr>);
       m \<leftarrow> writemem1_loop env addr 0 (b_mem st);
       Some (st\<lparr>b_mem := m\<rparr>) } }"

section \<open>Dumping memory\<close>

fun dump_hex :: "'fs disk_env \<Rightarrow> nat \<Rightarrow> u32 \<Rightarrow> 'fs bios \<Rightarrow> 'fs bios option" where
  "dump_hex env 0 p st = Some st"
| "dump_hex env (Suc n) p st = do {
     st \<leftarrow> d_printf env ''%02x '' [ucast (b_mem st p)] st;
     dump_hex env n (p + 1) st }"

fun dump_ascii :: "'fs disk_env \<Rightarrow> nat \<Rightarrow> u32 \<Rightarrow> 'fs bios \<Rightarrow> 'fs bios option" where
  "dump_ascii env 0 p st = Some st"
| "dump_ascii env (Suc n) p st = do {
     let ch = b_mem st p;
     st \<leftarrow> (if ch \<ge> 0x20 \<and> ch < 0x80 then d_printf env ''%c'' [ucast ch] st else d_printf env ''.'' [] st);
     dump_ascii env n (p + 1) st }"

text \<open>The lines of a page, of 16 bytes each.\<close>

fun dump_lines :: "'fs disk_env \<Rightarrow> nat \<Rightarrow> u32 \<Rightarrow> 'fs bios \<Rightarrow> (u32 \<times> 'fs bios) option" where
  "dump_lines env 0 p st = Some (p, st)"
| "dump_lines env (Suc n) p st = do {
     st \<leftarrow> d_printf env ''%08X  '' [p] st;
     st \<leftarrow> dump_hex env 16 p st;
     st \<leftarrow> d_printf env ''- '' [] st;
     st \<leftarrow> dump_ascii env 16 p st;
     st \<leftarrow> b_printf (de_bios env) [10] [] st;
     dump_lines env n (p + 16) st }"

definition dump_rule :: string where
  "dump_rule = ''----------------------------------------------------------------------------''"

definition dump_head :: "'fs disk_env \<Rightarrow> u32 \<Rightarrow> u32 \<Rightarrow> 'fs bios \<Rightarrow> 'fs bios option" where
  "dump_head env p count st = do {
     st \<leftarrow> d_print_line env dump_rule [] st;
     st \<leftarrow> d_print_line env ''Dumping %03x bytes from addr %08X'' [count, p] st;
     st \<leftarrow> d_print_line env ''Address  00 01 02 03 04 05 06 07 08 09 0A 0B 0C 0D 0E 0F -             ASCII'' [] st;
     st \<leftarrow> d_print_line env dump_rule [] st;
     d_print_line env ''total_linhas = [%d]'' [of_int (sint count sdiv 16)] st }"

text \<open>Page after page until the key is ESC.\<close>

partial_function (option) dump_memory :: "'fs disk_env \<Rightarrow> u32 \<Rightarrow> u32 \<Rightarrow> 'fs bios \<Rightarrow> 'fs bios option" where
  "dump_memory env p count st =
     Option.bind (dump_head env p count st) (\<lambda>st.
     Option.bind (dump_lines env (nat (sint count sdiv 16)) p st) (\<lambda>(p, st).
     Option.bind (d_printf env ''Hit any <ENTER> to continue <ESC> to terminate: '' [] (de_registers env st)) (\<lambda>st.
       case b_in st of
         [] \<Rightarrow> None
       | ch # cs \<Rightarrow>
           let st = st\<lparr>b_in := cs\<rparr>
           in if ch = 0x1B then b_printf (de_bios env) [10] [] st else dump_memory env p count st)))"

definition do_dump :: "'fs disk_env \<Rightarrow> u32 list \<Rightarrow> 'fs bios \<Rightarrow> 'fs bios option" where
  "do_dump env argv st = do {
     (start, _) \<leftarrow> strtoul (b_mem st) (argv ! 0) 0 16;
     (count, _) \<leftarrow> strtoul (b_mem st) (argv ! 1) 0 16;
     dump_memory env start count st }"

section \<open>Time\<close>

definition do_shst :: "'fs disk_env \<Rightarrow> u32 list \<Rightarrow> 'fs bios \<Rightarrow> 'fs bios option" where
  "do_shst env argv st = d_print_line env ''Systemtick = %ld'' [de_tick env st] st"

text \<open>The clock is not set: the call is commented out.\<close>

definition do_time :: "'fs disk_env \<Rightarrow> u32 list \<Rightarrow> 'fs bios \<Rightarrow> 'fs bios option" where
  "do_time env argv st =
     (if length argv \<noteq> 6 then d_print_line env ''To set the date and time use: time <year> <mon> <day> <hour> <min> <sec>'' [] st
      else do {
        year \<leftarrow> atoi (b_mem st) (argv ! 0);
        mon \<leftarrow> atoi (b_mem st) (argv ! 1);
        day \<leftarrow> atoi (b_mem st) (argv ! 2);
        hour \<leftarrow> atoi (b_mem st) (argv ! 3);
        minute \<leftarrow> atoi (b_mem st) (argv ! 4);
        sec \<leftarrow> atoi (b_mem st) (argv ! 5);
        d_print_line env ''Setting the date and time to %02d/%02d/%04d %02d:%02d:%02d'' [day, mon, year, hour, minute, sec] st })"

text \<open>Days, hours, minutes and seconds as they are computed, each cut to 16 bits.\<close>

definition uptime_fields :: "u32 \<Rightarrow> u16 \<times> u16 \<times> u16 \<times> u16" where
  "uptime_fields tick =
     (let uptime = tick div 10;
          seconds = ucast (uptime mod 60);
          uptime = uptime div 60;
          minutes = ucast (uptime mod 60);
          uptime = uptime div 60;
          hours = ucast (uptime mod 24);
          days = ucast (uptime div 60)
      in (days, hours, minutes, seconds))"

definition do_uptime :: "'fs disk_env \<Rightarrow> u32 list \<Rightarrow> 'fs bios \<Rightarrow> 'fs bios option" where
  "do_uptime env argv st =
     (let (days, hours, minutes, seconds) = uptime_fields (de_tick env st)
      in d_print_line env ''Uptime: %d days, %d hours, %d minutes, %d seconds'' [ucast days, ucast hours, ucast minutes, ucast seconds] st)"

section \<open>The table\<close>

text \<open>The commands behind the entries of the table; \<open>asave\<close>, which talks to the Pico, is the environment's.\<close>

definition disk_command :: "'fs disk_env \<Rightarrow> bios_fn \<Rightarrow> u32 list \<Rightarrow> heap \<times> 'fs bios \<Rightarrow> (heap \<times> 'fs bios) option" where
  "disk_command env fn argv s =
     (let (h, st) = s; run = (\<lambda>f. map_option (Pair h) (f env argv st))
      in case fn of
           fn_do_cat \<Rightarrow> run do_cat
         | fn_do_cd \<Rightarrow> run do_cd
         | fn_do_copyfile \<Rightarrow> do_copyfile env argv s
         | fn_do_dump \<Rightarrow> run do_dump
         | fn_do_exit \<Rightarrow> run do_exit
         | fn_do_help \<Rightarrow> run do_help
         | fn_do_ideinit \<Rightarrow> run do_ideinit
         | fn_do_idemode \<Rightarrow> run do_idemode
         | fn_do_loadmem \<Rightarrow> do_loadmem env argv s
         | fn_do_ls \<Rightarrow> run do_ls
         | fn_do_mkdir_shel \<Rightarrow> run do_mkdir_shel
         | fn_do_rename_shel \<Rightarrow> run do_rename_shel
         | fn_do_delete \<Rightarrow> run do_delete
         | fn_do_rmdir \<Rightarrow> run do_rmdir
         | fn_do_run \<Rightarrow> run do_run
         | fn_do_save \<Rightarrow> run do_save
         | fn_do_save2 \<Rightarrow> map_option (Pair h) (be_command (de_bios env) fn argv st)
         | fn_do_shst \<Rightarrow> run do_shst
         | fn_do_time \<Rightarrow> run do_time
         | fn_do_uptime \<Rightarrow> run do_uptime
         | fn_do_writemem \<Rightarrow> run do_writemem
         | fn_do_writemem1 \<Rightarrow> run do_writemem1)"

end
