(* ===== verification/BiosMem.thy ===== *)
theory BiosMem
  imports BiosDisk
begin

text \<open>
  The commands of the BIOS that write memory and make paths: \<open>writemem\<close> writes all its values or nothing,
  the folder commands work on the path of the folder, the fields of \<open>uptime\<close>.
\<close>

section \<open>Hexadecimal arguments\<close>

fun hex_pairs :: "u8 list \<Rightarrow> u8 list" where
  "hex_pairs [] = []"
| "hex_pairs [c] = [of_int (fromhex c)]"
| "hex_pairs (c # d # cs) = of_int (16 * fromhex c + fromhex d) # hex_pairs cs"

definition hex_argument :: "u8 list \<Rightarrow> bool" where
  "hex_argument t \<longleftrightarrow> (length t = 1 \<or> even (length t)) \<and> (\<forall>c \<in> set t. 0 \<le> fromhex c)"

lemma length_hex_pairs: "length (hex_pairs t) = (length t + 1) div 2"
  by (induction t rule: hex_pairs.induct) auto

lemma fromhex_digit:
  assumes "0 \<le> fromhex c"
  shows "strtoul_digit (schar c) = Some (fromhex c)" "fromhex c < 16" "c \<noteq> 120" "c \<noteq> 88" "schar c \<noteq> 32" "schar c \<noteq> 9" "schar c \<noteq> 10"
    "schar c \<noteq> 13" "schar c \<noteq> 11" "schar c \<noteq> 12" "schar c \<noteq> 45" "schar c \<noteq> 43"
  using assms by (auto simp: fromhex_def strtoul_digit_def split: if_splits)

lemma hex_nibbles:
  "\<forall>x \<in> set [0..<16]. \<forall>y \<in> set [0..<16]. (ucast (push_bit 4 (of_nat x :: u32) OR of_nat y) :: u8) = of_nat (16 * x + y)"
  by code_simp

lemma hex_value:
  assumes "0 \<le> fromhex c" "0 \<le> fromhex d"
  shows "(ucast (push_bit 4 (of_int (fromhex c) :: u32) OR of_int (fromhex d)) :: u8) = of_int (16 * fromhex c + fromhex d)"
proof -
  have "nat (fromhex c) \<in> set [0..<16]" "nat (fromhex d) \<in> set [0..<16]"
    using assms fromhex_digit(2) [of c] fromhex_digit(2) [of d] by auto
  from hex_nibbles [rule_format, OF this] show ?thesis using assms by (simp add: of_nat_nat)
qed

section \<open>Checking\<close>

lemma bad_hex_text:
  assumes "cstr m p (t @ rest)"
  shows "bad_hex m p (length t) = None \<longleftrightarrow> (\<forall>c \<in> set t. 0 \<le> fromhex c)"
  using assms by (induction t arbitrary: p) auto

definition argument_texts :: "mem \<Rightarrow> u32 list \<Rightarrow> u8 list list \<Rightarrow> bool" where
  "argument_texts m as ts \<longleftrightarrow> list_all2 (cstr m) as ts \<and> (\<forall>t \<in> set ts. t \<noteq> [] \<and> length t < 2 ^ 31)"

lemma argument_texts_simps [simp]:
  "argument_texts m [] ts \<longleftrightarrow> ts = []"
  "argument_texts m (a # as) (t # ts) \<longleftrightarrow> cstr m a t \<and> t \<noteq> [] \<and> length t < 2 ^ 31 \<and> argument_texts m as ts"
  by (auto simp: argument_texts_def)

lemma argument_texts_Cons:
  "argument_texts m (a # as) ts \<Longrightarrow> \<exists>t ts'. ts = t # ts' \<and> cstr m a t \<and> t \<noteq> [] \<and> length t < 2 ^ 31 \<and> argument_texts m as ts'"
  by (cases ts) (auto simp: argument_texts_def)

lemma strlen_text:
  assumes "cstr m a t" "length t < 2 ^ 31"
  shows "strlen m a = Some (of_nat (length t))" "unat (of_nat (length t) :: u32) = length t" "sint (of_nat (length t) :: u32) = int (length t)"
    "odd (of_nat (length t) :: u32) = odd (length t)" "(of_nat (length t) :: u32) = 1 \<longleftrightarrow> length t = 1"
proof -
  show "strlen m a = Some (of_nat (length t))" using assms(1) by (rule strlen_cstr)
  show u: "unat (of_nat (length t) :: u32) = length t" using assms(2) by (simp add: unat_of_nat take_bit_nat_eq_self)
  then show "sint (of_nat (length t) :: u32) = int (length t)" using sint_small [of "of_nat (length t)"] assms(2) by simp
  show "odd (of_nat (length t) :: u32) = odd (length t)" by simp
  show "(of_nat (length t) :: u32) = 1 \<longleftrightarrow> length t = 1" using u by (auto simp: word_unat_eq_iff)
qed

lemma writemem_check_accepts:
  assumes "argument_texts (b_mem st) as ts" "\<forall>t \<in> set ts. hex_argument t"
  shows "writemem_check env as st = Some (True, st)"
  using assms
proof (induction as arbitrary: ts)
  case Nil
  then show ?case by simp
next
  case (Cons a as)
  then obtain t ts' where t: "ts = t # ts'" "cstr (b_mem st) a t" "length t < 2 ^ 31" "argument_texts (b_mem st) as ts'"
    using argument_texts_Cons by blast
  have "bad_hex (b_mem st) a (length t) = None" using bad_hex_text [of "b_mem st" a t "[]"] t(1,2) Cons.prems(2) by (simp add: hex_argument_def)
  then show ?case using Cons t strlen_text [OF t(2,3)] by (auto simp: hex_argument_def)
qed

lemma writemem_check_rejects:
  assumes "argument_texts (b_mem st) as ts" "\<not> (\<forall>t \<in> set ts. hex_argument t)"
  shows "\<exists>fmt args. writemem_check env as st = map_option (Pair False) (b_printf (de_bios env) fmt args st)"
  using assms
proof (induction as arbitrary: ts)
  case Nil
  then show ?case by simp
next
  case (Cons a as)
  then obtain t ts' where t: "ts = t # ts'" "cstr (b_mem st) a t" "length t < 2 ^ 31" "argument_texts (b_mem st) as ts'"
    using argument_texts_Cons by blast
  note l = strlen_text [OF t(2,3)]
  have pair: "Option.bind x (\<lambda>st. Some (False, st)) = map_option (Pair False) x" for x :: "'a bios option" by (cases x) auto
  consider "length t \<noteq> 1" "odd (length t)" | "\<not> (length t \<noteq> 1 \<and> odd (length t))" "\<not> (\<forall>c \<in> set t. 0 \<le> fromhex c)" | "hex_argument t"
    by (auto simp: hex_argument_def)
  then show ?case
  proof cases
    case 1
    then show ?thesis using l by (auto simp: pair)
  next
    case 2
    then obtain p where "bad_hex (b_mem st) a (length t) = Some p" using bad_hex_text [of "b_mem st" a t "[]"] t(2) by (cases "bad_hex (b_mem st) a (length t)") auto
    then show ?thesis using 2 l by (auto simp: pair)
  next
    case 3
    have "bad_hex (b_mem st) a (length t) = None" using bad_hex_text [of "b_mem st" a t "[]"] t(2) 3 by (simp add: hex_argument_def)
    then have "writemem_check env (a # as) st = writemem_check env as st" using l 3 by (auto simp: hex_argument_def)
    moreover have "\<not> (\<forall>t \<in> set ts'. hex_argument t)" using Cons.prems(2) t(1) 3 by simp
    ultimately show ?thesis using Cons.IH [OF t(4)] by simp
  qed
qed

section \<open>Writing\<close>

lemma strtoul_loop_hex:
  assumes "0 \<le> fromhex c" "acc < 16" "any = 0 \<or> any = 1"
  shows "strtoul_loop m 16 ((- 1) div of_int 16) (sint ((- 1 :: u32) mod of_int 16)) any acc (schar c) p =
    strtoul_loop m 16 ((- 1) div of_int 16) (sint ((- 1 :: u32) mod of_int 16)) 1 (acc * 16 + of_int (fromhex c)) (schar (m p)) (p + 1)"
proof -
  have k: "(- 1) div of_int 16 = (0x0FFFFFFF :: u32)" by code_simp
  have "unat acc < 16" using assms(2) by (simp add: word_less_nat_alt)
  then have "\<not> acc > 0x0FFFFFFF" "acc \<noteq> 0x0FFFFFFF" by (auto simp: word_less_nat_alt)
  then show ?thesis
    using assms(1,3) fromhex_digit(1,2) [OF assms(1)] unfolding k by (subst strtoul_loop.simps) (auto simp: not_less)
qed

lemma ucast_of_int: "(ucast (of_int k :: u32) :: u8) = of_int k"
  by (rule bit_word_eqI) (auto simp: bit_simps)

lemma strtoul_loop_end: "strtoul_loop m b co cl any acc 0 p = Some (acc, any, p)"
  by (subst strtoul_loop.simps) (simp add: strtoul_digit_def)

lemma strtoul_hex_short:
  assumes "cstr m a t" "t \<noteq> []" "length t \<le> 2" "\<forall>c \<in> set t. 0 \<le> fromhex c"
  shows "\<exists>v. strtoul m a 0 16 = Some (v, m) \<and> hex_pairs t = [ucast v]"
proof -
  obtain c t' where t: "t = c # t'" "m a = c" "0 \<le> fromhex c" using assms by (cases t) auto
  note f = fromhex_digit [OF t(3)]
  have skip: "strtoul_skip m a = Some (schar c, a + 1)" using f t(2) by (subst strtoul_skip.simps) (simp add: Let_def)
  have x: "m (a + 1) \<noteq> 120" "m (a + 1) \<noteq> 88"
    using assms t fromhex_digit(3,4) by (cases t'; auto)+
  let ?loop = "strtoul_loop m 16 ((- 1) div of_int 16) (sint ((- 1 :: u32) mod of_int 16))"
  have s: "strtoul m a 0 16 = map_option (\<lambda>(acc, any, s). (acc, m)) (?loop 0 0 (schar c) (a + 1))"
    using f x by (simp add: strtoul_def skip Let_def case_prod_beta)
  have one: "?loop 0 0 (schar c) (a + 1) = ?loop 1 (of_int (fromhex c)) (schar (m (a + 1))) (a + 2)"
    using strtoul_loop_hex [OF t(3), of 0 0 m "a + 1"] by (simp add: add.assoc)
  show ?thesis
  proof (cases t')
    case Nil
    then have "m (a + 1) = 0" using assms(1) t by simp
    then show ?thesis using s one t(1) Nil by (simp add: strtoul_loop_end ucast_of_int)
  next
    case (Cons d u)
    then have d: "u = []" "m (a + 1) = d" "m (a + 2) = 0" "0 \<le> fromhex d" using assms t by (auto simp: add.assoc)
    have "nat (fromhex c) < 16" using f(2) t(3) by simp
    then have "(of_nat (nat (fromhex c)) :: u32) < 16" by (simp add: word_less_nat_alt unat_of_nat take_bit_nat_eq_self)
    then have "(of_int (fromhex c) :: u32) < 16" using t(3) by (simp add: of_nat_nat)
    from strtoul_loop_hex [OF d(4) this, of 1 m "a + 2"] have
      "?loop 1 (of_int (fromhex c)) (schar (m (a + 1))) (a + 2) = Some (of_int (fromhex c) * 16 + of_int (fromhex d), 1, a + 2 + 1)"
      by (simp add: d(2,3) strtoul_loop_end)
    then have "strtoul m a 0 16 = Some (of_int (16 * fromhex c + fromhex d), m)" using s one by (simp add: mult.commute)
    moreover have "hex_pairs t = [ucast (of_int (16 * fromhex c + fromhex d) :: u32)]" unfolding ucast_of_int using t(1) Cons d(1) by simp
    ultimately show ?thesis by blast
  qed
qed

text \<open>What the destination must not touch.\<close>

definition off_limits :: "u32 \<Rightarrow> nat \<Rightarrow> u32 list \<Rightarrow> u8 list list \<Rightarrow> bool" where
  "off_limits p n as ts \<longleftrightarrow> list_all2 (\<lambda>a t. \<forall>x. in_block p n x \<longrightarrow> \<not> in_block a (Suc (length t)) x) as ts"

lemma writemem_pairs_values:
  assumes "even (length t)" "cstr m a t" "\<forall>c \<in> set t. 0 \<le> fromhex c" "length t < 2 ^ 31"
    and "\<forall>x. in_block p (length t div 2) x \<longrightarrow> \<not> in_block a (Suc (length t)) x"
  shows "writemem_pairs (length t div 2) a (m, p) = (wr_bytes m p (hex_pairs t), p + of_nat (length t div 2))"
  using assms
proof (induction t arbitrary: m a p rule: hex_pairs.induct)
  case (3 c d cs)
  let ?v = "of_int (16 * fromhex c + fromhex d) :: u8"
  let ?n = "length cs div 2"
  have n: "length (c # d # cs) div 2 = Suc ?n" by simp
  have out: "\<not> in_block (a + 2) (Suc (length cs)) x" if "in_block p (Suc ?n) x" for x
  proof -
    have "\<not> in_block a (Suc (Suc (Suc (length cs)))) x" using 3(6) that by (simp add: n)
    then show ?thesis
      using in_block_Suc [of "Suc (Suc (length cs))" a x] in_block_Suc [of "Suc (length cs)" "a + 1" x] 3(5) by (simp add: add.assoc)
  qed
  have "\<not> in_block (a + 2) (Suc (length cs)) p" by (rule out) (simp add: in_block_self)
  then have c: "cstr (m(p := ?v)) (a + 2) cs" using 3(3,5) by (subst cstr_upd) (auto simp: add.assoc)
  have "\<forall>x. in_block (p + 1) ?n x \<longrightarrow> \<not> in_block (a + 2) (Suc (length cs)) x"
    using out in_block_Suc [of ?n p] 3(5) by auto
  then have "writemem_pairs ?n (a + 2) (m(p := ?v), p + 1) = (wr_bytes (m(p := ?v)) (p + 1) (hex_pairs cs), p + 1 + of_nat ?n)"
    by (intro 3(1) c) (use 3(2,4,5) in auto)
  moreover have "m a = c" "m (a + 1) = d" using 3(3) by auto
  moreover have "(ucast (push_bit 4 (of_int (fromhex c) :: u32) OR of_int (fromhex d)) :: u8) = ?v"
    using 3(4) by (intro hex_value) auto
  ultimately show ?case unfolding n by (simp add: Let_def add.assoc del: of_int_add of_int_mult push_bit_Suc push_bit_numeral)
qed auto

lemma writemem_write_values:
  assumes "argument_texts m as ts" "\<forall>t \<in> set ts. hex_argument t"
    and "off_limits p (length (concat (List.map hex_pairs ts))) as ts" "length (concat (List.map hex_pairs ts)) \<le> 2 ^ 32"
  shows "writemem_write as (m, p) =
    Some (wr_bytes m p (concat (List.map hex_pairs ts)), p + of_nat (length (concat (List.map hex_pairs ts))))"
  using assms
proof (induction as arbitrary: ts m p)
  case Nil
  then show ?case by simp
next
  case (Cons a as)
  then obtain t ts' where t: "ts = t # ts'" "cstr m a t" "t \<noteq> []" "length t < 2 ^ 31" "argument_texts m as ts'"
    using argument_texts_Cons by blast
  let ?r = "concat (List.map hex_pairs ts')"
  have h: "hex_argument t" "\<forall>t \<in> set ts'. hex_argument t" using Cons.prems(2) t(1) by auto
  have tot: "length (concat (List.map hex_pairs ts)) = length (hex_pairs t) + length ?r" using t(1) by simp
  note l = strlen_text [OF t(2,4)]
  have big: "length (hex_pairs t) + length ?r \<le> 2 ^ 32" using Cons.prems(4) tot by simp
  have self: "\<forall>x. in_block p (length (hex_pairs t)) x \<longrightarrow> \<not> in_block a (Suc (length t)) x"
    using Cons.prems(3) t(1) unfolding tot by (auto simp: off_limits_def in_block_def)
  have one: "writemem_write (a # as) (m, p) = writemem_write as (wr_bytes m p (hex_pairs t), p + of_nat (length (hex_pairs t)))"
  proof (cases "length t \<le> 2")
    case True
    then obtain v where "strtoul m a 0 16 = Some (v, m)" "hex_pairs t = [ucast v]"
      using strtoul_hex_short [OF t(2,3)] h(1) by (auto simp: hex_argument_def)
    then show ?thesis using True l by simp
  next
    case False
    then have e: "even (length t)" "\<forall>c \<in> set t. 0 \<le> fromhex c" using h(1) by (auto simp: hex_argument_def)
    have "\<forall>x. in_block p (length t div 2) x \<longrightarrow> \<not> in_block a (Suc (length t)) x" using self e(1) by (simp add: length_hex_pairs)
    from writemem_pairs_values [OF e(1) t(2) e(2) t(4) this] show ?thesis
      using False l e(1) by (simp add: length_hex_pairs)
  qed
  let ?m = "wr_bytes m p (hex_pairs t)" and ?q = "p + of_nat (length (hex_pairs t))"
  have same: "?m x = m x" if "\<not> in_block p (length (hex_pairs t) + length ?r) x" for x
    by (rule wr_bytes_frame) (use that big in \<open>auto simp: in_block_def\<close>)
  have keep: "cstr ?m b u = cstr m b u" if "\<forall>x. in_block p (length (hex_pairs t) + length ?r) x \<longrightarrow> \<not> in_block b (Suc (length u)) x" "length u < 2 ^ 31" for b u
    by (rule cstr_frame) (use that same in auto)
  have off: "off_limits p (length (hex_pairs t) + length ?r) as ts'" using Cons.prems(3) t(1) unfolding tot by (simp add: off_limits_def)
  have "argument_texts ?m as ts'"
    using t(5) off keep unfolding argument_texts_def off_limits_def list_all2_conv_all_nth by auto
  moreover have "off_limits ?q (length ?r) as ts'"
    using off in_block_part [OF _ order_refl big] unfolding off_limits_def list_all2_conv_all_nth by blast
  ultimately have "writemem_write as (?m, ?q) = Some (wr_bytes ?m ?q ?r, ?q + of_nat (length ?r))"
    using h(2) big by (intro Cons.IH) auto
  then show ?case unfolding one using t(1) by (simp add: wr_bytes_append add.assoc)
qed

text \<open>
  C23: \<open>writemem\<close> writes the bytes of all its arguments one after the other, or it prints a message and
  writes nothing: every argument is checked before the first byte is stored.
\<close>

theorem writemem_all_or_nothing:
  assumes "argv \<noteq> []" "strtoul (b_mem st) (hd argv) 0 16 = Some (p, m')" "argument_texts (b_mem st) (tl argv) ts"
    and "off_limits p (length (concat (List.map hex_pairs ts))) (tl argv) ts" "length (concat (List.map hex_pairs ts)) \<le> 2 ^ 32"
  shows "if \<forall>t \<in> set ts. hex_argument t
    then do_writemem env argv st = Some (st\<lparr>b_mem := wr_bytes (b_mem st) p (concat (List.map hex_pairs ts))\<rparr>)
    else \<exists>fmt args. do_writemem env argv st = b_printf (de_bios env) fmt args st"
proof -
  have h: "strtoul (b_mem st) (argv ! 0) 0 16 = Some (p, m')" using assms(1,2) by (simp add: hd_conv_nth)
  have b: "Option.bind (map_option (Pair False) x) (\<lambda>(ok, st). if ok then f st else Some st) = x" for x :: "'a bios option" and f
    by (cases x) auto
  show ?thesis
  proof (cases "\<forall>t \<in> set ts. hex_argument t")
    case True
    then show ?thesis
      using writemem_check_accepts [OF assms(3)] writemem_write_values [OF assms(3) _ assms(4,5)] h by (simp add: do_writemem_def)
  next
    case False
    from writemem_check_rejects [OF assms(3) this, of env] obtain fmt args where
      "writemem_check env (tl argv) st = map_option (Pair False) (b_printf (de_bios env) fmt args st)" by blast
    then have "do_writemem env argv st = b_printf (de_bios env) fmt args st" using h b by (simp add: do_writemem_def)
    with False show ?thesis by auto
  qed
qed

section \<open>The path of a folder\<close>

text \<open>The array \<open>path\<close> of 128 bytes: a text and zeros.\<close>

lemma path_written:
  assumes "length ys \<le> k" "length xs + k = 128"
  shows "wr_bytes (wr_bytes m p (xs @ replicate k 0)) (p + of_nat (length xs)) ys = wr_bytes m p ((xs @ ys) @ replicate (k - length ys) 0)"
proof -
  have "replicate k 0 = replicate (length ys) 0 @ replicate (k - length ys) (0 :: u8)"
    using assms(1) by (simp flip: replicate_add)
  with wr_bytes_part [of ys "replicate (length ys) 0" xs "replicate (k - length ys) 0" m p] assms show ?thesis by simp
qed

lemma path_text_written:
  assumes "length xs + length ys < 128" "k = 128 - length xs"
  shows "wr_bytes (wr_bytes m p (xs @ replicate k 0)) (p + of_nat (length xs)) (ys @ [0]) =
    wr_bytes m p ((xs @ ys) @ replicate (128 - length (xs @ ys)) 0)"
proof -
  have "k - length ys = Suc (k - length (ys @ [0]))" "k - length ys = 128 - length (xs @ ys)" using assms by simp_all
  with path_written [of "ys @ [0]" k xs m p] assms show ?thesis by (simp add: replicate_append_same [symmetric])
qed

lemma path_text: "0 \<notin> set xs \<Longrightarrow> 0 < k \<Longrightarrow> length xs + k = 128 \<Longrightarrow> cstr (wr_bytes m p (xs @ replicate k 0)) p xs"
  using cstr_wr_prefix [of xs "replicate (k - 1) 0" m p] by (cases k) auto

definition drive_digit :: "u8 list \<Rightarrow> u8 list" where
  "drive_digit s = (case s of [] \<Rightarrow> [] | c # cs \<Rightarrow> (if 65 \<le> c \<and> c \<le> 73 then c - 0x11 else c) # cs)"

definition folder_text :: "u8 list \<Rightarrow> u8 list \<Rightarrow> u8 list" where
  "folder_text s n = drive_digit (s @ (if last s \<noteq> 47 then [47] else []) @ n)"

lemma folder_path_text:
  assumes sys: "cstr m (de_syspath env) s" "s \<noteq> []" and name: "cstr m nm n" and fits: "length s + length n + 2 \<le> 128"
    and apart: "disjoint_blocks (de_path env) 128 (de_syspath env) (Suc (length s))" "disjoint_blocks (de_path env) 128 nm (Suc (length n))"
  shows "\<exists>m'. folder_path env nm m = Some m' \<and> text_at m' (de_path env) = Some (folder_text s n) \<and>
    (\<forall>x. \<not> in_block (de_path env) 128 x \<longrightarrow> m' x = m x)"
proof -
  let ?p = "de_path env"
  let ?at = "\<lambda>t. wr_bytes m ?p (t @ replicate (128 - length t) 0)"
  have at: "?at [] = memset m ?p 0 128" by (simp add: memset_def memset_loop_block)
  have keeps: "cstr (?at t) q u = cstr m q u" if "length t \<le> 128" "disjoint_blocks ?p 128 q (Suc (length u))" "length u < 2 ^ 32" for t q u
    by (rule cstr_wr_bytes) (use that in auto)
  have z: "0 \<notin> set s" "0 \<notin> set n" using cstr_nonzero sys(1) name by auto
  have len: "length s < 2 ^ 32" "length n < 2 ^ 32" "length s < 127" using fits by auto
  have copy: "strcpy (?at []) ?p (de_syspath env) = Some (?p, ?at s)"
  proof -
    have "cstr (?at []) (de_syspath env) s" using keeps [OF _ apart(1), of "[]"] sys(1) len(1) by simp
    moreover have "disjoint_blocks ?p (Suc (length s)) (de_syspath env) (Suc (length s))"
      using disjoint_blocks_part [OF apart(1), of 0 "Suc (length s)"] len(3) by simp
    ultimately have "strcpy_loop (?at []) ?p (de_syspath env) = Some (wr_bytes (?at []) ?p (s @ [0]))"
      using len(1) by (intro strcpy_loop_cstr)
    moreover have "wr_bytes (?at []) ?p (s @ [0]) = ?at s"
      using path_text_written [of "[]" s 128 m ?p] len(3) by simp
    ultimately show ?thesis by (simp add: strcpy_def)
  qed
  have "?at s (?p + of_nat (length s - 1)) = last s"
    using wr_bytes_nth [of "length s - 1" "s @ replicate (128 - length s) 0" m ?p] sys(2) len(3) by (simp add: nth_append last_conv_nth)
  then have lst: "?at s (?p + (of_nat (length s) - 1)) = last s" using sys(2) by (cases s) auto
  define u where "u = s @ (if last s \<noteq> 47 then [47] else [])"
  have sep: "(if ?at s (?p + (of_nat (length s) - 1)) \<noteq> 47 then map_option (\<lambda>n. (?at s)(?p + n := 47)) (strlen (?at s) ?p) else Some (?at s)) = Some (?at u)"
  proof -
    have "strlen (?at s) ?p = Some (of_nat (length s))" using path_text [OF z(1), of "128 - length s" m ?p] len(3) by (intro strlen_cstr) simp
    moreover have "(?at s)(?p + of_nat (length s) := 47) = ?at (s @ [47])"
      using path_written [of "[47]" "128 - length s" s m ?p] len(3) by simp
    ultimately show ?thesis unfolding lst by (simp add: u_def)
  qed
  have u: "0 \<notin> set u" "length u + length n < 128" "u \<noteq> []" using z(1) fits sys(2) by (auto simp: u_def)
  have cat: "strcat (?at u) ?p nm = Some (?p, ?at (u @ n))"
  proof -
    have "cstr (?at u) nm n" using keeps [OF _ apart(2), of u] name len(2) u(2) by simp
    moreover have "disjoint_blocks (?p + of_nat (length u)) (Suc (length n)) nm (Suc (length n))"
      using disjoint_blocks_part [OF apart(2), of "length u" "Suc (length n)"] u(2) by simp
    ultimately have "strcat_loop (?at u) (?p + of_nat (length u)) nm = Some (wr_bytes (?at u) (?p + of_nat (length u)) (n @ [0]))"
      using len(2) by (intro strcat_loop_cstr)
    moreover have "wr_bytes (?at u) (?p + of_nat (length u)) (n @ [0]) = ?at (u @ n)"
      using path_text_written [of u n "128 - length u" m ?p] u(2) by simp
    moreover have "find_end (?at u) ?p = Some (?p + of_nat (length u))"
      using path_text [OF u(1), of "128 - length u" m ?p] u(2) by (intro find_end_cstr) simp
    ultimately show ?thesis by (simp add: strcat_def)
  qed
  obtain c cs where c: "u @ n = c # cs" using u(3) by (cases "u @ n") auto
  have "length cs < 128" using arg_cong [OF c, of length] u(2) by simp
  then have hd: "?at (c # cs) ?p = c" using wr_bytes_nth [of 0 "(c # cs) @ replicate (128 - length (c # cs)) 0" m ?p] c u(2) by simp
  have upd: "(?at (c # cs))(?p := d) = ?at (d # cs)" for d
    using wr_bytes_part [of "[d]" "[c]" "[]" "cs @ replicate (128 - length (c # cs)) 0" m ?p] arg_cong [OF c, of length] u(2) by simp
  define t where "t = folder_text s n"
  have t: "t = (if 65 \<le> c \<and> c \<le> 73 then c - 0x11 else c) # cs" using c by (simp add: t_def folder_text_def u_def drive_digit_def)
  have sl: "strlen (?at []) (de_syspath env) = Some (of_nat (length s))"
    using keeps [OF _ apart(1) len(1), of "[]"] sys(1) by (intro strlen_cstr) simp
  have r: "folder_path env nm m = Some (?at t)"
    unfolding folder_path_def Let_def at [symmetric] sl Option.bind.bind_lunit copy prod.case sep cat c hd upd t by auto
  have "65 \<le> c \<and> c \<le> 73 \<longrightarrow> c - 0x11 \<noteq> 0" by auto
  moreover have "0 \<notin> set (c # cs)" unfolding c [symmetric] using z u(1) by simp
  ultimately have "0 \<notin> set t" unfolding t by auto
  moreover have l: "length t < 128" using arg_cong [OF c, of length] u(2) unfolding t by simp
  ultimately have "text_at (?at t) ?p = Some t" using path_text [of t "128 - length t" m ?p] by (intro text_at_cstr) simp
  moreover have "\<forall>x. \<not> in_block ?p 128 x \<longrightarrow> ?at t x = m x" using l by (auto intro!: wr_bytes_frame)
  ultimately show ?thesis using r unfolding t_def [symmetric] by blast
qed

text \<open>
  \<open>rmdir\<close> asks FatFs for the folder in the working directory, with the drive letter as a digit; the
  array \<open>path\<close> is the only part of memory that changes.
\<close>

theorem rmdir_removes_folder:
  assumes "cstr (b_mem st) (de_syspath env) s" "s \<noteq> []" "cstr (b_mem st) (argv ! 0) n" "length s + length n + 2 \<le> 128"
    and "disjoint_blocks (de_path env) 128 (de_syspath env) (Suc (length s))" "disjoint_blocks (de_path env) 128 (argv ! 0) (Suc (length n))"
    and "de_rmdir env (folder_text s n) (b_fs st) = (r, fs)"
  shows "\<exists>m' fmt. do_rmdir env argv st = d_print_line env fmt (if r \<in> {0, 4, 5, 7} then [] else [ucast r]) (st\<lparr>b_mem := m', b_fs := fs\<rparr>) \<and>
    (\<forall>x. \<not> in_block (de_path env) 128 x \<longrightarrow> m' x = b_mem st x)"
proof -
  from folder_path_text [OF assms(1-6)] obtain m' where m: "folder_path env (argv ! 0) (b_mem st) = Some m'"
    "text_at m' (de_path env) = Some (folder_text s n)" "\<forall>x. \<not> in_block (de_path env) 128 x \<longrightarrow> m' x = b_mem st x" by blast
  show ?thesis
    using m assms(7) by (auto simp: do_rmdir_def path_call_def FR_OK_def)
qed

section \<open>The time since the start\<close>

text \<open>
  Seconds, minutes and hours are those of the tenth part of the counter; the days are the hours divided
  by 60.
\<close>

lemma uptime_days_are_sixty_hours:
  "uptime_fields tick =
    (let s = unat tick div 10 in (of_nat (s div 3600 div 60), of_nat (s div 3600 mod 24), of_nat (s div 60 mod 60), of_nat (s mod 60)))"
proof -
  have n: "of_nat (unat v mod k) = (ucast v :: u16)" "k = k" if "unat v < k" for v :: u32 and k using that by simp_all
  have u: "(ucast v :: u16) = of_nat (unat v)" for v :: u32 by (simp add: word_unat_eq_iff unat_of_nat unsigned_ucast_eq)
  show ?thesis
    unfolding uptime_fields_def Let_def u by (simp add: unat_div unat_mod div_mult2_eq [symmetric])
qed

section \<open>The theorems at work\<close>

definition demo_wm_mem :: mem where
  "demo_wm_mem = wr_bytes (wr_bytes (wr_bytes (\<lambda>_. 0) 0x100 [52, 48, 48, 48]) 0x110 [55]) 0x120 [49, 50, 97, 66]"

definition demo_wm :: "unit bios" where
  "demo_wm = \<lparr>b_mem = demo_wm_mem, b_in = [], b_out = [], b_count = 0, b_fs = ()\<rparr>"

text \<open>The line is \<open>writemem 4000 7 12aB\<close>.\<close>

theorem writemem_all_or_nothing_witness:
  "\<forall>env :: unit disk_env. do_writemem env [0x100, 0x110, 0x120] demo_wm = Some (demo_wm\<lparr>b_mem := wr_bytes demo_wm_mem 0x4000 [0x07, 0x12, 0xAB]\<rparr>)"
proof -
  have c: "cstr (b_mem demo_wm) 0x110 [55]" "cstr (b_mem demo_wm) 0x120 [49, 50, 97, 66]"
    "cstr (b_mem demo_wm) 0x100 (map digit_char [4, 0, 0, 0] @ [])"
    "strtoul_digit (schar (b_mem demo_wm (0x100 + of_nat (length [4, 0, 0, 0 :: nat])))) = None" by code_simp+
  have g: "digits_value 16 [4, 0, 0, 0] = 0x4000" by simp
  have "d \<in> set [4, 0, 0, 0] \<Longrightarrow> d < 16" for d :: nat by auto
  from strtoul_value [OF c(3) _ this _ _ c(4), of 0] g
  have p: "strtoul (b_mem demo_wm) (hd [0x100, 0x110, 0x120]) 0 16 = Some (0x4000, b_mem demo_wm)" by (simp add: uint_max_def)
  let ?ts = "[[55], [49, 50, 97, 66]]"
  have v: "concat (List.map hex_pairs ?ts) = [0x07, 0x12, 0xAB]" "\<forall>t \<in> set ?ts. hex_argument t" by code_simp+
  have t: "argument_texts (b_mem demo_wm) (tl [0x100, 0x110, 0x120]) ?ts" using c by simp
  have "disjoint_blocks 0x4000 3 (0x110 :: u32) 2" "disjoint_blocks 0x4000 3 (0x120 :: u32) 5" by (simp_all add: disjoint_blocks_def)
  from disjoint_blocksD [OF this(1)] disjoint_blocksD [OF this(2)]
  have o: "off_limits 0x4000 (length (concat (List.map hex_pairs ?ts))) (tl [0x100, 0x110, 0x120]) ?ts"
    unfolding v by (simp add: off_limits_def numeral_3_eq_3 eval_nat_numeral)
  have l: "length (concat (List.map hex_pairs ?ts)) \<le> 2 ^ 32" unfolding v by simp
  show ?thesis
  proof
    fix env :: "unit disk_env"
    show "do_writemem env [0x100, 0x110, 0x120] demo_wm = Some (demo_wm\<lparr>b_mem := wr_bytes demo_wm_mem 0x4000 [0x07, 0x12, 0xAB]\<rparr>)"
      using writemem_all_or_nothing [OF _ p t o l, of env] v by (simp add: demo_wm_def)
  qed
qed

definition demo_disk_env :: "unit disk_env" where
  "demo_disk_env = \<lparr>de_bios = \<lparr>be_fat = \<lparr>ff_open = (\<lambda>fil path mode fs. (4, fs)), ff_close = (\<lambda>fil fs. (0, fs)),
       ff_read = (\<lambda>fil n fs. (0, [], fs)), ff_write = (\<lambda>fil bs fs. (0, 0, fs)), ff_lseek = (\<lambda>fil p fs. (0, fs)),
       ff_tell = (\<lambda>fil fs. 0), ff_size = (\<lambda>fil fs. 0)\<rparr>, be_lit = (\<lambda>_. 0x1000), be_fileext = 0x2000, be_chdrive = (\<lambda>path fs. (0, fs)),
       be_command = (\<lambda>fn argv st. None), be_run = (\<lambda>entry argv st. None)\<rparr>,
     de_chdir = (\<lambda>p fs. (5, fs)), de_unlink = (\<lambda>p fs. (4, fs)), de_mkdir = (\<lambda>p fs. (8, fs)),
     de_rmdir = (\<lambda>p fs. (if p = [48, 58, 47, 98, 47, 99] then 0 else 5, fs)), de_rename = (\<lambda>p q fs. (4, fs)),
     de_mount = (\<lambda>v p fs. (0, fs)), de_opendir = (\<lambda>p fs. (5, fs)),
     de_readdir = (\<lambda>fs. (0, \<lparr>fe_name = [], fe_attrib = 0, fe_date = 0, fe_time = 0, fe_size = 0\<rparr>, fs)), de_closedir = (\<lambda>fs. fs),
     de_ide_mode = (\<lambda>m fs. fs), de_key_waits = (\<lambda>st. False), de_tick = (\<lambda>st. 0), de_registers = (\<lambda>st. st),
     de_syspath = 0x200, de_path = 0x400, de_arquivo = 0x500, de_buffer = 0x600, de_text = 0x900, de_fname = 0xA00\<rparr>"

definition demo_folder :: "unit bios" where
  "demo_folder = demo_wm\<lparr>b_mem := wr_bytes (wr_bytes (\<lambda>_. 0) 0x200 [65, 58, 47, 98]) 0x300 [99]\<rparr>"

text \<open>In \<open>A:/b\<close> the line \<open>rmdir c\<close> removes \<open>0:/b/c\<close>.\<close>

theorem rmdir_removes_folder_witness:
  "\<exists>m' fmt. do_rmdir demo_disk_env [0x300] demo_folder = d_print_line demo_disk_env fmt [] (demo_folder\<lparr>b_mem := m'\<rparr>)"
proof -
  have c: "cstr (b_mem demo_folder) (de_syspath demo_disk_env) [65, 58, 47, 98]" "cstr (b_mem demo_folder) ([0x300] ! 0) [99]"
    "folder_text [65, 58, 47, 98] [99] = [48, 58, 47, 98, 47, 99]" by code_simp+
  have d: "disjoint_blocks (de_path demo_disk_env) 128 (de_syspath demo_disk_env) (Suc (length [65, 58, 47, 98 :: u8]))"
    "disjoint_blocks (de_path demo_disk_env) 128 ([0x300] ! 0) (Suc (length [99 :: u8]))"
    by (simp_all add: disjoint_blocks_def demo_disk_env_def)
  have r: "de_rmdir demo_disk_env (folder_text [65, 58, 47, 98] [99]) (b_fs demo_folder) = (0, ())"
    unfolding c(3) by (simp add: demo_disk_env_def)
  have "demo_folder\<lparr>b_mem := m', b_fs := ()\<rparr> = demo_folder\<lparr>b_mem := m'\<rparr>" for m' by simp
  with rmdir_removes_folder [OF c(1) _ c(2) _ d r] show ?thesis by auto
qed

end
