(* ===== verification/AtaDisk.thy ===== *)
theory AtaDisk
  imports Prelude "HOL-Library.Monad_Syntax"
begin

text \<open>
  The disk of the BIOS (\<^verbatim>\<open>apps/bios/ide/ata.c\<close>, \<^verbatim>\<open>apps/bios/ide/diskio.c\<close>): the registers of an ATA drive,
  the waits, reading and writing a sector, the partition table, and the functions FatFs calls.  The
  registers, the tick counter and \<open>dump_memory\<close> are the environment; \<open>at_calls\<close> records the calls of
  \<open>printf\<close>.  \<open>None\<close>: a wait for the drive does not end, or a word is accessed at an odd address, where
  the processor traps.
\<close>

section \<open>State and environment\<close>

record partition =
  pt_base :: u32
  pt_size :: u32
  pt_fstype :: u8
  pt_flags :: u8

record disk_stat =
  ds_status :: u8
  ds_sz_sector :: u16
  ds_n_sectors :: u32

record 'w ata_state =
  at_dev :: 'w
  at_mem :: mem
  at_mode :: u8  \<comment> \<open>\<open>ide_bus_mode\<close>\<close>
  at_parts :: "partition list"  \<comment> \<open>\<open>drives[0].parts\<close>\<close>
  at_stat :: "disk_stat list"
  at_sr :: u16  \<comment> \<open>the status register with the interrupt mask\<close>
  at_calls :: "(string \<times> u32 list) list"

record 'w ata =
  ax_in :: "u32 \<Rightarrow> 'w \<Rightarrow> u8 \<times> 'w"
  ax_in_word :: "u32 \<Rightarrow> 'w \<Rightarrow> u16 \<times> 'w"
  ax_out :: "u32 \<Rightarrow> u8 \<Rightarrow> 'w \<Rightarrow> 'w"
  ax_ticks :: "'w \<Rightarrow> u32 \<times> 'w"
  ax_dump :: "u32 \<Rightarrow> u32 \<Rightarrow> 'w ata_state \<Rightarrow> 'w ata_state"  \<comment> \<open>\<open>dump_memory\<close>\<close>
  ax_identity :: u32  \<comment> \<open>the array of \<open>ata_read_identity\<close>\<close>

definition ATA_REG_BASE :: u32 where "ATA_REG_BASE = 0x00FF4400"
definition ATA_REG_DATA :: u32 where "ATA_REG_DATA = ATA_REG_BASE + 0x0 + 1"
definition ATA_REG_DATA_BYTE :: u32 where "ATA_REG_DATA_BYTE = ATA_REG_BASE + 0x0 + 1"
definition ATA_REG_FEATURE :: u32 where "ATA_REG_FEATURE = ATA_REG_BASE + 0x2 + 1"
definition ATA_REG_ERROR :: u32 where "ATA_REG_ERROR = ATA_REG_BASE + 0x2 + 1"
definition ATA_REG_SECTOR_COUNT :: u32 where "ATA_REG_SECTOR_COUNT = ATA_REG_BASE + 0x4 + 1"
definition ATA_REG_SECTOR_NUM :: u32 where "ATA_REG_SECTOR_NUM = ATA_REG_BASE + 0x6 + 1"
definition ATA_REG_CYL_LOW :: u32 where "ATA_REG_CYL_LOW = ATA_REG_BASE + 0x8 + 1"
definition ATA_REG_CYL_HIGH :: u32 where "ATA_REG_CYL_HIGH = ATA_REG_BASE + 0xA + 1"
definition ATA_REG_DRIVE_HEAD :: u32 where "ATA_REG_DRIVE_HEAD = ATA_REG_BASE + 0xC + 1"
definition ATA_REG_STATUS :: u32 where "ATA_REG_STATUS = ATA_REG_BASE + 0xE + 1"
definition ATA_REG_COMMAND :: u32 where "ATA_REG_COMMAND = ATA_REG_BASE + 0xE + 1"

definition ATA_CMD_READ_SECTORS :: u8 where "ATA_CMD_READ_SECTORS = 0x20"
definition ATA_CMD_WRITE_SECTORS :: u8 where "ATA_CMD_WRITE_SECTORS = 0x30"
definition ATA_CMD_IDENTIFY :: u8 where "ATA_CMD_IDENTIFY = 0xEC"
definition ATA_CMD_SET_FEATURE :: u8 where "ATA_CMD_SET_FEATURE = 0xEF"

definition ATA_ST_BUSY :: u8 where "ATA_ST_BUSY = 0x80"
definition ATA_ST_DATA_READY :: u8 where "ATA_ST_DATA_READY = 0x08"
definition ATA_ST_ERROR :: u8 where "ATA_ST_ERROR = 0x01"

definition ATA_TIMEOUT :: nat where "ATA_TIMEOUT = 100000"

definition PARTITION_MAX :: nat where "PARTITION_MAX = 4"

definition at_in :: "'w ata \<Rightarrow> u32 \<Rightarrow> 'w ata_state \<Rightarrow> u8 \<times> 'w ata_state" where
  "at_in e reg st = (let (v, w) = ax_in e reg (at_dev st) in (v, st\<lparr>at_dev := w\<rparr>))"

definition at_put :: "'w ata \<Rightarrow> u32 \<Rightarrow> u8 \<Rightarrow> 'w ata_state \<Rightarrow> 'w ata_state" where
  "at_put e reg v st = st\<lparr>at_dev := ax_out e reg v (at_dev st)\<rparr>"

definition at_in_word :: "'w ata \<Rightarrow> u32 \<Rightarrow> 'w ata_state \<Rightarrow> (u16 \<times> 'w ata_state) option" where
  "at_in_word e reg st =
     (if bit reg 0 then None else let (v, w) = ax_in_word e reg (at_dev st) in Some (v, st\<lparr>at_dev := w\<rparr>))"

definition at_printf :: "string \<Rightarrow> u32 list \<Rightarrow> 'w ata_state \<Rightarrow> 'w ata_state" where
  "at_printf fmt args st = st\<lparr>at_calls := at_calls st @ [(fmt @ [CHR 0x0A], args)]\<rparr>"

definition at_lock :: "'w ata_state \<Rightarrow> 'w ata_state" where
  "at_lock st = st\<lparr>at_sr := at_sr st OR 0x0200\<rparr>"

definition at_unlock :: "'w ata_state \<Rightarrow> 'w ata_state" where
  "at_unlock st = st\<lparr>at_sr := at_sr st AND 0xF8FF\<rparr>"

section \<open>Waiting\<close>

partial_function (option) ata_wait :: "'w ata \<Rightarrow> 'w ata_state \<Rightarrow> 'w ata_state option" where
  "ata_wait e st =
     (let (s, st) = at_in e ATA_REG_STATUS st in if s AND ATA_ST_BUSY \<noteq> 0 then ata_wait e st else Some st)"

partial_function (option) ata_wait_data :: "'w ata \<Rightarrow> 'w ata_state \<Rightarrow> 'w ata_state option" where
  "ata_wait_data e st =
     (let (s, st) = at_in e ATA_REG_STATUS st in if s AND ATA_ST_DATA_READY = 0 then ata_wait_data e st else Some st)"

partial_function (option) busy_clear_loop :: "'w ata \<Rightarrow> u32 \<Rightarrow> u32 \<Rightarrow> 'w ata_state \<Rightarrow> (int \<times> 'w ata_state) option" where
  "busy_clear_loop e start limit st =
     (let (s, st) = at_in e ATA_REG_STATUS st
      in if s AND ATA_ST_BUSY = 0 then Some (1, st)
         else let (now, w) = ax_ticks e (at_dev st); st = st\<lparr>at_dev := w\<rparr>
              in if now - start < limit then busy_clear_loop e start limit st else Some (0, st))"

definition ata_wait_busy_clear_timed :: "'w ata \<Rightarrow> u32 \<Rightarrow> 'w ata_state \<Rightarrow> (int \<times> 'w ata_state) option" where
  "ata_wait_busy_clear_timed e timeout_ms st =
     (let (start, w) = ax_ticks e (at_dev st) in busy_clear_loop e start (timeout_ms div 10) (st\<lparr>at_dev := w\<rparr>))"

text \<open>\<open>do ... while (timeout--)\<close>: one round more than the timeout.\<close>

fun not_busy_loop :: "'w ata \<Rightarrow> nat \<Rightarrow> 'w ata_state \<Rightarrow> bool \<times> 'w ata_state" where
  "not_busy_loop e n st =
     (let (s, st) = at_in e ATA_REG_STATUS st
      in if s AND ATA_ST_BUSY = 0 then (True, st) else case n of 0 \<Rightarrow> (False, st) | Suc k \<Rightarrow> not_busy_loop e k st)"

definition ata_wait_not_busy :: "'w ata \<Rightarrow> 'w ata_state \<Rightarrow> int \<times> 'w ata_state" where
  "ata_wait_not_busy e st =
     (let (ready, st) = not_busy_loop e ATA_TIMEOUT st
      in if ready then (0, st) else (1, at_printf ''ata_wait_not_busy: timeout'' [] st))"

definition ata_wait_for_data :: "'w ata \<Rightarrow> 'w ata_state \<Rightarrow> int \<times> 'w ata_state" where
  "ata_wait_for_data e st =
     (let (ready, st) = not_busy_loop e ATA_TIMEOUT st
      in if ready then (0, st) else (1, at_printf ''ata_wait_for_data: timeout'' [] st))"

section \<open>Is there a drive?\<close>

definition set_ide_bus_mode :: "u8 \<Rightarrow> 'w ata_state \<Rightarrow> 'w ata_state" where
  "set_ide_bus_mode mode st =
     (if schar mode > 1 \<or> schar mode < 0 then at_printf ''This mode does not exist...[%d]'' [scast mode] st
      else st\<lparr>at_mode := mode\<rparr>)"

definition set_feature :: "'w ata \<Rightarrow> u8 \<Rightarrow> 'w ata_state \<Rightarrow> 'w ata_state option" where
  "set_feature e v st = ata_wait e (at_put e ATA_REG_COMMAND ATA_CMD_SET_FEATURE (at_put e ATA_REG_FEATURE v st))"

definition go_8bits_mode :: "'w ata \<Rightarrow> 'w ata_state \<Rightarrow> 'w ata_state option" where
  "go_8bits_mode e st = do {
     st \<leftarrow> (if at_mode st = 0 then set_feature e 0x01 st else Some st);
     if at_mode st = 1 then set_feature e 0x81 st else Some st }"

text \<open>Two registers are written and read back; the second is only read if the first is as written.\<close>

definition signature_test :: "'w ata \<Rightarrow> u8 \<Rightarrow> u8 \<Rightarrow> 'w ata_state \<Rightarrow> bool \<times> 'w ata_state" where
  "signature_test e a b st =
     (let st = at_put e ATA_REG_SECTOR_NUM b (at_put e ATA_REG_SECTOR_COUNT a st);
          (v, st) = at_in e ATA_REG_SECTOR_COUNT st
      in if v \<noteq> a then (False, st)
         else let (v, st) = at_in e ATA_REG_SECTOR_NUM st in (v = b, st))"

definition has_master_disk3 :: "'w ata \<Rightarrow> 'w ata_state \<Rightarrow> int \<times> 'w ata_state" where
  "has_master_disk3 e st =
     (let st = at_put e ATA_REG_DRIVE_HEAD 0xA0 st;
          (there, st) = signature_test e 0x55 0xAA st
      in if \<not> there then (0, st)
         else let (there, st) = signature_test e 0xAA 0x55 st
              in if \<not> there then (0, st)
                 else let (status, st) = at_in e ATA_REG_STATUS st in (if status = 0xFF then 0 else 1, st))"

definition has_master_disk4 :: "'w ata \<Rightarrow> 'w ata_state \<Rightarrow> (int \<times> 'w ata_state) option" where
  "has_master_disk4 e st =
     (let (there, st) = has_master_disk3 e st
      in if there = 0 then Some (0, st)
         else do {
           (clear, st) \<leftarrow> ata_wait_busy_clear_timed e 1000 st;
           Some (if clear = 0 then 0 else 1, st) })"

definition has_master_disk :: "'w ata \<Rightarrow> 'w ata_state \<Rightarrow> int \<times> 'w ata_state" where
  "has_master_disk e st =
     (let (v, st) = at_in e ATA_REG_SECTOR_COUNT (at_put e ATA_REG_SECTOR_COUNT 0x55 st)
      in if v \<noteq> 0x55 then (0, st)
         else let (v, st) = at_in e ATA_REG_SECTOR_COUNT (at_put e ATA_REG_SECTOR_COUNT 0xAA st)
              in (if v \<noteq> 0xAA then 0 else 1, st))"

definition has_master_disk2 :: "'w ata \<Rightarrow> 'w ata_state \<Rightarrow> int \<times> 'w ata_state" where
  "has_master_disk2 e st =
     (let (v, st) = at_in e ATA_REG_SECTOR_COUNT (at_put e ATA_REG_SECTOR_COUNT 0xAA (at_put e ATA_REG_SECTOR_COUNT 0x55 st))
      in if v \<noteq> 0xAA then (0, st)
         else let (status, st) = at_in e ATA_REG_STATUS st in (if status = 0xFF then 0 else 1, st))"

fun identify_loop :: "'w ata \<Rightarrow> nat \<Rightarrow> 'w ata_state \<Rightarrow> int \<times> 'w ata_state" where
  "identify_loop e 0 st = (0, at_printf ''ata: timeout waiting for identify command'' [] st)"
| "identify_loop e (Suc n) st =
     (let (status, st) = at_in e ATA_REG_STATUS st
      in if status AND ATA_ST_BUSY = 0 then
           if status AND ATA_ST_DATA_READY \<noteq> 0 then (1, st) else (0, at_printf ''ata: data not ready'' [] st)
         else identify_loop e n st)"

definition ata_detect :: "'w ata \<Rightarrow> 'w ata_state \<Rightarrow> int \<times> 'w ata_state" where
  "ata_detect e st =
     (let (there, st) = has_master_disk e st
      in if there = 0 then (0, st)
         else identify_loop e 1000 (at_put e ATA_REG_COMMAND ATA_CMD_IDENTIFY st))"

section \<open>Sectors\<close>

fun read_bytes_loop :: "'w ata \<Rightarrow> nat \<Rightarrow> u32 \<Rightarrow> 'w ata_state \<Rightarrow> 'w ata_state option" where
  "read_bytes_loop e 0 p st = Some st"
| "read_bytes_loop e (Suc n) p st =
     (let (b, st) = at_in e ATA_REG_DATA_BYTE st
      in Option.bind (ata_wait e (st\<lparr>at_mem := (at_mem st)(p := b)\<rparr>)) (read_bytes_loop e n (p + 1)))"

text \<open>The word is stored, then its bytes are exchanged in memory.\<close>

fun read_words_loop :: "'w ata \<Rightarrow> nat \<Rightarrow> u32 \<Rightarrow> 'w ata_state \<Rightarrow> 'w ata_state option" where
  "read_words_loop e 0 p st = Some st"
| "read_words_loop e (Suc n) p st = do {
     (v, st) \<leftarrow> at_in_word e ATA_REG_DATA st;
     if bit p 0 then None
     else do {
       st \<leftarrow> ata_wait e (st\<lparr>at_mem := wr16 (at_mem st) p (word_rotl 8 v)\<rparr>);
       read_words_loop e n (p + 2) st } }"

text \<open>The registers of the address, and the command.\<close>

definition sector_command :: "'w ata \<Rightarrow> u32 \<Rightarrow> u8 \<Rightarrow> 'w ata_state \<Rightarrow> 'w ata_state" where
  "sector_command e sector cmd st =
     (let st = at_put e ATA_REG_CYL_HIGH (ucast (drop_bit 16 sector)) st;
          st = at_put e ATA_REG_CYL_LOW (ucast (drop_bit 8 sector)) st;
          st = at_put e ATA_REG_SECTOR_NUM (ucast sector) st;
          st = at_put e ATA_REG_SECTOR_COUNT 1 st
      in at_put e ATA_REG_COMMAND cmd st)"

definition ata_read_sector :: "'w ata \<Rightarrow> u32 \<Rightarrow> u32 \<Rightarrow> 'w ata_state \<Rightarrow> (int \<times> 'w ata_state) option" where
  "ata_read_sector e sector buffer st = do {
     let st = at_put e ATA_REG_DRIVE_HEAD 0xE0 (at_lock st);
     st \<leftarrow> go_8bits_mode e st;
     st \<leftarrow> ata_wait e (sector_command e sector ATA_CMD_READ_SECTORS st);
     let (status, st) = at_in e ATA_REG_STATUS st;
     if status AND 0x01 \<noteq> 0 then
       (let (err, st) = at_in e ATA_REG_ERROR st
        in Some (0, at_unlock (at_printf ''Error while reading ata: %x'' [ucast err] st)))
     else do {
       st \<leftarrow> ata_wait e st;
       st \<leftarrow> ata_wait_data e st;
       st \<leftarrow> (if at_mode st = 0 then read_bytes_loop e 512 buffer st else read_words_loop e 256 buffer st);
       Some (512, at_unlock st) } }"

fun write_bytes_loop :: "'w ata \<Rightarrow> nat \<Rightarrow> u32 \<Rightarrow> 'w ata_state \<Rightarrow> 'w ata_state option" where
  "write_bytes_loop e 0 p st = Some st"
| "write_bytes_loop e (Suc n) p st = do {
     st \<leftarrow> ata_wait e st;
     write_bytes_loop e n (p + 1) (at_put e ATA_REG_DATA_BYTE (at_mem st p) st) }"

definition ata_write_sector :: "'w ata \<Rightarrow> u32 \<Rightarrow> u32 \<Rightarrow> 'w ata_state \<Rightarrow> (int \<times> 'w ata_state) option" where
  "ata_write_sector e sector buffer st = do {
     st \<leftarrow> go_8bits_mode e (at_lock st);
     let st = at_put e ATA_REG_DRIVE_HEAD 0xE0 st;
     st \<leftarrow> ata_wait e (sector_command e sector ATA_CMD_WRITE_SECTORS st);
     let (status, st) = at_in e ATA_REG_STATUS st;
     if status AND 0x01 \<noteq> 0 then
       (let (err, st) = at_in e ATA_REG_ERROR st
        in Some (0, at_unlock (at_printf ''Error while writing ata: %x'' [ucast err] st)))
     else do {
       st \<leftarrow> ata_wait e st;
       st \<leftarrow> ata_wait_data e st;
       st \<leftarrow> write_bytes_loop e 512 buffer st;
       st \<leftarrow> ata_wait e st;
       let (status, st) = at_in e ATA_REG_STATUS st;
       let st = (if status AND ATA_ST_ERROR \<noteq> 0 then
                   (let (err, st) = at_in e ATA_REG_ERROR st in at_printf ''Error writing sector %d: %x'' [sector, ucast err] st)
                 else st);
       Some (512, at_unlock st) } }"

section \<open>The partition table\<close>

text \<open>\<open>rol.w #8\<close>, and \<open>__bswap_32\<close>, which is \<open>rol.w\<close>, \<open>swap\<close>, \<open>rol.w\<close>.\<close>

definition rol_word :: "u32 \<Rightarrow> u32" where
  "rol_word x = push_bit 16 (drop_bit 16 x) OR ucast (word_rotl 8 (ucast x :: u16))"

definition bswap32 :: "u32 \<Rightarrow> u32" where
  "bswap32 x = (let x = rol_word x; x = word_rotl 16 x in rol_word x)"

definition partition_entry :: "mem \<Rightarrow> u32 \<Rightarrow> partition" where
  "partition_entry m p =
     \<lparr>pt_base = bswap32 (rd32 m (p + 8)), pt_size = bswap32 (rd32 m (p + 12)), pt_fstype = m (p + 4), pt_flags = m p\<rparr>"

definition read_partition_table :: "u32 \<Rightarrow> 'w ata_state \<Rightarrow> 'w ata_state" where
  "read_partition_table buffer st =
     st\<lparr>at_parts := List.map (\<lambda>i. partition_entry (at_mem st) (buffer + 0x1BE + 16 * of_nat i)) [0..<4]\<rparr>"

definition ata_init :: "'w ata \<Rightarrow> 'w ata_state \<Rightarrow> (int \<times> 'w ata_state) option" where
  "ata_init e st =
     (let st = st\<lparr>at_parts := List.map (\<lambda>p. p\<lparr>pt_base := 0\<rparr>) (at_parts st)\<rparr>;
          (there, st) = ata_detect e st
      in if there = 0 then Some (0, at_printf ''ata: no device detected'' [] st)
         else do {
           (_, st) \<leftarrow> ata_read_sector e 0 0x82000 st;
           Some (1, read_partition_table 0x82000 st) })"

definition ata_disk_status :: "'w ata \<Rightarrow> 'w ata_state \<Rightarrow> int \<times> 'w ata_state" where
  "ata_disk_status e st = (let (there, st) = ata_detect e st in (if there \<noteq> 0 then 0 else 1, st))"

definition ata_disk_initialize :: "'w ata \<Rightarrow> 'w ata_state \<Rightarrow> (int \<times> 'w ata_state) option" where
  "ata_disk_initialize e st = map_option (\<lambda>(there, st). (if there \<noteq> 0 then 0 else 1, st)) (ata_init e st)"

section \<open>The identity of the drive\<close>

fun swap_pairs :: "nat \<Rightarrow> u32 \<Rightarrow> mem \<Rightarrow> mem" where
  "swap_pairs 0 p m = m"
| "swap_pairs (Suc n) p m = swap_pairs n (p + 2) (m(p := m (p + 1), p + 1 := m p))"

definition ata_read_identity :: "'w ata \<Rightarrow> 'w ata_state \<Rightarrow> (int \<times> 'w ata_state) option" where
  "ata_read_identity e st =
     (let (r, st) = ata_wait_not_busy e (at_printf ''ata_read_identity: function entry'' [] st)
      in if r \<noteq> 0 then Some (1, at_printf ''ata_read_identity: ata_wait_for_data (1) error'' [] st)
         else
           let st = at_put e ATA_REG_COMMAND ATA_CMD_IDENTIFY (at_put e ATA_REG_SECTOR_COUNT 1 st);
               (r, st) = ata_wait_for_data e st
           in if r \<noteq> 0 then Some (1, at_printf ''ata_read_identity: ata_wait_for_data (1) error'' [] st)
              else
                let (status, st) = at_in e ATA_REG_STATUS st
                in if status AND ATA_ST_ERROR \<noteq> 0 then
                     Some (1, at_printf ''ata_read_identity: disk status error - status = %02X'' [ucast status] st)
                   else
                     let (r, st) = ata_wait_not_busy e st
                     in if r \<noteq> 0 then Some (1, at_printf ''ata_read_identity: ata_wait_not_busy (2) error'' [] st)
                        else do {
                          let st = st\<lparr>at_calls := at_calls st @ [(''ata_read_identity: reading data....'', [])]\<rparr>;
                          st \<leftarrow> read_bytes_loop e 512 (ax_identity e) st;
                          let st = st\<lparr>at_mem := swap_pairs 256 (ax_identity e) (at_mem st)\<rparr>;
                          Some (0, at_printf ''done'' [] (ax_dump e (ax_identity e) 512 st)) })"

section \<open>The functions FatFs calls\<close>

definition RES_OK :: int where "RES_OK = 0"
definition RES_ERROR :: int where "RES_ERROR = 1"
definition RES_PARERR :: int where "RES_PARERR = 4"

definition DEV_FLASH :: u8 where "DEV_FLASH = 0"
definition SZ_BLOCK :: u32 where "SZ_BLOCK = 128"
definition CTRL_SYNC :: u8 where "CTRL_SYNC = 0"
definition GET_SECTOR_COUNT :: u8 where "GET_SECTOR_COUNT = 1"
definition GET_SECTOR_SIZE :: u8 where "GET_SECTOR_SIZE = 2"
definition GET_BLOCK_SIZE :: u8 where "GET_BLOCK_SIZE = 3"

definition disk_status :: "'w ata \<Rightarrow> u8 \<Rightarrow> 'w ata_state \<Rightarrow> u8 \<times> 'w ata_state" where
  "disk_status e pdrv st = (let (r, st) = ata_disk_status e st in (of_int r, st))"

definition disk_initialize :: "'w ata \<Rightarrow> u8 \<Rightarrow> 'w ata_state \<Rightarrow> (int \<times> 'w ata_state) option" where
  "disk_initialize e pdrv st = ata_disk_initialize e st"

definition physical_sector :: "u32 \<Rightarrow> 'w ata_state \<Rightarrow> u32" where
  "physical_sector sector st = pt_base (at_parts st ! 0) + sector"

fun read_sectors :: "'w ata \<Rightarrow> nat \<Rightarrow> u32 \<Rightarrow> u32 \<Rightarrow> 'w ata_state \<Rightarrow> (int \<times> 'w ata_state) option" where
  "read_sectors e 0 sector p st = Some (RES_OK, st)"
| "read_sectors e (Suc n) sector p st = do {
     (r, st) \<leftarrow> ata_read_sector e sector p st;
     if r = 0 then Some (RES_ERROR, st) else read_sectors e n (sector + 1) (p + 512) st }"

definition disk_read :: "'w ata \<Rightarrow> u8 \<Rightarrow> u32 \<Rightarrow> u32 \<Rightarrow> u32 \<Rightarrow> 'w ata_state \<Rightarrow> (int \<times> 'w ata_state) option" where
  "disk_read e pdrv buff sector count st =
     (if pdrv \<noteq> 0 then Some (RES_PARERR, at_printf ''disk_write: [%d] this drive does not exist.'' [ucast pdrv] st)
      else read_sectors e (unat count) (physical_sector sector st) buff st)"

fun write_sectors :: "'w ata \<Rightarrow> nat \<Rightarrow> u32 \<Rightarrow> u32 \<Rightarrow> 'w ata_state \<Rightarrow> (int \<times> 'w ata_state) option" where
  "write_sectors e 0 sector p st = Some (RES_OK, st)"
| "write_sectors e (Suc n) sector p st = do {
     (r, st) \<leftarrow> ata_write_sector e sector p st;
     if r = 0 then Some (RES_ERROR, st) else write_sectors e n (sector + 1) (p + 512) st }"

definition disk_write :: "'w ata \<Rightarrow> u8 \<Rightarrow> u32 \<Rightarrow> u32 \<Rightarrow> u32 \<Rightarrow> 'w ata_state \<Rightarrow> (int \<times> 'w ata_state) option" where
  "disk_write e pdrv buff sector count st =
     (if pdrv \<noteq> 0 then Some (RES_PARERR, at_printf ''disk_write: [%d] this drive does not exist.'' [ucast pdrv] st)
      else write_sectors e (unat count) (physical_sector sector st) buff st)"

definition disk_ioctl :: "u8 \<Rightarrow> u8 \<Rightarrow> u32 \<Rightarrow> 'w ata_state \<Rightarrow> int \<times> 'w ata_state" where
  "disk_ioctl pdrv cmd buff st =
     (if pdrv \<noteq> DEV_FLASH then (RES_PARERR, st)
      else if cmd = CTRL_SYNC then (RES_OK, st)
      else if cmd = GET_SECTOR_COUNT then
        (RES_OK, st\<lparr>at_mem := wr32 (at_mem st) buff (ds_n_sectors (at_stat st ! unat pdrv))\<rparr>)
      else if cmd = GET_SECTOR_SIZE then
        (RES_OK, st\<lparr>at_mem := wr16 (at_mem st) buff (ds_sz_sector (at_stat st ! unat pdrv))\<rparr>)
      else if cmd = GET_BLOCK_SIZE then (RES_OK, st\<lparr>at_mem := wr32 (at_mem st) buff SZ_BLOCK\<rparr>)
      else (RES_PARERR, st))"

end
