(* ===== verification/AtaChip.thy ===== *)
theory AtaChip
  imports AtaDisk
begin

text \<open>
  What the disk functions of \<open>AtaDisk\<close> do with a drive that behaves as the ATA command set describes:
  sectors are read and written where the partition table places them, a bad sector is reported.
\<close>

section \<open>The drive\<close>

datatype drive_phase = At_ease | Giving_data "u8 list" | Taking_data "u8 list" | Failed

record drive_view =
  dv_head :: u8
  dv_high :: u8
  dv_low :: u8
  dv_num :: u8
  dv_count :: u8
  dv_phase :: drive_phase
  dv_busy :: nat  \<comment> \<open>how many more times the status shows busy\<close>
  dv_disk :: "u32 \<Rightarrow> u8 list"

text \<open>The address of the sector, in the mode of logical blocks.\<close>

definition lba_of :: "drive_view \<Rightarrow> u32" where
  "lba_of v = of_be32 (dv_head v AND 0x0F) (dv_high v) (dv_low v) (dv_num v)"

definition idle_status :: "drive_phase \<Rightarrow> u8 \<Rightarrow> bool" where
  "idle_status ph s \<longleftrightarrow> s AND ATA_ST_BUSY = 0 \<and> (s AND ATA_ST_DATA_READY \<noteq> 0 \<longleftrightarrow> (\<exists>bs. ph = Giving_data bs \<or> ph = Taking_data bs)) \<and>
     (s AND ATA_ST_ERROR \<noteq> 0 \<longleftrightarrow> ph = Failed)"

definition status_read :: "drive_view \<Rightarrow> u8 \<Rightarrow> drive_view \<Rightarrow> bool" where
  "status_read v s v' \<longleftrightarrow>
     (if dv_busy v = 0 then idle_status (dv_phase v) s \<and> v' = v
      else s AND ATA_ST_BUSY \<noteq> 0 \<and> v' = v\<lparr>dv_busy := dv_busy v - 1\<rparr>)"

text \<open>The phase after a command; the commands of the driver for one sector in the mode of logical blocks.\<close>

definition command_phase :: "(u32 \<Rightarrow> bool) \<Rightarrow> u8 list \<Rightarrow> drive_view \<Rightarrow> u8 \<Rightarrow> drive_phase" where
  "command_phase good ident v c =
     (if c = ATA_CMD_IDENTIFY then Giving_data ident
      else if c = ATA_CMD_READ_SECTORS then if good (lba_of v) then Giving_data (dv_disk v (lba_of v)) else Failed
      else if c = ATA_CMD_WRITE_SECTORS then if good (lba_of v) then Taking_data [] else Failed
      else At_ease)"

definition command_ready :: "drive_view \<Rightarrow> u8 \<Rightarrow> bool" where
  "command_ready v c \<longleftrightarrow> c \<in> {ATA_CMD_IDENTIFY, ATA_CMD_SET_FEATURE} \<or>
     (c \<in> {ATA_CMD_READ_SECTORS, ATA_CMD_WRITE_SECTORS} \<and> dv_count v = 1 \<and> bit (dv_head v) 6)"

text \<open>
  The drive is ready for registers and commands when it is neither busy nor in the middle of a block of
  data, which the status shows as \<open>DRQ\<close>; what it does with them otherwise is left open.
\<close>

definition takes_commands :: "drive_view \<Rightarrow> bool" where
  "takes_commands v \<longleftrightarrow> dv_busy v = 0 \<and> dv_phase v \<in> {At_ease, Failed}"

lemma takes_commands_updates [simp]:
  "takes_commands (v\<lparr>dv_head := b\<rparr>) = takes_commands v" "takes_commands (v\<lparr>dv_high := b\<rparr>) = takes_commands v"
  "takes_commands (v\<lparr>dv_low := b\<rparr>) = takes_commands v" "takes_commands (v\<lparr>dv_num := b\<rparr>) = takes_commands v"
  "takes_commands (v\<lparr>dv_count := b\<rparr>) = takes_commands v" "takes_commands (v\<lparr>dv_disk := d\<rparr>) = takes_commands v"
  "takes_commands v \<Longrightarrow> takes_commands (v\<lparr>dv_phase := At_ease\<rparr>)" "takes_commands v \<Longrightarrow> dv_busy v = 0"
  by (auto simp: takes_commands_def)

text \<open>
  The drive is busy for some time after each command and each byte.  The sectors in \<open>good\<close> can be read
  and written; the answer to \<open>IDENTIFY\<close> is \<open>ident\<close>.
\<close>

definition ata_drive :: "'w ata \<Rightarrow> ('w \<Rightarrow> drive_view) \<Rightarrow> (u32 \<Rightarrow> bool) \<Rightarrow> u8 list \<Rightarrow> bool" where
  "ata_drive e view good ident \<longleftrightarrow> ident \<noteq> [] \<and>
     (\<forall>w. status_read (view w) (fst (ax_in e ATA_REG_STATUS w)) (view (snd (ax_in e ATA_REG_STATUS w)))) \<and>
     (\<forall>w. takes_commands (view w) \<longrightarrow> ax_in e ATA_REG_SECTOR_COUNT w = (dv_count (view w), w)) \<and>
     (\<forall>w. takes_commands (view w) \<longrightarrow> view (snd (ax_in e ATA_REG_ERROR w)) = view w) \<and>
     (\<forall>w b. takes_commands (view w) \<longrightarrow>
        view (ax_out e ATA_REG_FEATURE b w) = view w \<and>
        view (ax_out e ATA_REG_DRIVE_HEAD b w) = (view w)\<lparr>dv_head := b\<rparr> \<and>
        view (ax_out e ATA_REG_CYL_HIGH b w) = (view w)\<lparr>dv_high := b\<rparr> \<and>
        view (ax_out e ATA_REG_CYL_LOW b w) = (view w)\<lparr>dv_low := b\<rparr> \<and>
        view (ax_out e ATA_REG_SECTOR_NUM b w) = (view w)\<lparr>dv_num := b\<rparr> \<and>
        view (ax_out e ATA_REG_SECTOR_COUNT b w) = (view w)\<lparr>dv_count := b\<rparr>) \<and>
     (\<forall>w c. takes_commands (view w) \<longrightarrow> command_ready (view w) c \<longrightarrow>
        (\<exists>n. view (ax_out e ATA_REG_COMMAND c w) = (view w)\<lparr>dv_phase := command_phase good ident (view w) c, dv_busy := n\<rparr>)) \<and>
     (\<forall>w b bs. dv_busy (view w) = 0 \<longrightarrow> dv_phase (view w) = Giving_data (b # bs) \<longrightarrow>
        fst (ax_in e ATA_REG_DATA_BYTE w) = b \<and>
        (\<exists>n. view (snd (ax_in e ATA_REG_DATA_BYTE w)) =
           (view w)\<lparr>dv_phase := if bs = [] then At_ease else Giving_data bs, dv_busy := n\<rparr>)) \<and>
     (\<forall>w b bs. dv_busy (view w) = 0 \<longrightarrow> dv_phase (view w) = Taking_data bs \<longrightarrow>
        (\<exists>n. view (ax_out e ATA_REG_DATA_BYTE b w) =
           (if length bs < 511 then (view w)\<lparr>dv_phase := Taking_data (bs @ [b]), dv_busy := n\<rparr>
            else (view w)\<lparr>dv_phase := At_ease, dv_busy := n, dv_disk := (dv_disk (view w))(lba_of (view w) := bs @ [b])\<rparr>)))"

text \<open>Its facts, one by one.\<close>

lemma drive_status:
  "ata_drive e view good ident \<Longrightarrow> status_read (view w) (fst (ax_in e ATA_REG_STATUS w)) (view (snd (ax_in e ATA_REG_STATUS w)))"
  by (simp add: ata_drive_def)

lemma drive_count: "ata_drive e view good ident \<Longrightarrow> takes_commands (view w) \<Longrightarrow> ax_in e ATA_REG_SECTOR_COUNT w = (dv_count (view w), w)"
  by (simp add: ata_drive_def)

lemma drive_error: "ata_drive e view good ident \<Longrightarrow> takes_commands (view w) \<Longrightarrow> view (snd (ax_in e ATA_REG_ERROR w)) = view w"
  by (simp add: ata_drive_def)

lemma drive_registers:
  assumes "ata_drive e view good ident" "takes_commands (view w)"
  shows "view (ax_out e ATA_REG_FEATURE b w) = view w" "view (ax_out e ATA_REG_DRIVE_HEAD b w) = (view w)\<lparr>dv_head := b\<rparr>"
    "view (ax_out e ATA_REG_CYL_HIGH b w) = (view w)\<lparr>dv_high := b\<rparr>" "view (ax_out e ATA_REG_CYL_LOW b w) = (view w)\<lparr>dv_low := b\<rparr>"
    "view (ax_out e ATA_REG_SECTOR_NUM b w) = (view w)\<lparr>dv_num := b\<rparr>" "view (ax_out e ATA_REG_SECTOR_COUNT b w) = (view w)\<lparr>dv_count := b\<rparr>"
  using assms by (simp_all add: ata_drive_def)

lemma drive_command:
  assumes "ata_drive e view good ident" "takes_commands (view w)" "command_ready (view w) c"
  obtains n where "view (ax_out e ATA_REG_COMMAND c w) = (view w)\<lparr>dv_phase := command_phase good ident (view w) c, dv_busy := n\<rparr>"
proof -
  have "\<exists>n. view (ax_out e ATA_REG_COMMAND c w) = (view w)\<lparr>dv_phase := command_phase good ident (view w) c, dv_busy := n\<rparr>"
    using assms unfolding ata_drive_def by blast
  then show thesis using that by blast
qed

lemma drive_gives:
  assumes "ata_drive e view good ident" "dv_busy (view w) = 0" "dv_phase (view w) = Giving_data (b # bs)"
  obtains w' n where "ax_in e ATA_REG_DATA_BYTE w = (b, w')" "view w' = (view w)\<lparr>dv_phase := if bs = [] then At_ease else Giving_data bs, dv_busy := n\<rparr>"
proof -
  have "fst (ax_in e ATA_REG_DATA_BYTE w) = b \<and> (\<exists>n. view (snd (ax_in e ATA_REG_DATA_BYTE w)) =
    (view w)\<lparr>dv_phase := if bs = [] then At_ease else Giving_data bs, dv_busy := n\<rparr>)"
    using assms unfolding ata_drive_def by blast
  then show thesis using that by (metis prod.collapse)
qed

lemma drive_takes:
  assumes "ata_drive e view good ident" "dv_busy (view w) = 0" "dv_phase (view w) = Taking_data bs"
  obtains n where "view (ax_out e ATA_REG_DATA_BYTE b w) =
    (if length bs < 511 then (view w)\<lparr>dv_phase := Taking_data (bs @ [b]), dv_busy := n\<rparr>
     else (view w)\<lparr>dv_phase := At_ease, dv_busy := n, dv_disk := (dv_disk (view w))(lba_of (view w) := bs @ [b])\<rparr>)"
proof -
  have "\<exists>n. view (ax_out e ATA_REG_DATA_BYTE b w) =
    (if length bs < 511 then (view w)\<lparr>dv_phase := Taking_data (bs @ [b]), dv_busy := n\<rparr>
     else (view w)\<lparr>dv_phase := At_ease, dv_busy := n, dv_disk := (dv_disk (view w))(lba_of (view w) := bs @ [b])\<rparr>)"
    using assms unfolding ata_drive_def by blast
  then show thesis using that by blast
qed

section \<open>Waiting\<close>

lemma ata_wait_ends:
  assumes "ata_drive e view good ident"
  shows "\<exists>w. ata_wait e st = Some (st\<lparr>at_dev := w\<rparr>) \<and> view w = (view (at_dev st))\<lparr>dv_busy := 0\<rparr>"
proof (induction "dv_busy (view (at_dev st))" arbitrary: st)
  case 0
  obtain s w where r: "ax_in e ATA_REG_STATUS (at_dev st) = (s, w)" by fastforce
  with drive_status [OF assms, of "at_dev st"] 0 have "s AND ATA_ST_BUSY = 0" "view w = view (at_dev st)"
    by (auto simp: status_read_def idle_status_def)
  with r 0 show ?case by (subst ata_wait.simps) (auto simp: at_in_def)
next
  case (Suc k)
  obtain s w where r: "ax_in e ATA_REG_STATUS (at_dev st) = (s, w)" by fastforce
  with drive_status [OF assms, of "at_dev st"] Suc(2) have s: "s AND ATA_ST_BUSY \<noteq> 0" "view w = (view (at_dev st))\<lparr>dv_busy := k\<rparr>"
    by (auto simp: status_read_def split: if_splits)
  from Suc(1) [of "st\<lparr>at_dev := w\<rparr>"] s obtain w' where
    "ata_wait e (st\<lparr>at_dev := w\<rparr>) = Some (st\<lparr>at_dev := w'\<rparr>)" "view w' = (view (at_dev st))\<lparr>dv_busy := 0\<rparr>" by auto
  with r s show ?case by (subst ata_wait.simps) (auto simp: at_in_def)
qed

lemma idle_status_read:
  assumes "ata_drive e view good ident" "dv_busy (view (at_dev st)) = 0"
  obtains s w where "at_in e ATA_REG_STATUS st = (s, st\<lparr>at_dev := w\<rparr>)" "view w = view (at_dev st)" "idle_status (dv_phase (view (at_dev st))) s"
proof -
  obtain s w where r: "ax_in e ATA_REG_STATUS (at_dev st) = (s, w)" by fastforce
  with drive_status [OF assms(1), of "at_dev st"] assms(2) that [of s w] show thesis
    by (simp add: status_read_def at_in_def)
qed

lemma ata_wait_data_ends:
  assumes "ata_drive e view good ident" "dv_busy (view (at_dev st)) = 0" "dv_phase (view (at_dev st)) = Giving_data bs \<or> dv_phase (view (at_dev st)) = Taking_data bs"
  shows "\<exists>w. ata_wait_data e st = Some (st\<lparr>at_dev := w\<rparr>) \<and> view w = view (at_dev st)"
proof -
  from idle_status_read [OF assms(1,2)] obtain s w where s: "at_in e ATA_REG_STATUS st = (s, st\<lparr>at_dev := w\<rparr>)" "view w = view (at_dev st)"
    "idle_status (dv_phase (view (at_dev st))) s" .
  with assms(3) have "s AND ATA_ST_DATA_READY \<noteq> 0" by (auto simp: idle_status_def)
  with s show ?thesis by (subst ata_wait_data.simps) auto
qed

lemma feature_set:
  assumes "ata_drive e view good ident" "takes_commands (view (at_dev st))" "at_mode st = 0"
  shows "\<exists>w. go_8bits_mode e st = Some (st\<lparr>at_dev := w\<rparr>) \<and> view w = (view (at_dev st))\<lparr>dv_phase := At_ease\<rparr>"
proof -
  let ?w1 = "ax_out e ATA_REG_FEATURE 1 (at_dev st)"
  have w1: "view ?w1 = view (at_dev st)" using drive_registers(1) [OF assms(1,2)] .
  from drive_command [OF assms(1), of ?w1 ATA_CMD_SET_FEATURE] obtain n where
    w2: "view (ax_out e ATA_REG_COMMAND ATA_CMD_SET_FEATURE ?w1) = (view (at_dev st))\<lparr>dv_phase := At_ease, dv_busy := n\<rparr>"
    using w1 assms(2) by (auto simp: takes_commands_def command_ready_def command_phase_def ATA_CMD_SET_FEATURE_def ATA_CMD_IDENTIFY_def
        ATA_CMD_READ_SECTORS_def ATA_CMD_WRITE_SECTORS_def)
  from ata_wait_ends [OF assms(1), of "st\<lparr>at_dev := ax_out e ATA_REG_COMMAND ATA_CMD_SET_FEATURE ?w1\<rparr>"] w2 assms(2) [unfolded takes_commands_def]
  obtain w3 where "ata_wait e (st\<lparr>at_dev := ax_out e ATA_REG_COMMAND ATA_CMD_SET_FEATURE ?w1\<rparr>) = Some (st\<lparr>at_dev := w3\<rparr>)"
    "view w3 = (view (at_dev st))\<lparr>dv_phase := At_ease\<rparr>" by auto
  with assms(3) show ?thesis by (auto simp: go_8bits_mode_def set_feature_def at_put_def)
qed

section \<open>The bytes of a sector\<close>

lemma lba_of_updates [simp]:
  "lba_of (v\<lparr>dv_phase := ph\<rparr>) = lba_of v" "lba_of (v\<lparr>dv_busy := n\<rparr>) = lba_of v" "lba_of (v\<lparr>dv_disk := d\<rparr>) = lba_of v"
  "lba_of (v\<lparr>dv_count := b\<rparr>) = lba_of v"
  by (simp_all add: lba_of_def)

definition giving :: "u8 list \<Rightarrow> drive_phase" where
  "giving bs = (if bs = [] then At_ease else Giving_data bs)"

lemma giving_Cons: "giving (b # bs) = Giving_data (b # bs)"
  by (simp add: giving_def)

lemma read_bytes_given:
  assumes "ata_drive e view good ident" "dv_busy (view (at_dev st)) = 0" "dv_phase (view (at_dev st)) = giving bs"
  shows "\<exists>w. read_bytes_loop e (length bs) p st = Some (st\<lparr>at_dev := w, at_mem := wr_bytes (at_mem st) p bs\<rparr>) \<and>
    view w = (view (at_dev st))\<lparr>dv_phase := At_ease\<rparr>"
  using assms(2,3)
proof (induction bs arbitrary: p st)
  case Nil
  then have "view (at_dev st) = (view (at_dev st))\<lparr>dv_phase := At_ease\<rparr>" by (simp add: giving_def)
  then show ?case by (intro exI [of _ "at_dev st"]) simp
next
  case (Cons b bs)
  from drive_gives [OF assms(1) Cons.prems(1) Cons.prems(2) [unfolded giving_Cons]] obtain w n where
    w: "ax_in e ATA_REG_DATA_BYTE (at_dev st) = (b, w)" "view w = (view (at_dev st))\<lparr>dv_phase := giving bs, dv_busy := n\<rparr>"
    unfolding giving_def by blast
  let ?s = "st\<lparr>at_dev := w, at_mem := (at_mem st)(p := b)\<rparr>"
  from ata_wait_ends [OF assms(1), of ?s] w(2) Cons.prems(1) obtain w1 where
    w1: "ata_wait e ?s = Some (?s\<lparr>at_dev := w1\<rparr>)" "view w1 = (view (at_dev st))\<lparr>dv_phase := giving bs\<rparr>" by auto
  from Cons.IH [of "?s\<lparr>at_dev := w1\<rparr>" "p + 1"] w1(2) Cons.prems(1) obtain w2 where
    w2: "read_bytes_loop e (length bs) (p + 1) (?s\<lparr>at_dev := w1\<rparr>) =
      Some (?s\<lparr>at_dev := w2, at_mem := wr_bytes ((at_mem st)(p := b)) (p + 1) bs\<rparr>)"
    "view w2 = (view (at_dev st))\<lparr>dv_phase := At_ease\<rparr>" by (auto simp del: fun_upd_apply)
  with w w1 show ?case by (intro exI [of _ w2]) (simp add: at_in_def del: fun_upd_apply)
qed

lemma write_bytes_taken:
  assumes "ata_drive e view good ident" "dv_phase (view (at_dev st)) = Taking_data bs" "length bs + Suc n = 512"
  shows "\<exists>w k. write_bytes_loop e (Suc n) p st = Some (st\<lparr>at_dev := w\<rparr>) \<and>
    view w = (view (at_dev st))\<lparr>dv_phase := At_ease, dv_busy := k,
      dv_disk := (dv_disk (view (at_dev st)))(lba_of (view (at_dev st)) := bs @ rd_bytes (at_mem st) p (Suc n))\<rparr>"
  using assms(2,3)
proof (induction n arbitrary: p st bs)
  case 0
  from ata_wait_ends [OF assms(1), of st] obtain w where
    w: "ata_wait e st = Some (st\<lparr>at_dev := w\<rparr>)" "view w = (view (at_dev st))\<lparr>dv_busy := 0\<rparr>" by blast
  have "dv_busy (view w) = 0" "dv_phase (view w) = Taking_data bs" using w(2) 0 by simp_all
  from drive_takes [OF assms(1) this, of "at_mem st p"] obtain k where
    "view (ax_out e ATA_REG_DATA_BYTE (at_mem st p) w) = (view w)\<lparr>dv_phase := At_ease, dv_busy := k,
      dv_disk := (dv_disk (view w))(lba_of (view w) := bs @ [at_mem st p])\<rparr>" using 0 by auto
  with w show ?case
    by (intro exI [of _ "ax_out e ATA_REG_DATA_BYTE (at_mem st p) w"] exI [of _ k]) (simp add: at_put_def del: fun_upd_apply)
next
  case (Suc n)
  from ata_wait_ends [OF assms(1), of st] obtain w where
    w: "ata_wait e st = Some (st\<lparr>at_dev := w\<rparr>)" "view w = (view (at_dev st))\<lparr>dv_busy := 0\<rparr>" by blast
  have "dv_busy (view w) = 0" "dv_phase (view w) = Taking_data bs" using w(2) Suc.prems by simp_all
  from drive_takes [OF assms(1) this, of "at_mem st p"] Suc.prems(2) obtain k where
    k: "view (ax_out e ATA_REG_DATA_BYTE (at_mem st p) w) = (view w)\<lparr>dv_phase := Taking_data (bs @ [at_mem st p]), dv_busy := k\<rparr>" by auto
  let ?s = "st\<lparr>at_dev := ax_out e ATA_REG_DATA_BYTE (at_mem st p) w\<rparr>"
  from Suc.IH [of ?s "bs @ [at_mem st p]" "p + 1"] k w(2) Suc.prems(2) obtain w2 j where
    w2: "write_bytes_loop e (Suc n) (p + 1) ?s = Some (st\<lparr>at_dev := w2\<rparr>)"
    "view w2 = (view (at_dev st))\<lparr>dv_phase := At_ease, dv_busy := j,
      dv_disk := (dv_disk (view (at_dev st)))(lba_of (view (at_dev st)) := bs @ rd_bytes (at_mem st) p (Suc (Suc n)))\<rparr>" by (auto simp del: fun_upd_apply)
  show ?case
    unfolding write_bytes_loop.simps(2) [of e "Suc n"] w(1) using w2 by (auto simp: at_put_def simp del: fun_upd_apply)
qed

section \<open>A sector\<close>

lemma lba_of_sector:
  "dv_head v = 0xE0 \<Longrightarrow> dv_high v = ucast (drop_bit 16 s) \<Longrightarrow> dv_low v = ucast (drop_bit 8 s) \<Longrightarrow> dv_num v = ucast s \<Longrightarrow>
    lba_of v = take_bit 24 s" for s :: u32
proof -
  have h: "(0xE0 AND 0x0F :: u8) = 0" by simp
  have "of_be32 0 (ucast (drop_bit 16 s)) (ucast (drop_bit 8 s)) (ucast s) = take_bit 24 s"
  proof (rule bit_word_eqI)
    fix n assume "n < LENGTH(32)"
    then have n: "n < 32" by simp
    consider "n < 8" | "8 \<le> n" "n < 16" | "16 \<le> n" "n < 24" | "24 \<le> n" "n < 32"
      using n by linarith
    then show "bit (of_be32 0 (ucast (drop_bit 16 s)) (ucast (drop_bit 8 s)) (ucast s)) n = bit (take_bit 24 s) n"
      by cases (auto simp: of_be32_def bit_simps)
  qed
  then show "dv_head v = 0xE0 \<Longrightarrow> dv_high v = ucast (drop_bit 16 s) \<Longrightarrow> dv_low v = ucast (drop_bit 8 s) \<Longrightarrow> dv_num v = ucast s \<Longrightarrow>
    lba_of v = take_bit 24 s" by (simp add: lba_of_def h)
qed

lemma sector_commanded:
  assumes "ata_drive e view good ident" "takes_commands (view (at_dev st))" "dv_head (view (at_dev st)) = 0xE0"
    "c \<in> {ATA_CMD_READ_SECTORS, ATA_CMD_WRITE_SECTORS}"
  shows "\<exists>w. ata_wait e (sector_command e s c st) = Some (st\<lparr>at_dev := w\<rparr>) \<and> dv_busy (view w) = 0 \<and> lba_of (view w) = take_bit 24 s \<and>
    dv_disk (view w) = dv_disk (view (at_dev st)) \<and>
    dv_phase (view w) = (if \<not> good (take_bit 24 s) then Failed
      else if c = ATA_CMD_READ_SECTORS then Giving_data (dv_disk (view (at_dev st)) (take_bit 24 s)) else Taking_data [])"
proof -
  define w1 where "w1 = ax_out e ATA_REG_CYL_HIGH (ucast (drop_bit 16 s)) (at_dev st)"
  define w2 where "w2 = ax_out e ATA_REG_CYL_LOW (ucast (drop_bit 8 s)) w1"
  define w3 where "w3 = ax_out e ATA_REG_SECTOR_NUM (ucast s) w2"
  define w4 where "w4 = ax_out e ATA_REG_SECTOR_COUNT 1 w3"
  note r = drive_registers [OF assms(1)]
  have v1: "view w1 = (view (at_dev st))\<lparr>dv_high := ucast (drop_bit 16 s)\<rparr>" unfolding w1_def using r(3) assms(2) .
  then have b1: "takes_commands (view w1)" using assms(2) by (simp add: takes_commands_def)
  have v2: "view w2 = (view w1)\<lparr>dv_low := ucast (drop_bit 8 s)\<rparr>" unfolding w2_def using r(4) b1 .
  then have b2: "takes_commands (view w2)" using b1 by (simp add: takes_commands_def)
  have v3: "view w3 = (view w2)\<lparr>dv_num := ucast s\<rparr>" unfolding w3_def using r(5) b2 .
  then have b3: "takes_commands (view w3)" using b2 by (simp add: takes_commands_def)
  have v4: "view w4 = (view w3)\<lparr>dv_count := 1\<rparr>" unfolding w4_def using r(6) b3 .
  then have b4: "takes_commands (view w4)" using b3 by (simp add: takes_commands_def)
  have head: "dv_head (view w4) = 0xE0" "dv_count (view w4) = 1" using v1 v2 v3 v4 assms(3) by simp_all
  have lba: "lba_of (view w4) = take_bit 24 s" using v1 v2 v3 v4 assms(3) by (intro lba_of_sector) simp_all
  have disk: "dv_disk (view w4) = dv_disk (view (at_dev st))" using v1 v2 v3 v4 by simp
  have "bit (0xE0 :: u8) 6" by code_simp
  then have "command_ready (view w4) c" using head assms(4) by (auto simp: command_ready_def)
  from drive_command [OF assms(1) b4 this] obtain n where
    n: "view (ax_out e ATA_REG_COMMAND c w4) = (view w4)\<lparr>dv_phase := command_phase good ident (view w4) c, dv_busy := n\<rparr>" .
  from ata_wait_ends [OF assms(1), of "st\<lparr>at_dev := ax_out e ATA_REG_COMMAND c w4\<rparr>"] n obtain w where
    w: "ata_wait e (st\<lparr>at_dev := ax_out e ATA_REG_COMMAND c w4\<rparr>) = Some (st\<lparr>at_dev := w\<rparr>)"
    "view w = (view w4)\<lparr>dv_phase := command_phase good ident (view w4) c, dv_busy := 0\<rparr>" by auto
  have "sector_command e s c st = st\<lparr>at_dev := ax_out e ATA_REG_COMMAND c w4\<rparr>"
    by (simp add: sector_command_def at_put_def Let_def w1_def w2_def w3_def w4_def)
  with w show ?thesis using assms(4) lba disk
    by (auto simp: command_phase_def ATA_CMD_IDENTIFY_def ATA_CMD_READ_SECTORS_def ATA_CMD_WRITE_SECTORS_def)
qed

text \<open>The state between two calls: the drive waits for a command and holds the sectors \<open>D\<close>.\<close>

definition drive_holds :: "('w \<Rightarrow> drive_view) \<Rightarrow> (u32 \<Rightarrow> u8 list) \<Rightarrow> 'w ata_state \<Rightarrow> bool" where
  "drive_holds view D st \<longleftrightarrow> takes_commands (view (at_dev st)) \<and> dv_disk (view (at_dev st)) = D \<and> at_mode st = 0"

lemma sector_read:
  assumes "ata_drive e view good ident" "drive_holds view D st" "length (D (take_bit 24 s)) = 512"
  shows "\<exists>w calls. ata_read_sector e s p st =
      Some (if good (take_bit 24 s)
        then (512, st\<lparr>at_dev := w, at_sr := (at_sr st OR 0x0200) AND 0xF8FF, at_mem := wr_bytes (at_mem st) p (D (take_bit 24 s))\<rparr>)
        else (0, st\<lparr>at_dev := w, at_sr := (at_sr st OR 0x0200) AND 0xF8FF, at_calls := calls\<rparr>)) \<and>
    drive_holds view D (st\<lparr>at_dev := w\<rparr>)"
proof -
  have b: "takes_commands (view (at_dev st))" "dv_disk (view (at_dev st)) = D" "at_mode st = 0" using assms(2) by (auto simp: drive_holds_def)
  let ?w0 = "ax_out e ATA_REG_DRIVE_HEAD 0xE0 (at_dev st)"
  have v0: "view ?w0 = (view (at_dev st))\<lparr>dv_head := 0xE0\<rparr>" using drive_registers(2) [OF assms(1) b(1)] .
  let ?s = "st\<lparr>at_sr := at_sr st OR 0x0200\<rparr>"
  from feature_set [OF assms(1), of "?s\<lparr>at_dev := ?w0\<rparr>"] v0 b obtain w1 where
    w1: "go_8bits_mode e (?s\<lparr>at_dev := ?w0\<rparr>) = Some (?s\<lparr>at_dev := w1\<rparr>)" "view w1 = (view (at_dev st))\<lparr>dv_head := 0xE0, dv_phase := At_ease\<rparr>" by auto
  from sector_commanded [OF assms(1), of "?s\<lparr>at_dev := w1\<rparr>" ATA_CMD_READ_SECTORS s] w1(2) b obtain w2 where
    w2: "ata_wait e (sector_command e s ATA_CMD_READ_SECTORS (?s\<lparr>at_dev := w1\<rparr>)) = Some (?s\<lparr>at_dev := w2\<rparr>)" "dv_busy (view w2) = 0"
      "dv_disk (view w2) = D" "dv_phase (view w2) = (if good (take_bit 24 s) then Giving_data (D (take_bit 24 s)) else Failed)" by auto
  from idle_status_read [OF assms(1), of "?s\<lparr>at_dev := w2\<rparr>"] w2(2) obtain v w3 where
    w3: "at_in e ATA_REG_STATUS (?s\<lparr>at_dev := w2\<rparr>) = (v, ?s\<lparr>at_dev := w3\<rparr>)" "view w3 = view w2" "idle_status (dv_phase (view w2)) v" by auto
  have start: "ata_read_sector e s p st = (
      if v AND 0x01 \<noteq> 0 then
        (let (err, st) = at_in e ATA_REG_ERROR (?s\<lparr>at_dev := w3\<rparr>)
         in Some (0, at_unlock (at_printf ''Error while reading ata: %x'' [ucast err] st)))
      else do {
        st \<leftarrow> ata_wait e (?s\<lparr>at_dev := w3\<rparr>);
        st \<leftarrow> ata_wait_data e st;
        st \<leftarrow> (if at_mode st = 0 then read_bytes_loop e 512 p st else read_words_loop e 256 p st);
        Some (512, at_unlock st) })"
    unfolding ata_read_sector_def at_lock_def at_put_def Let_def using w1(1) w2(1) w3(1) by simp
  show ?thesis
  proof (cases "good (take_bit 24 s)")
    case False
    then have "v AND 0x01 \<noteq> 0" using w3(3) w2(4) by (auto simp: idle_status_def ATA_ST_ERROR_def)
    moreover obtain x w4 where w4: "ax_in e ATA_REG_ERROR w3 = (x, w4)" by fastforce
    then have "view w4 = view w3" using drive_error [OF assms(1), of w3] w2(2,4) w3(2) False by (simp add: takes_commands_def)
    ultimately show ?thesis using False w4 w2 w3(2) b
      by (intro exI [of _ w4] exI [of _ "at_calls st @ [(''Error while reading ata: %x'' @ [CHR 0x0A], [ucast x])]"])
        (simp add: start at_in_def at_printf_def at_unlock_def drive_holds_def takes_commands_def)
  next
    case True
    then have ne: "v AND 0x01 = 0" using w3(3) w2(4) by (auto simp: idle_status_def ATA_ST_ERROR_def)
    from ata_wait_ends [OF assms(1), of "?s\<lparr>at_dev := w3\<rparr>"] obtain w4 where
      w4: "ata_wait e (?s\<lparr>at_dev := w3\<rparr>) = Some (?s\<lparr>at_dev := w4\<rparr>)" "view w4 = view w2" using w2(2) w3(2) by auto
    from ata_wait_data_ends [OF assms(1), of "?s\<lparr>at_dev := w4\<rparr>"] w4(2) w2(2,4) True obtain w5 where
      w5: "ata_wait_data e (?s\<lparr>at_dev := w4\<rparr>) = Some (?s\<lparr>at_dev := w5\<rparr>)" "view w5 = view w2" by auto
    have "D (take_bit 24 s) \<noteq> []" using assms(3) by auto
    with read_bytes_given [OF assms(1), of "?s\<lparr>at_dev := w5\<rparr>" "D (take_bit 24 s)" p] w5(2) w2(2,4) True assms(3) obtain w6 where
      w6: "read_bytes_loop e 512 p (?s\<lparr>at_dev := w5\<rparr>) = Some (?s\<lparr>at_dev := w6, at_mem := wr_bytes (at_mem st) p (D (take_bit 24 s))\<rparr>)"
        "view w6 = (view w2)\<lparr>dv_phase := At_ease\<rparr>" by (auto simp: giving_def)
    have "ata_read_sector e s p st = Some (512, st\<lparr>at_dev := w6, at_sr := (at_sr st OR 0x0200) AND 0xF8FF, at_mem := wr_bytes (at_mem st) p (D (take_bit 24 s))\<rparr>)"
      unfolding start using ne w4(1) w5(1) w6(1) b(3) by (simp add: at_unlock_def)
    moreover have "takes_commands (view w6)" "dv_disk (view w6) = D" using w6(2) w2(2,3) by (simp_all add: takes_commands_def)
    ultimately show ?thesis using True b(3) by (auto simp: drive_holds_def)
  qed
qed

lemma sector_written:
  assumes "ata_drive e view good ident" "drive_holds view D st"
  shows "\<exists>w calls. ata_write_sector e s p st =
      Some (if good (take_bit 24 s) then (512, st\<lparr>at_dev := w, at_sr := (at_sr st OR 0x0200) AND 0xF8FF\<rparr>)
        else (0, st\<lparr>at_dev := w, at_sr := (at_sr st OR 0x0200) AND 0xF8FF, at_calls := calls\<rparr>)) \<and>
    drive_holds view (if good (take_bit 24 s) then D(take_bit 24 s := rd_bytes (at_mem st) p 512) else D) (st\<lparr>at_dev := w\<rparr>)"
proof -
  have b: "takes_commands (view (at_dev st))" "dv_disk (view (at_dev st)) = D" "at_mode st = 0" using assms(2) by (auto simp: drive_holds_def)
  let ?s = "st\<lparr>at_sr := at_sr st OR 0x0200\<rparr>"
  from feature_set [OF assms(1), of ?s] b obtain w0 where
    w0: "go_8bits_mode e ?s = Some (?s\<lparr>at_dev := w0\<rparr>)" "view w0 = (view (at_dev st))\<lparr>dv_phase := At_ease\<rparr>" by auto
  let ?w1 = "ax_out e ATA_REG_DRIVE_HEAD 0xE0 w0"
  have v1: "view ?w1 = (view w0)\<lparr>dv_head := 0xE0\<rparr>" using drive_registers(2) [OF assms(1)] w0(2) b(1) by simp
  from sector_commanded [OF assms(1), of "?s\<lparr>at_dev := ?w1\<rparr>" ATA_CMD_WRITE_SECTORS s] v1 w0(2) b obtain w2 where
    w2: "ata_wait e (sector_command e s ATA_CMD_WRITE_SECTORS (?s\<lparr>at_dev := ?w1\<rparr>)) = Some (?s\<lparr>at_dev := w2\<rparr>)" "dv_busy (view w2) = 0"
      "dv_disk (view w2) = D" "lba_of (view w2) = take_bit 24 s" "dv_phase (view w2) = (if good (take_bit 24 s) then Taking_data [] else Failed)"
    by (auto simp: ATA_CMD_READ_SECTORS_def ATA_CMD_WRITE_SECTORS_def)
  from idle_status_read [OF assms(1), of "?s\<lparr>at_dev := w2\<rparr>"] w2(2) obtain v w3 where
    w3: "at_in e ATA_REG_STATUS (?s\<lparr>at_dev := w2\<rparr>) = (v, ?s\<lparr>at_dev := w3\<rparr>)" "view w3 = view w2" "idle_status (dv_phase (view w2)) v" by auto
  have start: "ata_write_sector e s p st = (
      if v AND 0x01 \<noteq> 0 then
        (let (err, st) = at_in e ATA_REG_ERROR (?s\<lparr>at_dev := w3\<rparr>)
         in Some (0, at_unlock (at_printf ''Error while writing ata: %x'' [ucast err] st)))
      else do {
        st \<leftarrow> ata_wait e (?s\<lparr>at_dev := w3\<rparr>);
        st \<leftarrow> ata_wait_data e st;
        st \<leftarrow> write_bytes_loop e 512 p st;
        st \<leftarrow> ata_wait e st;
        let (status, st) = at_in e ATA_REG_STATUS st;
        let st = (if status AND ATA_ST_ERROR \<noteq> 0 then
                    (let (err, st) = at_in e ATA_REG_ERROR st in at_printf ''Error writing sector %d: %x'' [s, ucast err] st)
                  else st);
        Some (512, at_unlock st) })"
    unfolding ata_write_sector_def at_lock_def w0(1) using w2(1) w3(1) by (simp add: at_put_def)
  show ?thesis
  proof (cases "good (take_bit 24 s)")
    case False
    then have "v AND 0x01 \<noteq> 0" using w3(3) w2(5) by (auto simp: idle_status_def ATA_ST_ERROR_def)
    moreover obtain x w4 where w4: "ax_in e ATA_REG_ERROR w3 = (x, w4)" by fastforce
    then have "view w4 = view w3" using drive_error [OF assms(1), of w3] w2(2,5) w3(2) False by (simp add: takes_commands_def)
    ultimately show ?thesis using False w4 w2 w3(2) b
      by (intro exI [of _ w4] exI [of _ "at_calls st @ [(''Error while writing ata: %x'' @ [CHR 0x0A], [ucast x])]"])
        (simp add: start at_in_def at_printf_def at_unlock_def drive_holds_def takes_commands_def)
  next
    case True
    then have ne: "v AND 0x01 = 0" using w3(3) w2(5) by (auto simp: idle_status_def ATA_ST_ERROR_def)
    from ata_wait_ends [OF assms(1), of "?s\<lparr>at_dev := w3\<rparr>"] obtain w4 where
      w4: "ata_wait e (?s\<lparr>at_dev := w3\<rparr>) = Some (?s\<lparr>at_dev := w4\<rparr>)" "view w4 = view w2" using w2(2) w3(2) by auto
    from ata_wait_data_ends [OF assms(1), of "?s\<lparr>at_dev := w4\<rparr>"] w4(2) w2(2,5) True obtain w5 where
      w5: "ata_wait_data e (?s\<lparr>at_dev := w4\<rparr>) = Some (?s\<lparr>at_dev := w5\<rparr>)" "view w5 = view w2" by auto
    from write_bytes_taken [OF assms(1), of "?s\<lparr>at_dev := w5\<rparr>" "[]" 511 p] w5(2) w2 True obtain w6 k where
      w6: "write_bytes_loop e 512 p (?s\<lparr>at_dev := w5\<rparr>) = Some (?s\<lparr>at_dev := w6\<rparr>)"
        "view w6 = (view w2)\<lparr>dv_phase := At_ease, dv_busy := k, dv_disk := D(take_bit 24 s := rd_bytes (at_mem st) p 512)\<rparr>"
      by (auto simp del: fun_upd_apply rd_bytes.simps)
    from ata_wait_ends [OF assms(1), of "?s\<lparr>at_dev := w6\<rparr>"] w6(2) obtain w7 where
      w7: "ata_wait e (?s\<lparr>at_dev := w6\<rparr>) = Some (?s\<lparr>at_dev := w7\<rparr>)"
        "view w7 = (view w2)\<lparr>dv_phase := At_ease, dv_busy := 0, dv_disk := D(take_bit 24 s := rd_bytes (at_mem st) p 512)\<rparr>"
      by (auto simp del: fun_upd_apply rd_bytes.simps)
    from idle_status_read [OF assms(1), of "?s\<lparr>at_dev := w7\<rparr>"] w7(2) obtain v2 w8 where
      w8: "at_in e ATA_REG_STATUS (?s\<lparr>at_dev := w7\<rparr>) = (v2, ?s\<lparr>at_dev := w8\<rparr>)" "view w8 = view w7" "idle_status At_ease v2" by auto
    then have ne2: "v2 AND ATA_ST_ERROR = 0" by (auto simp: idle_status_def)
    have "ata_write_sector e s p st = Some (512, st\<lparr>at_dev := w8, at_sr := (at_sr st OR 0x0200) AND 0xF8FF\<rparr>)"
      unfolding start using ne w4(1) w5(1) w6(1) w7(1) w8(1) ne2 by (simp add: at_unlock_def)
    moreover have "takes_commands (view w8)" "dv_disk (view w8) = D(take_bit 24 s := rd_bytes (at_mem st) p 512)"
      using w8(2) w7(2) by (simp_all add: takes_commands_def)
    ultimately show ?thesis using True b(3) by (auto simp: drive_holds_def simp del: fun_upd_apply rd_bytes.simps)
  qed
qed

section \<open>Several sectors\<close>

text \<open>Only 24 bits of a sector's number reach the drive.\<close>

lemma high_sectors_alias:
  "ata_read_sector e (s + 0x1000000) p st = ata_read_sector e s p st"
proof -
  have "(x + 16777216) mod 4294967296 mod 16777216 = x mod 16777216" for x :: nat
    using mod_mod_cancel [of "16777216 :: nat" 4294967296 "x + 16777216"] by simp
  then have "take_bit 24 (s + 0x1000000) = take_bit 24 s"
    by (simp add: word_unat_eq_iff unsigned_take_bit_eq take_bit_eq_mod unat_word_ariths)
  moreover have "(ucast (drop_bit i v) :: u8) = ucast (drop_bit i (take_bit 24 v))" if "i = 0 \<or> i = 8 \<or> i = 16" for i and v :: u32
    using that by (intro bit_word_eqI) (auto simp: bit_simps)
  ultimately have u: "(ucast (drop_bit i (s + 0x1000000)) :: u8) = ucast (drop_bit i s)" if "i = 0 \<or> i = 8 \<or> i = 16" for i
    using that by metis
  have t: "(ucast (s + 0x1000000) :: u8) = ucast s" "(ucast (drop_bit 8 (s + 0x1000000)) :: u8) = ucast (drop_bit 8 s)"
    "(ucast (drop_bit 16 (s + 0x1000000)) :: u8) = ucast (drop_bit 16 s)"
    using u [of 0] u [of 8] u [of 16] by simp_all
  show "ata_read_sector e (s + 0x1000000) p st = ata_read_sector e s p st"
    unfolding ata_read_sector_def sector_command_def t ..
qed

text \<open>The numbers the drive gets for \<open>n\<close> sectors.\<close>

definition lbas :: "u32 \<Rightarrow> nat \<Rightarrow> u32 list" where
  "lbas s n = List.map (\<lambda>i. take_bit 24 (s + of_nat i)) [0..<n]"

lemma lbas_Suc: "lbas s (Suc n) = take_bit 24 s # lbas (s + 1) n"
  by (simp add: lbas_def upt_conv_Cons map_Suc_upt [symmetric] add.assoc comp_def del: upt_Suc)

lemma lbas_0 [simp]: "lbas s 0 = []"
  by (simp add: lbas_def)

lemma sectors_read:
  assumes "ata_drive e view good ident" "drive_holds view D st" "\<forall>l. length (D l) = 512"
  shows "\<exists>w calls i. let ls = takeWhile good (lbas s n) in
    read_sectors e n s p st = Some (if length ls = n then RES_OK else RES_ERROR,
      st\<lparr>at_dev := w, at_sr := i, at_mem := wr_bytes (at_mem st) p (concat (map D ls)), at_calls := calls\<rparr>) \<and>
    drive_holds view D (st\<lparr>at_dev := w\<rparr>)"
  using assms(2)
proof (induction n arbitrary: s p st)
  case 0
  then show ?case by (intro exI [of _ "at_dev st"] exI [of _ "at_calls st"] exI [of _ "at_sr st"]) (simp add: RES_OK_def)
next
  case (Suc n)
  let ?l = "take_bit 24 s"
  from sector_read [OF assms(1) Suc.prems, of s p] assms(3) obtain w calls where
    w: "ata_read_sector e s p st = Some (if good ?l then (512, st\<lparr>at_dev := w, at_sr := (at_sr st OR 0x0200) AND 0xF8FF, at_mem := wr_bytes (at_mem st) p (D ?l)\<rparr>)
        else (0, st\<lparr>at_dev := w, at_sr := (at_sr st OR 0x0200) AND 0xF8FF, at_calls := calls\<rparr>))" "drive_holds view D (st\<lparr>at_dev := w\<rparr>)" by auto
  show ?case
  proof (cases "good ?l")
    case False
    with w show ?thesis
      by (intro exI [of _ w] exI [of _ calls] exI [of _ "(at_sr st OR 0x0200) AND 0xF8FF"]) (simp add: lbas_Suc RES_ERROR_def)
  next
    case True
    let ?s = "st\<lparr>at_dev := w, at_sr := (at_sr st OR 0x0200) AND 0xF8FF, at_mem := wr_bytes (at_mem st) p (D ?l)\<rparr>"
    have "drive_holds view D ?s" using w(2) by (simp add: drive_holds_def)
    from Suc.IH [OF this, of "s + 1" "p + 512"] obtain w2 calls2 i where
      w2: "read_sectors e n (s + 1) (p + 512) ?s = Some (if length (takeWhile good (lbas (s + 1) n)) = n then RES_OK else RES_ERROR,
        ?s\<lparr>at_dev := w2, at_sr := i, at_mem := wr_bytes (at_mem ?s) (p + 512) (concat (map D (takeWhile good (lbas (s + 1) n)))), at_calls := calls2\<rparr>)"
      "drive_holds view D (st\<lparr>at_dev := w2\<rparr>)" by (auto simp: Let_def drive_holds_def)
    have "wr_bytes (wr_bytes (at_mem st) p (D ?l)) (p + 512) bs = wr_bytes (at_mem st) p (D ?l @ bs)" for bs
      using assms(3) by (simp add: wr_bytes_append)
    with w(1) w2 True show ?thesis
      by (intro exI [of _ w2] exI [of _ calls2] exI [of _ i]) (simp add: lbas_Suc)
  qed
qed

text \<open>The sectors after those of \<open>ls\<close> were written, one behind the other in memory from \<open>p\<close>.\<close>

fun stored :: "u32 list \<Rightarrow> mem \<Rightarrow> u32 \<Rightarrow> (u32 \<Rightarrow> u8 list) \<Rightarrow> u32 \<Rightarrow> u8 list" where
  "stored [] m p D = D"
| "stored (l # ls) m p D = stored ls m (p + 512) (D(l := rd_bytes m p 512))"

lemma stored_other: "l \<notin> set ls \<Longrightarrow> stored ls m p D l = D l"
  by (induction ls arbitrary: p D) auto

lemma length_stored: "\<forall>l. length (D l) = 512 \<Longrightarrow> length (stored ls m p D l) = 512"
  by (induction ls arbitrary: p D) (auto simp del: rd_bytes.simps)

lemma stored_bytes: "distinct ls \<Longrightarrow> concat (map (stored ls m p D) ls) = rd_bytes m p (512 * length ls)"
proof (induction ls arbitrary: p D)
  case (Cons l ls)
  have "stored ls m (p + 512) (D(l := rd_bytes m p 512)) l = rd_bytes m p 512"
    using Cons.prems by (simp add: stored_other del: rd_bytes.simps)
  moreover have "rd_bytes m p (512 * length (l # ls)) = rd_bytes m p 512 @ rd_bytes m (p + 512) (512 * length ls)"
    using rd_bytes_append [of m p 512 "512 * length ls"] by (simp del: rd_bytes.simps)
  ultimately show ?case using Cons by (simp del: rd_bytes.simps)
qed simp

lemma sectors_written:
  assumes "ata_drive e view good ident" "drive_holds view D st"
  shows "\<exists>w calls i. let ls = takeWhile good (lbas s n) in
    write_sectors e n s p st = Some (if length ls = n then RES_OK else RES_ERROR, st\<lparr>at_dev := w, at_sr := i, at_calls := calls\<rparr>) \<and>
    drive_holds view (stored ls (at_mem st) p D) (st\<lparr>at_dev := w\<rparr>)"
  using assms(2)
proof (induction n arbitrary: s p st D)
  case 0
  then show ?case by (intro exI [of _ "at_dev st"] exI [of _ "at_calls st"] exI [of _ "at_sr st"]) (simp add: RES_OK_def)
next
  case (Suc n)
  let ?l = "take_bit 24 s"
  from sector_written [OF assms(1) Suc.prems, of s p] obtain w calls where
    w: "ata_write_sector e s p st = Some (if good ?l then (512, st\<lparr>at_dev := w, at_sr := (at_sr st OR 0x0200) AND 0xF8FF\<rparr>)
        else (0, st\<lparr>at_dev := w, at_sr := (at_sr st OR 0x0200) AND 0xF8FF, at_calls := calls\<rparr>))"
      "drive_holds view (if good ?l then D(?l := rd_bytes (at_mem st) p 512) else D) (st\<lparr>at_dev := w\<rparr>)" by blast
  show ?case
  proof (cases "good ?l")
    case False
    with w show ?thesis
      by (intro exI [of _ w] exI [of _ calls] exI [of _ "(at_sr st OR 0x0200) AND 0xF8FF"]) (simp add: lbas_Suc RES_ERROR_def)
  next
    case True
    let ?s = "st\<lparr>at_dev := w, at_sr := (at_sr st OR 0x0200) AND 0xF8FF\<rparr>"
    have "drive_holds view (D(?l := rd_bytes (at_mem st) p 512)) ?s" using w(2) True by (simp add: drive_holds_def del: rd_bytes.simps)
    from Suc.IH [OF this, of "s + 1" "p + 512"] obtain w2 calls2 i where
      w2: "write_sectors e n (s + 1) (p + 512) ?s = Some (if length (takeWhile good (lbas (s + 1) n)) = n then RES_OK else RES_ERROR,
        ?s\<lparr>at_dev := w2, at_sr := i, at_calls := calls2\<rparr>)"
      "drive_holds view (stored (takeWhile good (lbas (s + 1) n)) (at_mem st) (p + 512) (D(?l := rd_bytes (at_mem st) p 512))) (st\<lparr>at_dev := w2\<rparr>)"
      by (auto simp: Let_def drive_holds_def simp del: rd_bytes.simps fun_upd_apply)
    with w(1) True show ?thesis
      by (intro exI [of _ w2] exI [of _ calls2] exI [of _ i]) (simp add: lbas_Suc del: rd_bytes.simps fun_upd_apply)
  qed
qed

lemma distinct_lbas: "n \<le> 2 ^ 24 \<Longrightarrow> distinct (lbas s n)"
proof (unfold lbas_def distinct_map, intro conjI inj_onI)
  fix i j assume n: "n \<le> 2 ^ 24" and i: "i \<in> set [0..<n]" and j: "j \<in> set [0..<n]"
    and e: "take_bit 24 (s + of_nat i) = take_bit 24 (s + of_nat j)"
  have "(unat s + k) mod 2 ^ 32 mod 2 ^ 24 = (unat s + k) mod 2 ^ 24" for k :: nat
    by (rule mod_mod_cancel) (simp add: le_imp_power_dvd)
  with e have "(unat s + i) mod 2 ^ 24 = (unat s + j) mod 2 ^ 24"
    by (simp add: word_unat_eq_iff unsigned_take_bit_eq take_bit_eq_mod unat_word_ariths unat_of_nat mod_simps)
  then obtain q r where "unat s + i + 2 ^ 24 * q = unat s + j + 2 ^ 24 * r" unfolding nat_mod_eq_iff by blast
  then have "i + 2 ^ 24 * q = j + 2 ^ 24 * r" by simp
  then have "i mod 2 ^ 24 = j mod 2 ^ 24" unfolding nat_mod_eq_iff by blast
  with n i j show "i = j" by simp
qed simp

section \<open>What FatFs gets\<close>

text \<open>
  C25: \<open>disk_read\<close> gives the sectors up to the first that cannot be read, counted from the start of the first
  partition, and says whether it gave them all.
\<close>

theorem disk_read_gives_sectors:
  assumes "ata_drive e view good ident" "drive_holds view D st" "\<forall>l. length (D l) = 512"
  shows "\<exists>w calls i. let ls = takeWhile good (lbas (pt_base (at_parts st ! 0) + sector) (unat count)) in
    disk_read e 0 buff sector count st = Some (if length ls = unat count then RES_OK else RES_ERROR,
      st\<lparr>at_dev := w, at_sr := i, at_mem := wr_bytes (at_mem st) buff (concat (map D ls)), at_calls := calls\<rparr>) \<and>
    drive_holds view D (st\<lparr>at_dev := w\<rparr>)"
  using sectors_read [OF assms, where s = "pt_base (at_parts st ! 0) + sector"] by (simp add: disk_read_def physical_sector_def)

text \<open>
  C26: What \<open>disk_write\<close> wrote \<open>disk_read\<close> gives, anywhere in memory, and no other sector has changed.
\<close>

theorem disk_write_read_back:
  assumes "ata_drive e view good ident" "drive_holds view D st" "\<forall>l. length (D l) = 512" "unat count \<le> 2 ^ 24"
    and "\<forall>l \<in> set (lbas (pt_base (at_parts st ! 0) + sector) (unat count)). good l"
  shows "\<exists>st1 st2. disk_write e 0 buff sector count st = Some (RES_OK, st1) \<and> disk_read e 0 buff2 sector count st1 = Some (RES_OK, st2) \<and>
    at_mem st2 = wr_bytes (at_mem st) buff2 (rd_bytes (at_mem st) buff (512 * unat count)) \<and>
    (\<forall>l. l \<notin> set (lbas (pt_base (at_parts st ! 0) + sector) (unat count)) \<longrightarrow> dv_disk (view (at_dev st2)) l = D l)"
proof -
  let ?s = "pt_base (at_parts st ! 0) + sector" and ?n = "unat count"
  let ?ls = "lbas ?s ?n" and ?D = "stored (lbas ?s ?n) (at_mem st) buff D"
  have g: "takeWhile good ?ls = ?ls" "length ?ls = ?n" using assms(5) by (simp_all add: takeWhile_eq_all_conv) (simp add: lbas_def)
  from sectors_written [OF assms(1,2), of ?s ?n buff] g obtain w calls i where
    w: "write_sectors e ?n ?s buff st = Some (RES_OK, st\<lparr>at_dev := w, at_sr := i, at_calls := calls\<rparr>)"
      "drive_holds view ?D (st\<lparr>at_dev := w\<rparr>)" by auto
  let ?t = "st\<lparr>at_dev := w, at_sr := i, at_calls := calls\<rparr>"
  have "drive_holds view ?D ?t" using w(2) by (simp add: drive_holds_def)
  from sectors_read [OF assms(1) this, of ?s ?n buff2] length_stored [OF assms(3)] g obtain w2 calls2 j where
    w2: "read_sectors e ?n ?s buff2 ?t = Some (RES_OK, ?t\<lparr>at_dev := w2, at_sr := j,
        at_mem := wr_bytes (at_mem st) buff2 (concat (map ?D ?ls)), at_calls := calls2\<rparr>)"
      "drive_holds view ?D (?t\<lparr>at_dev := w2\<rparr>)" by (auto simp: Let_def)
  have "concat (map ?D ?ls) = rd_bytes (at_mem st) buff (512 * ?n)"
    using stored_bytes [OF distinct_lbas [OF assms(4)]] g(2) by simp
  with w(1) w2 show ?thesis
    by (auto simp: disk_write_def disk_read_def physical_sector_def drive_holds_def stored_other)
qed

section \<open>The partitions\<close>

definition le32_at :: "u8 list \<Rightarrow> nat \<Rightarrow> u32" where
  "le32_at bs k = of_be32 (bs ! (k + 3)) (bs ! (k + 2)) (bs ! (k + 1)) (bs ! k)"

text \<open>Entry \<open>i\<close> of the partition table of a master boot record.\<close>

definition partition_of :: "u8 list \<Rightarrow> nat \<Rightarrow> partition" where
  "partition_of bs i =
     (let k = 0x1BE + 16 * i in \<lparr>pt_base = le32_at bs (k + 8), pt_size = le32_at bs (k + 12), pt_fstype = bs ! (k + 4), pt_flags = bs ! k\<rparr>)"

lemma bit_of_be32:
  "bit (of_be32 a b c d) n \<longleftrightarrow>
    (if n < 8 then bit d n else if n < 16 then bit c (n - 8) else if n < 24 then bit b (n - 16) else bit a (n - 24))"
proof -
  have z: "bit x k \<Longrightarrow> k < 8" for x :: u8 and k using bit_imp_le_length [of x k] by simp
  show ?thesis by (auto simp: of_be32_def bit_simps dest: z)
qed

lemma below_32: "n < 32 \<Longrightarrow> \<exists>k < 8. n = k \<or> n = 8 + k \<or> n = 16 + k \<or> n = 24 + k" for n :: nat
  by presburger

lemma rol_word_bytes: "rol_word (of_be32 a b c d) = of_be32 a b d c"
proof (rule bit_word_eqI)
  fix n assume "n < LENGTH(32)"
  then have "n < 32" by simp
  from below_32 [OF this] obtain k where "k < 8" "n = k \<or> n = 8 + k \<or> n = 16 + k \<or> n = 24 + k" by blast
  then show "bit (rol_word (of_be32 a b c d)) n = bit (of_be32 a b d c) n"
    by (elim disjE) (simp_all add: rol_word_def bit_or_iff bit_push_bit_iff bit_drop_bit_eq bit_ucast_iff bit_word_rotl_iff bit_of_be32 mod_if)
qed

lemma bswap32_bytes: "bswap32 (of_be32 a b c d) = of_be32 d c b a"
proof -
  have "word_rotl 16 (of_be32 a b c d) = of_be32 c d a b" for a b c d
  proof (rule bit_word_eqI)
    fix n assume "n < LENGTH(32)"
    then have "n < 32" by simp
    from below_32 [OF this] obtain k where "k < 8" "n = k \<or> n = 8 + k \<or> n = 16 + k \<or> n = 24 + k" by blast
    then show "bit (word_rotl 16 (of_be32 a b c d)) n = bit (of_be32 c d a b) n"
      by (elim disjE) (simp_all add: bit_word_rotl_iff bit_of_be32 mod_if)
  qed
  then show ?thesis by (simp add: bswap32_def rol_word_bytes)
qed

lemma partition_entry_read:
  assumes "length bs = 512" "i < 4"
  shows "partition_entry (wr_bytes m p bs) (p + 0x1BE + 16 * of_nat i) = partition_of bs i"
proof -
  have "wr_bytes m p bs (p + of_nat k) = bs ! k" if "k < 512" for k
    using wr_bytes_nth [of k bs m p] that assms(1) by simp
  from this [of "0x1BE + 16 * i + _"] have
    r: "wr_bytes m p bs (p + 0x1BE + 16 * of_nat i + of_nat j) = bs ! (0x1BE + 16 * i + j)" if "j < 16" for j
    using that assms(2) by (simp add: algebra_simps)
  from r [of 0] r [of 4] r [of 8] r [of 9] r [of 10] r [of 11] r [of 12] r [of 13] r [of 14] r [of 15] show ?thesis
    by (simp add: partition_entry_def partition_of_def rd32_def bswap32_bytes le32_at_def add.assoc Let_def)
qed

text \<open>The drive answers to \<open>IDENTIFY\<close> within the thousand rounds of \<open>ata_detect\<close>.\<close>

definition prompt_drive :: "'w ata \<Rightarrow> ('w \<Rightarrow> drive_view) \<Rightarrow> bool" where
  "prompt_drive e view \<longleftrightarrow>
     (\<forall>w. dv_busy (view w) = 0 \<longrightarrow> dv_busy (view (ax_out e ATA_REG_COMMAND ATA_CMD_IDENTIFY w)) < 1000)"

lemma identify_answered:
  assumes "ata_drive e view good ident" "dv_phase (view (at_dev st)) = Giving_data bs" "dv_busy (view (at_dev st)) < n"
  shows "\<exists>w. identify_loop e n st = (1, st\<lparr>at_dev := w\<rparr>) \<and> view w = (view (at_dev st))\<lparr>dv_busy := 0\<rparr>"
  using assms(2,3)
proof (induction n arbitrary: st)
  case (Suc n)
  obtain s w where r: "ax_in e ATA_REG_STATUS (at_dev st) = (s, w)" by fastforce
  show ?case
  proof (cases "dv_busy (view (at_dev st)) = 0")
    case True
    with drive_status [OF assms(1), of "at_dev st"] r Suc.prems have
      "s AND ATA_ST_BUSY = 0" "s AND ATA_ST_DATA_READY \<noteq> 0" "view w = view (at_dev st)"
      by (auto simp: status_read_def idle_status_def)
    with r True show ?thesis by (intro exI [of _ w]) (simp add: at_in_def)
  next
    case False
    with drive_status [OF assms(1), of "at_dev st"] r have
      s: "s AND ATA_ST_BUSY \<noteq> 0" "view w = (view (at_dev st))\<lparr>dv_busy := dv_busy (view (at_dev st)) - 1\<rparr>"
      by (auto simp: status_read_def)
    have "dv_busy (view (at_dev st)) - 1 < n" using Suc.prems(2) False by linarith
    with Suc.IH [of "st\<lparr>at_dev := w\<rparr>"] s(2) Suc.prems(1) obtain w2 where
      "identify_loop e n (st\<lparr>at_dev := w\<rparr>) = (1, st\<lparr>at_dev := w2\<rparr>)" "view w2 = (view (at_dev st))\<lparr>dv_busy := 0\<rparr>" by auto
    with r s(1) show ?thesis by (intro exI [of _ w2]) (simp add: at_in_def)
  qed
qed simp

text \<open>
  \<open>ata_detect\<close> sends \<open>IDENTIFY\<close> and returns as soon as the drive has its answer ready, without reading it: the
  drive is left in the middle of a block of data, where it need not take the next command.  \<open>ata_init\<close> goes on
  with a command nevertheless, and so does whatever follows a call of \<open>disk_status\<close>.
\<close>

lemma detect_leaves_data_pending:
  assumes "ata_drive e view good ident" "prompt_drive e view" "drive_holds view D st"
  shows "\<exists>w. ata_detect e st = (1, st\<lparr>at_dev := w\<rparr>) \<and> dv_phase (view w) = Giving_data ident \<and> \<not> takes_commands (view w)"
proof -
  have b: "takes_commands (view (at_dev st))" using assms(3) by (auto simp: drive_holds_def)
  let ?w1 = "ax_out e ATA_REG_SECTOR_COUNT 0x55 (at_dev st)"
  let ?w2 = "ax_out e ATA_REG_SECTOR_COUNT 0xAA ?w1"
  note r = drive_registers(6) [OF assms(1)]
  have v1: "view ?w1 = (view (at_dev st))\<lparr>dv_count := 0x55\<rparr>" using r b .
  have v2: "view ?w2 = (view (at_dev st))\<lparr>dv_count := 0xAA\<rparr>" using r [of ?w1] v1 b by simp
  have there: "has_master_disk e st = (1, st\<lparr>at_dev := ?w2\<rparr>)"
    using drive_count [OF assms(1), of ?w1] drive_count [OF assms(1), of ?w2] v1 v2 b
    by (simp add: has_master_disk_def at_put_def at_in_def)
  let ?w3 = "ax_out e ATA_REG_COMMAND ATA_CMD_IDENTIFY ?w2"
  from drive_command [OF assms(1), of ?w2 ATA_CMD_IDENTIFY] v2 b obtain n where
    v3: "view ?w3 = (view ?w2)\<lparr>dv_phase := Giving_data ident, dv_busy := n\<rparr>" by (auto simp: command_ready_def command_phase_def)
  have "dv_busy (view ?w3) < 1000" using assms(2) v2 b by (simp add: prompt_drive_def)
  with identify_answered [OF assms(1), of "st\<lparr>at_dev := ?w3\<rparr>" ident 1000] v3 obtain w where
    "identify_loop e 1000 (st\<lparr>at_dev := ?w3\<rparr>) = (1, st\<lparr>at_dev := w\<rparr>)" "view w = (view ?w3)\<lparr>dv_busy := 0\<rparr>" by auto
  with there v3 show ?thesis by (auto simp: ata_detect_def at_put_def takes_commands_def simp del: identify_loop.simps)
qed

text \<open>
  C27: Reading the first sector of the drive to a buffer and taking the partition table from there, the last two
  steps of \<open>ata_init\<close>, gives the four entries of the sector, whose numbers are little-endian.  It takes a drive
  that is ready for the command, which \<open>ata_init\<close> does not see to (\<open>detect_leaves_data_pending\<close>).
\<close>

theorem first_sector_gives_partitions:
  assumes "ata_drive e view good ident" "drive_holds view D st" "length (D 0) = 512" "good 0"
  shows "\<exists>st'. ata_read_sector e 0 buffer st = Some (512, st') \<and> at_mem st' = wr_bytes (at_mem st) buffer (D 0) \<and>
    at_parts (read_partition_table buffer st') = map (partition_of (D 0)) [0..<4] \<and> drive_holds view D (read_partition_table buffer st')"
proof -
  from sector_read [OF assms(1,2), of 0 buffer] assms(3,4) obtain w where
    w: "ata_read_sector e 0 buffer st =
        Some (512, st\<lparr>at_dev := w, at_sr := (at_sr st OR 0x0200) AND 0xF8FF, at_mem := wr_bytes (at_mem st) buffer (D 0)\<rparr>)"
      "drive_holds view D (st\<lparr>at_dev := w\<rparr>)" by auto
  have "map (\<lambda>i. partition_entry (wr_bytes (at_mem st) buffer (D 0)) (buffer + 0x1BE + 16 * of_nat i)) [0..<4] = map (partition_of (D 0)) [0..<4]"
    using partition_entry_read [of "D 0" _ "at_mem st" buffer] assms(3) by (intro map_cong) simp_all
  with w show ?thesis by (simp add: read_partition_table_def drive_holds_def)
qed

text \<open>In the mode of 16 bits the data register is read as a word, at an odd address.\<close>

lemma word_mode_traps: "read_words_loop e 256 p st = None"
  by (simp add: numeral_eq_Suc at_in_word_def ATA_REG_DATA_def ATA_REG_BASE_def)

section \<open>A drive of the model\<close>

text \<open>Busy for one round after each command and each byte; the sectors from 5 on are bad.\<close>

definition model_status :: "drive_phase \<Rightarrow> u8" where
  "model_status ph = (case ph of At_ease \<Rightarrow> 0x50 | Failed \<Rightarrow> 0x51 | _ \<Rightarrow> 0x58)"

definition model_in :: "u32 \<Rightarrow> drive_view \<Rightarrow> u8 \<times> drive_view" where
  "model_in r v =
     (if r = ATA_REG_STATUS then
        if dv_busy v = 0 then (model_status (dv_phase v), v) else (0x80, v\<lparr>dv_busy := dv_busy v - 1\<rparr>)
      else if r = ATA_REG_SECTOR_COUNT then (dv_count v, v)
      else if r = ATA_REG_DATA_BYTE then
        (case dv_phase v of Giving_data (b # bs) \<Rightarrow> (b, v\<lparr>dv_phase := if bs = [] then At_ease else Giving_data bs, dv_busy := 1\<rparr>) | _ \<Rightarrow> (0, v))
      else (0, v))"

definition model_out :: "(u32 \<Rightarrow> bool) \<Rightarrow> u8 list \<Rightarrow> u32 \<Rightarrow> u8 \<Rightarrow> drive_view \<Rightarrow> drive_view" where
  "model_out good ident r b v =
     (if r = ATA_REG_DRIVE_HEAD then v\<lparr>dv_head := b\<rparr> else if r = ATA_REG_CYL_HIGH then v\<lparr>dv_high := b\<rparr>
      else if r = ATA_REG_CYL_LOW then v\<lparr>dv_low := b\<rparr> else if r = ATA_REG_SECTOR_NUM then v\<lparr>dv_num := b\<rparr>
      else if r = ATA_REG_SECTOR_COUNT then v\<lparr>dv_count := b\<rparr>
      else if r = ATA_REG_COMMAND then v\<lparr>dv_phase := command_phase good ident v b, dv_busy := 1\<rparr>
      else if r = ATA_REG_DATA_BYTE then
        (case dv_phase v of Taking_data bs \<Rightarrow>
             if length bs < 511 then v\<lparr>dv_phase := Taking_data (bs @ [b]), dv_busy := 1\<rparr>
             else v\<lparr>dv_phase := At_ease, dv_busy := 1, dv_disk := (dv_disk v)(lba_of v := bs @ [b])\<rparr>
           | _ \<Rightarrow> v)
      else v)"

definition model_drive :: "(u32 \<Rightarrow> bool) \<Rightarrow> u8 list \<Rightarrow> drive_view ata" where
  "model_drive good ident = \<lparr>ax_in = model_in, ax_in_word = (\<lambda>r v. (0, v)), ax_out = model_out good ident, ax_ticks = (\<lambda>v. (0, v)),
     ax_dump = (\<lambda>p n st. st), ax_identity = 0x9000\<rparr>"

lemmas ata_registers = ATA_REG_BASE_def ATA_REG_DATA_BYTE_def ATA_REG_FEATURE_def ATA_REG_ERROR_def ATA_REG_SECTOR_COUNT_def ATA_REG_SECTOR_NUM_def
  ATA_REG_CYL_LOW_def ATA_REG_CYL_HIGH_def ATA_REG_DRIVE_HEAD_def ATA_REG_STATUS_def ATA_REG_COMMAND_def

lemma model_registers:
  "model_in ATA_REG_STATUS v = (if dv_busy v = 0 then (model_status (dv_phase v), v) else (0x80, v\<lparr>dv_busy := dv_busy v - 1\<rparr>))"
  "model_in ATA_REG_SECTOR_COUNT v = (dv_count v, v)" "model_in ATA_REG_ERROR v = (0, v)"
  "dv_phase v = Giving_data (c # bs) \<Longrightarrow>
    model_in ATA_REG_DATA_BYTE v = (c, v\<lparr>dv_phase := if bs = [] then At_ease else Giving_data bs, dv_busy := 1\<rparr>)"
  "model_out good ident ATA_REG_FEATURE b v = v" "model_out good ident ATA_REG_DRIVE_HEAD b v = v\<lparr>dv_head := b\<rparr>"
  "model_out good ident ATA_REG_CYL_HIGH b v = v\<lparr>dv_high := b\<rparr>" "model_out good ident ATA_REG_CYL_LOW b v = v\<lparr>dv_low := b\<rparr>"
  "model_out good ident ATA_REG_SECTOR_NUM b v = v\<lparr>dv_num := b\<rparr>" "model_out good ident ATA_REG_SECTOR_COUNT b v = v\<lparr>dv_count := b\<rparr>"
  "model_out good ident ATA_REG_COMMAND b v = v\<lparr>dv_phase := command_phase good ident v b, dv_busy := 1\<rparr>"
  "dv_phase v = Taking_data bs \<Longrightarrow> model_out good ident ATA_REG_DATA_BYTE b v =
    (if length bs < 511 then v\<lparr>dv_phase := Taking_data (bs @ [b]), dv_busy := 1\<rparr>
     else v\<lparr>dv_phase := At_ease, dv_busy := 1, dv_disk := (dv_disk v)(lba_of v := bs @ [b])\<rparr>)"
  by (simp_all add: model_in_def model_out_def ata_registers del: fun_upd_apply)

lemma model_status_shows: "idle_status ph (model_status ph)"
proof -
  have "(0x50 :: u8) AND ATA_ST_BUSY = 0 \<and> (0x50 :: u8) AND ATA_ST_DATA_READY = 0 \<and> (0x50 :: u8) AND ATA_ST_ERROR = 0 \<and>
    (0x51 :: u8) AND ATA_ST_BUSY = 0 \<and> (0x51 :: u8) AND ATA_ST_DATA_READY = 0 \<and> (0x51 :: u8) AND ATA_ST_ERROR \<noteq> 0 \<and>
    (0x58 :: u8) AND ATA_ST_BUSY = 0 \<and> (0x58 :: u8) AND ATA_ST_DATA_READY \<noteq> 0 \<and> (0x58 :: u8) AND ATA_ST_ERROR = 0" by code_simp
  then show ?thesis by (cases ph) (simp_all add: idle_status_def model_status_def)
qed

lemma model_drive_behaves:
  assumes "ident \<noteq> []"
  shows "ata_drive (model_drive good ident) id good ident" "prompt_drive (model_drive good ident) id"
proof -
  have b: "(0x80 :: u8) AND ATA_ST_BUSY \<noteq> 0" by code_simp
  have "status_read v (fst (model_in ATA_REG_STATUS v)) (snd (model_in ATA_REG_STATUS v))" for v
    using b model_status_shows by (simp add: model_registers status_read_def)
  then show "ata_drive (model_drive good ident) id good ident"
    unfolding ata_drive_def model_drive_def using assms by (simp add: model_registers del: fun_upd_apply) blast
  show "prompt_drive (model_drive good ident) id"
    by (simp add: prompt_drive_def model_drive_def model_registers)
qed

definition demo_sectors :: "u32 \<Rightarrow> u8 list" where
  "demo_sectors l = (if l = 0 then replicate 454 0 @ [63, 0, 0, 0, 0, 16, 0, 0] @ replicate 50 0 else replicate 512 (ucast l))"

definition demo_disk :: "drive_view ata_state" where
  "demo_disk = \<lparr>at_dev = \<lparr>dv_head = 0, dv_high = 0, dv_low = 0, dv_num = 0, dv_count = 0, dv_phase = At_ease, dv_busy = 0, dv_disk = demo_sectors\<rparr>,
     at_mem = (\<lambda>a. ucast a), at_mode = 0, at_parts = replicate 4 \<lparr>pt_base = 3, pt_size = 9, pt_fstype = 6, pt_flags = 0\<rparr>,
     at_stat = replicate 10 \<lparr>ds_status = 0, ds_sz_sector = 0, ds_n_sectors = 0\<rparr>, at_sr = 0x2000, at_calls = []\<rparr>"

definition demo_good :: "u32 \<Rightarrow> bool" where "demo_good l \<longleftrightarrow> l < 5"

lemma demo_disk_holds: "drive_holds id demo_sectors demo_disk" "\<forall>l. length (demo_sectors l) = 512"
  by (simp_all add: drive_holds_def takes_commands_def demo_disk_def demo_sectors_def)

lemma demo_base: "pt_base (at_parts demo_disk ! 0) = 3"
  by (simp add: demo_disk_def)

text \<open>Of the four sectors from 3 on the first two can be read.\<close>

theorem disk_read_gives_sectors_witness:
  "\<exists>st'. disk_read (model_drive demo_good [0]) 0 0x8000 0 4 demo_disk = Some (RES_ERROR, st') \<and>
    at_mem st' = wr_bytes (at_mem demo_disk) 0x8000 (replicate 512 3 @ replicate 512 4)"
proof -
  have l: "takeWhile demo_good (lbas (3 + 0) (unat (4 :: u32))) = [3, 4]" by code_simp
  have d: "concat (map demo_sectors [3, 4]) = replicate 512 3 @ replicate 512 4" by (simp add: demo_sectors_def)
  have "length [3, 4 :: u32] \<noteq> unat (4 :: u32)" by simp
  with disk_read_gives_sectors [OF model_drive_behaves(1) demo_disk_holds, of "[0]" demo_good 0 4 "0x8000", unfolded demo_base l d Let_def]
  show ?thesis by auto
qed

theorem disk_write_read_back_witness:
  "\<exists>st1 st2. disk_write (model_drive demo_good [0]) 0 0x8000 0 2 demo_disk = Some (RES_OK, st1) \<and>
    disk_read (model_drive demo_good [0]) 0 0xA000 0 2 st1 = Some (RES_OK, st2) \<and>
    at_mem st2 = wr_bytes (at_mem demo_disk) 0xA000 (rd_bytes (at_mem demo_disk) 0x8000 1024) \<and> dv_disk (at_dev st2) 2 = replicate 512 2"
proof -
  have g: "\<forall>l \<in> set (lbas (pt_base (at_parts demo_disk ! 0) + 0) (unat (2 :: u32))). demo_good l" unfolding demo_base by code_simp
  have n: "2 \<notin> set (lbas (pt_base (at_parts demo_disk ! 0) + 0) (unat (2 :: u32)))" unfolding demo_base by code_simp
  have "unat (2 :: u32) \<le> 2 ^ 24" by simp
  from disk_write_read_back [OF model_drive_behaves(1) demo_disk_holds this g, of "[0]" "0x8000" "0xA000"] n
  show ?thesis by (fastforce simp: demo_sectors_def simp del: rd_bytes.simps)
qed

text \<open>The first partition starts at sector 63.\<close>

theorem first_sector_gives_partitions_witness:
  "\<exists>st'. ata_read_sector (model_drive demo_good [0]) 0 0x82000 demo_disk = Some (512, st') \<and>
    pt_base (at_parts (read_partition_table 0x82000 st') ! 0) = 63 \<and> pt_size (at_parts (read_partition_table 0x82000 st') ! 0) = 4096"
proof -
  have p: "pt_base (partition_of (demo_sectors 0) 0) = 63" "pt_size (partition_of (demo_sectors 0) 0) = 4096"
    by (simp_all add: partition_of_def le32_at_def demo_sectors_def nth_append of_be32_def)
  have g: "demo_good 0" by code_simp
  have d: "ata_drive (model_drive demo_good [0]) id demo_good [0]" by (rule model_drive_behaves) simp
  have l: "length (demo_sectors 0) = 512" using demo_disk_holds(2) by blast
  from first_sector_gives_partitions [OF d demo_disk_holds(1) l g, of "0x82000"] p
  show ?thesis by (auto simp: nth_map)
qed

end
