(* ===== verification/PicoLink.thy ===== *)
theory PicoLink
  imports BiosDisk Crc32
begin

text \<open>
  Files that come over a wire (\<^verbatim>\<open>apps/bios/shell/picow.c\<close> and the commands of \<^verbatim>\<open>apps/bios/shell/commands.c\<close>
  that use it): the registers of the Pico, receiving a file or a sector with its checksum, the command
  that saves a received file, the keyboard test, and the downloads over the serial line.  The devices are
  the environment, their state is \<open>b_fs\<close>; \<open>preg\<close> only chooses an address that is not read.
\<close>

section \<open>Environment\<close>

record 'fs pico_env =
  pe_disk :: "'fs disk_env"
  pe_in :: "u32 \<Rightarrow> 'fs \<Rightarrow> u8 \<times> 'fs"
  pe_out :: "u32 \<Rightarrow> u8 \<Rightarrow> 'fs \<Rightarrow> 'fs"
  pe_delay :: "'fs \<Rightarrow> 'fs"  \<comment> \<open>\<open>delay10ms(1)\<close>\<close>
  pe_delay_ms :: "'fs \<Rightarrow> 'fs"  \<comment> \<open>\<open>_delay_ms\<close>\<close>
  pe_uart_read :: "'fs \<Rightarrow> (u8 \<times> 'fs) option"  \<comment> \<open>\<open>uart0_read\<close>, \<open>None\<close> if nothing comes\<close>
  pe_uart_write :: "u8 \<Rightarrow> 'fs \<Rightarrow> 'fs"
  pe_video_puts :: "u8 list \<Rightarrow> 'fs \<Rightarrow> 'fs"
  pe_progress :: "u16 \<Rightarrow> u16 \<Rightarrow> 'fs \<Rightarrow> 'fs"
  pe_ring_put :: "u8 \<Rightarrow> 'fs \<Rightarrow> 'fs"
  pe_setcolor :: "u8 \<Rightarrow> 'fs \<Rightarrow> 'fs"  \<comment> \<open>\<open>setcolor(data, BLACK)\<close>\<close>
  pe_led :: "bool \<Rightarrow> 'fs \<Rightarrow> 'fs"

definition PICO_DATA_REG :: u32 where "PICO_DATA_REG = 0xFF9101"
definition PICO_STATUS_REG :: u32 where "PICO_STATUS_REG = 0xFF9103"
definition PICO_SIZE_HIGH :: u32 where "PICO_SIZE_HIGH = 0xFF9105"
definition PICO_SIZE_LOW :: u32 where "PICO_SIZE_LOW = 0xFF9107"
definition PICO_CRC_REG3 :: u32 where "PICO_CRC_REG3 = 0xFF9109"
definition PICO_CRC_REG2 :: u32 where "PICO_CRC_REG2 = 0xFF910B"
definition PICO_CRC_REG1 :: u32 where "PICO_CRC_REG1 = 0xFF910D"
definition PICO_CRC_REG0 :: u32 where "PICO_CRC_REG0 = 0xFF910F"
definition PICO_WRITE_CH :: u32 where "PICO_WRITE_CH = 0xFF912B"
definition PICO_STATE_IDLE :: u8 where "PICO_STATE_IDLE = 0"

definition SECTOR_LOW_REG :: u8 where "SECTOR_LOW_REG = 0x0A"
definition SECTOR_HIGH_REG :: u8 where "SECTOR_HIGH_REG = 0x0B"
definition SECTOR_SEC_LOAD_REG :: u8 where "SECTOR_SEC_LOAD_REG = 0x0C"
definition SECTOR_READ_REG :: u8 where "SECTOR_READ_REG = 0x0D"

definition MIO_BASE_ADDRESS :: u32 where "MIO_BASE_ADDRESS = 0xFF9100"
definition MIO_SECTOR_LOW_REG :: u32 where "MIO_SECTOR_LOW_REG = MIO_BASE_ADDRESS + ucast SECTOR_LOW_REG * 2 + 1"
definition MIO_SECTOR_HIGH_REG :: u32 where "MIO_SECTOR_HIGH_REG = MIO_BASE_ADDRESS + ucast SECTOR_HIGH_REG * 2 + 1"
definition MIO_SECTOR_SEC_LOAD_REG :: u32 where "MIO_SECTOR_SEC_LOAD_REG = MIO_BASE_ADDRESS + ucast SECTOR_SEC_LOAD_REG * 2 + 1"
definition MIO_SECTOR_READ_REG :: u32 where "MIO_SECTOR_READ_REG = 0xFF911B"

definition pico_get :: "'fs pico_env \<Rightarrow> u32 \<Rightarrow> 'fs bios \<Rightarrow> u8 \<times> 'fs bios" where
  "pico_get env reg st = (let (v, fs) = pe_in env reg (b_fs st) in (v, st\<lparr>b_fs := fs\<rparr>))"

definition pico_put :: "'fs pico_env \<Rightarrow> u32 \<Rightarrow> u8 \<Rightarrow> 'fs bios \<Rightarrow> 'fs bios" where
  "pico_put env reg v st = st\<lparr>b_fs := pe_out env reg v (b_fs st)\<rparr>"

definition pause :: "'fs pico_env \<Rightarrow> 'fs bios \<Rightarrow> 'fs bios" where
  "pause env st = st\<lparr>b_fs := pe_delay env (b_fs st)\<rparr>"

definition video_puts :: "'fs pico_env \<Rightarrow> u8 list \<Rightarrow> 'fs bios \<Rightarrow> 'fs bios" where
  "video_puts env t st = st\<lparr>b_fs := pe_video_puts env t (b_fs st)\<rparr>"

section \<open>Receiving\<close>

definition get_crc :: "'fs pico_env \<Rightarrow> 'fs bios \<Rightarrow> u32 \<times> 'fs bios" where
  "get_crc env st =
     (let (c3, st) = pico_get env PICO_CRC_REG3 st; (c2, st) = pico_get env PICO_CRC_REG2 st;
          (c1, st) = pico_get env PICO_CRC_REG1 st; (c0, st) = pico_get env PICO_CRC_REG0 st
      in (push_bit 24 (ucast c3) OR push_bit 16 (ucast c2) AND 0x00FF0000 OR push_bit 8 (ucast c1) AND 0x0000FF00 OR
          ucast c0 AND 0xFF, st))"

text \<open>The two halves of the length are read twice; the second reading counts.\<close>

fun receive_loop :: "'fs pico_env \<Rightarrow> nat \<Rightarrow> u32 \<Rightarrow> 'fs bios \<Rightarrow> 'fs bios" where
  "receive_loop env 0 p st = st"
| "receive_loop env (Suc n) p st =
     (let (b, st) = pico_get env PICO_DATA_REG st in receive_loop env n (p + 1) (st\<lparr>b_mem := (b_mem st)(p := b)\<rparr>))"

partial_function (option) pico_wait :: "'fs pico_env \<Rightarrow> u8 \<Rightarrow> 'fs bios \<Rightarrow> (u8 \<times> 'fs bios) option" where
  "pico_wait env status st =
     (if status = PICO_STATE_IDLE then let (s, st) = pico_get env PICO_STATUS_REG st in pico_wait env s st
      else Some (status, st))"

definition receber_arquivo_do_pico :: "'fs pico_env \<Rightarrow> u32 \<Rightarrow> u8 \<Rightarrow> 'fs bios \<Rightarrow> (bool \<times> 'fs bios) option" where
  "receber_arquivo_do_pico env destino preg st = do {
     st \<leftarrow> d_print_line (pe_disk env) ''reg=[%08X]'' [0xFF9100 + ucast preg] st;
     let (status, st) = pico_get env PICO_STATUS_REG st;
     (status, st) \<leftarrow> pico_wait env status st;
     if status < 1 then Some (False, st)
     else do {
       st \<leftarrow> d_print_line (pe_disk env) ''Pico respondeu[%02x]'' [ucast status] st;
       let (hi, st) = pico_get env PICO_SIZE_HIGH (pause env st);
       let (hi, st) = pico_get env PICO_SIZE_HIGH (pause env st);
       st \<leftarrow> d_print_line (pe_disk env) ''Tamanho HIGH do arquivo=[%04x]'' [ucast hi] st;
       let (lo, st) = pico_get env PICO_SIZE_LOW (pause env st);
       let (lo, st) = pico_get env PICO_SIZE_LOW (pause env st);
       st \<leftarrow> d_print_line (pe_disk env) ''Tamanho low do arquivo=[%04x]'' [ucast lo] st;
       let tamanho = (push_bit 8 (ucast hi) OR ucast lo :: u16);
       st \<leftarrow> d_print_line (pe_disk env) ''Tamanho do arquivo=[%04x][%04d]'' [ucast tamanho, ucast tamanho] (pause env st);
       if tamanho = 0 then Some (False, st)
       else do {
         st \<leftarrow> d_print_line (pe_disk env) ''Reading file...'' [] st;
         let (rec_crc, st) = get_crc env (pause env (receive_loop env (unat tamanho) destino st));
         st \<leftarrow> d_print_line (pe_disk env) ''Orion68: crc32 recebido[%08X]'' [rec_crc] st;
         let crc = crc32_calculate crc32_init (b_mem st) (destino + 4) (ucast tamanho - 4);
         st \<leftarrow> d_print_line (pe_disk env) ''Orion68: crc32 calculado[%08X]'' [crc] st;
         Some (rec_crc = crc, st) } } }"

text \<open>\<open>i\<close> and \<open>j\<close> are counted after the body, so \<open>j\<close> is 1 after a report.\<close>

fun noblk_loop :: "'fs pico_env \<Rightarrow> u16 \<Rightarrow> u32 \<Rightarrow> nat \<Rightarrow> u16 \<Rightarrow> u16 \<Rightarrow> 'fs bios \<Rightarrow> u16 \<times> 'fs bios" where
  "noblk_loop env tamanho destino 0 i j st = (i, st)"
| "noblk_loop env tamanho destino (Suc n) i j st =
     (let (b, st) = pico_get env PICO_DATA_REG st;
          st = st\<lparr>b_mem := (b_mem st)(destino + ucast i := b)\<rparr>
      in if j \<ge> 2000 then noblk_loop env tamanho destino n (i + 1) 1 (st\<lparr>b_fs := pe_progress env i tamanho (b_fs st)\<rparr>)
         else noblk_loop env tamanho destino n (i + 1) (j + 1) st)"

definition noblk_receber_arquivo_do_pico :: "'fs pico_env \<Rightarrow> u32 \<Rightarrow> u8 \<Rightarrow> 'fs bios \<Rightarrow> bool \<times> 'fs bios" where
  "noblk_receber_arquivo_do_pico env destino preg st =
     (let (hi, st) = pico_get env PICO_SIZE_HIGH st; (hi, st) = pico_get env PICO_SIZE_HIGH st;
          (lo, st) = pico_get env PICO_SIZE_LOW st; (lo, st) = pico_get env PICO_SIZE_LOW st;
          tamanho = (push_bit 8 (ucast hi) OR ucast lo :: u16)
      in if tamanho = 0 then (False, st)
         else
           let (i, st) = noblk_loop env tamanho destino (unat tamanho) 0 0 st;
               (rec_crc, st) = get_crc env (st\<lparr>b_fs := pe_progress env i tamanho (b_fs st)\<rparr>);
               st = video_puts env ([10] @ bytes_of ''Calculating crc32'' @ [10]) st;
               crc = crc32_calculate crc32_init (b_mem st) (destino + 4) (ucast tamanho - 4)
           in (rec_crc = crc, if rec_crc = crc then video_puts env (bytes_of ''crc32 OK...'' @ [10]) st else st))"

definition send_sector_low :: "'fs pico_env \<Rightarrow> u8 \<Rightarrow> 'fs bios \<Rightarrow> 'fs bios option" where
  "send_sector_low env v st =
     map_option (pico_put env MIO_SECTOR_LOW_REG v) (d_print_line (pe_disk env) ''Sending low register value'' [] st)"

definition send_sector_high :: "'fs pico_env \<Rightarrow> u8 \<Rightarrow> 'fs bios \<Rightarrow> 'fs bios option" where
  "send_sector_high env v st =
     map_option (pico_put env MIO_SECTOR_HIGH_REG v) (d_print_line (pe_disk env) ''Sending high register value'' [] st)"

definition send_read_cmd :: "'fs pico_env \<Rightarrow> 'fs bios \<Rightarrow> 'fs bios option" where
  "send_read_cmd env st =
     map_option (pico_put env MIO_SECTOR_SEC_LOAD_REG 0xA5) (d_print_line (pe_disk env) ''Sending sector load command value'' [] st)"

fun read_sector_loop :: "'fs pico_env \<Rightarrow> nat \<Rightarrow> u32 \<Rightarrow> 'fs bios \<Rightarrow> 'fs bios option" where
  "read_sector_loop env 0 p st = Some st"
| "read_sector_loop env (Suc n) p st = do {
     let (b, st) = pico_get env MIO_SECTOR_READ_REG st;
     st \<leftarrow> d_printf (pe_disk env) ''%02x|'' [ucast b] (st\<lparr>b_mem := (b_mem st)(p := b)\<rparr>);
     read_sector_loop env n (p + 1) (st\<lparr>b_fs := pe_delay_ms env (b_fs st)\<rparr>) }"

definition read_sector :: "'fs pico_env \<Rightarrow> u32 \<Rightarrow> 'fs bios \<Rightarrow> 'fs bios option" where
  "read_sector env destino st = do {
     st \<leftarrow> d_print_line (pe_disk env) ''Reading sector...to [%04x]'' [destino] st;
     read_sector_loop env 512 destino st }"

fun sector_loop :: "'fs pico_env \<Rightarrow> nat \<Rightarrow> u32 \<Rightarrow> 'fs bios \<Rightarrow> 'fs bios" where
  "sector_loop env 0 p st = st"
| "sector_loop env (Suc n) p st =
     (let (b, st) = pico_get env MIO_SECTOR_READ_REG st
      in sector_loop env n (p + 1) (st\<lparr>b_mem := (b_mem st)(p := b), b_fs := pe_delay_ms env (b_fs st)\<rparr>))"

text \<open>The high part is the number shifted to the left, of which a register of eight bits keeps nothing.\<close>

definition receber_setor_do_pico :: "'fs pico_env \<Rightarrow> u32 \<Rightarrow> u16 \<Rightarrow> 'fs bios \<Rightarrow> (bool \<times> 'fs bios) option" where
  "receber_setor_do_pico env destino sector st = do {
     st \<leftarrow> d_print_line (pe_disk env) ''Sending low register value'' [] st;
     let st = pause env (pico_put env MIO_SECTOR_LOW_REG (ucast (sector AND 0xFF)) st);
     st \<leftarrow> d_print_line (pe_disk env) ''Sending high register value'' [] st;
     let st = pause env (pico_put env MIO_SECTOR_HIGH_REG (ucast (push_bit 8 (ucast sector :: u32))) st);
     st \<leftarrow> d_print_line (pe_disk env) ''Sending sector load command value'' [] st;
     let st = pause env (pico_put env MIO_SECTOR_SEC_LOAD_REG 0xA5 st);
     st \<leftarrow> d_print_line (pe_disk env) ''Reading file...'' [] st;
     let (rec_crc, st) = get_crc env (pause env (sector_loop env 512 destino st));
     st \<leftarrow> d_print_line (pe_disk env) ''Orion68: crc32 recebido[%08X]'' [rec_crc] st;
     let crc = crc32_calculate crc32_init (b_mem st) destino 512;
     st \<leftarrow> d_print_line (pe_disk env) ''Orion68: crc32 calculado[%08X]'' [crc] st;
     Some (rec_crc = crc, st) }"

definition pico_write_ch :: "'fs pico_env \<Rightarrow> u8 \<Rightarrow> 'fs bios \<Rightarrow> 'fs bios" where
  "pico_write_ch env ch st = pico_put env PICO_WRITE_CH ch st"

section \<open>Saving a received file\<close>

definition quoted :: "string \<Rightarrow> string \<Rightarrow> string" where
  "quoted before behind = ''dump_memoria_para_arquivo: falha ao '' @ before @ [CHR 32, CHR 39] @ ''%s'' @ [CHR 39, CHR 32] @ behind"

definition do_save2 :: "'fs pico_env \<Rightarrow> u32 list \<Rightarrow> 'fs bios \<Rightarrow> 'fs bios option" where
  "do_save2 env argv st =
     (let (status, st) = pico_get env PICO_STATUS_REG st
      in if status = PICO_STATE_IDLE then Some st
         else if status < 1 then Some st
         else
           let (received, st) = noblk_receber_arquivo_do_pico env 0x82000 0 st
           in if \<not> received then
                map_option (\<lambda>t. st\<lparr>b_out := b_out st @ t\<rparr>)
                  (puts (b_mem st) (be_lit (de_bios (pe_disk env)) (bytes_of ''noblk_receber_arquivo_do_pico CRC error...'' @ [10])))
              else
                let origem = 0x82015; nome = 0x82008;
                    st = st\<lparr>b_mem := (b_mem st)(nome + 12 := 0)\<rparr>;
                    m = b_mem st;
                    tamanho1 = push_bit 24 (ucast (m 0x82007)) OR push_bit 16 (ucast (m 0x82006)) OR push_bit 8 (ucast (m 0x82005)) OR
                      ucast (m 0x82004);
                    tamanho = tamanho1 - 0x15
                in if tamanho = 0 then d_print_line (pe_disk env) ''dump_memoria_para_arquivo: parametros invalidos'' [] st
                   else do {
                     let st = video_puts env (bytes_of ''Creating file...'' @ [10]) st;
                     (fr, st) \<leftarrow> d_open (pe_disk env) 0 nome (FA_WRITE OR FA_CREATE_ALWAYS) st;
                     if fr \<noteq> FR_OK then d_print_line (pe_disk env) (quoted ''abrir'' ''(erro %d)'') [nome, ucast fr] st
                     else do {
                       let st = video_puts env (bytes_of ''Writting file...'' @ [10]) st;
                       let (fr, n, st) = d_write (pe_disk env) 0 origem tamanho st;
                       if fr \<noteq> FR_OK \<or> n \<noteq> tamanho then do {
                         st \<leftarrow> d_print_line (pe_disk env) (quoted ''escrever'' ''(erro %d, escrito %u de %u bytes)'') [nome, ucast fr, n, tamanho] st;
                         Some (snd (d_close (pe_disk env) 0 st)) }
                       else do {
                         let st = video_puts env (bytes_of ''Closing file...'' @ [10]) st;
                         let (fr, st) = d_close (pe_disk env) 0 st;
                         if fr \<noteq> FR_OK then d_print_line (pe_disk env) (quoted ''fechar'' ''(erro %d)'') [nome, ucast fr] st
                         else Some (st\<lparr>b_fs := pe_ring_put env 0x0D (pe_ring_put env 0x0A (b_fs st))\<rparr>) } } })"

section \<open>The keyboard test\<close>

definition said :: "'fs pico_env \<Rightarrow> string \<Rightarrow> bool \<times> 'fs bios \<Rightarrow> 'fs bios option" where
  "said env who r = d_print_line (pe_disk env) (who @ ''['' @ (if fst r then ''Success'' else ''Error'') @ '']'') [] (snd r)"

definition do_tstkbd :: "'fs pico_env \<Rightarrow> u32 list \<Rightarrow> 'fs bios \<Rightarrow> 'fs bios option" where
  "do_tstkbd env argv st = do {
     (cmd, _) \<leftarrow> strtoul (b_mem st) (argv ! 0) 0 16;
     (data, _) \<leftarrow> strtoul (b_mem st) (argv ! 1) 0 16;
     let cmd = (ucast cmd :: u8);
     let data = (ucast data :: u8);
     if cmd = 0x01 then Option.bind (receber_setor_do_pico env 0x82000 (ucast cmd) st) (said env ''receber_setor_do_pico retornou'')
     else if cmd = 0x02 then Some (st\<lparr>b_fs := pe_setcolor env data (b_fs st)\<rparr>)
     else if cmd = 0x03 then Some st
     else if cmd = 0x04 then Some (st\<lparr>b_fs := pe_led env True (b_fs st)\<rparr>)
     else if cmd = 0x05 then Some (st\<lparr>b_fs := pe_led env False (b_fs st)\<rparr>)
     else if cmd \<in> {0xFF, 0x10, 0x11} then Some st
     else if cmd = 0x12 then Some (pico_write_ch env data st)
     else if cmd = SECTOR_LOW_REG then send_sector_low env data st
     else if cmd = SECTOR_HIGH_REG then send_sector_high env data st
     else if cmd = SECTOR_SEC_LOAD_REG then send_read_cmd env st
     else if cmd = SECTOR_READ_REG then do {
       st \<leftarrow> read_sector env 0x82000 st;
       dump_memory (pe_disk env) 0x82000 256 st }
     else Option.bind (receber_arquivo_do_pico env 0x82000 cmd st) (said env ''receber_arquivo_do_pico retornou'') }"

section \<open>Downloads over the serial line\<close>

definition serial_has_char :: u8 where "serial_has_char = 1"

definition uart_get :: "'fs pico_env \<Rightarrow> u32 \<Rightarrow> 'fs bios \<Rightarrow> 'fs bios option" where
  "uart_get env p st =
     map_option (\<lambda>(c, fs). st\<lparr>b_fs := fs, b_mem := (b_mem st)(p := c)\<rparr>) (pe_uart_read env (b_fs st))"

text \<open>Characters are received until the timeout has been counted down without one.\<close>

partial_function (option) download_loop :: "'fs pico_env \<Rightarrow> u32 \<Rightarrow> u32 \<Rightarrow> u32 \<Rightarrow> 'fs bios \<Rightarrow> (u32 \<times> 'fs bios) option" where
  "download_loop env timeout p n st =
     (if timeout = 0 then Some (n, st)
      else if serial_has_char \<noteq> 0 then
        Option.bind (uart_get env p st) (\<lambda>st.
          let p = p + 1;
              st = (if p AND 0xFF = 0 then st\<lparr>b_fs := pe_uart_write env 46 (b_fs st)\<rparr> else st)
          in download_loop env 10000 p (n + 1) st)
      else download_loop env (timeout - 1) p n st)"

definition do_binfile :: "'fs pico_env \<Rightarrow> u32 list \<Rightarrow> 'fs bios \<Rightarrow> 'fs bios option" where
  "do_binfile env argv st = do {
     st \<leftarrow> (if length argv \<noteq> 1 then d_print_line (pe_disk env) ''binfile: Filename should be specified'' [] st else Some st);
     st \<leftarrow> d_print_line (pe_disk env) ''Download binary file to %s, waiting for serial transfer start'' [argv ! 0] st;
     st \<leftarrow> uart_get env 0x00100000 st;
     (n, st) \<leftarrow> download_loop env 10000 0x00100001 1 st;
     st \<leftarrow> b_printf (de_bios (pe_disk env)) ([10] @ bytes_of ''Data recieved, saving to file'' @ [10]) [] st;
     (fr, st) \<leftarrow> d_open (pe_disk env) 1 (argv ! 0) (FA_WRITE OR FA_CREATE_ALWAYS) st;
     if fr \<noteq> FR_OK then d_print_line (pe_disk env) ''Unable to open destination file %s'' [argv ! 0] st
     else do {
       let (fr, written, st) = d_write (pe_disk env) 1 0x00100000 n st;
       st \<leftarrow> (if fr \<noteq> FR_OK then
                b_printf (de_bios (pe_disk env)) (bytes_of ''Unable to write to destination file %s'' @ [10, 9]) [argv ! 0] st
              else d_print_line (pe_disk env) ''Written %d bytes to %s'' [written, argv ! 0] st);
       Some (snd (d_close (pe_disk env) 1 st)) } }"

definition do_binmem :: "'fs pico_env \<Rightarrow> u32 list \<Rightarrow> 'fs bios \<Rightarrow> 'fs bios option" where
  "do_binmem env argv st = do {
     st \<leftarrow> (if length argv \<noteq> 1 then d_print_line (pe_disk env) ''binmem: memory address should be specified'' [] st else Some st);
     (addr, _) \<leftarrow> strtoul (b_mem st) (argv ! 0) 0 16;
     st \<leftarrow> d_print_line (pe_disk env) ''Download binary file to 0x%06x, waiting for serial transfer start'' [addr] st;
     st \<leftarrow> uart_get env addr st;
     (n, st) \<leftarrow> download_loop env 10000 (addr + 1) 1 st;
     b_printf (de_bios (pe_disk env)) ([10] @ bytes_of ''Written %d bytes to memory at 0x%06X'' @ [10]) [n, addr] st }"

text \<open>The same loop, with a point on the console after each 250 bytes of the address.\<close>

partial_function (option) srecord_loop :: "'fs pico_env \<Rightarrow> u32 \<Rightarrow> u32 \<Rightarrow> 'fs bios \<Rightarrow> 'fs bios option" where
  "srecord_loop env timeout p st =
     (if timeout = 0 then Some st
      else if serial_has_char \<noteq> 0 then
        Option.bind (uart_get env p st) (\<lambda>st.
          let p = p + 1 in srecord_loop env 10000 p (if p mod 250 = 0 then b_putchar 46 st else st))
      else srecord_loop env (timeout - 1) p st)"

definition do_srecord :: "'fs pico_env \<Rightarrow> u32 list \<Rightarrow> 'fs bios \<Rightarrow> 'fs bios option" where
  "do_srecord env argv st = do {
     st \<leftarrow> d_print_line (pe_disk env) ''Download for S-Record file, waiting for serial transfer'' [] st;
     st \<leftarrow> uart_get env 0x00300000 st;
     st \<leftarrow> srecord_loop env 10000 0x00300001 st;
     b_printf (de_bios (pe_disk env)) ([10] @ bytes_of ''Data recieved, processing S-Record file'' @ [10]) [] st }"

end
