(* ===== verification/PicoFile.thy ===== *)
theory PicoFile
  imports PicoLink
begin

text \<open>
  What happens to a file that comes over the wire: an intact one is on the disk under its name, one with
  a damaged byte is not; a download over the serial line never ends.
\<close>

section \<open>The serial line\<close>

lemma download_loop_endless: "timeout \<noteq> 0 \<Longrightarrow> download_loop env timeout p n st = None"
proof (rule ccontr)
  assume t: "timeout \<noteq> 0" and "download_loop env timeout p n st \<noteq> None"
  then obtain r where r: "download_loop env timeout p n st = Some r" by blast
  have "timeout = 0"
    by (rule download_loop.raw_induct [where P = "\<lambda>e t p n st r. t = 0", OF _ r])
      (fastforce simp: serial_has_char_def Let_def bind_eq_Some_conv split: if_splits)
  with t show False by simp
qed
lemma srecord_loop_endless: "timeout \<noteq> 0 \<Longrightarrow> srecord_loop env timeout p st = None"
proof (rule ccontr)
  assume t: "timeout \<noteq> 0" and "srecord_loop env timeout p st \<noteq> None"
  then obtain r where r: "srecord_loop env timeout p st = Some r" by blast
  have "timeout = 0"
    by (rule srecord_loop.raw_induct [where P = "\<lambda>e t p st r. t = 0", OF _ r])
      (fastforce simp: serial_has_char_def Let_def bind_eq_Some_conv split: if_splits)
  with t show False by simp
qed
text \<open>
  None of the downloads over the serial line ends: \<open>serial_has_char\<close> always says that there is a
  character, which sets the timeout back.
\<close>

theorem serial_downloads_never_end:
  "do_binfile env argv st = None \<and> do_binmem env argv st = None \<and> do_srecord env argv st = None"
proof -
  have b: "Option.bind r (\<lambda>_. None) = None" for r :: "'c option" by (cases r) simp_all
  show ?thesis
    unfolding do_binfile_def do_binmem_def do_srecord_def by (simp add: download_loop_endless srecord_loop_endless b split_def)
qed

section \<open>The Pico\<close>

text \<open>
  The Pico has a file of \<open>n\<close> bytes with the checksum \<open>crc\<close>; \<open>left\<close> are the bytes its data register has
  still to give.
\<close>

definition pico_sends :: "'fs pico_env \<Rightarrow> ('fs \<Rightarrow> u8 list) \<Rightarrow> u16 \<Rightarrow> u32 \<Rightarrow> bool" where
  "pico_sends env left n crc \<longleftrightarrow>
     (\<forall>fs b bs. left fs = b # bs \<longrightarrow> (\<exists>f. pe_in env PICO_DATA_REG fs = (b, f) \<and> left f = bs)) \<and>
     (\<forall>fs. \<forall>(r, v) \<in> {(PICO_SIZE_HIGH, ucast (drop_bit 8 n)), (PICO_SIZE_LOW, ucast n), (PICO_CRC_REG3, ucast (drop_bit 24 crc)),
         (PICO_CRC_REG2, ucast (drop_bit 16 crc)), (PICO_CRC_REG1, ucast (drop_bit 8 crc)), (PICO_CRC_REG0, ucast crc)}.
        \<exists>f. pe_in env r fs = (v, f) \<and> left f = left fs) \<and>
     (\<forall>fs. \<exists>v f. pe_in env PICO_STATUS_REG fs = (v, f) \<and> v \<noteq> PICO_STATE_IDLE \<and> left f = left fs) \<and>
     (\<forall>i k fs. left (pe_progress env i k fs) = left fs) \<and> (\<forall>t fs. left (pe_video_puts env t fs) = left fs)"

text \<open>The devices do not touch what \<open>fv\<close> shows of the file system.\<close>

definition devices_keep :: "'fs pico_env \<Rightarrow> ('fs \<Rightarrow> 'v) \<Rightarrow> bool" where
  "devices_keep env fv \<longleftrightarrow>
     (\<forall>r fs. fv (snd (pe_in env r fs)) = fv fs) \<and> (\<forall>i k fs. fv (pe_progress env i k fs) = fv fs) \<and>
     (\<forall>t fs. fv (pe_video_puts env t fs) = fv fs) \<and> (\<forall>c fs. fv (pe_ring_put env c fs) = fv fs)"

lemma pico_register:
  assumes "pico_sends env left n crc" "devices_keep env fv"
    "(r, v) \<in> {(PICO_SIZE_HIGH, ucast (drop_bit 8 n)), (PICO_SIZE_LOW, ucast n), (PICO_CRC_REG3, ucast (drop_bit 24 crc)),
         (PICO_CRC_REG2, ucast (drop_bit 16 crc)), (PICO_CRC_REG1, ucast (drop_bit 8 crc)), (PICO_CRC_REG0, ucast crc)}"
  obtains f where "pico_get env r st = (v, st\<lparr>b_fs := f\<rparr>)" "left f = left (b_fs st)" "fv f = fv (b_fs st)"
proof -
  have "\<exists>f. pe_in env r (b_fs st) = (v, f) \<and> left f = left (b_fs st)" using assms(1,3) unfolding pico_sends_def by blast
  moreover have "fv (snd (pe_in env r (b_fs st))) = fv (b_fs st)" using assms(2) by (simp add: devices_keep_def)
  ultimately show thesis using that by (auto simp: pico_get_def)
qed

lemma pico_byte:
  assumes "pico_sends env left n crc" "devices_keep env fv" "left (b_fs st) = b # bs"
  obtains f where "pico_get env PICO_DATA_REG st = (b, st\<lparr>b_fs := f\<rparr>)" "left f = bs" "fv f = fv (b_fs st)"
proof -
  have "\<exists>f. pe_in env PICO_DATA_REG (b_fs st) = (b, f) \<and> left f = bs" using assms(1,3) unfolding pico_sends_def by blast
  moreover have "fv (snd (pe_in env PICO_DATA_REG (b_fs st))) = fv (b_fs st)" using assms(2) by (simp add: devices_keep_def)
  ultimately show thesis using that by (auto simp: pico_get_def)
qed

text \<open>The order of the two updates.\<close>

lemma mem_then_fs: "st\<lparr>b_mem := m, b_fs := f\<rparr> = st\<lparr>b_fs := f, b_mem := m\<rparr>"
  by simp

lemma noblk_loop_stores:
  assumes "pico_sends env left n crc" "devices_keep env fv" "left (b_fs st) = bs @ rest" "unat i + length bs < 2 ^ 16"
  shows "\<exists>f. noblk_loop env k d (length bs) i j st =
      (i + of_nat (length bs), st\<lparr>b_mem := wr_bytes (b_mem st) (d + ucast i) bs, b_fs := f\<rparr>) \<and> left f = rest \<and> fv f = fv (b_fs st)"
  using assms(3,4)
proof (induction bs arbitrary: i j st)
  case Nil
  then show ?case by (intro exI [of _ "b_fs st"]) simp
next
  case (Cons b bs)
  from pico_byte [OF assms(1,2), of st b "bs @ rest"] Cons.prems(1) obtain f where
    f: "pico_get env PICO_DATA_REG st = (b, st\<lparr>b_fs := f\<rparr>)" "left f = bs @ rest" "fv f = fv (b_fs st)" by auto
  have i: "unat (i + 1) = unat i + 1" using Cons.prems(2) by (simp add: unat_word_ariths)
  then have d: "(ucast (i + 1) :: u32) = ucast i + 1"
    using Cons.prems(2) by (simp add: word_unat_eq_iff unsigned_ucast_eq unat_word_ariths take_bit_eq_mod)
  have step: "\<exists>f2. noblk_loop env k d (length bs) (i + 1) j2 (st\<lparr>b_fs := f1, b_mem := (b_mem st)(d + ucast i := b)\<rparr>) =
      (i + of_nat (length (b # bs)), st\<lparr>b_mem := wr_bytes (b_mem st) (d + ucast i) (b # bs), b_fs := f2\<rparr>) \<and> left f2 = rest \<and> fv f2 = fv (b_fs st)"
    if "left f1 = bs @ rest" "fv f1 = fv (b_fs st)" for j2 f1
    using Cons.IH [of "st\<lparr>b_fs := f1, b_mem := (b_mem st)(d + ucast i := b)\<rparr>" "i + 1" j2] Cons.prems(2) i d that
    by (auto simp: add.assoc simp del: fun_upd_apply)
  have "left (pe_progress env i k f) = bs @ rest" "fv (pe_progress env i k f) = fv (b_fs st)"
    using assms(1,2) f by (simp_all add: pico_sends_def devices_keep_def)
  from step [OF f(2,3), of "j + 1"] step [OF this, of 1] show ?case
    using f(1) by (auto simp: Let_def mem_then_fs simp del: fun_upd_apply)
qed

lemma crc_read:
  assumes "pico_sends env left n crc" "devices_keep env fv"
  shows "\<exists>f. get_crc env st = (crc, st\<lparr>b_fs := f\<rparr>) \<and> left f = left (b_fs st) \<and> fv f = fv (b_fs st)"
proof -
  note r = pico_register [OF assms]
  obtain f3 where f3: "pico_get env PICO_CRC_REG3 st = (ucast (drop_bit 24 crc), st\<lparr>b_fs := f3\<rparr>)" "left f3 = left (b_fs st)" "fv f3 = fv (b_fs st)"
    by (rule r [of PICO_CRC_REG3 "ucast (drop_bit 24 crc)" st]) auto
  obtain f2 where f2: "pico_get env PICO_CRC_REG2 (st\<lparr>b_fs := f3\<rparr>) = (ucast (drop_bit 16 crc), st\<lparr>b_fs := f2\<rparr>)" "left f2 = left f3" "fv f2 = fv f3"
    by (rule r [of PICO_CRC_REG2 "ucast (drop_bit 16 crc)" "st\<lparr>b_fs := f3\<rparr>"]) auto
  obtain f1 where f1: "pico_get env PICO_CRC_REG1 (st\<lparr>b_fs := f2\<rparr>) = (ucast (drop_bit 8 crc), st\<lparr>b_fs := f1\<rparr>)" "left f1 = left f2" "fv f1 = fv f2"
    by (rule r [of PICO_CRC_REG1 "ucast (drop_bit 8 crc)" "st\<lparr>b_fs := f2\<rparr>"]) auto
  obtain f0 where f0: "pico_get env PICO_CRC_REG0 (st\<lparr>b_fs := f1\<rparr>) = (ucast crc, st\<lparr>b_fs := f0\<rparr>)" "left f0 = left f1" "fv f0 = fv f1"
    by (rule r [of PICO_CRC_REG0 "ucast crc" "st\<lparr>b_fs := f1\<rparr>"]) auto
  have "push_bit 24 (ucast (ucast (drop_bit 24 crc) :: u8)) OR push_bit 16 (ucast (ucast (drop_bit 16 crc) :: u8)) AND 0x00FF0000 OR
      push_bit 8 (ucast (ucast (drop_bit 8 crc) :: u8)) AND 0x0000FF00 OR ucast (ucast crc :: u8) AND 0xFF = crc"
  proof -
    have "push_bit 16 (ucast x) AND 0x00FF0000 = (push_bit 16 (ucast x) :: u32)" "push_bit 8 (ucast x) AND 0x0000FF00 = (push_bit 8 (ucast x) :: u32)"
      "ucast x AND 0xFF = (ucast x :: u32)" for x :: u8
    proof -
      have m: "(0x00FF0000 :: u32) = push_bit 16 (mask 8)" "(0x0000FF00 :: u32) = push_bit 8 (mask 8)" "(0xFF :: u32) = mask 8" by code_simp+
      show "push_bit 16 (ucast x) AND 0x00FF0000 = (push_bit 16 (ucast x) :: u32)" "push_bit 8 (ucast x) AND 0x0000FF00 = (push_bit 8 (ucast x) :: u32)"
        "ucast x AND 0xFF = (ucast x :: u32)"
        unfolding m by (rule bit_word_eqI; auto simp: bit_simps dest: bit_imp_le_length)+
    qed
    then show ?thesis using of_be32_be32 [of crc] by (simp add: of_be32_def)
  qed
  with f3 f2 f1 f0 show ?thesis by (auto simp: get_crc_def)
qed

text \<open>The checksum a file should have: that of all its bytes but the first four.\<close>

definition file_crc :: "u8 list \<Rightarrow> u32" where
  "file_crc bs = crc_ref 0xFFFFFFFF (drop 4 bs) XOR 0xFFFFFFFF"

lemma crc_of_received:
  assumes "length bs = unat (n :: u16)" "4 \<le> length bs"
  shows "crc32_calculate crc32_init (wr_bytes m d bs) (d + 4) (ucast n - 4) = file_crc bs"
proof -
  have n: "unat n < 65536" using unsigned_less [of n] by simp
  have c: "unat (ucast n :: u32) = length bs" using assms(1) n by (simp add: unsigned_ucast_eq take_bit_nat_eq_self)
  then have "(4 :: u32) \<le> ucast n" using assms(2) by (simp add: word_le_nat_alt)
  then have u: "unat (ucast n - 4 :: u32) = length bs - 4" using c by (simp add: unat_sub)
  have "rd_bytes (wr_bytes m d bs) (d + 4) (length bs - 4) = drop 4 bs"
  proof (rule nth_equalityI)
    fix i assume "i < length (rd_bytes (wr_bytes m d bs) (d + 4) (length bs - 4))"
    then have i: "i < length bs - 4" by simp
    have "wr_bytes m d bs (d + of_nat (4 + i)) = bs ! (4 + i)" using assms n i by (intro wr_bytes_nth) simp_all
    then show "rd_bytes (wr_bytes m d bs) (d + 4) (length bs - 4) ! i = drop 4 bs ! i"
      using i by (simp add: rd_bytes_nth algebra_simps)
  qed simp
  with u show ?thesis by (simp add: crc32_calculate_ref file_crc_def)
qed

lemma file_received:
  assumes "pico_sends env left n crc" "devices_keep env fv" "left (b_fs st) = bs @ rest" "length bs = unat n" "4 \<le> length bs"
  shows "\<exists>f. noblk_receber_arquivo_do_pico env d preg st = (crc = file_crc bs, st\<lparr>b_fs := f, b_mem := wr_bytes (b_mem st) d bs\<rparr>) \<and>
    fv f = fv (b_fs st)"
proof -
  note r = pico_register [OF assms(1,2)]
  obtain f1 where f1: "pico_get env PICO_SIZE_HIGH st = (ucast (drop_bit 8 n), st\<lparr>b_fs := f1\<rparr>)" "left f1 = left (b_fs st)" "fv f1 = fv (b_fs st)"
    by (rule r [of PICO_SIZE_HIGH "ucast (drop_bit 8 n)" st]) auto
  obtain f2 where f2: "pico_get env PICO_SIZE_HIGH (st\<lparr>b_fs := f1\<rparr>) = (ucast (drop_bit 8 n), st\<lparr>b_fs := f2\<rparr>)" "left f2 = left f1" "fv f2 = fv f1"
    by (rule r [of PICO_SIZE_HIGH "ucast (drop_bit 8 n)" "st\<lparr>b_fs := f1\<rparr>"]) auto
  obtain f3 where f3: "pico_get env PICO_SIZE_LOW (st\<lparr>b_fs := f2\<rparr>) = (ucast n, st\<lparr>b_fs := f3\<rparr>)" "left f3 = left f2" "fv f3 = fv f2"
    by (rule r [of PICO_SIZE_LOW "ucast n" "st\<lparr>b_fs := f2\<rparr>"]) auto
  obtain f4 where f4: "pico_get env PICO_SIZE_LOW (st\<lparr>b_fs := f3\<rparr>) = (ucast n, st\<lparr>b_fs := f4\<rparr>)" "left f4 = left f3" "fv f4 = fv f3"
    by (rule r [of PICO_SIZE_LOW "ucast n" "st\<lparr>b_fs := f3\<rparr>"]) auto
  have size: "push_bit 8 (ucast (ucast (drop_bit 8 n) :: u8)) OR ucast (ucast n :: u8) = n"
    by (rule bit_word_eqI) (auto simp: bit_simps)
  have n0: "n \<noteq> 0" using assms(4,5) by auto
  have "unat n < 2 ^ 16" using unsigned_less [of n] by simp
  then have "unat (0 :: u16) + length bs < 2 ^ 16" using assms(4) by simp
  from noblk_loop_stores [OF assms(1,2), of "st\<lparr>b_fs := f4\<rparr>" bs rest 0 n d 0] this f1 f2 f3 f4 assms(3,4) obtain f5 where
    f5: "noblk_loop env n d (unat n) 0 0 (st\<lparr>b_fs := f4\<rparr>) = (of_nat (length bs), st\<lparr>b_fs := f5, b_mem := wr_bytes (b_mem st) d bs\<rparr>)"
      "fv f5 = fv (b_fs st)" by (auto simp: mem_then_fs)
  let ?m = "st\<lparr>b_mem := wr_bytes (b_mem st) d bs\<rparr>"
  obtain f6 where f6: "get_crc env (?m\<lparr>b_fs := pe_progress env (of_nat (length bs)) n f5\<rparr>) = (crc, ?m\<lparr>b_fs := f6\<rparr>)"
      "fv f6 = fv (pe_progress env (of_nat (length bs)) n f5)"
    using crc_read [OF assms(1,2), of "?m\<lparr>b_fs := pe_progress env (of_nat (length bs)) n f5\<rparr>"] by auto
  let ?f = "pe_video_puts env ([10] @ bytes_of ''Calculating crc32'' @ [10]) f6"
  have "fv ?f = fv (b_fs st)" using f5(2) f6(2) assms(2) by (simp add: devices_keep_def)
  moreover have "fv (pe_video_puts env t ?f) = fv (b_fs st)" for t using \<open>fv ?f = fv (b_fs st)\<close> assms(2) by (simp add: devices_keep_def)
  moreover have "noblk_receber_arquivo_do_pico env d preg st =
      (crc = file_crc bs, ?m\<lparr>b_fs := (if crc = file_crc bs then pe_video_puts env (bytes_of ''crc32 OK...'' @ [10]) ?f else ?f)\<rparr>)"
  proof -
    have e: "st\<lparr>b_fs := f5, b_mem := wr_bytes (b_mem st) d bs\<rparr>\<lparr>b_fs := f'\<rparr> = ?m\<lparr>b_fs := f'\<rparr>"
      "b_fs (st\<lparr>b_fs := f5, b_mem := wr_bytes (b_mem st) d bs\<rparr>) = f5" for f' by simp_all
    have v: "?m\<lparr>b_fs := f'\<rparr>\<lparr>b_fs := f''\<rparr> = ?m\<lparr>b_fs := f''\<rparr>" "b_fs (?m\<lparr>b_fs := f'\<rparr>) = f'"
      "b_mem (?m\<lparr>b_fs := f'\<rparr>) = wr_bytes (b_mem st) d bs" for f' f'' by simp_all
    show ?thesis
      unfolding noblk_receber_arquivo_do_pico_def f1(1) f2(1) f3(1) f4(1) Let_def prod.case size if_not_P [OF n0] f5(1) e f6(1)
        video_puts_def v crc_of_received [OF assms(4,5)]
      by (cases "crc = file_crc bs") (simp_all only: if_True if_False v refl simp_thms)
  qed
  ultimately show ?thesis
    by (intro exI [of _ "if crc = file_crc bs then pe_video_puts env (bytes_of ''crc32 OK...'' @ [10]) ?f else ?f"]) simp
qed

section \<open>Damaged and intact files\<close>

text \<open>The text of the message about a wrong checksum is where the compiler put it.\<close>

definition crc_message :: "u8 list" where
  "crc_message = bytes_of ''noblk_receber_arquivo_do_pico CRC error...'' @ [10]"

text \<open>
  C29: A file in which one byte behind the first four differs from what the checksum was made of is not saved.
\<close>

theorem damaged_file_not_saved:
  assumes "pico_sends env left n (file_crc (xs @ b # ys))" "devices_keep env fv"
    and "left (b_fs st) = xs @ b' # ys" "b \<noteq> b'" "4 \<le> length xs" "length (xs @ b # ys) = unat n"
    and "cstr (wr_bytes (b_mem st) 0x82000 (xs @ b' # ys)) (be_lit (de_bios (pe_disk env)) crc_message) crc_message"
  shows "\<exists>st'. do_save2 env argv st = Some st' \<and> fv (b_fs st') = fv (b_fs st) \<and> b_out st' = b_out st @ crc_message"
proof -
  let ?bs = "xs @ b' # ys"
  have "\<exists>v f. pe_in env PICO_STATUS_REG (b_fs st) = (v, f) \<and> v \<noteq> PICO_STATE_IDLE \<and> left f = left (b_fs st)"
    using assms(1) unfolding pico_sends_def by blast
  then obtain v f where f: "pe_in env PICO_STATUS_REG (b_fs st) = (v, f)" "v \<noteq> PICO_STATE_IDLE" "left f = left (b_fs st)" by blast
  have k: "fv f = fv (b_fs st)" using assms(2) f(1) unfolding devices_keep_def by (metis snd_conv)
  have v: "\<not> v < 1" using f(2) by (simp add: PICO_STATE_IDLE_def word_less_nat_alt unat_eq_0)
  have "crc_ref 0xFFFFFFFF (drop 4 (xs @ b # ys)) \<noteq> crc_ref 0xFFFFFFFF (drop 4 ?bs)"
    using assms(4,5) crc_ref_byte_other [OF assms(4)] crc_ref_inj by (auto simp: crc_ref_def dest: crc_ref_inj [unfolded crc_ref_def])
  then have ne: "file_crc (xs @ b # ys) \<noteq> file_crc ?bs" unfolding file_crc_def by (metis xor_cancel)
  from file_received [OF assms(1,2), of "st\<lparr>b_fs := f\<rparr>" ?bs "[]" "0x82000" 0] f assms(3,5,6) ne obtain f2 where
    "noblk_receber_arquivo_do_pico env 0x82000 0 (st\<lparr>b_fs := f\<rparr>) = (False, st\<lparr>b_fs := f2, b_mem := wr_bytes (b_mem st) 0x82000 ?bs\<rparr>)"
    "fv f2 = fv f" by auto
  moreover have "puts (wr_bytes (b_mem st) 0x82000 ?bs) (be_lit (de_bios (pe_disk env)) crc_message) = Some crc_message"
    using puts_text [OF assms(7)] by (simp add: puts_def)
  ultimately show ?thesis using f v k by (simp add: do_save2_def pico_get_def crc_message_def)
qed

text \<open>
  A file on the wire: four bytes, the length of the whole, a name field of 13 bytes and the contents.
\<close>

definition pico_frame :: "u8 list \<Rightarrow> u8 list \<Rightarrow> u8 list \<Rightarrow> u8 list" where
  "pico_frame hdr name payload = hdr @ rev (be32 (of_nat (21 + length payload))) @ name @ payload"

definition field_name :: "u8 list \<Rightarrow> u8 list" where
  "field_name name = takeWhile (\<lambda>c. c \<noteq> 0) (take 12 name)"

text \<open>FatFs: a file that is opened for writing and created is empty, and a write adds to it.\<close>

definition fat_saves :: "'fs fatfs \<Rightarrow> ('fs \<Rightarrow> u8 list \<Rightarrow> u8 list option) \<Rightarrow> ('fs \<Rightarrow> u8 list option) \<Rightarrow> bool" where
  "fat_saves fat files handle \<longleftrightarrow>
     (\<forall>fs name. \<exists>f. ff_open fat 0 name (FA_WRITE OR FA_CREATE_ALWAYS) fs = (FR_OK, f) \<and>
        files f = (files fs)(name \<mapsto> []) \<and> handle f = Some name) \<and>
     (\<forall>fs name bs. handle fs = Some name \<longrightarrow> (\<exists>f. ff_write fat 0 bs fs = (FR_OK, of_nat (length bs), f) \<and>
        files f = (files fs)(name \<mapsto> the (files fs name) @ bs) \<and> handle f = handle fs)) \<and>
     (\<forall>fs. \<exists>f. ff_close fat 0 fs = (FR_OK, f) \<and> files f = files fs)"

lemma take_name: "takeWhile (\<lambda>c. c \<noteq> 0) xs @ [0] = take (Suc (length (takeWhile (\<lambda>c. c \<noteq> 0) xs))) (xs @ [0 :: u8])"
  by (induction xs) auto

lemma frame_in_memory:
  fixes m :: mem
  assumes "length hdr = 4" "length name = 13" "length payload \<le> 65535"
  defines "M \<equiv> (wr_bytes m 0x82000 (pico_frame hdr name payload))(0x82014 := 0)"
  shows "cstr M 0x82008 (field_name name)" "rd_bytes M 0x82015 (length payload) = payload"
    "push_bit 24 (ucast (M 0x82007)) OR push_bit 16 (ucast (M 0x82006)) OR push_bit 8 (ucast (M 0x82005)) OR ucast (M 0x82004) =
      (of_nat (21 + length payload) :: u32)"
proof -
  let ?fr = "pico_frame hdr name payload"
  have l: "length ?fr = 21 + length payload" using assms(1,2) by (simp add: pico_frame_def)
  have at: "M (0x82000 + of_nat k) = ?fr ! k" if "k < length ?fr" "k \<noteq> 20" for k
  proof -
    have "k < 2 ^ 32" using that(1) l assms(3) by simp
    with that(2) have "of_nat k \<noteq> (20 :: u32)" by (simp add: word_unat_eq_iff unat_of_nat take_bit_nat_eq_self)
    then have "(0x82000 :: u32) + of_nat k \<noteq> 0x82014" by (simp add: add_eq_0_iff [symmetric] eq_diff_eq [symmetric] algebra_simps)
    then show ?thesis unfolding M_def using wr_bytes_nth [OF that(1), of m "0x82000"] l assms(3) by simp
  qed
  have z: "M 0x82014 = 0" by (simp add: M_def)
  have nm: "M (0x82008 + of_nat k) = (take 12 name @ [0]) ! k" if "k < 13" for k
  proof (cases "k = 12")
    case True
    then show ?thesis using z assms(2) by (simp add: nth_append)
  next
    case False
    then have "?fr ! (8 + k) = name ! k" using that assms(1,2) by (simp add: pico_frame_def nth_append)
    with at [of "8 + k"] l False that assms(2) show ?thesis by (simp add: nth_append algebra_simps)
  qed
  have r: "rd_bytes M 0x82008 13 = take 12 name @ [0]"
    by (rule nth_equalityI) (use assms(2) nm in \<open>simp_all add: rd_bytes_nth del: rd_bytes.simps\<close>)
  have fl: "length (field_name name) \<le> 12" unfolding field_name_def by (rule order_trans [OF length_takeWhile_le]) simp
  have "rd_bytes M 0x82008 (Suc (length (field_name name))) = take (Suc (length (field_name name))) (rd_bytes M 0x82008 13)"
    by (rule nth_equalityI) (use fl in \<open>simp_all add: rd_bytes_nth del: rd_bytes.simps\<close>)
  then have "rd_bytes M 0x82008 (Suc (length (field_name name))) = field_name name @ [0]"
    unfolding r field_name_def take_name .
  moreover have "0 \<notin> set (field_name name)" unfolding field_name_def by (auto dest: set_takeWhileD)
  ultimately show "cstr M 0x82008 (field_name name)" unfolding cstr_iff by blast
  show "rd_bytes M 0x82015 (length payload) = payload"
  proof (rule nth_equalityI)
    fix i assume "i < length (rd_bytes M 0x82015 (length payload))"
    then have i: "i < length payload" by simp
    then have "?fr ! (21 + i) = payload ! i" using assms(1,2) by (simp add: pico_frame_def nth_append)
    with at [of "21 + i"] l i show "rd_bytes M 0x82015 (length payload) ! i = payload ! i"
      by (simp add: rd_bytes_nth algebra_simps)
  qed simp
  have "?fr ! 4 = ucast v" "?fr ! 5 = ucast (drop_bit 8 v)" "?fr ! 6 = ucast (drop_bit 16 v)" "?fr ! 7 = ucast (drop_bit 24 v)"
    if "v = (of_nat (21 + length payload) :: u32)" for v
    using assms(1) that by (simp_all add: pico_frame_def nth_append be32_def)
  with at [of 4] at [of 5] at [of 6] at [of 7] l
  show "push_bit 24 (ucast (M 0x82007)) OR push_bit 16 (ucast (M 0x82006)) OR push_bit 8 (ucast (M 0x82005)) OR ucast (M 0x82004) =
      (of_nat (21 + length payload) :: u32)"
    using of_be32_be32 [of "of_nat (21 + length payload)"] by (simp add: of_be32_def)
qed

text \<open>C28: An intact file is on the disk afterwards, under the name in the file and with its contents.\<close>

theorem intact_file_saved:
  assumes "pico_sends env left n (file_crc (pico_frame hdr name payload))" "devices_keep env (\<lambda>fs. (files fs, handle fs))"
    and "fat_saves (be_fat (de_bios (pe_disk env))) files handle"
    and "left (b_fs st) = pico_frame hdr name payload" "length hdr = 4" "length name = 13" "payload \<noteq> []" "21 + length payload = unat n"
  shows "\<exists>st'. do_save2 env argv st = Some st' \<and> files (b_fs st') = (files (b_fs st))(field_name name \<mapsto> payload)"
proof -
  let ?fr = "pico_frame hdr name payload"
  have p: "length payload \<le> 65535" using assms(8) unsigned_less [of n, where 'a = nat] by simp
  have l: "length ?fr = unat n" "4 \<le> length ?fr" using assms(5,6,8) by (simp_all add: pico_frame_def)
  have "\<exists>v f. pe_in env PICO_STATUS_REG (b_fs st) = (v, f) \<and> v \<noteq> PICO_STATE_IDLE \<and> left f = left (b_fs st)"
    using assms(1) unfolding pico_sends_def by blast
  then obtain v f where f: "pe_in env PICO_STATUS_REG (b_fs st) = (v, f)" "v \<noteq> PICO_STATE_IDLE" "left f = left (b_fs st)" by blast
  have v: "\<not> v < 1" using f(2) by (simp add: PICO_STATE_IDLE_def word_less_nat_alt unat_eq_0)
  have k: "files f = files (b_fs st)" using assms(2) f(1) unfolding devices_keep_def by (metis prod.inject snd_conv)
  let ?M = "(wr_bytes (b_mem st) 0x82000 ?fr)(0x82014 := 0)"
  from file_received [OF assms(1,2), of "st\<lparr>b_fs := f\<rparr>" ?fr "[]" "0x82000" 0] f(3) assms(4) l obtain f2 where
    f2: "noblk_receber_arquivo_do_pico env 0x82000 0 (st\<lparr>b_fs := f\<rparr>) = (True, st\<lparr>b_fs := f2, b_mem := wr_bytes (b_mem st) 0x82000 ?fr\<rparr>)"
      "files f2 = files f" by auto
  note m = frame_in_memory [OF assms(5,6) p, of "b_mem st"]
  have t: "of_nat (21 + length payload) - 0x15 = (of_nat (length payload) :: u32)" by simp
  have u: "unat (of_nat (length payload) :: u32) = length payload" using p by (simp add: unat_of_nat take_bit_nat_eq_self)
  then have nz: "of_nat (length payload) \<noteq> (0 :: u32)" using assms(7) by (metis length_0_conv unat_0)
  let ?v1 = "pe_video_puts env (bytes_of ''Creating file...'' @ [10]) f2"
  have v1: "files ?v1 = files f2" using assms(2) by (simp add: devices_keep_def)
  obtain f3 where f3: "ff_open (be_fat (de_bios (pe_disk env))) 0 (field_name name) (FA_WRITE OR FA_CREATE_ALWAYS) ?v1 = (FR_OK, f3)"
    "files f3 = (files ?v1)(field_name name \<mapsto> [])" "handle f3 = Some (field_name name)"
    using assms(3) unfolding fat_saves_def by blast
  let ?v2 = "pe_video_puts env (bytes_of ''Writting file...'' @ [10]) f3"
  have v2: "files ?v2 = files f3" "handle ?v2 = Some (field_name name)" using assms(2) f3(3) by (simp_all add: devices_keep_def)
  obtain f4 where f4: "ff_write (be_fat (de_bios (pe_disk env))) 0 payload ?v2 = (FR_OK, of_nat (length payload), f4)"
    "files f4 = (files ?v2)(field_name name \<mapsto> the (files ?v2 (field_name name)) @ payload)"
    using assms(3) v2(2) unfolding fat_saves_def by blast
  let ?v3 = "pe_video_puts env (bytes_of ''Closing file...'' @ [10]) f4"
  obtain f5 where f5: "ff_close (be_fat (de_bios (pe_disk env))) 0 ?v3 = (FR_OK, f5)" "files f5 = files ?v3"
    using assms(3) unfolding fat_saves_def by blast
  have v3: "files ?v3 = files f4" using assms(2) by (simp add: devices_keep_def)
  let ?f6 = "pe_ring_put env 0x0D (pe_ring_put env 0x0A f5)"
  have "files ?f6 = files f5" using assms(2) by (simp add: devices_keep_def)
  then have "files ?f6 = (files (b_fs st))(field_name name \<mapsto> payload)"
    using f5(2) v3 f4(2) v2(1) f3(2) v1 f2(2) k by simp
  moreover have "do_save2 env argv st = Some (st\<lparr>b_mem := ?M, b_fs := ?f6\<rparr>)"
    using f(1,2) v f2(1) f3(1) f4(1) f5(1) m u nz t text_at_cstr [OF m(1)]
    by (simp add: do_save2_def pico_get_def video_puts_def d_open_def d_write_def d_close_def FR_OK_def mem_then_fs del: rd_bytes.simps)
  ultimately show ?thesis by auto
qed

section \<open>A Pico of the model\<close>

record pico_world =
  pw_left :: "u8 list"
  pw_files :: "u8 list \<Rightarrow> u8 list option"
  pw_handle :: "u8 list option"

definition model_pico_in :: "u16 \<Rightarrow> u32 \<Rightarrow> u32 \<Rightarrow> pico_world \<Rightarrow> u8 \<times> pico_world" where
  "model_pico_in n crc r w =
     (if r = PICO_DATA_REG then (case pw_left w of [] \<Rightarrow> (0, w) | b # bs \<Rightarrow> (b, w\<lparr>pw_left := bs\<rparr>))
      else if r = PICO_STATUS_REG then (1, w)
      else if r = PICO_SIZE_HIGH then (ucast (drop_bit 8 n), w) else if r = PICO_SIZE_LOW then (ucast n, w)
      else if r = PICO_CRC_REG3 then (ucast (drop_bit 24 crc), w) else if r = PICO_CRC_REG2 then (ucast (drop_bit 16 crc), w)
      else if r = PICO_CRC_REG1 then (ucast (drop_bit 8 crc), w) else if r = PICO_CRC_REG0 then (ucast crc, w)
      else (0, w))"

definition model_pico :: "u16 \<Rightarrow> u32 \<Rightarrow> pico_world pico_env" where
  "model_pico n crc = \<lparr>pe_disk =
       \<lparr>de_bios = \<lparr>be_fat = \<lparr>ff_open = (\<lambda>fil path mode w. (0, w\<lparr>pw_files := (pw_files w)(path \<mapsto> []), pw_handle := Some path\<rparr>)),
            ff_close = (\<lambda>fil w. (0, w\<lparr>pw_handle := None\<rparr>)), ff_read = (\<lambda>fil n w. (0, [], w)),
            ff_write = (\<lambda>fil bs w. (case pw_handle w of None \<Rightarrow> (9, 0, w)
              | Some path \<Rightarrow> (0, of_nat (length bs), w\<lparr>pw_files := (pw_files w)(path \<mapsto> the (pw_files w path) @ bs)\<rparr>))),
            ff_lseek = (\<lambda>fil p w. (0, w)), ff_tell = (\<lambda>fil w. 0), ff_size = (\<lambda>fil w. 0)\<rparr>, be_lit = (\<lambda>_. 0x1000), be_fileext = 0x2000,
          be_chdrive = (\<lambda>path w. (0, w)), be_command = (\<lambda>fn argv st. None), be_run = (\<lambda>entry argv st. None)\<rparr>,
        de_chdir = (\<lambda>p w. (5, w)), de_unlink = (\<lambda>p w. (4, w)), de_mkdir = (\<lambda>p w. (8, w)), de_rmdir = (\<lambda>p w. (5, w)),
        de_rename = (\<lambda>p q w. (4, w)), de_mount = (\<lambda>v p w. (0, w)), de_opendir = (\<lambda>p w. (5, w)),
        de_readdir = (\<lambda>w. (0, \<lparr>fe_name = [], fe_attrib = 0, fe_date = 0, fe_time = 0, fe_size = 0\<rparr>, w)), de_closedir = (\<lambda>w. w),
        de_ide_mode = (\<lambda>m w. w), de_key_waits = (\<lambda>st. False), de_tick = (\<lambda>st. 0), de_registers = (\<lambda>st. st),
        de_syspath = 0x200, de_path = 0x400, de_arquivo = 0x500, de_buffer = 0x600, de_text = 0x900, de_fname = 0xA00\<rparr>,
     pe_in = model_pico_in n crc, pe_out = (\<lambda>r v w. w), pe_delay = (\<lambda>w. w), pe_delay_ms = (\<lambda>w. w), pe_uart_read = (\<lambda>w. None),
     pe_uart_write = (\<lambda>c w. w), pe_video_puts = (\<lambda>t w. w), pe_progress = (\<lambda>i k w. w), pe_ring_put = (\<lambda>c w. w),
     pe_setcolor = (\<lambda>c w. w), pe_led = (\<lambda>b w. w)\<rparr>"

lemmas pico_registers = PICO_DATA_REG_def PICO_STATUS_REG_def PICO_SIZE_HIGH_def PICO_SIZE_LOW_def PICO_CRC_REG3_def PICO_CRC_REG2_def
  PICO_CRC_REG1_def PICO_CRC_REG0_def

lemma model_pico_behaves:
  "pico_sends (model_pico n crc) pw_left n crc" "devices_keep (model_pico n crc) (\<lambda>w. (pw_files w, pw_handle w))"
  "fat_saves (be_fat (de_bios (pe_disk (model_pico n crc)))) pw_files pw_handle"
  by (simp_all add: pico_sends_def devices_keep_def fat_saves_def model_pico_def model_pico_in_def pico_registers PICO_STATE_IDLE_def FR_OK_def
      split: list.split)

definition demo_frame :: "u8 \<Rightarrow> u8 list" where
  "demo_frame b = pico_frame [1, 2, 3, 4] ([65, 46, 84] @ replicate 10 0) [72, b]"

definition demo_pico_state :: "u8 \<Rightarrow> pico_world bios" where
  "demo_pico_state b = \<lparr>b_mem = wr_bytes (\<lambda>_. 0) 0x1000 crc_message, b_in = [], b_out = [], b_count = 0,
     b_fs = \<lparr>pw_left = demo_frame b, pw_files = Map.empty, pw_handle = None\<rparr>\<rparr>"

text \<open>The file \<open>A.T\<close> with the two characters \<open>Hi\<close>.\<close>

theorem intact_file_saved_witness:
  "\<exists>st'. do_save2 (model_pico 23 (file_crc (demo_frame 105))) [] (demo_pico_state 105) = Some st' \<and>
    pw_files (b_fs st') = [[65, 46, 84] \<mapsto> [72, 105]]"
proof -
  have "field_name ([65, 46, 84] @ replicate 10 0) = [65, 46, 84]" by code_simp
  with intact_file_saved [OF model_pico_behaves(1) [of 23 "file_crc (demo_frame 105)", unfolded demo_frame_def] model_pico_behaves(2,3), of
      "demo_pico_state 105"]
  show ?thesis by (simp add: demo_pico_state_def demo_frame_def)
qed

text \<open>The same file with one bit of its last character changed.\<close>

theorem damaged_file_not_saved_witness:
  "\<exists>st'. do_save2 (model_pico 23 (file_crc (demo_frame 105))) [] (demo_pico_state 104) = Some st' \<and> pw_files (b_fs st') = Map.empty"
proof -
  define xs where "xs = butlast (demo_frame 0)"
  have d: "demo_frame b = xs @ b # []" for b by (simp add: xs_def demo_frame_def pico_frame_def butlast_append)
  have l: "length xs = 22" by (simp add: xs_def demo_frame_def pico_frame_def)
  have "cstr (wr_bytes (b_mem (demo_pico_state 104)) 0x82000 (demo_frame 104)) 0x1000 crc_message" by code_simp
  then have c: "cstr (wr_bytes (b_mem (demo_pico_state 104)) 0x82000 (xs @ 104 # []))
      (be_lit (de_bios (pe_disk (model_pico 23 (file_crc (demo_frame 105))))) crc_message) crc_message"
    by (simp add: d [symmetric] model_pico_def)
  from damaged_file_not_saved [OF model_pico_behaves(1) [of 23 "file_crc (demo_frame 105)", unfolded d] model_pico_behaves(2) _ _ _ _
      c [unfolded d], of "[]"] l
  show ?thesis by (auto simp: demo_pico_state_def d)
qed

end
