(* ===== verification/BiosLoad.thy ===== *)
theory BiosLoad
  imports PicoFile
begin

text \<open>
  The second loader of ELF programs (\<^verbatim>\<open>apps/bios/shell/elf_loader.c\<close>), from memory and from a file, the
  commands that enter what it loaded, and loading and saving for the BASIC interpreter behind trap 12
  (\<^verbatim>\<open>apps/bios/shell/commands.c\<close>).  \<open>None\<close>: a text has no end, a program does not return, or the
  68000 traps because a word is at an odd address.
\<close>

section \<open>An ELF image in memory\<close>

definition PT_LOAD :: u32 where "PT_LOAD = 1"

text \<open>One program header at \<open>phdr\<close>.\<close>

definition carregar_segmento :: "u32 \<Rightarrow> u32 \<Rightarrow> u32 \<Rightarrow> mem \<Rightarrow> mem option" where
  "carregar_segmento elf_buf ram_destino phdr m =
     (if odd phdr then None
      else if rd32 m phdr = PT_LOAD then
        let dest_addr = ram_destino + rd32 m (phdr + 12);
            m = (if rd32 m (phdr + 16) > 0 then snd (memcpy m dest_addr (elf_buf + rd32 m (phdr + 4)) (rd32 m (phdr + 16))) else m)
        in Some (if rd32 m (phdr + 20) > rd32 m (phdr + 16)
                 then memset m (dest_addr + rd32 m (phdr + 16)) 0 (rd32 m (phdr + 20) - rd32 m (phdr + 16)) else m)
      else Some m)"

text \<open>The loop reads the header anew each time: a segment may lie over it.\<close>

function carregar_loop :: "u32 \<Rightarrow> u32 \<Rightarrow> u16 \<Rightarrow> mem \<Rightarrow> mem option" where
  "carregar_loop elf_buf ram_destino i m =
     (if i < rd16 m (elf_buf + 0x2C) then
        Option.bind (carregar_segmento elf_buf ram_destino
            (elf_buf + (rd32 m (elf_buf + 0x1C) + ucast i * ucast (rd16 m (elf_buf + 0x2A)))) m)
          (carregar_loop elf_buf ram_destino (i + 1))
      else Some m)"
  by pat_completeness auto
termination
proof (relation "measure (\<lambda>(_, _, i, _). 2 ^ 16 - unat i)")
  fix elf_buf ram_destino and i :: u16 and m m'
  assume "i < rd16 m (elf_buf + 0x2C)"
  then have "unat i < 2 ^ 16 - 1"
    using unsigned_less [of "rd16 m (elf_buf + 0x2C)", where 'a = nat] by (simp add: word_less_nat_alt)
  then show "((elf_buf, ram_destino, i + 1, m'), elf_buf, ram_destino, i, m) \<in> measure (\<lambda>(_, _, i, _). 2 ^ 16 - unat i)"
    by (simp add: unat_word_ariths)
qed simp

declare carregar_loop.simps [simp del]

definition carregar_elf32 :: "u32 \<Rightarrow> u32 \<Rightarrow> mem \<Rightarrow> (u32 \<times> mem) option" where
  "carregar_elf32 elf_buf ram_destino m =
     (if m elf_buf \<noteq> 0x7F \<or> m (elf_buf + 1) \<noteq> 69 \<or> m (elf_buf + 2) \<noteq> 76 \<or> m (elf_buf + 3) \<noteq> 70 then Some (0, m)
      else if odd elf_buf then None
      else map_option (\<lambda>m. (rd32 m (elf_buf + 0x18), m)) (carregar_loop elf_buf ram_destino 0 m))"

section \<open>An ELF file\<close>

text \<open>The results of seeking and reading a segment are not looked at.\<close>

definition carregar_segmento_fatfs :: "'fs disk_env \<Rightarrow> program_header \<Rightarrow> 'fs bios \<Rightarrow> 'fs bios" where
  "carregar_segmento_fatfs env ph st =
     (let dest_ram = ph_paddr ph;
          st = (if ph_filesz ph > 0 then snd (snd (d_read env 0 dest_ram (ph_filesz ph) (b_lseek (de_bios env) 0 (ph_offset ph) st)))
                else st)
      in if ph_memsz ph > ph_filesz ph
         then st\<lparr>b_mem := memset (b_mem st) (dest_ram + ph_filesz ph) 0 (ph_memsz ph - ph_filesz ph)\<rparr> else st)"

text \<open>
  \<open>phdr\<close> are the 32 bytes of the local structure, which keeps its place on the stack: where fewer are
  read, the rest is what was there.
\<close>

fun carregar_fatfs_loop :: "'fs disk_env \<Rightarrow> u8 list \<Rightarrow> nat list \<Rightarrow> u8 list \<Rightarrow> 'fs bios \<Rightarrow> bool \<times> 'fs bios" where
  "carregar_fatfs_loop env h [] phdr st = (True, st)"
| "carregar_fatfs_loop env h (i # is) phdr st =
     (let st = b_lseek (de_bios env) 0 (get32 h 0x1C + of_nat i * ucast (get16 h 0x2A)) st;
          (fr, bs, st) = b_read (de_bios env) 0 32 st;
          phdr = bs @ drop (length bs) phdr;
          ph = program_header_of phdr
      in if fr \<noteq> FR_OK then (False, st)
         else carregar_fatfs_loop env h is phdr (if ph_type ph = PT_LOAD then carregar_segmento_fatfs env ph st else st))"

definition carregar_elf32_fatfs :: "'fs disk_env \<Rightarrow> u8 list \<Rightarrow> u32 \<Rightarrow> 'fs bios \<Rightarrow> (u32 \<times> 'fs bios) option" where
  "carregar_elf32_fatfs env phdr caminho st = do {
     (fr, st) \<leftarrow> d_open env 0 caminho FA_READ st;
     if fr \<noteq> FR_OK then Some (0, st)
     else do {
       let (fr, h, st) = b_read (de_bios env) 0 52 st;
       if fr \<noteq> FR_OK \<or> length h < 52 then Some (0, snd (d_close env 0 st))
       else if h ! 0 \<noteq> 0x7F \<or> h ! 1 \<noteq> 69 \<or> h ! 2 \<noteq> 76 \<or> h ! 3 \<noteq> 70 \<or> h ! 5 \<noteq> 2 then Some (0, snd (d_close env 0 st))
       else if odd (get32 h 0x18) then Some (0, snd (d_close env 0 st))
       else do {
         let (ok, st) = carregar_fatfs_loop env h [0..<unat (get16 h 0x2C)] phdr st;
         Some (if ok then get32 h 0x18 else 0, snd (d_close env 0 st)) } } }"

section \<open>Commands\<close>

definition do_runelf_fromhd :: "'fs disk_env \<Rightarrow> u8 list \<Rightarrow> u32 list \<Rightarrow> 'fs bios \<Rightarrow> 'fs bios option" where
  "do_runelf_fromhd env phdr argv st = do {
     (entry, st) \<leftarrow> carregar_elf32_fatfs env phdr (argv ! 0) st;
     if entry \<noteq> 0 then map_option snd (be_run (de_bios env) entry [] st) else Some st }"

text \<open>The words of the command are not read as numbers: their addresses are taken for the image and its place.\<close>

definition do_runelf :: "'fs disk_env \<Rightarrow> u32 list \<Rightarrow> 'fs bios \<Rightarrow> 'fs bios option" where
  "do_runelf env argv st = do {
     (entry_point, m) \<leftarrow> carregar_elf32 (argv ! 0) (argv ! 1) (b_mem st);
     let st = st\<lparr>b_mem := m\<rparr>;
     if entry_point \<noteq> 0 then map_option snd (be_run (de_bios env) entry_point [] st) else Some st }"

definition do_notimplemented :: "'fs disk_env \<Rightarrow> u32 list \<Rightarrow> 'fs bios \<Rightarrow> 'fs bios option" where
  "do_notimplemented env argv st = d_print_line env ''This command is currently not implemented'' [] st"

section \<open>Loading and saving for BASIC\<close>

text \<open>A number stored through a pointer that may be null.\<close>

definition store_count :: "u32 \<Rightarrow> u32 \<Rightarrow> 'fs bios \<Rightarrow> 'fs bios option" where
  "store_count p v st =
     (if p = 0 then Some st else if odd p then None else Some (st\<lparr>b_mem := wr32 (b_mem st) p v\<rparr>))"

text \<open>\<open>buffer\<close> is still null where a file that is too long is reported: the zero goes to address 0.\<close>

definition do_load_basic :: "'fs disk_env \<Rightarrow> int \<Rightarrow> u32 list \<Rightarrow> heap \<times> 'fs bios \<Rightarrow> (int \<times> heap \<times> 'fs bios) option" where
  "do_load_basic env argc argv s = do {
     let (h, st) = s;
     let size_buffer = argv ! 2;
     (fr, st) \<leftarrow> d_open env 0 (argv ! 0) FA_READ st;
     if fr = FR_OK then do {
       let len = ff_size (d_fat env) 0 (b_fs st);
       if len > size_buffer then do {
         st \<leftarrow> d_print_line env ''Unable to load file, file bigger than buffer.'' [] st;
         Some (- 1, h, snd (d_close env 0 (st\<lparr>b_mem := (b_mem st)(0 := 0)\<rparr>))) }
       else do {
         let buffer = argv ! 1;
         let (fr, bytes_read, st) = d_read env 0 buffer len st;
         if fr \<noteq> FR_OK then do {
           st \<leftarrow> d_print_line env ''Unable to load file.'' [] st;
           Some (- 1, h, snd (d_close env 0 st)) }
         else do {
           st \<leftarrow> store_count (argv ! 3) bytes_read st;
           st \<leftarrow> d_print_line env ''Loaded %d bytes from file %s to location %lX'' [bytes_read, argv ! 0, buffer] st;
           h \<leftarrow> (if argc = 1 then map_option snd (free buffer h) else Some h);
           Some (0, h, snd (d_close env 0 st)) } } }
     else do {
       st \<leftarrow> d_print_line env ''Unable to open file %s'' [argv ! 0] st;
       h \<leftarrow> (if argc = 1 then map_option snd (free 0 h) else Some h);
       Some (0, h, snd (d_close env 0 st)) } }"

definition do_save_basic :: "'fs disk_env \<Rightarrow> int \<Rightarrow> u32 list \<Rightarrow> 'fs bios \<Rightarrow> (int \<times> 'fs bios) option" where
  "do_save_basic env argc argv st =
     (let origem = argv ! 1; nome_arquivo = argv ! 0
      in if argc < 2 then map_option (Pair (- 1)) (d_print_line env ''uso: save <nome_arquivo> <tamanho_hex>'' [] st)
         else do {
           let tamanho = argv ! 2;
           st \<leftarrow> d_print_line env ''Save file [%s] size of %d'' [nome_arquivo, tamanho] st;
           if origem = 0 \<or> nome_arquivo = 0 \<or> tamanho = 0 then
             map_option (Pair (- 1)) (d_print_line env ''dump_memoria_para_arquivo: parametros invalidos'' [] st)
           else do {
             (fr, st) \<leftarrow> d_open env 0 nome_arquivo (FA_WRITE OR FA_CREATE_ALWAYS) st;
             if fr \<noteq> FR_OK then
               map_option (Pair (- 1)) (d_print_line env (quoted ''abrir'' ''(erro %d)'') [nome_arquivo, ucast fr] st)
             else do {
               let (fr, bytes_escritos, st) = d_write env 0 origem tamanho st;
               if fr \<noteq> FR_OK \<or> bytes_escritos \<noteq> tamanho then do {
                 st \<leftarrow> d_print_line env (quoted ''escrever'' ''(erro %d, escrito %u de %u bytes)'')
                        [nome_arquivo, ucast fr, bytes_escritos, tamanho] st;
                 Some (- 1, snd (d_close env 0 st)) }
               else do {
                 st \<leftarrow> store_count (argv ! 3) bytes_escritos st;
                 let (fr, st) = d_close env 0 st;
                 if fr \<noteq> FR_OK then
                   map_option (Pair (- 1)) (d_print_line env (quoted ''fechar'' ''(erro %d)'') [nome_arquivo, ucast fr] st)
                 else
                   map_option (Pair 0) (d_print_line env (''dump_memoria_para_arquivo: '' @ [CHR 39] @ ''%s'' @ [CHR 39] @
                     '' gravado com sucesso (%u bytes)'') [nome_arquivo, tamanho] st) } } } })"

end
