(* ===== verification/LoadImage.thy ===== *)
theory LoadImage
  imports BiosLoad
begin

text \<open>
  The loader of \<^verbatim>\<open>apps/bios/shell/elf_loader.c\<close> gives the same memory from an image in memory and from
  a file, and what BASIC saves is what it loads again.
\<close>

section \<open>An image in memory\<close>

definition image_at :: "mem \<Rightarrow> u32 \<Rightarrow> u8 list \<Rightarrow> bool" where
  "image_at m p F \<longleftrightarrow> length F < 2 ^ 32 \<and> rd_bytes m p (length F) = F"

lemma image_byte: "image_at m p F \<Longrightarrow> i < length F \<Longrightarrow> m (p + of_nat i) = F ! i"
  unfolding image_at_def by (metis rd_bytes_nth)

lemma image_word:
  assumes "image_at m p F"
  shows "i + 4 \<le> length F \<Longrightarrow> rd32 m (p + of_nat i) = get32 F i"
    and "i + 2 \<le> length F \<Longrightarrow> rd16 m (p + of_nat i) = get16 F i"
  using image_byte [OF assms, of i] image_byte [OF assms, of "i + 1"] image_byte [OF assms, of "i + 2"] image_byte [OF assms, of "i + 3"]
  by (simp_all add: rd32_def rd16_def get32_def get16_def ac_simps)

lemma image_bytes:
  assumes "image_at m p F" "i + n \<le> length F"
  shows "rd_bytes m (p + of_nat i) n = take n (drop i F)"
  by (rule nth_equalityI) (use assms image_byte [OF assms(1), of "i + _"] in \<open>simp_all add: rd_bytes_nth add.assoc\<close>)

text \<open>A block that does not touch the image.\<close>

definition off_image :: "u32 \<Rightarrow> nat \<Rightarrow> u32 \<Rightarrow> u8 list \<Rightarrow> bool" where
  "off_image a n p F \<longleftrightarrow> n \<le> 2 ^ 32 \<and> (\<forall>x. in_block a n x \<longrightarrow> \<not> in_block p (length F) x)"

lemma image_kept:
  assumes "image_at m p F" "off_image a (length bs) p F"
  shows "image_at (wr_bytes m a bs) p F"
proof -
  have "rd_bytes (wr_bytes m a bs) p (length F) = rd_bytes m p (length F)"
    using assms by (intro rd_bytes_cong) (auto simp: image_at_def off_image_def wr_bytes_apply)
  then show ?thesis using assms(1) by (simp add: image_at_def)
qed

lemma get32_take: "i + 4 \<le> n \<Longrightarrow> n \<le> length F \<Longrightarrow> get32 (take n F) i = get32 F i"
  by (simp add: get32_def)

lemma get16_take: "i + 2 \<le> n \<Longrightarrow> n \<le> length F \<Longrightarrow> get16 (take n F) i = get16 F i"
  by (simp add: get16_def)

section \<open>Loading from memory\<close>

definition moved :: "u32 \<Rightarrow> program_header \<Rightarrow> program_header" where
  "moved ram ph = ph\<lparr>ph_paddr := ram + ph_paddr ph\<rparr>"

lemma moved_fields [simp]: "ph_type (moved ram ph) = ph_type ph" "ph_offset (moved ram ph) = ph_offset ph"
  "ph_paddr (moved ram ph) = ram + ph_paddr ph" "ph_filesz (moved ram ph) = ph_filesz ph" "ph_memsz (moved ram ph) = ph_memsz ph"
  by (simp_all add: moved_def)

lemma segment_image_moved [simp]: "segment_image F (moved ram ph) = segment_image F ph"
  by (simp add: segment_image_def)

text \<open>The place of a program header in the file.\<close>

definition header_offset :: "u8 list \<Rightarrow> nat \<Rightarrow> u32" where
  "header_offset F i = of_nat i * ucast (get16 (take 52 F) 0x2A) + get32 (take 52 F) 0x1C"

lemma header_at_eq: "header_at F i = program_header_of (take 32 (drop (unat (header_offset F i)) F))"
  by (simp only: header_at_def header_offset_def)

lemma program_header_of_append: "length bs = 32 \<Longrightarrow> program_header_of (bs @ cs) = program_header_of bs"
  by (simp add: program_header_of_def get32_def nth_append)

lemma header_at_fields:
  assumes "unat (header_offset F i) + 32 \<le> length F"
  defines "ph \<equiv> header_at F i" and "k \<equiv> unat (header_offset F i)"
  shows "ph_type ph = get32 F k" "ph_offset ph = get32 F (k + 4)" "ph_paddr ph = get32 F (k + 12)"
    "ph_filesz ph = get32 F (k + 16)" "ph_memsz ph = get32 F (k + 20)"
proof -
  have h: "ph = program_header_of (take 32 (drop k F))"
    by (simp only: ph_def k_def header_at_eq)
  show "ph_type ph = get32 F k" "ph_offset ph = get32 F (k + 4)" "ph_paddr ph = get32 F (k + 12)"
    "ph_filesz ph = get32 F (k + 16)" "ph_memsz ph = get32 F (k + 20)"
    using assms(1) unfolding h k_def [symmetric] by (simp_all add: program_header_of_def get32_def ac_simps)
qed

lemma copied_from_image:
  assumes im: "image_at m p F" and s: "unat off + unat n \<le> length F" and d: "off_image d (unat n) p F"
  shows "(if n > 0 then snd (memcpy m d (p + off) n) else m) = wr_bytes m d (take (unat n) (drop (unat off) F))"
proof (cases "n > 0")
  case False
  then have "n = 0" by (simp add: word_gt_0)
  then show ?thesis by simp
next
  case True
  have "unat n \<le> unat (d - (p + off))"
  proof (rule ccontr)
    assume c: "\<not> unat n \<le> unat (d - (p + off))"
    have "unat (d - p) = unat (d - (p + off)) + unat off"
    proof -
      have l: "unat (d - (p + off)) + unat off < 2 ^ 32" using c s im by (simp add: image_at_def)
      have "d - p = (d - (p + off)) + off" by simp
      then show ?thesis using l by (simp only: unat_word_ariths) simp
    qed
    then have "in_block p (length F) d" using c s by (simp add: in_block_def)
    moreover have "in_block d (unat n) d" using True by (simp add: in_block_self word_gt_0 unat_gt_0)
    ultimately show False using d by (auto simp: off_image_def)
  qed
  then have "snd (memcpy m d (p + off) n) = wr_bytes m d (rd_bytes m (p + off) (unat n))"
    using unat_less_32 [of n] by (simp add: memcpy_def memcpy_loop_forward)
  with image_bytes [OF im s] True show ?thesis by simp
qed

text \<open>What a header has to be like for its segment to be loaded.\<close>

definition loadable_header :: "u8 list \<Rightarrow> program_header \<Rightarrow> bool" where
  "loadable_header F ph \<longleftrightarrow> (ph_type ph = PT_LOAD \<longrightarrow> unat (ph_offset ph) + unat (ph_filesz ph) \<le> length F)"

definition clear_of_image :: "u32 \<Rightarrow> u8 list \<Rightarrow> program_header \<Rightarrow> bool" where
  "clear_of_image p F ph \<longleftrightarrow> (ph_type ph = PT_LOAD \<longrightarrow> off_image (ph_paddr ph) (length (segment_image F ph)) p F)"

lemma off_image_less: "off_image a n p F \<Longrightarrow> k \<le> n \<Longrightarrow> off_image a k p F"
  by (auto simp: off_image_def in_block_def)

lemma carregar_segmento_places:
  fixes ram :: u32
  assumes im: "image_at m p F" and k: "unat (header_offset F i) + 32 \<le> length F" and ev: "even (p + header_offset F i)"
    and ph: "loadable_header F (header_at F i)" "clear_of_image p F (moved ram (header_at F i))"
  shows "carregar_segmento p ram (p + header_offset F i) m = Some (place_segments F [moved ram (header_at F i)] m)"
    and "image_at (place_segments F [moved ram (header_at F i)] m) p F"
proof -
  let ?ph = "header_at F i" and ?k = "unat (header_offset F i)"
  let ?m = "\<lambda>m. wr_bytes m (ram + ph_paddr ?ph) (take (unat (ph_filesz ?ph)) (drop (unat (ph_offset ?ph)) F))"
  note fields = header_at_fields [OF k]
  have rd: "rd32 m' (p + header_offset F i) = ph_type ?ph" "rd32 m' (p + header_offset F i + 4) = ph_offset ?ph"
    "rd32 m' (p + header_offset F i + 12) = ph_paddr ?ph" "rd32 m' (p + header_offset F i + 16) = ph_filesz ?ph"
    "rd32 m' (p + header_offset F i + 20) = ph_memsz ?ph" if "image_at m' p F" for m'
    using image_word(1) [OF that, of ?k] image_word(1) [OF that, of "?k + 4"] image_word(1) [OF that, of "?k + 12"]
      image_word(1) [OF that, of "?k + 16"] image_word(1) [OF that, of "?k + 20"] k
    by (simp_all add: fields add.assoc)
  have "carregar_segmento p ram (p + header_offset F i) m = Some (place_segments F [moved ram ?ph] m) \<and>
    image_at (place_segments F [moved ram ?ph] m) p F"
  proof (cases "ph_type ?ph = PT_LOAD")
    case False
    then show ?thesis using rd(1) [OF im] im ev by (simp add: carregar_segmento_def PT_LOAD_def)
  next
    case True
    have s: "unat (ph_offset ?ph) + unat (ph_filesz ?ph) \<le> length F" using ph(1) True by (simp add: loadable_header_def)
    then have len: "length (take (unat (ph_filesz ?ph)) (drop (unat (ph_offset ?ph)) F)) = unat (ph_filesz ?ph)" by simp
    have d: "off_image (ram + ph_paddr ?ph) (length (segment_image F ?ph)) p F"
      using ph(2) True by (simp add: clear_of_image_def)
    then have d2: "off_image (ram + ph_paddr ?ph) (unat (ph_filesz ?ph)) p F"
      by (rule off_image_less) (use len in \<open>simp add: segment_image_def\<close>)
    note cp = copied_from_image [OF im s d2]
    have im2: "image_at (?m m) p F" using image_kept [OF im] d2 len by simp
    have "carregar_segmento p ram (p + header_offset F i) m = Some (if ph_memsz ?ph > ph_filesz ?ph
        then memset (?m m) (ram + ph_paddr ?ph + ph_filesz ?ph) 0 (ph_memsz ?ph - ph_filesz ?ph) else ?m m)"
      unfolding carregar_segmento_def Let_def by (simp only: rd [OF im] cp rd [OF im2] True ev simp_thms if_True if_False)
    also have "\<dots> = Some (wr_bytes m (ram + ph_paddr ?ph) (segment_image F ?ph))"
      using segment_zeros [of "take (unat (ph_filesz ?ph)) (drop (unat (ph_offset ?ph)) F)" "moved ram ?ph" m] len
      by (cases "ph_filesz ?ph < ph_memsz ?ph") (simp_all add: segment_image_def)
    finally show ?thesis using True image_kept [OF im d] by (simp add: PT_LOAD_def)
  qed
  then show "carregar_segmento p ram (p + header_offset F i) m = Some (place_segments F [moved ram ?ph] m)"
    "image_at (place_segments F [moved ram ?ph] m) p F" by simp_all
qed

text \<open>An ELF file that both loaders accept, and its image at \<open>p\<close> for a program moved by \<open>ram\<close>.\<close>

definition loadable :: "u8 list \<Rightarrow> bool" where
  "loadable F \<longleftrightarrow> 52 \<le> length F \<and> F ! 0 = 0x7F \<and> F ! 1 = 69 \<and> F ! 2 = 76 \<and> F ! 3 = 70 \<and> F ! 5 = 2 \<and> even (get32 F 0x18) \<and>
     (\<forall>i < unat (get16 (take 52 F) 0x2C). unat (header_offset F i) + 32 \<le> length F \<and> loadable_header F (header_at F i))"

definition image_ready :: "u32 \<Rightarrow> u32 \<Rightarrow> u8 list \<Rightarrow> bool" where
  "image_ready p ram F \<longleftrightarrow> even p \<and> (\<forall>i < unat (get16 (take 52 F) 0x2C). even (header_offset F i) \<and>
     clear_of_image p F (moved ram (header_at F i)))"

lemma place_segments_append: "place_segments F (xs @ ys) m = place_segments F ys (place_segments F xs m)"
  by (induction xs arbitrary: m) simp_all

lemma carregar_loop_places:
  assumes F: "loadable F" "image_ready p ram F" and im: "image_at m p F" and i: "unat i \<le> unat (get16 (take 52 F) 0x2C)"
  defines "rest \<equiv> \<lambda>j m. place_segments F (List.map (moved ram \<circ> header_at F) [j..<unat (get16 (take 52 F) 0x2C)]) m"
  shows "carregar_loop p ram i m = Some (rest (unat i) m) \<and> image_at (rest (unat i) m) p F"
  using im i
proof (induction "unat (get16 (take 52 F) 0x2C) - unat i" arbitrary: i m)
  case z: 0
  have l: "52 \<le> length F" using F by (simp add: loadable_def)
  then have "rd16 m (p + 0x2C) = get16 (take 52 F) 0x2C"
    using image_word(2) [of m p F "0x2C"] z.prems by (simp add: get16_take)
  then show ?case using z by (subst carregar_loop.simps) (simp add: word_less_nat_alt rest_def)
next
  case (Suc k)
  have l: "52 \<le> length F" using F by (simp add: loadable_def)
  let ?n = "unat (get16 (take 52 F) 0x2C)"
  have lt: "unat i < ?n" using Suc.hyps(2) by simp
  then have i1: "unat (i + 1) = Suc (unat i)"
    using unsigned_less [of "get16 (take 52 F) 0x2C", where 'a = nat] by (simp add: unat_word_ariths)
  have up: "rest (unat i) m = rest (unat (i + 1)) (place_segments F [moved ram (header_at F (unat i))] m)"
    using lt i1 by (simp add: rest_def upt_conv_Cons)
  have ok: "unat (header_offset F (unat i)) + 32 \<le> length F" "loadable_header F (header_at F (unat i))"
    "even (p + header_offset F (unat i))" "clear_of_image p F (moved ram (header_at F (unat i)))"
    using F lt by (auto simp: loadable_def image_ready_def)
  note seg = carregar_segmento_places [OF Suc.prems(1) ok(1,3,2,4)]
  have off: "rd32 m (p + 0x1C) + ucast i * ucast (rd16 m (p + 0x2A)) = header_offset F (unat i)"
    using image_word(1) [OF Suc.prems(1), of "0x1C"] image_word(2) [OF Suc.prems(1), of "0x2A"] l
    by (simp add: header_offset_def get16_take get32_take)
  have n: "rd16 m (p + 0x2C) = get16 (take 52 F) 0x2C"
    using image_word(2) [OF Suc.prems(1), of "0x2C"] l by (simp add: get16_take)
  have "carregar_loop p ram i m = carregar_loop p ram (i + 1) (place_segments F [moved ram (header_at F (unat i))] m)"
    using lt seg(1) by (subst carregar_loop.simps) (simp add: off n word_less_nat_alt)
  moreover have "k = ?n - unat (i + 1)" "unat (i + 1) \<le> ?n" using Suc.hyps(2) i1 lt by simp_all
  ultimately show ?case using Suc.hyps(1) [of "i + 1", OF _ seg(2)] unfolding up by simp
qed

lemma carregar_elf32_places:
  assumes "loadable F" "image_ready p ram F" "image_at m p F"
  shows "carregar_elf32 p ram m = Some (get32 F 0x18, place_segments F (List.map (moved ram) (headers F)) m)"
proof -
  have l: "52 \<le> length F" and mg: "F ! 0 = 0x7F" "F ! 1 = 69" "F ! 2 = 76" "F ! 3 = 70"
    using assms(1) by (auto simp: loadable_def)
  have ne: "0 < length F" "1 < length F" "2 < length F" "3 < length F" "0x18 + 4 \<le> length F" using l by linarith+
  have b: "m p = 0x7F" "m (p + 1) = 69" "m (p + 2) = 76" "m (p + 3) = 70"
    using image_byte [OF assms(3) ne(1)] image_byte [OF assms(3) ne(2)] image_byte [OF assms(3) ne(3)] image_byte [OF assms(3) ne(4)] mg
    by simp_all
  from carregar_loop_places [OF assms(1,2,3), of 0] have
    s: "carregar_loop p ram 0 m = Some (place_segments F (List.map (moved ram) (headers F)) m)"
    "image_at (place_segments F (List.map (moved ram) (headers F)) m) p F"
    by (simp_all add: headers_def)
  have e: "rd32 (place_segments F (List.map (moved ram) (headers F)) m) (p + 0x18) = get32 F 0x18"
    using image_word(1) [OF s(2) ne(5)] by simp
  have "even p" using assms(2) by (simp add: image_ready_def)
  then show ?thesis using b s(1) e by (simp add: carregar_elf32_def)
qed

section \<open>Loading from a file\<close>

text \<open>FatFs: the file \<open>name\<close> can be opened and has the bytes \<open>F\<close>; the first read begins at its start.\<close>

definition opens_file :: "'fs fatfs \<Rightarrow> u8 list \<Rightarrow> u8 list \<Rightarrow> ('fs \<Rightarrow> bool) \<Rightarrow> 'fs \<Rightarrow> bool" where
  "opens_file fat name F good fs \<longleftrightarrow> (\<exists>f. ff_open fat 0 name FA_READ fs = (FR_OK, f) \<and>
     (\<forall>n. \<exists>f'. ff_read fat 0 n f = (FR_OK, take (unat n) F, f') \<and> good f'))"

lemma carregar_segmento_fatfs_places:
  assumes f: "file_reads (d_fat env) 0 F good" "good (b_fs st)" and ph: "loadable_header F ph" "ph_type ph = PT_LOAD"
  shows "\<exists>st'. carregar_segmento_fatfs env ph st = st' \<and> good (b_fs st') \<and> b_mem st' = place_segments F [ph] (b_mem st)"
proof -
  let ?bs = "take (unat (ph_filesz ph)) (drop (unat (ph_offset ph)) F)"
  have len: "length ?bs = unat (ph_filesz ph)" using ph by (simp add: loadable_header_def)
  obtain f' where f': "ff_read (d_fat env) 0 (ph_filesz ph) (snd (ff_lseek (d_fat env) 0 (ph_offset ph) (b_fs st))) = (FR_OK, ?bs, f')" "good f'"
    using f unfolding file_reads_def by blast
  have "ph_filesz ph = 0 \<Longrightarrow> wr_bytes (b_mem st) (ph_paddr ph) ?bs = b_mem st" by simp
  then show ?thesis
    using f' f(2) ph(2) segment_zeros [of ?bs ph "b_mem st", OF len] len
    by (cases "ph_filesz ph > 0"; cases "ph_memsz ph > ph_filesz ph")
      (auto simp: carregar_segmento_fatfs_def d_read_def b_lseek_def Let_def segment_image_def PT_LOAD_def word_gt_0)
qed

lemma carregar_fatfs_loop_places:
  assumes f: "file_reads (d_fat env) 0 F good" and l: "52 \<le> length F"
    and ok: "\<forall>i \<in> set is. unat (header_offset F i) + 32 \<le> length F \<and> loadable_header F (header_at F i)"
    and st: "good (b_fs st)"
  shows "\<exists>st'. carregar_fatfs_loop env (take 52 F) is phdr st = (True, st') \<and>
    b_mem st' = place_segments F (List.map (header_at F) is) (b_mem st)"
  using ok st
proof (induction "is" arbitrary: phdr st)
  case Nil
  then show ?case by simp
next
  case (Cons i "is")
  let ?ph = "header_at F i" and ?k = "header_offset F i"
  have ik: "unat ?k + 32 \<le> length F" "loadable_header F ?ph" using Cons.prems(1) by simp_all
  have off: "get32 (take 52 F) 0x1C + of_nat i * ucast (get16 (take 52 F) 0x2A) = ?k" by (simp add: header_offset_def add.commute)
  from b_read_after_seek [OF f Cons.prems(2), of 32 ?k] obtain f1 where
    r: "b_read (de_bios env) 0 32 (b_lseek (de_bios env) 0 ?k st) = (FR_OK, take 32 (drop (unat ?k) F), st\<lparr>b_fs := f1\<rparr>)" "good f1" by auto
  have ph: "program_header_of (take 32 (drop (unat ?k) F) @ drop 32 phdr) = ?ph"
    using ik(1) by (simp add: header_at_eq program_header_of_append)
  obtain st2 where st2: "(if ph_type ?ph = PT_LOAD then carregar_segmento_fatfs env ?ph (st\<lparr>b_fs := f1\<rparr>) else st\<lparr>b_fs := f1\<rparr>) = st2"
    "good (b_fs st2)" "b_mem st2 = place_segments F [?ph] (b_mem st)"
    using carregar_segmento_fatfs_places [OF f _ ik(2), of "st\<lparr>b_fs := f1\<rparr>"] r(2)
    by (cases "ph_type ?ph = PT_LOAD") (auto simp: PT_LOAD_def)
  have len: "length (take 32 (drop (unat ?k) F)) = 32" using ik(1) by simp
  show ?case
    using Cons.IH [of st2 "take 32 (drop (unat ?k) F) @ drop 32 phdr"] Cons.prems(1) r(1) ph st2 len
    by (simp only: carregar_fatfs_loop.simps off Let_def prod.case) simp
qed

lemma carregar_elf32_fatfs_places:
  assumes "loadable F" and f: "file_reads (d_fat env) 0 F good" "opens_file (d_fat env) name F good (b_fs st)"
    and n: "text_at (b_mem st) caminho = Some name"
  shows "\<exists>st'. carregar_elf32_fatfs env phdr caminho st = Some (get32 F 0x18, st') \<and>
    b_mem st' = place_segments F (headers F) (b_mem st)"
proof -
  have l: "52 \<le> length F" and F: "F ! 0 = 0x7F" "F ! 1 = 69" "F ! 2 = 76" "F ! 3 = 70" "F ! 5 = 2" "even (get32 F 0x18)"
    "\<forall>i \<in> set [0..<unat (get16 (take 52 F) 0x2C)]. unat (header_offset F i) + 32 \<le> length F \<and> loadable_header F (header_at F i)"
    using assms(1) by (auto simp: loadable_def)
  obtain f1 f2 where f1: "ff_open (d_fat env) 0 name FA_READ (b_fs st) = (FR_OK, f1)"
    "ff_read (d_fat env) 0 52 f1 = (FR_OK, take 52 F, f2)" "good f2"
    using f(2) unfolding opens_file_def by (auto dest: spec [of _ 52])
  from carregar_fatfs_loop_places [OF f(1) l F(7), of "st\<lparr>b_fs := f2\<rparr>" phdr] f1(3) obtain st2 where
    s: "carregar_fatfs_loop env (take 52 F) [0..<unat (get16 (take 52 F) 0x2C)] phdr (st\<lparr>b_fs := f2\<rparr>) = (True, st2)"
    "b_mem st2 = place_segments F (headers F) (b_mem st)" by (auto simp: headers_def)
  have e: "get32 (take 52 F) 0x18 = get32 F 0x18" using l by (simp add: get32_take)
  have len: "length (take 52 F) = 52" using l by simp
  have c: "b_mem (snd (d_close env 0 st2)) = b_mem st2" by (simp add: d_close_def split_def Let_def)
  show ?thesis using n f1 s F(1-6) len c
    by (simp add: carregar_elf32_fatfs_def d_open_def b_read_def e)
qed

section \<open>Saving and loading for BASIC\<close>

text \<open>FatFs: a file is opened for reading with its size, and read as a whole.\<close>

definition fat_loads :: "'fs fatfs \<Rightarrow> ('fs \<Rightarrow> u8 list \<Rightarrow> u8 list option) \<Rightarrow> bool" where
  "fat_loads fat files \<longleftrightarrow> (\<forall>fs name bs. files fs name = Some bs \<and> length bs < 2 ^ 32 \<longrightarrow>
     (\<exists>f. ff_open fat 0 name FA_READ fs = (FR_OK, f) \<and> ff_size fat 0 f = of_nat (length bs) \<and>
        (\<exists>f'. ff_read fat 0 (of_nat (length bs)) f = (FR_OK, bs, f'))))"

text \<open>The messages.\<close>

definition save_message :: "directive list" where
  "save_message = List.map Lit (bytes_of ''Save file ['') @ Directive [] False 115 # List.map Lit (bytes_of ''] size of '') @
     [Directive [] False 100, Lit 10]"

definition saved_message :: "directive list" where
  "saved_message = List.map Lit (bytes_of ''dump_memoria_para_arquivo: '' @ [39]) @ Directive [] False 115 #
     List.map Lit (39 # bytes_of '' gravado com sucesso ('') @ Directive [] False 117 # List.map Lit (bytes_of '' bytes)'') @ [Lit 10]"

definition loaded_message :: "directive list" where
  "loaded_message = List.map Lit (bytes_of ''Loaded '') @ Directive [] False 100 # List.map Lit (bytes_of '' bytes from file '') @
     Directive [] False 115 # List.map Lit (bytes_of '' to location '') @ [Directive [] True 88, Lit 10]"

definition basic_messages :: "directive list list" where
  "basic_messages = [save_message, saved_message, loaded_message]"

text \<open>The name at \<open>p\<close> and the messages are in memory; a block lies apart from them.\<close>

definition texts_in_place :: "'fs disk_env \<Rightarrow> mem \<Rightarrow> u32 \<Rightarrow> u8 list \<Rightarrow> bool" where
  "texts_in_place env m p name \<longleftrightarrow> cstr m p name \<and> length name < 2 ^ 31 \<and>
     (\<forall>ds \<in> set basic_messages. cstr m (be_lit (de_bios env) (format_text ds)) (format_text ds))"

definition off_texts :: "'fs disk_env \<Rightarrow> u32 \<Rightarrow> u8 list \<Rightarrow> u32 \<Rightarrow> nat \<Rightarrow> bool" where
  "off_texts env p name a n \<longleftrightarrow> disjoint_blocks a n p (Suc (length name)) \<and>
     (\<forall>ds \<in> set basic_messages. disjoint_blocks a n (be_lit (de_bios env) (format_text ds)) (Suc (length (format_text ds))))"

lemma messages_short: "ds \<in> set basic_messages \<Longrightarrow> length (format_text ds) < 2 ^ 32"
proof -
  have "\<forall>ds \<in> set basic_messages. length (format_text ds) < 100" by code_simp
  then show "ds \<in> set basic_messages \<Longrightarrow> length (format_text ds) < 2 ^ 32" by fastforce
qed

lemma texts_kept:
  assumes "texts_in_place env m p name" "off_texts env p name a (length bs)" "length bs \<le> 2 ^ 32"
  shows "texts_in_place env (wr_bytes m a bs) p name"
  using assms messages_short unfolding texts_in_place_def off_texts_def by (auto simp: cstr_wr_bytes)

definition counted :: "u32 \<Rightarrow> u32 \<Rightarrow> mem \<Rightarrow> mem" where
  "counted ret n m = (if ret = 0 then m else wr32 m ret n)"

definition count_place :: "'fs disk_env \<Rightarrow> u32 \<Rightarrow> u8 list \<Rightarrow> u32 \<Rightarrow> bool" where
  "count_place env p name ret \<longleftrightarrow> even ret \<and> (ret \<noteq> 0 \<longrightarrow> off_texts env p name ret 4)"

lemma store_count_counted: "count_place env p name ret \<Longrightarrow> store_count ret n st = Some (st\<lparr>b_mem := counted ret n (b_mem st)\<rparr>)"
  by (simp add: store_count_def counted_def count_place_def)

lemma texts_counted: "texts_in_place env m p name \<Longrightarrow> count_place env p name ret \<Longrightarrow> texts_in_place env (counted ret n m) p name"
  using texts_kept [of env m p name ret "be32 n"] by (simp add: counted_def count_place_def wr32_def)

lemma message_printed:
  assumes "texts_in_place env (b_mem st) p name" "ds \<in> set basic_messages" "prints (cstr (b_mem st)) ds args t"
    and "bytes_of fmt @ [10] = format_text ds"
  shows "\<exists>t. d_print_line env fmt args st = Some (st\<lparr>b_out := b_out st @ t\<rparr>)"
proof -
  have "\<forall>ds \<in> set basic_messages. \<forall>d \<in> set ds. plain_flags d" by code_simp
  with assms(1,2) printf_text [OF _ _ assms(3), of "be_lit (de_bios env) (format_text ds)"]
  show ?thesis unfolding d_print_line_def b_printf_def assms(4) texts_in_place_def by auto
qed

lemma basic_prints:
  assumes "str_at p name" "p \<noteq> 0"
  shows "\<exists>t. prints str_at save_message [p, n] t" "\<exists>t. prints str_at saved_message [p, n] t"
    "\<exists>t. prints str_at loaded_message [n, p, a] t"
proof -
  have fit: "flags_fit []" by code_simp
  note rules = prints_lits prints_string prints_signed [where c = 100, simplified] prints_unsigned prints_hex [where c = 88, simplified] prints_lit prints_end assms fit
  show "\<exists>t. prints str_at save_message [p, n] t"
    unfolding save_message_def by (rule exI, (rule rules)+)
  show "\<exists>t. prints str_at saved_message [p, n] t"
    unfolding saved_message_def by (rule exI, (rule rules)+)
  show "\<exists>t. prints str_at loaded_message [n, p, a] t"
    unfolding loaded_message_def by (rule exI, (rule rules)+)
qed

lemma basic_message_printed:
  assumes "texts_in_place env (b_mem st) p name" "p \<noteq> 0"
  shows "\<exists>t. d_print_line env ''Save file [%s] size of %d'' [p, n] st = Some (st\<lparr>b_out := b_out st @ t\<rparr>)"
    and "\<exists>t. d_print_line env (''dump_memoria_para_arquivo: '' @ [CHR 39] @ ''%s'' @ [CHR 39] @ '' gravado com sucesso (%u bytes)'') [p, n] st =
      Some (st\<lparr>b_out := b_out st @ t\<rparr>)"
    and "\<exists>t. d_print_line env ''Loaded %d bytes from file %s to location %lX'' [n, p, a] st = Some (st\<lparr>b_out := b_out st @ t\<rparr>)"
proof -
  have c: "cstr (b_mem st) p name" using assms(1) by (simp add: texts_in_place_def)
  have i: "save_message \<in> set basic_messages" "saved_message \<in> set basic_messages" "loaded_message \<in> set basic_messages"
    by (simp_all add: basic_messages_def)
  have f: "bytes_of ''Save file [%s] size of %d'' @ [10] = format_text save_message"
    "bytes_of (''dump_memoria_para_arquivo: '' @ [CHR 39] @ ''%s'' @ [CHR 39] @ '' gravado com sucesso (%u bytes)'') @ [10] = format_text saved_message"
    "bytes_of ''Loaded %d bytes from file %s to location %lX'' @ [10] = format_text loaded_message" by code_simp+
  note pr = basic_prints [of "cstr (b_mem st)", OF c assms(2), of n] basic_prints(3) [of "cstr (b_mem st)", OF c assms(2), of n a]
  show "\<exists>t. d_print_line env ''Save file [%s] size of %d'' [p, n] st = Some (st\<lparr>b_out := b_out st @ t\<rparr>)"
    using pr(1) message_printed [OF assms(1) i(1) _ f(1)] by blast
  show "\<exists>t. d_print_line env (''dump_memoria_para_arquivo: '' @ [CHR 39] @ ''%s'' @ [CHR 39] @ '' gravado com sucesso (%u bytes)'') [p, n] st =
      Some (st\<lparr>b_out := b_out st @ t\<rparr>)"
    using pr(2) message_printed [OF assms(1) i(2) _ f(2)] by blast
  show "\<exists>t. d_print_line env ''Loaded %d bytes from file %s to location %lX'' [n, p, a] st = Some (st\<lparr>b_out := b_out st @ t\<rparr>)"
    using pr(4) message_printed [OF assms(1) i(3) _ f(3)] by blast
qed

lemma do_save_basic_saves:
  assumes fat: "fat_saves (d_fat env) files handle" and t: "texts_in_place env (b_mem st) p name" "p \<noteq> 0"
    and a: "origem \<noteq> 0" "tamanho \<noteq> 0" and ret: "count_place env p name ret"
  shows "\<exists>st'. do_save_basic env 4 [p, origem, tamanho, ret] st = Some (0, st') \<and>
    b_mem st' = counted ret tamanho (b_mem st) \<and>
    files (b_fs st') = (files (b_fs st))(name \<mapsto> rd_bytes (b_mem st) origem (unat tamanho))"
proof -
  let ?bs = "rd_bytes (b_mem st) origem (unat tamanho)"
  have n: "text_at (b_mem st) p = Some name" using t(1) by (auto simp: texts_in_place_def dest: text_at_cstr)
  obtain f1 where f1: "ff_open (d_fat env) 0 name (FA_WRITE OR FA_CREATE_ALWAYS) (b_fs st) = (FR_OK, f1)"
    "files f1 = (files (b_fs st))(name \<mapsto> [])" "handle f1 = Some name" using fat unfolding fat_saves_def by blast
  obtain f2 where f2: "ff_write (d_fat env) 0 ?bs f1 = (FR_OK, of_nat (length ?bs), f2)"
    "files f2 = (files f1)(name \<mapsto> the (files f1 name) @ ?bs)" using fat f1(3) unfolding fat_saves_def by blast
  obtain f3 where f3: "ff_close (d_fat env) 0 f2 = (FR_OK, f3)" "files f3 = files f2" using fat unfolding fat_saves_def by blast
  obtain o1 where o1: "d_print_line env ''Save file [%s] size of %d'' [p, tamanho] st = Some (st\<lparr>b_out := b_out st @ o1\<rparr>)"
    using basic_message_printed(1) [OF t] by blast
  let ?st = "st\<lparr>b_out := b_out st @ o1, b_mem := counted ret tamanho (b_mem st), b_fs := f3\<rparr>"
  have t2: "texts_in_place env (b_mem ?st) p name" using texts_counted [OF t(1) ret] by simp
  obtain o2 where o2: "d_print_line env (''dump_memoria_para_arquivo: '' @ [CHR 39] @ ''%s'' @ [CHR 39] @ '' gravado com sucesso (%u bytes)'')
      [p, tamanho] ?st = Some (?st\<lparr>b_out := b_out ?st @ o2\<rparr>)"
    using basic_message_printed(2) [OF t2 t(2)] by blast
  have "do_save_basic env 4 [p, origem, tamanho, ret] st = Some (0, ?st\<lparr>b_out := b_out ?st @ o2\<rparr>)"
    using o1 n f1(1) f2(1) f3(1) o2 a t(2)
    by (simp add: do_save_basic_def d_open_def d_write_def d_close_def FR_OK_def store_count_counted [OF ret] del: rd_bytes.simps)
  then show ?thesis using f3(2) f2(2) f1(2) by simp
qed

lemma do_load_basic_loads:
  assumes fat: "fat_loads (d_fat env) files" and fi: "files (b_fs st) name = Some bs" "length bs \<le> unat size_buffer"
    and t: "texts_in_place env (b_mem st) p name" "p \<noteq> 0"
    and b: "off_texts env p name buffer (length bs)" and ret: "count_place env p name ret"
  shows "\<exists>st'. do_load_basic env 4 [p, buffer, size_buffer, ret] (h, st) = Some (0, h, st') \<and>
    b_mem st' = counted ret (of_nat (length bs)) (wr_bytes (b_mem st) buffer bs)"
proof -
  let ?n = "of_nat (length bs) :: u32"
  have n: "text_at (b_mem st) p = Some name" using t(1) by (auto simp: texts_in_place_def dest: text_at_cstr)
  have l: "length bs < 2 ^ 32" using fi(2) unat_less_32 [of size_buffer] by simp
  then have u: "unat ?n = length bs" by (simp add: unat_of_nat take_bit_nat_eq_self)
  obtain f1 f2 where f: "ff_open (d_fat env) 0 name FA_READ (b_fs st) = (FR_OK, f1)" "ff_size (d_fat env) 0 f1 = ?n"
    "ff_read (d_fat env) 0 ?n f1 = (FR_OK, bs, f2)" using fat fi(1) l unfolding fat_loads_def by blast
  let ?st = "st\<lparr>b_fs := f2, b_mem := counted ret ?n (wr_bytes (b_mem st) buffer bs)\<rparr>"
  have "texts_in_place env (b_mem ?st) p name"
    using texts_counted [OF texts_kept [OF t(1) b] ret] l by simp
  then obtain out where out: "d_print_line env ''Loaded %d bytes from file %s to location %lX'' [?n, p, buffer] ?st =
      Some (?st\<lparr>b_out := b_out ?st @ out\<rparr>)" using basic_message_printed(3) t(2) by blast
  have ng: "\<not> ?n > size_buffer" using fi(2) u by (simp add: word_less_nat_alt)
  have "do_load_basic env 4 [p, buffer, size_buffer, ret] (h, st) = Some (0, h, snd (d_close env 0 (?st\<lparr>b_out := b_out ?st @ out\<rparr>)))"
    using n f out ng by (simp add: do_load_basic_def d_open_def d_read_def FR_OK_def store_count_counted [OF ret])
  then show ?thesis by (simp add: d_close_def split_def Let_def)
qed

text \<open>
  C24: What BASIC saves is on the disk under its name, and loading it again puts the same bytes into the buffer,
  whatever happened to the memory in between; nothing else changes but the places of the two counts.
\<close>

theorem basic_program_saved_and_loaded:
  assumes "fat_saves (d_fat env) files handle" "fat_loads (d_fat env) files" "p \<noteq> 0" "origem \<noteq> 0" "tamanho \<noteq> 0"
    and "texts_in_place env (b_mem st) p name" "count_place env p name ret"
    and "texts_in_place env m p name" "count_place env p name ret2" "tamanho \<le> size_buffer" "off_texts env p name buffer (unat tamanho)"
  shows "\<exists>st1 st2. do_save_basic env 4 [p, origem, tamanho, ret] st = Some (0, st1) \<and>
    b_mem st1 = counted ret tamanho (b_mem st) \<and>
    files (b_fs st1) = (files (b_fs st))(name \<mapsto> rd_bytes (b_mem st) origem (unat tamanho)) \<and>
    do_load_basic env 4 [p, buffer, size_buffer, ret2] (h, st1\<lparr>b_mem := m\<rparr>) = Some (0, h, st2) \<and>
    b_mem st2 = counted ret2 tamanho (wr_bytes m buffer (rd_bytes (b_mem st) origem (unat tamanho)))"
proof -
  let ?bs = "rd_bytes (b_mem st) origem (unat tamanho)"
  from do_save_basic_saves [OF assms(1,6,3,4,5,7)] obtain st1 where
    s: "do_save_basic env 4 [p, origem, tamanho, ret] st = Some (0, st1)" "b_mem st1 = counted ret tamanho (b_mem st)"
    "files (b_fs st1) = (files (b_fs st))(name \<mapsto> ?bs)" by blast
  have "files (b_fs (st1\<lparr>b_mem := m\<rparr>)) name = Some ?bs" "length ?bs \<le> unat size_buffer" "texts_in_place env (b_mem (st1\<lparr>b_mem := m\<rparr>)) p name"
    "off_texts env p name buffer (length ?bs)" using s(3) assms(8,10,11) by (simp_all add: word_le_nat_alt del: rd_bytes.simps)
  from do_load_basic_loads [OF assms(2) this(1-3) assms(3) this(4) assms(9), of h] s show ?thesis by auto
qed

text \<open>C19: Both loaders enter the same program in the same memory.\<close>

theorem loaders_agree:
  assumes "loadable F" "file_reads (d_fat env) 0 F good" "opens_file (d_fat env) name F good (b_fs st)"
    and "text_at (b_mem st) (argv ! 0) = Some name" "image_at (b_mem st) p F" "image_ready p 0 F" "get32 F 0x18 \<noteq> 0"
  shows "\<exists>st'. b_mem st' = place_segments F (headers F) (b_mem st) \<and>
    do_runelf_fromhd env phdr argv st = map_option snd (be_run (de_bios env) (get32 F 0x18) [] st') \<and>
    do_runelf env [p, 0] st = map_option snd (be_run (de_bios env) (get32 F 0x18) [] (st\<lparr>b_mem := b_mem st'\<rparr>))"
proof -
  from carregar_elf32_fatfs_places [OF assms(1-4), of phdr] obtain st' where
    f: "carregar_elf32_fatfs env phdr (argv ! 0) st = Some (get32 F 0x18, st')" "b_mem st' = place_segments F (headers F) (b_mem st)" by blast
  have "List.map (moved 0) (headers F) = headers F" by (simp add: map_idI moved_def)
  with carregar_elf32_places [OF assms(1,6,5)] f assms(7) show ?thesis
    by (auto simp: do_runelf_fromhd_def do_runelf_def)
qed

section \<open>What goes wrong\<close>

lemma failed_open_reported_as_success:
  assumes "text_at (b_mem st) p = Some name" "ff_open (d_fat env) 0 name FA_READ (b_fs st) = (fr, f)" "fr \<noteq> FR_OK"
    and "d_print_line env ''Unable to open file %s'' [p] (st\<lparr>b_fs := f\<rparr>) = Some st2"
  shows "\<exists>st'. do_load_basic env 4 [p, buffer, size_buffer, ret] (h, st) = Some (0, h, st')"
  using assms by (simp add: do_load_basic_def d_open_def)

lemma long_file_clears_address_0:
  assumes "text_at (b_mem st) p = Some name" "ff_open (d_fat env) 0 name FA_READ (b_fs st) = (FR_OK, f)" "ff_size (d_fat env) 0 f > size_buffer"
    and "d_print_line env ''Unable to load file, file bigger than buffer.'' [] (st\<lparr>b_fs := f\<rparr>) = Some st2"
  shows "\<exists>st'. do_load_basic env 4 [p, buffer, size_buffer, ret] (h, st) = Some (- 1, h, st') \<and> b_mem st' = (b_mem st2)(0 := 0)"
  using assms by (simp add: do_load_basic_def d_open_def d_close_def split_def Let_def del: fun_upd_apply)

section \<open>The theorems at work\<close>

definition load_disk :: "'fs bios_env \<Rightarrow> 'fs disk_env" where
  "load_disk e = \<lparr>de_bios = e, de_chdir = (\<lambda>p w. (5, w)), de_unlink = (\<lambda>p w. (4, w)), de_mkdir = (\<lambda>p w. (8, w)),
     de_rmdir = (\<lambda>p w. (5, w)), de_rename = (\<lambda>p q w. (4, w)), de_mount = (\<lambda>v p w. (0, w)), de_opendir = (\<lambda>p w. (5, w)),
     de_readdir = (\<lambda>w. (0, \<lparr>fe_name = [], fe_attrib = 0, fe_date = 0, fe_time = 0, fe_size = 0\<rparr>, w)), de_closedir = (\<lambda>w. w),
     de_ide_mode = (\<lambda>m w. w), de_key_waits = (\<lambda>st. False), de_tick = (\<lambda>st. 0), de_registers = (\<lambda>st. st),
     de_syspath = 0x200, de_path = 0x400, de_arquivo = 0x500, de_buffer = 0x600, de_text = 0x900, de_fname = 0xA00\<rparr>"

text \<open>The file of \<open>BiosElf\<close> on the disk, under the name \<open>A\<close>, and in memory.\<close>

definition demo_image :: "u32 bios" where
  "demo_image = \<lparr>b_mem = wr_bytes (wr_bytes (\<lambda>_. 0) 0x2000 demo_elf) 0x3000 [65, 0], b_in = [], b_out = [], b_count = 0, b_fs = 0\<rparr>"

abbreviation "demo_segment \<equiv> \<lparr>ph_type = 1, ph_offset = 0x54, ph_paddr = 0x9000, ph_filesz = 2, ph_memsz = 3\<rparr>"

lemma demo_image_ready: "loadable demo_elf" "image_ready 0x2000 0 demo_elf" "image_at (b_mem demo_image) 0x2000 demo_elf"
  "place_segments demo_elf (headers demo_elf) m = wr_bytes m 0x9000 [0x4E, 0x75, 0]"
proof -
  have n: "unat (get16 (take 52 demo_elf) 0x2C) = 1" "length demo_elf = 86" "unat (header_offset demo_elf 0) = 0x34" by code_simp+
  have h: "header_at demo_elf 0 = demo_segment" "segment_image demo_elf demo_segment = [0x4E, 0x75, 0]" by code_simp+
  have e: "52 \<le> length demo_elf \<and> demo_elf ! 0 = 0x7F \<and> demo_elf ! 1 = 69 \<and> demo_elf ! 2 = 76 \<and> demo_elf ! 3 = 70 \<and> demo_elf ! 5 = 2"
    "get32 demo_elf 0x18 = 0x9000" "header_offset demo_elf 0 = 0x34" by code_simp+
  have ev: "even (0x9000 :: u32)" "even (0x34 :: u32)" by simp_all
  show "loadable demo_elf" using e(1,2) ev(1) n h by (simp add: loadable_def loadable_header_def)
  have d: "disjoint_blocks 0x9000 3 (0x2000 :: u32) 86" by (simp add: disjoint_blocks_def)
  then have "off_image 0x9000 3 0x2000 demo_elf" using disjoint_blocksD [OF d] by (simp add: off_image_def n)
  then show "image_ready 0x2000 0 demo_elf"
    using n e(3) ev(2) h by (simp add: image_ready_def clear_of_image_def moved_def numeral_3_eq_3)
  have d2: "disjoint_blocks 0x3000 2 (0x2000 :: u32) 86" by (simp add: disjoint_blocks_def)
  have l2: "length [65, 0 :: u8] = 2" by simp
  have "off_image 0x3000 (length [65, 0 :: u8]) 0x2000 demo_elf" unfolding l2 using disjoint_blocksD [OF d2] by (simp add: off_image_def n)
  moreover have "image_at (wr_bytes (\<lambda>_. 0) 0x2000 demo_elf) 0x2000 demo_elf"
    by (simp add: image_at_def n(2) rd_wr_bytes [of demo_elf, unfolded n(2)] del: rd_bytes.simps)
  ultimately have "image_at (wr_bytes (wr_bytes (\<lambda>_. 0) 0x2000 demo_elf) 0x3000 [65, 0]) 0x2000 demo_elf" by (rule image_kept [rotated])
  then show "image_at (b_mem demo_image) 0x2000 demo_elf" by (simp add: demo_image_def del: wr_bytes.simps)
  have "headers demo_elf = [demo_segment]" by code_simp
  then show "place_segments demo_elf (headers demo_elf) m = wr_bytes m 0x9000 [0x4E, 0x75, 0]" using h(2) by simp
qed

theorem loaders_agree_witness:
  "\<exists>st'. do_runelf_fromhd (load_disk demo_bios_env) (replicate 32 0) [0x3000] demo_image = Some st' \<and>
    do_runelf (load_disk demo_bios_env) [0x2000, 0] demo_image = Some (demo_image\<lparr>b_mem := b_mem st'\<rparr>) \<and>
    b_mem st' = wr_bytes (b_mem demo_image) 0x9000 [0x4E, 0x75, 0]"
proof -
  have f: "file_reads (d_fat (load_disk demo_bios_env)) 0 demo_elf (\<lambda>_. True)"
    "opens_file (d_fat (load_disk demo_bios_env)) [65] demo_elf (\<lambda>_. True) (b_fs demo_image)"
    by (simp_all add: file_reads_def opens_file_def load_disk_def demo_bios_env_def demo_volume_def FR_OK_def)
  have "cstr (b_mem demo_image) 0x3000 [65]" by code_simp
  then have n: "text_at (b_mem demo_image) ([0x3000] ! 0) = Some [65]" by (simp add: text_at_cstr)
  have e: "get32 demo_elf 0x18 = 0x9000" by code_simp
  from loaders_agree [OF demo_image_ready(1) f n demo_image_ready(3,2), of "replicate 32 0"] show ?thesis
    by (simp add: e demo_image_ready(4)) (auto simp: load_disk_def demo_bios_env_def)
qed

text \<open>A volume of named files.\<close>

definition volume_of_files :: "pico_world fatfs" where
  "volume_of_files = \<lparr>ff_open = (\<lambda>fil path mode w. (0, if mode = FA_READ then w\<lparr>pw_handle := Some path\<rparr>
        else w\<lparr>pw_files := (pw_files w)(path \<mapsto> []), pw_handle := Some path\<rparr>)),
     ff_close = (\<lambda>fil w. (0, w\<lparr>pw_handle := None\<rparr>)),
     ff_read = (\<lambda>fil n w. (0, take (unat n) (the (pw_files w (the (pw_handle w)))), w)),
     ff_write = (\<lambda>fil bs w. (case pw_handle w of None \<Rightarrow> (9, 0, w)
       | Some path \<Rightarrow> (0, of_nat (length bs), w\<lparr>pw_files := (pw_files w)(path \<mapsto> the (pw_files w path) @ bs)\<rparr>))),
     ff_lseek = (\<lambda>fil p w. (0, w)), ff_tell = (\<lambda>fil w. 0), ff_size = (\<lambda>fil w. of_nat (length (the (pw_files w (the (pw_handle w))))))\<rparr>"

definition demo_basic_env :: "pico_world disk_env" where
  "demo_basic_env = load_disk \<lparr>be_fat = volume_of_files, be_lit = (\<lambda>t. 0x1000 + 0x100 * of_nat (length t)), be_fileext = 0x2000,
     be_chdrive = (\<lambda>path w. (0, w)), be_command = (\<lambda>fn argv st. None), be_run = (\<lambda>entry argv st. None)\<rparr>"

definition demo_texts_mem :: mem where
  "demo_texts_mem = wr_bytes (wr_bytes (wr_bytes (wr_bytes (\<lambda>_. 0)
     (be_lit (de_bios demo_basic_env) (format_text save_message)) (format_text save_message @ [0]))
     (be_lit (de_bios demo_basic_env) (format_text saved_message)) (format_text saved_message @ [0]))
     (be_lit (de_bios demo_basic_env) (format_text loaded_message)) (format_text loaded_message @ [0])) 0x100 [65, 0]"

definition demo_basic :: "pico_world bios" where
  "demo_basic = \<lparr>b_mem = wr_bytes demo_texts_mem 0x4000 [72, 105], b_in = [], b_out = [], b_count = 0,
     b_fs = \<lparr>pw_left = [], pw_files = Map.empty, pw_handle = None\<rparr>\<rparr>"

lemma demo_message_lengths: "length (format_text save_message) = 26" "length (format_text saved_message) = 63"
    "length (format_text loaded_message) = 45"
  by code_simp+

lemma demo_basic_texts:
  "texts_in_place demo_basic_env demo_texts_mem 0x100 [65]" "texts_in_place demo_basic_env (b_mem demo_basic) 0x100 [65]"
  "count_place demo_basic_env 0x100 [65] 0x5000" "count_place demo_basic_env 0x100 [65] 0" "off_texts demo_basic_env 0x100 [65] 0x6000 2"
proof -
  have z: "0 \<notin> set (format_text save_message)" "0 \<notin> set (format_text saved_message)" "0 \<notin> set (format_text loaded_message)"
    by code_simp+
  have lit: "be_lit (de_bios demo_basic_env) t = 0x1000 + 0x100 * of_nat (length t)" for t
    by (simp add: demo_basic_env_def load_disk_def)
  have off: "off_texts demo_basic_env 0x100 [65] 0x4000 2" "off_texts demo_basic_env 0x100 [65] 0x5000 4" "off_texts demo_basic_env 0x100 [65] 0x6000 2"
    by (simp_all add: off_texts_def basic_messages_def lit demo_message_lengths disjoint_blocks_def)
  have l: "length [72, 105 :: u8] = 2" and le: "length [72, 105 :: u8] \<le> 2 ^ 32" by simp_all
  show t: "texts_in_place demo_basic_env demo_texts_mem 0x100 [65]"
    using cstr_wr_bytes_new [of "[65]"] cstr_wr_bytes_new [OF z(1)] cstr_wr_bytes_new [OF z(2)] cstr_wr_bytes_new [OF z(3)]
    by (simp add: texts_in_place_def basic_messages_def demo_texts_mem_def lit demo_message_lengths cstr_wr_bytes disjoint_blocks_def
        del: wr_bytes.simps cstr.simps)
  show "texts_in_place demo_basic_env (b_mem demo_basic) 0x100 [65]"
    using texts_kept [OF t off(1) [folded l] le] by (simp add: demo_basic_def)
  show "count_place demo_basic_env 0x100 [65] 0x5000" "count_place demo_basic_env 0x100 [65] 0" "off_texts demo_basic_env 0x100 [65] 0x6000 2"
    using off by (simp_all add: count_place_def)
qed

text \<open>The two characters at 0x4000 are saved as the file \<open>A\<close> and loaded to 0x6000.\<close>

theorem basic_program_saved_and_loaded_witness:
  "\<exists>st1. do_save_basic demo_basic_env 4 [0x100, 0x4000, 2, 0x5000] demo_basic = Some (0, st1) \<and>
    pw_files (b_fs st1) = [[65] \<mapsto> [72, 105]] \<and>
    (\<forall>h. \<exists>st2. do_load_basic demo_basic_env 4 [0x100, 0x6000, 16, 0] (h, st1\<lparr>b_mem := demo_texts_mem\<rparr>) = Some (0, h, st2) \<and>
       b_mem st2 = wr_bytes demo_texts_mem 0x6000 [72, 105])"
proof -
  have m: "FA_WRITE OR FA_CREATE_ALWAYS \<noteq> FA_READ" by code_simp
  have f: "fat_saves (d_fat demo_basic_env) pw_files pw_handle" "fat_loads (d_fat demo_basic_env) pw_files"
    using m by (simp_all add: fat_saves_def fat_loads_def demo_basic_env_def load_disk_def volume_of_files_def FR_OK_def unat_of_nat take_bit_nat_eq_self)
  have b: "rd_bytes (b_mem demo_basic) 0x4000 (unat (2 :: u32)) = [72, 105]" by code_simp
  have u: "off_texts demo_basic_env 0x100 [65] 0x6000 (unat (2 :: u32))" using demo_basic_texts(5) by simp
  have z: "counted 0 n m = m" for n m by (simp add: counted_def)
  have e: "pw_files (b_fs demo_basic) = Map.empty" by (simp add: demo_basic_def)
  note r = basic_program_saved_and_loaded [OF f _ _ _ demo_basic_texts(2,3,1,4) _ u, of "0x4000" "0x10", unfolded b z e]
  from r obtain st1 where s: "do_save_basic demo_basic_env 4 [0x100, 0x4000, 2, 0x5000] demo_basic = Some (0, st1)"
    "pw_files (b_fs st1) = [[65] \<mapsto> [72, 105]]" by auto
  have "\<exists>st2. do_load_basic demo_basic_env 4 [0x100, 0x6000, 16, 0] (h, st1\<lparr>b_mem := demo_texts_mem\<rparr>) = Some (0, h, st2) \<and>
      b_mem st2 = wr_bytes demo_texts_mem 0x6000 [72, 105]" for h
    using r [of h] s(1) by auto
  with s show ?thesis by blast
qed

end
