(* ===== verification/BiosMain.thy ===== *)
theory BiosMain
  imports BiosLines ShellHistory
begin

text \<open>
  The main loop of the BIOS (\<^verbatim>\<open>apps/bios/bios68.c\<close>): a line is read with the editor of \<open>ShellHistory\<close>, added to the
  history, executed by the interpreter of \<open>BiosCommand\<close>, and the prompt is shown.  The line lies in
  memory at \<open>me_cmd_buffer\<close>; \<open>f_getcwd\<close> and the addresses are the environment.
\<close>

section \<open>The loop\<close>

definition LINELEN :: nat where "LINELEN = 128"

record 'fs main_env =
  me_bios :: "'fs bios_env"
  me_getcwd :: "'fs \<Rightarrow> u8 \<times> u8 list \<times> 'fs"
  me_cmd_buffer :: u32  \<comment> \<open>\<open>g_cmd_buffer[LINELEN]\<close>\<close>
  me_syspath :: u32  \<comment> \<open>\<open>syspath[128]\<close>\<close>

definition display_prompt :: "'fs main_env \<Rightarrow> 'fs bios \<Rightarrow> 'fs bios option" where
  "display_prompt env st =
     (let (fr, path, fs) = me_getcwd env (b_fs st); st = st\<lparr>b_fs := fs\<rparr>
      in if fr = FR_OK then
           let m = wr_bytes (b_mem st) (me_syspath env) (path @ [0]);
               drv = m (me_syspath env) + 0x11;
               st = st\<lparr>b_mem := m(me_syspath env := drv)\<rparr>
           in if 65 \<le> schar drv \<and> schar drv \<le> 73 then b_printf (me_bios env) (bytes_of ''%s>'') [me_syspath env] st
              else b_printf (me_bios env) (bytes_of ''0:%s>'') [me_syspath env] st
         else b_printf (me_bios env) (bytes_of ''0:/> '') [] st)"

text \<open>
  The editor works on the array of the line, of which it never leaves the 128 cells; it takes the keys
  up to the one that ends the line.
\<close>

definition line_at :: "'fs main_env \<Rightarrow> 'fs bios \<Rightarrow> chars" where
  "line_at env st = (\<lambda>i. b_mem st (me_cmd_buffer env + of_nat i))"

definition read_command :: "'fs main_env \<Rightarrow> hist \<times> 'fs bios \<Rightarrow> (hist \<times> 'fs bios) option" where
  "read_command env s =
     (let (h, st) = s
      in map_option (\<lambda>(buf, h'). (h', st\<lparr>b_mem := wr_bytes (b_mem st) (me_cmd_buffer env) (List.map buf [0..<LINELEN]),
             b_in := tl (dropWhile (\<lambda>c. c \<noteq> KEY_ENTER) (b_in st)), b_out := h_out h'\<rparr>))
           (readline_with_history (b_in st) (line_at env st) (h\<lparr>h_out := b_out st\<rparr>)))"

definition main_round :: "'fs main_env \<Rightarrow> hist \<times> 'fs bios \<Rightarrow> (hist \<times> 'fs bios) option" where
  "main_round env s = do {
     (h, st) \<leftarrow> read_command env s;
     let h = history_add (line_at env st) h;
     st \<leftarrow> execute_cmd (me_bios env) (me_cmd_buffer env) st;
     st \<leftarrow> display_prompt env st;
     Some (h, st) }"

fun main_rounds :: "'fs main_env \<Rightarrow> nat \<Rightarrow> hist \<times> 'fs bios \<Rightarrow> (hist \<times> 'fs bios) option" where
  "main_rounds env 0 s = Some s"
| "main_rounds env (Suc n) s = Option.bind (main_round env s) (main_rounds env n)"

section \<open>A line and its command\<close>

lemma line_cells:
  assumes "line_rel buf (length s) s" "0 \<notin> set s"
  shows "\<exists>ys. List.map buf [0..<LINELEN] = s @ 0 # ys"
proof -
  have l: "length s < 128" "\<forall>i < length s. buf i = s ! i" "buf (length s) = 0" using assms(1) by (simp_all add: line_rel_def LINE_MAX_def)
  have u: "[0..<LINELEN] = [0..<length s] @ length s # [Suc (length s)..<LINELEN]"
    using l(1) upt_add_eq_append [of 0 "length s" "LINELEN - length s"] by (simp add: LINELEN_def upt_conv_Cons)
  have "List.map buf [0..<length s] = s" using l(2) by (intro nth_equalityI) simp_all
  then show ?thesis using l(3) unfolding u by simp
qed

lemma takeWhile_line: "0 \<notin> set s \<Longrightarrow> takeWhile (\<lambda>c. c \<noteq> 0) (s @ 0 # ys) = (s :: u8 list)"
  by (induction s) auto

text \<open>Reading a line: it lies in the buffer as the specification of the editor says.\<close>

lemma read_command_line:
  assumes "hist_rel h cmds" "b_in st = keys @ KEY_ENTER # rest" "KEY_ENTER \<notin> set keys" "0 \<notin> set (spec_line cmds keys)"
  shows "\<exists>h' st'. read_command env (h, st) = Some (h', st') \<and> hist_rel h' cmds \<and> b_in st' = rest \<and>
    cstr (b_mem st') (me_cmd_buffer env) (spec_line cmds keys) \<and> length (spec_line cmds keys) < LINE_MAX \<and>
    str_of (line_at env st') = spec_line cmds keys \<and>
    (\<forall>x. \<not> in_block (me_cmd_buffer env) LINELEN x \<longrightarrow> b_mem st' x = b_mem st x)"
proof -
  let ?h = "h\<lparr>h_out := b_out st, hist_cursor := - 1\<rparr>" and ?line = "spec_line cmds keys" and ?p = "me_cmd_buffer env"
  have "line_rel ((line_at env st)(0 := 0)) 0 []" by (simp add: line_rel_def LINE_MAX_def)
  moreover have "hist_rel ?h cmds" using assms(1) by (simp add: hist_rel_def)
  ultimately obtain buf h' where r: "readline_with_history (b_in st) (line_at env st) (h\<lparr>h_out := b_out st\<rparr>) = Some (buf, h')"
    "line_rel buf (length ?line) ?line" "hist_rel h' cmds"
    using readline_loop_spec [of "(line_at env st)(0 := 0)" 0 "[]" ?h cmds keys rest] assms(2,3)
    by (auto simp: readline_with_history_def spec_line_def)
  from line_cells [OF r(2) assms(4)] obtain ys where ys: "List.map buf [0..<LINELEN] = ?line @ 0 # ys" by blast
  have ll: "length (?line @ 0 # ys) = 128" unfolding ys [symmetric] by (simp add: LINELEN_def)
  have l: "length ?line < LINE_MAX" using r(2) by (simp add: line_rel_def)
  let ?m = "wr_bytes (b_mem st) ?p (?line @ 0 # ys)"
  have tk: "tl (dropWhile (\<lambda>c. c \<noteq> KEY_ENTER) (keys @ KEY_ENTER # rest)) = rest"
    using assms(3) by (induction keys) auto
  have c: "cstr ?m ?p ?line" using ll by (intro cstr_wr_prefix assms(4)) simp
  have cells: "List.map (\<lambda>i. ?m (?p + of_nat i)) [0..<LINE_MAX] = ?line @ 0 # ys"
    by (rule nth_equalityI) (use ll wr_bytes_nth [of _ "?line @ 0 # ys" "b_mem st" ?p] in \<open>simp_all add: LINE_MAX_def\<close>)
  have frame: "\<forall>x. \<not> in_block ?p LINELEN x \<longrightarrow> ?m x = b_mem st x"
    using ll by (auto simp: LINELEN_def intro!: wr_bytes_frame)
  show ?thesis
    using r(1,3) l c frame cells takeWhile_line [OF assms(4), of ys]
    by (simp add: read_command_def ys assms(2) tk str_of_def line_at_def)
qed

lemma names_apart_from_part:
  "names_in_place env m p n \<Longrightarrow> k \<le> n \<Longrightarrow> names_in_place env m p k"
  by (auto simp: names_in_place_def disjoint_blocks_def)

lemma names_in_place_frame:
  assumes "names_in_place env m p n" "\<forall>x. \<not> in_block p n x \<longrightarrow> m' x = m x"
  shows "names_in_place env m' p n"
  using assms names_kept [OF assms] by (auto simp: names_in_place_def)

text \<open>
  C17: A line that is typed, with whatever editing and recalling, and whose first word names a command calls that
  command with its other words; then the prompt is shown.  The line, not the words it has been cut
  into, is the most recent of the history, and the keys behind it wait for the next round.
\<close>

theorem typed_line_calls_command:
  assumes hist: "hist_rel h cmds" and keys: "b_in st = keys @ KEY_ENTER # rest" "KEY_ENTER \<notin> set keys"
    and line: "spec_line cmds keys = spaced ws" "0 \<notin> set (spaced ws)"
    and ws: "spaced_ok ws" "ws \<noteq> []" "length ws < 40"
    and lit: "names_in_place (me_bios env) (b_mem st) (me_cmd_buffer env) LINELEN"
    and e: "e \<in> set g_cmd_table" "List.map fold_case (fst (hd ws)) = ce_name e"
    and args: "ce_min_args e \<le> int (length ws) - 1" "ce_max_args e = 0 \<or> int (length ws) - 1 \<le> ce_max_args e"
  shows "\<exists>as st' h'. main_round env (h, st) =
      Option.bind (be_command (me_bios env) (ce_function e) as st') (\<lambda>st2. map_option (Pair h') (display_prompt env st2)) \<and>
    list_all2 (cstr (b_mem st')) as (List.map fst (tl ws)) \<and> b_in st' = rest \<and>
    (\<forall>x. \<not> in_block (me_cmd_buffer env) LINELEN x \<longrightarrow> b_mem st' x = b_mem st x) \<and>
    hist_rel h' (take HIST_SIZE (spaced ws # cmds))"
proof -
  let ?p = "me_cmd_buffer env"
  from read_command_line [OF hist keys, of env] line obtain h1 st1 where
    r: "read_command env (h, st) = Some (h1, st1)" "hist_rel h1 cmds" "b_in st1 = rest" "cstr (b_mem st1) ?p (spaced ws)"
    "length (spaced ws) < LINE_MAX" "str_of (line_at env st1) = spaced ws"
    "\<forall>x. \<not> in_block ?p LINELEN x \<longrightarrow> b_mem st1 x = b_mem st x" by auto
  have l: "length (spaced ws) \<le> LINELEN" "length (spaced ws) < 2 ^ 32" using r(5) by (simp_all add: LINE_MAX_def LINELEN_def)
  have n: "names_in_place (me_bios env) (b_mem st1) ?p (length (spaced ws))"
    using names_apart_from_part [OF names_in_place_frame [OF lit r(7)] l(1)] .
  from execute_cmd_calls_command [OF ws r(4) l(2) n e args] obtain as m' where
    x: "execute_cmd (me_bios env) ?p st1 = be_command (me_bios env) (ce_function e) as (st1\<lparr>b_mem := m'\<rparr>)"
    "list_all2 (cstr m') as (List.map fst (tl ws))" "\<forall>x. \<not> in_block ?p (length (spaced ws)) x \<longrightarrow> m' x = b_mem st1 x" by blast
  have ne: "spaced ws \<noteq> []" using ws(1,2) by (cases ws rule: spaced.cases) auto
  then have "line_at env st1 0 \<noteq> 0" using r(4) cstr_nonzero [OF r(4)] by (cases "spaced ws") (auto simp: line_at_def)
  with history_add_rel [OF r(2), of "line_at env st1"] r(5,6)
  have hr: "hist_rel (history_add (line_at env st1) h1) (take HIST_SIZE (spaced ws # cmds))" by simp
  have pair: "Option.bind y (\<lambda>st. Some (k, st)) = map_option (Pair k) y" for k :: hist and y :: "'a bios option" by (cases y) auto
  have f: "\<forall>x. \<not> in_block ?p LINELEN x \<longrightarrow> m' x = b_mem st x" using r(7) x(3) l(1) by (auto simp: in_block_def)
  have "main_round env (h, st) = Option.bind (be_command (me_bios env) (ce_function e) as (st1\<lparr>b_mem := m'\<rparr>))
      (\<lambda>st2. map_option (Pair (history_add (line_at env st1) h1)) (display_prompt env st2))"
    by (simp add: main_round_def r(1) x(1) pair)
  then show ?thesis using x(2) r(3) f hr
    by (intro exI [of _ as] exI [of _ "st1\<lparr>b_mem := m'\<rparr>"] exI [of _ "history_add (line_at env st1) h1"]) simp
qed

text \<open>The arrow and the return key give the line before once more.\<close>

lemma arrow_up_recalls: "spec_line (line # cmds) [KEY_UP] = line"
  by (simp add: spec_line_def KEY_UP_def KEY_BS_def)

text \<open>The prompt shows the drive as a letter.\<close>

lemma prompt_shows_letter:
  assumes "me_getcwd env (b_fs st) = (FR_OK, d # path, fs)" "48 \<le> d" "d \<le> 56" "0 \<notin> set path" "length path < 127"
    and lit: "cstr (b_mem st) (be_lit (me_bios env) (bytes_of ''%s>'')) (bytes_of ''%s>'')" "me_syspath env \<noteq> 0"
    and "disjoint_blocks (me_syspath env) (Suc (Suc (length path))) (be_lit (me_bios env) (bytes_of ''%s>'')) 4"
  shows "\<exists>m. display_prompt env st = Some (st\<lparr>b_fs := fs, b_mem := m, b_out := b_out st @ (d + 0x11) # path @ [62]\<rparr>)"
proof -
  let ?p = "me_syspath env" and ?t = "be_lit (me_bios env) (bytes_of ''%s>'')" and ?bs = "(d + 0x11) # path @ [0]"
  have m: "(wr_bytes (b_mem st) ?p ((d # path) @ [0]))(?p := d + 0x11) = wr_bytes (b_mem st) ?p ?bs"
  proof -
    have "\<not> in_block (?p + 1) (length (path @ [0])) ?p" using assms(5) by (intro not_in_next_block) simp
    then show ?thesis using assms(5) by (auto simp: fun_eq_iff wr_bytes_apply)
  qed
  have f: "wr_bytes (b_mem st) ?p ((d # path) @ [0]) ?p = d" using wr_bytes_nth [of 0 "(d # path) @ [0]" "b_mem st" ?p] assms(5) by simp
  have d: "65 \<le> schar (d + 0x11)" "schar (d + 0x11) \<le> 73" "d + 0x11 \<noteq> 0"
  proof -
    have u: "uint (d + 0x11) = uint d + 17" "48 \<le> uint d" "uint d \<le> 56"
      using assms(2,3) by (simp_all add: word_le_def uint_word_ariths)
    then have "schar (d + 0x11) = uint d + 17" by (simp add: sint_uint signed_take_bit_int_eq_self_iff)
    with u show "65 \<le> schar (d + 0x11)" "schar (d + 0x11) \<le> 73" "d + 0x11 \<noteq> 0" by auto
  qed
  have n: "cstr (wr_bytes (b_mem st) ?p ?bs) ?p ((d + 0x11) # path)"
    using cstr_wr_bytes_new [of "(d + 0x11) # path" "b_mem st" ?p] assms(4,5) d(3) by simp
  have b: "bytes_of ''%s>'' = format_text [Directive [] False 115, Lit 62]" by code_simp
  have pf: "\<forall>e \<in> set [Directive [] False 115, Lit 62]. plain_flags e" by code_simp
  have "length ?bs \<le> 2 ^ 32" "length (bytes_of ''%s>'') = 3" using assms(5) by (simp_all add: b)
  then have "cstr (wr_bytes (b_mem st) ?p ?bs) ?t (format_text [Directive [] False 115, Lit 62])"
    unfolding b [symmetric] using lit(1) assms(8) by (subst cstr_wr_bytes) simp_all
  moreover have "prints (cstr (wr_bytes (b_mem st) ?p ?bs)) [Directive [] False 115, Lit 62] [?p] (((d + 0x11) # path) @ [62])"
    by (intro prints_string prints_lit prints_end n lit(2))
  ultimately have "printf (wr_bytes (b_mem st) ?p ?bs) ?t [?p] = Some (length (((d + 0x11) # path) @ [62]), ((d + 0x11) # path) @ [62])"
    using printf_text [OF _ pf] by blast
  then show ?thesis
    using d assms(1) by (intro exI [of _ "wr_bytes (b_mem st) ?p ?bs"])
      (simp add: display_prompt_def Let_def f m b_printf_def del: wr_bytes.simps append.simps)
qed

section \<open>The theorem at work\<close>

text \<open>The keys \<open>RM z\<close>, backspace, \<open>x\<close>, return; the working directory is not known.\<close>

definition demo_main_env :: "unit main_env" where
  "demo_main_env = \<lparr>me_bios = demo_cmd_env, me_getcwd = (\<lambda>fs. (1, [], fs)), me_cmd_buffer = 0x8000, me_syspath = 0x9000\<rparr>"

definition demo_typing :: "unit bios" where
  "demo_typing = \<lparr>b_mem = demo_bios_mem, b_in = [82, 77, 32, 122, KEY_BS, 120, KEY_ENTER, 33], b_out = [], b_count = 0, b_fs = ()\<rparr>"

theorem typed_line_calls_command_witness:
  "\<exists>h' st'. main_round demo_main_env (demo_hist, demo_typing) = Some (h', st') \<and> hist_rel h' [bytes_of ''RM x''] \<and> b_in st' = [33]"
proof -
  let ?ws = "[(bytes_of ''RM'', 1), (bytes_of ''x'', 0)]" and ?keys = "[82, 77, 32, 122, KEY_BS, 120]"
  let ?e = "\<lparr>ce_name = bytes_of ''rm'', ce_min_args = 1, ce_max_args = 1, ce_function = fn_do_delete\<rparr>"
  have k: "KEY_ENTER \<notin> set ?keys" by (simp add: KEY_ENTER_def KEY_BS_def)
  have i: "b_in demo_typing = ?keys @ KEY_ENTER # [33]" by (simp add: demo_typing_def)
  have l: "spec_line [] ?keys = spaced ?ws" by code_simp
  have z: "0 \<notin> set (spaced ?ws)" by code_simp
  have o: "spaced_ok ?ws" "List.map fold_case (bytes_of ''RM'') = bytes_of ''rm''" "spaced ?ws = bytes_of ''RM x''" by code_simp+
  have e: "?e \<in> set g_cmd_table" by (simp add: g_cmd_table_def)
  have n: "names_in_place (me_bios demo_main_env) (b_mem demo_typing) (me_cmd_buffer demo_main_env) LINELEN"
    using demo_names_in_place by (simp add: names_in_place_def disjoint_blocks_def demo_main_env_def demo_typing_def LINELEN_def
        demo_cmd_env_def demo_name_at_def demo_names_def g_cmd_table_def bytes_of_def)
  have "length ?ws < 40" by simp
  from typed_line_calls_command [OF demo_hist_rel i k l z o(1) _ this n e] o(2,3) obtain as st' h' where
    r: "main_round demo_main_env (demo_hist, demo_typing) =
      Option.bind (be_command demo_cmd_env fn_do_delete as st') (\<lambda>st2. map_option (Pair h') (display_prompt demo_main_env st2))"
    "b_in st' = [33]" "hist_rel h' (take HIST_SIZE [bytes_of ''RM x''])"
    "\<forall>x. \<not> in_block 0x8000 128 x \<longrightarrow> b_mem st' x = demo_bios_mem x"
    by (auto simp: demo_main_env_def demo_typing_def LINELEN_def)
  have nl: "length (takeWhile (\<lambda>u. u \<noteq> bytes_of ''0:/> '') demo_names) = 22" by code_simp
  have "b_mem st' 0x1160 = 0" using r(4) by (simp add: in_block_def demo_bios_mem_def)
  then have p: "printf (b_mem st') 0x1160 [] = Some (0, [])" using printf_text [OF _ _ prints_end, of "b_mem st'" "0x1160" "[]"] by simp
  have "display_prompt demo_main_env (b_putchar c st') = Some (b_putchar c st')" for c
    using p by (simp add: display_prompt_def demo_main_env_def b_printf_def demo_cmd_env_def demo_name_at_def nl FR_OK_def b_putchar_def)
  then have "main_round demo_main_env (demo_hist, demo_typing) = Some (h', b_putchar (b_mem st' (as ! 0)) st')"
    using r(1) by (simp add: demo_cmd_env_def)
  then show ?thesis using r(2,3) by (simp add: b_putchar_def HIST_SIZE_def)
qed

end
