(* ===== verification/Spec2Isabelle.thy ===== *)
theory Spec2Isabelle
  imports Scheduler ContextSwitch RingBuffer CStrings CSearch NumConv Mutex TaskCreate
    Vfs Slots PicLoader Crc32 ShellHistory FileSyscall Malloc Printf Shell ShellLines ShellCommands Arith68k CmdRepeat BiosCommand BiosLines BiosElf VfsCalls
    I2cRtc I2cBus DhcpClient DhcpPacket DhcpChip BiosDisk BiosMem AtaDisk AtaChip PicoLink PicoFile BiosLoad LoadImage BiosMain
begin

text \<open>
  Orion68 is a computer with a 68000 processor, and this library models the C and assembler
  code that runs on it, under \<^verbatim>\<open>src/env_68k\<close>: a BIOS (\<^verbatim>\<open>apps/bios\<close>), which reaches the
  hardware and the FatFs file system and answers the calls of programs by traps; a small
  preemptive kernel (\<^verbatim>\<open>apps/kernel\<close>); a shell (\<^verbatim>\<open>apps/shell\<close>) with a virtual file system and a
  loader of position independent programs; and the C library they are linked with
  (\<^verbatim>\<open>libc\<close>, \<^verbatim>\<open>libfileio\<close>).

  The machine.  \<open>Prelude\<close> has the flat byte memory, addresses of 32 bits, big-endian words
  in memory and C strings as byte lists in memory, with the rules for reading what was
  written and for writes that do not overlap.  Machine integers keep their width and
  wrap; a \<open>char\<close> is a byte that is compared as a signed number (\<open>schar\<close>) where the code does.
  The null pointer is 0.  A loop that may not end is a \<open>partial_function (option)\<close>, so \<open>None\<close>
  stands for a loop that never ends, an access through a null pointer where the code would go
  wrong, or a device that never answers; a loop that counts is a recursion on a number.  No
  fuel is used.

  The kernel.
  \<^item> \<open>Scheduler\<close> (\<^verbatim>\<open>scheduler.c\<close>): the pool of task blocks, the circular ready list linked by
    indices, and all \<open>OS_\<close> calls.  The ring stays well formed under every sequence of
    calls, each call implements an operation of a queue of runnable tasks, and a runnable
    task runs within one round (locale \<open>round_robin\<close>, interpreted on the scheduler).
  \<^item> \<open>ContextSwitch\<close> (\<^verbatim>\<open>ctx_switch_68000.S\<close>): the registers, the frame the timer interrupt
    pushes, and its restoration.  What the call of the compiled \<open>OS_Schedule\<close> pushes below it, the
    return address and a frame of bounded size, is an argument.
  \<^item> \<open>Mutex\<close> (\<^verbatim>\<open>mutex.c\<close>): an owner and a first-in first-out list of waiting tasks.  The file has a
    task block of its own that does not fit the one of \<^verbatim>\<open>scheduler.h\<close>, so the scheduler it calls is
    a parameter.
  \<^item> \<open>TaskCreate\<close> (\<^verbatim>\<open>task_create.c\<close>): copying arguments into the slot of a program and building
    its first frame.

  The BIOS.
  \<^item> \<open>RingBuffer\<close> (\<^verbatim>\<open>kbd/ringbuffer.c\<close>): the keyboard buffer with its wrapping byte indices
    (locale \<open>byte_queue\<close>, interpreted on the buffer), against a queue over all sequences of calls.
  \<^item> \<open>ShellHistory\<close> (\<^verbatim>\<open>shell/shell_history.c\<close>): line editing with a history of sixteen lines.
  \<^item> \<open>Crc32\<close> (\<^verbatim>\<open>shell/crc32.c\<close>): the table and the unrolled loop against a bitwise reference.
  \<^item> \<open>FileSyscall\<close>: the way of a file call through all layers: the wrapper of \<^verbatim>\<open>libfileio\<close>, the
    trap, the dispatcher \<open>TrapCHandler\<close> of \<^verbatim>\<open>vectors_asm.S\<close>, the stub of \<^verbatim>\<open>trap12_asm.S\<close> and the
    function of \<^verbatim>\<open>trap12.c\<close>, to FatFs, which is a parameter, as are the frames of compiled C functions.
  \<^item> \<open>CmdRepeat\<close> (\<^verbatim>\<open>shell/cmd_repeat.c\<close>): the older recall of commands with the arrow keys, over one
    wrapping array; nothing calls its \<open>keyboard_handler\<close> any more.
  \<^item> \<open>BiosCommand\<close> (\<^verbatim>\<open>shell/decodecmd.c\<close>), \<open>BiosLines\<close>, \<open>BiosElf\<close>: the command interpreter.  \<open>main\<close> reads
    a line with \<open>readline_with_history\<close> and gives it to \<open>execute_cmd\<close>, which splits it in place, looks up
    the command table and, failing that, loads an ELF file of that name.  \<open>BiosLines\<close> shows that a line
    calls the command it names, \<open>BiosElf\<close> what a loaded program finds in memory.
  \<^item> \<open>BiosMain\<close> (\<^verbatim>\<open>bios68.c\<close>): the prompt and the main loop, which joins the line editor, the history and the
    interpreter; a typed line is followed from the keys to the command.
  \<^item> \<open>BiosDisk\<close> (\<^verbatim>\<open>shell/commands.c\<close>, \<^verbatim>\<open>dump/mem_dump.c\<close>) has the commands themselves, with FatFs and
    the arrays of the functions in its environment; \<open>BiosMem\<close> shows what those that write memory and
    those that make paths do.
  \<^item> \<open>PicoLink\<close> (\<^verbatim>\<open>shell/picow.c\<close> and the commands that use it): files that come over the wire from the
    Pico or over the serial line.  \<open>PicoFile\<close> shows that an intact file is saved and a damaged one is not, which
    rests on \<open>Crc32\<close>, and that the downloads over the serial line never end.
  \<^item> \<open>BiosLoad\<close> (\<^verbatim>\<open>shell/elf_loader.c\<close> and the rest of \<^verbatim>\<open>shell/commands.c\<close>): a second loader of ELF
    programs, from memory and from a file, and loading and saving for BASIC.  \<open>LoadImage\<close> shows that the two
    ways of loading agree and that BASIC loads what it saved.
  \<^item> \<open>AtaDisk\<close> (\<^verbatim>\<open>ide/ata.c\<close>, \<^verbatim>\<open>ide/diskio.c\<close>): the disk below FatFs.  \<open>AtaChip\<close> states how a drive of the ATA
    command set answers to its registers when it is neither busy nor in the middle of a block of data, and
    shows what FatFs gets from the functions it calls; and that detecting the drive leaves it in the middle of
    such a block, so nothing is shown of the initialisation as a whole.
  \<^item> \<open>I2cRtc\<close> (\<^verbatim>\<open>rtc/i2cbb.c\<close>, \<^verbatim>\<open>rtc/get_fattime.c\<close>): the two wires to the clock and to the memory chip,
    driven bit by bit through the port of the serial controller.  The port is a parameter; \<open>I2cBus\<close>
    states what is relied on as the state machine of a device on such a bus, and that the bytes reach it.
  \<^item> \<open>DhcpClient\<close> (\<^verbatim>\<open>sys/ethernet/dhcp_client.c\<close>): the registers of the network chip, its ring of bytes and
    the exchange of four messages.  \<open>DhcpPacket\<close> describes a message as a list of options; \<open>DhcpChip\<close> the
    chip with a network behind it that answers a datagram with at most one, which goes to the write
    pointer of the receive ring; what waits is its distance from the read pointer.

  The C library.
  \<^item> \<open>CStrings\<close> and \<open>CSearch\<close>: the functions of \<^verbatim>\<open>libc/src/string\<close> and the character classes.
  \<^item> \<open>NumConv\<close>: numbers to text and back (\<^verbatim>\<open>libc/src/stdlib\<close>).
  \<^item> \<open>Printf\<close>: \<open>printf\<close>, \<open>sprintf\<close> and their conversions without division, against an inductive
    description of what a format prints (two of them, because \<open>sprintf\<close> does not know the modifier \<open>l\<close>).
  \<^item> \<open>Malloc\<close>: the heap of three block lists (free, used, fresh) with an invariant that says that
    the lists are disjoint chains over all blocks, that blocks in use do not overlap and lie
    inside the heap.
  \<^item> \<open>Arith68k\<close>: the 32-bit multiplication and division, instruction by instruction on registers.

  The shell.
  \<^item> \<open>VfsDrivers\<close>, \<open>VfsFiles\<close> and \<open>Vfs\<close>: the drivers, the driver table and the table of 256
    descriptors; function pointers are names of functions, \<open>File\<close> objects are numbers in a heap,
    and of \<open>malloc\<close> only the number of allocations that still succeed is kept (the allocator
    itself is \<open>Malloc\<close>).  Sequential reading is the locale \<open>seq_file\<close>, interpreted on the files
    under \<open>/proc\<close>.
  \<^item> \<open>Slots\<close> and \<open>PicLoader\<close> (\<^verbatim>\<open>slots.c\<close>, \<^verbatim>\<open>loader_pic.c\<close>): the slots programs are loaded into, the
    reading of an ELF file, the patching of its offset table and its relocations.  The file is
    a function from offset and length to a result and bytes; the program that is started is a
    parameter.
  \<^item> \<open>VfsCalls\<close>: sequences of calls on the file system, the typing of descriptors, files and their
    private data, and that only a call that waits for a device does not return.
  \<^item> \<open>Shell\<close> (\<^verbatim>\<open>shell.c\<close>): the line editor, \<open>execute_line\<close> with its redirections, the commands, the boot
    script and the main loop, on the flat memory, the virtual file system and FatFs.  \<open>ShellLines\<close>
    follows a line to the command it names, \<open>ShellCommands\<close> the commands and the line editor.

  Not modelled.  FatFs, lwIP, the vendored interpreters and the retired copies of the programs
  are not this program's own code, or older states of it.  The drivers that only move bits to
  device registers (video, serial line) have no state of their own that
  a theorem could speak of without a model of the device.  Misaligned accesses are represented in \<open>AtaDisk\<close> and
  \<open>BiosLoad\<close> only, bus errors nowhere; code runs in supervisor mode, as all of this system does.  The
  messages the loader prints and the log of the kernel are left out.  The counters of type \<open>int\<close>
  that only count objects in memory are unbounded numbers.  The address space wraps at
  32 bits, where the processor puts 24 on its bus.
\<close>

end
